(* ===== verification/Prelude.thy ===== *)
theory Prelude
  imports Complex_Main "HOL-Library.AList" "HOL-Library.Sublist"
begin

text \<open>
  Shared vocabulary of the development.

  \<^item> The parts of JavaScript and of its standard library that the daemon uses: insertion-ordered
    \<open>Map\<close>s as association lists, strings as lists of code units below 256, JSON values with
    property access, arrays as lists.
  \<^item> The tables of the SQLite stores, as the list of their rows in row-id order.
  \<^item> Two contracts several components share, stated as locales and interpreted by the components:
    \<open>lifecycle\<close> (a keyed state machine whose operations follow a transition graph) and
    \<open>window_gate\<close> (a gate that lets one event per key through in a time window).

  Points in time are epoch milliseconds (\<open>Date.now()\<close>). An ISO-8601 string produced by
  \<open>Date.toISOString\<close> is represented by the instant it denotes: for the years 0 to 9999 the format
  has a fixed width, so comparing the strings and comparing the instants agree.
\<close>

section \<open>Collections of facts\<close>

named_theorems js_simps \<open>evaluation rules for the JavaScript vocabulary\<close>
named_theorems table_simps \<open>rewrite rules for tables of rows\<close>

type_synonym time = int

section \<open>Insertion-ordered maps\<close>

text \<open>
  A JavaScript \<open>Map\<close> keeps its keys in insertion order, and \<open>set\<close> on a present key keeps the key's
  position. \<open>AList.update\<close> is exactly that operation, and \<open>AList.delete\<close> is \<open>Map.delete\<close>.
\<close>

type_synonym ('k, 'v) jsmap = "('k \<times> 'v) list"

abbreviation m_get :: "('k, 'v) jsmap \<Rightarrow> 'k \<Rightarrow> 'v option" where
  "m_get m k \<equiv> map_of m k"

abbreviation m_set :: "'k \<Rightarrow> 'v \<Rightarrow> ('k, 'v) jsmap \<Rightarrow> ('k, 'v) jsmap" where
  "m_set k v m \<equiv> AList.update k v m"

abbreviation m_del :: "'k \<Rightarrow> ('k, 'v) jsmap \<Rightarrow> ('k, 'v) jsmap" where
  "m_del k m \<equiv> AList.delete k m"

abbreviation m_keys :: "('k, 'v) jsmap \<Rightarrow> 'k list" where
  "m_keys m \<equiv> map fst m"

abbreviation m_vals :: "('k, 'v) jsmap \<Rightarrow> 'v list" where
  "m_vals m \<equiv> map snd m"

definition m_inv :: "('k, 'v) jsmap \<Rightarrow> bool" where
  "m_inv m \<longleftrightarrow> distinct (m_keys m)"

text \<open>Deleting while iterating over a \<open>Map\<close>, and changing every entry in place.\<close>

definition m_filter :: "('k \<Rightarrow> 'v \<Rightarrow> bool) \<Rightarrow> ('k, 'v) jsmap \<Rightarrow> ('k, 'v) jsmap" where
  "m_filter p m = filter (\<lambda>(k, v). p k v) m"

definition m_map :: "('v \<Rightarrow> 'w) \<Rightarrow> ('k, 'v) jsmap \<Rightarrow> ('k, 'w) jsmap" where
  "m_map f m = map (\<lambda>(k, v). (k, f v)) m"

lemma m_get_set [simp, js_simps]: "m_get (m_set k v m) k' = (if k' = k then Some v else m_get m k')"
  by (simp add: update_conv')

lemma m_get_del [simp, js_simps]: "m_get (m_del k m) k' = (if k' = k then None else m_get m k')"
  by (simp add: delete_conv')

lemma m_inv_Nil [simp]: "m_inv []"
  by (simp add: m_inv_def)

lemma m_inv_set [simp]: "m_inv m \<Longrightarrow> m_inv (m_set k v m)"
  by (simp add: m_inv_def distinct_update)

lemma m_inv_del [simp]: "m_inv m \<Longrightarrow> m_inv (m_del k m)"
  by (simp add: m_inv_def distinct_delete)

lemma m_inv_filter [simp]: "m_inv m \<Longrightarrow> m_inv (m_filter p m)"
  by (induction m) (auto simp: m_inv_def m_filter_def)

lemma m_keys_map [simp]: "m_keys (m_map f m) = m_keys m"
  by (induction m) (auto simp: m_map_def)

lemma m_inv_map [simp]: "m_inv (m_map f m) \<longleftrightarrow> m_inv m"
  by (simp add: m_inv_def)

lemma m_get_map [simp, js_simps]: "m_get (m_map f m) k = map_option f (m_get m k)"
  by (induction m) (auto simp: m_map_def)

lemma m_get_filter [simp]:
  "m_inv m \<Longrightarrow> m_get (m_filter p m) k =
     (case m_get m k of None \<Rightarrow> None | Some v \<Rightarrow> if p k v then Some v else None)"
proof (induction m)
  case Nil
  then show ?case by (simp add: m_filter_def)
next
  case (Cons kv m)
  then have "m_inv m" and "fst kv \<notin> set (m_keys m)"
    by (auto simp: m_inv_def)
  moreover have "m_get m (fst kv) = None"
    using \<open>fst kv \<notin> set (m_keys m)\<close> by (simp add: map_of_eq_None_iff)
  ultimately show ?case
    using Cons.IH by (cases kv) (auto simp: m_filter_def split: option.splits)
qed

lemma length_m_set [simp]:
  "length (m_set k v m) = (if m_get m k = None then Suc (length m) else length m)"
  by (induction m) auto

lemma length_m_del_le: "length (m_del k m) \<le> length m"
  by (rule length_delete_le)

lemma length_m_filter_le: "length (m_filter p m) \<le> length m"
  by (simp add: m_filter_def)

lemma length_m_del:
  "m_inv m \<Longrightarrow> m_get m k \<noteq> None \<Longrightarrow> Suc (length (m_del k m)) = length m"
proof (induction m)
  case Nil
  then show ?case by simp
next
  case (Cons kv m)
  obtain k' v where kv: "kv = (k', v)" by fastforce
  show ?case
  proof (cases "k' = k")
    case True
    with Cons.prems kv have "k \<notin> set (m_keys m)" by (simp add: m_inv_def)
    then have "m_del k m = m" by (simp add: delete_id)
    with True kv show ?thesis by simp
  next
    case False
    with Cons kv show ?thesis by (simp add: m_inv_def)
  qed
qed

lemma m_get_in_set: "m_get m k = Some v \<Longrightarrow> (k, v) \<in> set m"
  by (rule map_of_SomeD)

lemma m_get_iff_in_set: "m_inv m \<Longrightarrow> (m_get m k = Some v) = ((k, v) \<in> set m)"
  by (simp add: m_inv_def)

section \<open>Strings\<close>

text \<open>
  A \<open>string\<close> is a list of UTF-16 code units below 256. \<open>trim\<close> drops the ECMAScript white space and
  line terminators of that range, \<open>toLowerCase\<close> maps the upper-case letters of that range.
\<close>

definition js_space :: "char \<Rightarrow> bool" where
  "js_space c \<longleftrightarrow> of_char c \<in> set [9, 10, 11, 12, 13, 32, 160 :: nat]"

definition js_trim :: "string \<Rightarrow> string" where
  "js_trim s = rev (dropWhile js_space (rev (dropWhile js_space s)))"

definition js_lower_char :: "char \<Rightarrow> char" where
  "js_lower_char c = (let n = of_char c :: nat in
     if 65 \<le> n \<and> n \<le> 90 \<or> 192 \<le> n \<and> n \<le> 222 \<and> n \<noteq> 215 then char_of (n + 32) else c)"

definition js_lower :: "string \<Rightarrow> string" where
  "js_lower = map js_lower_char"

definition char_between :: "nat \<Rightarrow> nat \<Rightarrow> char \<Rightarrow> bool" where
  "char_between lo hi c \<longleftrightarrow> lo \<le> of_char c \<and> of_char c \<le> hi"

abbreviation is_digit :: "char \<Rightarrow> bool" where "is_digit \<equiv> char_between 48 57"
abbreviation is_upper :: "char \<Rightarrow> bool" where "is_upper \<equiv> char_between 65 90"
abbreviation is_lower :: "char \<Rightarrow> bool" where "is_lower \<equiv> char_between 97 122"

fun js_includes :: "string \<Rightarrow> string \<Rightarrow> bool" where
  "js_includes [] k \<longleftrightarrow> k = []"
| "js_includes (c # s) k \<longleftrightarrow> prefix k (c # s) \<or> js_includes s k"

lemma js_includes_sublist: "js_includes s k = sublist k s"
  by (induction s) (auto simp: sublist_Cons_right)

text \<open>\<open>blank s\<close> is the test \<open>s.trim() === ''\<close>.\<close>

definition blank :: "string \<Rightarrow> bool" where
  "blank s \<longleftrightarrow> js_trim s = []"

lemma js_trim_Nil [simp]: "js_trim [] = []"
  by (simp add: js_trim_def)

lemma blank_iff: "blank s \<longleftrightarrow> (\<forall>c \<in> set s. js_space c)"
proof -
  have "dropWhile js_space s = [] \<longleftrightarrow> (\<forall>c \<in> set s. js_space c)"
    by (simp add: dropWhile_eq_Nil_conv)
  moreover have "js_trim s = [] \<longleftrightarrow> dropWhile js_space s = []"
  proof
    assume "js_trim s = []"
    then have "\<forall>c \<in> set (dropWhile js_space s). js_space c"
      by (simp add: js_trim_def dropWhile_eq_Nil_conv)
    then show "dropWhile js_space s = []"
      by (metis hd_dropWhile hd_in_set)
  next
    assume "dropWhile js_space s = []"
    then show "js_trim s = []" by (simp only: js_trim_def rev.simps dropWhile.simps)
  qed
  ultimately show ?thesis by (simp add: blank_def)
qed

lemma dropWhile_hd_id: "xs \<noteq> [] \<Longrightarrow> \<not> P (hd xs) \<Longrightarrow> dropWhile P xs = xs"
  by (cases xs) auto

lemma dropWhile_idem [simp]: "dropWhile P (dropWhile P xs) = dropWhile P xs"
  by (induction xs) auto

lemma dropWhile_trim_end:
  "dropWhile P (rev (dropWhile P (rev (dropWhile P s)))) = rev (dropWhile P (rev (dropWhile P s)))"
  (is "dropWhile P (rev ?v) = rev ?v")
proof (cases "?v = []")
  case True
  then show ?thesis unfolding True by simp
next
  case False
  let ?u = "dropWhile P s"
  obtain w where "rev ?u = w @ ?v"
    using takeWhile_dropWhile_id [of P "rev ?u"] by metis
  then have "rev (rev ?u) = rev (w @ ?v)" by (rule arg_cong)
  then have u: "?u = rev ?v @ rev w" by (simp only: rev_rev_ident rev_append)
  have "?u \<noteq> []"
  proof
    assume Nil: "?u = []"
    show False using False unfolding Nil by simp
  qed
  then have "\<not> P (hd ?u)" by (rule hd_dropWhile)
  moreover have "hd ?u = hd (rev ?v)"
    using False by (subst u) (rule hd_append2, simp only: rev_is_Nil_conv not_False_eq_True)
  ultimately show ?thesis
    using False by (intro dropWhile_hd_id) (simp_all only: rev_is_Nil_conv not_False_eq_True)
qed

lemma js_trim_idem [simp]: "js_trim (js_trim s) = js_trim s"
  unfolding js_trim_def dropWhile_trim_end by simp

lemma blank_trim [simp]: "blank (js_trim s) \<longleftrightarrow> js_trim s = []"
  by (simp add: blank_def)

lemma of_char_lower:
  "of_char (js_lower_char c) = (let n = of_char c :: nat in
     if 65 \<le> n \<and> n \<le> 90 \<or> 192 \<le> n \<and> n \<le> 222 \<and> n \<noteq> 215 then n + 32 else n)"
  by (auto simp: js_lower_char_def Let_def)

lemma js_space_lower [simp]: "js_space (js_lower_char c) = js_space c"
  by (auto simp: js_space_def of_char_lower Let_def)

lemma js_lower_char_idem [simp]: "js_lower_char (js_lower_char c) = js_lower_char c"
proof -
  have "of_char (js_lower_char (js_lower_char c)) = (of_char (js_lower_char c) :: nat)"
    by (auto simp: of_char_lower Let_def)
  then show ?thesis by simp
qed

lemma js_trim_lower: "js_trim (js_lower s) = js_lower (js_trim s)"
  by (simp add: js_trim_def js_lower_def dropWhile_map rev_map o_def)

text \<open>\<open>s.startsWith(p)\<close> followed by \<open>s.slice(p.length)\<close>.\<close>

definition after_prefix :: "string \<Rightarrow> string \<Rightarrow> string option" where
  "after_prefix p s = (if prefix p s then Some (drop (length p) s) else None)"

lemma after_prefix_append [simp]: "after_prefix p (p @ s) = Some s"
  by (simp add: after_prefix_def)

lemma after_prefix_Some: "after_prefix p s = Some r \<longleftrightarrow> s = p @ r"
  by (auto simp: after_prefix_def prefix_def)

text \<open>\<open>String.split\<close> on one separator character and its inverse \<open>Array.join\<close>.\<close>

fun js_split :: "char \<Rightarrow> string \<Rightarrow> string list" where
  "js_split d [] = [[]]"
| "js_split d (c # s) =
     (if c = d then [] # js_split d s
      else case js_split d s of [] \<Rightarrow> [[c]] | p # ps \<Rightarrow> (c # p) # ps)"

fun js_join :: "string \<Rightarrow> string list \<Rightarrow> string" where
  "js_join d [] = []"
| "js_join d [p] = p"
| "js_join d (p # q # ps) = p @ d @ js_join d (q # ps)"

lemma js_split_not_Nil [simp]: "js_split d s \<noteq> []"
  by (cases s) (auto split: list.splits)

lemma js_split_single: "d \<notin> set p \<Longrightarrow> js_split d p = [p]"
  by (induction p) auto

lemma js_split_append: "d \<notin> set p \<Longrightarrow> js_split d (p @ d # s) = p # js_split d s"
  by (induction p) auto

lemma js_join_split: "js_join [d] (js_split d s) = s"
proof (induction s)
  case Nil
  then show ?case by simp
next
  case (Cons c s)
  obtain p ps where "js_split d s = p # ps"
    by (cases "js_split d s") auto
  with Cons show ?case by (cases ps) auto
qed

lemma js_split_conv_join: "js_split d s = ps \<Longrightarrow> s = js_join [d] ps"
  using js_join_split [of d s] by simp

lemma js_split_pieces: "p \<in> set (js_split d s) \<Longrightarrow> d \<notin> set p"
  by (induction s arbitrary: p) (auto split: if_splits list.splits)

section \<open>JSON values\<close>

datatype json =
    JUndefined
  | JNull
  | JBool bool
  | JNum int
  | JStr string
  | JArr "json list"
  | JObj "(string, json) jsmap"

text \<open>Property access \<open>v.k\<close> (and \<open>v?.k\<close>) of a parsed JSON value.\<close>

fun json_prop :: "json \<Rightarrow> string \<Rightarrow> json" where
  "json_prop (JObj m) k = (case m_get m k of None \<Rightarrow> JUndefined | Some v \<Rightarrow> v)"
| "json_prop _ k = JUndefined"

text \<open>\<open>typeof v === 'string'\<close>, with the string.\<close>

fun as_str :: "json \<Rightarrow> string option" where
  "as_str (JStr s) = Some s"
| "as_str _ = None"

fun as_obj :: "json \<Rightarrow> (string, json) jsmap option" where
  "as_obj (JObj m) = Some m"
| "as_obj _ = None"

fun as_arr :: "json \<Rightarrow> json list option" where
  "as_arr (JArr vs) = Some vs"
| "as_arr _ = None"

lemma as_str_Some: "as_str v = Some s \<longleftrightarrow> v = JStr s"
  by (cases v) auto

section \<open>Numbers\<close>

text \<open>
  Finite JavaScript numbers are rationals; rounding of doubles is not modelled. \<open>NonFinite\<close> is \<open>NaN\<close> or
  an infinity, kept where the code tests \<open>Number.isFinite\<close>.
\<close>

datatype jsnum = Num rat | NonFinite

section \<open>Optional values\<close>

text \<open>\<open>v ?? d\<close> of JavaScript and \<open>COALESCE(v, d)\<close> of SQL.\<close>

abbreviation default_to :: "'a \<Rightarrow> 'a option \<Rightarrow> 'a" where
  "default_to d v \<equiv> (case v of None \<Rightarrow> d | Some x \<Rightarrow> x)"

definition coalesce :: "'a option \<Rightarrow> 'a option \<Rightarrow> 'a option" where
  "coalesce v d = (case v of None \<Rightarrow> d | Some x \<Rightarrow> Some x)"

section \<open>Tables\<close>

text \<open>
  \<open>SELECT * FROM t WHERE p\<close> is \<open>filter p\<close>, its first row (\<open>.get\<close>) is \<open>List.find p\<close>, \<open>UPDATE\<close> maps the
  rows that satisfy the condition and reports how many there are, \<open>DELETE\<close> keeps the others.
\<close>

definition t_update :: "('r \<Rightarrow> bool) \<Rightarrow> ('r \<Rightarrow> 'r) \<Rightarrow> 'r list \<Rightarrow> 'r list" where
  "t_update p f rs = map (\<lambda>r. if p r then f r else r) rs"

definition t_changes :: "('r \<Rightarrow> bool) \<Rightarrow> 'r list \<Rightarrow> nat" where
  "t_changes p rs = length (filter p rs)"

definition t_delete :: "('r \<Rightarrow> bool) \<Rightarrow> 'r list \<Rightarrow> 'r list" where
  "t_delete p rs = filter (\<lambda>r. \<not> p r) rs"

text \<open>The rows' keys under a primary key or unique column are distinct.\<close>

definition t_unique :: "('r \<Rightarrow> 'k) \<Rightarrow> 'r list \<Rightarrow> bool" where
  "t_unique key rs \<longleftrightarrow> distinct (map key rs)"

lemma t_unique_Nil [simp]: "t_unique key []"
  by (simp add: t_unique_def)

lemma t_unique_append1:
  "t_unique key (rs @ [r]) \<longleftrightarrow> t_unique key rs \<and> key r \<notin> key ` set rs"
  by (auto simp: t_unique_def)

lemma t_update_keys [table_simps]:
  "(\<And>r. key (f r) = key r) \<Longrightarrow> map key (t_update p f rs) = map key rs"
  by (simp add: t_update_def)

lemma t_unique_update: "(\<And>r. key (f r) = key r) \<Longrightarrow> t_unique key rs \<Longrightarrow> t_unique key (t_update p f rs)"
  by (simp add: t_unique_def t_update_keys)

lemma t_unique_delete: "t_unique key rs \<Longrightarrow> t_unique key (t_delete p rs)"
  by (auto simp: t_unique_def t_delete_def distinct_map_filter)

lemma find_None_key: "List.find (\<lambda>r. key r = k) rs = None \<longleftrightarrow> k \<notin> key ` set rs"
  by (auto simp: find_None_iff)

lemma find_key_append:
  "List.find (\<lambda>r. key r = k) (rs @ [r]) =
     (case List.find (\<lambda>r. key r = k) rs of
        None \<Rightarrow> if key r = k then Some r else None | Some x \<Rightarrow> Some x)"
  by (induction rs) auto

lemma find_key_update:
  "(\<And>r. key (f r) = key r) \<Longrightarrow>
   List.find (\<lambda>r. key r = k) (t_update p f rs) =
     map_option (\<lambda>r. if p r then f r else r) (List.find (\<lambda>r. key r = k) rs)"
  by (induction rs) (auto simp: t_update_def)

lemma find_key_unique:
  "t_unique key rs \<Longrightarrow> List.find (\<lambda>r. key r = k) rs = Some r \<longleftrightarrow> r \<in> set rs \<and> key r = k"
proof (induction rs)
  case Nil
  then show ?case by simp
next
  case (Cons x rs)
  then show ?case by (auto simp: t_unique_def)
qed

lemma find_key_delete:
  "t_unique key rs \<Longrightarrow> List.find (\<lambda>r. key r = k) (t_delete p rs) =
     (case List.find (\<lambda>r. key r = k) rs of None \<Rightarrow> None | Some r \<Rightarrow> if p r then None else Some r)"
proof (induction rs)
  case Nil
  then show ?case by (simp add: t_delete_def)
next
  case (Cons x rs)
  have "t_unique key rs" using Cons.prems by (simp add: t_unique_def)
  moreover have "key x \<notin> key ` set rs" using Cons.prems by (simp add: t_unique_def)
  moreover from this have "List.find (\<lambda>r. key r = key x) rs = None"
    by (metis find_None_key)
  ultimately show ?case
    using Cons.IH by (auto simp: t_delete_def)
qed

text \<open>\<open>Array.find\<close> and the position it stops at.\<close>

lemma find_Some_split:
  "List.find p xs = Some x \<Longrightarrow> \<exists>us vs. xs = us @ x # vs \<and> (\<forall>u \<in> set us. \<not> p u) \<and> p x"
proof (induction xs)
  case Nil
  then show ?case by simp
next
  case (Cons y ys)
  show ?case
  proof (cases "p y")
    case True
    with Cons.prems show ?thesis by (intro exI [of _ "[]"] exI [of _ ys]) auto
  next
    case False
    with Cons obtain us vs where "ys = us @ x # vs" "\<forall>u \<in> set us. \<not> p u" "p x" by auto
    with False show ?thesis by (intro exI [of _ "y # us"] exI [of _ vs]) auto
  qed
qed

lemma find_SomeD: "List.find p xs = Some x \<Longrightarrow> x \<in> set xs \<and> p x"
  by (auto simp: find_Some_iff)

lemma find_split_Some:
  "xs = us @ x # vs \<Longrightarrow> \<forall>u \<in> set us. \<not> p u \<Longrightarrow> p x \<Longrightarrow> List.find p xs = Some x"
  by (induction us arbitrary: xs) auto

text \<open>A run of operations as a sequence of steps.\<close>

lemma fold_steps: "(\<lambda>s t. \<exists>op. t = f op s)\<^sup>*\<^sup>* s (fold f ops s)"
proof (induction ops arbitrary: s)
  case (Cons op ops)
  have "(\<lambda>s t. \<exists>op. t = f op s)\<^sup>*\<^sup>* (f op s) (fold f (op # ops) s)" using Cons by simp
  then show ?case by (rule converse_rtranclp_into_rtranclp [rotated]) blast
qed simp

section \<open>Contract: keyed state machines\<close>

text \<open>
  Several stores of the daemon keep, per key, an entry that their operations move along a fixed
  transition graph: tasks, executions, capability activations, approvals. A provider shows what ONE step
  does to one key's entry; what any sequence of steps does follows here once. \<open>drop a\<close> says that an entry
  \<open>a\<close> may be removed.
\<close>

locale lifecycle =
  fixes step :: "'s \<Rightarrow> 's \<Rightarrow> bool"
    and look :: "'s \<Rightarrow> 'k \<Rightarrow> 'e option"
    and edge :: "'e \<Rightarrow> 'e \<Rightarrow> bool"
    and initial :: "'e \<Rightarrow> bool"
    and drop :: "'e \<Rightarrow> bool"
    and inv :: "'s \<Rightarrow> bool"
  assumes inv_step: "inv s \<Longrightarrow> step s t \<Longrightarrow> inv t"
    and kept: "inv s \<Longrightarrow> step s t \<Longrightarrow> look s k = Some a \<Longrightarrow>
           (case look t k of None \<Rightarrow> drop a | Some b \<Rightarrow> b = a \<or> edge a b)"
    and born: "inv s \<Longrightarrow> step s t \<Longrightarrow> look s k = None \<Longrightarrow> look t k = Some b \<Longrightarrow> initial b"
begin

definition final :: "'e \<Rightarrow> bool" where
  "final a \<longleftrightarrow> (\<forall>b. edge a b \<longrightarrow> b = a)"

lemma inv_reach: "step\<^sup>*\<^sup>* s t \<Longrightarrow> inv s \<Longrightarrow> inv t"
  by (induction rule: rtranclp_induct) (auto intro: inv_step)

text \<open>Every entry of a reachable state was there before or started as an initial one, and moved along edges.\<close>

lemma reach_path:
  assumes "step\<^sup>*\<^sup>* s t" and "inv s" and "look t k = Some b"
  shows "\<exists>a. (look s k = Some a \<or> initial a) \<and> edge\<^sup>*\<^sup>* a b"
  using assms
proof (induction arbitrary: b rule: rtranclp_induct)
  case base
  then show ?case by auto
next
  case (step t u)
  have inv: "inv t" using inv_reach [OF step.hyps(1) step.prems(1)] .
  show ?case
  proof (cases "look t k")
    case None
    then have "initial b" using born [OF inv step.hyps(2) None step.prems(2)] by simp
    then show ?thesis by blast
  next
    case (Some c)
    then obtain a where "look s k = Some a \<or> initial a" and ac: "edge\<^sup>*\<^sup>* a c"
      using step.IH step.prems(1) by blast
    moreover have "b = c \<or> edge c b"
      using kept [OF inv step.hyps(2) Some] step.prems(2) by simp
    ultimately show ?thesis using rtranclp.rtrancl_into_rtrancl [OF ac] by blast
  qed
qed

text \<open>An entry without outgoing edges that may not be removed is frozen.\<close>

lemma final_sticky:
  assumes "step\<^sup>*\<^sup>* s t" and "inv s" and "look s k = Some a" and "final a" and "\<not> drop a"
  shows "look t k = Some a"
  using assms(1)
proof (induction rule: rtranclp_induct)
  case base
  then show ?case by (rule assms(3))
next
  case (step t u)
  have "inv t" using inv_reach [OF step.hyps(1) assms(2)] .
  from kept [OF this step.hyps(2) step.IH] assms(4,5) show ?case
    by (cases "look u k") (auto simp: final_def)
qed

text \<open>Where nothing is ever removed, every entry stays and moves along edges.\<close>

lemma entry_kept:
  assumes "step\<^sup>*\<^sup>* s t" and "inv s" and "look s k = Some a" and "\<And>a. \<not> drop a"
  shows "\<exists>b. look t k = Some b \<and> edge\<^sup>*\<^sup>* a b"
  using assms(1)
proof (induction rule: rtranclp_induct)
  case base
  then show ?case using assms(3) by blast
next
  case (step t u)
  then obtain b where b: "look t k = Some b" "edge\<^sup>*\<^sup>* a b" by blast
  have "inv t" using inv_reach [OF step.hyps(1) assms(2)] .
  from kept [OF this step.hyps(2) b(1)] assms(4) obtain b' where "look u k = Some b'" "b' = b \<or> edge b b'"
    by (cases "look u k") auto
  then show ?case using b(2) rtranclp.rtrancl_into_rtrancl [of edge a b b'] by blast
qed

end

section \<open>Contract: at most one event per key and window\<close>

text \<open>
  A gate that remembers per key when it last let an event through, and lets the next one of that key
  through only after the key's window; housekeeping may forget keys whose window is over. Events arrive
  in time order.
\<close>

locale window_gate =
  fixes pass :: "'k \<Rightarrow> time \<Rightarrow> 's \<Rightarrow> bool \<times> 's"
    and tick :: "time \<Rightarrow> 's \<Rightarrow> 's"
    and last :: "'s \<Rightarrow> 'k \<Rightarrow> time option"
    and window :: "'k \<Rightarrow> int"
    and inv :: "'s \<Rightarrow> bool"
  assumes inv_pass: "inv s \<Longrightarrow> inv (snd (pass k t s))"
    and inv_tick: "inv s \<Longrightarrow> inv (tick t s)"
    and pass_sets: "inv s \<Longrightarrow> fst (pass k t s) \<Longrightarrow> 0 < window k \<Longrightarrow> last (snd (pass k t s)) k = Some t"
    and pass_blocked: "inv s \<Longrightarrow> last s k = Some u \<Longrightarrow> t - u < window k \<Longrightarrow> \<not> fst (pass k t s)"
    and pass_keeps: "inv s \<Longrightarrow> last s k = Some u \<Longrightarrow> t' - u < window k \<Longrightarrow> t \<le> t' \<Longrightarrow>
           last (snd (pass k' t s)) k = Some u \<or> (k' = k \<and> fst (pass k' t s))"
    and tick_keeps: "inv s \<Longrightarrow> last s k = Some u \<Longrightarrow> t' - u < window k \<Longrightarrow> t \<le> t' \<Longrightarrow> last (tick t s) k = Some u"
begin

text \<open>An event is an attempt to pass (\<open>Some k\<close>) or a housekeeping tick (\<open>None\<close>) at a time.\<close>

fun passes :: "('k option \<times> time) list \<Rightarrow> 's \<Rightarrow> ('k \<times> time) list" where
  "passes [] s = []"
| "passes ((None, t) # es) s = passes es (tick t s)"
| "passes ((Some k, t) # es) s =
     (if fst (pass k t s) then [(k, t)] else []) @ passes es (snd (pass k t s))"

lemma passes_times: "(k, t) \<in> set (passes es s) \<Longrightarrow> (Some k, t) \<in> set es"
  by (induction es s rule: passes.induct) (auto split: if_splits)

lemma no_pass_while_remembered:
  assumes "inv s" and "sorted (map snd es)" and "last s k = Some u"
    and "(k, t) \<in> set (passes es s)"
  shows "window k \<le> t - u"
  using assms
proof (induction es s rule: passes.induct)
  case (1 s)
  then show ?case by simp
next
  case (2 t' es s)
  show ?case
  proof (rule ccontr)
    assume "\<not> window k \<le> t - u"
    moreover have in_es: "(k, t) \<in> set (passes es (tick t' s))" using "2.prems"(4) by simp
    moreover have "t' \<le> t"
      using passes_times [OF in_es] "2.prems"(2) by force
    ultimately have "last (tick t' s) k = Some u"
      using "2.prems"(1,3) by (intro tick_keeps) auto
    with 2 \<open>\<not> window k \<le> t - u\<close> show False by (simp add: inv_tick)
  qed
next
  case (3 k' t' es s)
  show ?case
  proof (rule ccontr)
    assume neg: "\<not> window k \<le> t - u"
    have le: "t' \<le> t"
      using passes_times [OF "3.prems"(4)] "3.prems"(2) by force
    then have blocked: "\<not> (k' = k \<and> fst (pass k' t' s))"
      using pass_blocked [OF "3.prems"(1,3), of t'] neg by auto
    then have "last (snd (pass k' t' s)) k = Some u"
      using pass_keeps [OF "3.prems"(1,3) _ le, of k'] neg by auto
    moreover have "(k, t) \<in> set (passes es (snd (pass k' t' s)))"
      using "3.prems"(4) blocked by (auto split: if_splits)
    ultimately show False
      using 3 neg by (simp add: inv_pass)
  qed
qed

text \<open>Two events of one key that pass are at least a window apart.\<close>

theorem passes_spaced:
  assumes "inv s" and "sorted (map snd es)" and "0 < window k"
    and "i < j" and "j < length (passes es s)"
    and "passes es s ! i = (k, t)" and "passes es s ! j = (k, t')"
  shows "window k \<le> t' - t"
  using assms
proof (induction es s arbitrary: i j rule: passes.induct)
  case (1 s)
  then show ?case by simp
next
  case (2 u es s)
  then show ?case by (simp add: inv_tick)
next
  case (3 k' u es s)
  let ?s = "snd (pass k' u s)"
  show ?case
  proof (cases "fst (pass k' u s)")
    case False
    with 3 show ?thesis by (simp add: inv_pass)
  next
    case True
    then have eq: "passes ((Some k', u) # es) s = (k', u) # passes es ?s" by simp
    show ?thesis
    proof (cases i)
      case 0
      with 3 eq have ku: "k = k'" "t = u" by simp_all
      moreover obtain j' where "j = Suc j'" using \<open>i < j\<close> by (cases j) auto
      ultimately have "(k, t') \<in> set (passes es ?s)"
        using 3 eq by (auto simp: in_set_conv_nth)
      moreover have "last ?s k = Some t"
        using pass_sets [OF "3.prems"(1) True] "3.prems"(3) ku by simp
      ultimately show ?thesis
        using no_pass_while_remembered [OF inv_pass [OF "3.prems"(1)], of es k' u k t t']
          "3.prems"(2) by simp
    next
      case (Suc i')
      moreover obtain j' where "j = Suc j'" using \<open>i < j\<close> by (cases j) auto
      ultimately show ?thesis
        using "3.IH" [of i' j'] "3.prems" eq by (simp add: inv_pass)
    qed
  qed
qed

end

end
