(* ===== verification/Mcp_Tiers.thy ===== *)
theory Mcp_Tiers
  imports Prelude
begin

text \<open>
  The MCP service registry, \<open>packages/daemon/src/mcp-service-registry.ts\<close>, over the capability
  schema of \<open>registry.ts\<close>: execution tiers of servers and of tools, the maintained tool classes of
  governed servers, building and resolving MCP capabilities.

  The maintained map \<open>SERVER_TOOL_CLASSES\<close> is a plain object, so indexing it with a name also reaches
  the members of \<open>Object.prototype\<close>; \<open>server_classes\<close> keeps that third outcome apart, because
  \<open>classes.readOnly.has\<close> then throws.
\<close>

section \<open>Data\<close>

datatype cap_health = Healthy | Degraded | Offline

record capability =
  cap_skill_id :: string
  cap_version :: string
  cap_description :: string
  cap_agent_id :: string
  cap_health :: cap_health
  cap_trust_level :: jsnum
  cap_updated_at :: time
  cap_category :: string
  cap_permissions :: "string list"

datatype mcp_tier = Self | Gate | Consensus

fun rank :: "mcp_tier \<Rightarrow> nat" where
  "rank Self = 0"
| "rank Gate = 1"
| "rank Consensus = 2"

definition maxTier :: "mcp_tier \<Rightarrow> mcp_tier \<Rightarrow> mcp_tier" where
  "maxTier a b = (if rank a \<ge> rank b then a else b)"

definition MCP_CATEGORY :: string where "MCP_CATEGORY = ''mcp''"
definition MCP_SKILL_PREFIX :: string where "MCP_SKILL_PREFIX = ''mcp:''"
definition LOW_TRUST_GATE_THRESHOLD :: rat where "LOW_TRUST_GATE_THRESHOLD = 2"

section \<open>Tiers of servers\<close>

definition CONSENSUS_TOKENS :: "string list" where
  "CONSENSUS_TOKENS = [''admin'', ''delete'', ''destroy'', ''remove'', ''reboot'', ''shutdown'',
     ''wipe'', ''factory'']"

definition GATE_TOKENS :: "string list" where
  "GATE_TOKENS = [''write'', ''credential'', ''secret'', ''control'', ''set'', ''configure'',
     ''update'', ''create'', ''send'', ''actuate'', ''switch'']"

definition SELF_TOKENS :: "string list" where
  "SELF_TOKENS = [''read'', ''query'', ''list'', ''get'', ''view'', ''convert'', ''render'',
     ''search'', ''status'']"

definition classify :: "string \<Rightarrow> mcp_tier option" where
  "classify token = (let t = js_lower token in
     if list_ex (js_includes t) CONSENSUS_TOKENS then Some Consensus
     else if list_ex (js_includes t) GATE_TOKENS then Some Gate
     else if list_ex (js_includes t) SELF_TOKENS then Some Self
     else None)"

definition canonicalizeServerName :: "string \<Rightarrow> string" where
  "canonicalizeServerName raw = js_lower (js_trim raw)"

definition deriveExecutionTier :: "string list \<Rightarrow> jsnum \<Rightarrow> mcp_tier" where
  "deriveExecutionTier permissions trustLevel =
     (let tier = foldl (\<lambda>tier p. maxTier tier (default_to Gate (classify p))) Self permissions;
          normalizedTrust = (case trustLevel of Num q \<Rightarrow> q | NonFinite \<Rightarrow> LOW_TRUST_GATE_THRESHOLD - 1)
      in if tier = Self \<and> normalizedTrust < LOW_TRUST_GATE_THRESHOLD then Gate else tier)"

section \<open>Tiers of tools\<close>

definition DESTRUCTIVE_VERBS :: "string list" where
  "DESTRUCTIVE_VERBS = [''delete'', ''destroy'', ''remove'', ''wipe'', ''factory'', ''reset'',
     ''revoke'', ''purge'', ''forget'', ''reboot'', ''shutdown'', ''drop'', ''clear'', ''flush'',
     ''erase'']"

definition WRITE_VERBS :: "string list" where
  "WRITE_VERBS = [''create'', ''update'', ''set'', ''add'', ''enable'', ''disable'', ''block'',
     ''unblock'', ''authorize'', ''deauthorize'', ''reauthorize'', ''restart'', ''adopt'',
     ''provision'', ''assign'', ''move'', ''rename'', ''configure'', ''send'', ''actuate'',
     ''switch'', ''apply'', ''start'', ''stop'', ''kick'', ''ban'', ''write'', ''edit'', ''modify'',
     ''grant'', ''deny'', ''put'', ''post'', ''patch'', ''upsert'', ''toggle'', ''trigger'', ''run'',
     ''exec'', ''execute'', ''invoke'']"

definition READ_VERBS :: "string list" where
  "READ_VERBS = [''list'', ''get'', ''describe'', ''read'', ''show'', ''search'', ''query'',
     ''find'', ''stat'', ''stats'', ''count'', ''fetch'', ''view'', ''status'', ''info'',
     ''inspect'', ''export'', ''ls'']"

text \<open>The leading verb of a tool name, \<open>name.toLowerCase().match(/^[a-z]+/)?.[0] ?? ''\<close>.\<close>

definition verb_of :: "string \<Rightarrow> string" where
  "verb_of name = takeWhile is_lower (js_lower name)"

definition is_tools_call :: "json \<Rightarrow> bool" where
  "is_tools_call payload \<longleftrightarrow> json_prop payload ''method'' = JStr ''tools/call''"

definition deriveToolTier :: "json \<Rightarrow> mcp_tier" where
  "deriveToolTier payload =
     (if \<not> is_tools_call payload then Self
      else case json_prop (json_prop payload ''params'') ''name'' of
        JStr name \<Rightarrow>
          if blank name then Gate
          else let verb = verb_of name in
            if verb \<in> set DESTRUCTIVE_VERBS then Consensus
            else if verb \<in> set WRITE_VERBS then Gate
            else if verb \<in> set READ_VERBS then Self
            else Gate
      | _ \<Rightarrow> Gate)"

definition deriveToolName :: "json \<Rightarrow> string" where
  "deriveToolName payload =
     (if \<not> is_tools_call payload then []
      else case json_prop (json_prop payload ''params'') ''name'' of
        JStr name \<Rightarrow> js_trim name
      | _ \<Rightarrow> [])"

section \<open>Maintained tool classes\<close>

record server_tool_classes =
  readOnly :: "string list"
  consensusTools :: "string list option"
  sensitive :: "string list option"

definition UNIFI_READ_ONLY :: "string list" where
  "UNIFI_READ_ONLY = [''get_acl_rule'', ''get_application_info'', ''get_client'', ''get_device'',
     ''get_device_stats'', ''get_dns_policy'', ''get_firewall_policy'', ''get_firewall_zone'',
     ''get_lag'', ''get_mc_lag_domain'', ''get_switch_stack'', ''get_traffic_matching_list'',
     ''list_acl_rules'', ''list_clients'', ''list_devices'', ''list_dns_policies'',
     ''list_firewall_policies'', ''list_firewall_zones'', ''list_lags'', ''list_mc_lag_domains'',
     ''list_pending_devices'', ''list_sites'', ''list_switch_stacks'',
     ''list_traffic_matching_lists'']"

definition UNIFI_SENSITIVE :: "string list" where
  "UNIFI_SENSITIVE = [''get_wlan'', ''list_wlans'', ''get_voucher'', ''list_vouchers'',
     ''list_radius_profiles'', ''list_vpn_servers'', ''list_vpn_tunnels'', ''list_wans'',
     ''get_network'', ''list_networks'']"

datatype class_lookup =
    Governed server_tool_classes
  | Inherited   \<comment> \<open>a member of \<open>Object.prototype\<close>: truthy, without a \<open>readOnly\<close> set\<close>
  | Ungoverned

text \<open>
  The names of \<open>Object.prototype\<close> members that a canonicalized (lower-case) name can reach.
\<close>

definition SERVER_TOOL_CLASSES :: "string \<Rightarrow> class_lookup" where
  "SERVER_TOOL_CLASSES key =
     (if key = ''unifi'' then
        Governed \<lparr>readOnly = UNIFI_READ_ONLY, consensusTools = None, sensitive = Some UNIFI_SENSITIVE\<rparr>
      else if key = ''constructor'' \<or> key = ''__proto__'' then Inherited
      else Ungoverned)"

datatype js_error = TypeError | InvalidServerName

text \<open>The payload \<open>{ method: 'tools/call', params: { name } }\<close> built to classify a trimmed name.\<close>

definition call_payload :: "string \<Rightarrow> json" where
  "call_payload name = JObj [(''method'', JStr ''tools/call''), (''params'', JObj [(''name'', JStr name)])]"

definition deriveToolTierForServer :: "string \<Rightarrow> json \<Rightarrow> js_error + mcp_tier" where
  "deriveToolTierForServer server payload =
     (case SERVER_TOOL_CLASSES (canonicalizeServerName server) of
        Ungoverned \<Rightarrow> Inr (deriveToolTier payload)
      | Inherited \<Rightarrow>
          if \<not> is_tools_call payload then Inr (deriveToolTier payload)
          else let name = deriveToolName payload in
            if name \<noteq> [] then Inl TypeError
            else Inr (maxTier Gate (deriveToolTier (call_payload name)))
      | Governed classes \<Rightarrow>
          if \<not> is_tools_call payload then Inr (deriveToolTier payload)
          else let name = deriveToolName payload in
            if name \<noteq> [] \<and> name \<in> set (readOnly classes) then Inr Self
            else if name \<noteq> [] \<and> (case consensusTools classes of None \<Rightarrow> False | Some c \<Rightarrow> name \<in> set c)
              then Inr Consensus
            else Inr (maxTier Gate (deriveToolTier (call_payload name))))"

datatype gate_reason = InvalidCall | DestructiveVerb | WriteVerb | SensitiveGoverned | UnlistedGoverned

text \<open>
  \<open>classes.sensitive?.has\<close> on an inherited member: \<open>sensitive\<close> is undefined there, so the optional
  chain is false.
\<close>

definition classifyGateReason :: "string \<Rightarrow> json \<Rightarrow> js_error + gate_reason option" where
  "classifyGateReason server payload =
     (case deriveToolTierForServer server payload of
        Inl e \<Rightarrow> Inl e
      | Inr Self \<Rightarrow> Inr None
      | Inr _ \<Rightarrow>
          let name = deriveToolName payload in
          if is_tools_call payload \<and> name = [] then Inr (Some InvalidCall)
          else if name \<noteq> [] \<and>
              (case SERVER_TOOL_CLASSES (canonicalizeServerName server) of
                 Governed classes \<Rightarrow> (case sensitive classes of None \<Rightarrow> False | Some s \<Rightarrow> name \<in> set s)
               | _ \<Rightarrow> False)
            then Inr (Some SensitiveGoverned)
          else let verbTier = (if name = [] then Gate else deriveToolTier (call_payload name)) in
            if verbTier = Consensus then Inr (Some DestructiveVerb)
            else if verbTier = Gate then Inr (Some WriteVerb)
            else Inr (Some UnlistedGoverned))"

record tool_class_drift =
  staleReadOnly :: "string list"
  staleSensitive :: "string list"
  unclassified :: "string list"

definition computeToolClassDrift :: "server_tool_classes \<Rightarrow> string list \<Rightarrow> tool_class_drift" where
  "computeToolClassDrift classes liveTools =
     \<lparr>staleReadOnly = filter (\<lambda>t. t \<notin> set liveTools) (readOnly classes),
      staleSensitive = (case sensitive classes of None \<Rightarrow> []
        | Some s \<Rightarrow> filter (\<lambda>t. t \<notin> set liveTools) s),
      unclassified = filter (\<lambda>t. deriveToolTier (call_payload t) = Self
        \<and> t \<notin> set (readOnly classes)
        \<and> \<not> (case sensitive classes of None \<Rightarrow> False | Some s \<Rightarrow> t \<in> set s)
        \<and> \<not> (case consensusTools classes of None \<Rightarrow> False | Some c \<Rightarrow> t \<in> set c)) liveTools\<rparr>"

section \<open>Building and resolving MCP capabilities\<close>

record build_mcp_input =
  in_server :: string
  in_description :: string
  in_tools :: "string list option"
  in_version :: string
  in_permissions :: "string list option"
  in_trust_level :: jsnum
  in_agent_id :: string
  in_updated_at :: time
  in_health :: "cap_health option"

text \<open>The test \<open>/^[a-z0-9._-]+$/\<close>.\<close>

definition SERVER_NAME_RE :: "string \<Rightarrow> bool" where
  "SERVER_NAME_RE s \<longleftrightarrow> s \<noteq> [] \<and>
     list_all (\<lambda>c. is_lower c \<or> is_digit c \<or> c \<in> set ''._-'') s"

record mcp_service_capability = capability +
  msc_execution_tier :: mcp_tier

definition buildMcpCapability :: "build_mcp_input \<Rightarrow> js_error + mcp_service_capability" where
  "buildMcpCapability input =
     (let server = canonicalizeServerName (in_server input) in
      if \<not> SERVER_NAME_RE server then Inl InvalidServerName
      else
        let permissions = default_to [] (in_permissions input);
            tier = deriveExecutionTier permissions (in_trust_level input);
            tools = default_to [] (in_tools input);
            description = (if 0 < length tools
              then in_description input @ '' (Tools: '' @ js_join '', '' tools @ '')''
              else in_description input)
        in Inr \<lparr>cap_skill_id = MCP_SKILL_PREFIX @ server, cap_version = in_version input,
             cap_description = description, cap_agent_id = in_agent_id input,
             cap_health = default_to Healthy (in_health input),
             cap_trust_level = in_trust_level input, cap_updated_at = in_updated_at input,
             cap_category = MCP_CATEGORY, cap_permissions = permissions,
             msc_execution_tier = tier\<rparr>)"

definition isMcpCapability :: "'a capability_scheme \<Rightarrow> bool" where
  "isMcpCapability cap \<longleftrightarrow> cap_category cap = MCP_CATEGORY \<and> prefix MCP_SKILL_PREFIX (cap_skill_id cap)"

record mcp_resolution =
  res_agent_id :: string
  res_skill_id :: string
  res_description :: string
  res_version :: string
  res_trust_level :: jsnum
  res_health :: cap_health
  res_execution_tier :: mcp_tier

definition resolution_of :: "'a capability_scheme \<Rightarrow> mcp_resolution" where
  "resolution_of cap =
     \<lparr>res_agent_id = cap_agent_id cap, res_skill_id = cap_skill_id cap,
      res_description = cap_description cap, res_version = cap_version cap,
      res_trust_level = cap_trust_level cap, res_health = cap_health cap,
      res_execution_tier = deriveExecutionTier (cap_permissions cap) (cap_trust_level cap)\<rparr>"

fun resolveMcp :: "string \<Rightarrow> 'a capability_scheme list \<Rightarrow> mcp_resolution list" where
  "resolveMcp server [] = []"
| "resolveMcp server (cap # caps) =
     (if cap_category cap \<noteq> MCP_CATEGORY then resolveMcp server caps
      else if cap_skill_id cap \<noteq> MCP_SKILL_PREFIX @ canonicalizeServerName server
        then resolveMcp server caps
      else if cap_health cap = Offline then resolveMcp server caps
      else resolution_of cap # resolveMcp server caps)"

section \<open>The tiers as a linear order\<close>

instantiation mcp_tier :: linorder
begin

definition less_eq_mcp_tier :: "mcp_tier \<Rightarrow> mcp_tier \<Rightarrow> bool" where
  "less_eq_mcp_tier a b \<longleftrightarrow> rank a \<le> rank b"

definition less_mcp_tier :: "mcp_tier \<Rightarrow> mcp_tier \<Rightarrow> bool" where
  "less_mcp_tier a b \<longleftrightarrow> rank a < rank b"

instance
proof
  fix a b c :: mcp_tier
  show "a \<le> b \<Longrightarrow> b \<le> a \<Longrightarrow> a = b"
    by (cases a; cases b) (auto simp: less_eq_mcp_tier_def)
qed (auto simp: less_eq_mcp_tier_def less_mcp_tier_def)

end

lemma maxTier_max: "maxTier a b = max a b"
  by (cases a; cases b) (auto simp: maxTier_def max_def less_eq_mcp_tier_def)

lemma Self_least [simp]: "Self \<le> t"
  by (simp add: less_eq_mcp_tier_def)

lemma le_Self [simp]: "t \<le> Self \<longleftrightarrow> t = Self"
  by (cases t) (auto simp: less_eq_mcp_tier_def)

lemma Consensus_greatest [simp]: "t \<le> Consensus"
  by (cases t) (auto simp: less_eq_mcp_tier_def)

lemma max_eq_Self [simp]: "max a b = Self \<longleftrightarrow> a = Self \<and> b = (Self :: mcp_tier)"
  by (cases a; cases b) (auto simp: max_def less_eq_mcp_tier_def)

section \<open>Properties of the derivations\<close>

lemma foldl_maxTier:
  "foldl (\<lambda>tier p. maxTier tier (f p)) t ps = Max (insert t (f ` set ps))"
proof (induction ps arbitrary: t)
  case Nil
  then show ?case by simp
next
  case (Cons p ps)
  have "Max (insert (max t (f p)) (f ` set ps)) = max (max t (f p)) (Max (insert (f p) (f ` set ps)))"
    if "ps \<noteq> []"
    using that by (simp add: max.assoc max.left_commute)
  with Cons show ?case
    by (cases "ps = []") (auto simp: maxTier_max Max_insert insert_commute max.assoc)
qed

lemma deriveExecutionTier_ge:
  assumes "p \<in> set permissions"
  shows "default_to Gate (classify p) \<le> deriveExecutionTier permissions trust"
proof -
  let ?f = "\<lambda>p. default_to Gate (classify p)"
  have "?f p \<le> Max (insert Self (?f ` set permissions))"
    using assms by (intro Max_ge) auto
  then show ?thesis
    using le_Self by (auto simp: deriveExecutionTier_def foldl_maxTier Let_def)
qed

lemma deriveExecutionTier_Self_iff:
  "deriveExecutionTier permissions trust = Self \<longleftrightarrow>
     (\<forall>p \<in> set permissions. classify p = Some Self) \<and> (\<exists>q \<ge> 2. trust = Num q)"
proof -
  let ?f = "\<lambda>p. default_to Gate (classify p)"
  have "Max (insert Self (?f ` set permissions)) = Self \<longleftrightarrow> (\<forall>p \<in> set permissions. ?f p = Self)"
  proof
    assume *: "Max (insert Self (?f ` set permissions)) = Self"
    show "\<forall>p \<in> set permissions. ?f p = Self"
    proof
      fix p assume "p \<in> set permissions"
      then have "?f p \<le> Max (insert Self (?f ` set permissions))" by (intro Max_ge) auto
      with * show "?f p = Self" by simp
    qed
  next
    assume "\<forall>p \<in> set permissions. ?f p = Self"
    then have "insert Self (?f ` set permissions) = {Self}" by auto
    then show "Max (insert Self (?f ` set permissions)) = Self" by (simp only: Max_singleton)
  qed
  moreover have "?f p = Self \<longleftrightarrow> classify p = Some Self" for p
    by (auto split: option.splits)
  ultimately show ?thesis
    by (cases trust)
       (auto simp: deriveExecutionTier_def foldl_maxTier Let_def LOW_TRUST_GATE_THRESHOLD_def)
qed

lemma is_tools_call_payload [simp]: "is_tools_call (call_payload name)"
  by (simp add: is_tools_call_def call_payload_def)

lemma deriveToolName_payload [simp]: "deriveToolName (call_payload name) = js_trim name"
  by (simp add: deriveToolName_def) (simp add: call_payload_def)

lemma deriveToolTier_payload:
  "deriveToolTier (call_payload name) =
     (if blank name then Gate
      else if verb_of name \<in> set DESTRUCTIVE_VERBS then Consensus
      else if verb_of name \<in> set WRITE_VERBS then Gate
      else if verb_of name \<in> set READ_VERBS then Self else Gate)"
  by (simp add: deriveToolTier_def) (simp add: call_payload_def Let_def)

lemma deriveToolTier_no_call [simp]: "\<not> is_tools_call payload \<Longrightarrow> deriveToolTier payload = Self"
  by (simp add: deriveToolTier_def)

lemma canonicalizeServerName_idem [simp]:
  "canonicalizeServerName (canonicalizeServerName s) = canonicalizeServerName s"
  by (simp add: canonicalizeServerName_def js_trim_lower) (simp add: js_lower_def)

section \<open>Offers of a server\<close>

definition provides :: "string \<Rightarrow> 'a capability_scheme \<Rightarrow> bool" where
  "provides server cap \<longleftrightarrow> cap_category cap = MCP_CATEGORY
     \<and> cap_skill_id cap = MCP_SKILL_PREFIX @ canonicalizeServerName server \<and> cap_health cap \<noteq> Offline"

definition cap_tier :: "'a capability_scheme \<Rightarrow> mcp_tier" where
  "cap_tier cap = deriveExecutionTier (cap_permissions cap) (cap_trust_level cap)"

lemma resolveMcp_conv: "resolveMcp server caps = map resolution_of (filter (provides server) caps)"
  by (induction caps) (auto simp: provides_def)

lemma set_resolveMcp:
  "set (resolveMcp server caps) = resolution_of ` {cap \<in> set caps. provides server cap}"
  by (simp add: resolveMcp_conv)

lemma resolution_of_sel [simp]:
  "res_agent_id (resolution_of cap) = cap_agent_id cap"
  "res_skill_id (resolution_of cap) = cap_skill_id cap"
  "res_health (resolution_of cap) = cap_health cap"
  "res_execution_tier (resolution_of cap) = cap_tier cap"
  by (simp_all add: resolution_of_def cap_tier_def)

section \<open>Properties of the tool tiers\<close>

lemma unifi_disjoint: "set UNIFI_READ_ONLY \<inter> set UNIFI_SENSITIVE = {}"
  by (simp add: UNIFI_READ_ONLY_def UNIFI_SENSITIVE_def)

lemma deriveToolName_trimmed [simp]: "blank (deriveToolName payload) \<longleftrightarrow> deriveToolName payload = []"
  by (auto simp: deriveToolName_def blank_def split: json.splits)

lemma verb_of_Nil [simp]: "verb_of [] = []"
  by (simp add: verb_of_def js_lower_def)

lemma no_empty_verb [simp]:
  "[] \<notin> set DESTRUCTIVE_VERBS" "[] \<notin> set WRITE_VERBS" "[] \<notin> set READ_VERBS"
  by (simp_all add: DESTRUCTIVE_VERBS_def WRITE_VERBS_def READ_VERBS_def)

lemma read_only_not_destructive:
  "list_all (\<lambda>n. verb_of n \<notin> set DESTRUCTIVE_VERBS) UNIFI_READ_ONLY"
  by code_simp

lemma destructive_call:
  "verb_of (deriveToolName payload) \<in> set DESTRUCTIVE_VERBS \<Longrightarrow>
   deriveToolTier (call_payload (deriveToolName payload)) = Consensus"
  by (cases "deriveToolName payload = []") (auto simp: deriveToolTier_payload)

lemma deriveToolTierForServer_governed:
  assumes "canonicalizeServerName server = ''unifi''" and "is_tools_call payload"
  shows "deriveToolTierForServer server payload =
    (if deriveToolName payload \<in> set UNIFI_READ_ONLY then Inr Self
     else Inr (max Gate (deriveToolTier (call_payload (deriveToolName payload)))))"
  using assms
  by (auto simp: deriveToolTierForServer_def SERVER_TOOL_CLASSES_def Let_def maxTier_max
        UNIFI_READ_ONLY_def)

lemma deriveToolTierForServer_ungoverned:
  assumes "canonicalizeServerName server \<notin> {''unifi'', ''constructor'', ''__proto__''}"
  shows "deriveToolTierForServer server payload = Inr (deriveToolTier payload)"
  using assms by (simp add: deriveToolTierForServer_def SERVER_TOOL_CLASSES_def)

lemma deriveToolTierForServer_not_call [simp]:
  "\<not> is_tools_call payload \<Longrightarrow> deriveToolTierForServer server payload = Inr Self"
  by (simp add: deriveToolTierForServer_def split: class_lookup.splits)

text \<open>
  On the governed server a \<open>tools/call\<close> has tier \<open>self\<close> exactly when the trimmed tool name is on
  the read-only allowlist; every other call, the credential reads of the sensitive set included, has
  at least tier \<open>gate\<close>, and a destructive verb of the trimmed name gives \<open>consensus\<close>. The spelling of the
  server name (case, surrounding white space) does not matter.
\<close>

theorem governed_tool_tier:
  assumes "canonicalizeServerName server = ''unifi''" and "is_tools_call payload"
  shows "(deriveToolTierForServer server payload = Inr Self
            \<longleftrightarrow> deriveToolName payload \<in> set UNIFI_READ_ONLY)
    \<and> (deriveToolName payload \<in> set UNIFI_SENSITIVE \<longrightarrow>
         (\<exists>t \<ge> Gate. deriveToolTierForServer server payload = Inr t))
    \<and> (verb_of (deriveToolName payload) \<in> set DESTRUCTIVE_VERBS \<longrightarrow>
         deriveToolTierForServer server payload = Inr Consensus)"
proof -
  let ?n = "deriveToolName payload"
  note eq = deriveToolTierForServer_governed [OF assms]
  have "max Gate t \<noteq> Self" for t :: mcp_tier
    by (simp)
  moreover have "?n \<in> set UNIFI_SENSITIVE \<Longrightarrow> ?n \<notin> set UNIFI_READ_ONLY"
    using unifi_disjoint by auto
  moreover have "verb_of ?n \<in> set DESTRUCTIVE_VERBS \<Longrightarrow> ?n \<notin> set UNIFI_READ_ONLY"
    using read_only_not_destructive by (auto simp: list_all_iff)
  moreover have "max Gate Consensus = Consensus" by (simp add: max_def)
  ultimately show ?thesis
    unfolding eq using destructive_call by auto
qed

theorem governed_tool_tier_witness:
  "deriveToolTierForServer ''UNIFI '' (call_payload '' list_clients'') = Inr Self
   \<and> deriveToolTierForServer ''unifi'' (call_payload ''delete_wlan'') = Inr Consensus
   \<and> deriveToolTierForServer ''unifi'' (call_payload ''get_wlan'') \<noteq> Inr Self"
proof -
  have name: "canonicalizeServerName ''UNIFI '' = ''unifi''" "canonicalizeServerName ''unifi'' = ''unifi''"
    by code_simp+
  have "js_trim '' list_clients'' \<in> set UNIFI_READ_ONLY"
    and "verb_of (js_trim ''delete_wlan'') \<in> set DESTRUCTIVE_VERBS"
    and "js_trim ''get_wlan'' \<notin> set UNIFI_READ_ONLY"
    by code_simp+
  then show ?thesis
    using governed_tool_tier [OF name(1), of "call_payload '' list_clients''"]
      governed_tool_tier [OF name(2), of "call_payload ''delete_wlan''"]
      governed_tool_tier [OF name(2), of "call_payload ''get_wlan''"] by simp
qed

text \<open>
  Two consequences of the lookup and of the untrimmed name: a server called like an inherited member of the
  map makes the function throw, and a padded destructive name on an ungoverned server is only gated.
\<close>

lemma inherited_member_throws:
  "deriveToolTierForServer ''constructor'' (call_payload ''list_items'') = Inl TypeError"
  by code_simp

lemma padded_name_only_gated:
  "deriveToolTierForServer ''other'' (call_payload '' delete_item'') = Inr Gate
   \<and> deriveToolTierForServer ''other'' (call_payload ''delete_item'') = Inr Consensus"
  by code_simp

end
