(* ===== verification/Mcp_Routing.thy ===== *)
theory Mcp_Routing
  imports Mcp_Tiers
begin

text \<open>
  The decision how an MCP call is served: \<open>mcp-routing.ts\<close> (\<open>planMcpRoute\<close>), \<open>mcp-forward.ts\<close>
  (\<open>buildMcpForwardSpec\<close>) and \<open>mcp-forward-dispatch.ts\<close> (\<open>buildMcpForwardDispatch\<close>).

  \<open>new URL(s)\<close> belongs to the host environment: it is the parameter \<open>parse_url\<close>, giving the protocol and
  the origin of an endpoint or \<open>None\<close> where the constructor throws. The injected peer lookup
  \<open>resolvePeer\<close> may throw (\<open>Inl\<close>). The texts of the reasons become
  constructors of \<open>none_reason\<close>.
\<close>

section \<open>Data\<close>

datatype none_reason =
    AllOffline
  | NotRegistered
  | NoUsableProvider
  | NoOwnSender
  | NoEndpoint string
  | InvalidEndpoint string string
  | NotHttps string string

datatype mcp_route_plan =
    PlanLocal string mcp_tier
  | PlanRemote string mcp_resolution
  | PlanNone string none_reason

record mcp_forward_peer =
  peer_agent_id :: string
  peer_endpoint :: string

record remote_forward =
  rf_server :: string
  rf_target_agent_id :: string
  rf_url :: string
  rf_sender_uri :: string
  rf_execution_tier :: mcp_tier
  rf_require_server_identity :: bool
  rf_expected_server_spiffe_id :: string

datatype mcp_forward_spec =
    LocalExec string mcp_tier
  | RemoteForward remote_forward
  | Unavailable string none_reason

record outbound_connect_policy =
  oc_debug :: bool
  oc_disable_pinning :: bool
  oc_spiffe_server_identity :: bool

record mcp_forward_request_plan =
  rq_url :: string
  rq_target_agent_id :: string
  rq_sender_uri :: string
  rq_execution_tier :: mcp_tier
  rq_outbound_policy :: outbound_connect_policy
  rq_expected_spiffe_id :: "string option"   \<comment> \<open>the \<open>MeshServerIdentityPolicy\<close>\<close>

datatype mcp_forward_dispatch =
    DispatchRemote mcp_forward_request_plan
  | DispatchLocal string mcp_tier
  | DispatchNone string none_reason

section \<open>The routing plan\<close>

definition planMcpRoute :: "string \<Rightarrow> mcp_resolution list \<Rightarrow> string \<Rightarrow> mcp_route_plan" where
  "planMcpRoute server resolutions selfAgentId =
     (let expectedSkillId = MCP_SKILL_PREFIX @ canonicalizeServerName server;
          usable = filter (\<lambda>r. res_skill_id r = expectedSkillId \<and> res_health r \<noteq> Offline) resolutions
      in case List.find (\<lambda>r. res_agent_id r = selfAgentId) usable of
           Some own \<Rightarrow> PlanLocal server (res_execution_tier own)
         | None \<Rightarrow>
             if length usable = 0 then
               PlanNone server (if list_ex (\<lambda>r. res_skill_id r = expectedSkillId) resolutions
                 then AllOffline else NotRegistered)
             else
               (case (case List.find (\<lambda>r. res_health r = Healthy) usable of
                        Some h \<Rightarrow> Some h
                      | None \<Rightarrow> (case usable of [] \<Rightarrow> None | u # _ \<Rightarrow> Some u)) of
                  None \<Rightarrow> PlanNone server NoUsableProvider
                | Some target \<Rightarrow> PlanRemote server target))"

section \<open>The forward specification\<close>

text \<open>\<open>encodeURIComponent\<close> on code units below 256: percent-encoded UTF-8 but for the unreserved set.\<close>

definition hex_digit :: "nat \<Rightarrow> char" where
  "hex_digit n = (if n < 10 then char_of (48 + n) else char_of (55 + n))"

definition percent :: "nat \<Rightarrow> string" where
  "percent b = [CHR ''%'', hex_digit (b div 16), hex_digit (b mod 16)]"

definition uri_unreserved :: "char \<Rightarrow> bool" where
  "uri_unreserved c \<longleftrightarrow> is_digit c \<or> is_upper c \<or> is_lower c \<or> c \<in> set ''-_.!~*()'' \<or> c = CHR 0x27"

definition encode_char :: "char \<Rightarrow> string" where
  "encode_char c = (let n = of_char c :: nat in
     if uri_unreserved c then [c]
     else if n < 128 then percent n
     else percent (192 + n div 64) @ percent (128 + n mod 64))"

definition encodeURIComponent :: "string \<Rightarrow> string" where
  "encodeURIComponent s = concat (map encode_char s)"

definition buildMcpForwardSpec ::
  "(string \<Rightarrow> (string \<times> string) option) \<Rightarrow> mcp_route_plan \<Rightarrow> string \<Rightarrow>
   (string \<Rightarrow> js_error + mcp_forward_peer option) \<Rightarrow> bool option \<Rightarrow> js_error + mcp_forward_spec" where
  "buildMcpForwardSpec parse_url plan selfSenderUri resolvePeer requireServerIdentity =
     (case plan of
        PlanNone server reason \<Rightarrow> Inr (Unavailable server reason)
      | PlanLocal server tier \<Rightarrow> Inr (LocalExec server tier)
      | PlanRemote server target \<Rightarrow>
          let targetAgentId = res_agent_id target in
          if selfSenderUri = [] \<or> blank selfSenderUri then Inr (Unavailable server NoOwnSender)
          else
            (case resolvePeer targetAgentId of
               Inl e \<Rightarrow> Inl e
             | Inr None \<Rightarrow> Inr (Unavailable server (NoEndpoint targetAgentId))
             | Inr (Some peer) \<Rightarrow>
                 if peer_endpoint peer = [] \<or> blank (peer_endpoint peer)
                 then Inr (Unavailable server (NoEndpoint targetAgentId))
                 else
                   (case parse_url (peer_endpoint peer) of
                      None \<Rightarrow> Inr (Unavailable server (InvalidEndpoint targetAgentId (peer_endpoint peer)))
                    | Some (protocol, origin) \<Rightarrow>
                        if protocol \<noteq> ''https:''
                        then Inr (Unavailable server (NotHttps targetAgentId protocol))
                        else Inr (RemoteForward
                          \<lparr>rf_server = server, rf_target_agent_id = targetAgentId,
                           rf_url = origin @ ''/api/mcp/'' @ encodeURIComponent server,
                           rf_sender_uri = selfSenderUri,
                           rf_execution_tier = res_execution_tier target,
                           rf_require_server_identity = default_to False requireServerIdentity,
                           rf_expected_server_spiffe_id = targetAgentId\<rparr>))))"

section \<open>The dispatch plan\<close>

definition buildMcpForwardDispatch ::
  "mcp_forward_spec \<Rightarrow> bool option \<Rightarrow> bool option \<Rightarrow> mcp_forward_dispatch" where
  "buildMcpForwardDispatch spec debug disablePinning =
     (case spec of
        Unavailable server reason \<Rightarrow> DispatchNone server reason
      | LocalExec server tier \<Rightarrow> DispatchLocal server tier
      | RemoteForward rf \<Rightarrow>
          DispatchRemote
            \<lparr>rq_url = rf_url rf, rq_target_agent_id = rf_target_agent_id rf,
             rq_sender_uri = rf_sender_uri rf, rq_execution_tier = rf_execution_tier rf,
             rq_outbound_policy =
               \<lparr>oc_debug = default_to False debug, oc_disable_pinning = default_to False disablePinning,
                oc_spiffe_server_identity = rf_require_server_identity rf\<rparr>,
             rq_expected_spiffe_id =
               (if rf_require_server_identity rf then Some (rf_expected_server_spiffe_id rf) else None)\<rparr>)"

section \<open>Lemmas\<close>

lemma resolveMcp_all_usable:
  "filter (\<lambda>r. res_skill_id r = MCP_SKILL_PREFIX @ canonicalizeServerName server \<and> res_health r \<noteq> Offline)
     (resolveMcp server caps) = resolveMcp server caps"
  by (rule filter_True) (auto simp: set_resolveMcp provides_def)

lemma planMcpRoute_resolved:
  "planMcpRoute server (resolveMcp server caps) self =
     (let rs = resolveMcp server caps in
      case List.find (\<lambda>r. res_agent_id r = self) rs of
        Some own \<Rightarrow> PlanLocal server (res_execution_tier own)
      | None \<Rightarrow>
          (case rs of
             [] \<Rightarrow> PlanNone server NotRegistered
           | r # _ \<Rightarrow> PlanRemote server (default_to r (List.find (\<lambda>r. res_health r = Healthy) rs))))"
  by (auto simp: planMcpRoute_def Let_def resolveMcp_all_usable split: option.splits list.splits)

lemma hex_digit_unreserved: "n < 16 \<Longrightarrow> uri_unreserved (hex_digit n)"
proof -
  assume "n < 16"
  then have "of_char (hex_digit n) = (if n < 10 then 48 + n else 55 + n)"
    by (simp add: hex_digit_def)
  with \<open>n < 16\<close> have "is_digit (hex_digit n) \<or> is_upper (hex_digit n)"
    by (simp add: char_between_def)
  then show ?thesis by (auto simp: uri_unreserved_def)
qed

lemma set_percent: "b < 256 \<Longrightarrow> \<forall>c \<in> set (percent b). uri_unreserved c \<or> c = CHR ''%''"
  by (auto simp: percent_def intro: hex_digit_unreserved)

lemma encode_char_safe: "d \<in> set (encode_char c) \<Longrightarrow> uri_unreserved d \<or> d = CHR ''%''"
proof -
  assume d: "d \<in> set (encode_char c)"
  have byte: "192 + n div 64 < 256 \<and> 128 + n mod 64 < 256" if "n < 256" for n :: nat
  proof -
    have "n div 64 < 4" using that by (simp add: div_less_iff_less_mult)
    moreover have "n mod 64 < 64" by simp
    ultimately show ?thesis by linarith
  qed
  have "of_char c < (256 :: nat)" by simp
  then have "192 + of_char c div 64 < (256 :: nat)" and "128 + of_char c mod 64 < (256 :: nat)"
    using byte [of "of_char c"] by blast+
  note small = this
  consider "uri_unreserved c" | "\<not> uri_unreserved c" "of_char c < (128 :: nat)"
    | "\<not> uri_unreserved c" "\<not> of_char c < (128 :: nat)" by blast
  then show ?thesis
  proof cases
    case 1
    with d show ?thesis by (simp add: encode_char_def)
  next
    case 2
    with d have "d \<in> set (percent (of_char c))" by (simp add: encode_char_def)
    with 2 show ?thesis using set_percent [of "of_char c"] by simp
  next
    case 3
    with d have "d \<in> set (percent (192 + of_char c div 64)) \<union> set (percent (128 + of_char c mod 64))"
      by (simp add: encode_char_def Let_def)
    with small show ?thesis using set_percent by blast
  qed
qed

lemma encodeURIComponent_safe:
  "\<forall>d \<in> set (encodeURIComponent s). uri_unreserved d \<or> d = CHR ''%''"
  using encode_char_safe by (auto simp: encodeURIComponent_def)

section \<open>Properties\<close>

text \<open>
  Routing over the replicated capabilities: a plan is local exactly when this node itself offers
  the server, with the tier derived from one of its own offers; otherwise the call goes to a node that
  offers the server, a degraded one only when no healthy one does, and there is no plan only when
  nobody offers it. An offline offer never counts.
\<close>

theorem route_plan_correct:
  "case planMcpRoute server (resolveMcp server caps) self of
     PlanLocal s tier \<Rightarrow> s = server
       \<and> (\<exists>cap \<in> set caps. provides server cap \<and> cap_agent_id cap = self \<and> tier = cap_tier cap)
   | PlanRemote s target \<Rightarrow> s = server
       \<and> (\<forall>cap \<in> set caps. provides server cap \<longrightarrow> cap_agent_id cap \<noteq> self)
       \<and> (\<exists>cap \<in> set caps. provides server cap \<and> res_agent_id target = cap_agent_id cap
            \<and> res_execution_tier target = cap_tier cap
            \<and> (cap_health cap = Healthy
                \<or> (\<forall>cap' \<in> set caps. provides server cap' \<longrightarrow> cap_health cap' \<noteq> Healthy)))
   | PlanNone s _ \<Rightarrow> s = server \<and> (\<forall>cap \<in> set caps. \<not> provides server cap)"
proof (cases "List.find (\<lambda>r. res_agent_id r = self) (resolveMcp server caps)")
  case (Some own)
  then obtain cap where "cap \<in> set caps" "provides server cap" "own = resolution_of cap"
    "cap_agent_id cap = self"
    by (auto simp: find_Some_iff set_resolveMcp dest!: nth_mem)
  then show ?thesis
    using Some by (auto simp: planMcpRoute_resolved)
next
  case None
  then have not_self: "\<forall>cap \<in> set caps. provides server cap \<longrightarrow> cap_agent_id cap \<noteq> self"
    by (auto simp: find_None_iff set_resolveMcp)
  show ?thesis
  proof (cases "resolveMcp server caps")
    case Nil
    then have "\<forall>cap \<in> set caps. \<not> provides server cap"
      by (auto simp: resolveMcp_conv filter_empty_conv)
    moreover have "planMcpRoute server (resolveMcp server caps) self = PlanNone server NotRegistered"
      using Nil by (simp add: planMcpRoute_def)
    ultimately show ?thesis by simp
  next
    case (Cons r rs)
    define t where "t = default_to r (List.find (\<lambda>r. res_health r = Healthy) (resolveMcp server caps))"
    have "t \<in> set (resolveMcp server caps)"
      and t_healthy: "res_health t = Healthy \<or> (\<forall>r \<in> set (resolveMcp server caps). res_health r \<noteq> Healthy)"
      using Cons by (auto simp: t_def find_Some_iff find_None_iff split: option.splits)
    then obtain cap where "cap \<in> set caps" "provides server cap" "t = resolution_of cap"
      by (auto simp: set_resolveMcp)
    moreover have "planMcpRoute server (resolveMcp server caps) self = PlanRemote server t"
      unfolding planMcpRoute_resolved Let_def None t_def
      by (simp only: Cons option.case list.case)
    ultimately show ?thesis
      using not_self t_healthy by (auto simp: set_resolveMcp)
  qed
qed

lemma planMcpRoute_offer:
  "(planMcpRoute server (resolveMcp server caps) self = PlanLocal s tier \<longrightarrow>
      (\<exists>cap \<in> set caps. provides server cap \<and> cap_agent_id cap = self \<and> tier = cap_tier cap))
   \<and> (planMcpRoute server (resolveMcp server caps) self = PlanRemote s t \<longrightarrow>
      (\<exists>cap \<in> set caps. provides server cap \<and> cap_agent_id cap = res_agent_id t \<and> res_execution_tier t = cap_tier cap))"
proof -
  have "t \<in> set (resolveMcp server caps)" if "planMcpRoute server (resolveMcp server caps) self = PlanRemote s t"
    using that
    by (auto simp: planMcpRoute_resolved Let_def dest: find_SomeD split: option.splits list.splits if_splits)
  moreover have "\<exists>r \<in> set (resolveMcp server caps). res_agent_id r = self \<and> tier = res_execution_tier r"
    if "planMcpRoute server (resolveMcp server caps) self = PlanLocal s tier"
    using that
    by (auto simp: planMcpRoute_resolved Let_def dest: find_SomeD split: option.splits list.splits if_splits)
  ultimately show ?thesis by (fastforce simp: set_resolveMcp)
qed

lemma planMcpRoute_foreign: "planMcpRoute server (resolveMcp server caps) self = PlanRemote s t \<Longrightarrow> res_agent_id t \<noteq> self"
proof -
  assume plan: "planMcpRoute server (resolveMcp server caps) self = PlanRemote s t"
  then have "List.find (\<lambda>r. res_agent_id r = self) (resolveMcp server caps) = None"
    by (auto simp: planMcpRoute_resolved Let_def split: option.splits)
  moreover have "t \<in> set (resolveMcp server caps)"
    using plan by (auto simp: planMcpRoute_resolved Let_def dest: find_SomeD split: option.splits list.splits if_splits)
  ultimately show ?thesis by (auto simp: find_None_iff)
qed

lemma dispatch_remote_inv:
  assumes "buildMcpForwardSpec parse_url plan sender resolvePeer pin = Inr spec"
    and "buildMcpForwardDispatch spec debug nopin = DispatchRemote rq"
  shows "\<exists>server target peer origin.
    plan = PlanRemote server target \<and> \<not> blank sender
    \<and> resolvePeer (res_agent_id target) = Inr (Some peer)
    \<and> parse_url (peer_endpoint peer) = Some (''https:'', origin)
    \<and> rq = \<lparr>rq_url = origin @ ''/api/mcp/'' @ encodeURIComponent server,
           rq_target_agent_id = res_agent_id target, rq_sender_uri = sender,
           rq_execution_tier = res_execution_tier target,
           rq_outbound_policy = \<lparr>oc_debug = default_to False debug,
             oc_disable_pinning = default_to False nopin,
             oc_spiffe_server_identity = default_to False pin\<rparr>,
           rq_expected_spiffe_id = (if default_to False pin then Some (res_agent_id target) else None)\<rparr>"
  using assms
  by (auto simp: buildMcpForwardSpec_def buildMcpForwardDispatch_def Let_def blank_def
        split: mcp_route_plan.splits if_splits sum.splits option.splits prod.splits)


text \<open>A node offering the server \<open>unifi\<close>, and the peer that serves it.\<close>

definition sample_cap :: "string \<Rightarrow> cap_health \<Rightarrow> capability" where
  "sample_cap agent h = \<lparr>cap_skill_id = ''mcp:unifi'', cap_version = ''1.0.0'', cap_description = ''net'',
     cap_agent_id = agent, cap_health = h, cap_trust_level = Num 3, cap_updated_at = 0,
     cap_category = ''mcp'', cap_permissions = [''read'']\<rparr>"

definition sample_target :: mcp_resolution where
  "sample_target = \<lparr>res_agent_id = ''b'', res_skill_id = ''mcp:unifi'', res_description = ''net'',
     res_version = ''1.0.0'', res_trust_level = Num 3, res_health = Healthy, res_execution_tier = Self\<rparr>"

definition sample_peer :: "string \<Rightarrow> js_error + mcp_forward_peer option" where
  "sample_peer a = Inr (if a = ''b'' then Some \<lparr>peer_agent_id = ''b'', peer_endpoint = ''https://b:9440''\<rparr> else None)"

definition sample_url :: "string \<Rightarrow> (string \<times> string) option" where
  "sample_url e = (if prefix ''https://'' e then Some (''https:'', e) else None)"

lemma sample_plan:
  "planMcpRoute '' UniFi'' (resolveMcp '' UniFi'' [sample_cap ''a'' Degraded, sample_cap ''b'' Healthy]) ''me''
     = PlanRemote '' UniFi'' sample_target"
  by code_simp

theorem route_plan_correct_witness:
  "\<exists>cap \<in> set [sample_cap ''a'' Degraded, sample_cap ''b'' Healthy].
     provides '' UniFi'' cap \<and> cap_agent_id cap = ''b'' \<and> cap_health cap = Healthy"
  using route_plan_correct [of "'' UniFi''" "[sample_cap ''a'' Degraded, sample_cap ''b'' Healthy]" "''me''"]
  unfolding sample_plan by (auto simp: sample_cap_def sample_target_def)

lemma sample_spec:
  "buildMcpForwardSpec sample_url (PlanRemote ''unifi'' sample_target) ''me'' sample_peer (Some True) =
     Inr (RemoteForward \<lparr>rf_server = ''unifi'', rf_target_agent_id = ''b'',
       rf_url = ''https://b:9440/api/mcp/unifi'', rf_sender_uri = ''me'', rf_execution_tier = Self,
       rf_require_server_identity = True, rf_expected_server_spiffe_id = ''b''\<rparr>)"
  by code_simp


end
