(* ===== verification/Meldekanal.thy ===== *)
theory Meldekanal
  imports Mcp_Tiers
begin

text \<open>
  Operator approval channels, \<open>packages/daemon/src/meldekanal.ts\<close>: the timeout wrapper, the
  normalisation of what a channel answers, and the registry that asks the first healthy channel or one
  addressed channel.

  A promise of a channel is described by what it does (\<open>op_behaviour\<close>): it settles or fails some
  milliseconds after the call, or never does. A value a channel answers is not trusted to have the
  declared type, so it is modelled with its own and inherited properties and with getters that throw.
  A thrown value may be an \<open>Error\<close>, another printable value, or an object whose conversion to a string
  throws (\<open>HostileVal\<close>); \<open>Inl\<close> is an exception that leaves the function.
\<close>

section \<open>Data\<close>

datatype approval_outcome = Approved | Rejected | DeniedNoChannel | TimedOut | Errored

record approval_request =
  ar_request_id :: string
  ar_server :: string
  ar_tool :: string
  ar_tier :: mcp_tier
  ar_sender_uri :: string
  ar_summary :: string

record approval_decision =
  ad_outcome :: approval_outcome
  ad_channel_id :: "string option"
  ad_note :: "string option"

text \<open>Values: a string, another printable value, or one on which \<open>String(x)\<close> throws (with its \<open>typeof\<close>).\<close>

datatype js_value = StrVal string | PrintVal string | HostileObj string

datatype js_thrown = ErrorVal string | PlainVal string | HostileVal

datatype js_property =
    Absent
  | FromPrototype js_value
  | Own js_value
  | OwnThrows js_thrown

record raw_object =
  ro_outcome :: js_property
  ro_note :: js_property
  ro_channel_id :: js_property

datatype raw_decision =
    NonObject                 \<comment> \<open>a primitive, \<open>null\<close> or \<open>undefined\<close>\<close>
  | ArrayVal js_property      \<comment> \<open>an array, with its property \<open>channelId\<close>\<close>
  | ObjectVal raw_object

datatype 'v op_behaviour =
    Settles nat 'v
  | Fails nat js_thrown
  | Hangs

datatype 'v timed_result = Ok 'v | NotOkTimeout | NotOkError js_thrown

record meldekanal =
  mk_id :: string
  mk_is_healthy :: "bool op_behaviour"
  mk_request_approval :: "approval_request \<Rightarrow> raw_decision op_behaviour"

record meldekanal_registry =
  mr_channels :: "meldekanal list"
  mr_health_timeout_ms :: nat
  mr_approval_timeout_ms :: nat

section \<open>Operations\<close>

definition isApproved :: "approval_decision \<Rightarrow> bool" where
  "isApproved decision \<longleftrightarrow> ad_outcome decision = Approved"

definition DEFAULT_HEALTH_TIMEOUT_MS :: nat where "DEFAULT_HEALTH_TIMEOUT_MS = 3000"
definition DEFAULT_APPROVAL_TIMEOUT_MS :: nat where "DEFAULT_APPROVAL_TIMEOUT_MS = 60000"

definition VALID_OUTCOMES :: "(string, approval_outcome) jsmap" where
  "VALID_OUTCOMES = [(''approved'', Approved), (''rejected'', Rejected),
     (''denied-no-channel'', DeniedNoChannel), (''timeout'', TimedOut), (''error'', Errored)]"

text \<open>
  \<open>setTimeout\<close> uses a delay of 1 ms for delays below 1 and above \<open>2^31 - 1\<close>. The timer is started before
  \<open>op\<close> is called, so an answer in the same millisecond as the timer comes too late.
\<close>

definition timer_delay :: "nat \<Rightarrow> nat" where
  "timer_delay ms = (if 1 \<le> ms \<and> ms \<le> 2147483647 then ms else 1)"

definition withTimeout :: "'v op_behaviour \<Rightarrow> nat \<Rightarrow> 'v timed_result" where
  "withTimeout op timeoutMs =
     (case op of
        Settles t v \<Rightarrow> if t < timer_delay timeoutMs then Ok v else NotOkTimeout
      | Fails t e \<Rightarrow> if t < timer_delay timeoutMs then NotOkError e else NotOkTimeout
      | Hangs \<Rightarrow> NotOkTimeout)"

definition errNote :: "js_thrown \<Rightarrow> js_thrown + string" where
  "errNote e = (case e of
     ErrorVal message \<Rightarrow> Inr message
   | PlainVal text \<Rightarrow> Inr text
   | HostileVal \<Rightarrow> Inl (ErrorVal ''Cannot convert object to primitive value''))"

definition error_decision :: "string \<Rightarrow> string \<Rightarrow> approval_decision" where
  "error_decision channelId note =
     \<lparr>ad_outcome = Errored, ad_channel_id = Some channelId, ad_note = Some note\<rparr>"

fun has_own :: "js_property \<Rightarrow> bool" where
  "has_own Absent = False"
| "has_own (FromPrototype _) = False"
| "has_own (Own _) = True"
| "has_own (OwnThrows _) = True"

fun outcome_label :: "js_value \<Rightarrow> string" where
  "outcome_label (StrVal s) = s"
| "outcome_label (PrintVal s) = s"
| "outcome_label (HostileObj type) = ''<'' @ type @ ''>''"

text \<open>Reading \<open>outcome\<close>, then \<open>note\<close> when it is an own property, inside the \<open>try\<close>.\<close>

fun read_fields :: "raw_object \<Rightarrow> js_thrown + (js_value \<times> js_value option) option" where
  "read_fields raw =
     (case ro_outcome raw of
        OwnThrows e \<Rightarrow> Inl e
      | Own outcome \<Rightarrow>
          (case ro_note raw of
             OwnThrows e \<Rightarrow> Inl e
           | Own note \<Rightarrow> Inr (Some (outcome, Some note))
           | _ \<Rightarrow> Inr (Some (outcome, None)))
      | _ \<Rightarrow> Inr None)"

definition normalizeDecision :: "raw_decision \<Rightarrow> string \<Rightarrow> js_thrown + approval_decision" where
  "normalizeDecision raw channelId =
     (case raw of
        NonObject \<Rightarrow> Inr (error_decision channelId ''channel returned non-object decision'')
      | ArrayVal _ \<Rightarrow> Inr (error_decision channelId ''channel returned non-object decision'')
      | ObjectVal ob \<Rightarrow>
          (case read_fields ob of
             Inl e \<Rightarrow>
               (case errNote e of
                  Inl e' \<Rightarrow> Inl e'
                | Inr n \<Rightarrow> Inr (error_decision channelId (''channel decision threw: '' @ n)))
           | Inr None \<Rightarrow> Inr (error_decision channelId ''channel returned decision without own outcome'')
           | Inr (Some (outcome, note)) \<Rightarrow>
               (case (case outcome of StrVal s \<Rightarrow> m_get VALID_OUTCOMES s | _ \<Rightarrow> None) of
                  None \<Rightarrow> Inr (error_decision channelId
                    (''channel returned unknown outcome: '' @ outcome_label outcome))
                | Some oc \<Rightarrow> Inr \<lparr>ad_outcome = oc, ad_channel_id = Some channelId,
                    ad_note = (case note of Some (StrVal n) \<Rightarrow> Some n | _ \<Rightarrow> None)\<rparr>)))"

definition DenyAllChannel :: meldekanal where
  "DenyAllChannel =
     \<lparr>mk_id = ''deny-all'', mk_is_healthy = Settles 0 False,
      mk_request_approval = (\<lambda>_. Settles 0 (ObjectVal
        \<lparr>ro_outcome = Own (StrVal ''denied-no-channel''), ro_note = Absent,
         ro_channel_id = Own (StrVal ''deny-all'')\<rparr>))\<rparr>"

definition new_MeldekanalRegistry ::
  "meldekanal list \<Rightarrow> nat option \<Rightarrow> nat option \<Rightarrow> meldekanal_registry" where
  "new_MeldekanalRegistry channels healthMs approvalMs =
     \<lparr>mr_channels = (if 0 < length channels then channels else [DenyAllChannel]),
      mr_health_timeout_ms = default_to DEFAULT_HEALTH_TIMEOUT_MS healthMs,
      mr_approval_timeout_ms = default_to DEFAULT_APPROVAL_TIMEOUT_MS approvalMs\<rparr>"

text \<open>The part both registry methods share: ask a channel found healthy, its answer is terminal.\<close>

definition ask_channel ::
  "meldekanal_registry \<Rightarrow> meldekanal \<Rightarrow> approval_request \<Rightarrow> js_thrown + approval_decision" where
  "ask_channel reg channel req =
     (case withTimeout (mk_request_approval channel req) (mr_approval_timeout_ms reg) of
        NotOkTimeout \<Rightarrow> Inr \<lparr>ad_outcome = TimedOut, ad_channel_id = Some (mk_id channel), ad_note = None\<rparr>
      | NotOkError e \<Rightarrow>
          (case errNote e of Inl e' \<Rightarrow> Inl e' | Inr n \<Rightarrow> Inr (error_decision (mk_id channel) n))
      | Ok raw \<Rightarrow> normalizeDecision raw (mk_id channel))"

fun request_first ::
  "meldekanal_registry \<Rightarrow> meldekanal list \<Rightarrow> approval_request \<Rightarrow> js_thrown + approval_decision" where
  "request_first reg [] req = Inr \<lparr>ad_outcome = DeniedNoChannel, ad_channel_id = None, ad_note = None\<rparr>"
| "request_first reg (channel # rest) req =
     (if withTimeout (mk_is_healthy channel) (mr_health_timeout_ms reg) \<noteq> Ok True
      then request_first reg rest req
      else ask_channel reg channel req)"

definition requestApproval ::
  "meldekanal_registry \<Rightarrow> approval_request \<Rightarrow> js_thrown + approval_decision" where
  "requestApproval reg req = request_first reg (mr_channels reg) req"

definition requestApprovalOn ::
  "meldekanal_registry \<Rightarrow> string \<Rightarrow> approval_request \<Rightarrow> js_thrown + approval_decision" where
  "requestApprovalOn reg channelId req =
     (case List.find (\<lambda>c. mk_id c = channelId) (mr_channels reg) of
        None \<Rightarrow> Inr \<lparr>ad_outcome = DeniedNoChannel, ad_channel_id = None,
          ad_note = Some (''unknown channel: '' @ channelId)\<rparr>
      | Some channel \<Rightarrow>
          (case withTimeout (mk_is_healthy channel) (mr_health_timeout_ms reg) of
             Ok True \<Rightarrow> ask_channel reg channel req
           | Ok False \<Rightarrow> Inr \<lparr>ad_outcome = DeniedNoChannel, ad_channel_id = Some (mk_id channel),
               ad_note = Some ''channel unhealthy''\<rparr>
           | NotOkTimeout \<Rightarrow> Inr \<lparr>ad_outcome = DeniedNoChannel, ad_channel_id = Some (mk_id channel),
               ad_note = Some ''health timeout''\<rparr>
           | NotOkError _ \<Rightarrow> Inr \<lparr>ad_outcome = DeniedNoChannel, ad_channel_id = Some (mk_id channel),
               ad_note = Some ''health error''\<rparr>))"

section \<open>What counts as an approval\<close>

text \<open>
  The specification: a channel is reachable when it reports \<open>true\<close> before the health timeout, and it
  approves a request when it answers, before the approval timeout, with an object whose own property
  \<open>outcome\<close> is the string \<open>approved\<close> (and whose own \<open>note\<close> can be read).
\<close>

definition reachable :: "meldekanal_registry \<Rightarrow> meldekanal \<Rightarrow> bool" where
  "reachable reg c \<longleftrightarrow>
     (\<exists>t < timer_delay (mr_health_timeout_ms reg). mk_is_healthy c = Settles t True)"

definition says_approved :: "raw_decision \<Rightarrow> bool" where
  "says_approved raw \<longleftrightarrow> (\<exists>ob. raw = ObjectVal ob \<and> ro_outcome ob = Own (StrVal ''approved'')
     \<and> (\<forall>e. ro_note ob \<noteq> OwnThrows e))"

definition approves :: "meldekanal_registry \<Rightarrow> meldekanal \<Rightarrow> approval_request \<Rightarrow> bool" where
  "approves reg c req \<longleftrightarrow> (\<exists>t < timer_delay (mr_approval_timeout_ms reg). \<exists>raw.
     mk_request_approval c req = Settles t raw \<and> says_approved raw)"

lemma health_ok: "withTimeout (mk_is_healthy c) (mr_health_timeout_ms reg) = Ok True \<longleftrightarrow> reachable reg c"
  by (auto simp: withTimeout_def reachable_def split: op_behaviour.splits)

lemma valid_outcome_approved: "m_get VALID_OUTCOMES s = Some Approved \<longleftrightarrow> s = ''approved''"
  by (auto simp: VALID_OUTCOMES_def)

lemma valid_outcome_of_approved [simp]: "m_get VALID_OUTCOMES ''approved'' = Some Approved"
  by (simp add: VALID_OUTCOMES_def)

lemma error_decision_sel [simp]:
  "ad_outcome (error_decision c n) = Errored" "ad_channel_id (error_decision c n) = Some c"
  by (simp_all add: error_decision_def)

lemma normalizeDecision_approved:
  "(\<exists>d. normalizeDecision raw c = Inr d \<and> isApproved d) \<longleftrightarrow> says_approved raw"
proof (cases raw)
  case (ObjectVal ob)
  then show ?thesis
    by (auto simp: normalizeDecision_def says_approved_def isApproved_def valid_outcome_approved
          split: js_property.splits js_value.splits sum.splits option.splits)
qed (auto simp: normalizeDecision_def says_approved_def isApproved_def)

lemma normalizeDecision_channel: "normalizeDecision raw c = Inr d \<Longrightarrow> ad_channel_id d = Some c"
  by (auto simp: normalizeDecision_def split: raw_decision.splits sum.splits option.splits)

lemma ask_channel_approved:
  "(\<exists>d. ask_channel reg c req = Inr d \<and> isApproved d) \<longleftrightarrow> approves reg c req"
proof (cases "withTimeout (mk_request_approval c req) (mr_approval_timeout_ms reg)")
  case (Ok raw)
  then have "approves reg c req \<longleftrightarrow> says_approved raw"
    by (auto simp: approves_def withTimeout_def split: op_behaviour.splits if_splits)
  with Ok show ?thesis by (simp add: ask_channel_def normalizeDecision_approved)
next
  case NotOkTimeout
  then show ?thesis
    by (auto simp: ask_channel_def approves_def withTimeout_def isApproved_def
          split: op_behaviour.splits if_splits)
next
  case (NotOkError e)
  then show ?thesis
    by (auto simp: ask_channel_def approves_def withTimeout_def isApproved_def
          split: op_behaviour.splits if_splits sum.splits)
qed

lemma ask_channel_id: "ask_channel reg c req = Inr d \<Longrightarrow> ad_channel_id d = Some (mk_id c)"
  by (auto simp: ask_channel_def normalizeDecision_channel split: timed_result.splits sum.splits)

lemma request_first_find:
  "request_first reg cs req =
     (case List.find (reachable reg) cs of
        None \<Rightarrow> Inr \<lparr>ad_outcome = DeniedNoChannel, ad_channel_id = None, ad_note = None\<rparr>
      | Some c \<Rightarrow> ask_channel reg c req)"
  by (induction cs) (simp_all add: health_ok)

lemma mr_channels_new [simp]:
  "mr_channels (new_MeldekanalRegistry cs h a) = (if cs = [] then [DenyAllChannel] else cs)"
  by (simp add: new_MeldekanalRegistry_def)

lemma DenyAll_unreachable [simp]: "\<not> reachable reg DenyAllChannel"
  by (simp add: reachable_def DenyAllChannel_def)

lemma requestApproval_find:
  "requestApproval (new_MeldekanalRegistry cs h a) req =
     (case List.find (reachable (new_MeldekanalRegistry cs h a)) cs of
        None \<Rightarrow> Inr \<lparr>ad_outcome = DeniedNoChannel, ad_channel_id = None, ad_note = None\<rparr>
      | Some c \<Rightarrow> ask_channel (new_MeldekanalRegistry cs h a) c req)"
  by (simp add: requestApproval_def request_first_find)

section \<open>Contract: asking one addressed channel\<close>

text \<open>
  The view the router has of the registry (\<open>ChannelBoundApprover\<close>): one method, which asks the addressed
  channel and no other. \<open>willing channel req\<close> is the fact an approval has to rest on.
\<close>

locale channel_bound_approver =
  fixes ask_on :: "string \<Rightarrow> approval_request \<Rightarrow> js_thrown + raw_decision"
    and willing :: "string \<Rightarrow> approval_request \<Rightarrow> bool"
  assumes approval_rests_on_channel:
    "ask_on channel req = Inr raw \<Longrightarrow> says_approved raw \<Longrightarrow> willing channel req"
    and channel_not_faked:
    "ask_on channel req = Inr raw \<Longrightarrow> raw = ObjectVal ob \<Longrightarrow> ro_channel_id ob \<in> {Absent, Own (StrVal channel)}"

text \<open>The decision object the registry hands to its caller, as a JavaScript value.\<close>

fun outcome_text :: "approval_outcome \<Rightarrow> string" where
  "outcome_text Approved = ''approved''"
| "outcome_text Rejected = ''rejected''"
| "outcome_text DeniedNoChannel = ''denied-no-channel''"
| "outcome_text TimedOut = ''timeout''"
| "outcome_text Errored = ''error''"

definition opt_property :: "string option \<Rightarrow> js_property" where
  "opt_property v = (case v of None \<Rightarrow> Absent | Some s \<Rightarrow> Own (StrVal s))"

definition decision_value :: "approval_decision \<Rightarrow> raw_decision" where
  "decision_value d = ObjectVal \<lparr>ro_outcome = Own (StrVal (outcome_text (ad_outcome d))),
     ro_note = opt_property (ad_note d), ro_channel_id = opt_property (ad_channel_id d)\<rparr>"

definition registry_ask ::
  "meldekanal_registry \<Rightarrow> string \<Rightarrow> approval_request \<Rightarrow> js_thrown + raw_decision" where
  "registry_ask reg channel req = map_sum id decision_value (requestApprovalOn reg channel req)"

lemma says_approved_decision [simp]: "says_approved (decision_value d) \<longleftrightarrow> isApproved d"
  by (cases "ad_outcome d")
     (auto simp: says_approved_def decision_value_def isApproved_def opt_property_def split: option.splits)

lemma normalizeDecision_value:
  "ad_channel_id d \<in> {None, Some c} \<Longrightarrow>
   normalizeDecision (decision_value d) c = Inr (d\<lparr>ad_channel_id := Some c\<rparr>)"
  by (cases "ad_outcome d")
     (auto simp: normalizeDecision_def decision_value_def opt_property_def VALID_OUTCOMES_def
       split: option.splits)

definition willing_on :: "meldekanal_registry \<Rightarrow> string \<Rightarrow> approval_request \<Rightarrow> bool" where
  "willing_on reg channel req \<longleftrightarrow>
     (\<exists>c. List.find (\<lambda>c. mk_id c = channel) (mr_channels reg) = Some c
        \<and> reachable reg c \<and> approves reg c req)"

lemma requestApprovalOn_approved:
  "(\<exists>d. requestApprovalOn reg channel req = Inr d \<and> isApproved d) \<longleftrightarrow> willing_on reg channel req"
proof (cases "List.find (\<lambda>c. mk_id c = channel) (mr_channels reg)")
  case None
  then show ?thesis by (simp add: requestApprovalOn_def willing_on_def isApproved_def)
next
  case (Some c)
  have "(\<exists>d. requestApprovalOn reg channel req = Inr d \<and> isApproved d) \<longleftrightarrow>
      reachable reg c \<and> (\<exists>d. ask_channel reg c req = Inr d \<and> isApproved d)"
    using Some
    by (auto simp: requestApprovalOn_def isApproved_def health_ok [symmetric]
          split: timed_result.splits bool.splits)
  with Some show ?thesis by (simp add: willing_on_def ask_channel_approved)
qed

lemma requestApprovalOn_channel:
  "requestApprovalOn reg channel req = Inr d \<Longrightarrow> ad_channel_id d \<in> {None, Some channel}"
  by (auto simp: requestApprovalOn_def find_Some_iff dest: ask_channel_id
        split: option.splits timed_result.splits bool.splits)

lemma registry_ask_Inr:
  assumes "registry_ask reg channel req = Inr raw"
  obtains d where "requestApprovalOn reg channel req = Inr d" "raw = decision_value d"
  using assms by (cases "requestApprovalOn reg channel req") (auto simp: registry_ask_def)

interpretation registry_view: channel_bound_approver "registry_ask reg" "willing_on reg"
  for reg :: meldekanal_registry
proof
  show "willing_on reg channel req"
    if asked: "registry_ask reg channel req = Inr raw" and raw: "says_approved raw" for channel req raw
  proof -
    obtain d where "requestApprovalOn reg channel req = Inr d" "raw = decision_value d"
      using asked by (rule registry_ask_Inr)
    with raw show ?thesis using requestApprovalOn_approved by auto
  qed
  show "ro_channel_id ob \<in> {Absent, Own (StrVal channel)}"
    if asked: "registry_ask reg channel req = Inr raw" and raw: "raw = ObjectVal ob" for channel req raw ob
  proof -
    obtain d where "requestApprovalOn reg channel req = Inr d" "raw = decision_value d"
      using asked by (rule registry_ask_Inr)
    with raw show ?thesis
      using requestApprovalOn_channel [of reg channel req d] by (auto simp: decision_value_def opt_property_def)
  qed
qed

section \<open>Properties\<close>

text \<open>
  The registry answers \<open>approved\<close> exactly when the FIRST reachable channel, the ones before it all
  being unreachable, itself approves the request in time. No later channel is asked, a channel that
  answers late, throws, or answers with a malformed or inherited \<open>outcome\<close> never approves, and with no
  reachable channel (an empty registry included) the answer is \<open>denied-no-channel\<close>.
\<close>

theorem registry_approved_iff:
  "((\<exists>d. requestApproval (new_MeldekanalRegistry cs h a) req = Inr d \<and> isApproved d) \<longleftrightarrow>
      (\<exists>before c after. cs = before @ c # after
         \<and> (\<forall>b \<in> set before. \<not> reachable (new_MeldekanalRegistry cs h a) b)
         \<and> reachable (new_MeldekanalRegistry cs h a) c \<and> approves (new_MeldekanalRegistry cs h a) c req))
   \<and> ((\<forall>c \<in> set cs. \<not> reachable (new_MeldekanalRegistry cs h a) c) \<longrightarrow>
        requestApproval (new_MeldekanalRegistry cs h a) req =
          Inr \<lparr>ad_outcome = DeniedNoChannel, ad_channel_id = None, ad_note = None\<rparr>)"
proof (cases "List.find (reachable (new_MeldekanalRegistry cs h a)) cs")
  case None
  then have "\<forall>c \<in> set cs. \<not> reachable (new_MeldekanalRegistry cs h a) c"
    by (auto simp: find_None_iff)
  with None show ?thesis by (auto simp: requestApproval_find isApproved_def)
next
  case (Some c)
  then obtain before after where cs: "cs = before @ c # after"
    and first: "\<forall>b \<in> set before. \<not> reachable (new_MeldekanalRegistry cs h a) b"
    and c: "reachable (new_MeldekanalRegistry cs h a) c"
    using find_Some_split [OF Some] by blast
  have unique: "c' = c" if "cs = before' @ c' # after'" "reachable (new_MeldekanalRegistry cs h a) c'"
    "\<forall>b \<in> set before'. \<not> reachable (new_MeldekanalRegistry cs h a) b" for before' c' after'
    using find_split_Some [of cs before' c' after'] that Some by simp
  have "(\<exists>d. requestApproval (new_MeldekanalRegistry cs h a) req = Inr d \<and> isApproved d) \<longleftrightarrow>
      approves (new_MeldekanalRegistry cs h a) c req"
    using Some by (simp add: requestApproval_find ask_channel_approved)
  moreover have "c \<in> set cs" using cs by simp
  ultimately show ?thesis using cs first c unique by blast
qed

text \<open>A channel whose liveness check hangs, one that approves, one that would approve later.\<close>

definition sample_channel :: "string \<Rightarrow> bool op_behaviour \<Rightarrow> nat \<Rightarrow> meldekanal" where
  "sample_channel i health t = \<lparr>mk_id = i, mk_is_healthy = health,
     mk_request_approval = (\<lambda>_. Settles t (ObjectVal
       \<lparr>ro_outcome = Own (StrVal ''approved''), ro_note = Absent, ro_channel_id = Absent\<rparr>))\<rparr>"

lemma sample_reachable:
  "reachable (new_MeldekanalRegistry cs None None) (sample_channel i (Settles 20 True) t)"
  "\<not> reachable (new_MeldekanalRegistry cs None None) (sample_channel i Hangs t)"
  by (auto simp: reachable_def sample_channel_def new_MeldekanalRegistry_def timer_delay_def
        DEFAULT_HEALTH_TIMEOUT_MS_def)

lemma sample_approves:
  "approves (new_MeldekanalRegistry cs None None) (sample_channel i h t) req \<longleftrightarrow> t < 60000"
  by (auto simp: approves_def sample_channel_def new_MeldekanalRegistry_def timer_delay_def
        DEFAULT_APPROVAL_TIMEOUT_MS_def says_approved_def)

definition sample_request :: approval_request where
  "sample_request = \<lparr>ar_request_id = ''r1'', ar_server = ''unifi'', ar_tool = ''block_client'',
     ar_tier = Gate, ar_sender_uri = ''spiffe://thinklocal/node/x'', ar_summary = ''block''\<rparr>"

theorem registry_approved_iff_witness:
  "(let cs = [sample_channel ''telegram'' Hangs 5, sample_channel ''cli'' (Settles 20 True) 900] in
     (\<exists>d. requestApproval (new_MeldekanalRegistry cs None None) sample_request = Inr d \<and> isApproved d))
   \<and> requestApproval (new_MeldekanalRegistry [sample_channel ''telegram'' Hangs 5] None None) sample_request
       = Inr \<lparr>ad_outcome = DeniedNoChannel, ad_channel_id = None, ad_note = None\<rparr>"
proof -
  let ?t = "sample_channel ''telegram'' Hangs 5" and ?c = "sample_channel ''cli'' (Settles 20 True) 900"
  have "[?t, ?c] = [?t] @ ?c # []" by simp
  then have "\<exists>d. requestApproval (new_MeldekanalRegistry [?t, ?c] None None) sample_request = Inr d \<and> isApproved d"
  proof -
    have "?c \<in> set [?t, ?c] \<and> (\<forall>b \<in> set [?t]. \<not> reachable (new_MeldekanalRegistry [?t, ?c] None None) b)
        \<and> reachable (new_MeldekanalRegistry [?t, ?c] None None) ?c
        \<and> approves (new_MeldekanalRegistry [?t, ?c] None None) ?c sample_request"
      by (simp add: sample_reachable sample_approves)
    then show ?thesis
      using registry_approved_iff [of "[?t, ?c]" None None sample_request] \<open>[?t, ?c] = [?t] @ ?c # []\<close>
      by blast
  qed
  moreover have "requestApproval (new_MeldekanalRegistry [?t] None None) sample_request
      = Inr \<lparr>ad_outcome = DeniedNoChannel, ad_channel_id = None, ad_note = None\<rparr>"
    using registry_approved_iff [of "[?t]" None None sample_request] by (simp add: sample_reachable)
  ultimately show ?thesis by (simp add: Let_def)
qed

end
