(* ===== verification/Freigabe_Matrix.thy ===== *)
theory Freigabe_Matrix
  imports Meldekanal
begin

text \<open>
  The approval matrix \<open>freigabe-matrix.ts\<close> (parser, resolver, routability guard) and the router
  \<open>approval-router.ts\<close> that asks exactly the channel the matrix names.

  The raw matrix is a parsed TOML or JSON value. Each reason of a \<open>FreigabeMatrixError\<close> is a constructor
  of \<open>matrix_error\<close>, carrying the index of the entry where the message has it. The quorum is the exact
  decimal value; \<open>Number\<close> gives an infinity, which is no integer, from \<open>2^1024 - 2^970\<close> on.
\<close>

section \<open>Data\<close>

datatype decider = Human string | ConsensusQuorum int

record freigabe_entry =
  fe_tier :: mcp_tier
  fe_server :: string
  fe_tool :: string
  fe_channel :: string
  fe_decider :: decider

record resolve_context =
  rc_tier :: mcp_tier
  rc_server :: string
  rc_tool :: string

record matrix_target =
  mt_channel :: string
  mt_decider :: decider

datatype decider_error = DeciderNotString | HumanWithoutId | ConsensusForm | QuorumTooSmall | UnknownGrammar

datatype matrix_error =
    RootNotObject
  | UnknownRootKeys "string list"
  | EntriesNotArray
  | EntryNotObject nat
  | UnknownKeys nat "string list"
  | BadTier nat
  | MissingServer nat
  | NonCanonicalServer nat string
  | BadTool nat
  | BadChannel nat
  | BadDecider nat decider_error
  | DuplicateSpecificity string

definition VALID_TIERS :: "(string, mcp_tier) jsmap" where
  "VALID_TIERS = [(''self'', Self), (''gate'', Gate), (''consensus'', Consensus)]"

definition ENTRY_KEYS :: "string list" where
  "ENTRY_KEYS = [''tier'', ''server'', ''tool'', ''channel'', ''decider'']"

definition WILDCARD :: string where "WILDCARD = ''*''"

section \<open>Parsing\<close>

definition decimal :: "string \<Rightarrow> int" where
  "decimal ds = foldl (\<lambda>n c. 10 * n + (int (of_char c) - 48)) 0 ds"

definition NUMBER_OVERFLOW :: int where "NUMBER_OVERFLOW = 2 ^ 1024 - 2 ^ 970"

definition parseDecider :: "json \<Rightarrow> decider_error + decider" where
  "parseDecider raw =
     (case as_str raw of
        None \<Rightarrow> Inl DeciderNotString
      | Some s \<Rightarrow>
          if s = [] then Inl DeciderNotString
          else if prefix ''human:'' s then
            let i = drop 6 s in if i = [] then Inl HumanWithoutId else Inr (Human i)
          else if prefix ''consensus:'' s then
            let n = drop 17 s in
            if \<not> prefix ''consensus:quorum='' s \<or> n = [] \<or> \<not> list_all is_digit n then Inl ConsensusForm
            else let quorum = decimal n in
              if NUMBER_OVERFLOW \<le> quorum \<or> quorum < 2 then Inl QuorumTooSmall
              else Inr (ConsensusQuorum quorum)
          else Inl UnknownGrammar)"

definition specificity_key :: "string \<Rightarrow> string \<Rightarrow> string \<Rightarrow> string" where
  "specificity_key tier server tool = tier @ ''|'' @ server @ ''|'' @ tool"

text \<open>One iteration of the \<open>forEach\<close>: the entry and its specificity key.\<close>

definition parse_entry ::
  "string list \<Rightarrow> nat \<Rightarrow> json \<Rightarrow> string list \<Rightarrow> matrix_error + (freigabe_entry \<times> string)" where
  "parse_entry known i e seen =
     (case as_obj e of
        None \<Rightarrow> Inl (EntryNotObject i)
      | Some obj \<Rightarrow>
          let unknownKeys = filter (\<lambda>k. k \<notin> set ENTRY_KEYS) (m_keys obj) in
          if 0 < length unknownKeys then Inl (UnknownKeys i unknownKeys)
          else
            (case as_str (json_prop e ''tier'') of
               None \<Rightarrow> Inl (BadTier i)
             | Some tier \<Rightarrow>
            (case m_get VALID_TIERS tier of
               None \<Rightarrow> Inl (BadTier i)
             | Some t \<Rightarrow>
            (case as_str (json_prop e ''server'') of
               None \<Rightarrow> Inl (MissingServer i)
             | Some server \<Rightarrow>
                 if server = [] then Inl (MissingServer i)
                 else if server \<notin> set known then Inl (NonCanonicalServer i server)
                 else
            (case (if json_prop e ''tool'' = JUndefined then Some WILDCARD else as_str (json_prop e ''tool'')) of
               None \<Rightarrow> Inl (BadTool i)
             | Some tool \<Rightarrow>
                 if tool = [] then Inl (BadTool i)
                 else
            (case as_str (json_prop e ''channel'') of
               None \<Rightarrow> Inl (BadChannel i)
             | Some channel \<Rightarrow>
                 if blank channel then Inl (BadChannel i)
                 else
            (case parseDecider (json_prop e ''decider'') of
               Inl de \<Rightarrow> Inl (BadDecider i de)
             | Inr decider \<Rightarrow>
                 let key = specificity_key tier server tool in
                 if key \<in> set seen then Inl (DuplicateSpecificity key)
                 else Inr (\<lparr>fe_tier = t, fe_server = server, fe_tool = tool,
                            fe_channel = channel, fe_decider = decider\<rparr>, key))))))))"

fun parse_entries ::
  "string list \<Rightarrow> nat \<Rightarrow> json list \<Rightarrow> string list \<Rightarrow> matrix_error + freigabe_entry list" where
  "parse_entries known i [] seen = Inr []"
| "parse_entries known i (e # es) seen =
     (case parse_entry known i e seen of
        Inl err \<Rightarrow> Inl err
      | Inr (entry, key) \<Rightarrow>
          (case parse_entries known (Suc i) es (key # seen) of
             Inl err \<Rightarrow> Inl err
           | Inr entries \<Rightarrow> Inr (entry # entries)))"

definition parseFreigabeMatrix :: "json \<Rightarrow> string list \<Rightarrow> matrix_error + freigabe_entry list" where
  "parseFreigabeMatrix raw knownServers =
     (case as_obj raw of
        None \<Rightarrow> Inl RootNotObject
      | Some obj \<Rightarrow>
          let unknownRoot = filter (\<lambda>k. k \<noteq> ''entries'') (m_keys obj) in
          if 0 < length unknownRoot then Inl (UnknownRootKeys unknownRoot)
          else
            (case (if json_prop raw ''entries'' \<in> {JUndefined, JNull} then Some []
                   else as_arr (json_prop raw ''entries'')) of
               None \<Rightarrow> Inl EntriesNotArray
             | Some rawEntries \<Rightarrow> parse_entries knownServers 0 rawEntries []))"

section \<open>Resolving\<close>

fun resolve_loop ::
  "resolve_context \<Rightarrow> freigabe_entry list \<Rightarrow> freigabe_entry option \<times> freigabe_entry option \<Rightarrow>
   freigabe_entry option \<times> freigabe_entry option" where
  "resolve_loop ctx [] found = found"
| "resolve_loop ctx (e # es) (exact, wildcard) =
     (if fe_tier e \<noteq> rc_tier ctx \<or> fe_server e \<noteq> rc_server ctx then resolve_loop ctx es (exact, wildcard)
      else if fe_tool e = rc_tool ctx then resolve_loop ctx es (Some e, wildcard)
      else if fe_tool e = WILDCARD then resolve_loop ctx es (exact, Some e)
      else resolve_loop ctx es (exact, wildcard))"

definition resolveEntry :: "freigabe_entry list \<Rightarrow> resolve_context \<Rightarrow> matrix_target option" where
  "resolveEntry matrix ctx =
     (case resolve_loop ctx matrix (None, None) of
        (exact, wildcard) \<Rightarrow>
          (case coalesce exact wildcard of
             None \<Rightarrow> None
           | Some chosen \<Rightarrow> Some \<lparr>mt_channel = fe_channel chosen, mt_decider = fe_decider chosen\<rparr>))"

definition isRoutable :: "matrix_target option \<Rightarrow> bool" where
  "isRoutable target =
     (case target of
        None \<Rightarrow> False
      | Some t \<Rightarrow>
          if blank (mt_channel t) then False
          else (case mt_decider t of Human i \<Rightarrow> 0 < length i | ConsensusQuorum q \<Rightarrow> 2 \<le> q))"

section \<open>The router\<close>

fun string_property :: "js_property \<Rightarrow> string option" where
  "string_property (Own (StrVal s)) = Some s"
| "string_property _ = None"

definition claimedChannelId :: "raw_decision \<Rightarrow> string option" where
  "claimedChannelId raw = (case raw of
     NonObject \<Rightarrow> None
   | ArrayVal p \<Rightarrow> string_property p
   | ObjectVal ob \<Rightarrow> string_property (ro_channel_id ob))"

definition denied_note :: "string \<Rightarrow> approval_decision" where
  "denied_note n = \<lparr>ad_outcome = DeniedNoChannel, ad_channel_id = None, ad_note = Some n\<rparr>"

text \<open>The second \<open>try\<close>: the approver's answer, normalised, and what a throw inside becomes.\<close>

definition router_answer ::
  "js_thrown + raw_decision \<Rightarrow> matrix_target \<Rightarrow> js_thrown + approval_decision" where
  "router_answer answer resolved =
     (let channel = mt_channel resolved in
      case (case answer of Inl e \<Rightarrow> Inl e | Inr raw \<Rightarrow> map_sum id (\<lambda>d. (d, claimedChannelId raw)) (normalizeDecision raw channel)) of
        Inl e \<Rightarrow> (case errNote e of Inl e' \<Rightarrow> Inl e' | Inr n \<Rightarrow> Inr (error_decision channel n))
      | Inr (decision, claimed) \<Rightarrow>
          Inr (case claimed of
                 None \<Rightarrow> decision
               | Some cl \<Rightarrow>
                   if cl \<noteq> channel then
                     (let note = ''approver claimed channelId: '' @ cl in
                      decision\<lparr>ad_note := Some (case ad_note decision of
                          None \<Rightarrow> note | Some [] \<Rightarrow> note | Some n \<Rightarrow> n @ ''; '' @ note)\<rparr>)
                   else decision))"

definition requestApprovalViaMatrix ::
  "freigabe_entry list \<Rightarrow> (string \<Rightarrow> approval_request \<Rightarrow> js_thrown + raw_decision) \<Rightarrow>
   resolve_context \<Rightarrow> approval_request \<Rightarrow> js_thrown + (approval_decision \<times> matrix_target option)" where
  "requestApprovalViaMatrix matrix ask_on ctx req =
     (if rc_tier ctx \<noteq> ar_tier req \<or> rc_server ctx \<noteq> ar_server req \<or> rc_tool ctx \<noteq> ar_tool req
      then Inr (denied_note ''matrix: ctx/req mismatch'', None)
      else
        case (if isRoutable (resolveEntry matrix ctx) then resolveEntry matrix ctx else None) of
          None \<Rightarrow> Inr (denied_note ''matrix: not routable'', None)
        | Some resolved \<Rightarrow>
            map_sum id (\<lambda>d. (d, Some resolved)) (router_answer (ask_on (mt_channel resolved) req) resolved))"

section \<open>The invariant of a parsed matrix\<close>

definition decider_ok :: "decider \<Rightarrow> bool" where
  "decider_ok d = (case d of Human i \<Rightarrow> i \<noteq> [] | ConsensusQuorum q \<Rightarrow> 2 \<le> q \<and> q < NUMBER_OVERFLOW)"

definition entry_ok :: "string list \<Rightarrow> freigabe_entry \<Rightarrow> bool" where
  "entry_ok known e \<longleftrightarrow> fe_server e \<noteq> [] \<and> fe_server e \<in> set known \<and> fe_tool e \<noteq> []
     \<and> \<not> blank (fe_channel e) \<and> decider_ok (fe_decider e)"

definition triple :: "freigabe_entry \<Rightarrow> mcp_tier \<times> string \<times> string" where
  "triple e = (fe_tier e, fe_server e, fe_tool e)"

definition matrix_ok :: "string list \<Rightarrow> freigabe_entry list \<Rightarrow> bool" where
  "matrix_ok known m \<longleftrightarrow> list_all (entry_ok known) m \<and> distinct (map triple m)"

fun tier_text :: "mcp_tier \<Rightarrow> string" where
  "tier_text Self = ''self''"
| "tier_text Gate = ''gate''"
| "tier_text Consensus = ''consensus''"

lemma tier_text_lookup: "m_get VALID_TIERS s = Some t \<Longrightarrow> s = tier_text t"
  by (auto simp: VALID_TIERS_def split: if_splits)

lemma parseDecider_ok: "parseDecider raw = Inr d \<Longrightarrow> decider_ok d"
  by (auto simp: parseDecider_def decider_ok_def Let_def split: option.splits if_splits)

definition entry_key :: "freigabe_entry \<Rightarrow> string" where
  "entry_key e = specificity_key (tier_text (fe_tier e)) (fe_server e) (fe_tool e)"

lemma parse_entry_ok:
  assumes "parse_entry known i e seen = Inr (entry, key)"
  shows "entry_ok known entry \<and> key = entry_key entry \<and> key \<notin> set seen"
  using assms
  by (auto simp: parse_entry_def Let_def entry_ok_def entry_key_def dest: tier_text_lookup parseDecider_ok
        split: if_splits option.splits sum.splits)

lemma parse_entries_ok:
  "parse_entries known i es seen = Inr m \<Longrightarrow>
   list_all (entry_ok known) m \<and> distinct (map entry_key m) \<and> set (map entry_key m) \<inter> set seen = {}"
proof (induction known i es seen arbitrary: m rule: parse_entries.induct)
  case (1 known i seen)
  then show ?case by simp
next
  case (2 known i e es seen)
  then obtain entry key entries where
    e: "parse_entry known i e seen = Inr (entry, key)" and
    es: "parse_entries known (Suc i) es (key # seen) = Inr entries" and m: "m = entry # entries"
    by (auto split: sum.splits)
  from "2.IH" [OF e refl es] parse_entry_ok [OF e] show ?case
    by (auto simp: m)
qed

lemma distinct_triple: "distinct (map entry_key m) \<Longrightarrow> distinct (map triple m)"
  by (induction m) (auto simp: triple_def entry_key_def image_iff)

lemma parseFreigabeMatrix_ok: "parseFreigabeMatrix raw known = Inr m \<Longrightarrow> matrix_ok known m"
  by (auto simp: parseFreigabeMatrix_def matrix_ok_def Let_def
        dest!: parse_entries_ok intro: distinct_triple split: option.splits if_splits)

section \<open>Resolution selects the most specific entry\<close>

definition matching :: "resolve_context \<Rightarrow> string \<Rightarrow> freigabe_entry \<Rightarrow> bool" where
  "matching ctx tool e \<longleftrightarrow> triple e = (rc_tier ctx, rc_server ctx, tool)"

lemma resolve_loop_spec:
  "distinct (map triple m) \<Longrightarrow>
   resolve_loop ctx m (x, w) =
     (coalesce (List.find (matching ctx (rc_tool ctx)) m) x,
      if rc_tool ctx = WILDCARD then w else coalesce (List.find (matching ctx WILDCARD) m) w)"
proof (induction m arbitrary: x w)
  case Nil
  then show ?case by (simp add: coalesce_def)
next
  case (Cons e m)
  have no_more: "List.find (matching ctx t) m = None" if "matching ctx t e" for t
    using Cons.prems that by (auto simp: find_None_iff matching_def image_iff)
  have "distinct (map triple m)" using Cons.prems by simp
  note IH = Cons.IH [OF this]
  have e: "matching ctx t e \<longleftrightarrow> fe_tier e = rc_tier ctx \<and> fe_server e = rc_server ctx \<and> fe_tool e = t" for t
    by (simp add: matching_def triple_def)
  show ?case
    using no_more [of "rc_tool ctx"] no_more [of WILDCARD] by (auto simp: IH e coalesce_def)
qed

definition target_of :: "freigabe_entry \<Rightarrow> matrix_target" where
  "target_of e = \<lparr>mt_channel = fe_channel e, mt_decider = fe_decider e\<rparr>"

lemma resolveEntry_find:
  assumes "matrix_ok known m"
  shows "resolveEntry m ctx =
    map_option target_of
      (coalesce (List.find (matching ctx (rc_tool ctx)) m) (List.find (matching ctx WILDCARD) m))"
  using assms
  by (auto simp: resolveEntry_def matrix_ok_def resolve_loop_spec coalesce_def target_of_def
        split: option.splits)

lemma find_matching: "List.find (matching ctx t) m = Some e \<Longrightarrow> e \<in> set m \<and> matching ctx t e"
  by (auto simp: find_Some_iff)

lemma find_matching_unique:
  "distinct (map triple m) \<Longrightarrow> e \<in> set m \<Longrightarrow> matching ctx t e \<Longrightarrow> List.find (matching ctx t) m = Some e"
  using find_key_unique [of triple m "(rc_tier ctx, rc_server ctx, t)" e]
  by (simp add: matching_def [abs_def] t_unique_def)

lemma target_routable: "entry_ok known e \<Longrightarrow> isRoutable (Some (target_of e))"
  by (auto simp: isRoutable_def target_of_def entry_ok_def decider_ok_def split: decider.splits)

section \<open>Routing over any channel-bound approver\<close>

lemma router_answer_approved:
  assumes "router_answer answer t = Inr d" and "isApproved d"
  shows "ad_channel_id d = Some (mt_channel t) \<and> (\<exists>raw. answer = Inr raw \<and> says_approved raw)"
proof (cases answer)
  case (Inl e)
  with assms show ?thesis by (auto simp: router_answer_def Let_def isApproved_def split: sum.splits)
next
  case (Inr raw)
  show ?thesis
  proof (cases "normalizeDecision raw (mt_channel t)")
    case (Inl e)
    with assms Inr show ?thesis by (auto simp: router_answer_def Let_def isApproved_def split: sum.splits)
  next
    case (Inr d')
    with assms \<open>answer = Inr raw\<close> have "ad_outcome d = ad_outcome d' \<and> ad_channel_id d = ad_channel_id d'"
      by (auto simp: router_answer_def Let_def split: option.splits if_splits list.splits)
    with Inr assms(2) \<open>answer = Inr raw\<close> show ?thesis
      using normalizeDecision_approved [of raw "mt_channel t"] normalizeDecision_channel [OF Inr]
      by (auto simp: isApproved_def)
  qed
qed

context channel_bound_approver
begin

lemma via_matrix_approved:
  assumes "requestApprovalViaMatrix m ask_on ctx req = Inr (d, tgt)" and "isApproved d"
  obtains t where "tgt = Some t" "resolveEntry m ctx = Some t" "isRoutable (Some t)"
    "(rc_tier ctx, rc_server ctx, rc_tool ctx) = (ar_tier req, ar_server req, ar_tool req)"
    "willing (mt_channel t) req" "ad_channel_id d = Some (mt_channel t)"
proof -
  have "rc_tier ctx = ar_tier req" "rc_server ctx = ar_server req" "rc_tool ctx = ar_tool req"
    "isRoutable (resolveEntry m ctx)"
    using assms
    by (auto simp: requestApprovalViaMatrix_def denied_note_def isApproved_def split: if_splits)
  moreover from this obtain t where t: "resolveEntry m ctx = Some t"
    by (cases "resolveEntry m ctx") (auto simp: isRoutable_def)
  moreover have "router_answer (ask_on (mt_channel t) req) t = Inr d" and "tgt = Some t"
    using assms(1) calculation
    by (cases "router_answer (ask_on (mt_channel t) req) t"; simp add: requestApprovalViaMatrix_def)+
  moreover from router_answer_approved [OF this(1) assms(2)]
  have "ad_channel_id d = Some (mt_channel t)" and "willing (mt_channel t) req"
    using approval_rests_on_channel by auto
  ultimately show thesis using that [of t] by simp
qed

end

section \<open>Properties\<close>

text \<open>
  The parser is fail-closed and resolution picks the most specific entry: a matrix that parses holds
  only entries with a known server, a deliverable channel and a well-formed decider, and no two for the
  same \<open>(tier, server, tool)\<close>. In such a matrix a context resolves to an entry of its tier and server:
  the one for its tool if there is one, otherwise the server-wide one, and to nothing only when neither
  exists; whatever resolves is routable.
\<close>

theorem matrix_parse_resolve:
  assumes "parseFreigabeMatrix raw known = Inr m"
  shows "matrix_ok known m
    \<and> (\<forall>e \<in> set m. matching ctx (rc_tool ctx) e \<longrightarrow> resolveEntry m ctx = Some (target_of e))
    \<and> (\<forall>e \<in> set m. matching ctx WILDCARD e \<longrightarrow> (\<forall>e' \<in> set m. \<not> matching ctx (rc_tool ctx) e') \<longrightarrow>
          resolveEntry m ctx = Some (target_of e))
    \<and> (resolveEntry m ctx = None \<longleftrightarrow>
         (\<forall>e \<in> set m. \<not> matching ctx (rc_tool ctx) e \<and> \<not> matching ctx WILDCARD e))
    \<and> (resolveEntry m ctx \<noteq> None \<longrightarrow> isRoutable (resolveEntry m ctx))"
proof -
  have ok: "matrix_ok known m" using assms by (rule parseFreigabeMatrix_ok)
  then have dist: "distinct (map triple m)" by (simp add: matrix_ok_def)
  note eq = resolveEntry_find [OF ok, of ctx]
  have exact: "resolveEntry m ctx = Some (target_of e)" if "e \<in> set m" "matching ctx (rc_tool ctx) e" for e
    using find_matching_unique [OF dist that] by (simp add: eq coalesce_def)
  have wild: "resolveEntry m ctx = Some (target_of e)"
    if "e \<in> set m" "matching ctx WILDCARD e" "\<forall>e' \<in> set m. \<not> matching ctx (rc_tool ctx) e'" for e
  proof -
    have "List.find (matching ctx (rc_tool ctx)) m = None" using that(3) by (simp add: find_None_iff)
    with find_matching_unique [OF dist that(1,2)] show ?thesis by (simp add: eq coalesce_def)
  qed
  have none: "resolveEntry m ctx = None \<longleftrightarrow>
      (\<forall>e \<in> set m. \<not> matching ctx (rc_tool ctx) e \<and> \<not> matching ctx WILDCARD e)"
  proof -
    have "resolveEntry m ctx = None \<longleftrightarrow> List.find (matching ctx (rc_tool ctx)) m = None
        \<and> List.find (matching ctx WILDCARD) m = None"
      by (auto simp: eq coalesce_def split: option.splits)
    then show ?thesis by (auto simp: find_None_iff)
  qed
  have "isRoutable (resolveEntry m ctx)" if resolved: "resolveEntry m ctx = Some t" for t
  proof -
    obtain e where "e \<in> set m" "t = target_of e"
      using resolved find_matching by (fastforce simp: eq coalesce_def split: option.splits)
    with resolved ok show ?thesis by (auto simp: matrix_ok_def list_all_iff intro: target_routable)
  qed
  with ok exact wild none show ?thesis by blast
qed

definition sample_matrix :: json where
  "sample_matrix = JObj [(''entries'', JArr
     [JObj [(''tier'', JStr ''gate''), (''server'', JStr ''unifi''), (''channel'', JStr ''cli''),
            (''decider'', JStr ''human:ops'')],
      JObj [(''tier'', JStr ''gate''), (''server'', JStr ''unifi''), (''tool'', JStr ''block_client''),
            (''channel'', JStr ''telegram''), (''decider'', JStr ''consensus:quorum=2'')]])]"

definition sample_entries :: "freigabe_entry list" where
  "sample_entries =
     [\<lparr>fe_tier = Gate, fe_server = ''unifi'', fe_tool = ''*'', fe_channel = ''cli'', fe_decider = Human ''ops''\<rparr>,
      \<lparr>fe_tier = Gate, fe_server = ''unifi'', fe_tool = ''block_client'', fe_channel = ''telegram'',
       fe_decider = ConsensusQuorum 2\<rparr>]"

lemma sample_matrix_parses: "parseFreigabeMatrix sample_matrix [''unifi''] = Inr sample_entries"
  by (simp add: parseFreigabeMatrix_def sample_matrix_def sample_entries_def parse_entry_def ENTRY_KEYS_def
      VALID_TIERS_def WILDCARD_def parseDecider_def decimal_def NUMBER_OVERFLOW_def specificity_key_def
      blank_iff js_space_def char_between_def)

theorem matrix_parse_resolve_witness:
  "resolveEntry sample_entries \<lparr>rc_tier = Gate, rc_server = ''unifi'', rc_tool = ''block_client''\<rparr>
     = Some \<lparr>mt_channel = ''telegram'', mt_decider = ConsensusQuorum 2\<rparr>
   \<and> resolveEntry sample_entries \<lparr>rc_tier = Consensus, rc_server = ''unifi'', rc_tool = ''block_client''\<rparr> = None"
  using matrix_parse_resolve [OF sample_matrix_parses, of "\<lparr>rc_tier = Gate, rc_server = ''unifi'', rc_tool = ''block_client''\<rparr>"]
    matrix_parse_resolve [OF sample_matrix_parses, of "\<lparr>rc_tier = Consensus, rc_server = ''unifi'', rc_tool = ''block_client''\<rparr>"]
  by (simp add: sample_entries_def matching_def triple_def target_of_def)

text \<open>
  C6. The router over the channel registry never turns anything into an approval that the channel the
  matrix names did not give for this very request: an approved answer implies that the context and the
  request carry the same \<open>(tier, server, tool)\<close>, that the matrix resolves it to a routable target, that
  the registry's channel of that name was reachable and approved in time, and that the decision is
  stamped with that channel. When the context does not resolve, no channel is asked.
\<close>

theorem router_only_matrix_channel:
  assumes "requestApprovalViaMatrix m (registry_ask reg) ctx req = Inr (d, tgt)"
  shows "(isApproved d \<longrightarrow>
      (\<exists>t. tgt = Some t \<and> resolveEntry m ctx = Some t \<and> isRoutable (Some t)
         \<and> (rc_tier ctx, rc_server ctx, rc_tool ctx) = (ar_tier req, ar_server req, ar_tool req)
         \<and> willing_on reg (mt_channel t) req \<and> ad_channel_id d = Some (mt_channel t)))
    \<and> (tgt = None \<longrightarrow> ad_outcome d = DeniedNoChannel
         \<and> (\<forall>ask. requestApprovalViaMatrix m ask ctx req = Inr (d, None)))"
proof (intro conjI impI)
  assume "isApproved d"
  with assms show "\<exists>t. tgt = Some t \<and> resolveEntry m ctx = Some t \<and> isRoutable (Some t)
         \<and> (rc_tier ctx, rc_server ctx, rc_tool ctx) = (ar_tier req, ar_server req, ar_tool req)
         \<and> willing_on reg (mt_channel t) req \<and> ad_channel_id d = Some (mt_channel t)"
    by (blast elim: registry_view.via_matrix_approved)
next
  assume none: "tgt = None"
  have *: "map_sum id (\<lambda>d. (d, Some t)) r \<noteq> Inr (d, None)" for t :: matrix_target and r :: "js_thrown + approval_decision"
    by (cases r) auto
  show "ad_outcome d = DeniedNoChannel"
    using assms none * by (auto simp: requestApprovalViaMatrix_def denied_note_def split: if_splits option.splits)
  show "\<forall>ask. requestApprovalViaMatrix m ask ctx req = Inr (d, None)"
    using assms none * by (auto simp: requestApprovalViaMatrix_def split: if_splits option.splits)
qed

lemma sample_via_matrix:
  "requestApprovalViaMatrix sample_entries
     (registry_ask (new_MeldekanalRegistry [sample_channel ''telegram'' (Settles 20 True) 900] None None))
     \<lparr>rc_tier = Gate, rc_server = ''unifi'', rc_tool = ''block_client''\<rparr> sample_request
   = Inr (\<lparr>ad_outcome = Approved, ad_channel_id = Some ''telegram'', ad_note = None\<rparr>,
          Some \<lparr>mt_channel = ''telegram'', mt_decider = ConsensusQuorum 2\<rparr>)"
  by (simp add: requestApprovalViaMatrix_def sample_request_def sample_entries_def resolveEntry_def
      coalesce_def WILDCARD_def isRoutable_def blank_iff js_space_def registry_ask_def requestApprovalOn_def
      sample_channel_def new_MeldekanalRegistry_def withTimeout_def timer_delay_def
      DEFAULT_HEALTH_TIMEOUT_MS_def DEFAULT_APPROVAL_TIMEOUT_MS_def ask_channel_def normalizeDecision_def
      router_answer_def decision_value_def opt_property_def claimedChannelId_def Let_def)

theorem router_only_matrix_channel_witness:
  "willing_on (new_MeldekanalRegistry [sample_channel ''telegram'' (Settles 20 True) 900] None None)
     ''telegram'' sample_request"
  using router_only_matrix_channel [OF sample_via_matrix] by (simp add: isApproved_def)

end
