(* ===== verification/Mcp_Ingress.thy ===== *)
theory Mcp_Ingress
  imports Mcp_Routing Freigabe_Matrix
begin

text \<open>
  The ingress of the MCP proxy, \<open>packages/daemon/src/mcp-ingress.ts\<close>: authorisation, routing, the
  effective execution tier and the operator gate in front of the executor.

  The injected executor is not run: \<open>Execute\<close> carries the dispatch the handler hands to it, every other
  response is \<open>Respond\<close>. \<open>Reject\<close> is a rejected promise, an exception no \<open>try\<close> of the handler catches.
  The injected approval resolver answers with a decision, with a value that is not an object (reading
  \<open>outcome\<close> of \<open>null\<close> or \<open>undefined\<close> throws, of another value gives \<open>undefined\<close>), or throws.
\<close>

section \<open>Data\<close>

datatype ingress_error =
    SenderNotAuthorized
  | MissingServerName
  | InternalRoutingError
  | McpUnavailable none_reason
  | ApprovalNotConfigured
  | CriticalDenied
  | NotApproved "approval_outcome option"
  | ResolverFailed

datatype ingress_result =
    Respond nat ingress_error
  | Execute mcp_forward_dispatch
  | Reject js_error

datatype resolver_reply =
    ReplyThrows
  | ReplyNullish
  | ReplyOther
  | Reply approval_decision

record approval_context =
  ac_server :: string
  ac_tool :: string
  ac_tier :: mcp_tier
  ac_sender_uri :: string

record mcp_ingress_input =
  mi_server :: string
  mi_sender_uri :: "string option"
  mi_capabilities :: "capability list"
  mi_payload :: json

record mcp_ingress_deps =
  md_self_agent_id :: string
  md_resolve_peer :: "string \<Rightarrow> js_error + mcp_forward_peer option"
  md_is_authorized_sender :: "string \<Rightarrow> bool"
  md_require_server_identity :: "bool option"
  md_resolve_approval :: "(approval_context \<Rightarrow> resolver_reply) option"
  md_parse_url :: "string \<Rightarrow> (string \<times> string) option"   \<comment> \<open>the host's \<open>URL\<close>\<close>

section \<open>Operations\<close>

definition enforceExecutionTier :: "mcp_tier \<Rightarrow> (nat \<times> ingress_error) option" where
  "enforceExecutionTier tier = (case tier of
     Self \<Rightarrow> None
   | Gate \<Rightarrow> Some (403, ApprovalNotConfigured)
   | Consensus \<Rightarrow> Some (403, CriticalDenied))"

definition ingress_dispatch ::
  "mcp_ingress_input \<Rightarrow> mcp_ingress_deps \<Rightarrow> js_error + mcp_forward_dispatch" where
  "ingress_dispatch input deps =
     (let resolutions = resolveMcp (mi_server input) (mi_capabilities input);
          plan = planMcpRoute (mi_server input) resolutions (md_self_agent_id deps)
      in case buildMcpForwardSpec (md_parse_url deps) plan (md_self_agent_id deps)
           (md_resolve_peer deps) (md_require_server_identity deps) of
           Inl e \<Rightarrow> Inl e
         | Inr spec \<Rightarrow> Inr (buildMcpForwardDispatch spec None None))"

text \<open>
  Step 5: the gate in front of the executor, for an effective tier. The first component is the context
  the resolver was asked with, if it was asked.
\<close>

definition gate_or_execute ::
  "mcp_ingress_input \<Rightarrow> mcp_ingress_deps \<Rightarrow> string \<Rightarrow> mcp_tier \<Rightarrow> mcp_forward_dispatch \<Rightarrow>
   approval_context option \<times> ingress_result" where
  "gate_or_execute input deps sender tier dispatch =
     (case (if tier = Gate then md_resolve_approval deps else None) of
        Some resolveApproval \<Rightarrow>
          let ctx = \<lparr>ac_server = mi_server input, ac_tool = deriveToolName (mi_payload input),
                     ac_tier = tier, ac_sender_uri = sender\<rparr>
          in (Some ctx,
              case resolveApproval ctx of
                ReplyThrows \<Rightarrow> Respond 403 ResolverFailed
              | ReplyNullish \<Rightarrow> Respond 403 ResolverFailed
              | ReplyOther \<Rightarrow> Respond 403 (NotApproved None)
              | Reply decision \<Rightarrow>
                  if \<not> isApproved decision then Respond 403 (NotApproved (Some (ad_outcome decision)))
                  else Execute dispatch)
      | None \<Rightarrow>
          (None,
           case enforceExecutionTier tier of
             Some (status, err) \<Rightarrow> Respond status err
           | None \<Rightarrow> Execute dispatch))"

definition enforce_tiers ::
  "mcp_ingress_input \<Rightarrow> mcp_ingress_deps \<Rightarrow> string \<Rightarrow> mcp_tier \<Rightarrow> mcp_forward_dispatch \<Rightarrow>
   approval_context option \<times> ingress_result" where
  "enforce_tiers input deps sender capabilityTier dispatch =
     (case deriveToolTierForServer (mi_server input) (mi_payload input) of
        Inl e \<Rightarrow> (None, Reject e)
      | Inr toolTier \<Rightarrow> gate_or_execute input deps sender (maxTier capabilityTier toolTier) dispatch)"

definition handleMcpIngress ::
  "mcp_ingress_input \<Rightarrow> mcp_ingress_deps \<Rightarrow> approval_context option \<times> ingress_result" where
  "handleMcpIngress input deps =
     (case mi_sender_uri input of
        None \<Rightarrow> (None, Respond 403 SenderNotAuthorized)
      | Some sender \<Rightarrow>
          if blank sender \<or> \<not> md_is_authorized_sender deps sender
          then (None, Respond 403 SenderNotAuthorized)
          else if blank (mi_server input) then (None, Respond 400 MissingServerName)
          else
            (case ingress_dispatch input deps of
               Inl _ \<Rightarrow> (None, Respond 500 InternalRoutingError)
             | Inr dispatch \<Rightarrow>
                 (case dispatch of
                    DispatchNone _ reason \<Rightarrow> (None, Respond 503 (McpUnavailable reason))
                  | DispatchLocal _ tier \<Rightarrow> enforce_tiers input deps sender tier dispatch
                  | DispatchRemote rq \<Rightarrow> enforce_tiers input deps sender (rq_execution_tier rq) dispatch)))"

section \<open>The specification of the gate\<close>

text \<open>The tier of the capability a dispatch goes to.\<close>

fun dispatch_tier :: "mcp_forward_dispatch \<Rightarrow> mcp_tier option" where
  "dispatch_tier (DispatchLocal _ tier) = Some tier"
| "dispatch_tier (DispatchRemote rq) = Some (rq_execution_tier rq)"
| "dispatch_tier (DispatchNone _ _) = None"

text \<open>The agent that serves a dispatch, on the node \<open>self\<close>.\<close>

fun dispatch_owner :: "string \<Rightarrow> mcp_forward_dispatch \<Rightarrow> string option" where
  "dispatch_owner self (DispatchLocal _ _) = Some self"
| "dispatch_owner self (DispatchRemote rq) = Some (rq_target_agent_id rq)"
| "dispatch_owner self (DispatchNone _ _) = None"

text \<open>\<open>operator_approved\<close>: the resolver is wired and answered this very call with an approval.\<close>

definition operator_approved :: "mcp_ingress_input \<Rightarrow> mcp_ingress_deps \<Rightarrow> bool" where
  "operator_approved input deps \<longleftrightarrow>
     (\<exists>ask sender d. md_resolve_approval deps = Some ask \<and> mi_sender_uri input = Some sender
        \<and> ask \<lparr>ac_server = mi_server input, ac_tool = deriveToolName (mi_payload input),
               ac_tier = Gate, ac_sender_uri = sender\<rparr> = Reply d \<and> isApproved d)"

definition permitted :: "mcp_ingress_input \<Rightarrow> mcp_ingress_deps \<Rightarrow> mcp_tier \<Rightarrow> bool" where
  "permitted input deps tier \<longleftrightarrow> tier = Self \<or> (tier = Gate \<and> operator_approved input deps)"

lemma gate_or_execute_iff:
  assumes "mi_sender_uri input = Some sender"
  shows "snd (gate_or_execute input deps sender tier d) = Execute d' \<longleftrightarrow> d' = d \<and> permitted input deps tier"
  using assms
  by (cases tier)
     (auto simp: gate_or_execute_def Let_def enforceExecutionTier_def permitted_def operator_approved_def
       split: option.splits resolver_reply.splits)

definition authorized :: "mcp_ingress_input \<Rightarrow> mcp_ingress_deps \<Rightarrow> bool" where
  "authorized input deps \<longleftrightarrow>
     (\<exists>sender. mi_sender_uri input = Some sender \<and> \<not> blank sender \<and> md_is_authorized_sender deps sender)"

lemma handleMcpIngress_Execute:
  "snd (handleMcpIngress input deps) = Execute d \<longleftrightarrow>
     authorized input deps \<and> \<not> blank (mi_server input) \<and> ingress_dispatch input deps = Inr d
     \<and> (\<exists>capTier toolTier. dispatch_tier d = Some capTier
          \<and> deriveToolTierForServer (mi_server input) (mi_payload input) = Inr toolTier
          \<and> permitted input deps (max capTier toolTier))"
proof (cases "mi_sender_uri input")
  case None
  then show ?thesis by (simp add: handleMcpIngress_def authorized_def)
next
  case (Some sender)
  show ?thesis
  proof (cases "ingress_dispatch input deps")
    case (Inl e)
    with Some show ?thesis by (auto simp: handleMcpIngress_def)
  next
    case (Inr d')
    with Some show ?thesis
      by (cases d'; cases "deriveToolTierForServer (mi_server input) (mi_payload input)")
         (auto simp: handleMcpIngress_def enforce_tiers_def authorized_def gate_or_execute_iff maxTier_max)
  qed
qed

lemma dispatch_tier_cap:
  assumes "ingress_dispatch input deps = Inr d" and "dispatch_tier d = Some tier"
  shows "\<exists>cap \<in> set (mi_capabilities input). provides (mi_server input) cap \<and> tier = cap_tier cap
    \<and> dispatch_owner (md_self_agent_id deps) d = Some (cap_agent_id cap)"
proof -
  let ?plan = "planMcpRoute (mi_server input) (resolveMcp (mi_server input) (mi_capabilities input))
    (md_self_agent_id deps)"
  consider (local) s where "?plan = PlanLocal s tier" "dispatch_owner (md_self_agent_id deps) d = Some (md_self_agent_id deps)"
    | (remote) s t where "?plan = PlanRemote s t" "res_execution_tier t = tier"
        "dispatch_owner (md_self_agent_id deps) d = Some (res_agent_id t)"
    using assms
    by (cases ?plan)
       (auto simp: ingress_dispatch_def buildMcpForwardSpec_def buildMcpForwardDispatch_def Let_def
         split: sum.splits if_splits option.splits)
  then show ?thesis
  proof cases
    case (local s)
    with planMcpRoute_offer [of "mi_server input" "mi_capabilities input" "md_self_agent_id deps" s tier]
    show ?thesis by (metis (no_types))
  next
    case (remote s t)
    with planMcpRoute_offer [of "mi_server input" "mi_capabilities input" "md_self_agent_id deps" s tier t]
    show ?thesis by (metis (no_types))
  qed
qed

lemma executed_write_approved:
  assumes "snd (handleMcpIngress input deps) = Execute d"
    and server: "canonicalizeServerName (mi_server input) = ''unifi''"
    and call: "is_tools_call (mi_payload input)"
    and listed: "deriveToolName (mi_payload input) \<notin> set UNIFI_READ_ONLY"
  shows "operator_approved input deps \<and> verb_of (deriveToolName (mi_payload input)) \<notin> set DESTRUCTIVE_VERBS"
proof -
  from assms(1) obtain capTier toolTier where
    tool: "deriveToolTierForServer (mi_server input) (mi_payload input) = Inr toolTier" and
    ok: "permitted input deps (max capTier toolTier)"
    by (auto simp: handleMcpIngress_Execute)
  have eq: "toolTier = max Gate (deriveToolTier (call_payload (deriveToolName (mi_payload input))))"
    using tool deriveToolTierForServer_governed [OF server call] listed by simp
  then have "Gate \<le> max capTier toolTier" by (simp add: le_max_iff_disj)
  then have "max capTier toolTier \<noteq> Self" by (auto simp: less_eq_mcp_tier_def)
  moreover have "max capTier toolTier \<noteq> Consensus" using ok by (auto simp: permitted_def)
  moreover from this have "toolTier \<noteq> Consensus" by auto
  ultimately show ?thesis
    using ok eq destructive_call by (auto simp: permitted_def max_def)
qed

section \<open>Properties\<close>

text \<open>
  C1. The security contract of the ingress. A call reaches the executor exactly when the sender is
  authenticated and authorised, the server is named, the call can be routed, and the effective tier,
  the maximum of the tier of the offering capability and of the tool, is \<open>self\<close>, or is \<open>gate\<close> and the
  operator approved this server, tool and sender. Every other call the handler answers itself, with one
  of the statuses 400, 403, 500 and 503, or its promise is rejected.
\<close>

theorem ingress_executes_iff:
  "(snd (handleMcpIngress input deps) = Execute d \<longleftrightarrow>
     authorized input deps \<and> \<not> blank (mi_server input) \<and> ingress_dispatch input deps = Inr d
     \<and> (\<exists>capTier toolTier. dispatch_tier d = Some capTier
          \<and> deriveToolTierForServer (mi_server input) (mi_payload input) = Inr toolTier
          \<and> (max capTier toolTier = Self
              \<or> (max capTier toolTier = Gate \<and> operator_approved input deps))))
   \<and> (case snd (handleMcpIngress input deps) of
        Respond status err \<Rightarrow> status \<in> {400, 403, 500, 503}
      | Execute _ \<Rightarrow> True
      | Reject e \<Rightarrow> deriveToolTierForServer (mi_server input) (mi_payload input) = Inl e)"
proof (rule conjI)
  show "case snd (handleMcpIngress input deps) of
        Respond status err \<Rightarrow> status \<in> {400, 403, 500, 503}
      | Execute _ \<Rightarrow> True
      | Reject e \<Rightarrow> deriveToolTierForServer (mi_server input) (mi_payload input) = Inl e"
    by (auto simp: handleMcpIngress_def enforce_tiers_def gate_or_execute_def Let_def enforceExecutionTier_def
          split: option.splits sum.splits mcp_forward_dispatch.splits resolver_reply.splits mcp_tier.splits)
qed (simp add: handleMcpIngress_Execute permitted_def)

text \<open>
  C2. No write without an operator: when a \<open>tools/call\<close> on the governed server is executed for a tool
  that is not on the read-only allowlist, its verb is not destructive and the resolver approved exactly
  this call; and no call at all is executed through an offer whose permissions are critical
  (\<open>consensus\<close>), whatever the resolver says: a dispatch that is executed carries the tier of an offer of the very
  agent it goes to, and that tier is not \<open>consensus\<close>; if every offer of that agent for the server is
  critical, nothing is executed there.
\<close>

theorem no_unapproved_write:
  assumes "snd (handleMcpIngress input deps) = Execute d"
  shows "(canonicalizeServerName (mi_server input) = ''unifi'' \<longrightarrow> is_tools_call (mi_payload input) \<longrightarrow>
          deriveToolName (mi_payload input) \<notin> set UNIFI_READ_ONLY \<longrightarrow>
          operator_approved input deps
          \<and> verb_of (deriveToolName (mi_payload input)) \<notin> set DESTRUCTIVE_VERBS)
    \<and> (\<exists>cap \<in> set (mi_capabilities input). provides (mi_server input) cap
         \<and> dispatch_owner (md_self_agent_id deps) d = Some (cap_agent_id cap)
         \<and> dispatch_tier d = Some (cap_tier cap) \<and> cap_tier cap \<noteq> Consensus)"
proof -
  from assms obtain capTier toolTier where
    route: "ingress_dispatch input deps = Inr d" "dispatch_tier d = Some capTier" and
    ok: "permitted input deps (max capTier toolTier)"
    by (auto simp: handleMcpIngress_Execute)
  have "capTier \<noteq> Consensus" using ok by (auto simp: permitted_def)
  with dispatch_tier_cap [OF route] route(2) executed_write_approved [OF assms] show ?thesis by auto
qed

definition sample_input :: "string \<Rightarrow> mcp_ingress_input" where
  "sample_input tool = \<lparr>mi_server = ''unifi'', mi_sender_uri = Some ''spiffe://thinklocal/node/x'',
     mi_capabilities = [sample_cap ''b'' Healthy], mi_payload = call_payload tool\<rparr>"

definition sample_deps :: mcp_ingress_deps where
  "sample_deps = \<lparr>md_self_agent_id = ''me'', md_resolve_peer = sample_peer,
     md_is_authorized_sender = (\<lambda>_. True), md_require_server_identity = Some True,
     md_resolve_approval = Some (\<lambda>ctx. if ac_tool ctx = ''block_client''
       then Reply \<lparr>ad_outcome = Approved, ad_channel_id = None, ad_note = None\<rparr> else ReplyThrows),
     md_parse_url = sample_url\<rparr>"

lemma sample_executes: "\<exists>d. snd (handleMcpIngress (sample_input ''block_client'') sample_deps) = Execute d"
proof -
  have "(case snd (handleMcpIngress (sample_input ''block_client'') sample_deps) of Execute _ \<Rightarrow> True | _ \<Rightarrow> False)"
    by code_simp
  then show ?thesis by (auto split: ingress_result.splits)
qed

theorem no_unapproved_write_witness:
  "operator_approved (sample_input ''block_client'') sample_deps"
proof -
  obtain d where d: "snd (handleMcpIngress (sample_input ''block_client'') sample_deps) = Execute d"
    using sample_executes by blast
  have "canonicalizeServerName ''unifi'' = ''unifi''" "js_trim ''block_client'' \<notin> set UNIFI_READ_ONLY"
    by code_simp+
  with no_unapproved_write [OF d] show ?thesis by (simp add: sample_input_def)
qed

end
