(* ===== verification/Identity.thy ===== *)
theory Identity
  imports Prelude
begin

text \<open>
  Node and agent identities: the SPIFFE URI grammar of \<open>spiffe-uri.ts\<close> and the PeerID-rooted node
  identity of \<open>peer-identity.ts\<close> (canonical URIs, certificate SANs, attestation, sender authorisation).

  The messages of a \<open>SpiffeUriError\<close> become constructors. \<open>toUpperCase\<close> is modelled on code units below
  256 whose upper case is again below 256.
\<close>

section \<open>SPIFFE URIs\<close>

datatype spiffe_error =
    EmptyUri
  | BadPrefix
  | NodeTokens nat
  | EmptyPeerId
  | InvalidPeerId
  | TokenCount nat
  | NotHostAgent
  | EmptyComponent
  | InvalidNodeId
  | InvalidAgentType
  | NotInstance
  | EmptyInstance
  | InvalidInstance

datatype parsed_uri =
    ParsedNode (node_peer_id: string) (uri_raw: string)
  | ParsedHost (stable_node_id: string) (agent_type: string) (instance_id: "string option") (uri_raw: string)

definition SPIFFE_PREFIX :: string where "SPIFFE_PREFIX = ''spiffe://thinklocal''"

text \<open>\<open>/^[1-9A-HJ-NP-Za-km-z]{32,128}$/\<close> and \<open>/^[A-Za-z0-9._-]+$/\<close>.\<close>

definition base58_char :: "char \<Rightarrow> bool" where
  "base58_char c \<longleftrightarrow> char_between 49 57 c \<or> char_between 65 72 c \<or> char_between 74 78 c
     \<or> char_between 80 90 c \<or> char_between 97 107 c \<or> char_between 109 122 c"

definition PEERID_REGEX :: "string \<Rightarrow> bool" where
  "PEERID_REGEX s \<longleftrightarrow> 32 \<le> length s \<and> length s \<le> 128 \<and> list_all base58_char s"

definition component_char :: "char \<Rightarrow> bool" where
  "component_char c \<longleftrightarrow> is_upper c \<or> is_lower c \<or> is_digit c \<or> c \<in> set ''._-''"

definition SPIFFE_COMPONENT_REGEX :: "string \<Rightarrow> bool" where
  "SPIFFE_COMPONENT_REGEX s \<longleftrightarrow> s \<noteq> [] \<and> list_all component_char s"

definition parse_parts :: "string list \<Rightarrow> string \<Rightarrow> spiffe_error + parsed_uri" where
  "parse_parts parts uri =
     (if parts ! 0 = ''node'' then
        if length parts \<noteq> 2 then Inl (NodeTokens (length parts))
        else let nodePeerId = parts ! 1 in
          if nodePeerId = [] then Inl EmptyPeerId
          else if \<not> PEERID_REGEX nodePeerId then Inl InvalidPeerId
          else Inr (ParsedNode nodePeerId uri)
      else if length parts \<noteq> 4 \<and> length parts \<noteq> 6 then Inl (TokenCount (length parts))
      else if parts ! 0 \<noteq> ''host'' \<or> parts ! 2 \<noteq> ''agent'' then Inl NotHostAgent
      else let stableNodeId = parts ! 1; agentType = parts ! 3 in
        if stableNodeId = [] \<or> agentType = [] then Inl EmptyComponent
        else if \<not> SPIFFE_COMPONENT_REGEX stableNodeId then Inl InvalidNodeId
        else if \<not> SPIFFE_COMPONENT_REGEX agentType then Inl InvalidAgentType
        else if length parts = 6 then
          if parts ! 4 \<noteq> ''instance'' then Inl NotInstance
          else let instanceId = parts ! 5 in
            if instanceId = [] then Inl EmptyInstance
            else if \<not> SPIFFE_COMPONENT_REGEX instanceId then Inl InvalidInstance
            else Inr (ParsedHost stableNodeId agentType (Some instanceId) uri)
        else Inr (ParsedHost stableNodeId agentType None uri))"

definition parseSpiffeUri :: "string \<Rightarrow> spiffe_error + parsed_uri" where
  "parseSpiffeUri uri =
     (if uri = [] then Inl EmptyUri
      else case after_prefix (SPIFFE_PREFIX @ ''/'') uri of
        None \<Rightarrow> Inl BadPrefix
      | Some rest \<Rightarrow> parse_parts (js_split CHR ''/'' rest) uri)"

definition normalizeAgentId :: "string \<Rightarrow> spiffe_error + string" where
  "normalizeAgentId uri =
     (case parseSpiffeUri uri of
        Inl e \<Rightarrow> Inl e
      | Inr (ParsedNode p _) \<Rightarrow> Inr (SPIFFE_PREFIX @ ''/node/'' @ p)
      | Inr (ParsedHost n t _ _) \<Rightarrow> Inr (SPIFFE_PREFIX @ ''/host/'' @ n @ ''/agent/'' @ t))"

definition getAgentInstance :: "string \<Rightarrow> spiffe_error + string option" where
  "getAgentInstance uri =
     (case parseSpiffeUri uri of
        Inl e \<Rightarrow> Inl e
      | Inr (ParsedNode _ _) \<Rightarrow> Inr None
      | Inr (ParsedHost _ _ i _) \<Rightarrow> Inr i)"

definition buildInstanceUri :: "string \<Rightarrow> string \<Rightarrow> string \<Rightarrow> spiffe_error + string" where
  "buildInstanceUri stableNodeId agentType instanceId =
     (if stableNodeId = [] \<or> agentType = [] \<or> instanceId = [] then Inl EmptyComponent
      else if \<not> SPIFFE_COMPONENT_REGEX stableNodeId then Inl InvalidNodeId
      else if \<not> SPIFFE_COMPONENT_REGEX agentType then Inl InvalidAgentType
      else if \<not> SPIFFE_COMPONENT_REGEX instanceId then Inl InvalidInstance
      else Inr (SPIFFE_PREFIX @ ''/host/'' @ stableNodeId @ ''/agent/'' @ agentType @ ''/instance/'' @ instanceId))"

definition hasInstance :: "string \<Rightarrow> bool" where
  "hasInstance uri = (case getAgentInstance uri of Inl _ \<Rightarrow> False | Inr i \<Rightarrow> i \<noteq> None)"

section \<open>The PeerID-rooted node identity\<close>

definition TRUST_DOMAIN :: string where "TRUST_DOMAIN = ''thinklocal''"

definition peerIdToSpiffeUri :: "string \<Rightarrow> string" where
  "peerIdToSpiffeUri peerId = ''spiffe://'' @ TRUST_DOMAIN @ ''/node/'' @ peerId"

definition alnum :: "char \<Rightarrow> bool" where
  "alnum c \<longleftrightarrow> is_upper c \<or> is_lower c \<or> is_digit c"

text \<open>\<open>/^spiffe:\/\/thinklocal\/node\/([A-Za-z0-9]+)$/\<close>.\<close>

definition NODE_URI_PREFIX :: string where "NODE_URI_PREFIX = ''spiffe://thinklocal/node/''"

definition spiffeUriToPeerId :: "string \<Rightarrow> string option" where
  "spiffeUriToPeerId uri =
     (case after_prefix NODE_URI_PREFIX uri of
        None \<Rightarrow> None
      | Some p \<Rightarrow> if p \<noteq> [] \<and> list_all alnum p then Some p else None)"

definition isCanonicalNodeUri :: "string \<Rightarrow> bool" where
  "isCanonicalNodeUri uri \<longleftrightarrow> spiffeUriToPeerId uri \<noteq> None"

record self_identity_input =
  si_emit_canonical_flag :: bool
  si_legacy_uri :: string
  si_peer_id :: "string option"
  si_cert_sans :: "string list"
  si_cert_issuer_is_attesting :: bool

datatype blocked_reason = Libp2pDisabledNoPeerId | CertSanNotCanonical | CertIssuerNotAttesting

record self_identity_decision =
  sd_self_identity_uri :: string
  sd_emit_canonical :: bool
  sd_canonical_self_uri :: "string option"
  sd_cert_san_is_canonical :: bool
  sd_blocked_reason :: "blocked_reason option"

text \<open>A \<open>null\<close> or empty PeerID is falsy; both are the absent PeerID.\<close>

definition truthy :: "string option \<Rightarrow> string option" where
  "truthy s = (case s of None \<Rightarrow> None | Some [] \<Rightarrow> None | Some t \<Rightarrow> Some t)"

definition resolveSelfIdentity :: "self_identity_input \<Rightarrow> self_identity_decision" where
  "resolveSelfIdentity input =
     (let canonicalSelfUri = map_option peerIdToSpiffeUri (truthy (si_peer_id input));
          certSanIsCanonical = (case canonicalSelfUri of None \<Rightarrow> False | Some u \<Rightarrow> u \<in> set (si_cert_sans input));
          emitCanonical = (si_emit_canonical_flag input \<and> certSanIsCanonical
            \<and> si_cert_issuer_is_attesting input);
          blockedReason =
            (if si_emit_canonical_flag input \<and> \<not> emitCanonical then
               (if canonicalSelfUri = None then Some Libp2pDisabledNoPeerId
                else if \<not> certSanIsCanonical then Some CertSanNotCanonical
                else Some CertIssuerNotAttesting)
             else None)
      in \<lparr>sd_self_identity_uri = (if emitCanonical then the canonicalSelfUri else si_legacy_uri input),
          sd_emit_canonical = emitCanonical, sd_canonical_self_uri = canonicalSelfUri,
          sd_cert_san_is_canonical = certSanIsCanonical, sd_blocked_reason = blockedReason\<rparr>)"

datatype divergence = PeerIdMissing | AuthzDiverges string string | SanDiverges string string | SanUnreadable

record identity_triple =
  it_authz_spiffe :: string
  it_cert_san :: "string option"
  it_peer_id :: "string option"

record identity_consistency =
  ic_consistent :: bool
  ic_expected :: "string option"
  ic_divergences :: "divergence list"

definition checkIdentityConsistency :: "identity_triple \<Rightarrow> identity_consistency" where
  "checkIdentityConsistency t =
     (case truthy (it_peer_id t) of
        None \<Rightarrow> \<lparr>ic_consistent = False, ic_expected = None, ic_divergences = [PeerIdMissing]\<rparr>
      | Some peerId \<Rightarrow>
          let expected = peerIdToSpiffeUri peerId;
              divergences =
                (if it_authz_spiffe t \<noteq> expected then [AuthzDiverges (it_authz_spiffe t) expected] else [])
                @ (case it_cert_san t of
                     Some san \<Rightarrow> if san \<noteq> expected then [SanDiverges san expected] else []
                   | None \<Rightarrow> [])
                @ (if it_cert_san t = None then [SanUnreadable] else [])
          in \<lparr>ic_consistent = (length divergences = 0), ic_expected = Some expected,
              ic_divergences = divergences\<rparr>)"

section \<open>Certificate SANs\<close>

definition san_uri :: "string \<Rightarrow> string option" where
  "san_uri part = (let t = js_trim part in
     if prefix ''URI:spiffe://'' t then Some (drop 4 t) else None)"

definition spiffeFromSubjectAltName :: "string option \<Rightarrow> string option" where
  "spiffeFromSubjectAltName subjectAltName =
     (case truthy subjectAltName of
        None \<Rightarrow> None
      | Some s \<Rightarrow> (case List.map_filter san_uri (js_split CHR '','' s) of [] \<Rightarrow> None | u # _ \<Rightarrow> Some u))"

definition spiffeUrisFromSubjectAltName :: "string option \<Rightarrow> string list" where
  "spiffeUrisFromSubjectAltName subjectAltName =
     (case truthy subjectAltName of
        None \<Rightarrow> []
      | Some s \<Rightarrow> List.map_filter san_uri (js_split CHR '','' s))"

definition peerIdFromCertSan :: "string option \<Rightarrow> string option" where
  "peerIdFromCertSan certSan = (case truthy certSan of None \<Rightarrow> None | Some s \<Rightarrow> spiffeUriToPeerId s)"

definition js_upper_char :: "char \<Rightarrow> string" where
  "js_upper_char c = (let n = of_char c :: nat in
     if n = 223 then ''SS''
     else if 97 \<le> n \<and> n \<le> 122 \<or> 224 \<le> n \<and> n \<le> 254 \<and> n \<noteq> 247 then [char_of (n - 32)]
     else [c])"

definition normalizeFingerprint :: "string \<Rightarrow> string" where
  "normalizeFingerprint fp = concat (map js_upper_char (filter (\<lambda>c. c \<noteq> CHR '':'') fp))"

definition isAttestingIssuer :: "string option \<Rightarrow> string list \<Rightarrow> bool" where
  "isAttestingIssuer issuerFingerprint attestingFingerprints =
     (case truthy issuerFingerprint of
        None \<Rightarrow> False
      | Some fp \<Rightarrow>
          if length attestingFingerprints = 0 then False
          else let want = normalizeFingerprint fp in
            list_ex (\<lambda>f. normalizeFingerprint f = want) attestingFingerprints)"

definition attestedPeerIdFromCert :: "string list \<Rightarrow> string option \<Rightarrow> string list \<Rightarrow> string option" where
  "attestedPeerIdFromCert certSans issuerFingerprint attestingFingerprints =
     (case List.find (\<lambda>u. peerIdFromCertSan (Some u) \<noteq> None) certSans of
        None \<Rightarrow> None
      | Some canonical \<Rightarrow>
          if \<not> isAttestingIssuer issuerFingerprint attestingFingerprints then None
          else peerIdFromCertSan (Some canonical))"

section \<open>Authorisation of an HTTPS sender\<close>

text \<open>\<open>/^spiffe:\/\/thinklocal\/host\/[A-Za-z0-9._-]+\/agent\/[A-Za-z0-9._-]+$/\<close>, by its path segments.\<close>

definition isLegacyHostUri :: "string \<Rightarrow> bool" where
  "isLegacyHostUri uri =
     (case after_prefix ''spiffe://thinklocal/'' uri of
        None \<Rightarrow> False
      | Some rest \<Rightarrow>
          (case js_split CHR ''/'' rest of
             [h, n, a, t] \<Rightarrow> h = ''host'' \<and> SPIFFE_COMPONENT_REGEX n \<and> a = ''agent'' \<and> SPIFFE_COMPONENT_REGEX t
           | _ \<Rightarrow> False))"

datatype https_sender_authz =
    AuthzVerified string
  | AuthzLegacy
  | AuthzUnsupportedUri
  | AuthzNoCertSan
  | AuthzMismatch string string

fun authz_ok :: "https_sender_authz \<Rightarrow> bool" where
  "authz_ok (AuthzVerified _) = True"
| "authz_ok AuthzLegacy = True"
| "authz_ok _ = False"

definition authorizeHttpsSender :: "string \<Rightarrow> string option \<Rightarrow> https_sender_authz" where
  "authorizeHttpsSender senderUri certSpiffe =
     (case spiffeUriToPeerId senderUri of
        None \<Rightarrow> if isLegacyHostUri senderUri then AuthzLegacy else AuthzUnsupportedUri
      | Some wantPeerId \<Rightarrow>
          (case (case truthy certSpiffe of None \<Rightarrow> None | Some c \<Rightarrow> spiffeUriToPeerId c) of
             None \<Rightarrow> AuthzNoCertSan
           | Some certPeerId \<Rightarrow>
               if certPeerId = wantPeerId then AuthzVerified wantPeerId
               else AuthzMismatch certPeerId wantPeerId))"

section \<open>Printing and parsing\<close>

fun uri_of :: "parsed_uri \<Rightarrow> string" where
  "uri_of (ParsedNode p _) = SPIFFE_PREFIX @ ''/node/'' @ p"
| "uri_of (ParsedHost n t None _) = SPIFFE_PREFIX @ ''/host/'' @ n @ ''/agent/'' @ t"
| "uri_of (ParsedHost n t (Some i) _) = SPIFFE_PREFIX @ ''/host/'' @ n @ ''/agent/'' @ t @ ''/instance/'' @ i"

text \<open>The well-formed identities.\<close>

fun wf_uri :: "parsed_uri \<Rightarrow> bool" where
  "wf_uri (ParsedNode p _) \<longleftrightarrow> PEERID_REGEX p"
| "wf_uri (ParsedHost n t i _) \<longleftrightarrow> SPIFFE_COMPONENT_REGEX n \<and> SPIFFE_COMPONENT_REGEX t
     \<and> (case i of None \<Rightarrow> True | Some x \<Rightarrow> SPIFFE_COMPONENT_REGEX x)"

lemma no_slash_component: "SPIFFE_COMPONENT_REGEX s \<Longrightarrow> CHR ''/'' \<notin> set s"
  by (auto simp: SPIFFE_COMPONENT_REGEX_def list_all_iff component_char_def char_between_def)

lemma no_slash_peerid: "PEERID_REGEX s \<Longrightarrow> CHR ''/'' \<notin> set s"
  by (auto simp: PEERID_REGEX_def list_all_iff base58_char_def char_between_def)

lemma component_nonempty [simp]: "\<not> SPIFFE_COMPONENT_REGEX []"
  by (simp add: SPIFFE_COMPONENT_REGEX_def)

lemma peerid_nonempty [simp]: "\<not> PEERID_REGEX []"
  by (simp add: PEERID_REGEX_def)

lemma split_node: "PEERID_REGEX p \<Longrightarrow> js_split CHR ''/'' (''node/'' @ p) = [''node'', p]"
  by (simp add: js_split_single [OF no_slash_peerid])

lemma split_host:
  "SPIFFE_COMPONENT_REGEX n \<Longrightarrow> SPIFFE_COMPONENT_REGEX t \<Longrightarrow>
   js_split CHR ''/'' (''host/'' @ n @ ''/agent/'' @ t) = [''host'', n, ''agent'', t]"
  using js_split_append [OF no_slash_component, of n "''agent/'' @ t"]
  by (simp add: js_split_single [OF no_slash_component])

lemma split_instance:
  assumes "SPIFFE_COMPONENT_REGEX n" "SPIFFE_COMPONENT_REGEX t" "SPIFFE_COMPONENT_REGEX i"
  shows "js_split CHR ''/'' (''host/'' @ n @ ''/agent/'' @ t @ ''/instance/'' @ i)
    = [''host'', n, ''agent'', t, ''instance'', i]"
  using js_split_append [OF no_slash_component, of n "''agent/'' @ t @ ''/instance/'' @ i"]
    js_split_append [OF no_slash_component, of t "''instance/'' @ i"] assms
  by (simp add: js_split_single [OF no_slash_component])

lemma parseSpiffeUri_slash:
  "parseSpiffeUri (SPIFFE_PREFIX @ CHR ''/'' # rest) =
     parse_parts (js_split CHR ''/'' rest) (SPIFFE_PREFIX @ CHR ''/'' # rest)"
  using after_prefix_append [of "SPIFFE_PREFIX @ ''/''" rest] by (simp add: parseSpiffeUri_def)

lemma parse_print: "wf_uri p \<Longrightarrow> uri_raw p = uri_of p \<Longrightarrow> parseSpiffeUri (uri_of p) = Inr p"
proof (cases p rule: uri_of.cases)
  case (1 q r)
  assume "wf_uri p" "uri_raw p = uri_of p"
  with 1 show ?thesis
    using parseSpiffeUri_slash [of "''node/'' @ q"] split_node [of q]
    by (auto simp: parse_parts_def)
next
  case (2 n t r)
  assume "wf_uri p" "uri_raw p = uri_of p"
  with 2 show ?thesis
    using parseSpiffeUri_slash [of "''host/'' @ n @ ''/agent/'' @ t"] split_host [of n t]
    by (auto simp: parse_parts_def)
next
  case (3 n t i r)
  assume "wf_uri p" "uri_raw p = uri_of p"
  with 3 show ?thesis
    using parseSpiffeUri_slash [of "''host/'' @ n @ ''/agent/'' @ t @ ''/instance/'' @ i"]
      split_instance [of n t i]
    by (auto simp: parse_parts_def)
qed

lemma parse_parts_inv:
  assumes "parse_parts parts uri = Inr p" and "parts \<noteq> []"
  shows "uri_raw p = uri \<and> wf_uri p \<and> uri_of p = SPIFFE_PREFIX @ ''/'' @ js_join ''/'' parts"
proof -
  have len: "length parts \<in> {2, 4, 6}"
    using assms by (auto simp: parse_parts_def Let_def split: if_splits)
  then consider (two) a b where "parts = [a, b]" | (four) a b c d where "parts = [a, b, c, d]"
    | (six) a b c d e f where "parts = [a, b, c, d, e, f]"
    by (auto simp: numeral_eq_Suc length_Suc_conv)
  then show ?thesis
    by cases (use assms(1) in \<open>auto simp: parse_parts_def Let_def split: if_splits\<close>)
qed

lemma print_parse:
  assumes "parseSpiffeUri u = Inr p"
  shows "wf_uri p \<and> uri_raw p = u \<and> uri_of p = u"
proof -
  obtain rest where u: "u = SPIFFE_PREFIX @ ''/'' @ rest" and p: "parse_parts (js_split CHR ''/'' rest) u = Inr p"
    using assms by (auto simp: parseSpiffeUri_def after_prefix_Some split: if_splits option.splits)
  from parse_parts_inv [OF p js_split_not_Nil] u show ?thesis by (simp add: js_join_split)
qed

lemma peerIdToSpiffeUri_eq: "peerIdToSpiffeUri p = NODE_URI_PREFIX @ p"
  by (simp add: peerIdToSpiffeUri_def TRUST_DOMAIN_def NODE_URI_PREFIX_def)

lemma peerIdToSpiffeUri_inj [simp]: "peerIdToSpiffeUri p = peerIdToSpiffeUri q \<longleftrightarrow> p = q"
  by (simp add: peerIdToSpiffeUri_eq)

lemma spiffeUriToPeerId_Some:
  "spiffeUriToPeerId u = Some p \<longleftrightarrow> u = peerIdToSpiffeUri p \<and> p \<noteq> [] \<and> list_all alnum p"
  by (auto simp: spiffeUriToPeerId_def peerIdToSpiffeUri_eq after_prefix_Some split: option.splits)

lemma base58_alnum: "base58_char c \<Longrightarrow> alnum c"
  by (auto simp: base58_char_def alnum_def char_between_def)

text \<open>The strict grammar of \<open>parseSpiffeUri\<close> is contained in the one of \<open>spiffeUriToPeerId\<close>.\<close>

lemma parsed_node_canonical:
  "parseSpiffeUri u = Inr (ParsedNode p r) \<Longrightarrow> spiffeUriToPeerId u = Some p"
  by (drule print_parse)
     (auto simp: spiffeUriToPeerId_Some peerIdToSpiffeUri_eq NODE_URI_PREFIX_def SPIFFE_PREFIX_def PEERID_REGEX_def list_all_iff
       intro: base58_alnum)

lemma truthy_Some [simp]: "truthy (Some s) = (if s = [] then None else Some s)"
  by (simp add: truthy_def split: list.splits)

lemma truthy_eq_Some: "truthy v = Some s \<longleftrightarrow> v = Some s \<and> s \<noteq> []"
  by (cases v) (auto simp: truthy_def split: list.splits)

lemma peerIdFromCertSan_Some: "peerIdFromCertSan (Some u) = spiffeUriToPeerId u"
  by (simp add: peerIdFromCertSan_def) (simp add: spiffeUriToPeerId_def after_prefix_def NODE_URI_PREFIX_def)

lemma isAttestingIssuer_iff:
  "isAttestingIssuer fp pins \<longleftrightarrow>
     (\<exists>f pin. fp = Some f \<and> f \<noteq> [] \<and> pin \<in> set pins \<and> normalizeFingerprint pin = normalizeFingerprint f)"
  by (auto simp: isAttestingIssuer_def Let_def list_ex_iff truthy_eq_Some split: option.splits)

section \<open>Properties\<close>

text \<open>
  SPIFFE URIs round-trip. Parsing accepts exactly the printed forms of well-formed identities, so a
  parsed identity prints back to the URI it came from and two URIs with the same components are equal;
  and a built instance URI parses to exactly the parts it was built from.
\<close>

theorem spiffe_round_trip:
  "(parseSpiffeUri u = Inr p \<longleftrightarrow> wf_uri p \<and> uri_raw p = u \<and> uri_of p = u)
   \<and> (case buildInstanceUri n t i of
        Inl _ \<Rightarrow> \<not> (SPIFFE_COMPONENT_REGEX n \<and> SPIFFE_COMPONENT_REGEX t \<and> SPIFFE_COMPONENT_REGEX i)
      | Inr b \<Rightarrow> parseSpiffeUri b = Inr (ParsedHost n t (Some i) b))"
proof (rule conjI)
  show "parseSpiffeUri u = Inr p \<longleftrightarrow> wf_uri p \<and> uri_raw p = u \<and> uri_of p = u"
    using parse_print [of p] print_parse by metis
  show "case buildInstanceUri n t i of
        Inl _ \<Rightarrow> \<not> (SPIFFE_COMPONENT_REGEX n \<and> SPIFFE_COMPONENT_REGEX t \<and> SPIFFE_COMPONENT_REGEX i)
      | Inr b \<Rightarrow> parseSpiffeUri b = Inr (ParsedHost n t (Some i) b)"
    using parse_print [of "ParsedHost n t (Some i) (uri_of (ParsedHost n t (Some i) []))"]
    by (auto simp: buildInstanceUri_def)
qed

text \<open>
  The daemon-level identity: normalising strips exactly the instance. It is defined for the URIs that
  parse, idempotent, its result has no instance, and instances of one agent are the only URIs it
  identifies.
\<close>

theorem normalize_agent_id:
  assumes "normalizeAgentId u = Inr v"
  shows "normalizeAgentId v = Inr v \<and> getAgentInstance v = Inr None \<and> \<not> hasInstance v
    \<and> (case getAgentInstance u of
         Inl _ \<Rightarrow> False | Inr None \<Rightarrow> u = v | Inr (Some i) \<Rightarrow> u = v @ ''/instance/'' @ i)"
proof -
  obtain p where p: "parseSpiffeUri u = Inr p"
    using assms by (cases "parseSpiffeUri u") (auto simp: normalizeAgentId_def)
  note wf = print_parse [OF p]
  show ?thesis
  proof (cases p)
    case (ParsedNode q r)
    with assms p have v: "v = uri_of (ParsedNode q r)" by (simp add: normalizeAgentId_def)
    with wf ParsedNode have "v = u" by simp
    with p ParsedNode assms show ?thesis by (simp add: getAgentInstance_def hasInstance_def)
  next
    case (ParsedHost n t i r)
    with assms p have v: "v = uri_of (ParsedHost n t None v)" by (simp add: normalizeAgentId_def)
    have "parseSpiffeUri v = Inr (ParsedHost n t None v)"
      using parse_print [of "ParsedHost n t None v"] wf ParsedHost v by simp
    then show ?thesis
      using p wf ParsedHost v
      by (auto simp: getAgentInstance_def hasInstance_def normalizeAgentId_def split: option.splits)
  qed
qed

theorem normalize_agent_id_witness:
  "normalizeAgentId ''spiffe://thinklocal/host/ab12/agent/codex'' = Inr ''spiffe://thinklocal/host/ab12/agent/codex''"
proof -
  have "normalizeAgentId ''spiffe://thinklocal/host/ab12/agent/codex/instance/i-1''
      = Inr ''spiffe://thinklocal/host/ab12/agent/codex''"
    by code_simp
  from normalize_agent_id [OF this] show ?thesis by simp
qed

text \<open>
  C7. Sender authorisation is bound to the certificate: a sender is accepted as verified exactly when its
  URI is canonical and is the SAN presented on the connection, and then the verified PeerID is the one of
  the sender; without that only a legacy host URI passes, unverified. An attested PeerID is one that some
  SAN of the certificate names, and only when a pinned CA issued the certificate.
\<close>

theorem sender_bound_to_certificate:
  "(authorizeHttpsSender sender san = AuthzVerified p \<longleftrightarrow>
      san = Some sender \<and> spiffeUriToPeerId sender = Some p)
   \<and> (authz_ok (authorizeHttpsSender sender san) \<longleftrightarrow>
        (san = Some sender \<and> isCanonicalNodeUri sender)
        \<or> (\<not> isCanonicalNodeUri sender \<and> isLegacyHostUri sender))
   \<and> (attestedPeerIdFromCert sans fp pins = Some p \<longleftrightarrow>
        (\<exists>f pin. fp = Some f \<and> f \<noteq> [] \<and> pin \<in> set pins \<and> normalizeFingerprint pin = normalizeFingerprint f)
        \<and> (\<exists>u. List.find isCanonicalNodeUri sans = Some u \<and> u = peerIdToSpiffeUri p))"
proof (intro conjI)
  have cert: "(case truthy san of None \<Rightarrow> None | Some c \<Rightarrow> spiffeUriToPeerId c) = Some q \<longleftrightarrow>
      (\<exists>c. san = Some c \<and> spiffeUriToPeerId c = Some q)" for q
    using peerIdFromCertSan_Some [unfolded peerIdFromCertSan_def] by (cases san) (auto simp: truthy_def)
  show verified: "authorizeHttpsSender sender san = AuthzVerified p \<longleftrightarrow>
      san = Some sender \<and> spiffeUriToPeerId sender = Some p" for p
    using cert
    by (auto simp: authorizeHttpsSender_def split: option.splits if_splits)
       (auto simp: spiffeUriToPeerId_Some)
  show "authz_ok (authorizeHttpsSender sender san) \<longleftrightarrow>
        (san = Some sender \<and> isCanonicalNodeUri sender)
        \<or> (\<not> isCanonicalNodeUri sender \<and> isLegacyHostUri sender)"
  proof -
    have "authz_ok a \<longleftrightarrow> (\<exists>p. a = AuthzVerified p) \<or> a = AuthzLegacy" for a by (cases a) auto
    moreover have "authorizeHttpsSender sender san = AuthzLegacy \<longleftrightarrow>
        \<not> isCanonicalNodeUri sender \<and> isLegacyHostUri sender"
      by (auto simp: authorizeHttpsSender_def isCanonicalNodeUri_def split: option.splits)
    ultimately show ?thesis
      using verified by (auto simp: isCanonicalNodeUri_def)
  qed
  have eq: "(\<lambda>u. peerIdFromCertSan (Some u) \<noteq> None) = isCanonicalNodeUri"
    by (simp add: fun_eq_iff peerIdFromCertSan_Some isCanonicalNodeUri_def)
  show "attestedPeerIdFromCert sans fp pins = Some p \<longleftrightarrow>
        (\<exists>f pin. fp = Some f \<and> f \<noteq> [] \<and> pin \<in> set pins \<and> normalizeFingerprint pin = normalizeFingerprint f)
        \<and> (\<exists>u. List.find isCanonicalNodeUri sans = Some u \<and> u = peerIdToSpiffeUri p)"
    unfolding attestedPeerIdFromCert_def eq isAttestingIssuer_iff [symmetric]
    by (auto simp: peerIdFromCertSan_Some isCanonicalNodeUri_def spiffeUriToPeerId_Some dest!: find_SomeD
          split: option.splits)
qed

end
