(* ===== verification/Mcp_Proxy.thy ===== *)
theory Mcp_Proxy
  imports Mcp_Ingress Identity
begin

text \<open>
  The proxy end to end: \<open>mcp-forward-exec.ts\<close> (\<open>buildMcpExecSpec\<close>), \<open>mcp-forward-executor.ts\<close>
  (\<open>createMcpForwardExecutor\<close> with its loop guards) and \<open>mcp-ingress-api.ts\<close> (sender from the client
  certificate, the wired approval resolver, the route handler with its two-sided audit).

  What a request does outside the handler is a list of \<open>effect\<close>s in order: audit entries, network
  forwards, local executions. The network and the local primitive are parameters that answer with a
  response or throw. The random request id is an argument. The status and the body of a response are kept, the
  texts in error bodies are constructors of \<open>proxy_body\<close>.
\<close>

section \<open>Data\<close>

datatype exec_reject = NotAuthorizedExec | NoDispatch none_reason | PinViolation

record local_spec =
  ls_server :: string
  ls_execution_tier :: mcp_tier
  ls_argv :: "string list"
  ls_config_path :: "string option"
  ls_timeout_ms :: nat

record forward_spec =
  fs_url :: string
  fs_target_agent_id :: string
  fs_sender_uri :: string
  fs_execution_tier :: mcp_tier
  fs_require_server_identity :: bool
  fs_expected_server_spiffe_id :: "string option"
  fs_timeout_ms :: nat

datatype mcp_exec_spec =
    McporterLocal local_spec
  | MtlsForward forward_spec
  | RejectSpec nat exec_reject

record local_exec_request = local_spec +
  le_payload :: json

record http_forward_request =
  hf_url :: string
  hf_hop :: int
  hf_sender_uri :: string
  hf_payload :: json
  hf_target_agent_id :: string
  hf_require_server_identity :: bool
  hf_expected_server_spiffe_id :: "string option"
  hf_timeout_ms :: nat

datatype proxy_body =
    IngressBody ingress_error
  | ExecRejectBody exec_reject
  | LocalDeferred
  | ForwardNotWired string
  | LocalFailed string
  | SelfLoopBody
  | HopLimitBody int
  | UpstreamBody json

record proxy_response =
  pr_status :: nat
  pr_body :: proxy_body

datatype audit_event =
    ForwardTx string mcp_tier
  | ExecLocal string mcp_tier
  | ExecutorReject string "nat option"
  | GateDecision string string approval_outcome string "string option"
  | IngressReject string nat "gate_reason option"
  | ProxyRx string nat int

datatype effect =
    Audit audit_event
  | NetForward http_forward_request
  | RunLocal local_exec_request

record executor_deps =
  xd_self_agent_id :: string
  xd_http_forward :: "http_forward_request \<Rightarrow> js_thrown + proxy_response"
  xd_timeout_ms :: "nat option"
  xd_local_exec :: "(local_exec_request \<Rightarrow> js_thrown + proxy_response) option"

section \<open>The execution specification\<close>

definition DEFAULT_MCP_EXEC_TIMEOUT_MS :: nat where "DEFAULT_MCP_EXEC_TIMEOUT_MS = 30000"

definition MCPORTER_ARGV_STUB :: "string list" where
  "MCPORTER_ARGV_STUB = [''mcporter'', ''run'', ''<server>'']"

definition buildMcpExecSpec ::
  "mcp_forward_dispatch \<Rightarrow> bool option \<Rightarrow> nat option \<Rightarrow> string option \<Rightarrow> mcp_exec_spec" where
  "buildMcpExecSpec dispatch auth timeoutMs configPath =
     (let timeout = default_to DEFAULT_MCP_EXEC_TIMEOUT_MS timeoutMs in
      if auth = Some False then RejectSpec 403 NotAuthorizedExec
      else case dispatch of
        DispatchNone _ reason \<Rightarrow> RejectSpec 503 (NoDispatch reason)
      | DispatchLocal server tier \<Rightarrow>
          McporterLocal \<lparr>ls_server = server, ls_execution_tier = tier,
            ls_argv = map (\<lambda>a. if a = ''<server>'' then server else a) MCPORTER_ARGV_STUB,
            ls_config_path = configPath, ls_timeout_ms = timeout\<rparr>
      | DispatchRemote rq \<Rightarrow>
          let pinActive = oc_spiffe_server_identity (rq_outbound_policy rq);
              expected = rq_expected_spiffe_id rq;
              expectedPresent = (expected \<noteq> None \<and> expected \<noteq> Some [])
          in if pinActive \<noteq> expectedPresent then RejectSpec 500 PinViolation
             else MtlsForward
               \<lparr>fs_url = rq_url rq, fs_target_agent_id = rq_target_agent_id rq,
                fs_sender_uri = rq_sender_uri rq, fs_execution_tier = rq_execution_tier rq,
                fs_require_server_identity = pinActive,
                fs_expected_server_spiffe_id = (if pinActive then expected else None),
                fs_timeout_ms = timeout\<rparr>)"

section \<open>The executor\<close>

definition MAX_MCP_FORWARD_HOPS :: int where "MAX_MCP_FORWARD_HOPS = 1"

definition run_local ::
  "executor_deps \<Rightarrow> local_spec \<Rightarrow> json \<Rightarrow> effect list \<times> (js_thrown + proxy_response)" where
  "run_local deps spec payload =
     (case xd_local_exec deps of
        None \<Rightarrow> ([Audit (ExecutorReject (xd_self_agent_id deps) None)],
                 Inr \<lparr>pr_status = 501, pr_body = LocalDeferred\<rparr>)
      | Some localExec \<Rightarrow>
          let req = local_spec.extend spec \<lparr>le_payload = payload\<rparr>;
              started = [Audit (ExecLocal (xd_self_agent_id deps) (ls_execution_tier spec)), RunLocal req]
          in case localExec req of
               Inl e \<Rightarrow>
                 (case errNote e of
                    Inl e' \<Rightarrow> (started, Inl e')
                  | Inr msg \<Rightarrow> (started @ [Audit (ExecutorReject (xd_self_agent_id deps) None)],
                                Inr \<lparr>pr_status = 502, pr_body = LocalFailed (take 300 msg)\<rparr>))
             | Inr res \<Rightarrow>
                 (started @ (if 500 \<le> pr_status res
                    then [Audit (ExecutorReject (xd_self_agent_id deps) (Some (pr_status res)))] else []),
                  Inr res))"

definition run_forward ::
  "executor_deps \<Rightarrow> forward_spec \<Rightarrow> int \<Rightarrow> json \<Rightarrow> effect list \<times> (js_thrown + proxy_response)" where
  "run_forward deps spec incomingHop payload =
     (let target = fs_target_agent_id spec in
      if target = xd_self_agent_id deps then
        ([Audit (ExecutorReject target None)], Inr \<lparr>pr_status = 508, pr_body = SelfLoopBody\<rparr>)
      else if MAX_MCP_FORWARD_HOPS \<le> incomingHop then
        ([Audit (ExecutorReject target None)], Inr \<lparr>pr_status = 502, pr_body = HopLimitBody incomingHop\<rparr>)
      else
        let req = \<lparr>hf_url = fs_url spec, hf_hop = incomingHop + 1, hf_sender_uri = fs_sender_uri spec,
                   hf_payload = payload, hf_target_agent_id = target,
                   hf_require_server_identity = fs_require_server_identity spec,
                   hf_expected_server_spiffe_id = fs_expected_server_spiffe_id spec,
                   hf_timeout_ms = fs_timeout_ms spec\<rparr>;
            started = [Audit (ForwardTx target (fs_execution_tier spec)), NetForward req]
        in case xd_http_forward deps req of
             Inl e \<Rightarrow> (started, Inl e)
           | Inr res \<Rightarrow>
               (started @ (if 500 \<le> pr_status res
                  then [Audit (ExecutorReject target (Some (pr_status res)))] else []),
                Inr res))"

definition execute_dispatch ::
  "executor_deps \<Rightarrow> mcp_forward_dispatch \<Rightarrow> int \<Rightarrow> json \<Rightarrow> effect list \<times> (js_thrown + proxy_response)" where
  "execute_dispatch deps dispatch incomingHop payload =
     (case buildMcpExecSpec dispatch (Some True) (Some (default_to DEFAULT_MCP_EXEC_TIMEOUT_MS (xd_timeout_ms deps))) None of
        RejectSpec status reason \<Rightarrow>
          ([Audit (ExecutorReject
              (case dispatch of DispatchRemote rq \<Rightarrow> rq_target_agent_id rq | _ \<Rightarrow> xd_self_agent_id deps)
              (Some status))],
           Inr \<lparr>pr_status = status, pr_body = ExecRejectBody reason\<rparr>)
      | McporterLocal spec \<Rightarrow> run_local deps spec payload
      | MtlsForward spec \<Rightarrow> run_forward deps spec incomingHop payload)"

section \<open>The route handler\<close>

record peer_cert_socket =
  ps_authorized :: bool
  ps_certificate :: "string option option"
    \<comment> \<open>\<open>None\<close>: no \<open>getPeerCertificate\<close>; \<open>Some s\<close>: the certificate's \<open>subjectaltname\<close>, if any\<close>

definition extractCanonicalSender :: "peer_cert_socket option \<Rightarrow> string option" where
  "extractCanonicalSender socket =
     (case socket of
        None \<Rightarrow> None
      | Some s \<Rightarrow>
          if \<not> ps_authorized s then None
          else (case ps_certificate s of
                  None \<Rightarrow> None
                | Some san \<Rightarrow> List.find isCanonicalNodeUri (spiffeUrisFromSubjectAltName san)))"

datatype header = HeaderAbsent | HeaderOne string | HeaderMany "string list"

text \<open>\<open>Number.parseInt(val, 10)\<close>, then \<open>n > 0\<close> and finite, otherwise 0.\<close>

definition readIncomingHop :: "header \<Rightarrow> int" where
  "readIncomingHop raw =
     (case (case raw of HeaderAbsent \<Rightarrow> None | HeaderOne v \<Rightarrow> Some v
            | HeaderMany vs \<Rightarrow> (case vs of [] \<Rightarrow> None | v # _ \<Rightarrow> Some v)) of
        None \<Rightarrow> 0
      | Some val \<Rightarrow>
          let s = dropWhile js_space val;
              negative = (case s of [] \<Rightarrow> False | c # _ \<Rightarrow> c = CHR ''-'');
              digits = takeWhile is_digit (case s of [] \<Rightarrow> [] | c # r \<Rightarrow> if c \<in> set ''+-'' then r else s);
              n = decimal digits
          in if digits = [] \<or> negative \<or> NUMBER_OVERFLOW \<le> n then 0 else n)"

record ingress_api_deps =
  ap_self_agent_id :: string
  ap_resolve_peer :: "string \<Rightarrow> js_error + mcp_forward_peer option"
  ap_get_capabilities :: "capability list"
  ap_require_server_identity :: "bool option"
  ap_execute :: "executor_deps option"
  ap_approval_registry :: "meldekanal_registry option"
  ap_parse_url :: "string \<Rightarrow> (string \<times> string) option"

record ingress_request =
  ir_server :: string
  ir_socket :: "peer_cert_socket option"
  ir_hop_header :: header
  ir_body :: json

text \<open>The stub used while no executor is wired.\<close>

definition deferredExecutor :: "mcp_forward_dispatch \<Rightarrow> proxy_response" where
  "deferredExecutor dispatch = \<lparr>pr_status = 501, pr_body =
     (case dispatch of DispatchRemote rq \<Rightarrow> ForwardNotWired (rq_target_agent_id rq) | _ \<Rightarrow> LocalDeferred)\<rparr>"

definition approval_request_of :: "string \<Rightarrow> approval_context \<Rightarrow> approval_request" where
  "approval_request_of uuid ctx =
     \<lparr>ar_request_id = uuid, ar_server = ac_server ctx, ar_tool = ac_tool ctx, ar_tier = ac_tier ctx,
      ar_sender_uri = ac_sender_uri ctx,
      ar_summary = tier_text (ac_tier ctx) @ ''-tier ''
        @ (if ac_tool ctx = [] then ''<unknown-tool>'' else ac_tool ctx) @ '' on '' @ ac_server ctx\<rparr>"

definition wired_resolver :: "string \<Rightarrow> meldekanal_registry \<Rightarrow> approval_context \<Rightarrow> resolver_reply" where
  "wired_resolver uuid reg ctx =
     (case requestApproval reg (approval_request_of uuid ctx) of
        Inl _ \<Rightarrow> ReplyThrows
      | Inr decision \<Rightarrow> Reply decision)"

text \<open>The gate audit of the resolver, written once a decision exists.\<close>

definition gate_audit ::
  "string \<Rightarrow> meldekanal_registry option \<Rightarrow> approval_context option \<Rightarrow> effect list" where
  "gate_audit uuid registry asked =
     (case (registry, asked) of
        (Some reg, Some ctx) \<Rightarrow>
          (case requestApproval reg (approval_request_of uuid ctx) of
             Inl _ \<Rightarrow> []
           | Inr d \<Rightarrow> [Audit (GateDecision (ac_sender_uri ctx)
               (if ac_tool ctx = [] then ''<unknown-tool>'' else ac_tool ctx) (ad_outcome d) uuid
               (case ad_channel_id d of Some [] \<Rightarrow> None | c \<Rightarrow> c))])
      | _ \<Rightarrow> [])"

text \<open>Whether a response body carries a \<open>tier\<close> that is a string.\<close>

fun body_has_tier :: "proxy_body \<Rightarrow> bool" where
  "body_has_tier (IngressBody e) \<longleftrightarrow>
     (case e of ApprovalNotConfigured \<Rightarrow> True | CriticalDenied \<Rightarrow> True | NotApproved _ \<Rightarrow> True
      | ResolverFailed \<Rightarrow> True | _ \<Rightarrow> False)"
| "body_has_tier (UpstreamBody v) \<longleftrightarrow> as_str (json_prop v ''tier'') \<noteq> None"
| "body_has_tier _ \<longleftrightarrow> False"

definition ingress_audit ::
  "string \<Rightarrow> string option \<Rightarrow> int \<Rightarrow> json \<Rightarrow> proxy_response \<Rightarrow> js_error + effect list" where
  "ingress_audit server senderUri incomingHop body result =
     (if pr_status result = 403 \<or> 500 \<le> pr_status result then
        (case (if body_has_tier (pr_body result) then classifyGateReason server body else Inr None) of
           Inl e \<Rightarrow> Inl e
         | Inr reason \<Rightarrow>
             Inr [Audit (IngressReject (default_to ''unknown'' senderUri) (pr_status result) reason)])
      else Inr [Audit (ProxyRx (default_to ''unknown'' senderUri) (pr_status result) incomingHop)])"

datatype handler_failure = FailedTier js_error | FailedExecutor js_thrown

definition ingress_input_of :: "ingress_api_deps \<Rightarrow> ingress_request \<Rightarrow> mcp_ingress_input" where
  "ingress_input_of deps req =
     \<lparr>mi_server = ir_server req, mi_sender_uri = extractCanonicalSender (ir_socket req),
      mi_capabilities = ap_get_capabilities deps, mi_payload = ir_body req\<rparr>"

definition ingress_deps_of :: "string \<Rightarrow> ingress_api_deps \<Rightarrow> ingress_request \<Rightarrow> mcp_ingress_deps" where
  "ingress_deps_of uuid deps req =
     \<lparr>md_self_agent_id = ap_self_agent_id deps, md_resolve_peer = ap_resolve_peer deps,
      md_is_authorized_sender = (\<lambda>u.
        case extractCanonicalSender (ir_socket req) of
          None \<Rightarrow> False
        | Some s \<Rightarrow> s \<noteq> [] \<and> authz_ok (authorizeHttpsSender u (Some s))),
      md_require_server_identity = ap_require_server_identity deps,
      md_resolve_approval = map_option (wired_resolver uuid) (ap_approval_registry deps),
      md_parse_url = ap_parse_url deps\<rparr>"

definition mcpIngressHandler ::
  "string \<Rightarrow> ingress_api_deps \<Rightarrow> ingress_request \<Rightarrow> effect list \<times> (handler_failure + proxy_response)" where
  "mcpIngressHandler uuid deps req =
     (let input = ingress_input_of deps req;
          hop = readIncomingHop (ir_hop_header req);
          sender = extractCanonicalSender (ir_socket req);
          finish = (\<lambda>effects result.
            case ingress_audit (ir_server req) sender hop (ir_body req) result of
              Inl e \<Rightarrow> (effects, Inl (FailedTier e))
            | Inr audits \<Rightarrow> (effects @ audits, Inr result))
      in case handleMcpIngress input (ingress_deps_of uuid deps req) of
           (asked, outcome) \<Rightarrow>
             let gate = gate_audit uuid (ap_approval_registry deps) asked in
             (case outcome of
                Reject e \<Rightarrow> (gate, Inl (FailedTier e))
              | Respond status err \<Rightarrow> finish gate \<lparr>pr_status = status, pr_body = IngressBody err\<rparr>
              | Execute dispatch \<Rightarrow>
                  (case ap_execute deps of
                     None \<Rightarrow> finish gate (deferredExecutor dispatch)
                   | Some xdeps \<Rightarrow>
                       (case execute_dispatch xdeps dispatch hop (ir_body req) of
                          (effects, Inl e) \<Rightarrow> (gate @ effects, Inl (FailedExecutor e))
                        | (effects, Inr result) \<Rightarrow> finish (gate @ effects) result))))"

section \<open>Lemmas\<close>

lemma run_forward_net:
  assumes "NetForward r \<in> set (fst (run_forward deps spec hop payload))"
  shows "hop < 1 \<and> hf_hop r = hop + 1 \<and> hf_target_agent_id r = fs_target_agent_id spec
    \<and> hf_target_agent_id r \<noteq> xd_self_agent_id deps \<and> hf_url r = fs_url spec
    \<and> hf_sender_uri r = fs_sender_uri spec \<and> hf_payload r = payload
    \<and> hf_require_server_identity r = fs_require_server_identity spec
    \<and> hf_expected_server_spiffe_id r = fs_expected_server_spiffe_id spec
    \<and> Audit (ForwardTx (hf_target_agent_id r) (fs_execution_tier spec)) \<in> set (fst (run_forward deps spec hop payload))"
  using assms
  by (auto simp: run_forward_def Let_def MAX_MCP_FORWARD_HOPS_def split: if_splits sum.splits)

lemma run_local_no_net: "NetForward r \<notin> set (fst (run_local deps spec payload))"
  by (auto simp: run_local_def Let_def split: option.splits sum.splits)

lemma exec_spec_forward:
  assumes "buildMcpExecSpec dispatch auth t c = MtlsForward spec"
  shows "\<exists>rq. dispatch = DispatchRemote rq \<and> fs_url spec = rq_url rq
    \<and> fs_target_agent_id spec = rq_target_agent_id rq \<and> fs_sender_uri spec = rq_sender_uri rq
    \<and> fs_execution_tier spec = rq_execution_tier rq
    \<and> fs_require_server_identity spec = oc_spiffe_server_identity (rq_outbound_policy rq)
    \<and> (fs_require_server_identity spec \<longrightarrow> fs_expected_server_spiffe_id spec = rq_expected_spiffe_id rq)"
  using assms
  by (auto simp: buildMcpExecSpec_def Let_def split: if_splits mcp_forward_dispatch.splits)

lemma execute_dispatch_net:
  assumes "NetForward r \<in> set (fst (execute_dispatch deps d hop payload))"
  shows "\<exists>rq. d = DispatchRemote rq \<and> hop < 1 \<and> hf_hop r = hop + 1
    \<and> hf_target_agent_id r = rq_target_agent_id rq \<and> rq_target_agent_id rq \<noteq> xd_self_agent_id deps
    \<and> hf_url r = rq_url rq \<and> hf_sender_uri r = rq_sender_uri rq \<and> hf_payload r = payload
    \<and> hf_require_server_identity r = oc_spiffe_server_identity (rq_outbound_policy rq)
    \<and> (hf_require_server_identity r \<longrightarrow> hf_expected_server_spiffe_id r = rq_expected_spiffe_id rq)
    \<and> Audit (ForwardTx (rq_target_agent_id rq) (rq_execution_tier rq)) \<in> set (fst (execute_dispatch deps d hop payload))"
proof -
  obtain spec where spec: "buildMcpExecSpec d (Some True)
      (Some (default_to DEFAULT_MCP_EXEC_TIMEOUT_MS (xd_timeout_ms deps))) None = MtlsForward spec"
    using assms run_local_no_net by (auto simp: execute_dispatch_def split: mcp_exec_spec.splits)
  then have ex: "execute_dispatch deps d hop payload = run_forward deps spec hop payload"
    by (simp add: execute_dispatch_def)
  from exec_spec_forward [OF spec] run_forward_net [of r deps spec hop payload] assms show ?thesis
    unfolding ex by auto
qed

lemma decimal_nonneg: "list_all is_digit ds \<Longrightarrow> 0 \<le> decimal ds"
proof -
  have "0 \<le> foldl (\<lambda>n c. 10 * n + (int (of_char c) - 48)) k ds" if "list_all is_digit ds" "0 \<le> k" for k :: int
    using that
  proof (induction ds arbitrary: k)
    case Nil
    then show ?case by simp
  next
    case (Cons c ds)
    have "(48 :: nat) \<le> of_char c" using Cons.prems(1) by (simp add: char_between_def)
    then have "int 48 \<le> int (of_char c)" by (rule zle_int [THEN iffD2])
    with Cons show ?case by simp
  qed
  then show "list_all is_digit ds \<Longrightarrow> 0 \<le> decimal ds" by (simp add: decimal_def)
qed

lemma readIncomingHop_nonneg: "0 \<le> readIncomingHop raw"
proof -
  have "list_all is_digit (takeWhile is_digit s)" for s
    by (auto simp: list_all_iff dest: set_takeWhileD)
  then show ?thesis
    by (auto simp: readIncomingHop_def Let_def intro!: decimal_nonneg split: header.splits option.splits)
qed

lemma dispatch_remote_plan:
  assumes "ingress_dispatch input deps = Inr (DispatchRemote rq)"
  shows "rq_sender_uri rq = md_self_agent_id deps
    \<and> (oc_spiffe_server_identity (rq_outbound_policy rq) \<longrightarrow> rq_expected_spiffe_id rq = Some (rq_target_agent_id rq))
    \<and> oc_spiffe_server_identity (rq_outbound_policy rq) = default_to False (md_require_server_identity deps)"
proof -
  obtain spec where
    spec: "buildMcpForwardSpec (md_parse_url deps)
      (planMcpRoute (mi_server input) (resolveMcp (mi_server input) (mi_capabilities input)) (md_self_agent_id deps))
      (md_self_agent_id deps) (md_resolve_peer deps) (md_require_server_identity deps) = Inr spec"
    and "buildMcpForwardDispatch spec None None = DispatchRemote rq"
    using assms by (auto simp: ingress_dispatch_def Let_def split: sum.splits)
  from dispatch_remote_inv [OF this] show ?thesis by (auto split: option.splits)
qed

lemma extractCanonicalSender_Some:
  "extractCanonicalSender sock = Some u \<Longrightarrow>
   \<exists>s san. sock = Some s \<and> ps_authorized s \<and> ps_certificate s = Some san
     \<and> u \<in> set (spiffeUrisFromSubjectAltName san) \<and> isCanonicalNodeUri u"
  by (auto simp: extractCanonicalSender_def dest!: find_SomeD split: option.splits if_splits)

lemma gate_audit_no_net: "NetForward r \<notin> set (gate_audit uuid reg asked)"
  by (auto simp: gate_audit_def split: option.splits sum.splits)

lemma handler_net:
  assumes "NetForward r \<in> set (fst (mcpIngressHandler uuid deps req))"
  obtains d xdeps where
    "snd (handleMcpIngress (ingress_input_of deps req) (ingress_deps_of uuid deps req)) = Execute d"
    "ap_execute deps = Some xdeps"
    "NetForward r \<in> set (fst (execute_dispatch xdeps d (readIncomingHop (ir_hop_header req)) (ir_body req)))"
    "set (fst (execute_dispatch xdeps d (readIncomingHop (ir_hop_header req)) (ir_body req)))
       \<subseteq> set (fst (mcpIngressHandler uuid deps req))"
proof -
  have audit: "NetForward r \<notin> set audits" if "ingress_audit a b c e f = Inr audits" for a b c e f audits
    using that by (auto simp: ingress_audit_def split: if_splits sum.splits)
  show thesis
    using assms
    by (auto simp: mcpIngressHandler_def Let_def gate_audit_no_net split: prod.splits ingress_result.splits
          option.splits sum.splits dest: audit intro: that)
qed

text \<open>With a registry wired, an approval of the ingress is an approval of the registry.\<close>

lemma operator_approved_wired:
  assumes "operator_approved input (ingress_deps_of uuid deps req)"
  shows "\<exists>reg ctx d. ap_approval_registry deps = Some reg \<and> ac_server ctx = mi_server input
    \<and> ac_tool ctx = deriveToolName (mi_payload input) \<and> Some (ac_sender_uri ctx) = mi_sender_uri input
    \<and> requestApproval reg (approval_request_of uuid ctx) = Inr d \<and> isApproved d"
proof -
  obtain ask sender d where "md_resolve_approval (ingress_deps_of uuid deps req) = Some ask"
    and sender: "mi_sender_uri input = Some sender" and
    ask: "ask \<lparr>ac_server = mi_server input, ac_tool = deriveToolName (mi_payload input),
               ac_tier = Gate, ac_sender_uri = sender\<rparr> = Reply d" and d: "isApproved d"
    using assms by (auto simp: operator_approved_def)
  then obtain reg where reg: "ap_approval_registry deps = Some reg" and "ask = wired_resolver uuid reg"
    by (auto simp: ingress_deps_of_def)
  then have "requestApproval reg (approval_request_of uuid \<lparr>ac_server = mi_server input,
      ac_tool = deriveToolName (mi_payload input), ac_tier = Gate, ac_sender_uri = sender\<rparr>) = Inr d"
    using ask by (auto simp: wired_resolver_def split: sum.splits)
  with reg sender d show ?thesis
    by (intro exI [of _ reg] exI [of _ "\<lparr>ac_server = mi_server input,
      ac_tool = deriveToolName (mi_payload input), ac_tier = Gate, ac_sender_uri = sender\<rparr>"] exI [of _ d]) simp
qed

section \<open>Properties\<close>

text \<open>
  C4. Whatever the route handler sends over the network is authenticated, bounded, pinned and audited:
  the request came over a validated TLS connection whose certificate names a canonical node; it had not
  been forwarded before, so the outgoing hop count is 1; the target is not this node; with server
  identity checking on, the target's own identity is expected; and a transmission entry for the target
  is in the audit trail.
\<close>

theorem proxy_forward_guarded:
  assumes "NetForward r \<in> set (fst (mcpIngressHandler uuid deps req))"
  shows "(\<exists>s san u. ir_socket req = Some s \<and> ps_authorized s \<and> ps_certificate s = Some san
            \<and> u \<in> set (spiffeUrisFromSubjectAltName san) \<and> isCanonicalNodeUri u)
    \<and> readIncomingHop (ir_hop_header req) = 0 \<and> hf_hop r = 1
    \<and> (\<exists>xdeps. ap_execute deps = Some xdeps \<and> hf_target_agent_id r \<noteq> xd_self_agent_id xdeps)
    \<and> hf_sender_uri r = ap_self_agent_id deps \<and> hf_payload r = ir_body req
    \<and> (ap_require_server_identity deps = Some True \<longrightarrow>
         hf_require_server_identity r \<and> hf_expected_server_spiffe_id r = Some (hf_target_agent_id r))
    \<and> (\<exists>tier. Audit (ForwardTx (hf_target_agent_id r) tier) \<in> set (fst (mcpIngressHandler uuid deps req)))"
proof -
  from assms obtain d xdeps where
    ex: "snd (handleMcpIngress (ingress_input_of deps req) (ingress_deps_of uuid deps req)) = Execute d"
    and x: "ap_execute deps = Some xdeps"
    and net: "NetForward r \<in> set (fst (execute_dispatch xdeps d (readIncomingHop (ir_hop_header req)) (ir_body req)))"
    and sub: "set (fst (execute_dispatch xdeps d (readIncomingHop (ir_hop_header req)) (ir_body req)))
       \<subseteq> set (fst (mcpIngressHandler uuid deps req))"
    by (rule handler_net)
  obtain rq where d: "d = DispatchRemote rq" and
    rq: "readIncomingHop (ir_hop_header req) < 1" "hf_hop r = readIncomingHop (ir_hop_header req) + 1"
    "hf_target_agent_id r = rq_target_agent_id rq" "rq_target_agent_id rq \<noteq> xd_self_agent_id xdeps"
    "hf_sender_uri r = rq_sender_uri rq" "hf_payload r = ir_body req"
    "hf_require_server_identity r = oc_spiffe_server_identity (rq_outbound_policy rq)"
    "hf_require_server_identity r \<Longrightarrow> hf_expected_server_spiffe_id r = rq_expected_spiffe_id rq"
    "Audit (ForwardTx (rq_target_agent_id rq) (rq_execution_tier rq)) \<in> set (fst (mcpIngressHandler uuid deps req))"
    using execute_dispatch_net [OF net] sub by blast
  from ex have auth: "authorized (ingress_input_of deps req) (ingress_deps_of uuid deps req)"
    and route: "ingress_dispatch (ingress_input_of deps req) (ingress_deps_of uuid deps req) = Inr (DispatchRemote rq)"
    unfolding handleMcpIngress_Execute d by auto
  have "readIncomingHop (ir_hop_header req) = 0"
    using rq(1) readIncomingHop_nonneg [of "ir_hop_header req"] by simp
  moreover obtain u where "extractCanonicalSender (ir_socket req) = Some u"
    using auth by (auto simp: authorized_def ingress_input_of_def)
  ultimately show ?thesis
    using rq x dispatch_remote_plan [OF route] extractCanonicalSender_Some [of "ir_socket req" u]
    by (auto simp: ingress_deps_of_def)
qed

text \<open>
  C3. End to end, no change without an operator: when a request makes the proxy forward or locally run
  a call of the governed server whose tool is not on the read-only allowlist, an approval registry is
  wired, and asked with exactly this server, tool and the sender of the client certificate, its first
  reachable channel approved.
\<close>

theorem proxy_write_needs_channel:
  assumes "snd (handleMcpIngress (ingress_input_of deps req) (ingress_deps_of uuid deps req)) = Execute d"
    and "canonicalizeServerName (ir_server req) = ''unifi''" and "is_tools_call (ir_body req)"
    and "deriveToolName (ir_body req) \<notin> set UNIFI_READ_ONLY"
  shows "\<exists>reg ctx c. ap_approval_registry deps = Some reg
    \<and> ac_server ctx = ir_server req \<and> ac_tool ctx = deriveToolName (ir_body req)
    \<and> Some (ac_sender_uri ctx) = extractCanonicalSender (ir_socket req)
    \<and> List.find (reachable reg) (mr_channels reg) = Some c
    \<and> approves reg c (approval_request_of uuid ctx)"
proof -
  have "operator_approved (ingress_input_of deps req) (ingress_deps_of uuid deps req)"
    using executed_write_approved [OF assms(1)] assms(2-) by (simp add: ingress_input_of_def)
  from operator_approved_wired [OF this] obtain reg ctx d where
    reg: "ap_approval_registry deps = Some reg" and
    ctx: "ac_server ctx = ir_server req" "ac_tool ctx = deriveToolName (ir_body req)"
      "Some (ac_sender_uri ctx) = extractCanonicalSender (ir_socket req)" and
    d: "requestApproval reg (approval_request_of uuid ctx) = Inr d" "isApproved d"
    by (auto simp: ingress_input_of_def)
  have "\<exists>c. List.find (reachable reg) (mr_channels reg) = Some c \<and> ask_channel reg c (approval_request_of uuid ctx) = Inr d"
    using d by (auto simp: requestApproval_def request_first_find isApproved_def split: option.splits)
  then show ?thesis using reg ctx d(2) ask_channel_approved by blast
qed

section \<open>Witnesses\<close>

definition sample_api_deps :: "meldekanal_registry option \<Rightarrow> ingress_api_deps" where
  "sample_api_deps registry = \<lparr>ap_self_agent_id = ''me'', ap_resolve_peer = sample_peer,
     ap_get_capabilities = [sample_cap ''b'' Healthy], ap_require_server_identity = Some True,
     ap_execute = Some \<lparr>xd_self_agent_id = ''me'',
       xd_http_forward = (\<lambda>_. Inr \<lparr>pr_status = 200, pr_body = UpstreamBody JNull\<rparr>),
       xd_timeout_ms = Some 50, xd_local_exec = None\<rparr>,
     ap_approval_registry = registry, ap_parse_url = sample_url\<rparr>"

definition sample_api_request :: "string \<Rightarrow> ingress_request" where
  "sample_api_request tool = \<lparr>ir_server = ''unifi'',
     ir_socket = Some \<lparr>ps_authorized = True, ps_certificate = Some (Some ''DNS:x, URI:spiffe://thinklocal/node/12D3'')\<rparr>,
     ir_hop_header = HeaderAbsent, ir_body = call_payload tool\<rparr>"

fun is_net :: "effect \<Rightarrow> bool" where
  "is_net (NetForward _) = True"
| "is_net _ = False"

fun_cases is_net_E: "is_net e"

theorem proxy_forward_guarded_witness:
  "\<exists>r. NetForward r \<in> set (fst (mcpIngressHandler ''u'' (sample_api_deps None) (sample_api_request ''list_clients'')))
     \<and> hf_hop r = 1 \<and> hf_expected_server_spiffe_id r = Some (hf_target_agent_id r)"
proof -
  have "list_ex is_net (fst (mcpIngressHandler ''u'' (sample_api_deps None) (sample_api_request ''list_clients'')))"
    by code_simp
  then obtain e where "e \<in> set (fst (mcpIngressHandler ''u'' (sample_api_deps None) (sample_api_request ''list_clients'')))"
    and "is_net e" by (auto simp: list_ex_iff)
  moreover from this(2) obtain r where "e = NetForward r" by (rule is_net_E)
  ultimately have
    r: "NetForward r \<in> set (fst (mcpIngressHandler ''u'' (sample_api_deps None) (sample_api_request ''list_clients'')))"
    by (simp only:)
  from proxy_forward_guarded [OF r] r show ?thesis by (auto simp: sample_api_deps_def)
qed

definition sample_registry :: meldekanal_registry where
  "sample_registry = new_MeldekanalRegistry
     [sample_channel ''telegram'' Hangs 5, sample_channel ''cli'' (Settles 20 True) 900] None None"

lemma sample_registry_approves:
  "requestApproval sample_registry r = Inr \<lparr>ad_outcome = Approved, ad_channel_id = Some ''cli'', ad_note = None\<rparr>"
  by (simp add: sample_registry_def requestApproval_find sample_reachable)
     (simp add: ask_channel_def withTimeout_def timer_delay_def sample_channel_def new_MeldekanalRegistry_def
       DEFAULT_APPROVAL_TIMEOUT_MS_def normalizeDecision_def)

lemma sample_write_executes:
  "\<exists>d. snd (handleMcpIngress (ingress_input_of (sample_api_deps (Some sample_registry)) (sample_api_request ''block_client''))
     (ingress_deps_of ''u'' (sample_api_deps (Some sample_registry)) (sample_api_request ''block_client''))) = Execute d"
  (is "\<exists>d. snd (handleMcpIngress ?i ?d) = Execute d")
proof -
  have eqs: "mi_sender_uri ?i = extractCanonicalSender (ir_socket (sample_api_request ''block_client''))"
    "md_is_authorized_sender ?d = md_is_authorized_sender
       (ingress_deps_of ''u'' (sample_api_deps None) (sample_api_request ''block_client''))"
    "ingress_dispatch ?i ?d = ingress_dispatch
       (ingress_input_of (sample_api_deps None) (sample_api_request ''block_client''))
       (ingress_deps_of ''u'' (sample_api_deps None) (sample_api_request ''block_client''))"
    "mi_server ?i = ''unifi''" "mi_payload ?i = call_payload ''block_client''"
    "md_resolve_approval ?d = Some (wired_resolver ''u'' sample_registry)"
    by (simp_all add: ingress_input_of_def ingress_deps_of_def sample_api_deps_def ingress_dispatch_def
        sample_api_request_def)
  have sender: "extractCanonicalSender (ir_socket (sample_api_request ''block_client''))
      = Some ''spiffe://thinklocal/node/12D3''"
    by code_simp
  have "\<not> blank ''spiffe://thinklocal/node/12D3''"
    and "md_is_authorized_sender (ingress_deps_of ''u'' (sample_api_deps None)
      (sample_api_request ''block_client'')) ''spiffe://thinklocal/node/12D3''"
    by code_simp+
  then have "authorized ?i ?d" unfolding authorized_def eqs sender by blast
  moreover have "\<not> blank (mi_server ?i)" unfolding eqs by code_simp
  moreover have "(case ingress_dispatch ?i ?d of Inr d \<Rightarrow> dispatch_tier d = Some Self | _ \<Rightarrow> False)"
    unfolding eqs by code_simp
  moreover have "deriveToolTierForServer (mi_server ?i) (mi_payload ?i) = Inr Gate"
    unfolding eqs by code_simp
  moreover have "operator_approved ?i ?d"
    unfolding operator_approved_def eqs sender
    by (auto simp: wired_resolver_def sample_registry_approves isApproved_def)
  ultimately show ?thesis
    by (auto simp: handleMcpIngress_Execute permitted_def split: sum.splits)
qed

theorem proxy_write_needs_channel_witness:
  "\<exists>reg. ap_approval_registry (sample_api_deps (Some sample_registry)) = Some reg
     \<and> List.find (reachable reg) (mr_channels reg) \<noteq> None"
proof -
  obtain d where d: "snd (handleMcpIngress
      (ingress_input_of (sample_api_deps (Some sample_registry)) (sample_api_request ''block_client''))
      (ingress_deps_of ''u'' (sample_api_deps (Some sample_registry)) (sample_api_request ''block_client''))) = Execute d"
    using sample_write_executes by blast
  have "canonicalizeServerName (ir_server (sample_api_request ''block_client'')) = ''unifi''"
    and "is_tools_call (ir_body (sample_api_request ''block_client''))"
    and "deriveToolName (ir_body (sample_api_request ''block_client'')) \<notin> set UNIFI_READ_ONLY"
    by code_simp+
  from proxy_write_needs_channel [OF d this] show ?thesis by auto
qed

end
