(* ===== verification/Audit_Log.thy ===== *)
theory Audit_Log
  imports Prelude
begin

text \<open>
  The audit log (\<open>audit.ts\<close>): the signed, hash-chained table of the node's own events, the table of events
  imported from peers, their queries and exports. The hash, the signature scheme and base64 are arguments
  (\<open>audit_env\<close>); the signature is a function of the text, as with a derandomised ECDSA (Node draws a fresh nonce for each, and
  the lemmas ask nothing of it). A verification that throws is \<open>None\<close>. A time stamp is the ISO text the code writes. The schema
  migration and the write-ahead log of SQLite are not modelled.
\<close>

section \<open>Data\<close>

record audit_event =
  ae_id :: nat
  ae_timestamp :: string
  ae_event_type :: string
  ae_agent_id :: string
  ae_peer_id :: "string option"
  ae_details :: "string option"
  ae_entity_type :: "string option"
  ae_entity_id :: "string option"
  ae_signature :: string
  ae_prev_hash :: string
  ae_entry_hash :: string

record audit_env =
  au_agent_id :: string
  au_sha256hex :: "string \<Rightarrow> string"
  au_sign :: "string \<Rightarrow> string"
  au_verify :: "string \<Rightarrow> string \<Rightarrow> string \<Rightarrow> bool option"
  au_to_base64 :: "string \<Rightarrow> string"
  au_from_base64 :: "string \<Rightarrow> string"

record audit_log =
  al_events :: "audit_event list"
  al_last_hash :: string
  al_peer_events :: "audit_event list"
  al_peer_next :: nat

definition ZERO_HASH :: string where "ZERO_HASH = replicate 64 (CHR ''0'')"

text \<open>Opening a database reads the hash of the newest row.\<close>

definition open_AuditLog :: "audit_event list \<Rightarrow> audit_event list \<Rightarrow> nat \<Rightarrow> audit_log" where
  "open_AuditLog events peerEvents peerNext =
     \<lparr>al_events = events, al_last_hash = (case rev events of [] \<Rightarrow> ZERO_HASH | e # _ \<Rightarrow> ae_entry_hash e),
      al_peer_events = peerEvents, al_peer_next = peerNext\<rparr>"

abbreviation or_empty :: "string option \<Rightarrow> string" where
  "or_empty v \<equiv> default_to [] v"

section \<open>Appending\<close>

definition audit_payload :: "string list \<Rightarrow> string" where
  "audit_payload parts = js_join ''|'' parts"

definition payload_fields :: "audit_event \<Rightarrow> string list" where
  "payload_fields e = [ae_timestamp e, ae_event_type e, ae_agent_id e, or_empty (ae_peer_id e), or_empty (ae_details e),
     or_empty (ae_entity_type e), or_empty (ae_entity_id e)]"

definition append_event ::
  "audit_env \<Rightarrow> string \<Rightarrow> string \<Rightarrow> string option \<Rightarrow> string option \<Rightarrow> string option \<Rightarrow> string option \<Rightarrow> audit_log \<Rightarrow> audit_log" where
  "append_event env timestamp eventType peerId details entityType entityId lg =
     (let prevHash = al_last_hash lg;
          parts = [timestamp, eventType, au_agent_id env, or_empty peerId, or_empty details, or_empty entityType, or_empty entityId];
          sigBase64 = au_to_base64 env (au_sign env (audit_payload parts));
          entryHash = au_sha256hex env (audit_payload (parts @ [sigBase64, prevHash]));
          row = \<lparr>ae_id = Suc (length (al_events lg)), ae_timestamp = timestamp, ae_event_type = eventType,
                 ae_agent_id = au_agent_id env, ae_peer_id = peerId, ae_details = details, ae_entity_type = entityType,
                 ae_entity_id = entityId, ae_signature = sigBase64, ae_prev_hash = prevHash, ae_entry_hash = entryHash\<rparr>
      in lg\<lparr>al_events := al_events lg @ [row], al_last_hash := entryHash\<rparr>)"

section \<open>Queries and exports\<close>

definition getEvents :: "nat \<Rightarrow> audit_log \<Rightarrow> audit_event list" where
  "getEvents limit lg = take limit (rev (al_events lg))"

definition getEventsByEntity :: "string \<Rightarrow> string option \<Rightarrow> nat \<Rightarrow> audit_log \<Rightarrow> audit_event list" where
  "getEventsByEntity entityType entityId limit lg =
     (case entityId of
        Some (c # cs) \<Rightarrow> take limit (filter (\<lambda>e. ae_entity_type e = Some entityType \<and> ae_entity_id e = Some (c # cs)) (rev (al_events lg)))
      | _ \<Rightarrow> take limit (filter (\<lambda>e. ae_entity_type e = Some entityType) (rev (al_events lg))))"

definition audit_count :: "audit_log \<Rightarrow> nat" where
  "audit_count lg = length (al_events lg)"

fun double_quotes :: "string \<Rightarrow> string" where
  "double_quotes [] = []"
| "double_quotes (c # cs) = (if c = CHR 0x22 then [CHR 0x22, CHR 0x22] else [c]) @ double_quotes cs"

definition formula_start :: "char \<Rightarrow> bool" where
  "formula_start c \<longleftrightarrow> c \<in> {CHR ''='', CHR ''+'', CHR ''-'', CHR ''@'', CHR 0x09, CHR 0x0D}"

definition sanitizeCsvCell :: "string \<Rightarrow> string" where
  "sanitizeCsvCell v =
     (let escaped = double_quotes v in
      [CHR 0x22] @ (case escaped of c # _ \<Rightarrow> if formula_start c then [CHR 0x27] else [] | [] \<Rightarrow> []) @ escaped @ [CHR 0x22])"

definition csv_row :: "(nat \<Rightarrow> string) \<Rightarrow> audit_event \<Rightarrow> string" where
  "csv_row show_id e = js_join '',''
     [show_id (ae_id e), ae_timestamp e, sanitizeCsvCell (ae_event_type e), sanitizeCsvCell (ae_agent_id e),
      sanitizeCsvCell (or_empty (ae_peer_id e)), sanitizeCsvCell (or_empty (ae_details e)),
      sanitizeCsvCell (or_empty (ae_entity_type e)), sanitizeCsvCell (or_empty (ae_entity_id e)),
      ae_signature e, ae_prev_hash e, ae_entry_hash e]"

definition exportCsv :: "(nat \<Rightarrow> string) \<Rightarrow> nat option \<Rightarrow> audit_log \<Rightarrow> string" where
  "exportCsv show_id limit lg =
     js_join [CHR 0x0A]
       (''id,timestamp,event_type,agent_id,peer_id,details,entity_type,entity_id,signature,prev_hash,entry_hash''
         # map (csv_row show_id) (getEvents (default_to 10000 limit) lg))"

section \<open>Events of peers\<close>

text \<open>The text order of SQLite's binary collation.\<close>

fun text_less :: "string \<Rightarrow> string \<Rightarrow> bool" where
  "text_less _ [] = False"
| "text_less [] (_ # _) = True"
| "text_less (a # as) (b # bs) = (of_char a < (of_char b :: nat) \<or> a = b \<and> text_less as bs)"

text \<open>The age is \<open>None\<close> when it is not a finite number; the cutoff is the ISO text of \<open>now - maxAgeMs\<close>.\<close>

definition prunePeerEventsOlderThan :: "int option \<Rightarrow> (int \<Rightarrow> string) \<Rightarrow> audit_log \<Rightarrow> nat \<times> audit_log" where
  "prunePeerEventsOlderThan maxAgeMs cutoff lg =
     (case maxAgeMs of
        None \<Rightarrow> (0, lg)
      | Some age \<Rightarrow>
          if age \<le> 0 then (0, lg)
          else let keep = filter (\<lambda>e. \<not> text_less (ae_timestamp e) (cutoff age)) (al_peer_events lg)
               in (length (al_peer_events lg) - length keep, lg\<lparr>al_peer_events := keep\<rparr>))"

text \<open>An event from a peer; its row id and previous hash play no role.\<close>

definition importPeerEvent :: "audit_env \<Rightarrow> audit_event \<Rightarrow> string option \<Rightarrow> audit_log \<Rightarrow> bool \<times> audit_log" where
  "importPeerEvent env event peerPublicKeyPem lg =
     (let insert_row =
            (if list_ex (\<lambda>e. ae_entry_hash e = ae_entry_hash event) (al_peer_events lg) then (False, lg)
             else (True, lg\<lparr>al_peer_events := al_peer_events lg @ [event\<lparr>ae_id := al_peer_next lg, ae_prev_hash := []\<rparr>],
                             al_peer_next := Suc (al_peer_next lg)\<rparr>))
      in case peerPublicKeyPem of
           Some (c # cs) \<Rightarrow>
             (case au_verify env (c # cs) (audit_payload (payload_fields event)) (au_from_base64 env (ae_signature event)) of
                Some True \<Rightarrow> insert_row
              | _ \<Rightarrow> (False, lg))
         | _ \<Rightarrow> insert_row)"

definition getRecentForSync :: "nat \<Rightarrow> audit_log \<Rightarrow> audit_event list" where
  "getRecentForSync limit lg = map (\<lambda>e. e\<lparr>ae_id := 0, ae_prev_hash := []\<rparr>) (take limit (rev (al_events lg)))"

text \<open>A stable sort by descending time stamp, with the comparison of the host as argument.\<close>

fun insert_desc :: "(string \<Rightarrow> string \<Rightarrow> int) \<Rightarrow> audit_event \<Rightarrow> audit_event list \<Rightarrow> audit_event list" where
  "insert_desc lc e [] = [e]"
| "insert_desc lc e (f # fs) =
     (if lc (ae_timestamp f) (ae_timestamp e) \<le> 0 then e # f # fs else f # insert_desc lc e fs)"

definition getAllEvents :: "(string \<Rightarrow> string \<Rightarrow> int) \<Rightarrow> nat \<Rightarrow> audit_log \<Rightarrow> audit_event list" where
  "getAllEvents lc limit lg =
     take limit (foldr (insert_desc lc) (getEvents limit lg @ take limit (rev (al_peer_events lg))) [])"

section \<open>The chain of the node's own events\<close>

text \<open>The nine texts a row's hash covers, and what makes a list of rows a chain that starts after a given hash.\<close>

definition row_parts :: "audit_event \<Rightarrow> string list" where
  "row_parts e = payload_fields e @ [ae_signature e, ae_prev_hash e]"

fun chain_from :: "audit_env \<Rightarrow> nat \<Rightarrow> string \<Rightarrow> audit_event list \<Rightarrow> bool" where
  "chain_from env n prev [] = True"
| "chain_from env n prev (e # es) \<longleftrightarrow>
     ae_id e = n \<and> ae_agent_id e = au_agent_id env \<and> ae_prev_hash e = prev
     \<and> ae_signature e = au_to_base64 env (au_sign env (audit_payload (payload_fields e)))
     \<and> ae_entry_hash e = au_sha256hex env (audit_payload (row_parts e))
     \<and> chain_from env (Suc n) (ae_entry_hash e) es"

definition head_hash :: "string \<Rightarrow> audit_event list \<Rightarrow> string" where
  "head_hash prev es = (case rev es of [] \<Rightarrow> prev | e # _ \<Rightarrow> ae_entry_hash e)"

lemma head_hash_simps [simp]:
  "head_hash prev [] = prev"
  "head_hash prev (es @ [e]) = ae_entry_hash e"
  "head_hash prev (e # es) = head_hash (ae_entry_hash e) es"
  by (auto simp: head_hash_def split: list.splits)

lemma chain_from_snoc:
  "chain_from env n prev (es @ [e]) \<longleftrightarrow> chain_from env n prev es \<and> chain_from env (n + length es) (head_hash prev es) [e]"
  by (induction es arbitrary: n prev) auto

definition chain_ok :: "audit_env \<Rightarrow> audit_log \<Rightarrow> bool" where
  "chain_ok env lg \<longleftrightarrow> chain_from env 1 ZERO_HASH (al_events lg) \<and> al_last_hash lg = head_hash ZERO_HASH (al_events lg)"

datatype audit_op =
    Append_Op string string "string option" "string option" "string option" "string option"
  | Import_Op audit_event "string option"
  | Prune_Op "int option" string
  | Reopen_Op

definition audit_step :: "audit_env \<Rightarrow> audit_op \<Rightarrow> audit_log \<Rightarrow> audit_log" where
  "audit_step env op lg =
     (case op of
        Append_Op ts ev p d et eid \<Rightarrow> append_event env ts ev p d et eid lg
      | Import_Op e key \<Rightarrow> snd (importPeerEvent env e key lg)
      | Prune_Op age cutoff \<Rightarrow> snd (prunePeerEventsOlderThan age (\<lambda>_. cutoff) lg)
      | Reopen_Op \<Rightarrow> open_AuditLog (al_events lg) (al_peer_events lg) (al_peer_next lg))"

abbreviation audit_run :: "audit_env \<Rightarrow> audit_op list \<Rightarrow> audit_log \<Rightarrow> audit_log" where
  "audit_run env ops lg \<equiv> fold (audit_step env) ops lg"

lemma import_keeps_chain [simp]:
  "al_events (snd (importPeerEvent env e key lg)) = al_events lg"
  "al_last_hash (snd (importPeerEvent env e key lg)) = al_last_hash lg"
  by (auto simp: importPeerEvent_def Let_def split: option.split list.split bool.split)

lemma prune_keeps_chain [simp]:
  "al_events (snd (prunePeerEventsOlderThan age cutf lg)) = al_events lg"
  "al_last_hash (snd (prunePeerEventsOlderThan age cutf lg)) = al_last_hash lg"
  by (auto simp: prunePeerEventsOlderThan_def Let_def split: option.split)

lemma append_chain_ok: "chain_ok env lg \<Longrightarrow> chain_ok env (append_event env ts ev p d et eid lg)"
  by (simp add: chain_ok_def append_event_def Let_def chain_from_snoc payload_fields_def row_parts_def)

lemma audit_step_ok:
  assumes "chain_ok env lg"
  shows "chain_ok env (audit_step env op lg)" and "prefix (al_events lg) (al_events (audit_step env op lg))"
proof -
  show "chain_ok env (audit_step env op lg)"
  proof (cases op)
    case (Append_Op ts ev p d et eid)
    then show ?thesis using append_chain_ok [OF assms] by (simp add: audit_step_def)
  qed (use assms in \<open>simp_all add: audit_step_def chain_ok_def open_AuditLog_def head_hash_def\<close>)
  show "prefix (al_events lg) (al_events (audit_step env op lg))"
    by (cases op) (simp_all add: audit_step_def append_event_def Let_def open_AuditLog_def)
qed

lemma audit_run_ok:
  "chain_ok env lg \<Longrightarrow> chain_ok env (audit_run env ops lg) \<and> prefix (al_events lg) (al_events (audit_run env ops lg))"
proof (induction ops arbitrary: lg)
  case (Cons op ops)
  then show ?case
    using audit_step_ok [OF Cons.prems, of op] by (auto intro: prefix_order.trans)
qed simp

text \<open>Joining texts without the separator loses nothing.\<close>

lemma append_sep_cancel:
  "c \<notin> set x \<Longrightarrow> c \<notin> set y \<Longrightarrow> x @ c # u = y @ c # v \<longleftrightarrow> x = y \<and> u = v"
proof (induction x arbitrary: y)
  case Nil
  then show ?case by (cases y) auto
next
  case (Cons a x)
  then show ?case by (cases y) auto
qed


lemma append_sep_cancel_last:
  assumes "c \<notin> set u" "c \<notin> set v"
  shows "x @ c # u = y @ c # v \<longleftrightarrow> x = y \<and> u = v"
proof
  assume "x @ c # u = y @ c # v"
  then have "rev u @ c # rev x = rev v @ c # rev y"
    by (metis append.assoc append_Cons append_Nil rev.simps(2) rev_append)
  with assms append_sep_cancel [of c "rev u" "rev v" "rev x" "rev y"] show "x = y \<and> u = v" by simp
qed simp

lemma js_split_join:
  "ps \<noteq> [] \<Longrightarrow> list_all (\<lambda>p. d \<notin> set p) ps \<Longrightarrow> js_split d (js_join [d] ps) = ps"
  by (induction "[d]" ps rule: js_join.induct) (simp_all add: js_split_single js_split_append)

lemma row_text:
  "audit_payload (row_parts e) = (audit_payload (payload_fields e) @ CHR ''|'' # ae_signature e) @ CHR ''|'' # ae_prev_hash e"
  by (simp add: audit_payload_def row_parts_def payload_fields_def)

definition bar_free :: "string \<Rightarrow> bool" where
  "bar_free s \<longleftrightarrow> CHR ''|'' \<notin> set s"

lemma row_text_eqD:
  assumes "audit_payload (row_parts e) = audit_payload (row_parts f)"
    and "bar_free (ae_signature e)" "bar_free (ae_signature f)" "bar_free (ae_prev_hash e)" "bar_free (ae_prev_hash f)"
  shows "audit_payload (payload_fields e) = audit_payload (payload_fields f) \<and> ae_signature e = ae_signature f
    \<and> ae_prev_hash e = ae_prev_hash f"
  using assms append_sep_cancel_last [OF assms(4,5) [unfolded bar_free_def]]
    append_sep_cancel_last [OF assms(2,3) [unfolded bar_free_def]]
  unfolding row_text by blast

definition row_content :: "audit_event \<Rightarrow> string \<times> string \<times> string \<times> string" where
  "row_content e = (audit_payload (payload_fields e), ae_signature e, ae_prev_hash e, ae_entry_hash e)"

lemma chains_agree:
  assumes "\<forall>x. bar_free (au_sha256hex env x)" "\<forall>x. bar_free (au_to_base64 env x)" "bar_free p"
    and "chain_from env n p es" "chain_from env n p fs" "length es = length fs" "head_hash p es = head_hash p fs"
    and "inj_on (au_sha256hex env) ((\<lambda>e. audit_payload (row_parts e)) ` (set es \<union> set fs))"
  shows "map row_content es = map row_content fs"
  using assms(4-)
proof (induction es arbitrary: fs rule: rev_induct)
  case (snoc e es)
  obtain fs' f where fs: "fs = fs' @ [f]" using snoc.prems(3) by (cases fs rule: rev_cases) auto
  let ?T = "\<lambda>e. audit_payload (row_parts e)"
  have e: "ae_prev_hash e = head_hash p es" "ae_entry_hash e = au_sha256hex env (?T e)"
    and eb: "bar_free (ae_signature e)"
    using snoc.prems(1) assms(2) by (auto simp: chain_from_snoc)
  have f: "ae_prev_hash f = head_hash p fs'" "ae_entry_hash f = au_sha256hex env (?T f)"
    and fb: "bar_free (ae_signature f)"
    using snoc.prems(2) assms(2) by (auto simp: chain_from_snoc fs)
  have hb: "bar_free (head_hash p gs)" if "chain_from env n p gs" for gs
    using that assms(1,3) by (cases gs rule: rev_cases) (auto simp: chain_from_snoc)
  have eb': "bar_free (ae_prev_hash e)" and fb': "bar_free (ae_prev_hash f)"
    using e f hb snoc.prems(1,2) by (auto simp: chain_from_snoc fs)
  have "ae_entry_hash e = ae_entry_hash f" using snoc.prems(4) by (simp add: fs)
  then have "?T e = ?T f" using e(2) f(2)
    by - (rule inj_onD [OF snoc.prems(5)], simp_all add: fs)
  then have same: "row_content e = row_content f"
    using row_text_eqD [OF _ eb fb eb' fb'] \<open>ae_entry_hash e = ae_entry_hash f\<close> by (simp add: row_content_def)
  have "map row_content es = map row_content fs'"
  proof (rule snoc.IH)
    show "chain_from env n p es" "chain_from env n p fs'" "length es = length fs'"
      using snoc.prems by (simp_all add: chain_from_snoc fs)
    show "head_hash p es = head_hash p fs'" using same e f by (simp add: row_content_def)
    show "inj_on (au_sha256hex env) (?T ` (set es \<union> set fs'))"
      by (rule inj_on_subset [OF snoc.prems(5)]) (auto simp: fs)
  qed
  with same show ?case by (simp add: fs)
qed simp

lemma payloads_determine_fields:
  assumes "list_all (\<lambda>e. list_all bar_free (payload_fields e)) es" "list_all (\<lambda>e. list_all bar_free (payload_fields e)) fs"
    and "map row_content es = map row_content fs"
  shows "map payload_fields es = map payload_fields fs"
  using assms
proof (induction es arbitrary: fs)
  case (Cons e es)
  then obtain f fs' where fs: "fs = f # fs'" by (cases fs) auto
  have split: "js_split (CHR ''|'') (audit_payload (payload_fields x)) = payload_fields x"
    if "list_all bar_free (payload_fields x)" for x
  proof -
    have "list_all (\<lambda>p. CHR ''|'' \<notin> set p) (payload_fields x)"
      using that unfolding bar_free_def .
    moreover have "payload_fields x \<noteq> []" by (simp add: payload_fields_def)
    ultimately show ?thesis unfolding audit_payload_def by (intro js_split_join)
  qed
  have "audit_payload (payload_fields e) = audit_payload (payload_fields f)"
    using Cons.prems(3) by (simp add: fs row_content_def)
  moreover have "list_all bar_free (payload_fields e)" "list_all bar_free (payload_fields f)"
    using Cons.prems(1,2) unfolding fs list.pred_inject(2) by blast+
  ultimately have "payload_fields e = payload_fields f"
    using split [of e] split [of f] by metis
  moreover have "map payload_fields es = map payload_fields fs'"
    using Cons.prems unfolding fs by (intro Cons.IH) simp_all
  ultimately show ?case by (simp add: fs)
qed simp

text \<open>C21. In every run of appends, imports, retention passes and restarts that starts from a sound log (an empty
  database in particular), the rows stay numbered from one without a gap, every row is signed by this node over its
  seven fields, links to the hash of the row before it (the first to 64 zeros) and carries the hash of its own fields,
  signature and link; the hash kept in memory is that of the newest row; and no row is ever changed or removed: the
  earlier rows are a prefix of the later ones.\<close>

theorem audit_chain_append_only:
  "chain_ok env (open_AuditLog [] [] 1)
   \<and> (chain_ok env lg \<longrightarrow> chain_ok env (audit_run env ops lg) \<and> prefix (al_events lg) (al_events (audit_run env ops lg)))"
  using audit_run_ok by (simp add: chain_ok_def open_AuditLog_def)

definition no_bars :: "string \<Rightarrow> string" where
  "no_bars = map (\<lambda>c. if c = CHR ''|'' then CHR ''/'' else c)"

lemma no_bars_twice: "no_bars (no_bars s) = no_bars s"
  by (simp add: no_bars_def)

definition ex_env :: audit_env where
  "ex_env = \<lparr>au_agent_id = ''n'', au_sha256hex = no_bars, au_sign = \<lambda>m. m,
     au_verify = \<lambda>k m sg. Some (no_bars m = no_bars sg), au_to_base64 = no_bars, au_from_base64 = \<lambda>s. s\<rparr>"

definition ex_run :: "audit_op list" where
  "ex_run = [Append_Op ''t'' ''A'' None None None None, Reopen_Op, Append_Op ''u'' ''B'' (Some ''p'') None None None]"

theorem audit_chain_append_only_witness:
  "chain_ok ex_env (audit_run ex_env ex_run (open_AuditLog [] [] 1))"
  using audit_chain_append_only [of ex_env "open_AuditLog [] [] 1" ex_run] by blast

text \<open>C22. Tamper evidence: two sound chains of the same length whose newest hashes agree carry, row by row, the same
  signed text, signature, link and hash, whatever was done to the database, provided the hash has no collision among
  their rows; and when no field contains the separator, the same seven fields.\<close>

theorem audit_tamper_evident:
  assumes "\<forall>x. bar_free (au_sha256hex env x)" and "\<forall>x. bar_free (au_to_base64 env x)"
    and "chain_ok env lg" and "chain_ok env lg'" and "length (al_events lg) = length (al_events lg')"
    and "al_last_hash lg = al_last_hash lg'"
    and "inj_on (au_sha256hex env) ((\<lambda>e. audit_payload (row_parts e)) ` (set (al_events lg) \<union> set (al_events lg')))"
  shows "map row_content (al_events lg) = map row_content (al_events lg')
    \<and> (list_all (\<lambda>e. list_all bar_free (payload_fields e)) (al_events lg @ al_events lg')
       \<longrightarrow> map payload_fields (al_events lg) = map payload_fields (al_events lg'))"
proof -
  have "map row_content (al_events lg) = map row_content (al_events lg')"
    by (rule chains_agree [of env ZERO_HASH 1]) (use assms in \<open>simp_all add: chain_ok_def bar_free_def ZERO_HASH_def\<close>)
  then show ?thesis using payloads_determine_fields by simp
qed


definition ex_run' :: "audit_op list" where
  "ex_run' = [Append_Op ''t'' ''A'' (Some []) None None None, Append_Op ''u'' ''B'' (Some ''p'') (Some []) None None, Prune_Op (Some 5) ''s'']"

lemma ex_env_bar_free: "\<forall>x. bar_free (au_sha256hex ex_env x)" "\<forall>x. bar_free (au_to_base64 ex_env x)"
  by (auto simp: ex_env_def bar_free_def no_bars_def)

abbreviation "ex_log ops \<equiv> audit_run ex_env ops (open_AuditLog [] [] 1)"

lemma ex_chains: "chain_ok ex_env (ex_log ex_run)" "chain_ok ex_env (ex_log ex_run')"
  using audit_run_ok [of ex_env "open_AuditLog [] [] 1"] by (auto simp: chain_ok_def open_AuditLog_def)

lemma image_same_map: "map g xs = map g ys \<Longrightarrow> g ` (set xs \<union> set ys) = set (map g xs)"
  by (metis image_Un set_map sup.idem)

lemma distinct_map_inj: "distinct (map (\<lambda>e. f (g e)) xs) \<Longrightarrow> inj_on f (set (map g xs))"
  by (auto simp: distinct_map inj_on_def)

theorem audit_tamper_evident_witness:
  "map row_content (al_events (ex_log ex_run)) = map row_content (al_events (ex_log ex_run'))
   \<and> al_events (ex_log ex_run) \<noteq> al_events (ex_log ex_run')"
proof -
  note eval = ex_run_def ex_run'_def ex_env_def audit_step_def append_event_def Let_def open_AuditLog_def
    prunePeerEventsOlderThan_def row_parts_def payload_fields_def audit_payload_def ZERO_HASH_def no_bars_def
  have ev: "length (al_events (ex_log ex_run)) = length (al_events (ex_log ex_run'))"
    "al_last_hash (ex_log ex_run) = al_last_hash (ex_log ex_run')"
    "al_events (ex_log ex_run) \<noteq> al_events (ex_log ex_run')"
    by (simp_all add: eval)
  have texts: "map (\<lambda>e. audit_payload (row_parts e)) (al_events (ex_log ex_run))
      = map (\<lambda>e. audit_payload (row_parts e)) (al_events (ex_log ex_run'))"
    "distinct (map (\<lambda>e. au_sha256hex ex_env (audit_payload (row_parts e))) (al_events (ex_log ex_run)))"
    by (simp_all add: eval)
  have "(\<lambda>e. audit_payload (row_parts e)) ` (set (al_events (ex_log ex_run)) \<union> set (al_events (ex_log ex_run')))
      = set (map (\<lambda>e. audit_payload (row_parts e)) (al_events (ex_log ex_run)))"
    by (rule image_same_map [OF texts(1)])
  moreover have "inj_on (au_sha256hex ex_env) (set (map (\<lambda>e. audit_payload (row_parts e)) (al_events (ex_log ex_run))))"
    by (rule distinct_map_inj) (rule texts(2))
  ultimately have ev4: "inj_on (au_sha256hex ex_env)
      ((\<lambda>e. audit_payload (row_parts e)) ` (set (al_events (ex_log ex_run)) \<union> set (al_events (ex_log ex_run'))))"
    by simp
  show ?thesis
    using audit_tamper_evident [OF ex_env_bar_free ex_chains ev(1,2) ev4] ev(3) by blast
qed

section \<open>Events of peers\<close>

lemma importPeerEvent_eq:
  "importPeerEvent env event key lg =
     (if ae_entry_hash event \<notin> set (map ae_entry_hash (al_peer_events lg))
         \<and> (key = None \<or> key = Some []
             \<or> au_verify env (the key) (audit_payload (payload_fields event)) (au_from_base64 env (ae_signature event)) = Some True)
      then (True, lg\<lparr>al_peer_events := al_peer_events lg @ [event\<lparr>ae_id := al_peer_next lg, ae_prev_hash := []\<rparr>],
                      al_peer_next := Suc (al_peer_next lg)\<rparr>)
      else (False, lg))"
proof -
  have "list_ex (\<lambda>e. ae_entry_hash e = ae_entry_hash event) (al_peer_events lg)
      \<longleftrightarrow> ae_entry_hash event \<in> set (map ae_entry_hash (al_peer_events lg))"
    by (auto simp: list_ex_iff intro: rev_image_eqI)
  then show ?thesis by (auto simp: importPeerEvent_def Let_def split: option.split list.split bool.split)
qed

definition peers_ok :: "audit_log \<Rightarrow> bool" where
  "peers_ok lg \<longleftrightarrow> distinct (map ae_entry_hash (al_peer_events lg)) \<and> distinct (map ae_id (al_peer_events lg))
     \<and> list_all (\<lambda>e. ae_id e < al_peer_next lg) (al_peer_events lg)"

lemma distinct_map_filter_keep: "distinct (map f xs) \<Longrightarrow> distinct (map f (filter p xs))"
  by (induction xs) auto

lemma audit_step_peers_ok:
  assumes "peers_ok lg" shows "peers_ok (audit_step env op lg)"
proof (cases op)
  case (Import_Op e key)
  then show ?thesis using assms
    by (auto simp: audit_step_def importPeerEvent_eq peers_ok_def list_all_iff less_Suc_eq)
next
  case (Prune_Op age cut)
  then show ?thesis using assms
    by (auto simp: audit_step_def prunePeerEventsOlderThan_def Let_def peers_ok_def distinct_map_filter_keep list_all_iff
        split: option.split)
qed (use assms in \<open>simp_all add: audit_step_def peers_ok_def append_event_def Let_def open_AuditLog_def\<close>)

lemma audit_run_peers_ok: "peers_ok lg \<Longrightarrow> peers_ok (audit_run env ops lg)"
  by (induction ops arbitrary: lg) (simp_all add: audit_step_peers_ok)

lemma chain_signature:
  "chain_from env n p es \<Longrightarrow> e \<in> set es \<Longrightarrow>
     ae_signature e = au_to_base64 env (au_sign env (audit_payload (payload_fields e)))"
  by (induction es arbitrary: n p) auto

text \<open>Peer events: an import is accepted exactly when no stored event has the same hash and, when the sender's key
  is known, the signature verifies over the seven fields (a check that throws rejects); a rejected import changes
  nothing, an accepted one adds one row to the peer table only. In every run hashes and ids of peer rows stay unique. A
  node accepts every event that another node's log offers for synchronisation, when it does not have its hash yet.\<close>

theorem peer_event_import:
  "(fst (importPeerEvent env event key lg) \<longleftrightarrow>
      ae_entry_hash event \<notin> set (map ae_entry_hash (al_peer_events lg))
      \<and> (key = None \<or> key = Some []
          \<or> au_verify env (the key) (audit_payload (payload_fields event)) (au_from_base64 env (ae_signature event)) = Some True))
   \<and> (\<not> fst (importPeerEvent env event key lg) \<longrightarrow> snd (importPeerEvent env event key lg) = lg)
   \<and> al_events (snd (importPeerEvent env event key lg)) = al_events lg
   \<and> (fst (importPeerEvent env event key lg) \<longrightarrow>
        al_peer_events (snd (importPeerEvent env event key lg))
        = al_peer_events lg @ [event\<lparr>ae_id := al_peer_next lg, ae_prev_hash := []\<rparr>])
   \<and> peers_ok (audit_run env ops (open_AuditLog [] [] 1))
   \<and> (chain_ok sender there \<and> e \<in> set (getRecentForSync n there)
      \<and> (\<forall>m. au_verify env pk m (au_from_base64 env (au_to_base64 sender (au_sign sender m))) = Some True) \<longrightarrow>
        (fst (importPeerEvent env e (Some pk) lg) \<longleftrightarrow> ae_entry_hash e \<notin> set (map ae_entry_hash (al_peer_events lg))))"
proof -
  have "au_verify env pk (audit_payload (payload_fields e)) (au_from_base64 env (ae_signature e)) = Some True"
    if chain: "chain_ok sender there" and e: "e \<in> set (getRecentForSync n there)"
      and ver: "\<forall>m. au_verify env pk m (au_from_base64 env (au_to_base64 sender (au_sign sender m))) = Some True"
  proof -
    obtain e0 where e0: "e0 \<in> set (al_events there)" "e = e0\<lparr>ae_id := 0, ae_prev_hash := []\<rparr>"
      using e by (auto simp: getRecentForSync_def dest: in_set_takeD)
    then have "payload_fields e = payload_fields e0" "ae_signature e = ae_signature e0"
      by (simp_all add: payload_fields_def)
    then show ?thesis using chain_signature [of sender 1 ZERO_HASH "al_events there" e0] chain ver e0(1) by (simp add: chain_ok_def)
  qed
  moreover have "peers_ok (audit_run env ops (open_AuditLog [] [] 1))"
    by (rule audit_run_peers_ok) (simp add: peers_ok_def open_AuditLog_def)
  ultimately show ?thesis unfolding importPeerEvent_eq by (cases "ae_entry_hash event \<in> set (map ae_entry_hash (al_peer_events lg))") simp_all
qed

theorem peer_event_import_witness:
  "fst (importPeerEvent ex_env (hd (getRecentForSync 1 (ex_log ex_run))) (Some ''k'') (open_AuditLog [] [] 1))"
proof -
  have "getRecentForSync 1 (ex_log ex_run) \<noteq> []"
    by (simp add: getRecentForSync_def ex_run_def audit_step_def append_event_def Let_def open_AuditLog_def)
  then have "hd (getRecentForSync 1 (ex_log ex_run)) \<in> set (getRecentForSync 1 (ex_log ex_run))" by simp
  moreover have "\<forall>m. au_verify ex_env ''k'' m (au_from_base64 ex_env (au_to_base64 ex_env (au_sign ex_env m))) = Some True"
    by (simp add: ex_env_def no_bars_twice)
  ultimately have "fst (importPeerEvent ex_env (hd (getRecentForSync 1 (ex_log ex_run))) (Some ''k'') (open_AuditLog [] [] 1))
    \<longleftrightarrow> ae_entry_hash (hd (getRecentForSync 1 (ex_log ex_run))) \<notin> set (map ae_entry_hash (al_peer_events (open_AuditLog [] [] 1)))"
    using peer_event_import [of ex_env "hd (al_events (ex_log ex_run))" None "open_AuditLog [] [] 1" "[]" ex_env "ex_log ex_run"
        "hd (getRecentForSync 1 (ex_log ex_run))" 1 "''k''"] ex_chains(1)
    by blast
  then show ?thesis by (simp add: open_AuditLog_def)
qed

section \<open>The CSV export\<close>

text \<open>What a reader of comma-separated values with quoted cells gets from a line.\<close>

fun csv_read :: "bool \<Rightarrow> string \<Rightarrow> string \<Rightarrow> string list" where
  "csv_read quoted acc [] = [rev acc]"
| "csv_read False acc (c # cs) =
     (if c = CHR '','' then rev acc # csv_read False [] cs
      else if c = CHR 0x22 then csv_read True acc cs
      else csv_read False (c # acc) cs)"
| "csv_read True acc (c # cs) =
     (if c = CHR 0x22
      then (case cs of
              [] \<Rightarrow> csv_read False acc []
            | d # ds \<Rightarrow> if d = CHR 0x22 then csv_read True (d # acc) ds else csv_read False acc (d # ds))
      else csv_read True (c # acc) cs)"

definition defused :: "string \<Rightarrow> string" where
  "defused v = (case v of c # _ \<Rightarrow> if formula_start c then CHR 0x27 # v else v | [] \<Rightarrow> v)"

lemma csv_read_plain:
  "CHR '','' \<notin> set v \<Longrightarrow> CHR 0x22 \<notin> set v \<Longrightarrow>
     csv_read False acc (v @ CHR '','' # rest) = rev (rev v @ acc) # csv_read False [] rest
     \<and> csv_read False acc v = [rev (rev v @ acc)]"
  by (induction v arbitrary: acc) auto

lemma csv_read_doubled:
  "rest = [] \<or> hd rest \<noteq> CHR 0x22 \<Longrightarrow>
     csv_read True acc (double_quotes v @ CHR 0x22 # rest) = csv_read False (rev v @ acc) rest"
proof (induction v arbitrary: acc)
  case Nil
  then show ?case by (cases rest) auto
qed auto

lemma sanitized_eq: "sanitizeCsvCell v = CHR 0x22 # double_quotes (defused v) @ [CHR 0x22]"
  by (cases v) (auto simp: sanitizeCsvCell_def Let_def defused_def formula_start_def)

lemma csv_read_cell:
  "csv_read False [] (sanitizeCsvCell v @ CHR '','' # rest) = defused v # csv_read False [] rest"
  using csv_read_doubled [of "CHR '','' # rest" "[]" "defused v"] by (simp add: sanitized_eq)

definition unquoted :: "string \<Rightarrow> bool" where
  "unquoted v \<longleftrightarrow> CHR '','' \<notin> set v \<and> CHR 0x22 \<notin> set v"

text \<open>The CSV line of an event reads back as its eleven columns, whatever quotes and commas the free texts hold, and
  no free text reads back as a cell that starts with a formula character: such a text is read with an apostrophe in
  front, every other text unchanged. The id, the time stamp, the signature and the hashes are written without quotes and
  must be free of commas and quotes.\<close>

theorem csv_export_safe:
  assumes "list_all unquoted [show_id (ae_id e), ae_timestamp e, ae_signature e, ae_prev_hash e, ae_entry_hash e]"
  shows "csv_read False [] (csv_row show_id e) =
      [show_id (ae_id e), ae_timestamp e, defused (ae_event_type e), defused (ae_agent_id e), defused (or_empty (ae_peer_id e)),
       defused (or_empty (ae_details e)), defused (or_empty (ae_entity_type e)), defused (or_empty (ae_entity_id e)),
       ae_signature e, ae_prev_hash e, ae_entry_hash e]
    \<and> (defused v = [] \<or> \<not> formula_start (hd (defused v)))"
  using assms by (auto simp: csv_row_def unquoted_def csv_read_plain csv_read_cell defused_def formula_start_def split: list.split)

theorem csv_export_safe_witness:
  "csv_read False [] (csv_row (\<lambda>_. ''7'') ((hd (al_events (ex_log ex_run)))\<lparr>ae_details := Some ''=1,''\<rparr>))
   = [''7'', ''t'', ''A'', ''n'', [], CHR 0x27 # ''=1,'', [], [],
      ''t/A/n////'', ZERO_HASH, ''t/A/n/////t/A/n/////'' @ ZERO_HASH]"
proof -
  let ?e = "(hd (al_events (ex_log ex_run)))\<lparr>ae_details := Some ''=1,''\<rparr>"
  have ev: "ae_timestamp ?e = ''t''" "ae_event_type ?e = ''A''" "ae_agent_id ?e = ''n''" "ae_peer_id ?e = None"
    "ae_entity_type ?e = None" "ae_entity_id ?e = None" "ae_prev_hash ?e = ZERO_HASH" "ae_signature ?e = ''t/A/n////''"
    "ae_entry_hash ?e = ''t/A/n/////t/A/n/////'' @ ZERO_HASH"
    by (simp_all add: ex_run_def ex_env_def audit_step_def append_event_def Let_def open_AuditLog_def audit_payload_def
        no_bars_def ZERO_HASH_def)
  have "list_all unquoted [''7'', ae_timestamp ?e, ae_signature ?e, ae_prev_hash ?e, ae_entry_hash ?e]"
    unfolding ev by (simp add: unquoted_def ZERO_HASH_def)
  then have "csv_read False [] (csv_row (\<lambda>_. ''7'') ?e) =
      [''7'', ae_timestamp ?e, defused (ae_event_type ?e), defused (ae_agent_id ?e), defused (or_empty (ae_peer_id ?e)),
       defused (or_empty (ae_details ?e)), defused (or_empty (ae_entity_type ?e)), defused (or_empty (ae_entity_id ?e)),
       ae_signature ?e, ae_prev_hash ?e, ae_entry_hash ?e]"
    by (rule csv_export_safe [of "\<lambda>_. ''7''" ?e, THEN conjunct1])
  then show ?thesis unfolding ev by (simp add: defused_def formula_start_def)
qed

text \<open>The separator is not escaped: two events that differ in where a bar falls carry the same signature.\<close>

lemma payload_ambiguous:
  "let e = (hd (al_events (ex_log ex_run)))\<lparr>ae_peer_id := Some ''a|b'', ae_details := Some ''c''\<rparr>;
       f = e\<lparr>ae_peer_id := Some ''a'', ae_details := Some ''b|c''\<rparr>
   in payload_fields e \<noteq> payload_fields f \<and> audit_payload (payload_fields e) = audit_payload (payload_fields f)"
  by (simp add: Let_def payload_fields_def audit_payload_def)

text \<open>The hash of an imported event is neither signed nor recomputed: an event whose signature verifies is accepted again
  under every new hash, and a stored event that claims a hash blocks the event it belongs to.\<close>

lemma import_hash_unchecked:
  assumes "au_verify env pk (audit_payload (payload_fields e)) (au_from_base64 env (ae_signature e)) = Some True"
    and "h \<notin> set (map ae_entry_hash (al_peer_events lg))" and "pk \<noteq> []"
  shows "fst (importPeerEvent env (e\<lparr>ae_entry_hash := h\<rparr>) (Some pk) lg)"
    and "\<not> fst (importPeerEvent env (f\<lparr>ae_entry_hash := h\<rparr>) key' (snd (importPeerEvent env (e\<lparr>ae_entry_hash := h\<rparr>) (Some pk) lg)))"
  using assms by (auto simp: importPeerEvent_eq payload_fields_def)

end
