(* ===== verification/Replay_Wake.thy ===== *)
theory Replay_Wake
  imports Prelude
begin

text \<open>
  Two gates that let one event per key and time window through: the replay guard of signed messages,
  \<open>packages/daemon/src/replay.ts\<close>, and the coalescing of wake-up calls, \<open>wake-contract.ts\<close>. Both
  interpret the contract \<open>window_gate\<close>. The clock is an argument; timers become explicit clean-up events.
\<close>

section \<open>The replay guard\<close>

type_synonym replay_guard = "(string, time) jsmap"

definition replay_key :: "string \<Rightarrow> string \<Rightarrow> string" where
  "replay_key sender idempotencyKey = sender @ '':'' @ idempotencyKey"

definition check_seen :: "string \<Rightarrow> int \<Rightarrow> time \<Rightarrow> replay_guard \<Rightarrow> bool \<times> replay_guard" where
  "check_seen key ttlMs now seen =
     (if (case m_get seen key of None \<Rightarrow> False | Some seenAt \<Rightarrow> now - seenAt < ttlMs) then (True, seen)
      else (False, m_set key now seen))"

definition isReplay :: "string \<Rightarrow> string \<Rightarrow> int \<Rightarrow> time \<Rightarrow> replay_guard \<Rightarrow> bool \<times> replay_guard" where
  "isReplay sender idempotencyKey ttlMs now seen = check_seen (replay_key sender idempotencyKey) ttlMs now seen"

definition cleanup :: "time \<Rightarrow> replay_guard \<Rightarrow> replay_guard" where
  "cleanup now seen = m_filter (\<lambda>_ timestamp. \<not> timestamp < now - 120000) seen"

text \<open>What a guard sees: messages and runs of the clean-up timer. \<open>accepted\<close> lists what it lets through.\<close>

datatype guard_event = Message string string int time | Cleanup time

fun event_time :: "guard_event \<Rightarrow> time" where
  "event_time (Message _ _ _ t) = t"
| "event_time (Cleanup t) = t"

fun accepted :: "guard_event list \<Rightarrow> replay_guard \<Rightarrow> (string \<times> time) list" where
  "accepted [] seen = []"
| "accepted (Cleanup t # es) seen = accepted es (cleanup t seen)"
| "accepted (Message sender idem ttl t # es) seen =
     (case isReplay sender idem ttl t seen of
        (True, seen') \<Rightarrow> accepted es seen'
      | (False, seen') \<Rightarrow> (replay_key sender idem, t) # accepted es seen')"

text \<open>A guard remembers for two minutes at most, so a longer TTL is not covered.\<close>

interpretation replay_gate: window_gate
  "\<lambda>key now seen. (\<not> fst (check_seen key (ttl key) now seen), snd (check_seen key (ttl key) now seen))"
  cleanup m_get "\<lambda>key. min (ttl key) 120000" m_inv
  for ttl :: "string \<Rightarrow> int"
proof
  show "m_inv s \<Longrightarrow> m_inv (snd (\<not> fst (check_seen k (ttl k) t s), snd (check_seen k (ttl k) t s)))" for s k t
    by (simp add: check_seen_def)
  show "m_inv s \<Longrightarrow> m_inv (cleanup t s)" for s t
    by (simp add: cleanup_def)
qed (auto simp: check_seen_def cleanup_def split: option.splits if_splits)

fun gate_event :: "guard_event \<Rightarrow> string option \<times> time" where
  "gate_event (Message sender idem _ t) = (Some (replay_key sender idem), t)"
| "gate_event (Cleanup t) = (None, t)"

definition ttl_fixed :: "(string \<Rightarrow> int) \<Rightarrow> guard_event list \<Rightarrow> bool" where
  "ttl_fixed ttl es \<longleftrightarrow> (\<forall>sender idem x t. Message sender idem x t \<in> set es \<longrightarrow> x = ttl (replay_key sender idem))"

lemma accepted_passes:
  "ttl_fixed ttl es \<Longrightarrow> accepted es seen = replay_gate.passes ttl (map gate_event es) seen"
proof (induction es seen rule: accepted.induct)
  case (3 sender idem x t es seen)
  have "x = ttl (replay_key sender idem)" "ttl_fixed ttl es"
    using "3.prems" by (auto simp: ttl_fixed_def)
  with "3.IH" show ?case
    by (cases "fst (check_seen (replay_key sender idem) x t seen)")
       (auto simp: isReplay_def split: prod.splits bool.splits)
qed (auto simp: ttl_fixed_def)

section \<open>Wake-up calls\<close>

record wake_signal =
  ws_instance_id :: string
  ws_spiffe_uri :: string

text \<open>The only reason today is \<open>inbox\<close>; a signal carries nothing else but the address.\<close>

definition resolveWakeTargets :: "string option \<Rightarrow> string list \<Rightarrow> string list" where
  "resolveWakeTargets targetInstance liveInstanceIds =
     (case targetInstance of
        None \<Rightarrow> []
      | Some i \<Rightarrow> if i = [] then [] else if i \<in> set liveInstanceIds then [i] else [])"

definition DEFAULT_WAKE_COALESCE_MS :: int where "DEFAULT_WAKE_COALESCE_MS = 2000"

definition shouldWake :: "int \<Rightarrow> string \<Rightarrow> time \<Rightarrow> (string, time) jsmap \<Rightarrow> bool \<times> (string, time) jsmap" where
  "shouldWake windowMs instanceId nowMs recent =
     (if (case m_get recent instanceId of None \<Rightarrow> False | Some prev \<Rightarrow> nowMs - prev < windowMs) then (False, recent)
      else (True, m_filter (\<lambda>_ t. \<not> nowMs - t \<ge> windowMs) (m_set instanceId nowMs recent)))"

fun wake_loop :: "int \<Rightarrow> string list \<Rightarrow> time \<Rightarrow> (string, time) jsmap \<Rightarrow> string list \<times> (string, time) jsmap" where
  "wake_loop windowMs [] nowMs recent = ([], recent)"
| "wake_loop windowMs (i # is) nowMs recent =
     (case shouldWake windowMs i nowMs recent of
        (wake, recent') \<Rightarrow>
          (case wake_loop windowMs is nowMs recent' of
             (out, recent'') \<Rightarrow> ((if wake then [i] else []) @ out, recent'')))"

definition computeWakes ::
  "int \<Rightarrow> string option \<Rightarrow> string list \<Rightarrow> time \<Rightarrow> (string, time) jsmap \<Rightarrow> string list \<times> (string, time) jsmap" where
  "computeWakes windowMs targetInstance liveInstanceIds nowMs recent =
     wake_loop windowMs (resolveWakeTargets targetInstance liveInstanceIds) nowMs recent"

text \<open>The subscriber of \<open>inbox:new\<close>: the events it emits and the coalescer afterwards.\<close>

definition on_inbox_new ::
  "int \<Rightarrow> (string \<Rightarrow> string option) \<Rightarrow> json \<Rightarrow> string list \<Rightarrow> time \<Rightarrow> (string, time) jsmap \<Rightarrow>
   wake_signal list \<times> (string, time) jsmap" where
  "on_inbox_new windowMs resolveSpiffe to_agent_instance live now recent =
     (let targetInstance = (case as_str to_agent_instance of None \<Rightarrow> None | Some s \<Rightarrow> if s = [] then None else Some s) in
      if (case targetInstance of None \<Rightarrow> False | Some i \<Rightarrow> i \<notin> set live) then ([], recent)
      else
        (case computeWakes windowMs targetInstance live now recent of
           (wakes, recent') \<Rightarrow>
             (List.map_filter (\<lambda>i. case resolveSpiffe i of None \<Rightarrow> None
                | Some u \<Rightarrow> if u = [] then None else Some \<lparr>ws_instance_id = i, ws_spiffe_uri = u\<rparr>) wakes,
              recent')))"

interpretation wake_gate: window_gate "shouldWake windowMs" "\<lambda>_ recent. recent" m_get "\<lambda>_. windowMs" m_inv
  for windowMs :: int
proof
  show "m_inv s \<Longrightarrow> m_inv (snd (shouldWake windowMs k t s))" for s k t
    by (simp add: shouldWake_def)
qed (auto simp: shouldWake_def split: option.splits if_splits)

text \<open>A sequence of messages, each with its target, the live instances and the time: the wakes and when.\<close>

fun wake_run :: "int \<Rightarrow> (string option \<times> string list \<times> time) list \<Rightarrow> (string, time) jsmap \<Rightarrow> (string \<times> time) list" where
  "wake_run windowMs [] recent = []"
| "wake_run windowMs ((target, live, now) # es) recent =
     (case computeWakes windowMs target live now recent of
        (out, recent') \<Rightarrow> map (\<lambda>i. (i, now)) out @ wake_run windowMs es recent')"

fun attempts :: "string option \<times> string list \<times> time \<Rightarrow> (string option \<times> time) list" where
  "attempts (target, live, now) = map (\<lambda>i. (Some i, now)) (resolveWakeTargets target live)"

lemma resolveWakeTargets_cases:
  "resolveWakeTargets target live =
     (if \<exists>i. target = Some i \<and> i \<noteq> [] \<and> i \<in> set live then [the target] else [])"
  by (auto simp: resolveWakeTargets_def split: option.splits)

lemma wake_run_passes:
  "wake_run windowMs es recent = wake_gate.passes windowMs (concat (map attempts es)) recent"
proof (induction windowMs es recent rule: wake_run.induct)
  case (2 windowMs target live now es recent)
  then show ?case
    by (cases "\<exists>i. target = Some i \<and> i \<noteq> [] \<and> i \<in> set live")
       (auto simp: computeWakes_def resolveWakeTargets_cases split: prod.splits)
qed simp

lemma sorted_attempts:
  "sorted (map (\<lambda>(_, _, t). t) es) \<Longrightarrow> sorted (map snd (concat (map attempts es)))"
proof (induction es)
  case (Cons e es)
  obtain target live now where e: "e = (target, live, now)" by (cases e)
  have "\<forall>x \<in> set (concat (map attempts es)). now \<le> snd x"
    using Cons.prems e by (force simp: split: prod.splits)
  with Cons e show ?case by (auto simp: resolveWakeTargets_cases)
qed simp

lemma on_inbox_new_emits:
  assumes "w \<in> set (fst (on_inbox_new windowMs resolveSpiffe to live now recent))"
  shows "to = JStr (ws_instance_id w) \<and> ws_instance_id w \<in> set live
    \<and> resolveSpiffe (ws_instance_id w) = Some (ws_spiffe_uri w) \<and> ws_spiffe_uri w \<noteq> []
    \<and> fst (shouldWake windowMs (ws_instance_id w) now recent)"
  using assms
  by (auto simp: on_inbox_new_def Let_def computeWakes_def resolveWakeTargets_def map_filter_def
        split: option.splits if_splits prod.splits dest: as_str_Some [THEN iffD1])

section \<open>Properties\<close>

text \<open>
  C9. Replay protection: over any time-ordered sequence of messages and clean-up runs, in which a message
  always carries the TTL it was signed with, two accepted deliveries under one key (sender and idempotency
  key) are at least the TTL apart, or two minutes if the TTL is longer. In particular a message is accepted
  at most once within its TTL when that is positive and at most two minutes.
\<close>

theorem replays_rejected:
  assumes "sorted (map event_time es)" and "ttl_fixed ttl es"
    and "i < j" and "j < length (accepted es [])"
    and "accepted es [] ! i = (key, t)" and "accepted es [] ! j = (key, t')" and "0 < ttl key"
  shows "min (ttl key) 120000 \<le> t' - t"
proof -
  have "map snd (map gate_event es) = map event_time es"
  proof -
    have "snd (gate_event e) = event_time e" for e by (cases e) auto
    then show ?thesis by simp
  qed
  then have "sorted (map snd (map gate_event es))" using assms(1) by (simp only:)
  then show ?thesis
    using replay_gate.passes_spaced [of "[]" "map gate_event es" ttl key i j t t'] assms(3-)
    unfolding accepted_passes [OF assms(2)] by simp
qed

theorem replays_rejected_witness:
  "accepted [Message ''a'' ''1'' 60000 0, Message ''a'' ''1'' 60000 30000, Cleanup 31000,
     Message ''a'' ''1'' 60000 60000] [] = [(''a:1'', 0), (''a:1'', 60000)]
   \<and> min (60000 :: int) 120000 \<le> 60000 - 0"
proof -
  let ?es = "[Message ''a'' ''1'' 60000 0, Message ''a'' ''1'' 60000 30000, Cleanup 31000,
     Message ''a'' ''1'' 60000 60000]"
  have acc: "accepted ?es [] = [(''a:1'', 0), (''a:1'', 60000)]"
    by (simp add: isReplay_def check_seen_def replay_key_def cleanup_def m_filter_def)
  have "min ((\<lambda>_. 60000 :: int) ''a:1'') 120000 \<le> 60000 - 0"
    by (rule replays_rejected [where es = ?es and i = 0 and j = 1])
       (simp_all only: acc, simp_all add: ttl_fixed_def)
  with acc show ?thesis by simp
qed

text \<open>With a TTL above two minutes, a clean-up run makes the guard forget a message whose TTL still runs.\<close>

lemma long_ttl_replayed:
  "accepted [Message ''a'' ''1'' 300000 0, Cleanup 121000, Message ''a'' ''1'' 300000 122000] []
     = [(''a:1'', 0), (''a:1'', 122000)]"
  by (simp add: isReplay_def check_seen_def replay_key_def cleanup_def m_filter_def)

text \<open>
  Wake-up calls are directed and rate limited: the subscriber emits only a wake for the live instance
  a message is addressed to, with its SPIFFE URI, never a broadcast, at most one per message; and over any
  time-ordered sequence of attempts two wakes of one instance are at least the window apart.
\<close>

theorem wakes_directed_and_spaced:
  assumes "0 < windowMs" and "sorted (map (\<lambda>(_, _, t). t) es)"
  shows "(\<forall>w \<in> set (fst (on_inbox_new windowMs resolveSpiffe to live now recent)).
       to = JStr (ws_instance_id w) \<and> ws_instance_id w \<in> set live
       \<and> resolveSpiffe (ws_instance_id w) = Some (ws_spiffe_uri w))
    \<and> length (fst (on_inbox_new windowMs resolveSpiffe to live now recent)) \<le> 1
    \<and> (\<forall>i j k t t'. i < j \<longrightarrow> j < length (wake_run windowMs es []) \<longrightarrow>
         wake_run windowMs es [] ! i = (k, t) \<longrightarrow> wake_run windowMs es [] ! j = (k, t') \<longrightarrow> windowMs \<le> t' - t)"
proof (intro conjI)
  show "length (fst (on_inbox_new windowMs resolveSpiffe to live now recent)) \<le> 1"
    by (auto simp: on_inbox_new_def Let_def computeWakes_def resolveWakeTargets_cases map_filter_def
          split: option.splits prod.splits)
  show "\<forall>i j k t t'. i < j \<longrightarrow> j < length (wake_run windowMs es []) \<longrightarrow>
         wake_run windowMs es [] ! i = (k, t) \<longrightarrow> wake_run windowMs es [] ! j = (k, t') \<longrightarrow> windowMs \<le> t' - t"
    unfolding wake_run_passes
    using wake_gate.passes_spaced [OF m_inv_Nil sorted_attempts [OF assms(2)] assms(1)] by blast
qed (use on_inbox_new_emits in blast)

theorem wakes_directed_and_spaced_witness:
  "fst (on_inbox_new 2000 (\<lambda>_. Some ''spiffe://x'') (JStr ''i1'') [''i0'', ''i1''] 5 []) \<noteq> []
   \<and> list_all (\<lambda>w. ws_instance_id w = ''i1'') (fst (on_inbox_new 2000 (\<lambda>_. Some ''spiffe://x'') (JStr ''i1'') [''i0'', ''i1''] 5 []))"
proof -
  have "fst (on_inbox_new 2000 (\<lambda>_. Some ''spiffe://x'') (JStr ''i1'') [''i0'', ''i1''] 5 []) \<noteq> []"
    by code_simp
  moreover have "\<forall>w \<in> set (fst (on_inbox_new 2000 (\<lambda>_. Some ''spiffe://x'') (JStr ''i1'') [''i0'', ''i1''] 5 [])).
      JStr ''i1'' = JStr (ws_instance_id w)"
    using wakes_directed_and_spaced [of 2000 "[]" "\<lambda>_. Some ''spiffe://x''" "JStr ''i1''" "[''i0'', ''i1'']" 5 "[]"] by simp
  ultimately show ?thesis by (auto simp: list_all_iff)
qed

end
