(* ===== verification/Agent_Registry.thy ===== *)
theory Agent_Registry
  imports Identity Replay_Wake "HOL-Library.List_Lexorder" "HOL-Library.Char_ord"
begin

text \<open>
  The registry of the local agent instances (\<open>agent-registry.ts\<close>), its REST routes (\<open>agent-api.ts\<close>) and the
  reconciliation sweep that wakes an instance with unread mail when it registers (\<open>sweep-targets.ts\<close>,
  \<open>sweep-wiring.ts\<close>). The registry's listeners run in the order the daemon adds them: the sweep, when the environment
  enables it, then the audit of stale instances. Factors and limits are finite numbers where the code does not test
  for finiteness.
\<close>

section \<open>The registry\<close>

record agent_entry =
  ag_instanceId :: string
  ag_agentType :: string
  ag_spiffeUri :: string
  ag_pid :: "int option"
  ag_cliVersion :: "string option"
  ag_registeredAt :: time
  ag_lastHeartbeatAt :: time

record agent_registry =
  rg_entries :: "(string, agent_entry) jsmap"
  rg_heartbeatIntervalMs :: rat
  rg_staleFactor :: rat
  rg_maxEntries :: rat
  rg_timer :: bool

datatype registry_range_error = IntervalRange | FactorRange | MaxEntriesRange

definition new_AgentRegistry ::
  "jsnum \<Rightarrow> rat option \<Rightarrow> jsnum option \<Rightarrow> registry_range_error + agent_registry" where
  "new_AgentRegistry interval factor maxEntries =
     (case interval of
        NonFinite \<Rightarrow> Inl IntervalRange
      | Num iv \<Rightarrow>
          if iv \<le> 0 then Inl IntervalRange
          else let f = default_to 3 factor in
            if f < 1 then Inl FactorRange
            else case default_to (Num 1000) maxEntries of
              NonFinite \<Rightarrow> Inl MaxEntriesRange
            | Num m \<Rightarrow>
                if m < 1 then Inl MaxEntriesRange
                else Inr \<lparr>rg_entries = [], rg_heartbeatIntervalMs = iv, rg_staleFactor = f, rg_maxEntries = m, rg_timer = False\<rparr>)"

definition start_registry :: "agent_registry \<Rightarrow> agent_registry" where
  "start_registry reg = reg\<lparr>rg_timer := True\<rparr>"

definition stop_registry :: "agent_registry \<Rightarrow> agent_registry" where
  "stop_registry reg = reg\<lparr>rg_timer := False\<rparr>"

datatype registry_reason = RegisterEvent | UnregisterEvent | StaleEvent

type_synonym registry_event = "registry_reason \<times> agent_entry"

record register_input =
  ri_instanceId :: string
  ri_agentType :: string
  ri_spiffeUri :: string
  ri_pid :: "int option"
  ri_cliVersion :: "string option"

text \<open>The result is the entry, or \<open>None\<close> for the error of a full registry; with it the emitted events.\<close>

definition register_agent ::
  "time \<Rightarrow> register_input \<Rightarrow> agent_registry \<Rightarrow> agent_entry option \<times> registry_event list \<times> agent_registry" where
  "register_agent now input reg =
     (case m_get (rg_entries reg) (ri_instanceId input) of
        Some existing \<Rightarrow>
          let e = existing\<lparr>ag_lastHeartbeatAt := now\<rparr>
          in (Some e, [], reg\<lparr>rg_entries := m_set (ri_instanceId input) e (rg_entries reg)\<rparr>)
      | None \<Rightarrow>
          if rg_maxEntries reg \<le> of_nat (length (rg_entries reg)) then (None, [], reg)
          else let e = \<lparr>ag_instanceId = ri_instanceId input, ag_agentType = ri_agentType input,
                        ag_spiffeUri = ri_spiffeUri input, ag_pid = ri_pid input, ag_cliVersion = ri_cliVersion input,
                        ag_registeredAt = now, ag_lastHeartbeatAt = now\<rparr>
               in (Some e, [(RegisterEvent, e)], reg\<lparr>rg_entries := m_set (ri_instanceId input) e (rg_entries reg)\<rparr>))"

definition heartbeat :: "time \<Rightarrow> string \<Rightarrow> agent_registry \<Rightarrow> agent_entry option \<times> agent_registry" where
  "heartbeat now instanceId reg =
     (case m_get (rg_entries reg) instanceId of
        None \<Rightarrow> (None, reg)
      | Some entry \<Rightarrow>
          let e = entry\<lparr>ag_lastHeartbeatAt := now\<rparr>
          in (Some e, reg\<lparr>rg_entries := m_set instanceId e (rg_entries reg)\<rparr>))"

definition unregister :: "string \<Rightarrow> agent_registry \<Rightarrow> agent_entry option \<times> registry_event list \<times> agent_registry" where
  "unregister instanceId reg =
     (case m_get (rg_entries reg) instanceId of
        None \<Rightarrow> (None, [], reg)
      | Some entry \<Rightarrow>
          (Some entry, [(UnregisterEvent, entry)], reg\<lparr>rg_entries := m_del instanceId (rg_entries reg)\<rparr>))"

definition get_agent :: "string \<Rightarrow> agent_registry \<Rightarrow> agent_entry option" where
  "get_agent instanceId reg = m_get (rg_entries reg) instanceId"

definition list_agents :: "agent_registry \<Rightarrow> agent_entry list" where
  "list_agents reg = m_vals (rg_entries reg)"

definition registry_size :: "agent_registry \<Rightarrow> nat" where
  "registry_size reg = length (rg_entries reg)"

definition is_stale :: "time \<Rightarrow> agent_registry \<Rightarrow> agent_entry \<Rightarrow> bool" where
  "is_stale now reg e \<longleftrightarrow> rg_heartbeatIntervalMs reg * rg_staleFactor reg < of_int (now - ag_lastHeartbeatAt e)"

definition sweep_agents :: "time \<Rightarrow> agent_registry \<Rightarrow> agent_entry list \<times> registry_event list \<times> agent_registry" where
  "sweep_agents now reg =
     (let evicted = filter (is_stale now reg) (m_vals (rg_entries reg))
      in (evicted, map (Pair StaleEvent) evicted,
          reg\<lparr>rg_entries := m_filter (\<lambda>_ e. \<not> is_stale now reg e) (rg_entries reg)\<rparr>))"

section \<open>The reconciliation sweep\<close>

record sweep_target =
  st_instanceId :: string
  st_spiffeUri :: string
  st_unread :: rat

text \<open>The live instances as pairs of id and URI; \<open>unreadFor\<close> gives \<open>None\<close> when the counter throws.\<close>

fun sweep_collect :: "(string \<Rightarrow> jsnum option) \<Rightarrow> string list \<Rightarrow> (string \<times> string) list \<Rightarrow> sweep_target list" where
  "sweep_collect unreadFor seen [] = []"
| "sweep_collect unreadFor seen ((i, u) # live) =
     (if i = [] \<or> u = [] \<or> i \<in> set seen then sweep_collect unreadFor seen live
      else case unreadFor i of
        Some (Num n) \<Rightarrow>
          if n \<le> 0 then sweep_collect unreadFor seen live
          else \<lparr>st_instanceId = i, st_spiffeUri = u, st_unread = n\<rparr> # sweep_collect unreadFor (i # seen) live
      | _ \<Rightarrow> sweep_collect unreadFor seen live)"

definition computeSweepTargets :: "(string \<times> string) list \<Rightarrow> (string \<Rightarrow> jsnum option) \<Rightarrow> sweep_target list" where
  "computeSweepTargets live unreadFor = sort_key st_instanceId (sweep_collect unreadFor [] live)"

record sweep_run =
  sr_candidates :: nat
  sr_woken :: "wake_signal list"

text \<open>\<open>bus_ok\<close> tells whether emitting a wake to an instance throws; the coalescer has recorded it by then.\<close>

fun emit_loop ::
  "int \<Rightarrow> (string \<Rightarrow> bool) \<Rightarrow> time \<Rightarrow> sweep_target list \<Rightarrow> (string, time) jsmap \<Rightarrow> wake_signal list \<times> (string, time) jsmap" where
  "emit_loop windowMs bus_ok now [] recent = ([], recent)"
| "emit_loop windowMs bus_ok now (t # ts) recent =
     (case shouldWake windowMs (st_instanceId t) now recent of
        (pass, recent1) \<Rightarrow>
          case emit_loop windowMs bus_ok now ts recent1 of
            (out, recent2) \<Rightarrow>
              ((if pass \<and> bus_ok (st_instanceId t)
                then [\<lparr>ws_instance_id = st_instanceId t, ws_spiffe_uri = st_spiffeUri t\<rparr>] else []) @ out, recent2))"

definition emitFor ::
  "int \<Rightarrow> (string \<Rightarrow> bool) \<Rightarrow> time \<Rightarrow> sweep_target list \<Rightarrow> (string, time) jsmap \<Rightarrow> sweep_run \<times> (string, time) jsmap" where
  "emitFor windowMs bus_ok now targets recent =
     (case emit_loop windowMs bus_ok now targets recent of
        (woken, recent') \<Rightarrow> (\<lparr>sr_candidates = length targets, sr_woken = woken\<rparr>, recent'))"

text \<open>The live list is \<open>None\<close> when reading the registry throws.\<close>

definition runReconciliationSweep ::
  "int \<Rightarrow> (string \<Rightarrow> bool) \<Rightarrow> (string \<Rightarrow> jsnum option) \<Rightarrow> time \<Rightarrow> (string \<times> string) list option \<Rightarrow>
   (string, time) jsmap \<Rightarrow> sweep_run \<times> (string, time) jsmap" where
  "runReconciliationSweep windowMs bus_ok unreadFor now live recent =
     (case live of
        None \<Rightarrow> (\<lparr>sr_candidates = 0, sr_woken = []\<rparr>, recent)
      | Some ls \<Rightarrow> emitFor windowMs bus_ok now (computeSweepTargets ls unreadFor) recent)"

definition sweepInstance ::
  "int \<Rightarrow> (string \<Rightarrow> bool) \<Rightarrow> (string \<Rightarrow> jsnum option) \<Rightarrow> time \<Rightarrow> string \<Rightarrow> (string \<times> string) list option \<Rightarrow>
   (string, time) jsmap \<Rightarrow> sweep_run \<times> (string, time) jsmap" where
  "sweepInstance windowMs bus_ok unreadFor now instanceId live recent =
     (case live of
        None \<Rightarrow> (\<lparr>sr_candidates = 0, sr_woken = []\<rparr>, recent)
      | Some ls \<Rightarrow>
          (case List.find (\<lambda>e. fst e = instanceId) ls of
             None \<Rightarrow> (\<lparr>sr_candidates = 0, sr_woken = []\<rparr>, recent)
           | Some entry \<Rightarrow> emitFor windowMs bus_ok now (computeSweepTargets [entry] unreadFor) recent))"

section \<open>The routes\<close>

datatype agent_error =
    LocalOnly | MissingBody | AgentTypeRequired | InstanceIdRequired | InstanceIdCharset | AgentTypeCharset
  | DaemonMisconfigured | RegisteredWithOtherType string | RegistryFull rat | UnknownInstance

datatype agent_reply =
    AgentError nat agent_error
  | RegisterOk (ro_spiffe: string) (ro_interval: rat) (ro_schema: nat)
  | HeartbeatOk
  | UnregisterOk bool
  | InstancesOk nat rat "agent_entry list"

record agent_env =
  ae_daemonSpiffeUri :: string
  ae_inboxSchemaVersion :: nat
  ae_sweep_enabled :: bool
  ae_coalesceMs :: int
  ae_bus_ok :: "string \<Rightarrow> bool"
  ae_unreadFor :: "string \<Rightarrow> jsnum option"

record agent_state =
  as_registry :: agent_registry
  as_audit :: "(string \<times> string \<times> string) list"
  as_recent :: "(string, time) jsmap"
  as_wakes :: "wake_signal list"

definition is_loopback :: "string \<Rightarrow> bool" where
  "is_loopback ip \<longleftrightarrow> ip = ''127.0.0.1'' \<or> ip = ''::1'' \<or> ip = ''::ffff:127.0.0.1''"

definition buildInstanceSpiffe :: "string \<Rightarrow> string \<Rightarrow> string \<Rightarrow> string option" where
  "buildInstanceSpiffe daemonSpiffeUri agentType instanceId =
     (case parseSpiffeUri daemonSpiffeUri of
        Inl _ \<Rightarrow> None
      | Inr parsed \<Rightarrow>
          (case buildInstanceUri (case parsed of ParsedNode p _ \<Rightarrow> p | ParsedHost n _ _ _ \<Rightarrow> n) agentType instanceId of
             Inl _ \<Rightarrow> None
           | Inr u \<Rightarrow> Some u))"

definition isNonEmptyString :: "json \<Rightarrow> string option" where
  "isNonEmptyString v = (case as_str v of None \<Rightarrow> None | Some s \<Rightarrow> if s \<noteq> [] \<and> length s \<le> 128 then Some s else None)"

definition add_audit :: "string \<Rightarrow> agent_entry \<Rightarrow> agent_state \<Rightarrow> agent_state" where
  "add_audit kind e s = s\<lparr>as_audit := as_audit s @ [(kind, ag_spiffeUri e, ag_instanceId e)]\<rparr>"

definition live_pairs :: "agent_registry \<Rightarrow> (string \<times> string) list" where
  "live_pairs reg = map (\<lambda>e. (ag_instanceId e, ag_spiffeUri e)) (list_agents reg)"

text \<open>What the two listeners do with one event of the registry, which has changed by then.\<close>

definition on_registry_event :: "agent_env \<Rightarrow> time \<Rightarrow> registry_event \<Rightarrow> agent_state \<Rightarrow> agent_state" where
  "on_registry_event env now ev s =
     (let s1 = (if ae_sweep_enabled env \<and> fst ev = RegisterEvent
                then case sweepInstance (ae_coalesceMs env) (ae_bus_ok env) (ae_unreadFor env) now (ag_instanceId (snd ev))
                            (Some (live_pairs (as_registry s))) (as_recent s) of
                       (r, recent') \<Rightarrow> s\<lparr>as_recent := recent', as_wakes := as_wakes s @ sr_woken r\<rparr>
                else s)
      in if fst ev = StaleEvent then add_audit ''AGENT_STALE'' (snd ev) s1 else s1)"

definition handle_register :: "agent_env \<Rightarrow> time \<Rightarrow> string \<Rightarrow> json \<Rightarrow> agent_state \<Rightarrow> agent_reply \<times> agent_state" where
  "handle_register env now ip body s =
     (if \<not> is_loopback ip then (AgentError 403 LocalOnly, s)
      else if as_obj body = None \<and> as_arr body = None then (AgentError 400 MissingBody, s)
      else case isNonEmptyString (json_prop body ''agent_type'') of
        None \<Rightarrow> (AgentError 400 AgentTypeRequired, s)
      | Some agentType \<Rightarrow>
          (case isNonEmptyString (json_prop body ''instance_id'') of
             None \<Rightarrow> (AgentError 400 InstanceIdRequired, s)
           | Some instanceId \<Rightarrow>
               if \<not> SPIFFE_COMPONENT_REGEX instanceId then (AgentError 400 InstanceIdCharset, s)
               else if \<not> SPIFFE_COMPONENT_REGEX agentType then (AgentError 400 AgentTypeCharset, s)
               else case buildInstanceSpiffe (ae_daemonSpiffeUri env) agentType instanceId of
                 None \<Rightarrow> (AgentError 500 DaemonMisconfigured, s)
               | Some spiffeUri \<Rightarrow>
                   let existing = get_agent instanceId (as_registry s) in
                   if (case existing of None \<Rightarrow> False | Some e \<Rightarrow> ag_agentType e \<noteq> agentType)
                   then (AgentError 409 (RegisteredWithOtherType (ag_agentType (the existing))), s)
                   else case register_agent now
                          \<lparr>ri_instanceId = instanceId, ri_agentType = agentType, ri_spiffeUri = spiffeUri,
                           ri_pid = (case json_prop body ''pid'' of JNum n \<Rightarrow> Some n | _ \<Rightarrow> None),
                           ri_cliVersion = isNonEmptyString (json_prop body ''cli_version'')\<rparr> (as_registry s) of
                     (None, _, _) \<Rightarrow> (AgentError 503 (RegistryFull (rg_maxEntries (as_registry s))), s)
                   | (Some entry, evs, reg) \<Rightarrow>
                       (RegisterOk (ag_spiffeUri entry) (rg_heartbeatIntervalMs reg) (ae_inboxSchemaVersion env),
                        add_audit ''AGENT_REGISTER'' entry (fold (on_registry_event env now) evs (s\<lparr>as_registry := reg\<rparr>)))))"

definition handle_heartbeat :: "agent_env \<Rightarrow> time \<Rightarrow> string \<Rightarrow> json \<Rightarrow> agent_state \<Rightarrow> agent_reply \<times> agent_state" where
  "handle_heartbeat env now ip body s =
     (if \<not> is_loopback ip then (AgentError 403 LocalOnly, s)
      else case isNonEmptyString (json_prop body ''instance_id'') of
        None \<Rightarrow> (AgentError 400 InstanceIdRequired, s)
      | Some instanceId \<Rightarrow>
          (case heartbeat now instanceId (as_registry s) of
             (None, _) \<Rightarrow> (AgentError 404 UnknownInstance, s)
           | (Some entry, reg) \<Rightarrow> (HeartbeatOk, add_audit ''AGENT_HEARTBEAT'' entry (s\<lparr>as_registry := reg\<rparr>))))"

definition handle_unregister :: "agent_env \<Rightarrow> time \<Rightarrow> string \<Rightarrow> json \<Rightarrow> agent_state \<Rightarrow> agent_reply \<times> agent_state" where
  "handle_unregister env now ip body s =
     (if \<not> is_loopback ip then (AgentError 403 LocalOnly, s)
      else case isNonEmptyString (json_prop body ''instance_id'') of
        None \<Rightarrow> (AgentError 400 InstanceIdRequired, s)
      | Some instanceId \<Rightarrow>
          (case unregister instanceId (as_registry s) of
             (removed, evs, reg) \<Rightarrow>
               (UnregisterOk (removed \<noteq> None),
                let s1 = fold (on_registry_event env now) evs (s\<lparr>as_registry := reg\<rparr>)
                in case removed of None \<Rightarrow> s1 | Some entry \<Rightarrow> add_audit ''AGENT_UNREGISTER'' entry s1)))"

definition handle_instances :: "string \<Rightarrow> agent_state \<Rightarrow> agent_reply" where
  "handle_instances ip s =
     (if \<not> is_loopback ip then AgentError 403 LocalOnly
      else InstancesOk (length (list_agents (as_registry s))) (rg_heartbeatIntervalMs (as_registry s)) (list_agents (as_registry s)))"

text \<open>The timer of the registry: the sweep, its events to the listeners.\<close>

definition handle_sweep :: "agent_env \<Rightarrow> time \<Rightarrow> agent_state \<Rightarrow> agent_state" where
  "handle_sweep env now s =
     (case sweep_agents now (as_registry s) of
        (_, evs, reg) \<Rightarrow> fold (on_registry_event env now) evs (s\<lparr>as_registry := reg\<rparr>))"

datatype agent_op =
    RegisterReq string json | HeartbeatReq string json | UnregisterReq string json | InstancesReq string | SweepTick

definition agent_step :: "agent_env \<Rightarrow> agent_op \<times> time \<Rightarrow> agent_state \<Rightarrow> agent_state" where
  "agent_step env op s =
     (case op of
        (RegisterReq ip body, now) \<Rightarrow> snd (handle_register env now ip body s)
      | (HeartbeatReq ip body, now) \<Rightarrow> snd (handle_heartbeat env now ip body s)
      | (UnregisterReq ip body, now) \<Rightarrow> snd (handle_unregister env now ip body s)
      | (InstancesReq ip, now) \<Rightarrow> s
      | (SweepTick, now) \<Rightarrow> handle_sweep env now s)"

abbreviation agent_run :: "agent_env \<Rightarrow> (agent_op \<times> time) list \<Rightarrow> agent_state \<Rightarrow> agent_state" where
  "agent_run env ops s \<equiv> fold (agent_step env) ops s"


section \<open>What the registry promises\<close>

text \<open>The part of an entry that never changes.\<close>

definition same_agent :: "agent_entry \<Rightarrow> agent_entry \<Rightarrow> bool" where
  "same_agent a b \<longleftrightarrow> b = a\<lparr>ag_lastHeartbeatAt := ag_lastHeartbeatAt b\<rparr>"

lemma same_agent_refl [simp]: "same_agent a a"
  by (simp add: same_agent_def)

lemma same_agent_beat [simp]: "same_agent a (a\<lparr>ag_lastHeartbeatAt := t\<rparr>)"
  by (simp add: same_agent_def)

lemma same_agent_fields:
  "same_agent a b \<Longrightarrow> ag_instanceId b = ag_instanceId a \<and> ag_agentType b = ag_agentType a \<and> ag_spiffeUri b = ag_spiffeUri a
     \<and> ag_pid b = ag_pid a \<and> ag_cliVersion b = ag_cliVersion a \<and> ag_registeredAt b = ag_registeredAt a"
  unfolding same_agent_def by (erule ssubst) simp

lemma same_agent_trans: "same_agent a b \<Longrightarrow> same_agent b c \<Longrightarrow> same_agent a c"
  by (cases a; cases b; cases c) (simp add: same_agent_def)

definition agent_wf :: "agent_env \<Rightarrow> agent_entry \<Rightarrow> bool" where
  "agent_wf env e \<longleftrightarrow> SPIFFE_COMPONENT_REGEX (ag_instanceId e) \<and> SPIFFE_COMPONENT_REGEX (ag_agentType e)
     \<and> length (ag_instanceId e) \<le> 128 \<and> length (ag_agentType e) \<le> 128
     \<and> buildInstanceSpiffe (ae_daemonSpiffeUri env) (ag_agentType e) (ag_instanceId e) = Some (ag_spiffeUri e)"

definition agents_inv :: "agent_env \<Rightarrow> agent_state \<Rightarrow> bool" where
  "agents_inv env s \<longleftrightarrow> m_inv (rg_entries (as_registry s))
     \<and> list_all (\<lambda>(k, e). k = ag_instanceId e \<and> agent_wf env e) (rg_entries (as_registry s))
     \<and> of_nat (registry_size (as_registry s)) < rg_maxEntries (as_registry s) + 1"

lemma on_registry_event_registry [simp]: "as_registry (on_registry_event env now ev s) = as_registry s"
  by (simp add: on_registry_event_def Let_def add_audit_def split: prod.split)

lemma events_registry [simp]: "as_registry (fold (on_registry_event env now) evs s) = as_registry s"
  by (induction evs arbitrary: s) simp_all

lemma add_audit_registry [simp]: "as_registry (add_audit kind e s) = as_registry s"
  by (simp add: add_audit_def)

lemma isNonEmptyString_Some:
  "isNonEmptyString v = Some x \<longleftrightarrow> v = JStr x \<and> x \<noteq> [] \<and> length x \<le> 128"
  by (auto simp: isNonEmptyString_def as_str_Some split: option.splits)

text \<open>What one step does to the registry.\<close>

datatype registry_change = Unchanged | Added agent_entry | Beaten string time | Removed string | Swept time

fun change_registry :: "registry_change \<Rightarrow> agent_registry \<Rightarrow> agent_registry" where
  "change_registry Unchanged reg = reg"
| "change_registry (Added e) reg = reg\<lparr>rg_entries := m_set (ag_instanceId e) e (rg_entries reg)\<rparr>"
| "change_registry (Beaten k now) reg =
     (case m_get (rg_entries reg) k of None \<Rightarrow> reg
      | Some e \<Rightarrow> reg\<lparr>rg_entries := m_set k (e\<lparr>ag_lastHeartbeatAt := now\<rparr>) (rg_entries reg)\<rparr>)"
| "change_registry (Removed k) reg = reg\<lparr>rg_entries := m_del k (rg_entries reg)\<rparr>"
| "change_registry (Swept now) reg = reg\<lparr>rg_entries := m_filter (\<lambda>_ e. \<not> is_stale now reg e) (rg_entries reg)\<rparr>"

text \<open>The change a request or a tick makes, with its conditions.\<close>

definition change_ok :: "agent_env \<Rightarrow> agent_op \<times> time \<Rightarrow> agent_state \<Rightarrow> registry_change \<Rightarrow> bool" where
  "change_ok env op s c \<longleftrightarrow>
     (case c of
        Unchanged \<Rightarrow> True
      | Added e \<Rightarrow> agent_wf env e \<and> ag_registeredAt e = snd op \<and> ag_lastHeartbeatAt e = snd op
          \<and> (\<exists>ip body. fst op = RegisterReq ip body \<and> is_loopback ip)
          \<and> get_agent (ag_instanceId e) (as_registry s) = None
          \<and> of_nat (registry_size (as_registry s)) < rg_maxEntries (as_registry s)
      | Beaten k now \<Rightarrow> now = snd op \<and> (\<exists>ip body. (fst op = HeartbeatReq ip body \<or> fst op = RegisterReq ip body)
          \<and> is_loopback ip \<and> json_prop body ''instance_id'' = JStr k)
      | Removed k \<Rightarrow> (\<exists>ip body. fst op = UnregisterReq ip body \<and> is_loopback ip \<and> json_prop body ''instance_id'' = JStr k)
      | Swept now \<Rightarrow> now = snd op \<and> fst op = SweepTick)"

lemma register_change:
  "\<exists>c. change_ok env (RegisterReq ip body, now) s c
     \<and> as_registry (snd (handle_register env now ip body s)) = change_registry c (as_registry s)"
proof (cases "as_registry (snd (handle_register env now ip body s)) = as_registry s")
  case True
  then show ?thesis by (intro exI [of _ Unchanged]) (simp add: change_ok_def)
next
  case False
  then obtain t i u where ip: "is_loopback ip" and t: "json_prop body ''agent_type'' = JStr t" "length t \<le> 128"
    and i: "json_prop body ''instance_id'' = JStr i" "length i \<le> 128"
    and re: "SPIFFE_COMPONENT_REGEX i" "SPIFFE_COMPONENT_REGEX t" "buildInstanceSpiffe (ae_daemonSpiffeUri env) t i = Some u"
    by (auto simp: handle_register_def isNonEmptyString_Some Let_def split: if_splits option.splits)
  define inp where "inp = \<lparr>ri_instanceId = i, ri_agentType = t, ri_spiffeUri = u,
      ri_pid = (case json_prop body ''pid'' of JNum n \<Rightarrow> Some n | _ \<Rightarrow> None),
      ri_cliVersion = isNonEmptyString (json_prop body ''cli_version'')\<rparr>"
  have ne: "isNonEmptyString (json_prop body ''agent_type'') = Some t"
    "isNonEmptyString (json_prop body ''instance_id'') = Some i"
    using t i re by (auto simp: isNonEmptyString_Some)
  from False ip ne re have reg: "as_registry (snd (handle_register env now ip body s))
      = snd (snd (register_agent now inp (as_registry s)))"
    by (auto simp: handle_register_def Let_def inp_def register_agent_def split: if_splits option.splits)
  show ?thesis
  proof (cases "get_agent i (as_registry s)")
    case None
    define e where "e = \<lparr>ag_instanceId = i, ag_agentType = t, ag_spiffeUri = u, ag_pid = ri_pid inp,
      ag_cliVersion = ri_cliVersion inp, ag_registeredAt = now, ag_lastHeartbeatAt = now\<rparr>"
    have room: "\<not> rg_maxEntries (as_registry s) \<le> of_nat (length (rg_entries (as_registry s)))"
      using False reg None by (auto simp: register_agent_def get_agent_def inp_def)
    have "change_ok env (RegisterReq ip body, now) s (Added e)"
      using ip None room re t(2) i(2) by (simp add: change_ok_def e_def agent_wf_def registry_size_def)
    moreover have "snd (snd (register_agent now inp (as_registry s))) = change_registry (Added e) (as_registry s)"
      using None room by (simp add: register_agent_def get_agent_def inp_def e_def Let_def)
    ultimately show ?thesis using reg by metis
  next
    case (Some e)
    then have "snd (snd (register_agent now inp (as_registry s))) = change_registry (Beaten i now) (as_registry s)"
      by (simp add: register_agent_def get_agent_def inp_def Let_def)
    moreover have "change_ok env (RegisterReq ip body, now) s (Beaten i now)"
      using ip i by (simp add: change_ok_def)
    ultimately show ?thesis using reg by metis
  qed
qed

lemma heartbeat_change:
  "\<exists>c. change_ok env (HeartbeatReq ip body, now) s c
     \<and> as_registry (snd (handle_heartbeat env now ip body s)) = change_registry c (as_registry s)"
proof (cases "is_loopback ip \<and> isNonEmptyString (json_prop body ''instance_id'') \<noteq> None")
  case True
  then obtain k where k: "isNonEmptyString (json_prop body ''instance_id'') = Some k" by blast
  with True have "change_ok env (HeartbeatReq ip body, now) s (Beaten k now)"
    by (simp add: change_ok_def isNonEmptyString_Some)
  moreover have "as_registry (snd (handle_heartbeat env now ip body s)) = change_registry (Beaten k now) (as_registry s)"
    using True k by (auto simp: handle_heartbeat_def heartbeat_def Let_def split: option.split)
  ultimately show ?thesis by blast
next
  case False
  then show ?thesis
    by (intro exI [of _ Unchanged]) (auto simp: change_ok_def handle_heartbeat_def split: option.split)
qed

lemma unregister_change:
  "\<exists>c. change_ok env (UnregisterReq ip body, now) s c
     \<and> as_registry (snd (handle_unregister env now ip body s)) = change_registry c (as_registry s)"
proof (cases "is_loopback ip \<and> isNonEmptyString (json_prop body ''instance_id'') \<noteq> None")
  case True
  then obtain k where k: "isNonEmptyString (json_prop body ''instance_id'') = Some k" by blast
  with True have "change_ok env (UnregisterReq ip body, now) s (Removed k)"
    by (simp add: change_ok_def isNonEmptyString_Some)
  moreover have "as_registry (snd (handle_unregister env now ip body s)) = change_registry (Removed k) (as_registry s)"
    using True k by (auto simp: handle_unregister_def unregister_def Let_def delete_id map_of_eq_None_iff split: option.split)
  ultimately show ?thesis by blast
next
  case False
  then show ?thesis
    by (intro exI [of _ Unchanged]) (auto simp: change_ok_def handle_unregister_def split: option.split)
qed

lemma agent_step_change:
  "\<exists>c. change_ok env op s c \<and> as_registry (agent_step env op s) = change_registry c (as_registry s)"
proof -
  obtain o1 now where op: "op = (o1, now)" by (cases op)
  show ?thesis
  proof (cases o1)
    case (InstancesReq ip)
    then show ?thesis using op by (intro exI [of _ Unchanged]) (simp add: change_ok_def agent_step_def)
  next
    case SweepTick
    then show ?thesis using op
      by (intro exI [of _ "Swept now"]) (simp add: change_ok_def agent_step_def handle_sweep_def sweep_agents_def Let_def)
  qed (use op register_change heartbeat_change unregister_change in \<open>auto simp: agent_step_def\<close>)
qed


lemma set_m_set: "m_inv m \<Longrightarrow> set (m_set k v m) = insert (k, v) {p \<in> set m. fst p \<noteq> k}"
proof (induction m)
  case (Cons p m)
  obtain k' v' where "p = (k', v')" by fastforce
  with Cons show ?case by (auto simp: m_inv_def image_iff)
qed simp

lemma agents_inv_get:
  "agents_inv env s \<Longrightarrow> get_agent k (as_registry s) = Some e \<Longrightarrow> ag_instanceId e = k \<and> agent_wf env e"
  by (auto simp: agents_inv_def get_agent_def list_all_iff dest!: m_get_in_set)

lemma agents_inv_smaller:
  assumes "agents_inv env s" "as_registry s' = (as_registry s)\<lparr>rg_entries := m\<rparr>" "m_inv m"
    "set m \<subseteq> set (rg_entries (as_registry s))" "length m \<le> length (rg_entries (as_registry s))"
  shows "agents_inv env s'"
proof -
  have "of_nat (length m) \<le> (of_nat (length (rg_entries (as_registry s))) :: rat)" using assms(5) by simp
  with assms show ?thesis by (auto simp: agents_inv_def registry_size_def list_all_iff)
qed

lemma agents_inv_changed:
  assumes inv: "agents_inv env s" and "change_ok env op s c" and "as_registry s' = change_registry c (as_registry s)"
  shows "agents_inv env s'"
proof (cases c)
  case (Added e)
  then show ?thesis using assms
    by (auto simp: agents_inv_def change_ok_def get_agent_def registry_size_def list_all_iff set_m_set)
next
  case (Beaten k now)
  then show ?thesis using assms
    by (cases "m_get (rg_entries (as_registry s)) k")
       (auto simp: agents_inv_def registry_size_def list_all_iff set_m_set agent_wf_def dest!: m_get_in_set)
next
  case (Removed k)
  then show ?thesis using assms
    by (intro agents_inv_smaller [OF inv, of _ "m_del k (rg_entries (as_registry s))"])
       (auto simp: agents_inv_def length_delete_le m_inv_del, auto simp: AList.delete_eq)
next
  case (Swept now)
  then show ?thesis using assms
    by (intro agents_inv_smaller [OF inv, of _ "m_filter (\<lambda>_ e. \<not> is_stale now (as_registry s) e) (rg_entries (as_registry s))"])
       (auto simp: agents_inv_def length_m_filter_le, auto simp: m_filter_def)
qed (use assms in \<open>simp add: agents_inv_def\<close>)

lemma agents_inv_step: "agents_inv env s \<Longrightarrow> agents_inv env (agent_step env op s)"
  using agent_step_change [of env op s] agents_inv_changed by blast

interpretation agents: lifecycle "\<lambda>s t. \<exists>op. t = agent_step env op s" "\<lambda>s k. get_agent k (as_registry s)" same_agent
  "agent_wf env" "\<lambda>_. True" "agents_inv env" for env
proof
  show "agents_inv env s \<Longrightarrow> \<exists>op. t = agent_step env op s \<Longrightarrow> agents_inv env t" for s t
    using agents_inv_step by blast
next
  fix s t k a
  assume "agents_inv env s" "\<exists>op. t = agent_step env op s" and a: "get_agent k (as_registry s) = Some a"
  then obtain op c where c: "change_ok env op s c" "as_registry t = change_registry c (as_registry s)"
    and inv: "m_inv (rg_entries (as_registry s))"
    using agent_step_change by (metis agents_inv_def)
  then show "case get_agent k (as_registry t) of None \<Rightarrow> True | Some b \<Rightarrow> b = a \<or> same_agent a b"
    using a by (cases c) (auto simp: get_agent_def change_ok_def split: option.splits)
next
  fix s t k b
  assume inv: "agents_inv env s" and st: "\<exists>op. t = agent_step env op s" and "get_agent k (as_registry t) = Some b"
  then have "agents_inv env t" using agents_inv_step by blast
  then show "agent_wf env b" using agents_inv_get \<open>get_agent k (as_registry t) = Some b\<close> by blast
qed

lemma agent_run_steps: "(\<lambda>s t. \<exists>op. t = agent_step env op s)\<^sup>*\<^sup>* s (agent_run env ops s)"
  by (rule fold_steps)

lemma buildInstanceSpiffe_parses:
  assumes "buildInstanceSpiffe daemon t i = Some u"
  shows "\<exists>n. parseSpiffeUri u = Inr (ParsedHost n t (Some i) u) \<and> getAgentInstance u = Inr (Some i)
    \<and> (case parseSpiffeUri daemon of Inl _ \<Rightarrow> False | Inr (ParsedNode p _) \<Rightarrow> n = p | Inr (ParsedHost m _ _ _) \<Rightarrow> n = m)"
proof -
  obtain p where p: "parseSpiffeUri daemon = Inr p"
    using assms by (cases "parseSpiffeUri daemon") (auto simp: buildInstanceSpiffe_def)
  define n where "n = (case p of ParsedNode p _ \<Rightarrow> p | ParsedHost n _ _ _ \<Rightarrow> n)"
  have "buildInstanceUri n t i = Inr u"
    using assms p by (auto simp: buildInstanceSpiffe_def n_def split: sum.splits parsed_uri.splits)
  then have "parseSpiffeUri u = Inr (ParsedHost n t (Some i) u)"
    using parse_print [of "ParsedHost n t (Some i) u"] by (auto simp: buildInstanceUri_def split: if_splits)
  then show ?thesis using p
    by (intro exI [of _ n]) (simp add: getAgentInstance_def n_def split: parsed_uri.split)
qed


lemma new_registry_inv:
  "new_AgentRegistry interval factor maxEntries = Inr reg \<Longrightarrow> as_registry s = reg \<Longrightarrow> agents_inv env s \<and> list_agents reg = []"
  by (auto simp: new_AgentRegistry_def Let_def agents_inv_def registry_size_def list_agents_def
      split: jsnum.splits if_splits option.splits)

text \<open>The limits of a registry never change.\<close>

lemma change_registry_limits [simp]:
  "rg_heartbeatIntervalMs (change_registry c reg) = rg_heartbeatIntervalMs reg"
  "rg_staleFactor (change_registry c reg) = rg_staleFactor reg"
  "rg_maxEntries (change_registry c reg) = rg_maxEntries reg"
  by (cases c; simp split: option.split)+

lemma agent_step_limits [simp]:
  "rg_heartbeatIntervalMs (as_registry (agent_step env op s)) = rg_heartbeatIntervalMs (as_registry s)"
  "rg_staleFactor (as_registry (agent_step env op s)) = rg_staleFactor (as_registry s)"
  "rg_maxEntries (as_registry (agent_step env op s)) = rg_maxEntries (as_registry s)"
  using agent_step_change [of env op s] by (metis change_registry_limits)+

lemma agent_run_limits [simp]:
  "rg_heartbeatIntervalMs (as_registry (agent_run env ops s)) = rg_heartbeatIntervalMs (as_registry s)"
  "rg_staleFactor (as_registry (agent_run env ops s)) = rg_staleFactor (as_registry s)"
  "rg_maxEntries (as_registry (agent_run env ops s)) = rg_maxEntries (as_registry s)"
  by (induction ops arbitrary: s) simp_all

text \<open>An instance stays as long as no sweep finds its last heartbeat too old and nobody unregisters it.\<close>

definition spares :: "string \<Rightarrow> time \<Rightarrow> rat \<Rightarrow> agent_op \<times> time \<Rightarrow> bool" where
  "spares k t0 lease op \<longleftrightarrow>
     (case op of
        (SweepTick, now) \<Rightarrow> of_int (now - t0) \<le> lease
      | (UnregisterReq ip body, now) \<Rightarrow> json_prop body ''instance_id'' \<noteq> JStr k
      | (_, now) \<Rightarrow> t0 \<le> now)"

abbreviation lease_of :: "agent_registry \<Rightarrow> rat" where
  "lease_of reg \<equiv> rg_heartbeatIntervalMs reg * rg_staleFactor reg"

lemma step_keeps_agent:
  assumes "agents_inv env s" "get_agent k (as_registry s) = Some e" "t0 \<le> ag_lastHeartbeatAt e"
    and "spares k t0 (lease_of (as_registry s)) op"
  shows "\<exists>e'. get_agent k (as_registry (agent_step env op s)) = Some e' \<and> same_agent e e' \<and> t0 \<le> ag_lastHeartbeatAt e'"
proof -
  obtain c where c: "change_ok env op s c" "as_registry (agent_step env op s) = change_registry c (as_registry s)"
    using agent_step_change by blast
  have inv: "m_inv (rg_entries (as_registry s))" using assms(1) by (simp add: agents_inv_def)
  have get: "m_get (rg_entries (as_registry s)) k = Some e" using assms(2) by (simp add: get_agent_def)
  show ?thesis
  proof (cases c)
    case (Added x)
    then show ?thesis using c get assms(3) by (auto simp: get_agent_def change_ok_def)
  next
    case (Beaten k' now)
    then show ?thesis using c get assms(3,4)
      by (cases op) (auto simp: get_agent_def change_ok_def spares_def split: option.split)
  next
    case (Removed k')
    then show ?thesis using c get assms(3,4) by (cases op) (auto simp: get_agent_def change_ok_def spares_def)
  next
    case (Swept now)
    then have "of_int (now - t0) \<le> lease_of (as_registry s)"
      using c(1) assms(4) by (cases op) (auto simp: change_ok_def spares_def)
    moreover have "(of_int (now - ag_lastHeartbeatAt e) :: rat) \<le> of_int (now - t0)"
      using assms(3) by (simp only: of_int_le_iff)
    ultimately have "\<not> is_stale now (as_registry s) e" by (simp add: is_stale_def)
    then show ?thesis using c(2) Swept get inv assms(3) by (simp add: get_agent_def)
  qed (use c get assms(3) in \<open>simp add: get_agent_def\<close>)
qed

lemma run_keeps_agent:
  assumes "agents_inv env s" "get_agent k (as_registry s) = Some e" "t0 \<le> ag_lastHeartbeatAt e"
    and "list_all (spares k t0 (lease_of (as_registry s))) ops"
  shows "\<exists>e'. get_agent k (as_registry (agent_run env ops s)) = Some e' \<and> same_agent e e'"
  using assms
proof (induction ops arbitrary: s e)
  case (Cons op ops)
  from Cons.prems step_keeps_agent [of env s k e t0 op]
  obtain e1 where e1: "get_agent k (as_registry (agent_step env op s)) = Some e1" "same_agent e e1" "t0 \<le> ag_lastHeartbeatAt e1"
    by auto
  with Cons.IH [of "agent_step env op s" e1] Cons.prems agents_inv_step
  obtain e' where "get_agent k (as_registry (agent_run env ops (agent_step env op s))) = Some e'" "same_agent e1 e'"
    by auto
  then show ?case
    using same_agent_trans [OF e1(2)] by simp
qed auto

lemma sweep_step:
  "agent_step env (SweepTick, now) s =
     fold (on_registry_event env now) (map (Pair StaleEvent) (filter (is_stale now (as_registry s)) (list_agents (as_registry s))))
       (s\<lparr>as_registry := (as_registry s)\<lparr>rg_entries := m_filter (\<lambda>_ e. \<not> is_stale now (as_registry s) e) (rg_entries (as_registry s))\<rparr>\<rparr>)"
  by (simp add: agent_step_def handle_sweep_def sweep_agents_def Let_def list_agents_def)

lemma stale_audit:
  "as_audit (fold (on_registry_event env now) (map (Pair StaleEvent) es) s)
     = as_audit s @ map (\<lambda>e. (''AGENT_STALE'', ag_spiffeUri e, ag_instanceId e)) es"
  "as_wakes (fold (on_registry_event env now) (map (Pair StaleEvent) es) s) = as_wakes s"
  by (induction es arbitrary: s) (simp_all add: on_registry_event_def add_audit_def)

section \<open>What a sweep selects\<close>

lemma sweep_collect_iff:
  "t \<in> set (sweep_collect unreadFor seen live) \<longleftrightarrow>
     st_instanceId t \<notin> set seen \<and> st_instanceId t \<noteq> [] \<and> 0 < st_unread t \<and> unreadFor (st_instanceId t) = Some (Num (st_unread t))
     \<and> List.find (\<lambda>(i, u). i = st_instanceId t \<and> u \<noteq> []) live = Some (st_instanceId t, st_spiffeUri t)"
proof (induction unreadFor seen live rule: sweep_collect.induct)
  case (2 unreadFor seen i u live)
  show ?case
  proof (cases "i = [] \<or> u = [] \<or> i \<in> set seen")
    case True
    then show ?thesis using 2(1) by auto
  next
    case False
    then show ?thesis using 2(2-) by (cases t) (auto split: option.split jsnum.split)
  qed
qed auto

lemma sweep_collect_distinct:
  "distinct (map st_instanceId (sweep_collect unreadFor seen live))"
proof (induction unreadFor seen live rule: sweep_collect.induct)
  case (2 unreadFor seen i u live)
  then show ?case by (auto simp: sweep_collect_iff split: option.split jsnum.split)
qed simp

lemma computeSweepTargets_single:
  "computeSweepTargets [(i, u)] unreadFor =
     (case unreadFor i of Some (Num n) \<Rightarrow> if i \<noteq> [] \<and> u \<noteq> [] \<and> 0 < n then [\<lparr>st_instanceId = i, st_spiffeUri = u, st_unread = n\<rparr>] else []
      | _ \<Rightarrow> [])"
  by (auto simp: computeSweepTargets_def split: option.split jsnum.split)

definition sweep_wakes :: "agent_env \<Rightarrow> time \<Rightarrow> string \<Rightarrow> agent_state \<Rightarrow> bool" where
  "sweep_wakes env now i s \<longleftrightarrow> ae_sweep_enabled env \<and> ae_bus_ok env i \<and> fst (shouldWake (ae_coalesceMs env) i now (as_recent s))
     \<and> (case ae_unreadFor env i of Some (Num n) \<Rightarrow> 0 < n | _ \<Rightarrow> False)"

lemma register_event_wakes:
  assumes "get_agent (ag_instanceId e) (as_registry s) = Some e" "agents_inv env s" "ag_spiffeUri e \<noteq> []"
  shows "as_wakes (on_registry_event env now (RegisterEvent, e) s) = as_wakes s
    @ (if sweep_wakes env now (ag_instanceId e) s
       then [\<lparr>ws_instance_id = ag_instanceId e, ws_spiffe_uri = ag_spiffeUri e\<rparr>] else [])"
proof -
  let ?i = "ag_instanceId e"
  have keys: "\<forall>(k, x) \<in> set (rg_entries (as_registry s)). k = ag_instanceId x" and "m_inv (rg_entries (as_registry s))"
    using assms(2) by (auto simp: agents_inv_def list_all_iff)
  then have live: "map fst (live_pairs (as_registry s)) = m_keys (rg_entries (as_registry s))"
    by (auto simp: live_pairs_def list_agents_def)
  have "(?i, ag_spiffeUri e) \<in> set (live_pairs (as_registry s))"
    using m_get_in_set assms(1) by (force simp: live_pairs_def list_agents_def get_agent_def)
  moreover have "t_unique fst (live_pairs (as_registry s))"
    using live \<open>m_inv (rg_entries (as_registry s))\<close> by (simp add: t_unique_def m_inv_def)
  ultimately have found: "List.find (\<lambda>p. fst p = ?i) (live_pairs (as_registry s)) = Some (?i, ag_spiffeUri e)"
    by (simp add: find_key_unique)
  have ne: "?i \<noteq> []" using agents_inv_get [OF assms(2,1)] by (auto simp: agent_wf_def)
  show ?thesis
    using found ne assms(3)
    by (cases "ae_unreadFor env ?i")
       (auto simp: on_registry_event_def Let_def sweepInstance_def emitFor_def computeSweepTargets_single sweep_wakes_def
          split: jsnum.split prod.splits)
qed

section \<open>An example\<close>

definition ex_agent_env :: agent_env where
  "ex_agent_env = \<lparr>ae_daemonSpiffeUri = SPIFFE_PREFIX @ ''/host/h1/agent/d'', ae_inboxSchemaVersion = 1, ae_sweep_enabled = True,
     ae_coalesceMs = 2000, ae_bus_ok = \<lambda>_. True, ae_unreadFor = \<lambda>i. Some (Num (if i = ''a1'' then 2 else 0))\<rparr>"

definition ex_registry :: agent_registry where
  "ex_registry = \<lparr>rg_entries = [], rg_heartbeatIntervalMs = 5000, rg_staleFactor = 3, rg_maxEntries = 1000, rg_timer = False\<rparr>"

definition ex_agents :: agent_state where
  "ex_agents = \<lparr>as_registry = ex_registry, as_audit = [], as_recent = [], as_wakes = []\<rparr>"

definition ex_body :: json where
  "ex_body = JObj [(''agent_type'', JStr ''cc''), (''instance_id'', JStr ''a1'')]"

definition ex_uri :: string where
  "ex_uri = SPIFFE_PREFIX @ ''/host/h1/agent/cc/instance/a1''"

lemma ex_new: "new_AgentRegistry (Num 5000) (Some 3) None = Inr ex_registry"
  by (simp add: new_AgentRegistry_def ex_registry_def)

lemma ex_components: "SPIFFE_COMPONENT_REGEX ''a1''" "SPIFFE_COMPONENT_REGEX ''cc''" "SPIFFE_COMPONENT_REGEX ''h1''"
    "SPIFFE_COMPONENT_REGEX ''d''"
  by (simp_all add: SPIFFE_COMPONENT_REGEX_def component_char_def char_between_def)

lemma ex_build: "buildInstanceSpiffe (ae_daemonSpiffeUri ex_agent_env) ''cc'' ''a1'' = Some ex_uri"
proof -
  have "parseSpiffeUri (SPIFFE_PREFIX @ ''/host/h1/agent/d'') = Inr (ParsedHost ''h1'' ''d'' None (SPIFFE_PREFIX @ ''/host/h1/agent/d''))"
    using parse_print [of "ParsedHost ''h1'' ''d'' None (SPIFFE_PREFIX @ ''/host/h1/agent/d'')"] ex_components by simp
  then show ?thesis
    by (simp add: buildInstanceSpiffe_def ex_agent_env_def buildInstanceUri_def ex_components ex_uri_def)
qed

definition ex_entry :: agent_entry where
  "ex_entry = \<lparr>ag_instanceId = ''a1'', ag_agentType = ''cc'', ag_spiffeUri = ex_uri, ag_pid = None, ag_cliVersion = None,
     ag_registeredAt = 0, ag_lastHeartbeatAt = 0\<rparr>"

lemma ex_register:
  "handle_register ex_agent_env 0 ''::1'' ex_body ex_agents =
     (RegisterOk ex_uri 5000 1,
      \<lparr>as_registry = ex_registry\<lparr>rg_entries := [(''a1'', ex_entry)]\<rparr>, as_audit = [(''AGENT_REGISTER'', ex_uri, ''a1'')],
       as_recent = [(''a1'', 0)], as_wakes = [\<lparr>ws_instance_id = ''a1'', ws_spiffe_uri = ex_uri\<rparr>]\<rparr>)"
proof -
  note nonempty = isNonEmptyString_def is_loopback_def ex_body_def
  show ?thesis
    by (simp add: handle_register_def nonempty ex_components ex_build ex_agents_def register_agent_def get_agent_def
        ex_registry_def Let_def on_registry_event_def sweepInstance_def live_pairs_def list_agents_def emitFor_def
        computeSweepTargets_def shouldWake_def m_filter_def ex_agent_env_def [THEN arg_cong [of _ _ ae_sweep_enabled]]
        ex_agent_env_def [THEN arg_cong [of _ _ ae_coalesceMs]] ex_agent_env_def [THEN arg_cong [of _ _ ae_bus_ok]]
        ex_agent_env_def [THEN arg_cong [of _ _ ae_unreadFor]] ex_agent_env_def [THEN arg_cong [of _ _ ae_inboxSchemaVersion]]
        add_audit_def ex_entry_def ex_uri_def SPIFFE_PREFIX_def)
qed

abbreviation ex_live :: agent_state where
  "ex_live \<equiv> agent_step ex_agent_env (RegisterReq ''::1'' ex_body, 0) ex_agents"

lemma ex_agents_inv: "agents_inv ex_agent_env ex_agents"
  using new_registry_inv [OF ex_new, of ex_agents] by (simp add: ex_agents_def)

lemma ex_live_get: "get_agent ''a1'' (as_registry ex_live) = Some ex_entry"
  by (simp add: agent_step_def ex_register get_agent_def)

lemma ex_live_inv: "agents_inv ex_agent_env ex_live"
  by (rule agents_inv_step [OF ex_agents_inv])

section \<open>Properties\<close>

text \<open>C23. In every run of requests and sweeps the registry is well-typed: the entries are keyed by their instance id and
  each once, id and type are SPIFFE components of at most 128 characters, the URI is the one derived from the daemon's
  identity, which parses back to that type and id, and there are never more entries than the limit. An entry that is
  there at the end was there at the start or was added well-formed, and nothing but its heartbeat has changed since.\<close>

theorem agent_registry_typed:
  assumes "new_AgentRegistry interval factor maxEntries = Inr reg" and "as_registry s = reg"
  shows "let end_reg = as_registry (agent_run env ops s) in
      m_inv (rg_entries end_reg) \<and> of_nat (registry_size end_reg) < rg_maxEntries reg + 1
      \<and> list_all (\<lambda>(k, e). k = ag_instanceId e \<and> agent_wf env e
           \<and> (\<exists>n. parseSpiffeUri (ag_spiffeUri e) = Inr (ParsedHost n (ag_agentType e) (Some k) (ag_spiffeUri e)))) (rg_entries end_reg)
      \<and> (\<forall>ops' k e. get_agent k (as_registry (agent_run env ops' (agent_run env ops s))) = Some e \<longrightarrow>
           (\<exists>a. (get_agent k end_reg = Some a \<or> agent_wf env a) \<and> same_agent\<^sup>*\<^sup>* a e))"
proof -
  let ?t = "agent_run env ops s"
  have start: "agents_inv env s" using new_registry_inv [OF assms] by blast
  have inv: "agents_inv env ?t" by (rule agents.inv_reach [OF agent_run_steps start])
  have path: "\<exists>a. (get_agent k (as_registry ?t) = Some a \<or> agent_wf env a) \<and> same_agent\<^sup>*\<^sup>* a e"
    if "get_agent k (as_registry (agent_run env ops' ?t)) = Some e" for ops' k e
    using agents.reach_path [OF agent_run_steps inv that] .
  have "list_all (\<lambda>(k, e). k = ag_instanceId e \<and> agent_wf env e
      \<and> (\<exists>n. parseSpiffeUri (ag_spiffeUri e) = Inr (ParsedHost n (ag_agentType e) (Some k) (ag_spiffeUri e))))
        (rg_entries (as_registry ?t))"
    using inv by (auto simp: agents_inv_def agent_wf_def elim!: list.pred_mono_strong dest: buildInstanceSpiffe_parses)
  with inv path assms(2) show ?thesis by (simp add: agents_inv_def Let_def)
qed

theorem agent_registry_typed_witness:
  "registry_size (as_registry (agent_run ex_agent_env [(RegisterReq ''::1'' ex_body, 0)] ex_agents)) = 1
   \<and> of_nat (registry_size (as_registry (agent_run ex_agent_env [(RegisterReq ''::1'' ex_body, 0)] ex_agents))) < rg_maxEntries ex_registry + 1"
proof
  show "registry_size (as_registry (agent_run ex_agent_env [(RegisterReq ''::1'' ex_body, 0)] ex_agents)) = 1"
    by (simp add: agent_step_def ex_register registry_size_def)
  have "as_registry ex_agents = ex_registry" by (simp add: ex_agents_def)
  from agent_registry_typed [OF ex_new this, of ex_agent_env "[(RegisterReq ''::1'' ex_body, 0)]"]
  show "of_nat (registry_size (as_registry (agent_run ex_agent_env [(RegisterReq ''::1'' ex_body, 0)] ex_agents))) < rg_maxEntries ex_registry + 1"
    unfolding Let_def by blast
qed

text \<open>The lease of an instance: a sweep evicts exactly the entries whose last heartbeat is older than the interval times
  the factor (15 s in the daemon), audits each of them as stale in the order of the registry and wakes nobody; an
  instance is kept by any run in which no sweep comes later than that after the heartbeat and nobody unregisters its id,
  and the first sweep that comes later removes a silent one.\<close>

theorem agent_lease:
  assumes "agents_inv env s" and "get_agent k (as_registry s) = Some e"
  shows "(list_all (spares k (ag_lastHeartbeatAt e) (lease_of (as_registry s))) ops \<longrightarrow>
        (\<exists>e'. get_agent k (as_registry (agent_run env ops s)) = Some e' \<and> same_agent e e'))
    \<and> (get_agent k (as_registry (agent_step env (SweepTick, now) s)) = None
        \<longleftrightarrow> lease_of (as_registry s) < of_int (now - ag_lastHeartbeatAt e))
    \<and> as_audit (agent_step env (SweepTick, now) s) = as_audit s
        @ map (\<lambda>e. (''AGENT_STALE'', ag_spiffeUri e, ag_instanceId e))
            (filter (is_stale now (as_registry s)) (list_agents (as_registry s)))
    \<and> as_wakes (agent_step env (SweepTick, now) s) = as_wakes s"
proof (intro conjI impI)
  assume "list_all (spares k (ag_lastHeartbeatAt e) (lease_of (as_registry s))) ops"
  then show "\<exists>e'. get_agent k (as_registry (agent_run env ops s)) = Some e' \<and> same_agent e e'"
    using run_keeps_agent [OF assms] by blast
next
  have "m_inv (rg_entries (as_registry s))" using assms(1) by (simp add: agents_inv_def)
  then show "get_agent k (as_registry (agent_step env (SweepTick, now) s)) = None
        \<longleftrightarrow> lease_of (as_registry s) < of_int (now - ag_lastHeartbeatAt e)"
    using assms(2) by (simp add: sweep_step get_agent_def is_stale_def)
qed (simp_all add: sweep_step stale_audit)


theorem agent_lease_witness:
  "get_agent ''a1'' (as_registry (agent_run ex_agent_env [(SweepTick, 15000)] ex_live)) \<noteq> None
   \<and> get_agent ''a1'' (as_registry (agent_step ex_agent_env (SweepTick, 15001) ex_live)) = None"
proof
  have lease: "lease_of (as_registry ex_live) = 15000" by (simp add: agent_step_def ex_register ex_registry_def)
  have "list_all (spares ''a1'' (ag_lastHeartbeatAt ex_entry) (lease_of (as_registry ex_live))) [(SweepTick, 15000)]"
    unfolding lease by (simp add: spares_def ex_entry_def)
  with agent_lease [OF ex_live_inv ex_live_get, of "[(SweepTick, 15000)]"]
  show "get_agent ''a1'' (as_registry (agent_run ex_agent_env [(SweepTick, 15000)] ex_live)) \<noteq> None" by fastforce
  show "get_agent ''a1'' (as_registry (agent_step ex_agent_env (SweepTick, 15001) ex_live)) = None"
    using agent_lease [OF ex_live_inv ex_live_get, of "[]" 15001] lease by (simp add: ex_entry_def)
qed

text \<open>The sweep: the targets are the live instances with a non-empty id and URI and a positive, finite count of unread
  messages, each once, in the order of their ids; an instance that registers and was not live is woken, at its own URI,
  exactly when the sweep is enabled, it has unread mail, its coalescing window has passed and the bus takes the event;
  no other instance is woken, and a registration of an instance that is still live wakes nobody.\<close>

theorem sweep_wakes_the_registering:
  "(t \<in> set (computeSweepTargets live unreadFor) \<longleftrightarrow>
      st_instanceId t \<noteq> [] \<and> 0 < st_unread t \<and> unreadFor (st_instanceId t) = Some (Num (st_unread t))
      \<and> List.find (\<lambda>(i, u). i = st_instanceId t \<and> u \<noteq> []) live = Some (st_instanceId t, st_spiffeUri t))
   \<and> sorted (map st_instanceId (computeSweepTargets live unreadFor))
   \<and> distinct (map st_instanceId (computeSweepTargets live unreadFor))
   \<and> (agents_inv env s \<and> handle_register env now ip body s = (RegisterOk u iv sc, s') \<longrightarrow>
        (\<exists>i. json_prop body ''instance_id'' = JStr i \<and>
           as_wakes s' = as_wakes s
             @ (if get_agent i (as_registry s) = None \<and> sweep_wakes env now i s
                then [\<lparr>ws_instance_id = i, ws_spiffe_uri = u\<rparr>] else [])))"
proof (intro conjI impI)
  show "t \<in> set (computeSweepTargets live unreadFor) \<longleftrightarrow>
      st_instanceId t \<noteq> [] \<and> 0 < st_unread t \<and> unreadFor (st_instanceId t) = Some (Num (st_unread t))
      \<and> List.find (\<lambda>(i, u). i = st_instanceId t \<and> u \<noteq> []) live = Some (st_instanceId t, st_spiffeUri t)"
    by (simp add: computeSweepTargets_def sweep_collect_iff)
  show "sorted (map st_instanceId (computeSweepTargets live unreadFor))"
    by (simp add: computeSweepTargets_def)
  show "distinct (map st_instanceId (computeSweepTargets live unreadFor))"
    using sweep_collect_distinct [of unreadFor "[]" live] by (simp add: computeSweepTargets_def distinct_map)
next
  assume A: "agents_inv env s \<and> handle_register env now ip body s = (RegisterOk u iv sc, s')"
  then have "agents_inv env (agent_step env (RegisterReq ip body, now) s)" using agents_inv_step by blast
  then have inv': "agents_inv env s'" using A by (simp add: agent_step_def)
  from A obtain t0 i where i: "json_prop body ''instance_id'' = JStr i" "SPIFFE_COMPONENT_REGEX i" and ip: "is_loopback ip"
    and t0: "isNonEmptyString (json_prop body ''agent_type'') = Some t0" "isNonEmptyString (json_prop body ''instance_id'') = Some i"
    by (auto simp: handle_register_def isNonEmptyString_Some Let_def split: if_splits option.splits)
  define inp where "inp = \<lparr>ri_instanceId = i, ri_agentType = t0,
      ri_spiffeUri = the (buildInstanceSpiffe (ae_daemonSpiffeUri env) t0 i),
      ri_pid = (case json_prop body ''pid'' of JNum n \<Rightarrow> Some n | _ \<Rightarrow> None),
      ri_cliVersion = isNonEmptyString (json_prop body ''cli_version'')\<rparr>"
  from A ip t0 obtain entry evs reg where reg: "register_agent now inp (as_registry s) = (Some entry, evs, reg)"
    and s': "s' = add_audit ''AGENT_REGISTER'' entry (fold (on_registry_event env now) evs (s\<lparr>as_registry := reg\<rparr>))"
    and u: "u = ag_spiffeUri entry"
    by (auto simp: handle_register_def Let_def inp_def split: if_splits option.splits prod.splits)
  have wakes: "as_wakes (add_audit kind e x) = as_wakes x" for kind e x by (simp add: add_audit_def)
  have "as_wakes s' = as_wakes s
      @ (if get_agent i (as_registry s) = None \<and> sweep_wakes env now i s then [\<lparr>ws_instance_id = i, ws_spiffe_uri = u\<rparr>] else [])"
  proof (cases "get_agent i (as_registry s)")
    case None
    then have ev: "evs = [(RegisterEvent, entry)]" "ag_instanceId entry = i" "get_agent i reg = Some entry"
      using reg by (auto simp: register_agent_def get_agent_def inp_def Let_def split: if_splits)
    have inv1: "agents_inv env (s\<lparr>as_registry := reg\<rparr>)"
      using inv' s' by (simp add: agents_inv_def)
    have "agent_wf env entry" using agents_inv_get [OF inv1, of i] ev by simp
    then have "u \<noteq> []"
      using u by (auto simp: agent_wf_def buildInstanceSpiffe_def buildInstanceUri_def SPIFFE_PREFIX_def split: sum.splits if_splits)
    then show ?thesis
      using register_event_wakes [OF _ inv1, of entry now] ev None u
      by (simp add: s' wakes sweep_wakes_def)
  next
    case (Some e)
    then have "evs = []" using reg by (auto simp: register_agent_def get_agent_def inp_def Let_def)
    then show ?thesis using Some by (simp add: s' wakes)
  qed
  with i show "\<exists>i. json_prop body ''instance_id'' = JStr i \<and>
           as_wakes s' = as_wakes s
             @ (if get_agent i (as_registry s) = None \<and> sweep_wakes env now i s
                then [\<lparr>ws_instance_id = i, ws_spiffe_uri = u\<rparr>] else [])"
    by blast
qed


theorem sweep_wakes_the_registering_witness:
  "as_wakes ex_live = [\<lparr>ws_instance_id = ''a1'', ws_spiffe_uri = ex_uri\<rparr>]
   \<and> as_wakes (agent_step ex_agent_env (RegisterReq ''::1'' ex_body, 9000) ex_live) = as_wakes ex_live"
proof
  have "\<exists>i. json_prop ex_body ''instance_id'' = JStr i \<and>
      as_wakes (snd (handle_register ex_agent_env 0 ''::1'' ex_body ex_agents)) = as_wakes ex_agents
        @ (if get_agent i (as_registry ex_agents) = None \<and> sweep_wakes ex_agent_env 0 i ex_agents
           then [\<lparr>ws_instance_id = i, ws_spiffe_uri = ex_uri\<rparr>] else [])"
    using sweep_wakes_the_registering [of "\<lparr>st_instanceId = [], st_spiffeUri = [], st_unread = 0\<rparr>" "[]" "\<lambda>_. None" ex_agent_env ex_agents 0 "''::1''" ex_body ex_uri 5000 1
        "snd (handle_register ex_agent_env 0 ''::1'' ex_body ex_agents)"] ex_agents_inv ex_register by simp
  then show "as_wakes ex_live = [\<lparr>ws_instance_id = ''a1'', ws_spiffe_uri = ex_uri\<rparr>]"
    by (simp add: ex_body_def agent_step_def get_agent_def ex_agents_def ex_registry_def sweep_wakes_def ex_agent_env_def shouldWake_def)
  show "as_wakes (agent_step ex_agent_env (RegisterReq ''::1'' ex_body, 9000) ex_live) = as_wakes ex_live"
    by (simp add: agent_step_def ex_register)
       (simp add: handle_register_def isNonEmptyString_def is_loopback_def ex_body_def ex_components ex_build get_agent_def
          register_agent_def Let_def ex_entry_def add_audit_def)
qed

end
