(* ===== verification/Signed_Order.thy ===== *)
theory Signed_Order
  imports Prelude "HOL-Library.Word"
begin

text \<open>
  Message envelopes (\<open>messages.ts\<close>) and signed orders (\<open>signed-order.ts\<close>). The CBOR codec, the base64 of the
  host and the signature scheme are arguments (\<open>codec\<close>); a call of them that throws is \<open>Inl\<close> with the message of the
  error. What a decoder returns is untrusted: the fields the code tests at run time are JSON values here. A
  decoded value whose properties cannot be read counts as a failure to decode, an unreadable time stamp is
  \<open>None\<close>.
\<close>

type_synonym bytes = "8 word list"

section \<open>Envelopes\<close>

record message_envelope =
  me_id :: string
  me_type :: json
  me_sender :: json
  me_correlation_id :: string
  me_timestamp :: "time option"
  me_ttl_ms :: int
  me_idempotency_key :: json
  me_payload :: json

record signed_message =
  sm_envelope :: bytes
  sm_signature :: bytes

record codec =
  cd_encode_envelope :: "message_envelope \<Rightarrow> bytes"
  cd_decode_envelope :: "bytes \<Rightarrow> string + message_envelope"
  cd_encode_signed :: "signed_message \<Rightarrow> bytes"
  cd_decode_signed :: "bytes \<Rightarrow> string + signed_message"
  cd_sign :: "string \<Rightarrow> bytes \<Rightarrow> bytes"
  cd_verify :: "string \<Rightarrow> bytes \<Rightarrow> bytes \<Rightarrow> string + bool"
  cd_to_base64 :: "bytes \<Rightarrow> string"
  cd_from_base64 :: "string \<Rightarrow> bytes"

definition createEnvelope ::
  "string \<Rightarrow> time \<Rightarrow> string \<Rightarrow> string \<Rightarrow> json \<Rightarrow> string option \<Rightarrow> int option \<Rightarrow> message_envelope" where
  "createEnvelope uuid now type sender payload correlation_id ttl_ms =
     \<lparr>me_id = uuid, me_type = JStr type, me_sender = JStr sender, me_correlation_id = default_to uuid correlation_id,
      me_timestamp = Some now, me_ttl_ms = default_to 30000 ttl_ms, me_idempotency_key = JStr uuid,
      me_payload = payload\<rparr>"

definition createHeartbeat :: "string \<Rightarrow> time \<Rightarrow> string \<Rightarrow> json \<Rightarrow> message_envelope" where
  "createHeartbeat uuid now sender payload = createEnvelope uuid now ''HEARTBEAT'' sender payload None (Some 15000)"

definition createCapabilityQuery :: "string \<Rightarrow> time \<Rightarrow> string \<Rightarrow> json \<Rightarrow> string option \<Rightarrow> message_envelope" where
  "createCapabilityQuery uuid now sender query correlationId =
     createEnvelope uuid now ''CAPABILITY_QUERY'' sender query correlationId None"

definition createDiscoverQuery :: "string \<Rightarrow> time \<Rightarrow> string \<Rightarrow> json option \<Rightarrow> message_envelope" where
  "createDiscoverQuery uuid now sender query =
     createEnvelope uuid now ''DISCOVER_QUERY'' sender (default_to (JObj []) query) None None"

definition encodeAndSign :: "codec \<Rightarrow> message_envelope \<Rightarrow> string \<Rightarrow> signed_message" where
  "encodeAndSign c envelope privateKeyPem =
     (let envelopeBytes = cd_encode_envelope c envelope
      in \<lparr>sm_envelope = envelopeBytes, sm_signature = cd_sign c privateKeyPem envelopeBytes\<rparr>)"

text \<open>\<open>now - created > ttl\<close> is false when the time stamp is unreadable.\<close>

definition expired :: "time \<Rightarrow> message_envelope \<Rightarrow> bool" where
  "expired now env \<longleftrightarrow> me_ttl_ms env > 0
     \<and> (case me_timestamp env of None \<Rightarrow> False | Some created \<Rightarrow> now - created > me_ttl_ms env)"

definition decodeAndVerify :: "codec \<Rightarrow> time \<Rightarrow> signed_message \<Rightarrow> string \<Rightarrow> string + message_envelope option" where
  "decodeAndVerify c now message publicKeyPem =
     (case cd_verify c publicKeyPem (sm_envelope message) (sm_signature message) of
        Inl e \<Rightarrow> Inl e
      | Inr valid \<Rightarrow>
          if \<not> valid then Inr None
          else case cd_decode_envelope c (sm_envelope message) of
            Inl e \<Rightarrow> Inl e
          | Inr envelope \<Rightarrow> if expired now envelope then Inr None else Inr (Some envelope))"

definition serializeSignedMessage :: "codec \<Rightarrow> signed_message \<Rightarrow> bytes" where
  "serializeSignedMessage c message = cd_encode_signed c message"

definition deserializeSignedMessage :: "codec \<Rightarrow> bytes \<Rightarrow> string + signed_message" where
  "deserializeSignedMessage c data = cd_decode_signed c data"

section \<open>Orders\<close>

definition ORDER_MARKER :: string where "ORDER_MARKER = ''__tlorder__''"

definition MAX_ORDER_BYTES :: nat where "MAX_ORDER_BYTES = 47 * 1024"

datatype verify_order_result = ValidOrder (vo_issuer: string) (vo_order_id: string) | InvalidOrder (vo_reason: string)

definition buildOrderEnvelope ::
  "string \<Rightarrow> time \<Rightarrow> string \<Rightarrow> string \<Rightarrow> json \<Rightarrow> int option \<Rightarrow> message_envelope" where
  "buildOrderEnvelope uuid now issuer orderId payload ttlMs =
     (createEnvelope uuid now ''ORDER'' issuer payload None (Some (default_to 0 ttlMs)))
       \<lparr>me_idempotency_key := JStr orderId\<rparr>"

definition signOrder :: "codec \<Rightarrow> message_envelope \<Rightarrow> string \<Rightarrow> bytes" where
  "signOrder c envelope privateKeyPem = serializeSignedMessage c (encodeAndSign c envelope privateKeyPem)"

definition wrapOrderInBody :: "codec \<Rightarrow> bytes \<Rightarrow> json" where
  "wrapOrderInBody c orderBytes = JObj [(ORDER_MARKER, JStr (cd_to_base64 c orderBytes))]"

datatype marker_extraction = MarkerAbsent | MarkerInvalid string | MarkerBytes bytes

text \<open>\<open>Math.ceil((MAX_ORDER_BYTES * 4) / 3) + 4\<close>\<close>

definition marker_limit :: nat where "marker_limit = (MAX_ORDER_BYTES * 4 + 2) div 3 + 4"

definition extractOrderMarker :: "codec \<Rightarrow> json \<Rightarrow> marker_extraction" where
  "extractOrderMarker c body =
     (case as_obj body of
        None \<Rightarrow> MarkerAbsent
      | Some m \<Rightarrow>
          (case m_get m ORDER_MARKER of
             None \<Rightarrow> MarkerAbsent
           | Some v \<Rightarrow>
               (case as_str v of
                  None \<Rightarrow> MarkerInvalid ''marker is not a non-empty string''
                | Some raw_str \<Rightarrow>
                    if length raw_str = 0 then MarkerInvalid ''marker is not a non-empty string''
                    else if marker_limit < length raw_str then MarkerInvalid ''marker exceeds size limit''
                    else let bs = cd_from_base64 c raw_str in
                      if length bs = 0 \<or> MAX_ORDER_BYTES < length bs
                      then MarkerInvalid ''decoded marker empty or oversize''
                      else MarkerBytes bs)))"

definition verifyOrderBytes :: "codec \<Rightarrow> time \<Rightarrow> bytes \<Rightarrow> string \<Rightarrow> string \<Rightarrow> verify_order_result" where
  "verifyOrderBytes c now bs expectedIssuer publicKeyPem =
     (case deserializeSignedMessage c bs of
        Inl e \<Rightarrow> InvalidOrder e
      | Inr message \<Rightarrow>
          (case decodeAndVerify c now message publicKeyPem of
             Inl e \<Rightarrow> InvalidOrder e
           | Inr None \<Rightarrow> InvalidOrder ''signature invalid or expired''
           | Inr (Some env) \<Rightarrow>
               if me_type env \<noteq> JStr ''ORDER'' then InvalidOrder ''not an ORDER envelope''
               else if me_sender env \<noteq> JStr expectedIssuer then InvalidOrder ''issuer does not match transport sender''
               else case as_str (me_idempotency_key env) of
                 None \<Rightarrow> InvalidOrder ''missing order nonce''
               | Some orderId \<Rightarrow>
                   if blank orderId then InvalidOrder ''missing order nonce''
                   else ValidOrder expectedIssuer orderId))"

datatype inbound_order_decision = PlainMessage | InvalidMarker string | OrderMessage bytes string

definition classifyInboundOrder :: "codec \<Rightarrow> time \<Rightarrow> json \<Rightarrow> string \<Rightarrow> string \<Rightarrow> inbound_order_decision" where
  "classifyInboundOrder c now body expectedIssuer publicKeyPem =
     (case extractOrderMarker c body of
        MarkerAbsent \<Rightarrow> PlainMessage
      | MarkerInvalid reason \<Rightarrow> InvalidMarker (''malformed-marker: '' @ reason)
      | MarkerBytes bs \<Rightarrow>
          (case verifyOrderBytes c now bs expectedIssuer publicKeyPem of
             ValidOrder issuer orderId \<Rightarrow>
               if orderId \<noteq> [] then OrderMessage bs orderId else InvalidMarker ''verify failed''
           | InvalidOrder reason \<Rightarrow> InvalidMarker reason))"

text \<open>The key fingerprints: the hash, and the parser of public keys with its DER export, are arguments.\<close>

definition orderKeyId :: "(string \<Rightarrow> string) \<Rightarrow> string \<Rightarrow> string" where
  "orderKeyId sha256hex publicKeyPem = sha256hex publicKeyPem"

definition canonicalOrderKeyId :: "(bytes \<Rightarrow> string) \<Rightarrow> (string \<Rightarrow> bytes option) \<Rightarrow> string \<Rightarrow> string option" where
  "canonicalOrderKeyId sha256hex spki_der publicKeyPem =
     (if blank publicKeyPem then None
      else if js_includes publicKeyPem ''PRIVATE KEY'' then None
      else map_option sha256hex (spki_der publicKeyPem))"

section \<open>Properties\<close>

text \<open>The envelope a message decodes to, when its signature verifies and it has not expired.\<close>

definition authentic :: "codec \<Rightarrow> time \<Rightarrow> bytes \<Rightarrow> string \<Rightarrow> message_envelope \<Rightarrow> bool" where
  "authentic c now bs publicKeyPem env \<longleftrightarrow>
     (\<exists>message. cd_decode_signed c bs = Inr message
        \<and> cd_verify c publicKeyPem (sm_envelope message) (sm_signature message) = Inr True
        \<and> cd_decode_envelope c (sm_envelope message) = Inr env \<and> \<not> expired now env)"

lemma verify_order_iff:
  "verifyOrderBytes c now bs issuer key = ValidOrder who nonce \<longleftrightarrow>
     who = issuer \<and> \<not> blank nonce
     \<and> (\<exists>env. authentic c now bs key env \<and> me_type env = JStr ''ORDER'' \<and> me_sender env = JStr issuer
           \<and> me_idempotency_key env = JStr nonce)"
  unfolding verifyOrderBytes_def authentic_def deserializeSignedMessage_def decodeAndVerify_def
  by (auto simp: as_str_Some split: sum.splits option.splits if_splits)

lemma extract_marker_iff:
  "extractOrderMarker c body = MarkerBytes bs \<longleftrightarrow>
     (\<exists>m t. body = JObj m \<and> m_get m ORDER_MARKER = Some (JStr t) \<and> t \<noteq> [] \<and> length t \<le> marker_limit
        \<and> bs = cd_from_base64 c t \<and> bs \<noteq> [] \<and> length bs \<le> MAX_ORDER_BYTES)"
  by (cases body) (auto simp: extractOrderMarker_def as_str_Some Let_def not_less split: option.splits if_splits)

lemma extract_marker_absent:
  "extractOrderMarker c body = MarkerAbsent \<longleftrightarrow> (\<forall>m. body = JObj m \<longrightarrow> m_get m ORDER_MARKER = None)"
  by (cases body) (auto simp: extractOrderMarker_def Let_def split: option.splits)

lemma blank_Nil [simp]: "blank []"
  by (simp add: blank_def)

lemma classify_order_iff:
  "classifyInboundOrder c now body issuer key = OrderMessage bs nonce \<longleftrightarrow>
     extractOrderMarker c body = MarkerBytes bs \<and> verifyOrderBytes c now bs issuer key = ValidOrder issuer nonce"
proof -
  have "verifyOrderBytes c now b issuer key = ValidOrder who n \<Longrightarrow> who = issuer \<and> n \<noteq> []" for b who n
    by (auto simp: verify_order_iff)
  then show ?thesis
    by (auto simp: classifyInboundOrder_def split: marker_extraction.splits verify_order_result.splits)
qed

text \<open>
  Classification of a message body. It is an order with given bytes and nonce exactly when it carries
  the marker with base64 text within the limits, and the decoded bytes are a signed message whose signature
  verifies under the sender's key, is not expired and contains an \<open>ORDER\<close> envelope issued by the sender with
  a nonce that is not blank; a body is plain exactly when it has no marker, so a damaged or forged order is
  never downgraded to a plain message.
\<close>

theorem order_classification:
  "(classifyInboundOrder c now body issuer key = OrderMessage bs nonce \<longleftrightarrow>
      (\<exists>m t env. body = JObj m \<and> m_get m ORDER_MARKER = Some (JStr t) \<and> t \<noteq> [] \<and> length t \<le> marker_limit
         \<and> bs = cd_from_base64 c t \<and> bs \<noteq> [] \<and> length bs \<le> MAX_ORDER_BYTES
         \<and> authentic c now bs key env \<and> me_type env = JStr ''ORDER'' \<and> me_sender env = JStr issuer
         \<and> me_idempotency_key env = JStr nonce \<and> \<not> blank nonce))
   \<and> (classifyInboundOrder c now body issuer key = PlainMessage \<longleftrightarrow>
        (case as_obj body of None \<Rightarrow> True | Some m \<Rightarrow> m_get m ORDER_MARKER = None))"
proof (rule conjI)
  show "classifyInboundOrder c now body issuer key = OrderMessage bs nonce \<longleftrightarrow>
      (\<exists>m t env. body = JObj m \<and> m_get m ORDER_MARKER = Some (JStr t) \<and> t \<noteq> [] \<and> length t \<le> marker_limit
         \<and> bs = cd_from_base64 c t \<and> bs \<noteq> [] \<and> length bs \<le> MAX_ORDER_BYTES
         \<and> authentic c now bs key env \<and> me_type env = JStr ''ORDER'' \<and> me_sender env = JStr issuer
         \<and> me_idempotency_key env = JStr nonce \<and> \<not> blank nonce)"
    unfolding classify_order_iff extract_marker_iff verify_order_iff by blast
  have "classifyInboundOrder c now body issuer key = PlainMessage \<longleftrightarrow> extractOrderMarker c body = MarkerAbsent"
    by (auto simp: classifyInboundOrder_def split: marker_extraction.splits verify_order_result.splits)
  then show "classifyInboundOrder c now body issuer key = PlainMessage \<longleftrightarrow>
      (case as_obj body of None \<Rightarrow> True | Some m \<Rightarrow> m_get m ORDER_MARKER = None)"
    by (cases body) (auto simp: extract_marker_absent)
qed

text \<open>
  C12. Round trip of an order: an order that is built, signed and wrapped into a message body is classified
  at the receiver as an order with exactly these bytes and this nonce, for any time while its TTL runs (for
  ever with the default TTL), provided the codec and base64 decode what they encoded, the verifier accepts
  what the matching key signed, the nonce is not blank and the order keeps within the size limits.
\<close>

theorem order_round_trip:
  assumes "env = buildOrderEnvelope uuid made issuer nonce payload ttl"
    and "bs = signOrder c env priv"
    and decodes: "cd_decode_envelope c (cd_encode_envelope c env) = Inr env"
      "cd_decode_signed c bs = Inr (encodeAndSign c env priv)"
      "cd_from_base64 c (cd_to_base64 c bs) = bs"
    and accepts: "cd_verify c pub (cd_encode_envelope c env) (cd_sign c priv (cd_encode_envelope c env)) = Inr True"
    and "\<not> blank nonce"
    and sizes: "bs \<noteq> []" "length bs \<le> MAX_ORDER_BYTES" "cd_to_base64 c bs \<noteq> []" "length (cd_to_base64 c bs) \<le> marker_limit"
    and ttl: "case ttl of None \<Rightarrow> True | Some t \<Rightarrow> now - made \<le> t"
  shows "classifyInboundOrder c now (wrapOrderInBody c bs) issuer pub = OrderMessage bs nonce"
proof -
  have "\<not> expired now env"
    using ttl assms(1) by (auto simp: expired_def buildOrderEnvelope_def createEnvelope_def split: option.splits)
  then have "authentic c now bs pub env"
    using decodes accepts by (simp add: authentic_def encodeAndSign_def Let_def)
  moreover have "me_type env = JStr ''ORDER''" "me_sender env = JStr issuer" "me_idempotency_key env = JStr nonce"
    unfolding assms(1) by (simp_all add: buildOrderEnvelope_def createEnvelope_def)
  ultimately have "verifyOrderBytes c now bs issuer pub = ValidOrder issuer nonce"
    using \<open>\<not> blank nonce\<close> by (auto simp: verify_order_iff)
  moreover have "extractOrderMarker c (wrapOrderInBody c bs) = MarkerBytes bs"
    using sizes decodes(3) by (auto simp: extract_marker_iff wrapOrderInBody_def)
  ultimately show ?thesis using \<open>\<not> blank nonce\<close> by (auto simp: classifyInboundOrder_def)
qed

text \<open>A codec on one order, for a concrete instance.\<close>

definition sample_env :: message_envelope where
  "sample_env = buildOrderEnvelope ''u-1'' 1000 ''spiffe://thinklocal/node/a'' ''nonce-1'' JNull None"

definition sample_codec :: codec where
  "sample_codec = \<lparr>cd_encode_envelope = \<lambda>_. [7], cd_decode_envelope = \<lambda>_. Inr sample_env,
     cd_encode_signed = \<lambda>s. sm_envelope s @ sm_signature s,
     cd_decode_signed = \<lambda>b. Inr \<lparr>sm_envelope = take 1 b, sm_signature = drop 1 b\<rparr>,
     cd_sign = \<lambda>k b. map (\<lambda>w. w + 1) b, cd_verify = \<lambda>k b s. Inr (s = map (\<lambda>w. w + 1) b),
     cd_to_base64 = map (\<lambda>w. char_of (unat w)), cd_from_base64 = map (\<lambda>ch. of_nat (of_char ch))\<rparr>"

theorem order_round_trip_witness:
  "classifyInboundOrder sample_codec 999999 (wrapOrderInBody sample_codec [7, 8]) ''spiffe://thinklocal/node/a'' ''pub''
     = OrderMessage [7, 8] ''nonce-1''"
proof -
  have bs: "[7, 8] = signOrder sample_codec sample_env ''priv''"
    by (simp add: signOrder_def serializeSignedMessage_def encodeAndSign_def sample_codec_def Let_def)
  show ?thesis
    by (rule order_round_trip [OF sample_env_def bs])
       (simp_all add: sample_codec_def encodeAndSign_def Let_def blank_iff js_space_def MAX_ORDER_BYTES_def marker_limit_def)
qed

end
