(* ===== verification/Agent_Inbox.thy ===== *)
theory Agent_Inbox
  imports Identity Signed_Order
begin

text \<open>
  The agent inbox (\<open>agent-inbox.ts\<close>) and the handler that fills it (the \<open>AGENT_MESSAGE\<close> case of the message
  handler in \<open>index.ts\<close>). The table is a list of rows in insertion order; its unique column is the message id.
  \<open>JSON.stringify\<close> of a body that is not a string is an argument (\<open>None\<close>: undefined), so is the hash of a key.
  Two readings of the clock in one call are two arguments.
\<close>

section \<open>Rows\<close>

definition MAX_MESSAGE_BYTES :: nat where "MAX_MESSAGE_BYTES = 64 * 1024"
definition MAX_SUBJECT_LENGTH :: nat where "MAX_SUBJECT_LENGTH = 200"

datatype verdict = VALID | INVALID

record inbox_message =
  im_id :: nat
  im_message_id :: string
  im_from_agent :: string
  im_to_agent :: string
  im_to_agent_instance :: "string option"
  im_subject :: "string option"
  im_body :: string
  im_in_reply_to :: "string option"
  im_sent_at :: string
  im_received_at :: time
  im_read_at :: "time option"
  im_archived :: bool
  im_is_order :: bool
  im_signed_bytes :: "bytes option"
  im_signer_spiffe :: "string option"
  im_signer_keyid :: "string option"
  im_signer_pubkey :: "string option"
  im_order_nonce :: "string option"
  im_verified_at :: "time option"
  im_verify_verdict :: "verdict option"
  im_trust_status :: "string option"

record agent_message =
  am_message_id :: json
  am_to :: string
  am_subject :: "string option"
  am_body :: json
  am_in_reply_to :: "string option"
  am_sent_at :: string

datatype order_context =
    ValidContext (oc_signed_bytes: bytes) (oc_signer_spiffe: string) (oc_signer_keyid: string)
      (oc_signer_pubkey: string) (oc_order_nonce: string)
  | InvalidContext

datatype reject_reason = BodyTooLarge | SubjectTooLong | MissingMessageId | InvalidTarget spiffe_error

datatype store_result = Delivered nat | Duplicate nat | RejectedStore reject_reason

type_synonym agent_inbox = "inbox_message list"

definition new_AgentInbox :: agent_inbox where "new_AgentInbox = []"

section \<open>Operations\<close>

text \<open>\<open>Buffer.byteLength(s, 'utf-8')\<close> for code units below 256.\<close>

definition utf8_length :: "string \<Rightarrow> nat" where
  "utf8_length s = sum_list (map (\<lambda>ch. if (of_char ch :: nat) < 128 then 1 else 2) s)"

definition body_text :: "(json \<Rightarrow> string option) \<Rightarrow> json \<Rightarrow> string option" where
  "body_text stringify body = (case as_str body of Some s \<Rightarrow> Some s | None \<Rightarrow> stringify body)"

definition findByMessageId :: "string \<Rightarrow> agent_inbox \<Rightarrow> inbox_message option" where
  "findByMessageId messageId rows = List.find (\<lambda>r. im_message_id r = messageId) rows"

text \<open>The columns a verified, an unverified or no order context gives.\<close>

definition order_row :: "time \<Rightarrow> order_context option \<Rightarrow> inbox_message \<Rightarrow> inbox_message" where
  "order_row receivedAt order row =
     (case order of
        Some (ValidContext bs spiffe keyid pubkey nonce) \<Rightarrow>
          row\<lparr>im_is_order := True, im_signed_bytes := Some bs, im_signer_spiffe := Some spiffe,
              im_signer_keyid := Some keyid, im_signer_pubkey := Some pubkey, im_order_nonce := Some nonce,
              im_verified_at := Some receivedAt, im_verify_verdict := Some VALID, im_trust_status := Some ''unknown''\<rparr>
      | Some InvalidContext \<Rightarrow> row\<lparr>im_verified_at := Some receivedAt, im_verify_verdict := Some INVALID\<rparr>
      | None \<Rightarrow> row)"

definition plain_row ::
  "nat \<Rightarrow> string \<Rightarrow> string \<Rightarrow> string \<Rightarrow> string option \<Rightarrow> agent_message \<Rightarrow> string \<Rightarrow> time \<Rightarrow> inbox_message" where
  "plain_row rid messageId fromAgent to_agent inst payload body receivedAt =
     \<lparr>im_id = rid, im_message_id = messageId, im_from_agent = fromAgent, im_to_agent = to_agent,
      im_to_agent_instance = inst, im_subject = am_subject payload, im_body = body,
      im_in_reply_to = am_in_reply_to payload, im_sent_at = am_sent_at payload, im_received_at = receivedAt,
      im_read_at = None, im_archived = False, im_is_order = False, im_signed_bytes = None, im_signer_spiffe = None,
      im_signer_keyid = None, im_signer_pubkey = None, im_order_nonce = None, im_verified_at = None,
      im_verify_verdict = None, im_trust_status = None\<rparr>"

text \<open>\<open>None\<close>: the body has no text and \<open>Buffer.byteLength\<close> throws.\<close>

definition store ::
  "(json \<Rightarrow> string option) \<Rightarrow> time \<Rightarrow> string \<Rightarrow> agent_message \<Rightarrow> order_context option \<Rightarrow> agent_inbox \<Rightarrow>
   (store_result \<times> agent_inbox) option" where
  "store stringify now fromAgent payload order rows =
     (case body_text stringify (am_body payload) of
        None \<Rightarrow> None
      | Some bodyStr \<Rightarrow> Some
          (if MAX_MESSAGE_BYTES < utf8_length bodyStr then (RejectedStore BodyTooLarge, rows)
           else if (case am_subject payload of None \<Rightarrow> False | Some s \<Rightarrow> MAX_SUBJECT_LENGTH < length s)
           then (RejectedStore SubjectTooLong, rows)
           else case as_str (am_message_id payload) of
             None \<Rightarrow> (RejectedStore MissingMessageId, rows)
           | Some messageId \<Rightarrow>
               if messageId = [] then (RejectedStore MissingMessageId, rows)
               else case findByMessageId messageId rows of
                 Some existing \<Rightarrow> (Duplicate (im_id existing), rows)
               | None \<Rightarrow>
                   (case normalizeAgentId (am_to payload) of
                      Inl e \<Rightarrow> (RejectedStore (InvalidTarget e), rows)
                    | Inr normalizedTo \<Rightarrow>
                        (case getAgentInstance (am_to payload) of
                           Inl e \<Rightarrow> (RejectedStore (InvalidTarget e), rows)
                         | Inr toInstance \<Rightarrow>
                             let rid = Suc (length rows)
                             in (Delivered rid,
                                 rows @ [order_row now order
                                   (plain_row rid messageId fromAgent normalizedTo toInstance payload bodyStr now)])))))"

definition verifyStoredOrder :: "codec \<Rightarrow> time \<Rightarrow> inbox_message \<Rightarrow> verify_order_result" where
  "verifyStoredOrder c now row =
     (case (im_signed_bytes row, im_signer_spiffe row, im_signer_pubkey row) of
        (Some bs, Some spiffe, Some pubkey) \<Rightarrow>
          if \<not> im_is_order row \<or> spiffe = [] \<or> pubkey = [] then InvalidOrder ''row is not a verified order''
          else verifyOrderBytes c now bs spiffe pubkey
      | _ \<Rightarrow> InvalidOrder ''row is not a verified order'')"

record list_opts =
  lo_unread_only :: bool
  lo_from_agent :: "string option"
  lo_limit :: "int option"
  lo_include_archived :: bool
  lo_for_instance :: "string option"
  lo_include_legacy :: "bool option"

definition from_matches :: "string option \<Rightarrow> inbox_message \<Rightarrow> bool" where
  "from_matches from_agent r = (case from_agent of None \<Rightarrow> True | Some a \<Rightarrow> a = [] \<or> im_from_agent r = a)"

definition instance_matches :: "string option \<Rightarrow> bool option \<Rightarrow> inbox_message \<Rightarrow> bool" where
  "instance_matches forInstance includeLegacy r =
     (case forInstance of
        None \<Rightarrow> True
      | Some i \<Rightarrow> i = [] \<or> im_to_agent_instance r = Some i
          \<or> default_to False includeLegacy \<and> im_to_agent_instance r = None)"

text \<open>A negative \<open>LIMIT\<close> is no limit; rows of equal time keep the order of the table.\<close>

definition list_messages :: "list_opts \<Rightarrow> agent_inbox \<Rightarrow> inbox_message list" where
  "list_messages opts rows =
     (let limit = default_to 50 (lo_limit opts);
          found = sort_key (\<lambda>r. - im_received_at r)
            (filter (\<lambda>r. (lo_include_archived opts \<or> \<not> im_archived r)
               \<and> (lo_unread_only opts \<longrightarrow> im_read_at r = None)
               \<and> from_matches (lo_from_agent opts) r
               \<and> instance_matches (lo_for_instance opts) (lo_include_legacy opts) r) rows)
      in if limit < 0 then found else take (nat limit) found)"

definition markRead :: "time \<Rightarrow> string \<Rightarrow> agent_inbox \<Rightarrow> bool \<times> agent_inbox" where
  "markRead now messageId rows =
     (let p = (\<lambda>r. im_message_id r = messageId \<and> im_read_at r = None)
      in (0 < t_changes p rows, t_update p (\<lambda>r. r\<lparr>im_read_at := Some now\<rparr>) rows))"

definition archive :: "string \<Rightarrow> agent_inbox \<Rightarrow> bool \<times> agent_inbox" where
  "archive messageId rows =
     (let p = (\<lambda>r. im_message_id r = messageId)
      in (0 < t_changes p rows, t_update p (\<lambda>r. r\<lparr>im_archived := True\<rparr>) rows))"

definition unreadCount :: "string option \<Rightarrow> string option \<Rightarrow> bool option \<Rightarrow> agent_inbox \<Rightarrow> nat" where
  "unreadCount fromAgent forInstance includeLegacy rows =
     length (filter (\<lambda>r. im_read_at r = None \<and> \<not> im_archived r \<and> from_matches fromAgent r
       \<and> instance_matches forInstance includeLegacy r) rows)"

section \<open>The message handler\<close>

record inbox_env =
  ie_codec :: codec
  ie_stringify :: "json \<Rightarrow> string option"
  ie_sha256hex :: "string \<Rightarrow> string"
  ie_self :: string

datatype ack_reason = RecipientMismatch | SenderNotPaired | StoreRejected reject_reason | AlreadyInInbox

record message_ack =
  ma_message_id :: json
  ma_delivered :: bool
  ma_reason :: "ack_reason option"

datatype inbox_effect =
    AuditOrderVerifyFailed string json string
  | AuditMessageRx string json
  | AuditOrderRx string json string string
  | EmitAuditNew string json "string option"
  | EmitInboxNew string json "string option" string

definition order_context_of :: "inbox_env \<Rightarrow> string \<Rightarrow> string \<Rightarrow> inbound_order_decision \<Rightarrow> order_context option" where
  "order_context_of env sender publicKey decision =
     (case decision of
        OrderMessage bs orderId \<Rightarrow> Some (ValidContext bs sender (orderKeyId (ie_sha256hex env) publicKey) publicKey orderId)
      | InvalidMarker _ \<Rightarrow> Some InvalidContext
      | PlainMessage \<Rightarrow> None)"

definition delivery_effects :: "inbox_env \<Rightarrow> string \<Rightarrow> agent_message \<Rightarrow> order_context option \<Rightarrow> inbox_effect list" where
  "delivery_effects env sender msg ctx =
     [AuditMessageRx sender (am_message_id msg)]
     @ (case ctx of
          Some (ValidContext _ _ keyid _ nonce) \<Rightarrow> [AuditOrderRx sender (am_message_id msg) nonce keyid]
        | _ \<Rightarrow> [])
     @ [EmitAuditNew sender (am_message_id msg) (am_subject msg),
        EmitInboxNew sender (am_message_id msg) (am_subject msg) (ie_self env)]"

text \<open>\<open>None\<close>: storing throws; the audit of a failed order is written before that and kept by the code.\<close>

definition handleAgentMessage ::
  "inbox_env \<Rightarrow> time \<Rightarrow> time \<Rightarrow> string \<Rightarrow> bool \<Rightarrow> string \<Rightarrow> agent_message \<Rightarrow> agent_inbox \<Rightarrow>
   (message_ack \<times> inbox_effect list \<times> agent_inbox) option" where
  "handleAgentMessage env tVerify tStore sender senderIsPaired senderPublicKey msg inbox =
     (if am_to msg \<noteq> ie_self env then
        Some (\<lparr>ma_message_id = am_message_id msg, ma_delivered = False, ma_reason = Some RecipientMismatch\<rparr>, [], inbox)
      else if \<not> senderIsPaired then
        Some (\<lparr>ma_message_id = am_message_id msg, ma_delivered = False, ma_reason = Some SenderNotPaired\<rparr>, [], inbox)
      else
        let decision = classifyInboundOrder (ie_codec env) tVerify (am_body msg) sender senderPublicKey;
            ctx = order_context_of env sender senderPublicKey decision;
            failed = (case decision of
              InvalidMarker reason \<Rightarrow> [AuditOrderVerifyFailed sender (am_message_id msg) reason] | _ \<Rightarrow> [])
        in map_option (\<lambda>(res, inbox').
             case res of
               RejectedStore reason \<Rightarrow>
                 (\<lparr>ma_message_id = am_message_id msg, ma_delivered = False, ma_reason = Some (StoreRejected reason)\<rparr>,
                  failed, inbox')
             | Duplicate _ \<Rightarrow>
                 (\<lparr>ma_message_id = am_message_id msg, ma_delivered = True, ma_reason = Some AlreadyInInbox\<rparr>, failed, inbox')
             | Delivered _ \<Rightarrow>
                 (\<lparr>ma_message_id = am_message_id msg, ma_delivered = True, ma_reason = None\<rparr>,
                  failed @ delivery_effects env sender msg ctx, inbox'))
           (store (ie_stringify env) tStore sender msg ctx inbox))"

section \<open>Runs\<close>

text \<open>Three routes write to the inbox: the handler of inbound messages, the two flag updates, and a send of a local agent to
  this daemon, whose message is stored at once under the daemon's own identity (\<open>handle_send\<close> of \<open>Inbox_Api\<close>; its broadcast
  cannot be reached, as \<open>normalize_not_star\<close> shows there).\<close>

inductive inbox_step :: "inbox_env \<Rightarrow> agent_inbox \<Rightarrow> agent_inbox \<Rightarrow> bool" for env where
  handled: "handleAgentMessage env tVerify tStore sender paired pubkey msg rows = Some (ack, effects, rows') \<Longrightarrow>
     inbox_step env rows rows'"
| marked: "inbox_step env rows (snd (markRead now messageId rows))"
| archived: "inbox_step env rows (snd (archive messageId rows))"
| sent_locally: "normalizeAgentId (am_to msg) = Inr (ie_self env) \<Longrightarrow>
     store (ie_stringify env) now (ie_self env) msg None rows = Some (res, rows') \<Longrightarrow> inbox_step env rows rows'"

text \<open>What a row promises about its provenance.\<close>

definition order_ok :: "inbox_env \<Rightarrow> inbox_message \<Rightarrow> bool" where
  "order_ok env r \<longleftrightarrow> (im_is_order r \<longleftrightarrow> im_verify_verdict r = Some VALID)
     \<and> (im_is_order r \<longrightarrow> (\<exists>t bs pubkey nonce.
          verifyOrderBytes (ie_codec env) t bs (im_from_agent r) pubkey = ValidOrder (im_from_agent r) nonce
          \<and> im_signed_bytes r = Some bs \<and> im_signer_spiffe r = Some (im_from_agent r)
          \<and> im_signer_pubkey r = Some pubkey \<and> im_order_nonce r = Some nonce
          \<and> im_signer_keyid r = Some (orderKeyId (ie_sha256hex env) pubkey)))"

definition row_ok :: "inbox_env \<Rightarrow> inbox_message \<Rightarrow> bool" where
  "row_ok env r \<longleftrightarrow> im_message_id r \<noteq> [] \<and> utf8_length (im_body r) \<le> MAX_MESSAGE_BYTES
     \<and> (case im_subject r of None \<Rightarrow> True | Some s \<Rightarrow> length s \<le> MAX_SUBJECT_LENGTH)
     \<and> normalizeAgentId (ie_self env) = Inr (im_to_agent r)
     \<and> order_ok env r"

text \<open>Reading and archiving change nothing else, and only once.\<close>

definition row_edge :: "inbox_message \<Rightarrow> inbox_message \<Rightarrow> bool" where
  "row_edge a b \<longleftrightarrow> b = a\<lparr>im_read_at := im_read_at b, im_archived := im_archived b\<rparr>
     \<and> (im_read_at a \<noteq> None \<longrightarrow> im_read_at b = im_read_at a) \<and> (im_archived a \<longrightarrow> im_archived b)"

definition inbox_inv :: "inbox_env \<Rightarrow> agent_inbox \<Rightarrow> bool" where
  "inbox_inv env rows \<longleftrightarrow> t_unique im_message_id rows \<and> map im_id rows = [1..<Suc (length rows)]
     \<and> (\<forall>r \<in> set rows. row_ok env r)"

section \<open>Lemmas\<close>

lemma order_row_fields [simp]:
  "im_id (order_row t ctx r) = im_id r" "im_message_id (order_row t ctx r) = im_message_id r"
  "im_body (order_row t ctx r) = im_body r" "im_subject (order_row t ctx r) = im_subject r"
  "im_from_agent (order_row t ctx r) = im_from_agent r"
  "im_to_agent (order_row t ctx r) = im_to_agent r" "im_to_agent_instance (order_row t ctx r) = im_to_agent_instance r"
  "im_read_at (order_row t ctx r) = im_read_at r" "im_archived (order_row t ctx r) = im_archived r"
  by (simp_all add: order_row_def split: option.splits order_context.splits)

lemma store_delivered:
  assumes "store stringify now sender msg ctx rows = Some (Delivered rid, rows')"
  shows "\<exists>i body to_agent inst. am_message_id msg = JStr i \<and> i \<noteq> [] \<and> findByMessageId i rows = None
    \<and> body_text stringify (am_body msg) = Some body \<and> utf8_length body \<le> MAX_MESSAGE_BYTES
    \<and> (case am_subject msg of None \<Rightarrow> True | Some s \<Rightarrow> length s \<le> MAX_SUBJECT_LENGTH)
    \<and> normalizeAgentId (am_to msg) = Inr to_agent \<and> getAgentInstance (am_to msg) = Inr inst
    \<and> rid = Suc (length rows)
    \<and> rows' = rows @ [order_row now ctx (plain_row rid i sender to_agent inst msg body now)]"
  using assms unfolding store_def
  by (auto simp: as_str_Some Let_def not_less split: option.splits if_splits sum.splits)

lemma store_other:
  "store stringify now sender msg ctx rows = Some (res, rows') \<Longrightarrow> (\<And>rid. res \<noteq> Delivered rid) \<Longrightarrow> rows' = rows"
  unfolding store_def by (auto simp: Let_def split: option.splits if_splits sum.splits)

lemma order_context_ok:
  assumes "ctx = order_context_of env sender pk (classifyInboundOrder (ie_codec env) tv body sender pk)"
  shows "order_ok env (order_row t ctx (plain_row rid i sender a inst msg txt t))"
proof (cases "classifyInboundOrder (ie_codec env) tv body sender pk")
  case (OrderMessage bs nonce)
  then have "verifyOrderBytes (ie_codec env) tv bs sender pk = ValidOrder sender nonce"
    by (simp add: classify_order_iff)
  with OrderMessage assms show ?thesis
    by (auto simp: order_ok_def order_context_of_def order_row_def plain_row_def)
qed (use assms in \<open>auto simp: order_ok_def order_context_of_def order_row_def plain_row_def\<close>)

text \<open>A handled message either leaves the inbox alone or appends one sound row under a new message id.\<close>

lemma handled_cases:
  assumes "handleAgentMessage env tv ts sender paired pk msg rows = Some (ack, effects, rows')"
  shows "rows' = rows \<or> (\<exists>r. rows' = rows @ [r] \<and> row_ok env r \<and> findByMessageId (im_message_id r) rows = None
    \<and> im_id r = Suc (length rows) \<and> im_from_agent r = sender \<and> paired \<and> im_read_at r = None \<and> \<not> im_archived r)"
proof (cases "am_to msg = ie_self env \<and> paired")
  case False
  with assms show ?thesis by (auto simp: handleAgentMessage_def split: if_splits)
next
  case True
  define ctx where "ctx = order_context_of env sender pk (classifyInboundOrder (ie_codec env) tv (am_body msg) sender pk)"
  from assms True obtain res rows1 where st1: "store (ie_stringify env) ts sender msg ctx rows = Some (res, rows1)"
    by (auto simp: handleAgentMessage_def Let_def ctx_def)
  with assms True have "rows1 = rows'"
    by (cases res) (auto simp: handleAgentMessage_def Let_def ctx_def)
  with st1 have st: "store (ie_stringify env) ts sender msg ctx rows = Some (res, rows')" by simp
  show ?thesis
  proof (cases "\<exists>rid. res = Delivered rid")
    case False
    then show ?thesis using store_other [OF st] by blast
  next
    case rid: True
    then obtain rid where st': "store (ie_stringify env) ts sender msg ctx rows = Some (Delivered rid, rows')"
      using st by blast
    from store_delivered [OF this] obtain i body to_agent inst where row: "i \<noteq> []" "findByMessageId i rows = None"
        "utf8_length body \<le> MAX_MESSAGE_BYTES"
        "case am_subject msg of None \<Rightarrow> True | Some s \<Rightarrow> length s \<le> MAX_SUBJECT_LENGTH"
        "normalizeAgentId (am_to msg) = Inr to_agent" "getAgentInstance (am_to msg) = Inr inst" "rid = Suc (length rows)"
        "rows' = rows @ [order_row ts ctx (plain_row rid i sender to_agent inst msg body ts)]"
      by blast
    let ?r = "order_row ts ctx (plain_row rid i sender to_agent inst msg body ts)"
    have "order_ok env ?r" by (rule order_context_ok [OF ctx_def])
    then have "row_ok env ?r" using row True by (simp add: row_ok_def) (simp add: plain_row_def)
    then show ?thesis using row True by (intro disjI2 exI [of _ ?r]) (simp add: plain_row_def)
  qed
qed

lemma sent_cases:
  assumes to: "normalizeAgentId (am_to msg) = Inr (ie_self env)"
    and st: "store (ie_stringify env) now (ie_self env) msg None rows = Some (res, rows')"
  shows "rows' = rows \<or> (\<exists>r. rows' = rows @ [r] \<and> row_ok env r \<and> findByMessageId (im_message_id r) rows = None
    \<and> im_id r = Suc (length rows))"
proof (cases res)
  case (Delivered rid)
  have "normalizeAgentId (ie_self env) = Inr (ie_self env)" using normalize_agent_id [OF to] by simp
  then show ?thesis
    using store_delivered [OF st [unfolded Delivered]] to
    by (fastforce simp: row_ok_def order_ok_def order_row_def plain_row_def)
qed (use store_other [OF st] in auto)

lemma inbox_inv_append:
  "inbox_inv env rows \<Longrightarrow> row_ok env r \<Longrightarrow> findByMessageId (im_message_id r) rows = None \<Longrightarrow>
   im_id r = Suc (length rows) \<Longrightarrow> inbox_inv env (rows @ [r])"
  by (auto simp: inbox_inv_def t_unique_append1 findByMessageId_def find_None_iff)

text \<open>Both updates touch only the flags of the row they select.\<close>

lemma flag_update:
  assumes "\<And>r. row_edge r (f r)"
  shows "inbox_inv env rows \<Longrightarrow> inbox_inv env (t_update p f rows)"
    and "findByMessageId i (t_update p f rows) = map_option (\<lambda>r. if p r then f r else r) (findByMessageId i rows)"
proof -
  have same: "im_message_id (f r) = im_message_id r" "im_id (f r) = im_id r" "row_ok env r \<Longrightarrow> row_ok env (f r)" for r
  proof -
    obtain t a where "f r = r\<lparr>im_read_at := t, im_archived := a\<rparr>" using assms [of r] unfolding row_edge_def by blast
    then show "im_message_id (f r) = im_message_id r" "im_id (f r) = im_id r" "row_ok env r \<Longrightarrow> row_ok env (f r)"
      by (simp_all add: row_ok_def order_ok_def)
  qed
  have "map im_id (t_update p f rows) = map im_id rows" "length (t_update p f rows) = length rows"
    by (simp_all add: t_update_keys same) (simp add: t_update_def)
  then show "inbox_inv env rows \<Longrightarrow> inbox_inv env (t_update p f rows)"
    by (auto simp: inbox_inv_def t_unique_update same) (auto simp: t_update_def same)
  show "findByMessageId i (t_update p f rows) = map_option (\<lambda>r. if p r then f r else r) (findByMessageId i rows)"
    unfolding findByMessageId_def by (rule find_key_update) (rule same)
qed

lemma mark_edge: "row_edge r (if im_message_id r = i \<and> im_read_at r = None then r\<lparr>im_read_at := Some t\<rparr> else r)"
  and archive_edge: "row_edge r (r\<lparr>im_archived := True\<rparr>)"
  by (auto simp: row_edge_def)

lemma mark_as_update:
  "snd (markRead t i rows) = t_update (\<lambda>_. True)
     (\<lambda>r. if im_message_id r = i \<and> im_read_at r = None then r\<lparr>im_read_at := Some t\<rparr> else r) rows"
  by (simp add: markRead_def Let_def t_update_def)

lemma archive_as_update:
  "snd (archive i rows) = t_update (\<lambda>r. im_message_id r = i) (\<lambda>r. r\<lparr>im_archived := True\<rparr>) rows"
  by (simp add: archive_def Let_def)

interpretation inbox_cycle: lifecycle "inbox_step env" "\<lambda>rows k. findByMessageId k rows" row_edge "row_ok env" "\<lambda>_. False" "inbox_inv env"
proof
  fix s t k a
  assume inv: "inbox_inv env s" and step: "inbox_step env s t"
  have upd: "case findByMessageId k (t_update p f s) of None \<Rightarrow> False | Some b \<Rightarrow> b = a \<or> row_edge a b"
    if "findByMessageId k s = Some a" "\<And>r. row_edge r (f r)" for p f
    using flag_update(2) [OF that(2), where p = p and rows = s and i = k] that by auto
  show "inbox_inv env t"
    using step
  proof cases
    case handled
    then show ?thesis using handled_cases inbox_inv_append inv by metis
  next
    case sent_locally
    then show ?thesis using sent_cases inbox_inv_append inv by metis
  next
    case marked
    show ?thesis unfolding marked mark_as_update by (rule flag_update(1) [OF mark_edge inv])
  next
    case archived
    show ?thesis unfolding archived archive_as_update by (rule flag_update(1) [OF archive_edge inv])
  qed
  show "case findByMessageId k t of None \<Rightarrow> False | Some b \<Rightarrow> b = a \<or> row_edge a b" if a: "findByMessageId k s = Some a"
    using step
  proof cases
    case handled
    from handled_cases [OF handled] a show ?thesis by (auto simp: findByMessageId_def find_key_append)
  next
    case sent_locally
    from sent_cases [OF sent_locally] a show ?thesis by (auto simp: findByMessageId_def find_key_append)
  next
    case marked
    show ?thesis unfolding marked mark_as_update by (rule upd [OF a mark_edge])
  next
    case archived
    show ?thesis unfolding archived archive_as_update by (rule upd [OF a archive_edge])
  qed
next
  fix s t k b
  assume step: "inbox_step env s t" and none: "findByMessageId k s = None" and b: "findByMessageId k t = Some b"
  from step show "row_ok env b"
  proof cases
    case handled
    from handled_cases [OF handled] none b show ?thesis
      by (auto simp: findByMessageId_def find_key_append split: if_splits)
  next
    case sent_locally
    from sent_cases [OF sent_locally] none b show ?thesis
      by (auto simp: findByMessageId_def find_key_append split: if_splits)
  next
    case marked
    then show ?thesis using none b flag_update(2) [OF mark_edge] by (simp add: mark_as_update)
  next
    case archived
    then show ?thesis using none b flag_update(2) [OF archive_edge] by (simp add: archive_as_update)
  qed
qed

lemma row_edge_path: "row_edge\<^sup>*\<^sup>* a b \<Longrightarrow> row_edge a b"
proof (induction rule: rtranclp_induct)
  case (step b c)
  then show ?case unfolding row_edge_def by (cases a; cases b; cases c) auto
qed (simp add: row_edge_def)

lemma new_inbox_inv: "inbox_inv env new_AgentInbox"
  by (simp add: inbox_inv_def new_AgentInbox_def)

section \<open>Properties\<close>

text \<open>
  C13. Provenance and persistence of messages. In every inbox the daemon can reach by messages of
  peers, messages of its own agents and flag updates, the rows are numbered in
  order of arrival, message ids are unique, bodies and subjects keep within their limits and every row is
  addressed to this node. A row is marked as an order exactly when its verdict is VALID, and then it holds
  the very bytes that verified, under the key and the nonce it names, as an order issued by the sender of
  the message. A stored message is never lost, and afterwards only its read time, once, and its archive flag
  change.
\<close>

theorem inbox_provenance:
  assumes "(inbox_step env)\<^sup>*\<^sup>* new_AgentInbox rows" and "(inbox_step env)\<^sup>*\<^sup>* rows rows'"
  shows "distinct (map im_message_id rows) \<and> map im_id rows = [1..<Suc (length rows)]
    \<and> (\<forall>r \<in> set rows. utf8_length (im_body r) \<le> MAX_MESSAGE_BYTES
         \<and> normalizeAgentId (ie_self env) = Inr (im_to_agent r)
         \<and> (im_is_order r \<longleftrightarrow> im_verify_verdict r = Some VALID)
         \<and> (im_is_order r \<longrightarrow> (\<exists>t bs pubkey nonce.
              verifyOrderBytes (ie_codec env) t bs (im_from_agent r) pubkey = ValidOrder (im_from_agent r) nonce
              \<and> im_signed_bytes r = Some bs \<and> im_signer_spiffe r = Some (im_from_agent r)
              \<and> im_signer_pubkey r = Some pubkey \<and> im_order_nonce r = Some nonce)))
    \<and> (\<forall>i r. findByMessageId i rows = Some r \<longrightarrow>
         (\<exists>read arch. findByMessageId i rows' = Some (r\<lparr>im_read_at := read, im_archived := arch\<rparr>)
            \<and> (im_read_at r \<noteq> None \<longrightarrow> read = im_read_at r) \<and> (im_archived r \<longrightarrow> arch)))"
proof (intro conjI ballI allI impI)
  have inv: "inbox_inv env rows" by (rule inbox_cycle.inv_reach [OF assms(1) new_inbox_inv])
  then show "distinct (map im_message_id rows)" "map im_id rows = [1..<Suc (length rows)]"
    by (auto simp: inbox_inv_def t_unique_def)
  fix r assume "r \<in> set rows"
  with inv have "row_ok env r" by (simp add: inbox_inv_def)
  then show "utf8_length (im_body r) \<le> MAX_MESSAGE_BYTES" "normalizeAgentId (ie_self env) = Inr (im_to_agent r)"
    and "im_is_order r \<longleftrightarrow> im_verify_verdict r = Some VALID"
    by (auto simp: row_ok_def order_ok_def)
  show "\<exists>t bs pubkey nonce.
      verifyOrderBytes (ie_codec env) t bs (im_from_agent r) pubkey = ValidOrder (im_from_agent r) nonce
      \<and> im_signed_bytes r = Some bs \<and> im_signer_spiffe r = Some (im_from_agent r)
      \<and> im_signer_pubkey r = Some pubkey \<and> im_order_nonce r = Some nonce" if "im_is_order r"
    using \<open>row_ok env r\<close> that by (auto simp: row_ok_def order_ok_def)
next
  fix i r assume "findByMessageId i rows = Some r"
  from inbox_cycle.entry_kept [OF assms(2) inbox_cycle.inv_reach [OF assms(1) new_inbox_inv] this]
  obtain b where b: "findByMessageId i rows' = Some b" and "row_edge\<^sup>*\<^sup>* r b" by auto
  then have "row_edge r b" by (simp add: row_edge_path)
  then have "b = r\<lparr>im_read_at := im_read_at b, im_archived := im_archived b\<rparr>"
    and "im_read_at r \<noteq> None \<longrightarrow> im_read_at b = im_read_at r" "im_archived r \<longrightarrow> im_archived b"
    unfolding row_edge_def by blast+
  with b show "\<exists>read arch. findByMessageId i rows' = Some (r\<lparr>im_read_at := read, im_archived := arch\<rparr>)
      \<and> (im_read_at r \<noteq> None \<longrightarrow> read = im_read_at r) \<and> (im_archived r \<longrightarrow> arch)" by metis
qed

definition sample_inbox_env :: inbox_env where
  "sample_inbox_env = \<lparr>ie_codec = sample_codec, ie_stringify = \<lambda>_. Some ''{}'', ie_sha256hex = id,
     ie_self = ''spiffe://thinklocal/host/n1/agent/claude''\<rparr>"

definition sample_message :: agent_message where
  "sample_message = \<lparr>am_message_id = JStr ''m1'', am_to = ''spiffe://thinklocal/host/n1/agent/claude'', am_subject = None,
     am_body = wrapOrderInBody sample_codec [7, 8], am_in_reply_to = None, am_sent_at = ''t''\<rparr>"

definition sample_rows :: agent_inbox where
  "sample_rows = [order_row 5 (Some (ValidContext [7, 8] ''spiffe://thinklocal/node/a'' ''pub'' ''pub'' ''nonce-1''))
     (plain_row 1 ''m1'' ''spiffe://thinklocal/node/a'' ''spiffe://thinklocal/host/n1/agent/claude'' None sample_message ''{}'' 5)]"

lemma sample_classified:
  "classifyInboundOrder sample_codec 4 (wrapOrderInBody sample_codec [7, 8]) ''spiffe://thinklocal/node/a'' ''pub''
     = OrderMessage [7, 8] ''nonce-1''"
proof -
  have "extractOrderMarker sample_codec (wrapOrderInBody sample_codec [7, 8]) = MarkerBytes [7, 8]"
    by (simp add: extractOrderMarker_def wrapOrderInBody_def sample_codec_def Let_def marker_limit_def MAX_ORDER_BYTES_def)
  moreover have "verifyOrderBytes sample_codec 4 [7, 8] ''spiffe://thinklocal/node/a'' ''pub''
      = ValidOrder ''spiffe://thinklocal/node/a'' ''nonce-1''"
    by (simp add: verifyOrderBytes_def deserializeSignedMessage_def decodeAndVerify_def sample_codec_def sample_env_def
        buildOrderEnvelope_def createEnvelope_def expired_def blank_iff js_space_def)
  ultimately show ?thesis by (simp add: classify_order_iff)
qed

lemma sample_uri:
  "normalizeAgentId ''spiffe://thinklocal/host/n1/agent/claude'' = Inr ''spiffe://thinklocal/host/n1/agent/claude''"
  "getAgentInstance ''spiffe://thinklocal/host/n1/agent/claude'' = Inr None"
  by code_simp+

lemma sample_fields:
  "am_message_id sample_message = JStr ''m1''" "am_to sample_message = ie_self sample_inbox_env" "am_subject sample_message = None"
  "am_body sample_message = wrapOrderInBody sample_codec [7, 8]"
  "ie_codec sample_inbox_env = sample_codec" "ie_sha256hex sample_inbox_env = id"
  "ie_stringify sample_inbox_env = (\<lambda>_. Some ''{}'')"
  by (simp_all add: sample_message_def sample_inbox_env_def)

lemma sample_stored:
  "store (\<lambda>_. Some ''{}'') 5 sender sample_message ctx [] =
     Some (Delivered 1, [order_row 5 ctx (plain_row 1 ''m1'' sender (ie_self sample_inbox_env) None sample_message ''{}'' 5)])"
proof -
  have "normalizeAgentId (ie_self sample_inbox_env) = Inr (ie_self sample_inbox_env)"
    "getAgentInstance (ie_self sample_inbox_env) = Inr None"
    by (simp_all add: sample_inbox_env_def sample_uri)
  then show ?thesis
    by (simp add: store_def body_text_def sample_fields wrapOrderInBody_def utf8_length_def MAX_MESSAGE_BYTES_def findByMessageId_def)
qed

lemma sample_handled:
  "handleAgentMessage sample_inbox_env 4 5 ''spiffe://thinklocal/node/a'' True ''pub'' sample_message []
   = Some (\<lparr>ma_message_id = JStr ''m1'', ma_delivered = True, ma_reason = None\<rparr>,
       [AuditMessageRx ''spiffe://thinklocal/node/a'' (JStr ''m1''), AuditOrderRx ''spiffe://thinklocal/node/a'' (JStr ''m1'') ''nonce-1'' ''pub'',
        EmitAuditNew ''spiffe://thinklocal/node/a'' (JStr ''m1'') None,
        EmitInboxNew ''spiffe://thinklocal/node/a'' (JStr ''m1'') None ''spiffe://thinklocal/host/n1/agent/claude''], sample_rows)"
proof -
  have "ie_self sample_inbox_env = ''spiffe://thinklocal/host/n1/agent/claude''" by (simp add: sample_inbox_env_def)
  then show ?thesis
    by (simp add: handleAgentMessage_def sample_fields sample_classified sample_stored Let_def order_context_of_def
        orderKeyId_def delivery_effects_def sample_rows_def)
qed

theorem inbox_provenance_witness:
  "sample_rows \<noteq> [] \<and> list_all (\<lambda>r. normalizeAgentId (ie_self sample_inbox_env) = Inr (im_to_agent r)) sample_rows
   \<and> (\<exists>read arch. findByMessageId ''m1'' (snd (markRead 9 ''m1'' sample_rows)) = Some ((hd sample_rows)\<lparr>im_read_at := read, im_archived := arch\<rparr>))"
proof -
  have reach: "(inbox_step sample_inbox_env)\<^sup>*\<^sup>* new_AgentInbox sample_rows"
    using inbox_step.handled [OF sample_handled] by (simp add: new_AgentInbox_def r_into_rtranclp)
  have later: "(inbox_step sample_inbox_env)\<^sup>*\<^sup>* sample_rows (snd (markRead 9 ''m1'' sample_rows))"
    by (simp add: inbox_step.marked r_into_rtranclp)
  have "findByMessageId ''m1'' sample_rows = Some (hd sample_rows)"
    by (simp add: sample_rows_def findByMessageId_def plain_row_def)
  moreover have "sample_rows \<noteq> []" by (simp add: sample_rows_def)
  ultimately show ?thesis using inbox_provenance [OF reach later] unfolding list_all_iff by blast
qed

lemma delivery_outcome:
  assumes "body_text (ie_stringify env) (am_body msg) = Some body"
    and "acceptable \<longleftrightarrow> am_to msg = ie_self env \<and> paired \<and> utf8_length body \<le> MAX_MESSAGE_BYTES
           \<and> (case am_subject msg of None \<Rightarrow> True | Some s \<Rightarrow> length s \<le> MAX_SUBJECT_LENGTH)
           \<and> (\<exists>i. am_message_id msg = JStr i \<and> i \<noteq> []
                \<and> (findByMessageId i rows \<noteq> None \<or> (\<exists>u. parseSpiffeUri (ie_self env) = Inr u)))"
    and "known \<longleftrightarrow> (\<exists>i r. am_message_id msg = JStr i \<and> findByMessageId i rows = Some r)"
  shows "\<exists>ack effects rows'. handleAgentMessage env tv ts sender paired pk msg rows = Some (ack, effects, rows')
    \<and> (ma_delivered ack \<longleftrightarrow> acceptable)
    \<and> (if acceptable \<and> \<not> known then (\<exists>r. rows' = rows @ [r] \<and> JStr (im_message_id r) = am_message_id msg
          \<and> im_from_agent r = sender \<and> im_body r = body) else rows' = rows)
    \<and> ((\<exists>a b c d. EmitInboxNew a b c d \<in> set effects) \<longleftrightarrow> acceptable \<and> \<not> known)"
proof (cases "am_to msg = ie_self env \<and> paired")
  case False
  with assms(2) show ?thesis by (auto simp: handleAgentMessage_def)
next
  case True
  define decision where "decision = classifyInboundOrder (ie_codec env) tv (am_body msg) sender pk"
  define ctx where "ctx = order_context_of env sender pk decision"
  define failed where "failed = (case decision of
    InvalidMarker reason \<Rightarrow> [AuditOrderVerifyFailed sender (am_message_id msg) reason] | _ \<Rightarrow> [])"
  have failed: "EmitInboxNew a b c d \<notin> set failed" for a b c d
    by (auto simp: failed_def split: inbound_order_decision.splits)
  have news: "\<exists>a b c d. EmitInboxNew a b c d \<in> set (delivery_effects env sender msg ctx)"
    by (auto simp: delivery_effects_def)
  have uri: "normalizeAgentId uri = Inl e \<Longrightarrow> parseSpiffeUri uri = Inl e"
    "getAgentInstance uri = Inl e \<Longrightarrow> parseSpiffeUri uri = Inl e"
    "normalizeAgentId uri = Inr n \<Longrightarrow> \<exists>u. parseSpiffeUri uri = Inr u" for uri e n
    by (auto simp: normalizeAgentId_def getAgentInstance_def split: sum.splits parsed_uri.splits)
  have "store (ie_stringify env) ts sender msg ctx rows \<noteq> None" using assms(1) by (simp add: store_def)
  then obtain res rows' where st: "store (ie_stringify env) ts sender msg ctx rows = Some (res, rows')" by auto
  have "if acceptable then if known then (\<exists>n. res = Duplicate n) \<and> rows' = rows
        else \<exists>n. res = Delivered n else (\<exists>e. res = RejectedStore e) \<and> rows' = rows"
    using st assms True unfolding store_def
    by (auto simp: as_str_Some Let_def not_less split: option.splits if_splits sum.splits dest: uri)
  moreover have "\<exists>r. rows' = rows @ [r] \<and> JStr (im_message_id r) = am_message_id msg \<and> im_from_agent r = sender \<and> im_body r = body"
    if "res = Delivered n" for n
    using store_delivered [OF st [unfolded that]] assms(1) by (auto simp: plain_row_def)
  moreover have "handleAgentMessage env tv ts sender paired pk msg rows =
     (case res of
        RejectedStore reason \<Rightarrow>
          Some (\<lparr>ma_message_id = am_message_id msg, ma_delivered = False, ma_reason = Some (StoreRejected reason)\<rparr>, failed, rows')
      | Duplicate _ \<Rightarrow>
          Some (\<lparr>ma_message_id = am_message_id msg, ma_delivered = True, ma_reason = Some AlreadyInInbox\<rparr>, failed, rows')
      | Delivered _ \<Rightarrow>
          Some (\<lparr>ma_message_id = am_message_id msg, ma_delivered = True, ma_reason = None\<rparr>,
            failed @ delivery_effects env sender msg ctx, rows'))"
    using True st by (cases res) (simp_all add: handleAgentMessage_def Let_def ctx_def decision_def failed_def)
  ultimately show ?thesis
    using failed news by (cases res) (auto split: if_splits)
qed

text \<open>
  Outcome of an incoming message whose body has a text. The acknowledgement says \<open>delivered\<close> exactly when
  the message is addressed to this node, comes from a paired sender, keeps the limits, has an id and, unless
  the id is already known, this node's identity is a well-formed URI; the inbox then grows by one row for a
  new id and stays as it is for a known one, and is untouched by every refused message; new mail is announced
  exactly for a new row.
\<close>

theorem inbox_delivery:
  assumes "body_text (ie_stringify env) (am_body msg) = Some body"
    and "acceptable \<longleftrightarrow> am_to msg = ie_self env \<and> paired \<and> utf8_length body \<le> MAX_MESSAGE_BYTES
           \<and> (case am_subject msg of None \<Rightarrow> True | Some s \<Rightarrow> length s \<le> MAX_SUBJECT_LENGTH)
           \<and> (\<exists>i. am_message_id msg = JStr i \<and> i \<noteq> []
                \<and> (findByMessageId i rows \<noteq> None \<or> (\<exists>u. parseSpiffeUri (ie_self env) = Inr u)))"
    and "known \<longleftrightarrow> (\<exists>i r. am_message_id msg = JStr i \<and> findByMessageId i rows = Some r)"
  shows "\<exists>ack effects rows'. handleAgentMessage env tv ts sender paired pk msg rows = Some (ack, effects, rows')
    \<and> (ma_delivered ack \<longleftrightarrow> acceptable)
    \<and> (if acceptable \<and> \<not> known then (\<exists>r. rows' = rows @ [r] \<and> JStr (im_message_id r) = am_message_id msg
          \<and> im_from_agent r = sender \<and> im_body r = body) else rows' = rows)
    \<and> ((\<exists>a b c d. EmitInboxNew a b c d \<in> set effects) \<longleftrightarrow> acceptable \<and> \<not> known)"
  by (rule delivery_outcome [OF assms])

theorem inbox_delivery_witness:
  "\<exists>ack effects rows'. handleAgentMessage sample_inbox_env 4 5 ''spiffe://thinklocal/node/x'' False ''pub'' sample_message []
      = Some (ack, effects, rows') \<and> \<not> ma_delivered ack \<and> rows' = []"
  using inbox_delivery [where env = sample_inbox_env and msg = sample_message and body = "''{}''" and paired = False
      and rows = "[]" and tv = 4 and ts = 5 and pk = "''pub''" and sender = "''spiffe://thinklocal/node/x''"
      and acceptable = False and known = False]
  by (simp add: body_text_def wrapOrderInBody_def findByMessageId_def)
     (auto simp: sample_message_def wrapOrderInBody_def sample_inbox_env_def)

text \<open>
  Views of the inbox. A list for an agent instance contains only messages for that instance, unless
  legacy rows are asked for; it contains no archived message unless asked, is ordered by arrival, latest
  first, keeps the limit, and with a negative limit is complete. The unread count is the length of the
  unlimited list of unread messages, and marking a message as read lowers it by one exactly when the message
  was unread and not archived.
\<close>

theorem inbox_views:
  "(\<forall>r \<in> set (list_messages opts rows). r \<in> set rows \<and> (im_archived r \<longrightarrow> lo_include_archived opts)
      \<and> (lo_unread_only opts \<longrightarrow> im_read_at r = None)
      \<and> (\<forall>i. lo_for_instance opts = Some i \<and> i \<noteq> [] \<and> lo_include_legacy opts \<noteq> Some True \<longrightarrow> im_to_agent_instance r = Some i))
   \<and> sorted (map (\<lambda>r. - im_received_at r) (list_messages opts rows))
   \<and> (0 \<le> default_to 50 (lo_limit opts) \<longrightarrow> int (length (list_messages opts rows)) \<le> default_to 50 (lo_limit opts))
   \<and> unreadCount a i l rows = length (list_messages \<lparr>lo_unread_only = True, lo_from_agent = a, lo_limit = Some (- 1),
        lo_include_archived = False, lo_for_instance = i, lo_include_legacy = l\<rparr> rows)
   \<and> (distinct (map im_message_id rows) \<longrightarrow>
        unreadCount None None None rows = unreadCount None None None (snd (markRead t m rows))
          + (case findByMessageId m rows of None \<Rightarrow> 0
             | Some r \<Rightarrow> if im_read_at r = None \<and> \<not> im_archived r then 1 else 0))"
proof (intro conjI)
  show "\<forall>r \<in> set (list_messages opts rows). r \<in> set rows \<and> (im_archived r \<longrightarrow> lo_include_archived opts)
      \<and> (lo_unread_only opts \<longrightarrow> im_read_at r = None)
      \<and> (\<forall>i. lo_for_instance opts = Some i \<and> i \<noteq> [] \<and> lo_include_legacy opts \<noteq> Some True \<longrightarrow> im_to_agent_instance r = Some i)"
  proof
    fix r assume "r \<in> set (list_messages opts rows)"
    then have "r \<in> set rows" "lo_include_archived opts \<or> \<not> im_archived r" "lo_unread_only opts \<longrightarrow> im_read_at r = None"
      "instance_matches (lo_for_instance opts) (lo_include_legacy opts) r"
      by (auto simp: list_messages_def Let_def split: if_splits dest!: in_set_takeD)
    then show "r \<in> set rows \<and> (im_archived r \<longrightarrow> lo_include_archived opts) \<and> (lo_unread_only opts \<longrightarrow> im_read_at r = None)
      \<and> (\<forall>i. lo_for_instance opts = Some i \<and> i \<noteq> [] \<and> lo_include_legacy opts \<noteq> Some True \<longrightarrow> im_to_agent_instance r = Some i)"
      by (auto simp: instance_matches_def split: option.splits)
  qed
  show "sorted (map (\<lambda>r. - im_received_at r) (list_messages opts rows))"
    by (simp add: list_messages_def Let_def take_map [symmetric] sorted_wrt_take)
  show "0 \<le> default_to 50 (lo_limit opts) \<longrightarrow> int (length (list_messages opts rows)) \<le> default_to 50 (lo_limit opts)"
    by (auto simp: list_messages_def Let_def)
  show "unreadCount a i l rows = length (list_messages \<lparr>lo_unread_only = True, lo_from_agent = a, lo_limit = Some (- 1),
        lo_include_archived = False, lo_for_instance = i, lo_include_legacy = l\<rparr> rows)"
    by (simp add: unreadCount_def list_messages_def conj_ac)
  show "distinct (map im_message_id rows) \<longrightarrow>
      unreadCount None None None rows = unreadCount None None None (snd (markRead t m rows))
        + (case findByMessageId m rows of None \<Rightarrow> 0
           | Some r \<Rightarrow> if im_read_at r = None \<and> \<not> im_archived r then 1 else 0)"
  proof
    assume "distinct (map im_message_id rows)"
    then show "unreadCount None None None rows = unreadCount None None None (snd (markRead t m rows))
        + (case findByMessageId m rows of None \<Rightarrow> 0
           | Some r \<Rightarrow> if im_read_at r = None \<and> \<not> im_archived r then 1 else 0)"
    proof (induction rows)
      case (Cons r rows)
      have "findByMessageId m rows = None" if "im_message_id r = m"
        using Cons.prems unfolding findByMessageId_def find_None_key that [symmetric] by simp
      with Cons show ?case
        by (auto simp: unreadCount_def markRead_def Let_def t_update_def findByMessageId_def from_matches_def
            instance_matches_def split: option.splits)
    qed (simp add: unreadCount_def markRead_def t_update_def findByMessageId_def)
  qed
qed

theorem inbox_views_witness:
  "unreadCount None None None sample_rows = 1 \<and> unreadCount None None None (snd (markRead 9 ''m1'' sample_rows)) = 0"
proof -
  have "distinct (map im_message_id sample_rows)" and one: "unreadCount None None None sample_rows = 1"
    and "findByMessageId ''m1'' sample_rows = Some (hd sample_rows)"
    by (simp_all add: sample_rows_def unreadCount_def from_matches_def instance_matches_def findByMessageId_def) (simp_all add: plain_row_def)
  moreover have "im_read_at (hd sample_rows) = None" "\<not> im_archived (hd sample_rows)"
    by (simp_all add: sample_rows_def) (simp_all add: plain_row_def)
  ultimately show ?thesis
    using inbox_views [of "\<lparr>lo_unread_only = True, lo_from_agent = None, lo_limit = None, lo_include_archived = False,
      lo_for_instance = None, lo_include_legacy = None\<rparr>" sample_rows None None None 9 "''m1''"] by simp
qed

end
