(* ===== verification/Mesh.thy ===== *)
theory Mesh
  imports Identity
begin

text \<open>
  The mesh manager (\<open>mesh.ts\<close>): the peers found by discovery, the identities attested by certificates, the
  authenticated-only peers, and the resolution of a sender's public key from them. Peers are mutable objects
  that the map, a health check and a pending rollback share, so they live in a store: a list of objects,
  addressed by their index, which only grows. The clock is an argument; the listeners of the mesh appear as
  the list of events a call fires; the timer of the heartbeat loop and the health request are not modelled,
  their outcomes are the operations \<open>recordHeartbeat\<close> and \<open>handleMissedBeat\<close>.
\<close>

section \<open>State\<close>

datatype peer_status = Online | PeerOffline | UnknownStatus
datatype libp2p_status = Unavailable | DiscoveredPeer | Connected

record libp2p_card =
  lc_ready :: bool
  lc_peer_id :: "string option"
  lc_listen_multiaddrs :: "string list"
  lc_connected_peers :: nat
  lc_open_streams :: nat

record agent_card =
  ac_public_key :: string
  ac_spiffe_uri :: string
  ac_libp2p :: "libp2p_card option"

record mesh_peer =
  mp_name :: string
  mp_host :: string
  mp_port :: nat
  mp_agent_id :: string
  mp_endpoint :: string
  mp_status :: peer_status
  mp_last_seen :: time
  mp_missed_beats :: nat
  mp_card :: "agent_card option"
  mp_peer_id :: "string option"
  mp_peer_id_verified :: bool
  mp_listen_multiaddrs :: "string list"
  mp_connected :: bool
  mp_libp2p_status :: libp2p_status

record discovered_peer =
  dp_name :: string
  dp_host :: string
  dp_port :: nat
  dp_agent_id :: string
  dp_p2p_peer_id :: "string option"
  dp_endpoint :: string

record seen_entry =
  se_peer_id :: string
  se_public_key :: string
  se_spiffe_uri :: string
  se_cert_fingerprint :: string
  se_endpoint :: string
  se_last_seen :: time

type_synonym locator = "string \<times> string \<times> string \<times> string \<times> time"

definition AUTH_SEEN_TTL_MS :: time where "AUTH_SEEN_TTL_MS = 15 * 60000"
definition AUTH_SEEN_MAX :: nat where "AUTH_SEEN_MAX = 256"

record mesh =
  ms_heap :: "mesh_peer list"
  ms_peers :: "(string, nat) jsmap"
  ms_seen :: "(string, seen_entry) jsmap"
  ms_missed_threshold :: nat
  ms_boot_targets :: "locator list"

datatype mesh_event = PeerOnline mesh_peer | PeerGone mesh_peer

definition new_MeshManager :: "nat \<Rightarrow> mesh" where
  "new_MeshManager missedBeatsThreshold =
     \<lparr>ms_heap = [], ms_peers = [], ms_seen = [], ms_missed_threshold = missedBeatsThreshold,
      ms_boot_targets = []\<rparr>"

section \<open>Objects\<close>

definition peer_at :: "mesh \<Rightarrow> nat \<Rightarrow> mesh_peer" where
  "peer_at m r = ms_heap m ! r"

definition modify :: "nat \<Rightarrow> (mesh_peer \<Rightarrow> mesh_peer) \<Rightarrow> mesh \<Rightarrow> mesh" where
  "modify r f m = m\<lparr>ms_heap := (ms_heap m)[r := f (ms_heap m ! r)]\<rparr>"

definition getPeer :: "string \<Rightarrow> mesh \<Rightarrow> mesh_peer option" where
  "getPeer agentId m = map_option (peer_at m) (m_get (ms_peers m) agentId)"

definition mesh_values :: "mesh \<Rightarrow> mesh_peer list" where
  "mesh_values m = map (peer_at m) (m_vals (ms_peers m))"

section \<open>Discovery and heartbeats\<close>

definition fresh_peer :: "time \<Rightarrow> discovered_peer \<Rightarrow> mesh_peer" where
  "fresh_peer now d =
     \<lparr>mp_name = dp_name d, mp_host = dp_host d, mp_port = dp_port d, mp_agent_id = dp_agent_id d,
      mp_endpoint = dp_endpoint d, mp_status = Online, mp_last_seen = now, mp_missed_beats = 0, mp_card = None,
      mp_peer_id = dp_p2p_peer_id d, mp_peer_id_verified = False, mp_listen_multiaddrs = [], mp_connected = False,
      mp_libp2p_status = (case dp_p2p_peer_id d of Some (_ # _) \<Rightarrow> DiscoveredPeer | _ \<Rightarrow> Unavailable)\<rparr>"

definition addPeer :: "time \<Rightarrow> discovered_peer \<Rightarrow> mesh \<Rightarrow> mesh_event list \<times> mesh" where
  "addPeer now d m =
     (case m_get (ms_peers m) (dp_agent_id d) of
        Some r \<Rightarrow>
          let wasOffline = (mp_status (peer_at m r) = PeerOffline);
              m' = modify r (\<lambda>p. p\<lparr>mp_last_seen := now, mp_missed_beats := 0, mp_status := Online\<rparr>) m
          in (if wasOffline then [PeerOnline (peer_at m' r)] else [], m')
      | None \<Rightarrow>
          let p = fresh_peer now d
          in ([PeerOnline p],
              m\<lparr>ms_heap := ms_heap m @ [p], ms_peers := m_set (dp_agent_id d) (length (ms_heap m)) (ms_peers m)\<rparr>))"

definition removePeer :: "string \<Rightarrow> mesh \<Rightarrow> mesh_event list \<times> mesh" where
  "removePeer agentId m =
     (case m_get (ms_peers m) agentId of
        None \<Rightarrow> ([], m)
      | Some r \<Rightarrow>
          let m' = modify r (\<lambda>p. p\<lparr>mp_status := PeerOffline\<rparr>) m
          in ([PeerGone (peer_at m' r)], m'\<lparr>ms_peers := m_del agentId (ms_peers m')\<rparr>))"

definition recordHeartbeat :: "time \<Rightarrow> string \<Rightarrow> mesh \<Rightarrow> mesh_event list \<times> mesh" where
  "recordHeartbeat now agentId m =
     (case m_get (ms_peers m) agentId of
        None \<Rightarrow> ([], m)
      | Some r \<Rightarrow>
          let wasOnline = (mp_status (peer_at m r) = Online);
              m' = modify r (\<lambda>p. p\<lparr>mp_last_seen := now, mp_missed_beats := 0, mp_status := Online\<rparr>) m
          in (if wasOnline then [] else [PeerOnline (peer_at m' r)], m'))"

text \<open>The health check holds the object itself, which may have left the map meanwhile.\<close>

definition handleMissedBeat :: "nat \<Rightarrow> mesh \<Rightarrow> mesh_event list \<times> mesh" where
  "handleMissedBeat r m =
     (let m' = modify r (\<lambda>p. p\<lparr>mp_missed_beats := Suc (mp_missed_beats p)\<rparr>) m in
      if ms_missed_threshold m \<le> mp_missed_beats (peer_at m' r)
      then let m'' = modify r (\<lambda>p. p\<lparr>mp_status := PeerOffline\<rparr>) m' in ([PeerGone (peer_at m'' r)], m'')
      else ([], m'))"

definition checkPeers :: "mesh \<Rightarrow> (string \<times> nat) list" where
  "checkPeers m = filter (\<lambda>(_, r). mp_status (peer_at m r) \<noteq> PeerOffline) (ms_peers m)"

text \<open>A card that says it has connected peers marks the peer connected; any other card leaves that as it was.\<close>

definition card_update :: "agent_card \<Rightarrow> mesh_peer \<Rightarrow> mesh_peer" where
  "card_update crd p =
     (case ac_libp2p crd of
        None \<Rightarrow> p\<lparr>mp_card := Some crd\<rparr>
      | Some l \<Rightarrow>
          let newPeerId = coalesce (lc_peer_id l) (mp_peer_id p);
              connected = (if lc_connected_peers l = 0 then mp_connected p else True)
          in p\<lparr>mp_card := Some crd,
               mp_peer_id_verified := (if newPeerId \<noteq> mp_peer_id p then False else mp_peer_id_verified p),
               mp_peer_id := newPeerId,
               mp_listen_multiaddrs := lc_listen_multiaddrs l,
               mp_connected := connected,
               mp_libp2p_status := (if lc_ready l
                 then (if connected \<or> 0 < lc_open_streams l then Connected else DiscoveredPeer)
                 else mp_libp2p_status p)\<rparr>)"

definition updateAgentCard :: "string \<Rightarrow> agent_card \<Rightarrow> mesh \<Rightarrow> mesh" where
  "updateAgentCard agentId crd m =
     (case m_get (ms_peers m) agentId of None \<Rightarrow> m | Some r \<Rightarrow> modify r (card_update crd) m)"

definition confirmPeerDiscovery :: "time \<Rightarrow> string \<Rightarrow> discovered_peer \<Rightarrow> mesh \<Rightarrow> mesh" where
  "confirmPeerDiscovery now agentId d m =
     (case m_get (ms_peers m) agentId of
        None \<Rightarrow> m
      | Some r \<Rightarrow> modify r (\<lambda>p. p\<lparr>mp_name := dp_name d, mp_host := dp_host d, mp_port := dp_port d,
          mp_endpoint := dp_endpoint d, mp_last_seen := now, mp_missed_beats := 0, mp_status := Online\<rparr>) m)"

definition getOnlinePeers :: "mesh \<Rightarrow> mesh_peer list" where
  "getOnlinePeers m = filter (\<lambda>p. mp_status p = Online) (mesh_values m)"

definition getPeerCounts :: "mesh \<Rightarrow> nat \<times> nat \<times> nat" where
  "getPeerCounts m = (length (ms_peers m), length (filter (\<lambda>p. mp_status p = Online) (mesh_values m)),
     length (filter (\<lambda>p. mp_status p \<noteq> Online) (mesh_values m)))"

section \<open>Authenticated-only peers\<close>

text \<open>The loop that looks for the oldest entry: the first one with the smallest time.\<close>

fun oldest :: "(string \<times> seen_entry) list \<Rightarrow> (string \<times> time) option \<Rightarrow> string option" where
  "oldest [] best = map_option fst best"
| "oldest ((k, v) # es) best =
     (case best of
        None \<Rightarrow> oldest es (Some (k, se_last_seen v))
      | Some (_, t) \<Rightarrow> if se_last_seen v < t then oldest es (Some (k, se_last_seen v)) else oldest es best)"

definition recordAuthenticatedSeen :: "time \<Rightarrow> seen_entry \<Rightarrow> mesh \<Rightarrow> mesh" where
  "recordAuthenticatedSeen now entry m =
     (let pruned = m_filter (\<lambda>_ v. \<not> AUTH_SEEN_TTL_MS < now - se_last_seen v) (ms_seen m);
          added = m_set (se_peer_id entry) (entry\<lparr>se_last_seen := now\<rparr>) pruned
      in m\<lparr>ms_seen :=
           (if AUTH_SEEN_MAX < length added
            then (case oldest added None of
                    Some (c # k) \<Rightarrow> m_del (c # k) added
                  | _ \<Rightarrow> added)
            else added)\<rparr>)"

definition exportSeenLocators :: "mesh \<Rightarrow> locator list" where
  "exportSeenLocators m =
     map (\<lambda>e. (se_peer_id e, se_spiffe_uri e, se_endpoint e, se_cert_fingerprint e, se_last_seen e))
       (filter (\<lambda>e. spiffeUriToPeerId (se_spiffe_uri e) \<noteq> None) (m_vals (ms_seen m)))"

definition setBootReLearnTargets :: "locator list \<Rightarrow> mesh \<Rightarrow> mesh" where
  "setBootReLearnTargets locators m = m\<lparr>ms_boot_targets := locators\<rparr>"

section \<open>Resolution of a sender\<close>

definition card_key :: "mesh_peer \<Rightarrow> string option" where
  "card_key p = (case mp_card p of None \<Rightarrow> None | Some c \<Rightarrow> if ac_public_key c = [] then None else Some (ac_public_key c))"

definition verified_as :: "string \<Rightarrow> mesh_peer \<Rightarrow> bool" where
  "verified_as wantPeerId p \<longleftrightarrow> card_key p \<noteq> None \<and> mp_peer_id_verified p \<and> mp_peer_id p = Some wantPeerId"

definition card_claims :: "string \<Rightarrow> mesh_peer \<Rightarrow> bool" where
  "card_claims uri p \<longleftrightarrow> card_key p \<noteq> None \<and> map_option ac_spiffe_uri (mp_card p) = Some uri"

definition resolvePeerPublicKey :: "time \<Rightarrow> string \<Rightarrow> mesh \<Rightarrow> string option" where
  "resolvePeerPublicKey now senderUri m =
     (case spiffeUriToPeerId senderUri of
        Some wantPeerId \<Rightarrow>
          (case List.map_filter (\<lambda>p. if verified_as wantPeerId p then card_key p else None) (mesh_values m) of
             [k] \<Rightarrow> Some k
           | _ # _ # _ \<Rightarrow> None
           | [] \<Rightarrow>
               (case m_get (ms_seen m) wantPeerId of
                  None \<Rightarrow> None
                | Some seen \<Rightarrow>
                    if se_spiffe_uri seen = senderUri \<and> now - se_last_seen seen \<le> AUTH_SEEN_TTL_MS
                    then Some (se_public_key seen) else None))
      | None \<Rightarrow>
          (case Option.bind (getPeer senderUri m) card_key of
             Some k \<Rightarrow> Some k
           | None \<Rightarrow> Option.bind (List.find (card_claims senderUri) (mesh_values m)) card_key))"

definition isApprovedPeerSender :: "string \<Rightarrow> mesh \<Rightarrow> bool" where
  "isApprovedPeerSender senderUri m =
     (case spiffeUriToPeerId senderUri of
        Some wantPeerId \<Rightarrow> length (filter (verified_as wantPeerId) (mesh_values m)) = 1
      | None \<Rightarrow>
          if Option.bind (getPeer senderUri m) card_key \<noteq> None then True
          else list_ex (card_claims senderUri) (mesh_values m))"

section \<open>Attested identities\<close>

text \<open>\<open>h.replace(/^::ffff:/i, '').replace(/%.*$/, '')\<close>; the dot stops at line ends.\<close>

fun strip_zone :: "string \<Rightarrow> string" where
  "strip_zone [] = []"
| "strip_zone (c # cs) =
     (if c = CHR ''%'' \<and> list_all (\<lambda>d. d \<noteq> CHR 0x0A \<and> d \<noteq> CHR 0x0D) cs then [] else c # strip_zone cs)"

definition normHost :: "string \<Rightarrow> string" where
  "normHost h = strip_zone (if js_lower (take 7 h) = ''::ffff:'' then drop 7 h else h)"

text \<open>What a rollback needs: the object, its binding before, the entries removed and a renaming.\<close>

datatype peer_id_undo =
    NoUndo
  | UndoMark nat bool
  | UndoBind nat "string option" bool "(string \<times> nat) list" "(string \<times> string) option"

definition host_candidate :: "string \<Rightarrow> string \<Rightarrow> mesh_peer \<Rightarrow> bool" where
  "host_candidate rh peerId p \<longleftrightarrow> card_key p \<noteq> None \<and> normHost (mp_host p) = rh
     \<and> (mp_peer_id p = None \<or> mp_peer_id p = Some peerId)
     \<and> \<not> (mp_peer_id_verified p \<and> mp_peer_id p \<noteq> Some peerId)"

text \<open>The entry an attestation goes to, and whether only the host led to it.\<close>

definition verify_target :: "string \<Rightarrow> string \<Rightarrow> string option \<Rightarrow> mesh \<Rightarrow> (nat \<times> bool) option" where
  "verify_target peerId senderUri remoteHost m =
     (case m_get (ms_peers m) senderUri of
        Some r \<Rightarrow> Some (r, False)
      | None \<Rightarrow>
          (case filter (\<lambda>r. mp_peer_id (peer_at m r) = Some peerId) (m_vals (ms_peers m)) of
             [r] \<Rightarrow> Some (r, False)
           | _ \<Rightarrow>
               (case remoteHost of
                  None \<Rightarrow> None
                | Some h \<Rightarrow>
                    if h = [] \<or> normHost h = [] then None
                    else case filter (\<lambda>r. host_candidate (normHost h) peerId (peer_at m r)) (m_vals (ms_peers m)) of
                      [r] \<Rightarrow> Some (r, True)
                    | _ \<Rightarrow> None)))"

fun supersede :: "nat \<Rightarrow> string \<Rightarrow> (string \<times> nat) list \<Rightarrow> mesh \<Rightarrow> (string \<times> nat) list \<times> mesh_event list \<times> mesh" where
  "supersede t peerId [] m = ([], [], m)"
| "supersede t peerId ((i, r) # es) m =
     (if r \<noteq> t \<and> mp_peer_id (peer_at m r) = Some peerId then
        let (evs, m') = removePeer i m; (removed, evs', m'') = supersede t peerId es m'
        in ((i, r) # removed, evs @ evs', m'')
      else supersede t peerId es m)"

definition rekey :: "nat \<Rightarrow> string \<Rightarrow> bool \<Rightarrow> mesh \<Rightarrow> (string \<times> string) option \<times> mesh" where
  "rekey t senderUri viaHost m =
     (let prior = mp_agent_id (peer_at m t) in
      if prior \<noteq> senderUri \<and> \<not> viaHost
         \<and> (case m_get (ms_peers m) senderUri of None \<Rightarrow> True | Some r \<Rightarrow> r = t)
      then (Some (prior, senderUri),
            modify t (\<lambda>p. p\<lparr>mp_agent_id := senderUri\<rparr>) (m\<lparr>ms_peers := m_set senderUri t (m_del prior (ms_peers m))\<rparr>))
      else (None, m))"

definition markPeerIdVerified ::
  "string \<Rightarrow> string option \<Rightarrow> string option \<Rightarrow> mesh \<Rightarrow> bool \<times> peer_id_undo \<times> mesh_event list \<times> mesh" where
  "markPeerIdVerified peerId sender remoteHost m =
     (case sender of
        Some (c # cs) \<Rightarrow>
          let senderUri = c # cs in
          (case verify_target peerId senderUri remoteHost m of
             None \<Rightarrow> (False, NoUndo, [], m)
           | Some (t, viaHost) \<Rightarrow>
               let p = peer_at m t in
               if mp_peer_id p \<noteq> None \<and> mp_peer_id p \<noteq> Some peerId then (False, NoUndo, [], m)
               else
                 let m1 = modify t (\<lambda>p. p\<lparr>mp_peer_id := Some peerId, mp_peer_id_verified := True\<rparr>) m in
                 if spiffeUriToPeerId senderUri = Some peerId then
                   let (removed, evs, m2) = supersede t peerId (ms_peers m1) m1;
                       (renamed, m3) = rekey t senderUri viaHost m2
                   in (True, UndoBind t (mp_peer_id p) (mp_peer_id_verified p) removed renamed, evs, m3)
                 else (True, UndoBind t (mp_peer_id p) (mp_peer_id_verified p) [] None, [], m1))
      | _ \<Rightarrow>
          (case filter (\<lambda>r. mp_peer_id (peer_at m r) = Some peerId) (m_vals (ms_peers m)) of
             [r] \<Rightarrow> (True, UndoMark r (mp_peer_id_verified (peer_at m r)), [],
                     modify r (\<lambda>p. p\<lparr>mp_peer_id_verified := True\<rparr>) m)
           | _ \<Rightarrow> (False, NoUndo, [], m)))"

definition restore_removed :: "(string \<times> nat) list \<Rightarrow> mesh \<Rightarrow> mesh" where
  "restore_removed removed m =
     fold (\<lambda>(i, r) m. if m_get (ms_peers m) i = None then m\<lparr>ms_peers := m_set i r (ms_peers m)\<rparr> else m) removed m"

definition rollback :: "peer_id_undo \<Rightarrow> mesh \<Rightarrow> mesh" where
  "rollback undo m =
     (case undo of
        NoUndo \<Rightarrow> m
      | UndoMark r verified \<Rightarrow> modify r (\<lambda>p. p\<lparr>mp_peer_id_verified := verified\<rparr>) m
      | UndoBind t peerId verified removed renamed \<Rightarrow>
          let m1 = modify t (\<lambda>p. p\<lparr>mp_peer_id := peerId, mp_peer_id_verified := verified\<rparr>) m;
              m2 = (case renamed of
                None \<Rightarrow> m1
              | Some (prior, senderUri) \<Rightarrow>
                  modify t (\<lambda>p. p\<lparr>mp_agent_id := prior\<rparr>)
                    (m1\<lparr>ms_peers := m_set prior t (m_del senderUri (ms_peers m1))\<rparr>))
          in restore_removed removed m2)"

section \<open>The store\<close>

definition mesh_wf :: "mesh \<Rightarrow> bool" where
  "mesh_wf m \<longleftrightarrow> m_inv (ms_peers m)
     \<and> (\<forall>k r. m_get (ms_peers m) k = Some r \<longrightarrow> r < length (ms_heap m) \<and> mp_agent_id (peer_at m r) = k)"

lemma modify_simps [simp]:
  "ms_peers (modify r f m) = ms_peers m" "ms_seen (modify r f m) = ms_seen m"
  "ms_missed_threshold (modify r f m) = ms_missed_threshold m" "length (ms_heap (modify r f m)) = length (ms_heap m)"
  by (simp_all add: modify_def)

lemma peer_at_modify: "r < length (ms_heap m) \<Longrightarrow> peer_at (modify r' f m) r = (if r = r' then f (peer_at m r) else peer_at m r)"
  by (simp add: peer_at_def modify_def)

lemma peer_at_peers [simp]: "peer_at (m\<lparr>ms_peers := ps\<rparr>) r = peer_at m r"
  by (simp add: peer_at_def)

lemma wf_get: "mesh_wf m \<Longrightarrow> m_get (ms_peers m) k = Some r \<Longrightarrow> r < length (ms_heap m) \<and> mp_agent_id (peer_at m r) = k"
  by (simp add: mesh_wf_def)

lemma wf_entries:
  assumes "mesh_wf m"
  shows "m_inv (ms_peers m)" "(k, r) \<in> set (ms_peers m) \<longleftrightarrow> m_get (ms_peers m) k = Some r"
    "distinct (m_vals (ms_peers m))"
proof -
  show inv: "m_inv (ms_peers m)" using assms by (simp add: mesh_wf_def)
  then have entry: "(k, r) \<in> set (ms_peers m) \<longleftrightarrow> m_get (ms_peers m) k = Some r" for k r by (simp add: m_get_iff_in_set)
  then show "(k, r) \<in> set (ms_peers m) \<longleftrightarrow> m_get (ms_peers m) k = Some r" .
  have "inj_on snd (set (ms_peers m))"
    using assms entry by (auto simp: inj_on_def mesh_wf_def) metis
  moreover have "distinct (ms_peers m)" using inv by (simp add: m_inv_def distinct_map)
  ultimately show "distinct (m_vals (ms_peers m))" by (simp add: distinct_map)
qed

lemma wf_inj: "mesh_wf m \<Longrightarrow> m_get (ms_peers m) k = Some r \<Longrightarrow> m_get (ms_peers m) k' = Some r \<Longrightarrow> k = k'"
  using wf_get by metis

text \<open>Superseding removes exactly the other entries of the identity and leaves their objects offline.\<close>

lemma supersede_spec:
  assumes "supersede t peerId es m = (removed, evs, m')"
    and "\<forall>(i, r) \<in> set es. m_get (ms_peers m) i = Some r \<and> r < length (ms_heap m)"
    and "distinct (map fst es)" "distinct (map snd es)"
  shows "removed = filter (\<lambda>(i, r). r \<noteq> t \<and> mp_peer_id (peer_at m r) = Some peerId) es
    \<and> length (ms_heap m') = length (ms_heap m) \<and> ms_seen m' = ms_seen m
    \<and> (\<forall>r < length (ms_heap m). peer_at m' r =
         (if r \<in> snd ` set removed then (peer_at m r)\<lparr>mp_status := PeerOffline\<rparr> else peer_at m r))
    \<and> (\<forall>i. m_get (ms_peers m') i = (if i \<in> fst ` set removed then None else m_get (ms_peers m) i))"
  using assms
proof (induction es arbitrary: m removed evs m')
  case (Cons e es)
  obtain i r where e: "e = (i, r)" by (cases e)
  show ?case
  proof (cases "r \<noteq> t \<and> mp_peer_id (peer_at m r) = Some peerId")
    case False
    with Cons.prems e have "supersede t peerId es m = (removed, evs, m')" by auto
    from Cons.IH [OF this] Cons.prems(2-4) False e show ?thesis by auto
  next
    case True
    let ?m = "(modify r (\<lambda>p. p\<lparr>mp_status := PeerOffline\<rparr>) m)\<lparr>ms_peers := m_del i (ms_peers m)\<rparr>"
    have get: "m_get (ms_peers m) i = Some r" and r: "r < length (ms_heap m)" using Cons.prems(2) e by auto
    have rem: "removePeer i m = ([PeerGone (peer_at (modify r (\<lambda>p. p\<lparr>mp_status := PeerOffline\<rparr>) m) r)], ?m)"
      using get by (simp add: removePeer_def Let_def)
    obtain removed1 evs1 where rest: "supersede t peerId es ?m = (removed1, evs1, m')" and removed: "removed = (i, r) # removed1"
      using Cons.prems(1) True e rem by (auto simp: Let_def split: prod.splits)
    have other: "j \<noteq> i \<and> q \<noteq> r" if "(j, q) \<in> set es" for j q using Cons.prems(3,4) e that by force
    have at: "peer_at ?m q = (if q = r then (peer_at m q)\<lparr>mp_status := PeerOffline\<rparr> else peer_at m q)"
      if "q < length (ms_heap m)" for q using that by (simp add: peer_at_modify)
    have "\<forall>(j, q) \<in> set es. m_get (ms_peers ?m) j = Some q \<and> q < length (ms_heap ?m)"
      using Cons.prems(2) other by fastforce
    from Cons.IH [OF rest this] Cons.prems(3,4) e
    have IH: "removed1 = filter (\<lambda>(j, q). q \<noteq> t \<and> mp_peer_id (peer_at ?m q) = Some peerId) es"
      "length (ms_heap m') = length (ms_heap m)" "ms_seen m' = ms_seen m"
      "\<forall>q < length (ms_heap m). peer_at m' q =
         (if q \<in> snd ` set removed1 then (peer_at ?m q)\<lparr>mp_status := PeerOffline\<rparr> else peer_at ?m q)"
      "\<forall>j. m_get (ms_peers m') j = (if j \<in> fst ` set removed1 then None else m_get (ms_peers ?m) j)"
      by auto
    have "removed1 = filter (\<lambda>(j, q). q \<noteq> t \<and> mp_peer_id (peer_at m q) = Some peerId) es"
      unfolding IH(1) using other Cons.prems(2) by (intro filter_cong) (auto simp: peer_at_modify)
    then show ?thesis using IH(2-5) True e removed at by auto
  qed
qed simp

lemma restore_spec:
  "distinct (map fst removed) \<Longrightarrow> ms_heap (restore_removed removed m) = ms_heap m \<and> ms_seen (restore_removed removed m) = ms_seen m
   \<and> m_get (ms_peers (restore_removed removed m)) i =
       (case m_get (ms_peers m) i of Some r \<Rightarrow> Some r | None \<Rightarrow> map_of removed i)"
proof (induction removed arbitrary: m)
  case (Cons e es)
  obtain j r where e: "e = (j, r)" by (cases e)
  let ?m = "if m_get (ms_peers m) j = None then m\<lparr>ms_peers := m_set j r (ms_peers m)\<rparr> else m"
  have "restore_removed (e # es) m = restore_removed es ?m" by (simp add: restore_removed_def e)
  moreover have "map_of es j = None" using Cons.prems e by (simp add: map_of_eq_None_iff)
  ultimately show ?case using Cons.IH [of ?m] Cons.prems e by (auto split: option.splits)
qed (simp add: restore_removed_def split: option.splits)

section \<open>Rollback\<close>

text \<open>Two meshes that agree but for the status of objects of an identity.\<close>

definition same_but_status :: "string \<Rightarrow> mesh \<Rightarrow> mesh \<Rightarrow> bool" where
  "same_but_status peerId m m' \<longleftrightarrow> ms_seen m' = ms_seen m \<and> length (ms_heap m') = length (ms_heap m)
     \<and> (\<forall>i. m_get (ms_peers m') i = m_get (ms_peers m) i)
     \<and> (\<forall>r < length (ms_heap m). peer_at m' r = peer_at m r
          \<or> mp_peer_id (peer_at m r) = Some peerId \<and> peer_at m' r = (peer_at m r)\<lparr>mp_status := PeerOffline\<rparr>)"

lemma peer_restore [simp]:
  "p\<lparr>mp_peer_id := a, mp_peer_id_verified := b, mp_peer_id := mp_peer_id p, mp_peer_id_verified := mp_peer_id_verified p\<rparr> = p"
  "p\<lparr>mp_peer_id := a, mp_peer_id_verified := b, mp_agent_id := c, mp_peer_id := mp_peer_id p,
     mp_peer_id_verified := mp_peer_id_verified p, mp_agent_id := mp_agent_id p\<rparr> = p"
  "p\<lparr>mp_peer_id_verified := b, mp_peer_id_verified := mp_peer_id_verified p\<rparr> = p"
  by (cases p; simp)+

lemma verify_target_in: "verify_target peerId u h m = Some (t, via) \<Longrightarrow> t \<in> set (m_vals (ms_peers m))"
proof -
  have single: "filter P xs = [x] \<Longrightarrow> x \<in> set xs" for P and xs :: "nat list" and x
    by (metis filter_is_subset list.set_intros(1) subsetD)
  assume "verify_target peerId u h m = Some (t, via)"
  then show ?thesis
    unfolding verify_target_def
    by (auto split: option.splits list.splits if_splits dest!: single m_get_in_set intro: rev_image_eqI)
qed

lemma value_entry: "mesh_wf m \<Longrightarrow> t \<in> set (m_vals (ms_peers m)) \<Longrightarrow>
    t < length (ms_heap m) \<and> m_get (ms_peers m) (mp_agent_id (peer_at m t)) = Some t"
proof -
  assume wf: "mesh_wf m" and "t \<in> set (m_vals (ms_peers m))"
  then obtain k where k: "(k, t) \<in> set (ms_peers m)" by auto
  with wf have "m_get (ms_peers m) k = Some t" by (simp add: wf_entries)
  with wf show ?thesis using wf_get by metis
qed

text \<open>The bookkeeping of a canonical attestation and of its rollback, on the map of entries.\<close>

lemma superseded:
  assumes wf: "mesh_wf m" and t: "t \<in> set (m_vals (ms_peers m))"
    and m1: "m1 = modify t (\<lambda>p. p\<lparr>mp_peer_id := Some peerId, mp_peer_id_verified := True\<rparr>) m"
    and sup: "supersede t peerId (ms_peers m1) m1 = (removed, evs, m2)"
  shows "length (ms_heap m2) = length (ms_heap m)" "ms_seen m2 = ms_seen m"
    and "r < length (ms_heap m) \<Longrightarrow> r \<noteq> t \<Longrightarrow> peer_at m2 r = peer_at m r
          \<or> mp_peer_id (peer_at m r) = Some peerId \<and> peer_at m2 r = (peer_at m r)\<lparr>mp_status := PeerOffline\<rparr>"
    and "peer_at m2 t = (peer_at m t)\<lparr>mp_peer_id := Some peerId, mp_peer_id_verified := True\<rparr>"
    and "m_get (ms_peers m2) i = (if i \<in> fst ` set removed then None else m_get (ms_peers m) i)"
    and "map_of removed i = (if i \<in> fst ` set removed then m_get (ms_peers m) i else None)"
    and "distinct (map fst removed)" "mp_agent_id (peer_at m t) \<notin> fst ` set removed"
proof -
  let ?a = "mp_agent_id (peer_at m t)"
  have tl: "t < length (ms_heap m)" and ta: "m_get (ms_peers m) ?a = Some t" using value_entry [OF wf t] by auto
  have at1: "peer_at m1 r = (if r = t then (peer_at m r)\<lparr>mp_peer_id := Some peerId, mp_peer_id_verified := True\<rparr> else peer_at m r)"
    if "r < length (ms_heap m)" for r using that by (simp add: m1 peer_at_modify)
  have pre: "\<forall>(i, r) \<in> set (ms_peers m1). m_get (ms_peers m1) i = Some r \<and> r < length (ms_heap m1)"
    "distinct (map fst (ms_peers m1))" "distinct (map snd (ms_peers m1))"
    using wf_entries [OF wf] wf_get [OF wf] by (auto simp: m1 m_inv_def)
  note S = supersede_spec [OF sup pre]
  have removed: "removed = filter (\<lambda>(i, r). r \<noteq> t \<and> mp_peer_id (peer_at m r) = Some peerId) (ms_peers m)"
    using S pre(1) at1 by (auto simp: m1 intro!: filter_cong)
  show "length (ms_heap m2) = length (ms_heap m)" "ms_seen m2 = ms_seen m" using S by (simp_all add: m1)
  have at2: "peer_at m2 r = (if r \<in> snd ` set removed then (peer_at m1 r)\<lparr>mp_status := PeerOffline\<rparr> else peer_at m1 r)"
    if "r < length (ms_heap m)" for r using S that by (simp add: m1)
  have tn: "t \<notin> snd ` set removed" unfolding removed by auto
  show "peer_at m2 t = (peer_at m t)\<lparr>mp_peer_id := Some peerId, mp_peer_id_verified := True\<rparr>"
    using at2 [OF tl] at1 [OF tl] tn by simp
  have "mp_peer_id (peer_at m r) = Some peerId" if "r \<in> snd ` set removed" for r using that unfolding removed by auto
  then show "peer_at m2 r = peer_at m r
      \<or> mp_peer_id (peer_at m r) = Some peerId \<and> peer_at m2 r = (peer_at m r)\<lparr>mp_status := PeerOffline\<rparr>"
    if "r < length (ms_heap m)" "r \<noteq> t" using at2 [OF that(1)] at1 [OF that(1)] that(2) by simp
  show "m_get (ms_peers m2) i = (if i \<in> fst ` set removed then None else m_get (ms_peers m) i)" using S by (simp add: m1)
  have rem_get: "m_get (ms_peers m) i = Some r" if "(i, r) \<in> set removed" for i r
    using that by (auto simp: removed wf_entries [OF wf])
  show "distinct (map fst removed)" using pre(2) by (simp add: removed m1 distinct_map_filter)
  show "map_of removed i = (if i \<in> fst ` set removed then m_get (ms_peers m) i else None)"
    using rem_get by (auto simp: map_of_eq_None_iff dest: weak_map_of_SomeI split: if_splits)
      (metis map_of_SomeD weak_map_of_SomeI)
  show "?a \<notin> fst ` set removed"
  proof
    assume "?a \<in> fst ` set removed"
    then obtain r where r: "(?a, r) \<in> set removed" by auto
    with rem_get ta have "r = t" by fastforce
    with r tn show False by force
  qed
qed

lemma canonical_rollback:
  assumes wf: "mesh_wf m" and t: "t \<in> set (m_vals (ms_peers m))"
    and new: "m_get (ms_peers m) u \<noteq> None \<Longrightarrow> m_get (ms_peers m) u = Some t"
    and m1: "m1 = modify t (\<lambda>p. p\<lparr>mp_peer_id := Some peerId, mp_peer_id_verified := True\<rparr>) m"
    and sup: "supersede t peerId (ms_peers m1) m1 = (removed, evs, m2)"
    and rk: "rekey t u via m2 = (renamed, m3)"
  shows "same_but_status peerId m
    (rollback (UndoBind t (mp_peer_id (peer_at m t)) (mp_peer_id_verified (peer_at m t)) removed renamed) m3)"
proof -
  let ?a = "mp_agent_id (peer_at m t)"
  have tl: "t < length (ms_heap m)" and ta: "m_get (ms_peers m) ?a = Some t" using value_entry [OF wf t] by auto
  note S = superseded [OF wf t m1 sup]
  define undone where "undone = rollback (UndoBind t (mp_peer_id (peer_at m t)) (mp_peer_id_verified (peer_at m t)) removed renamed) m3"
  have "ms_seen undone = ms_seen m \<and> length (ms_heap undone) = length (ms_heap m)
    \<and> (\<forall>i. m_get (ms_peers undone) i = m_get (ms_peers m) i)
    \<and> (\<forall>r < length (ms_heap m). peer_at undone r = (if r = t then peer_at m t else peer_at m2 r))"
  proof (cases renamed)
    case None
    then have m3: "m3 = m2" using rk by (auto simp: rekey_def Let_def split: if_splits)
    have "undone = restore_removed removed (modify t (\<lambda>p. p\<lparr>mp_peer_id := mp_peer_id (peer_at m t),
        mp_peer_id_verified := mp_peer_id_verified (peer_at m t)\<rparr>) m2)"
      by (simp add: undone_def rollback_def None m3 Let_def)
    then show ?thesis
      using S(1,2,4,5,6) tl
      by (auto simp: restore_spec [OF S(7)] peer_at_modify peer_at_def [of "restore_removed _ _"] peer_at_def [symmetric] split: option.splits)
  next
    case (Some q)
    then have m3: "m3 = modify t (\<lambda>p. p\<lparr>mp_agent_id := u\<rparr>) (m2\<lparr>ms_peers := m_set u t (m_del ?a (ms_peers m2))\<rparr>)"
      and q: "q = (?a, u)" and ne: "?a \<noteq> u"
      using rk S(4) by (auto simp: rekey_def Let_def split: if_splits)
    have u: "m_get (ms_peers m) u = None" using new wf_inj [OF wf ta] ne by blast
    define m4 where "m4 = modify t (\<lambda>p. p\<lparr>mp_agent_id := ?a\<rparr>)
      ((modify t (\<lambda>p. p\<lparr>mp_peer_id := mp_peer_id (peer_at m t), mp_peer_id_verified := mp_peer_id_verified (peer_at m t)\<rparr>) m3)
        \<lparr>ms_peers := m_set ?a t (m_del u (ms_peers m3))\<rparr>)"
    have "undone = restore_removed removed m4"
      by (simp add: undone_def rollback_def Some q m4_def Let_def)
    moreover have "m_get (ms_peers m4) i = (if i = ?a then Some t else if i = u then None else m_get (ms_peers m2) i)" for i
      by (simp add: m4_def m3)
    moreover have "peer_at m4 r = (if r = t then peer_at m t else peer_at m2 r)" if "r < length (ms_heap m)" for r
      using that S(1,4) by (auto simp: m4_def m3 peer_at_modify)
    moreover have "ms_seen m4 = ms_seen m" "length (ms_heap m4) = length (ms_heap m)" using S(1,2) by (simp_all add: m4_def m3)
    ultimately show ?thesis
      using S(5,6,8) ta u
      by (auto simp: restore_spec [OF S(7)] peer_at_def [of "restore_removed _ _"] peer_at_def [symmetric] split: option.splits)
  qed
  then show ?thesis
    unfolding undone_def [symmetric] same_but_status_def using S(3) by simp
qed

text \<open>The four ways an attestation can go.\<close>

lemma mark_cases:
  assumes wf: "mesh_wf m" and mark: "markPeerIdVerified peerId sender host m = (ok, undo, evs, m')"
  obtains (refused) "\<not> ok" "undo = NoUndo" "m' = m"
  | (marked) r where "r < length (ms_heap m)" "mp_peer_id (peer_at m r) = Some peerId"
      "undo = UndoMark r (mp_peer_id_verified (peer_at m r))" "m' = modify r (\<lambda>p. p\<lparr>mp_peer_id_verified := True\<rparr>) m"
  | (bound) t where "t \<in> set (m_vals (ms_peers m))"
      "undo = UndoBind t (mp_peer_id (peer_at m t)) (mp_peer_id_verified (peer_at m t)) [] None"
      "m' = modify t (\<lambda>p. p\<lparr>mp_peer_id := Some peerId, mp_peer_id_verified := True\<rparr>) m"
  | (canonical) t via u m1 removed evs2 m2 renamed where "t \<in> set (m_vals (ms_peers m))"
      "m_get (ms_peers m) u \<noteq> None \<Longrightarrow> m_get (ms_peers m) u = Some t" "spiffeUriToPeerId u = Some peerId"
      "m1 = modify t (\<lambda>p. p\<lparr>mp_peer_id := Some peerId, mp_peer_id_verified := True\<rparr>) m"
      "supersede t peerId (ms_peers m1) m1 = (removed, evs2, m2)" "rekey t u via m2 = (renamed, m')"
      "undo = UndoBind t (mp_peer_id (peer_at m t)) (mp_peer_id_verified (peer_at m t)) removed renamed"
proof (cases "sender = None \<or> sender = Some []")
  case True
  show ?thesis
  proof (cases "filter (\<lambda>r. mp_peer_id (peer_at m r) = Some peerId) (m_vals (ms_peers m))")
    case Nil
    with True mark show ?thesis by (intro refused) (auto simp: markPeerIdVerified_def)
  next
    case (Cons r rs)
    then have "r \<in> set (filter (\<lambda>r. mp_peer_id (peer_at m r) = Some peerId) (m_vals (ms_peers m)))" by simp
    then have r: "r < length (ms_heap m)" "mp_peer_id (peer_at m r) = Some peerId" using value_entry [OF wf] by auto
    show ?thesis
    proof (cases rs)
      case Nil
      with True mark Cons show ?thesis by (intro marked [OF r]) (auto simp: markPeerIdVerified_def)
    next
      case (Cons r' rs')
      with True mark \<open>filter _ _ = r # rs\<close> show ?thesis by (intro refused) (auto simp: markPeerIdVerified_def)
    qed
  qed
next
  case False
  then obtain c cs where sender: "sender = Some (c # cs)" by (cases sender) (auto simp: neq_Nil_conv)
  let ?u = "c # cs"
  show ?thesis
  proof (cases "verify_target peerId ?u host m")
    case None
    with mark sender show ?thesis by (intro refused) (auto simp: markPeerIdVerified_def Let_def)
  next
    case (Some q)
    obtain t via where q: "q = (t, via)" by (cases q)
    have t: "t \<in> set (m_vals (ms_peers m))" using verify_target_in Some q by metis
    have new: "m_get (ms_peers m) ?u \<noteq> None \<Longrightarrow> m_get (ms_peers m) ?u = Some t"
      using Some q by (auto simp: verify_target_def)
    define m1 where "m1 = modify t (\<lambda>p. p\<lparr>mp_peer_id := Some peerId, mp_peer_id_verified := True\<rparr>) m"
    obtain removed evs2 m2 where sup: "supersede t peerId (ms_peers m1) m1 = (removed, evs2, m2)" by (metis prod_cases3)
    obtain renamed m3 where rk: "rekey t ?u via m2 = (renamed, m3)" by (metis surj_pair)
    show ?thesis
    proof (cases "mp_peer_id (peer_at m t) \<noteq> None \<and> mp_peer_id (peer_at m t) \<noteq> Some peerId")
      case True
      with mark sender Some q show ?thesis by (intro refused) (auto simp: markPeerIdVerified_def Let_def)
    next
      case ours: False
      show ?thesis
      proof (cases "spiffeUriToPeerId ?u = Some peerId")
        case True
        with mark sender Some q ours sup rk show ?thesis
          by (intro canonical [OF t new True m1_def sup]) (auto simp: markPeerIdVerified_def Let_def m1_def)
      next
        case False
        with mark sender Some q ours t show ?thesis
          by (intro bound [of t]) (auto simp: markPeerIdVerified_def Let_def)
      qed
    qed
  qed
qed

lemma mark_rollback:
  assumes wf: "mesh_wf m" and mark: "markPeerIdVerified peerId sender host m = (ok, undo, evs, m')"
  shows "same_but_status peerId m (rollback undo m')"
  using assms
proof (cases rule: mark_cases)
  case (bound t)
  then show ?thesis using value_entry [OF wf bound(1)]
    by (auto simp: rollback_def same_but_status_def restore_removed_def peer_at_modify)
next
  case (canonical t via u m1 removed evs2 m2 renamed)
  then show ?thesis using canonical_rollback [OF wf canonical(1,2,4,5,6)] by simp
qed (auto simp: rollback_def same_but_status_def peer_at_modify)

section \<open>Well-formedness\<close>

lemma wf_new: "mesh_wf (new_MeshManager n)"
  by (simp add: mesh_wf_def new_MeshManager_def)

lemma wf_modify: "mesh_wf m \<Longrightarrow> (\<And>p. mp_agent_id (f p) = mp_agent_id p) \<Longrightarrow> mesh_wf (modify r f m)"
  by (auto simp: mesh_wf_def peer_at_modify)

lemma wf_remove: "mesh_wf m \<Longrightarrow> mesh_wf (snd (removePeer i m))"
  by (auto simp: removePeer_def Let_def mesh_wf_def peer_at_modify split: option.splits)

lemma wf_add: "mesh_wf m \<Longrightarrow> mesh_wf (snd (addPeer now d m))"
proof -
  assume wf: "mesh_wf m"
  show ?thesis
  proof (cases "m_get (ms_peers m) (dp_agent_id d)")
    case (Some r)
    then show ?thesis by (simp add: addPeer_def Let_def wf_modify [OF wf])
  next
    case None
    have "peer_at (m\<lparr>ms_heap := ms_heap m @ [p], ms_peers := ps\<rparr>) r = (if r < length (ms_heap m) then peer_at m r else p)"
      if "r < Suc (length (ms_heap m))" for p ps r using that by (auto simp: peer_at_def nth_append less_Suc_eq)
    then show ?thesis using wf_get [OF wf] wf_entries(1) [OF wf] None
      by (auto simp: addPeer_def Let_def fresh_peer_def mesh_wf_def less_SucI)
  qed
qed

lemma wf_supersede: "mesh_wf m \<Longrightarrow> mesh_wf (snd (snd (supersede t peerId es m)))"
proof (induction es arbitrary: m)
  case (Cons e es)
  obtain i r where "e = (i, r)" by (cases e)
  then show ?case using Cons.IH [OF wf_remove [OF Cons.prems, of i]] Cons.IH [OF Cons.prems]
    by (simp add: case_prod_beta Let_def)
qed simp

lemma wf_rekey:
  assumes wf: "mesh_wf m" and t: "m_get (ms_peers m) (mp_agent_id (peer_at m t)) = Some t"
  shows "mesh_wf (snd (rekey t u via m))"
proof -
  let ?a = "mp_agent_id (peer_at m t)"
  let ?m = "modify t (\<lambda>p. p\<lparr>mp_agent_id := u\<rparr>) (m\<lparr>ms_peers := m_set u t (m_del ?a (ms_peers m))\<rparr>)"
  have "r < length (ms_heap m) \<and> mp_agent_id (peer_at ?m r) = k" if "m_get (ms_peers ?m) k = Some r" for k r
  proof (cases "k = u")
    case True
    then show ?thesis using that wf_get [OF wf t] by (simp add: peer_at_modify)
  next
    case False
    then have "k \<noteq> ?a" and r: "m_get (ms_peers m) k = Some r" using that by (auto split: if_splits)
    then have "r \<noteq> t" using wf_inj [OF wf t] by blast
    then show ?thesis using wf_get [OF wf r] by (simp add: peer_at_modify)
  qed
  then have "mesh_wf ?m" using wf_entries(1) [OF wf] by (simp add: mesh_wf_def)
  then show ?thesis using wf by (simp add: rekey_def Let_def)
qed

lemma wf_mark:
  assumes wf: "mesh_wf m" and mark: "markPeerIdVerified peerId sender host m = (ok, undo, evs, m')"
  shows "mesh_wf m'"
  using assms
proof (cases rule: mark_cases)
  case (canonical t via u m1 removed evs2 m2 renamed)
  have "mesh_wf m1" unfolding canonical(4) by (rule wf_modify [OF wf]) simp
  then have "mesh_wf m2" using wf_supersede [of m1 t peerId "ms_peers m1"] canonical(5) by simp
  note S = superseded [OF wf canonical(1,4,5)]
  have "m_get (ms_peers m2) (mp_agent_id (peer_at m2 t)) = Some t"
    using S(4) S(5) S(8) value_entry [OF wf canonical(1)] by simp
  from wf_rekey [OF \<open>mesh_wf m2\<close> this, of u via] show ?thesis using canonical(6) by simp
qed (use wf in \<open>auto intro: wf_modify\<close>)

lemma wf_rollback:
  assumes wf: "mesh_wf m" and mark: "markPeerIdVerified peerId sender host m = (ok, undo, evs, m')"
  shows "mesh_wf (rollback undo m')"
proof -
  have "m_inv (ms_peers (restore_removed es x))" if "m_inv (ms_peers x)" for es x
    using that by (induction es arbitrary: x) (auto simp: restore_removed_def)
  then have "m_inv (ms_peers (rollback undo m'))"
    using wf_entries(1) [OF wf_mark [OF assms]] by (auto simp: rollback_def Let_def split: peer_id_undo.splits option.splits)
  moreover note mark_rollback [OF assms]
  ultimately show ?thesis using wf_get [OF wf] unfolding mesh_wf_def same_but_status_def by fastforce
qed

section \<open>Runs\<close>

text \<open>
  The operations on a mesh in the order they take effect. An attestation is followed, without a break, by
  its commit or by its rollback.
\<close>

datatype mesh_op =
    Discovered time discovered_peer
  | Removed string
  | Heartbeat time string
  | MissedBeat nat
  | CardFetched string agent_card
  | Confirmed time string discovered_peer
  | Attested string "string option" "string option" bool
  | SeenInbound time seen_entry
  | BootTargets "locator list"

fun mesh_apply :: "mesh_op \<Rightarrow> mesh \<Rightarrow> mesh" where
  "mesh_apply (Discovered now d) m = snd (addPeer now d m)"
| "mesh_apply (Removed i) m = snd (removePeer i m)"
| "mesh_apply (Heartbeat now i) m = snd (recordHeartbeat now i m)"
| "mesh_apply (MissedBeat r) m = (if r < length (ms_heap m) then snd (handleMissedBeat r m) else m)"
| "mesh_apply (CardFetched i c) m = updateAgentCard i c m"
| "mesh_apply (Confirmed now i d) m = confirmPeerDiscovery now i d m"
| "mesh_apply (Attested peerId sender host commit) m =
     (case markPeerIdVerified peerId sender host m of
        (_, undo, _, m') \<Rightarrow> if commit then m' else rollback undo m')"
| "mesh_apply (SeenInbound now e) m = recordAuthenticatedSeen now e m"
| "mesh_apply (BootTargets ls) m = setBootReLearnTargets ls m"

text \<open>Every object marked as verified carries one of the given identities.\<close>

definition verified_within :: "string set \<Rightarrow> mesh \<Rightarrow> bool" where
  "verified_within A m \<longleftrightarrow> (\<forall>p \<in> set (ms_heap m). mp_peer_id_verified p \<longrightarrow> (\<exists>i \<in> A. mp_peer_id p = Some i))"

definition attested_ids :: "mesh_op list \<Rightarrow> string set" where
  "attested_ids ops = {i. \<exists>sender host. Attested i sender host True \<in> set ops}"

definition seen_within :: "mesh_op set \<Rightarrow> mesh \<Rightarrow> bool" where
  "seen_within S m \<longleftrightarrow> (\<forall>(k, e) \<in> set (ms_seen m).
     \<exists>e'. SeenInbound (se_last_seen e) e' \<in> S \<and> e = e'\<lparr>se_last_seen := se_last_seen e\<rparr> \<and> k = se_peer_id e')"

lemma verified_same_heap: "verified_within A m \<Longrightarrow> ms_heap m' = ms_heap m \<Longrightarrow> verified_within A m'"
  by (simp add: verified_within_def)

lemma verified_mono: "verified_within A m \<Longrightarrow> A \<subseteq> B \<Longrightarrow> verified_within B m"
  unfolding verified_within_def by blast

lemma verified_pointwise:
  assumes "verified_within A m" and "length (ms_heap m') = length (ms_heap m)"
    and "\<And>r. r < length (ms_heap m) \<Longrightarrow> mp_peer_id_verified (peer_at m' r) \<Longrightarrow>
      (mp_peer_id_verified (peer_at m r) \<and> mp_peer_id (peer_at m' r) = mp_peer_id (peer_at m r))
      \<or> (\<exists>i \<in> A. mp_peer_id (peer_at m' r) = Some i)"
  shows "verified_within A m'"
  unfolding verified_within_def
proof (intro ballI impI)
  fix p assume "p \<in> set (ms_heap m')" and v: "mp_peer_id_verified p"
  then obtain r where r: "r < length (ms_heap m)" and p: "p = peer_at m' r"
    using assms(2) by (auto simp: in_set_conv_nth peer_at_def)
  have "peer_at m r \<in> set (ms_heap m)" using r by (simp add: peer_at_def)
  then show "\<exists>i \<in> A. mp_peer_id p = Some i"
    using assms(3) [OF r v [unfolded p]] assms(1) p unfolding verified_within_def by auto
qed

lemma verified_modify:
  assumes "verified_within A m"
    and "\<And>p. mp_peer_id_verified (f p) \<Longrightarrow> (mp_peer_id_verified p \<and> mp_peer_id (f p) = mp_peer_id p) \<or> (\<exists>i \<in> A. mp_peer_id (f p) = Some i)"
  shows "verified_within A (modify r f m)"
proof (rule verified_pointwise [OF assms(1)])
  fix q assume "q < length (ms_heap m)" "mp_peer_id_verified (peer_at (modify r f m) q)"
  then show "mp_peer_id_verified (peer_at m q) \<and> mp_peer_id (peer_at (modify r f m) q) = mp_peer_id (peer_at m q)
      \<or> (\<exists>i \<in> A. mp_peer_id (peer_at (modify r f m) q) = Some i)"
    using assms(2) [of "peer_at m q"] by (simp add: peer_at_modify split: if_splits)
qed simp

lemma mark_heap:
  assumes wf: "mesh_wf m" and mark: "markPeerIdVerified peerId sender host m = (ok, undo, evs, m')"
  shows "ms_seen m' = ms_seen m \<and> length (ms_heap m') = length (ms_heap m)
    \<and> (\<forall>r < length (ms_heap m). mp_peer_id (peer_at m' r) = Some peerId
         \<or> mp_peer_id (peer_at m' r) = mp_peer_id (peer_at m r) \<and> mp_peer_id_verified (peer_at m' r) = mp_peer_id_verified (peer_at m r))"
  using assms
proof (cases rule: mark_cases)
  case (canonical t via u m1 removed evs2 m2 renamed)
  note S = superseded [OF wf canonical(1,4,5)]
  have at2: "mp_peer_id (peer_at m2 r) = Some peerId
      \<or> mp_peer_id (peer_at m2 r) = mp_peer_id (peer_at m r) \<and> mp_peer_id_verified (peer_at m2 r) = mp_peer_id_verified (peer_at m r)"
    if "r < length (ms_heap m)" for r
    using S(3) [OF that] S(4) by (cases "r = t") auto
  have "ms_seen m' = ms_seen m2 \<and> length (ms_heap m') = length (ms_heap m2)
    \<and> (\<forall>r < length (ms_heap m2). mp_peer_id (peer_at m' r) = mp_peer_id (peer_at m2 r)
         \<and> mp_peer_id_verified (peer_at m' r) = mp_peer_id_verified (peer_at m2 r))"
    using canonical(6) by (auto simp: rekey_def Let_def peer_at_modify split: if_splits)
  then show ?thesis using at2 S(1,2) by simp
qed (auto simp: peer_at_modify)

lemma attest_step:
  assumes wf: "mesh_wf m" and "verified_within A m"
  shows "verified_within (if commit then insert i A else A) (mesh_apply (Attested i sender host commit) m)"
    and "ms_seen (mesh_apply (Attested i sender host commit) m) = ms_seen m"
    and "mesh_wf (mesh_apply (Attested i sender host commit) m)"
proof -
  obtain ok undo evs m' where mark: "markPeerIdVerified i sender host m = (ok, undo, evs, m')" by (metis prod_cases4)
  have app: "mesh_apply (Attested i sender host commit) m = (if commit then m' else rollback undo m')" by (simp add: mark)
  note R = mark_rollback [OF wf mark, unfolded same_but_status_def] and H = mark_heap [OF wf mark]
  show "ms_seen (mesh_apply (Attested i sender host commit) m) = ms_seen m" unfolding app using R H by simp
  show "mesh_wf (mesh_apply (Attested i sender host commit) m)"
    unfolding app using wf_mark [OF wf mark] wf_rollback [OF wf mark] by simp
  have "verified_within (insert i A) m'"
    by (rule verified_pointwise [OF verified_mono [OF assms(2)]]) (use H in auto)
  moreover have "verified_within A (rollback undo m')"
  proof (rule verified_pointwise [OF assms(2)])
    show "length (ms_heap (rollback undo m')) = length (ms_heap m)" using R by simp
    fix r assume "r < length (ms_heap m)" "mp_peer_id_verified (peer_at (rollback undo m') r)"
    then show "mp_peer_id_verified (peer_at m r) \<and> mp_peer_id (peer_at (rollback undo m') r) = mp_peer_id (peer_at m r)
        \<or> (\<exists>i \<in> A. mp_peer_id (peer_at (rollback undo m') r) = Some i)" using R by auto
  qed
  ultimately show "verified_within (if commit then insert i A else A) (mesh_apply (Attested i sender host commit) m)"
    unfolding app by simp
qed

text \<open>The operations that take their data from the network without a certificate.\<close>

lemma unattested_step:
  assumes wf: "mesh_wf m" and ver: "verified_within A m" and "\<And>i s h c. op \<noteq> Attested i s h c"
  shows "mesh_wf (mesh_apply op m) \<and> verified_within A (mesh_apply op m)"
proof (cases op)
  case (Discovered now d)
  have "verified_within A (snd (addPeer now d m))"
  proof (cases "m_get (ms_peers m) (dp_agent_id d)")
    case None
    with ver show ?thesis by (auto simp: addPeer_def Let_def verified_within_def fresh_peer_def)
  qed (auto simp: addPeer_def Let_def intro!: verified_modify [OF ver])
  with Discovered show ?thesis by (simp add: wf_add [OF wf])
next
  case (Removed i)
  have "verified_within A (snd (removePeer i m))"
    by (auto simp: removePeer_def Let_def split: option.splits
      intro!: ver verified_same_heap [where m = "modify _ (mp_status_update (\<lambda>_. PeerOffline)) m"] verified_modify [OF ver])
  with Removed show ?thesis by (simp add: wf_remove [OF wf])
next
  case (Heartbeat now i)
  then show ?thesis
    by (auto simp: recordHeartbeat_def Let_def split: option.splits intro: wf ver wf_modify verified_modify)
next
  case (MissedBeat r)
  then show ?thesis
    by (auto simp: handleMissedBeat_def Let_def intro!: wf ver wf_modify verified_modify)
next
  case (CardFetched i c)
  have "mp_agent_id (card_update c p) = mp_agent_id p" for p
    by (simp add: card_update_def Let_def split: option.splits)
  moreover have "mp_peer_id_verified (card_update c p) \<Longrightarrow> mp_peer_id_verified p \<and> mp_peer_id (card_update c p) = mp_peer_id p" for p
    by (auto simp: card_update_def Let_def split: option.splits if_splits)
  ultimately show ?thesis
    using CardFetched by (auto simp: updateAgentCard_def split: option.splits intro!: wf ver wf_modify verified_modify)
next
  case (Confirmed now i d)
  then show ?thesis
    by (auto simp: confirmPeerDiscovery_def split: option.splits intro!: wf ver wf_modify verified_modify)
next
  case (SeenInbound now e)
  then show ?thesis
    using wf ver by (simp add: recordAuthenticatedSeen_def Let_def mesh_wf_def verified_within_def peer_at_def)
next
  case (BootTargets ls)
  then show ?thesis
    using wf ver by (simp add: setBootReLearnTargets_def mesh_wf_def verified_within_def peer_at_def)
qed (use assms(3) in blast)

lemma m_set_entry: "x \<in> set (m_set k v xs) \<Longrightarrow> x \<in> set xs \<or> x = (k, v)"
  by (induction xs) (auto split: if_splits)

lemma recorded_entry:
  assumes "x \<in> set (ms_seen (recordAuthenticatedSeen now e m))"
  shows "x \<in> set (ms_seen m) \<or> x = (se_peer_id e, e\<lparr>se_last_seen := now\<rparr>)"
proof -
  define pruned where "pruned = m_filter (\<lambda>_ v. \<not> AUTH_SEEN_TTL_MS < now - se_last_seen v) (ms_seen m)"
  have "x \<in> set (m_set (se_peer_id e) (e\<lparr>se_last_seen := now\<rparr>) pruned)"
    using assms
    by (simp add: recordAuthenticatedSeen_def Let_def pruned_def AList.delete_eq split: option.splits list.splits if_splits)
  then have "x \<in> set pruned \<or> x = (se_peer_id e, e\<lparr>se_last_seen := now\<rparr>)" by (rule m_set_entry)
  then show ?thesis by (auto simp: pruned_def m_filter_def)
qed

lemma seen_step:
  assumes seen: "seen_within S m" and wf: "mesh_wf m" and ver: "verified_within A m"
  shows "seen_within (insert op S) (mesh_apply op m)"
proof (cases op)
  case (SeenInbound now e)
  show ?thesis
    unfolding seen_within_def
  proof (intro ballI, clarify)
    fix k e' assume "(k, e') \<in> set (ms_seen (mesh_apply op m))"
    then have "(k, e') \<in> set (ms_seen m) \<or> (k, e') = (se_peer_id e, e\<lparr>se_last_seen := now\<rparr>)"
      using recorded_entry [of "(k, e')" now e m] SeenInbound by simp
    then show "\<exists>e''. SeenInbound (se_last_seen e') e'' \<in> insert op S \<and> e' = e''\<lparr>se_last_seen := se_last_seen e'\<rparr> \<and> k = se_peer_id e''"
    proof
      assume "(k, e') \<in> set (ms_seen m)"
      then show ?thesis using seen unfolding seen_within_def by blast
    next
      assume "(k, e') = (se_peer_id e, e\<lparr>se_last_seen := now\<rparr>)"
      then show ?thesis using SeenInbound by (intro exI [of _ e]) simp
    qed
  qed
next
  case (Attested i s h c)
  then show ?thesis using seen attest_step(2) [OF wf ver] unfolding seen_within_def by fastforce
qed (use seen in \<open>auto simp: seen_within_def addPeer_def removePeer_def recordHeartbeat_def handleMissedBeat_def
  updateAgentCard_def confirmPeerDiscovery_def setBootReLearnTargets_def Let_def split: option.splits\<close>)

lemma attested_ids_snoc:
  "attested_ids (ops @ [op]) = (case op of Attested i s h True \<Rightarrow> insert i (attested_ids ops) | _ \<Rightarrow> attested_ids ops)"
  by (cases op) (auto simp: attested_ids_def split: bool.splits)

lemma mesh_run:
  fixes ops thr
  defines "m \<equiv> fold mesh_apply ops (new_MeshManager thr)"
  shows "mesh_wf m \<and> verified_within (attested_ids ops) m \<and> seen_within (set ops) m"
  unfolding m_def
proof (induction ops rule: rev_induct)
  case Nil
  show ?case by (simp add: wf_new) (simp add: new_MeshManager_def verified_within_def seen_within_def)
next
  case (snoc op ops)
  let ?m = "fold mesh_apply ops (new_MeshManager thr)"
  have wf: "mesh_wf ?m" and ver: "verified_within (attested_ids ops) ?m" and seen: "seen_within (set ops) ?m"
    using snoc by auto
  have "mesh_wf (mesh_apply op ?m) \<and> verified_within (attested_ids (ops @ [op])) (mesh_apply op ?m)"
  proof (cases "\<exists>i s h c. op = Attested i s h c")
    case True
    then obtain i s h c where op: "op = Attested i s h c" by blast
    show ?thesis using attest_step(1,3) [OF wf ver, where i = i and sender = s and host = h and commit = c]
      by (cases c) (simp_all add: op attested_ids_snoc)
  next
    case False
    then have "attested_ids (ops @ [op]) = attested_ids ops" by (cases op) (simp_all add: attested_ids_snoc)
    then show ?thesis using unattested_step [OF wf ver, of op] False by metis
  qed
  with seen_step [OF seen wf ver] show ?case by simp
qed

section \<open>An example\<close>

text \<open>A legacy entry and a canonical entry of one identity; the attestation supersedes the first.\<close>

definition demo_found :: "string \<Rightarrow> discovered_peer" where
  "demo_found a = \<lparr>dp_name = ''n'', dp_host = ''10.0.0.2'', dp_port = 9440, dp_agent_id = a, dp_p2p_peer_id = Some ''p1'',
     dp_endpoint = ''e''\<rparr>"

definition demo_mesh :: mesh where
  "demo_mesh = fold mesh_apply [Discovered 0 (demo_found ''host/a''), Discovered 0 (demo_found (peerIdToSpiffeUri ''p1''))]
     (new_MeshManager 3)"

definition demo_mark :: "bool \<times> peer_id_undo \<times> mesh_event list \<times> mesh" where
  "demo_mark = markPeerIdVerified ''p1'' (Some (peerIdToSpiffeUri ''p1'')) None demo_mesh"

definition demo_undone :: mesh where
  "demo_undone = (case demo_mark of (_, undo, _, m) \<Rightarrow> rollback undo m)"

lemma demo_id: "spiffeUriToPeerId ''spiffe://thinklocal/node/p1'' = Some ''p1''"
  by (simp add: spiffeUriToPeerId_Some alnum_def char_between_def peerIdToSpiffeUri_def TRUST_DOMAIN_def)

lemma demo_mesh_eval:
  "demo_mesh = \<lparr>ms_heap = [fresh_peer 0 (demo_found ''host/a''), fresh_peer 0 (demo_found (peerIdToSpiffeUri ''p1''))],
     ms_peers = [(''host/a'', 0), (peerIdToSpiffeUri ''p1'', 1)], ms_seen = [], ms_missed_threshold = 3, ms_boot_targets = []\<rparr>"
  by (simp add: demo_mesh_def addPeer_def new_MeshManager_def demo_found_def Let_def peerIdToSpiffeUri_def TRUST_DOMAIN_def)

lemmas demo_simps = demo_id demo_mesh_eval peer_at_def demo_mark_def markPeerIdVerified_def verify_target_def modify_def
  fresh_peer_def demo_found_def Let_def removePeer_def rekey_def peerIdToSpiffeUri_def TRUST_DOMAIN_def

section \<open>Properties\<close>

lemma mesh_value_in_heap: "mesh_wf m \<Longrightarrow> p \<in> set (mesh_values m) \<Longrightarrow> p \<in> set (ms_heap m)"
  using value_entry [of m] unfolding mesh_values_def peer_at_def by (metis (no_types, lifting) imageE nth_mem set_map)

lemma verified_keys:
  "List.map_filter (\<lambda>p. if verified_as i p then card_key p else None) ps = map (the \<circ> card_key) (filter (verified_as i) ps)"
  by (induction ps) (auto simp: List.map_filter_simps verified_as_def)

lemma one_verified:
  assumes "filter (verified_as i) ps = [p]"
  shows "p \<in> set ps \<and> verified_as i p"
  using arg_cong [OF assms, of set] by auto

lemma verified_attested:
  assumes m: "m = fold mesh_apply ops (new_MeshManager threshold)" and p: "filter (verified_as i) (mesh_values m) = [p]"
  shows "(\<exists>sender host. Attested i sender host True \<in> set ops) \<and> card_key p \<noteq> None"
proof -
  have run: "mesh_wf m" "verified_within (attested_ids ops) m" using mesh_run m by auto
  have "p \<in> set (ms_heap m)" "verified_as i p"
    using one_verified [OF p] mesh_value_in_heap [OF run(1)] by auto
  moreover from this have "i \<in> attested_ids ops" using run(2) unfolding verified_within_def verified_as_def by fastforce
  ultimately show ?thesis by (simp add: attested_ids_def verified_as_def)
qed

lemma approved_attested:
  assumes "m = fold mesh_apply ops (new_MeshManager threshold)" "spiffeUriToPeerId uri = Some i" "isApprovedPeerSender uri m"
  shows "\<exists>sender host. Attested i sender host True \<in> set ops"
  using verified_attested [OF assms(1)] assms(2,3) by (auto simp: isApprovedPeerSender_def length_Suc_conv)

text \<open>Where the cards come from: an object that carries a legacy name has its card from a fetch under that very name, since an
  object is only ever renamed to a canonical one.\<close>

definition card_source :: "mesh_op set \<Rightarrow> mesh_peer \<Rightarrow> bool" where
  "card_source S p \<longleftrightarrow> (\<forall>c. mp_card p = Some c \<longrightarrow>
     (\<exists>i. CardFetched i c \<in> S \<and> (spiffeUriToPeerId (mp_agent_id p) = None \<longrightarrow> i = mp_agent_id p)))"

definition cards_within :: "mesh_op set \<Rightarrow> mesh \<Rightarrow> bool" where
  "cards_within S m \<longleftrightarrow> (\<forall>p \<in> set (ms_heap m). card_source S p)"

definition same_cards :: "mesh \<Rightarrow> mesh \<Rightarrow> bool" where
  "same_cards m m' \<longleftrightarrow> length (ms_heap m') = length (ms_heap m)
     \<and> (\<forall>r < length (ms_heap m). mp_card (peer_at m' r) = mp_card (peer_at m r)
          \<and> (mp_agent_id (peer_at m' r) = mp_agent_id (peer_at m r) \<or> spiffeUriToPeerId (mp_agent_id (peer_at m' r)) \<noteq> None))"

lemma cards_at: "cards_within S m \<longleftrightarrow> (\<forall>r < length (ms_heap m). card_source S (peer_at m r))"
  by (auto simp: cards_within_def peer_at_def all_set_conv_all_nth)

lemma cards_same: "cards_within S m \<Longrightarrow> same_cards m m' \<Longrightarrow> cards_within S m'"
  unfolding cards_at same_cards_def card_source_def by metis

lemma cards_mono: "cards_within S m \<Longrightarrow> S \<subseteq> T \<Longrightarrow> cards_within T m"
  unfolding cards_within_def card_source_def by blast

lemma cards_modify:
  assumes "cards_within S m" "r < length (ms_heap m) \<Longrightarrow> card_source S (peer_at m r) \<Longrightarrow> card_source S (f (peer_at m r))"
  shows "cards_within S (modify r f m)"
  using assms unfolding cards_at by (auto simp: peer_at_modify)

lemma mark_cards:
  assumes wf: "mesh_wf m" and mark: "markPeerIdVerified peerId sender host m = (ok, undo, evs, m')"
  shows "same_cards m m'"
  using assms
proof (cases rule: mark_cases)
  case (canonical t via u m1 removed evs2 m2 renamed)
  note S = superseded [OF wf canonical(1,4,5)]
  have at2: "mp_card (peer_at m2 r) = mp_card (peer_at m r) \<and> mp_agent_id (peer_at m2 r) = mp_agent_id (peer_at m r)"
    if "r < length (ms_heap m)" for r
    using S(3) [OF that] S(4) by (cases "r = t") auto
  have at3: "mp_card (peer_at m' r) = mp_card (peer_at m2 r)
      \<and> (mp_agent_id (peer_at m' r) = mp_agent_id (peer_at m2 r) \<or> mp_agent_id (peer_at m' r) = u)"
    if "r < length (ms_heap m2)" for r
    using canonical(6) that by (auto simp: rekey_def Let_def peer_at_modify split: if_splits)
  have "length (ms_heap m') = length (ms_heap m2)" using canonical(6) by (auto simp: rekey_def Let_def split: if_splits)
  then show ?thesis using S(1) at2 at3 canonical(3) unfolding same_cards_def by auto
qed (auto simp: peer_at_modify same_cards_def)

lemma rollback_cards:
  assumes "mesh_wf m" "markPeerIdVerified peerId sender host m = (ok, undo, evs, m')"
  shows "same_cards m (rollback undo m')"
proof -
  have "peer_at (rollback undo m') r = peer_at m r \<or> peer_at (rollback undo m') r = (peer_at m r)\<lparr>mp_status := PeerOffline\<rparr>"
    if "r < length (ms_heap m)" for r
    using mark_rollback [OF assms] that unfolding same_but_status_def by blast
  then have "mp_card (peer_at (rollback undo m') r) = mp_card (peer_at m r)
      \<and> mp_agent_id (peer_at (rollback undo m') r) = mp_agent_id (peer_at m r)" if "r < length (ms_heap m)" for r
    using that by fastforce
  then show ?thesis using mark_rollback [OF assms] unfolding same_cards_def same_but_status_def by simp
qed

lemma card_step:
  assumes wf: "mesh_wf m" and cards: "cards_within S m"
  shows "cards_within (insert op S) (mesh_apply op m)"
proof -
  have grown: "cards_within (insert op S) m" by (rule cards_mono [OF cards]) blast
  have kept: "cards_within (insert op S) (modify r f m)"
    if "\<And>p. mp_card (f p) = mp_card p" "\<And>p. mp_agent_id (f p) = mp_agent_id p" for r f
    using that by (intro cards_modify [OF grown]) (simp add: card_source_def)
  have kept2: "cards_within (insert op S) (modify r f (modify r g m))"
    if "\<And>p. mp_card (f p) = mp_card p" "\<And>p. mp_agent_id (f p) = mp_agent_id p"
      "\<And>p. mp_card (g p) = mp_card p" "\<And>p. mp_agent_id (g p) = mp_agent_id p" for r f g
    using that by (intro cards_modify [OF kept]) (simp_all add: card_source_def)
  have heap: "cards_within T m1 \<Longrightarrow> ms_heap m2 = ms_heap m1 \<Longrightarrow> cards_within T m2" for T m1 m2
    by (simp add: cards_within_def)
  show ?thesis
  proof (cases op)
    case (Discovered now d)
    show ?thesis
    proof (cases "m_get (ms_peers m) (dp_agent_id d)")
      case None
      then show ?thesis using grown by (simp add: Discovered addPeer_def Let_def cards_within_def card_source_def fresh_peer_def)
    next
      case (Some r)
      then show ?thesis using Discovered kept [where r = r] by (simp add: addPeer_def Let_def)
    qed
  next
    case (Removed i)
    show ?thesis
    proof (cases "m_get (ms_peers m) i")
      case None
      then show ?thesis using grown by (simp add: Removed removePeer_def)
    next
      case (Some r)
      have "cards_within (insert op S) (modify r (\<lambda>p. p\<lparr>mp_status := PeerOffline\<rparr>) m)" by (rule kept) simp_all
      then show ?thesis using Some Removed by (simp add: removePeer_def Let_def cards_within_def)
    qed
  next
    case (Heartbeat now i)
    show ?thesis
    proof (cases "m_get (ms_peers m) i")
      case (Some r)
      then show ?thesis using Heartbeat kept [where r = r] by (simp add: recordHeartbeat_def Let_def)
    qed (use grown in \<open>simp add: Heartbeat recordHeartbeat_def\<close>)
  next
    case (MissedBeat r)
    then show ?thesis using grown kept [where r = r] kept2 [where r = r] by (simp add: handleMissedBeat_def Let_def)
  next
    case (CardFetched i c)
    show ?thesis
    proof (cases "m_get (ms_peers m) i")
      case (Some r)
      have card: "mp_card (card_update c p) = Some c" "mp_agent_id (card_update c p) = mp_agent_id p" for p
        by (simp_all add: card_update_def Let_def split: option.split)
      have "cards_within (insert op S) (modify r (card_update c) m)"
        using wf_get [OF wf Some] by (intro cards_modify [OF grown]) (auto simp: card_source_def card CardFetched)
      then show ?thesis using Some CardFetched by (simp add: updateAgentCard_def)
    qed (use grown in \<open>simp add: CardFetched updateAgentCard_def\<close>)
  next
    case (Confirmed now i d)
    show ?thesis
    proof (cases "m_get (ms_peers m) i")
      case (Some r)
      then show ?thesis using Confirmed kept [where r = r] by (simp add: confirmPeerDiscovery_def)
    qed (use grown in \<open>simp add: Confirmed confirmPeerDiscovery_def\<close>)
  next
    case (Attested i s h commit)
    obtain ok undo evs m' where mark: "markPeerIdVerified i s h m = (ok, undo, evs, m')" by (metis prod_cases4)
    show ?thesis
      using cards_same [OF grown mark_cards [OF wf mark]] cards_same [OF grown rollback_cards [OF wf mark]]
      by (cases commit) (simp_all add: Attested mark)
  next
    case (SeenInbound now e)
    then show ?thesis using heap [OF grown] by (simp add: recordAuthenticatedSeen_def Let_def)
  next
    case (BootTargets ls)
    then show ?thesis using heap [OF grown] by (simp add: setBootReLearnTargets_def)
  qed
qed

lemma mesh_cards: "cards_within (set ops) (fold mesh_apply ops (new_MeshManager thr))"
proof (induction ops rule: rev_induct)
  case (snoc op ops)
  have "mesh_wf (fold mesh_apply ops (new_MeshManager thr))" using mesh_run by blast
  from card_step [OF this snoc] show ?case by simp
qed (simp add: new_MeshManager_def cards_within_def)

lemma legacy_approved:
  assumes m: "m = fold mesh_apply ops (new_MeshManager threshold)"
    and uri: "spiffeUriToPeerId uri = None" and app: "isApprovedPeerSender uri m"
  shows "\<exists>i c. CardFetched i c \<in> set ops \<and> ac_public_key c \<noteq> [] \<and> (i = uri \<or> ac_spiffe_uri c = uri)"
proof -
  have wf: "mesh_wf m" using mesh_run m by auto
  have cards: "card_source (set ops) p" if "p \<in> set (ms_heap m)" for p
    using mesh_cards [of ops threshold] that unfolding m cards_within_def by blast
  consider (direct) p where "getPeer uri m = Some p" "card_key p \<noteq> None"
    | (claims) p where "p \<in> set (mesh_values m)" "card_claims uri p"
    using app uri by (auto simp: isApprovedPeerSender_def bind_eq_Some_conv list_ex_iff split: if_splits)
  then show ?thesis
  proof cases
    case direct
    then obtain r where r: "m_get (ms_peers m) uri = Some r" "p = peer_at m r" by (auto simp: getPeer_def)
    from wf_get [OF wf r(1)] have p: "p \<in> set (ms_heap m)" "mp_agent_id p = uri" by (simp_all add: r(2)) (simp add: peer_at_def)
    from direct(2) obtain c where c: "mp_card p = Some c" "ac_public_key c \<noteq> []"
      by (auto simp: card_key_def split: option.splits if_splits)
    from cards [OF p(1)] c(1) p(2) uri have "CardFetched uri c \<in> set ops" unfolding card_source_def by blast
    then show ?thesis using c(2) by blast
  next
    case claims
    then obtain c where c: "mp_card p = Some c" "ac_public_key c \<noteq> []" "ac_spiffe_uri c = uri"
      by (auto simp: card_claims_def card_key_def split: option.splits if_splits)
    from cards [OF mesh_value_in_heap [OF wf claims(1)]] c(1) obtain i where "CardFetched i c \<in> set ops"
      unfolding card_source_def by blast
    then show ?thesis using c(2,3) by blast
  qed
qed

text \<open>The verified peers of an identity, up to the order of the map and the status of the peers.\<close>

lemma status_irrelevant [simp]:
  "verified_as i (p\<lparr>mp_status := s\<rparr>) = verified_as i p" "card_key (p\<lparr>mp_status := s\<rparr>) = card_key p"
  by (simp_all add: verified_as_def card_key_def)

lemma distinct_same_set:
  assumes "distinct xs" "distinct ys" "set xs = set ys"
  shows "length xs = length ys" "ys = [y] \<Longrightarrow> xs = [y]"
proof -
  show len: "length xs = length ys" using assms by (metis distinct_card)
  show "xs = [y]" if "ys = [y]" using len assms(3) that by (cases xs) auto
qed

lemma resolve_same:
  assumes same: "same_but_status peerId m m'" and wf: "mesh_wf m" "mesh_wf m'" and uri: "spiffeUriToPeerId uri = Some i"
  shows "resolvePeerPublicKey now uri m' = resolvePeerPublicKey now uri m"
proof -
  let ?R = "\<lambda>m. filter (\<lambda>r. verified_as i (peer_at m r)) (m_vals (ms_peers m))"
  have keys: "map (the \<circ> card_key) (filter (verified_as i) (mesh_values m)) = map (\<lambda>r. the (card_key (peer_at m r))) (?R m)" for m
    by (simp add: mesh_values_def filter_map comp_def)
  have at: "verified_as i (peer_at m' r) = verified_as i (peer_at m r) \<and> card_key (peer_at m' r) = card_key (peer_at m r)"
    if "r < length (ms_heap m)" for r
  proof -
    have "peer_at m' r = peer_at m r \<or> peer_at m' r = (peer_at m r)\<lparr>mp_status := PeerOffline\<rparr>"
      using same that unfolding same_but_status_def by blast
    then show ?thesis by auto
  qed
  have vals: "set (m_vals (ms_peers m')) = set (m_vals (ms_peers m))"
    using same wf_entries(2) [OF wf(1)] wf_entries(2) [OF wf(2)] unfolding same_but_status_def by force
  have set: "set (?R m') = set (?R m)" using vals at value_entry [OF wf(1)] by auto
  have dist: "distinct (?R m')" "distinct (?R m)" using wf_entries(3) [OF wf(1)] wf_entries(3) [OF wf(2)] by simp_all
  have seen: "ms_seen m' = ms_seen m" using same unfolding same_but_status_def by blast
  consider (none) "?R m = []" "?R m' = []" | (one) r where "?R m = [r]" "?R m' = [r]"
    | (many) a b c d e f where "?R m = a # b # c" "?R m' = d # e # f"
    using distinct_same_set [OF dist set]
    by (cases "?R m"; cases "tl (?R m)"; cases "?R m'"; cases "tl (?R m')") auto
  then show ?thesis
  proof cases
    case (one r)
    then have "r \<in> set (?R m)" by simp
    then have "r < length (ms_heap m)" using value_entry [OF wf(1)] by auto
    with one show ?thesis by (simp add: resolvePeerPublicKey_def uri verified_keys keys at)
  qed (simp_all add: resolvePeerPublicKey_def uri verified_keys keys seen)
qed

text \<open>
  C14. Whose key the mesh hands out. After any sequence of discoveries, card fetches, heartbeats, removals,
  inbound sightings and attestations (each committed or rolled back), a canonical identity resolves to a key
  only through the one verified peer that carries it, and then some committed attestation of exactly this
  identity has happened, or through an inbound sighting of this identity, with this URI and this key, that is
  not older than its time to live. A canonical sender is approved only through a committed attestation, and
  an approved sender has a key. In particular neither a discovery record, nor a card, nor an attestation that
  was rolled back makes the mesh answer for an identity.
\<close>

theorem mesh_identity:
  assumes "m = fold mesh_apply ops (new_MeshManager threshold)" and uri: "spiffeUriToPeerId uri = Some peerId"
  shows "(resolvePeerPublicKey now uri m = Some key \<longrightarrow>
      (\<exists>sender host p. Attested peerId sender host True \<in> set ops
         \<and> filter (verified_as peerId) (mesh_values m) = [p] \<and> card_key p = Some key)
      \<or> (\<exists>t e. SeenInbound t e \<in> set ops \<and> se_peer_id e = peerId \<and> se_spiffe_uri e = uri
         \<and> se_public_key e = key \<and> now - t \<le> AUTH_SEEN_TTL_MS))
    \<and> (isApprovedPeerSender uri m \<longrightarrow>
      (\<exists>sender host. Attested peerId sender host True \<in> set ops) \<and> resolvePeerPublicKey now uri m \<noteq> None)"
proof -
  have wf: "mesh_wf m" and ver: "verified_within (attested_ids ops) m" and seen: "seen_within (set ops) m"
    using mesh_run assms(1) by auto
  note one = verified_attested [OF assms(1)]
  have key: "(\<exists>sender host p. Attested peerId sender host True \<in> set ops
         \<and> filter (verified_as peerId) (mesh_values m) = [p] \<and> card_key p = Some key)
      \<or> (\<exists>t e. SeenInbound t e \<in> set ops \<and> se_peer_id e = peerId \<and> se_spiffe_uri e = uri
         \<and> se_public_key e = key \<and> now - t \<le> AUTH_SEEN_TTL_MS)"
    if res: "resolvePeerPublicKey now uri m = Some key"
  proof (cases "filter (verified_as peerId) (mesh_values m)")
    case Nil
    then obtain e where e: "m_get (ms_seen m) peerId = Some e" "se_spiffe_uri e = uri" "se_public_key e = key"
        "now - se_last_seen e \<le> AUTH_SEEN_TTL_MS"
      using res uri by (auto simp: resolvePeerPublicKey_def verified_keys split: option.splits if_splits)
    have "(peerId, e) \<in> set (ms_seen m)" using e(1) by (rule m_get_in_set)
    then obtain e' where "SeenInbound (se_last_seen e) e' \<in> set ops" "e = e'\<lparr>se_last_seen := se_last_seen e\<rparr>" "peerId = se_peer_id e'"
      using seen unfolding seen_within_def by blast
    moreover from this(2) have "se_spiffe_uri e' = uri" "se_public_key e' = key" using e by (metis seen_entry.surjective seen_entry.update_convs seen_entry.simps)+
    ultimately show ?thesis using e(4) by blast
  next
    case (Cons p ps)
    then have "ps = []" and "card_key p = Some key"
      using res uri one by (auto simp: resolvePeerPublicKey_def verified_keys split: list.splits)
    then show ?thesis using one Cons by blast
  qed
  have approved: "(\<exists>sender host. Attested peerId sender host True \<in> set ops) \<and> resolvePeerPublicKey now uri m \<noteq> None"
    if approved: "isApprovedPeerSender uri m"
  proof -
    obtain p where "filter (verified_as peerId) (mesh_values m) = [p]"
      using approved uri by (auto simp: isApprovedPeerSender_def length_Suc_conv)
    then show ?thesis using one [where p = p] uri by (simp add: resolvePeerPublicKey_def verified_keys)
  qed
  show ?thesis using key approved by blast
qed

theorem mesh_identity_witness:
  "\<exists>ops uri. resolvePeerPublicKey 0 uri (fold mesh_apply ops (new_MeshManager 3)) = Some ''PEM''
     \<and> isApprovedPeerSender uri (fold mesh_apply ops (new_MeshManager 3))
     \<and> (\<exists>sender host. Attested ''p1'' sender host True \<in> set ops)"
proof -
  let ?c = "\<lparr>ac_public_key = ''PEM'', ac_spiffe_uri = ''spiffe://thinklocal/node/p1'', ac_libp2p = None\<rparr>"
  let ?uri = "''spiffe://thinklocal/node/p1''"
  let ?ops = "[Discovered 0 (demo_found ''host/a''), CardFetched ''host/a'' ?c, Attested ''p1'' (Some ?uri) None True]"
  let ?m = "fold mesh_apply ?ops (new_MeshManager 3)"
  have vals: "\<exists>p. mesh_values ?m = [p] \<and> verified_as ''p1'' p \<and> card_key p = Some ''PEM''"
    by (simp add: demo_simps addPeer_def new_MeshManager_def updateAgentCard_def card_update_def mesh_values_def verified_as_def card_key_def)
  have res: "resolvePeerPublicKey 0 ?uri ?m = Some ''PEM''"
    using vals by (auto simp: resolvePeerPublicKey_def demo_id List.map_filter_simps)
  have app: "isApprovedPeerSender ?uri ?m"
    using vals by (auto simp: isApprovedPeerSender_def demo_id)
  show ?thesis
    using mesh_identity [OF refl demo_id, of 0 ?ops 3 "''PEM''"] res app by blast
qed

text \<open>
  C15. What a rollback undoes. For every reachable mesh and every attestation, tentative binding followed by
  its rollback gives back every entry of the map under its old name, with one difference: a duplicate entry
  of the same identity that the attestation had superseded comes back marked offline (the code undoes the
  removal but not the status that the removal set). The sightings are untouched, every canonical identity
  resolves to the same key as before, and the mesh stays well-formed: each entry is stored under its own
  agent id.
\<close>

theorem mesh_verify_rollback:
  assumes "m = fold mesh_apply ops (new_MeshManager threshold)"
    and mark: "markPeerIdVerified peerId sender host m = (ok, undo, events, m')"
  defines "undone \<equiv> rollback undo m'"
  shows "(getPeer i undone = getPeer i m
      \<or> (\<exists>p. getPeer i m = Some p \<and> mp_peer_id p = Some peerId \<and> getPeer i undone = Some (p\<lparr>mp_status := PeerOffline\<rparr>)))
    \<and> ms_seen undone = ms_seen m
    \<and> (spiffeUriToPeerId uri \<noteq> None \<longrightarrow> resolvePeerPublicKey now uri undone = resolvePeerPublicKey now uri m)
    \<and> (getPeer i undone = Some p \<longrightarrow> mp_agent_id p = i)"
proof -
  have wf: "mesh_wf m" using mesh_run assms(1) by simp
  have wf': "mesh_wf undone" unfolding undone_def by (rule wf_rollback [OF wf mark])
  have same: "same_but_status peerId m undone" unfolding undone_def by (rule mark_rollback [OF wf mark])
  have entry: "getPeer i undone = getPeer i m
      \<or> (\<exists>p. getPeer i m = Some p \<and> mp_peer_id p = Some peerId \<and> getPeer i undone = Some (p\<lparr>mp_status := PeerOffline\<rparr>))"
  proof (cases "m_get (ms_peers m) i")
    case (Some r)
    then have "r < length (ms_heap m)" using wf_get [OF wf] by blast
    with same Some show ?thesis by (auto simp: getPeer_def same_but_status_def)
  qed (use same in \<open>simp add: getPeer_def same_but_status_def\<close>)
  moreover have "ms_seen undone = ms_seen m" using same by (simp add: same_but_status_def)
  moreover have "resolvePeerPublicKey now uri undone = resolvePeerPublicKey now uri m" if "spiffeUriToPeerId uri \<noteq> None"
    using resolve_same [OF same wf wf'] that by blast
  moreover have "mp_agent_id p = i" if "getPeer i undone = Some p" using that wf_get [OF wf'] by (auto simp: getPeer_def)
  ultimately show ?thesis by blast
qed

theorem mesh_verify_rollback_witness:
  "fst demo_mark \<and> length (ms_peers (snd (snd (snd demo_mark)))) = 1 \<and> length (ms_peers demo_undone) = 2
     \<and> map_option mp_status (getPeer ''host/a'' demo_undone) = Some PeerOffline
     \<and> map_option mp_status (getPeer ''host/a'' demo_mesh) = Some Online \<and> ms_seen demo_undone = ms_seen demo_mesh"
proof -
  have mark: "markPeerIdVerified ''p1'' (Some (peerIdToSpiffeUri ''p1'')) None demo_mesh
      = (fst demo_mark, fst (snd demo_mark), fst (snd (snd demo_mark)), snd (snd (snd demo_mark)))"
    by (simp add: demo_mark_def [symmetric])
  have "ms_seen demo_undone = ms_seen demo_mesh"
    using mesh_verify_rollback [OF demo_mesh_def mark] by (simp add: demo_undone_def case_prod_beta)
  moreover have "fst demo_mark" "length (ms_peers (snd (snd (snd demo_mark)))) = 1" by (simp_all add: demo_simps)
  moreover have "length (ms_peers demo_undone) = 2" "map_option mp_status (getPeer ''host/a'' demo_undone) = Some PeerOffline"
    by (simp_all add: demo_undone_def rollback_def restore_removed_def getPeer_def demo_simps)
  moreover have "map_option mp_status (getPeer ''host/a'' demo_mesh) = Some Online" by (simp add: getPeer_def demo_simps)
  ultimately show ?thesis by blast
qed

end
