(* ===== verification/Pairing.thy ===== *)
theory Pairing
  imports Identity
begin

text \<open>
  Pairing of two nodes by a PIN: the store of paired peers (\<open>pairing.ts\<close>) and the routes that fill it
  (\<open>pairing-handler.ts\<close>). A handler never waits, so each request is one atomic step. SPAKE2, AES-GCM, SHA-256,
  base64 and JSON are arguments (\<open>pairing_env\<close>); a call of them that throws is \<open>None\<close>. The SPAKE2 instance is a
  value of type \<open>'v\<close> that its calls return updated. Fields of a request are texts or missing. Whether the file
  of the store and the TLS context can be rewritten is an argument of the confirmation.
\<close>

section \<open>The store\<close>

record paired_peer =
  pd_agent_id :: string
  pd_public_key :: string
  pd_ca_cert :: string
  pd_fingerprint :: string
  pd_paired_at :: time
  pd_hostname :: string

type_synonym pairing_store = "(string, paired_peer) jsmap"

text \<open>\<open>/^spiffe:\/\/thinklocal\/host\/[0-9a-f]{16}\/agent\/[^/]+$/\<close>\<close>

definition hex_lower :: "char \<Rightarrow> bool" where
  "hex_lower c \<longleftrightarrow> is_digit c \<or> char_between 97 102 c"

definition isHostIdSpiffeUri :: "string \<Rightarrow> bool" where
  "isHostIdSpiffeUri uri =
     (case after_prefix ''spiffe://thinklocal/host/'' uri of
        None \<Rightarrow> False
      | Some rest \<Rightarrow>
          (case js_split CHR ''/'' rest of
             [h, a, t] \<Rightarrow> length h = 16 \<and> list_all hex_lower h \<and> a = ''agent'' \<and> t \<noteq> []
           | _ \<Rightarrow> False))"

definition save_pairings :: "pairing_store \<Rightarrow> paired_peer list" where
  "save_pairings st = m_vals st"

text \<open>Loading reads a list back, the last entry of an agent wins; the legacy URIs are what it warns about.\<close>

definition load_pairings :: "paired_peer list \<Rightarrow> pairing_store \<times> string list" where
  "load_pairings ps =
     (fold (\<lambda>p st. m_set (pd_agent_id p) p st) ps [],
      filter (\<lambda>uri. \<not> isHostIdSpiffeUri uri \<and> \<not> isCanonicalNodeUri uri) (map pd_agent_id ps))"

definition addPeer :: "paired_peer \<Rightarrow> pairing_store \<Rightarrow> pairing_store" where
  "addPeer p st = m_set (pd_agent_id p) p st"

definition removePeer :: "string \<Rightarrow> pairing_store \<Rightarrow> bool \<times> pairing_store" where
  "removePeer agentId st = (m_get st agentId \<noteq> None, m_del agentId st)"

definition isPaired :: "string \<Rightarrow> pairing_store \<Rightarrow> bool" where
  "isPaired agentId st \<longleftrightarrow> m_get st agentId \<noteq> None"

definition isPairedByPublicKey :: "(string \<Rightarrow> string) \<Rightarrow> string \<Rightarrow> pairing_store \<Rightarrow> bool" where
  "isPairedByPublicKey sha256hex publicKeyPem st =
     (if publicKeyPem = [] then False
      else list_ex (\<lambda>p. pd_fingerprint p = sha256hex publicKeyPem) (m_vals st))"

section \<open>The session\<close>

record pairing_payload =
  py_agent_id :: string
  py_public_key :: string
  py_ca_cert :: string
  py_hostname :: string
  py_fingerprint :: string

record encrypted =
  en_ciphertext :: string
  en_iv :: string
  en_tag :: string

record 'v pairing_env =
  pe_self :: pairing_payload
  pe_sha256 :: "string \<Rightarrow> string"
  pe_sha256hex :: "string \<Rightarrow> string"
  pe_verifier :: "string \<Rightarrow> string \<Rightarrow> string \<Rightarrow> 'v"
  pe_generate :: "'v \<Rightarrow> string option \<times> 'v"
  pe_finish :: "'v \<Rightarrow> string \<Rightarrow> string option \<times> 'v"
  pe_from_base64 :: "string \<Rightarrow> string"
  pe_to_base64 :: "string \<Rightarrow> string"
  pe_encrypt :: "string \<Rightarrow> string \<Rightarrow> string \<Rightarrow> string \<times> string"
  pe_decrypt :: "string \<Rightarrow> encrypted \<Rightarrow> string option"
  pe_stringify :: "pairing_payload \<Rightarrow> string"
  pe_parse :: "string \<Rightarrow> pairing_payload option"

datatype session_state = Waiting | Handshake | Completed | Failed

record 'v pairing_session =
  pn_pin :: string
  pn_state :: session_state
  pn_created_at :: time
  pn_spake :: 'v
  pn_shared_key :: "string option"
  pn_peer :: "string option"

record ip_entry =
  ip_count :: nat
  ip_last_attempt :: time

record 'v pairing =
  pr_session :: "'v pairing_session option"
  pr_failed :: nat
  pr_ips :: "(string, ip_entry) jsmap"
  pr_store :: pairing_store

definition MAX_FAILURES_PER_IP :: nat where "MAX_FAILURES_PER_IP = 10"
definition IP_LOCKOUT_MS :: time where "IP_LOCKOUT_MS = 15 * 60000"
definition SESSION_TIMEOUT_MS :: time where "SESSION_TIMEOUT_MS = 5 * 60000"

definition isIpLocked :: "time \<Rightarrow> string \<Rightarrow> (string, ip_entry) jsmap \<Rightarrow> bool \<times> (string, ip_entry) jsmap" where
  "isIpLocked now ip ips =
     (case m_get ips ip of
        None \<Rightarrow> (False, ips)
      | Some e \<Rightarrow>
          if MAX_FAILURES_PER_IP \<le> ip_count e
          then (if now - ip_last_attempt e < IP_LOCKOUT_MS then (True, ips) else (False, m_del ip ips))
          else (False, ips))"

definition recordIpFailure :: "time \<Rightarrow> string \<Rightarrow> (string, ip_entry) jsmap \<Rightarrow> (string, ip_entry) jsmap" where
  "recordIpFailure now ip ips =
     (let e = (case m_get ips ip of None \<Rightarrow> \<lparr>ip_count = 0, ip_last_attempt = 0\<rparr> | Some e \<Rightarrow> e);
          ips' = m_set ip \<lparr>ip_count = Suc (ip_count e), ip_last_attempt = now\<rparr> ips
      in if 100 < length ips' then m_filter (\<lambda>_ v. \<not> IP_LOCKOUT_MS < now - ip_last_attempt v) ips' else ips')"

definition cleanExpiredSession :: "time \<Rightarrow> 'v pairing \<Rightarrow> 'v pairing" where
  "cleanExpiredSession now st =
     (case pr_session st of
        Some s \<Rightarrow> if SESSION_TIMEOUT_MS < now - pn_created_at s then st\<lparr>pr_session := None\<rparr> else st
      | None \<Rightarrow> st)"

definition deriveKey :: "(string \<Rightarrow> string) \<Rightarrow> string \<Rightarrow> string \<Rightarrow> string" where
  "deriveKey sha256 sharedSecret ctx = sha256 (sharedSecret @ ctx)"

definition encryptWithKey :: "'v pairing_env \<Rightarrow> string \<Rightarrow> string \<Rightarrow> string \<Rightarrow> encrypted" where
  "encryptWithKey env iv key plaintext =
     (case pe_encrypt env key iv plaintext of
        (ct, tag) \<Rightarrow> \<lparr>en_ciphertext = pe_to_base64 env ct, en_iv = pe_to_base64 env iv, en_tag = pe_to_base64 env tag\<rparr>)"

definition decryptWithKey :: "'v pairing_env \<Rightarrow> string \<Rightarrow> encrypted \<Rightarrow> string option" where
  "decryptWithKey env key e =
     pe_decrypt env key \<lparr>en_ciphertext = pe_from_base64 env (en_ciphertext e), en_iv = pe_from_base64 env (en_iv e),
       en_tag = pe_from_base64 env (en_tag e)\<rparr>"

section \<open>The routes\<close>

datatype pairing_reply =
    PinShown string
  | AlreadyInProgress
  | IpLocked
  | MissingFields
  | NoLocalSession
  | WrongPin
  | Invalidated
  | AlreadyPaired
  | HandshakeReply string encrypted
  | HandshakeFailed
  | NoActiveSession
  | FingerprintMismatch
  | PairedWith string
  | ConfirmationFailed
  | StatusReply "(session_state \<times> string option \<times> int) option" "(string \<times> string \<times> time) list"

definition pairing_start :: "'v pairing_env \<Rightarrow> time \<Rightarrow> string \<Rightarrow> string \<Rightarrow> 'v pairing \<Rightarrow> pairing_reply \<times> 'v pairing" where
  "pairing_start env now pin seed st0 =
     (let st = cleanExpiredSession now st0 in
      if (case pr_session st of Some s \<Rightarrow> pn_state s = Waiting | None \<Rightarrow> False) then (AlreadyInProgress, st)
      else (PinShown pin,
            st\<lparr>pr_session := Some \<lparr>pn_pin = pin, pn_state = Waiting, pn_created_at = now,
                 pn_spake = pe_verifier env pin (py_agent_id (pe_self env)) seed, pn_shared_key = None, pn_peer = None\<rparr>\<rparr>))"

record init_body =
  ib_agent_id :: "string option"
  ib_pin :: "string option"
  ib_spake :: "string option"

text \<open>The handshake of a request whose PIN was right.\<close>

definition handshake :: "'v pairing_env \<Rightarrow> time \<Rightarrow> string \<Rightarrow> string \<Rightarrow> string \<Rightarrow> string \<Rightarrow> 'v pairing_session \<Rightarrow> 'v pairing \<Rightarrow>
    pairing_reply \<times> 'v pairing" where
  "handshake env now iv agentId pin message s st =
     (case pe_generate env (pn_spake s) of
        (None, v) \<Rightarrow> (HandshakeFailed, st\<lparr>pr_session := Some (s\<lparr>pn_spake := v\<rparr>)\<rparr>)
      | (Some out, v) \<Rightarrow>
          (case pe_finish env v (pe_from_base64 env message) of
             (None, v') \<Rightarrow> (HandshakeFailed, st\<lparr>pr_session := Some (s\<lparr>pn_spake := v'\<rparr>)\<rparr>)
           | (Some secret, v') \<Rightarrow>
               let key = deriveKey (pe_sha256 env) secret ''thinklocal-pairing-v1''
               in (HandshakeReply (pe_to_base64 env out) (encryptWithKey env iv key (pe_stringify env (pe_self env))),
                   st\<lparr>pr_session := Some \<lparr>pn_pin = pin, pn_state = Handshake, pn_created_at = now, pn_spake = v',
                        pn_shared_key = Some key, pn_peer = Some agentId\<rparr>\<rparr>)))"

definition pairing_init :: "'v pairing_env \<Rightarrow> time \<Rightarrow> string \<Rightarrow> string option \<Rightarrow> init_body \<Rightarrow> 'v pairing \<Rightarrow> pairing_reply \<times> 'v pairing" where
  "pairing_init env now iv remoteAddress body st0 =
     (let st1 = cleanExpiredSession now st0;
          clientIp = (case remoteAddress of None \<Rightarrow> ''unknown'' | Some ip \<Rightarrow> ip)
      in case isIpLocked now clientIp (pr_ips st1) of
           (True, ips) \<Rightarrow> (IpLocked, st1\<lparr>pr_ips := ips\<rparr>)
         | (False, ips) \<Rightarrow>
             let st = st1\<lparr>pr_ips := ips\<rparr> in
             (case (truthy (ib_agent_id body), truthy (ib_pin body), truthy (ib_spake body)) of
                (Some agentId, Some pin, Some message) \<Rightarrow>
                  (case pr_session st of
                     None \<Rightarrow> (NoLocalSession, st)
                   | Some s \<Rightarrow>
                       if pn_state s \<noteq> Waiting then (NoLocalSession, st)
                       else if pin \<noteq> pn_pin s then
                         let st' = st\<lparr>pr_failed := Suc (pr_failed st), pr_ips := recordIpFailure now clientIp (pr_ips st)\<rparr>
                         in if 3 \<le> pr_failed st' then (Invalidated, st'\<lparr>pr_session := None, pr_failed := 0\<rparr>)
                            else (WrongPin, st')
                       else if isPaired agentId (pr_store st) then (AlreadyPaired, st)
                       else handshake env now iv agentId pin message s (st\<lparr>pr_failed := 0\<rparr>))
              | _ \<Rightarrow> (MissingFields, st)))"

definition pairing_confirm :: "'v pairing_env \<Rightarrow> time \<Rightarrow> bool \<Rightarrow> bool \<Rightarrow> encrypted option \<Rightarrow> 'v pairing \<Rightarrow> pairing_reply \<times> 'v pairing" where
  "pairing_confirm env now saveOk rebuildOk body st =
     (case pr_session st of
        None \<Rightarrow> (NoActiveSession, st)
      | Some s \<Rightarrow>
          (case (pn_state s, pn_shared_key s) of
             (Handshake, Some key) \<Rightarrow>
               let failed = st\<lparr>pr_session := Some (s\<lparr>pn_state := Failed\<rparr>)\<rparr> in
               (case Option.bind (Option.bind body (decryptWithKey env key)) (pe_parse env) of
                  None \<Rightarrow> (ConfirmationFailed, failed)
                | Some d \<Rightarrow>
                    if pe_sha256hex env (py_public_key d) \<noteq> py_fingerprint d then (FingerprintMismatch, st)
                    else
                      let peer = \<lparr>pd_agent_id = py_agent_id d, pd_public_key = py_public_key d, pd_ca_cert = py_ca_cert d,
                                  pd_fingerprint = py_fingerprint d, pd_paired_at = now, pd_hostname = py_hostname d\<rparr>;
                          stored = addPeer peer (pr_store st)
                      in if saveOk \<and> rebuildOk
                         then (PairedWith (py_agent_id d),
                               st\<lparr>pr_store := stored, pr_session := Some (s\<lparr>pn_state := Completed\<rparr>)\<rparr>)
                         else (ConfirmationFailed, failed\<lparr>pr_store := stored\<rparr>))
           | _ \<Rightarrow> (NoActiveSession, st)))"

definition pairing_status :: "time \<Rightarrow> 'v pairing \<Rightarrow> pairing_reply \<times> 'v pairing" where
  "pairing_status now st0 =
     (let st = cleanExpiredSession now st0 in
      (StatusReply (map_option (\<lambda>s. (pn_state s, pn_peer s, (now - pn_created_at s) div 1000)) (pr_session st))
         (map (\<lambda>p. (pd_agent_id p, pd_hostname p, pd_paired_at p)) (m_vals (pr_store st))), st))"

section \<open>Runs\<close>

text \<open>Requests, and the writes to the store by other parts of the daemon.\<close>

datatype pair_event =
    Start time string string
  | Init time string "string option" init_body
  | Confirm time bool bool "encrypted option"
  | Status time
  | Stored paired_peer
  | Unpaired string

fun pair_step :: "'v pairing_env \<Rightarrow> pair_event \<Rightarrow> 'v pairing \<Rightarrow> pairing_reply option \<times> 'v pairing" where
  "pair_step env (Start now pin seed) st = map_prod Some id (pairing_start env now pin seed st)"
| "pair_step env (Init now iv ip body) st = map_prod Some id (pairing_init env now iv ip body st)"
| "pair_step env (Confirm now saveOk rebuildOk body) st = map_prod Some id (pairing_confirm env now saveOk rebuildOk body st)"
| "pair_step env (Status now) st = map_prod Some id (pairing_status now st)"
| "pair_step env (Stored p) st = (None, st\<lparr>pr_store := addPeer p (pr_store st)\<rparr>)"
| "pair_step env (Unpaired i) st = (None, st\<lparr>pr_store := snd (removePeer i (pr_store st))\<rparr>)"

definition pair_run :: "'v pairing_env \<Rightarrow> pair_event list \<Rightarrow> 'v pairing \<Rightarrow> 'v pairing" where
  "pair_run env es st = fold (\<lambda>e st. snd (pair_step env e st)) es st"

fun pair_replies :: "'v pairing_env \<Rightarrow> pair_event list \<Rightarrow> 'v pairing \<Rightarrow> (pair_event \<times> pairing_reply option) list" where
  "pair_replies env [] st = []"
| "pair_replies env (e # es) st = (e, fst (pair_step env e st)) # pair_replies env es (snd (pair_step env e st))"

definition new_pairing :: "pairing_store \<Rightarrow> 'v pairing" where
  "new_pairing store = \<lparr>pr_session = None, pr_failed = 0, pr_ips = [], pr_store = store\<rparr>"

text \<open>What a session in the handshake rests on: a PIN shown here, then a request that carried it.\<close>

definition shaken :: "'v pairing_env \<Rightarrow> pair_event list \<Rightarrow> string \<Rightarrow> string \<Rightarrow> bool" where
  "shaken env es pin key \<longleftrightarrow>
     (\<exists>pre post now iv ip body message v secret t seed. es = pre @ Init now iv ip body # post
        \<and> Start t pin seed \<in> set pre \<and> ib_pin body = Some pin \<and> ib_spake body = Some message
        \<and> fst (pe_finish env v (pe_from_base64 env message)) = Some secret
        \<and> key = deriveKey (pe_sha256 env) secret ''thinklocal-pairing-v1'')"

definition ceremony :: "'v pairing_env \<Rightarrow> pair_event list \<Rightarrow> paired_peer \<Rightarrow> bool" where
  "ceremony env es p \<longleftrightarrow>
     (\<exists>pre post now saveOk rebuildOk e pin key d. es = pre @ Confirm now saveOk rebuildOk (Some e) # post
        \<and> shaken env pre pin key \<and> Option.bind (decryptWithKey env key e) (pe_parse env) = Some d
        \<and> pd_agent_id p = py_agent_id d \<and> pd_public_key p = py_public_key d \<and> pd_ca_cert p = py_ca_cert d
        \<and> pd_fingerprint p = pe_sha256hex env (pd_public_key p))"

definition session_ok :: "'v pairing_env \<Rightarrow> pair_event list \<Rightarrow> 'v pairing_session \<Rightarrow> bool" where
  "session_ok env es s \<longleftrightarrow> (\<exists>t seed. Start t (pn_pin s) seed \<in> set es)
     \<and> (case pn_shared_key s of None \<Rightarrow> True | Some key \<Rightarrow> shaken env es (pn_pin s) key)"

definition vouched :: "'v pairing_env \<Rightarrow> pairing_store \<Rightarrow> pair_event list \<Rightarrow> string \<Rightarrow> paired_peer \<Rightarrow> bool" where
  "vouched env store0 es k p \<longleftrightarrow> m_get store0 k = Some p \<or> Stored p \<in> set es \<or> ceremony env es p"

definition pair_inv :: "'v pairing_env \<Rightarrow> pairing_store \<Rightarrow> pair_event list \<Rightarrow> 'v pairing \<Rightarrow> bool" where
  "pair_inv env store0 es st \<longleftrightarrow> pr_failed st < 3
     \<and> (\<forall>s. pr_session st = Some s \<longrightarrow> session_ok env es s)
     \<and> (\<forall>k p. m_get (pr_store st) k = Some p \<longrightarrow> vouched env store0 es k p)"

lemma shaken_mono: "shaken env es pin key \<Longrightarrow> shaken env (es @ es') pin key"
  unfolding shaken_def by (elim exE conjE) (intro exI conjI, auto)

lemma ceremony_mono: "ceremony env es p \<Longrightarrow> ceremony env (es @ es') p"
  unfolding ceremony_def by (elim exE conjE) (intro exI conjI, auto)

lemma vouched_mono: "vouched env store0 es k p \<Longrightarrow> vouched env store0 (es @ es') k p"
  unfolding vouched_def using ceremony_mono by auto

lemma session_ok_mono: "session_ok env es s \<Longrightarrow> session_ok env (es @ es') s"
  unfolding session_ok_def by (auto simp: shaken_mono split: option.splits)

lemma session_ok_cong:
  "pn_pin s' = pn_pin s \<Longrightarrow> pn_shared_key s' = pn_shared_key s \<Longrightarrow> session_ok env es s' = session_ok env es s"
  by (simp add: session_ok_def split: option.split)

lemma pair_inv_mono: "pair_inv env store0 es st \<Longrightarrow> pair_inv env store0 (es @ es') st"
  unfolding pair_inv_def by (auto simp: session_ok_mono vouched_mono)

lemma clean_cases: "cleanExpiredSession now st = st \<or> cleanExpiredSession now st = st\<lparr>pr_session := None\<rparr>"
  by (auto simp: cleanExpiredSession_def split: option.splits)

lemma pair_inv_clean: "pair_inv env store0 es st \<Longrightarrow> pair_inv env store0 es (cleanExpiredSession now st)"
  using clean_cases [of now st] by (auto simp: pair_inv_def)

lemma start_inv:
  assumes "pair_inv env store0 es st"
  shows "pair_inv env store0 (es @ [Start now pin seed]) (snd (pairing_start env now pin seed st))"
  using pair_inv_clean [OF pair_inv_mono [OF assms, of "[Start now pin seed]"], of now]
  by (auto simp: pairing_start_def Let_def pair_inv_def session_ok_def)

lemma handshake_inv:
  assumes inv: "pair_inv env store0 es st" and s: "pr_session st = Some s"
    and body: "ib_pin body = Some (pn_pin s)" "ib_spake body = Some message"
  shows "pair_inv env store0 (es @ [Init now iv ip body]) (snd (handshake env now iv agentId (pn_pin s) message s st))"
proof -
  let ?es = "es @ [Init now iv ip body]"
  have inv': "pair_inv env store0 ?es st" by (rule pair_inv_mono [OF inv])
  have ok: "session_ok env es s" using inv s by (simp add: pair_inv_def)
  have waiting: "session_ok env ?es (s\<lparr>pn_spake := v\<rparr>)" for v
    using session_ok_mono [OF ok] session_ok_cong [of "s\<lparr>pn_spake := v\<rparr>" s] by simp
  have shaken_now: "session_ok env ?es \<lparr>pn_pin = pn_pin s, pn_state = Handshake, pn_created_at = now, pn_spake = v',
      pn_shared_key = Some (deriveKey (pe_sha256 env) secret ''thinklocal-pairing-v1''), pn_peer = Some agentId\<rparr>"
    if "pe_finish env v (pe_from_base64 env message) = (Some secret, v')" for v v' secret
  proof -
    obtain t seed where "Start t (pn_pin s) seed \<in> set es" using ok by (auto simp: session_ok_def)
    then have "shaken env ?es (pn_pin s) (deriveKey (pe_sha256 env) secret ''thinklocal-pairing-v1'')"
      unfolding shaken_def using that body
      by (intro exI [of _ es] exI [of _ "[]"] exI [of _ now] exI [of _ iv] exI [of _ ip] exI [of _ body] exI [of _ message]
          exI [of _ v] exI [of _ secret] exI [of _ t] exI [of _ seed]) simp
    then show ?thesis using ok by (auto simp: session_ok_def)
  qed
  show ?thesis
    using inv' waiting shaken_now by (auto simp: handshake_def Let_def pair_inv_def split: prod.splits option.splits)
qed

text \<open>The ways a request to \<open>/pairing/init\<close> can go.\<close>

lemma init_cases:
  fixes st0 :: "'v pairing"
  assumes "pairing_init env now iv remote body st0 = (reply, st')"
  obtains (refused) ips where "st' = (cleanExpiredSession now st0)\<lparr>pr_ips := ips\<rparr>" "reply \<notin> {WrongPin, Invalidated}"
  | (wrong) s ips where "pr_session (cleanExpiredSession now st0) = Some s" "pn_state s = Waiting" "ib_pin body \<noteq> Some (pn_pin s)"
      "pr_failed st0 < 2" "st' = (cleanExpiredSession now st0)\<lparr>pr_failed := Suc (pr_failed st0), pr_ips := ips\<rparr>" "reply = WrongPin"
  | (third) s ips where "pr_session (cleanExpiredSession now st0) = Some s" "pn_state s = Waiting" "ib_pin body \<noteq> Some (pn_pin s)"
      "st' = (cleanExpiredSession now st0)\<lparr>pr_ips := ips, pr_session := None, pr_failed := 0\<rparr>" "reply = Invalidated"
  | (right) s ips agentId message where "pr_session (cleanExpiredSession now st0) = Some s" "pn_state s = Waiting"
      "ib_pin body = Some (pn_pin s)" "ib_spake body = Some message"
      "(reply, st') = handshake env now iv agentId (pn_pin s) message s ((cleanExpiredSession now st0)\<lparr>pr_ips := ips, pr_failed := 0\<rparr>)"
proof -
  let ?st = "cleanExpiredSession now st0"
  have failed: "pr_failed ?st = pr_failed st0" using clean_cases [of now st0] by auto
  obtain locked ips where lock: "isIpLocked now (case remote of None \<Rightarrow> ''unknown'' | Some ip \<Rightarrow> ip) (pr_ips ?st) = (locked, ips)"
    by (metis surj_pair)
  note unfold = assms [unfolded pairing_init_def Let_def lock prod.case]
  consider (early) "st' = ?st\<lparr>pr_ips := ips\<rparr>" "reply \<notin> {WrongPin, Invalidated}"
    | (session) a p msg s where "\<not> locked" "ib_agent_id body = Some a" "ib_pin body = Some p" "ib_spake body = Some msg"
        "truthy (Some a) = Some a" "truthy (Some p) = Some p" "truthy (Some msg) = Some msg"
        "pr_session ?st = Some s" "pn_state s = Waiting"
    using unfold by (auto simp: truthy_eq_Some split: bool.splits option.splits if_splits)
  then show thesis
  proof cases
    case early
    then show ?thesis by (rule refused)
  next
    case (session a p msg s)
    consider "p \<noteq> pn_pin s" "3 \<le> Suc (pr_failed st0)" | "p \<noteq> pn_pin s" "\<not> 3 \<le> Suc (pr_failed st0)"
      | "p = pn_pin s" "isPaired a (pr_store ?st)" | "p = pn_pin s" "\<not> isPaired a (pr_store ?st)" by blast
    then show ?thesis
    proof cases
      case 1
      with unfold session failed show ?thesis by (intro third) auto
    next
      case 2
      with unfold session failed show ?thesis by (intro wrong) auto
    next
      case 3
      with unfold session failed show ?thesis by (intro refused) auto
    next
      case 4
      with unfold session failed show ?thesis by (intro right [where s = s and ips = ips and agentId = a and message = msg]) auto
    qed
  qed
qed

lemma pair_inv_fields:
  "pair_inv env store0 es st \<Longrightarrow> n < 3 \<Longrightarrow> pair_inv env store0 es (st\<lparr>pr_failed := n\<rparr>)"
  "pair_inv env store0 es st \<Longrightarrow> pair_inv env store0 es (st\<lparr>pr_ips := ips\<rparr>)"
  "pair_inv env store0 es st \<Longrightarrow> pair_inv env store0 es (st\<lparr>pr_session := None\<rparr>)"
  by (simp_all add: pair_inv_def)

lemma init_inv:
  assumes inv: "pair_inv env store0 es st0"
  shows "pair_inv env store0 (es @ [Init now iv remote body]) (snd (pairing_init env now iv remote body st0))"
proof -
  obtain reply st' where step: "pairing_init env now iv remote body st0 = (reply, st')" by (metis surj_pair)
  note clean = pair_inv_clean [OF inv, of now]
  note grown = pair_inv_mono [OF clean]
  have "pair_inv env store0 (es @ [Init now iv remote body]) st'"
    using step
  proof (cases rule: init_cases)
    case (right s ips agentId message)
    let ?st = "(cleanExpiredSession now st0)\<lparr>pr_ips := ips, pr_failed := 0\<rparr>"
    have "pair_inv env store0 es ?st" using clean by (simp add: pair_inv_def)
    moreover have "pr_session ?st = Some s" using right(1) by simp
    ultimately have "pair_inv env store0 (es @ [Init now iv remote body]) (snd (handshake env now iv agentId (pn_pin s) message s ?st))"
      using right(3,4) by (rule handshake_inv)
    then show ?thesis using right(5) by (metis snd_conv)
  qed (use grown in \<open>auto intro!: pair_inv_fields\<close>)
  then show ?thesis by (simp add: step)
qed

lemma confirm_inv:
  assumes inv: "pair_inv env store0 es st"
  shows "pair_inv env store0 (es @ [Confirm now saveOk rebuildOk body]) (snd (pairing_confirm env now saveOk rebuildOk body st))"
proof -
  let ?es = "es @ [Confirm now saveOk rebuildOk body]"
  have grown: "pair_inv env store0 ?es st" by (rule pair_inv_mono [OF inv])
  show ?thesis
  proof (cases "\<exists>s key. pr_session st = Some s \<and> pn_state s = Handshake \<and> pn_shared_key s = Some key")
    case False
    then show ?thesis using grown
      by (auto simp: pairing_confirm_def split: option.splits session_state.splits)
  next
    case True
    then obtain s key where s: "pr_session st = Some s" "pn_state s = Handshake" "pn_shared_key s = Some key" by blast
    have ok: "session_ok env es s" using inv s by (simp add: pair_inv_def)
    then have ok': "session_ok env ?es (s\<lparr>pn_state := x\<rparr>)" for x
      using session_ok_mono [OF ok] session_ok_cong [of "s\<lparr>pn_state := x\<rparr>" s] by simp
    have shaken: "shaken env es (pn_pin s) key" using ok s by (simp add: session_ok_def)
    have new: "vouched env store0 ?es k p"
      if "body = Some e" "Option.bind (decryptWithKey env key e) (pe_parse env) = Some d"
        "pe_sha256hex env (py_public_key d) = py_fingerprint d"
        "p = \<lparr>pd_agent_id = py_agent_id d, pd_public_key = py_public_key d, pd_ca_cert = py_ca_cert d,
              pd_fingerprint = py_fingerprint d, pd_paired_at = now, pd_hostname = py_hostname d\<rparr>" for k p d e
      unfolding vouched_def ceremony_def using that shaken
      by (intro disjI2 exI [of _ es] exI [of _ "[]"] exI [of _ now] exI [of _ saveOk] exI [of _ rebuildOk] exI [of _ e]
          exI [of _ "pn_pin s"] exI [of _ key] exI [of _ d]) simp
    show ?thesis
      using grown ok' s new
      by (auto simp: pairing_confirm_def Let_def pair_inv_def addPeer_def split: option.splits bind_splits)
  qed
qed

lemma pair_run_snoc: "pair_run env (es @ [e]) st = snd (pair_step env e (pair_run env es st))"
  by (simp add: pair_run_def)

lemma pair_run_inv: "pair_inv env store0 es (pair_run env es (new_pairing store0))"
proof (induction es rule: rev_induct)
  case Nil
  show ?case by (simp add: pair_run_def new_pairing_def pair_inv_def vouched_def)
next
  case (snoc e es)
  let ?st = "pair_run env es (new_pairing store0)"
  note grown = pair_inv_mono [OF snoc]
  show ?case
  proof (cases e)
    case (Start now pin seed)
    then show ?thesis using start_inv [OF snoc] by (simp add: pair_run_snoc)
  next
    case (Init now iv ip body)
    then show ?thesis using init_inv [OF snoc] by (simp add: pair_run_snoc)
  next
    case (Confirm now a b body)
    then show ?thesis using confirm_inv [OF snoc] by (simp add: pair_run_snoc)
  next
    case (Status now)
    then show ?thesis using pair_inv_clean [OF grown] by (simp add: pair_run_snoc pairing_status_def Let_def)
  next
    case (Stored p)
    then show ?thesis using grown [of "[e]"] by (auto simp: pair_run_snoc pair_inv_def addPeer_def vouched_def)
  next
    case (Unpaired i)
    then show ?thesis using grown [of "[e]"] by (auto simp: pair_run_snoc pair_inv_def removePeer_def)
  qed
qed

section \<open>Guesses\<close>

definition wrong :: "pair_event \<times> pairing_reply option \<Rightarrow> bool" where
  "wrong r \<longleftrightarrow> snd r \<in> {Some WrongPin, Some Invalidated}"

text \<open>How many wrong PINs the session still bears.\<close>

definition budget :: "'v pairing \<Rightarrow> nat" where
  "budget st = (case pr_session st of Some s \<Rightarrow> if pn_state s = Waiting then 3 - pr_failed st else 0 | None \<Rightarrow> 0)"

text \<open>Requests that start no session and do not carry the PIN of the session there is.\<close>

fun guessing :: "string option \<Rightarrow> pair_event \<Rightarrow> bool" where
  "guessing pin (Start _ _ _) = False"
| "guessing pin (Init _ _ _ body) = (ib_pin body = None \<or> ib_pin body \<noteq> pin)"
| "guessing pin _ = True"

definition session_pin :: "'v pairing \<Rightarrow> string option" where
  "session_pin st = map_option pn_pin (pr_session st)"

lemma budget_clean: "budget (cleanExpiredSession now st) \<le> budget st" "session_pin (cleanExpiredSession now st) \<in> {session_pin st, None}"
  "pr_failed (cleanExpiredSession now st) = pr_failed st"
  using clean_cases [of now st] by (auto simp: budget_def session_pin_def split: option.split)

lemma guess_step:
  assumes "guessing pin e" "session_pin st = pin \<or> session_pin st = None" "pr_failed st < 3"
  shows "(if wrong (e, fst (pair_step env e st)) then 1 else 0) + budget (snd (pair_step env e st)) \<le> budget st
    \<and> (session_pin (snd (pair_step env e st)) = pin \<or> session_pin (snd (pair_step env e st)) = None)
    \<and> pr_failed (snd (pair_step env e st)) < 3"
proof (cases e)
  case (Init now iv ip body)
  obtain reply st' where step: "pairing_init env now iv ip body st = (reply, st')" by (metis surj_pair)
  have "(if reply \<in> {WrongPin, Invalidated} then 1 else 0) + budget st' \<le> budget st
    \<and> (session_pin st' = pin \<or> session_pin st' = None) \<and> pr_failed st' < 3"
    using step
  proof (cases rule: init_cases)
    case (refused ips)
    have "budget st' = budget (cleanExpiredSession now st)" "session_pin st' = session_pin (cleanExpiredSession now st)"
      unfolding refused(1) by (simp_all add: budget_def session_pin_def split: option.split)
    then show ?thesis using refused budget_clean [of now st] assms by auto
  next
    case (wrong s ips)
    then have "budget (cleanExpiredSession now st) = 3 - pr_failed st" "budget st' = 3 - Suc (pr_failed st)"
        "session_pin st' = session_pin (cleanExpiredSession now st)"
      by (simp_all add: budget_def budget_clean session_pin_def)
    then show ?thesis using wrong budget_clean(1,2) [of now st] assms by auto
  next
    case (third s ips)
    then have "budget (cleanExpiredSession now st) = 3 - pr_failed st" "budget st' = 0" "session_pin st' = None"
      by (simp_all add: budget_def budget_clean session_pin_def)
    then show ?thesis using third budget_clean(1) [of now st] assms by auto
  next
    case (right s ips agentId message)
    have "session_pin st = Some (pn_pin s)" using right(1) clean_cases [of now st] by (auto simp: session_pin_def)
    then show ?thesis using right(3) assms Init by auto
  qed
  then show ?thesis by (simp add: Init step wrong_def)
next
  case (Confirm now a b body)
  show ?thesis using assms unfolding Confirm
    by (auto simp: pairing_confirm_def Let_def wrong_def budget_def session_pin_def split: option.splits session_state.splits bind_splits)
next
  case (Status now)
  show ?thesis using assms budget_clean [of now st] unfolding Status
    by (auto simp: pairing_status_def Let_def wrong_def)
qed (use assms in \<open>auto simp: wrong_def budget_def session_pin_def split: option.split\<close>)

lemma guesses_bounded:
  "list_all (guessing pin) es \<Longrightarrow> session_pin st = pin \<or> session_pin st = None \<Longrightarrow> pr_failed st < 3 \<Longrightarrow>
     length (filter wrong (pair_replies env es st)) \<le> budget st"
proof (induction es arbitrary: st)
  case (Cons e es)
  note step = guess_step [of pin e st env]
  have "length (filter wrong (pair_replies env es (snd (pair_step env e st)))) \<le> budget (snd (pair_step env e st))"
    using step Cons.prems by (intro Cons.IH) auto
  then show ?case using step Cons.prems by auto
qed simp

lemma budget_le: "budget st \<le> 3"
  by (simp add: budget_def split: option.splits)

section \<open>The lock of an address\<close>

fun pair_time :: "pair_event \<Rightarrow> time option" where
  "pair_time (Start t _ _) = Some t"
| "pair_time (Init t _ _ _) = Some t"
| "pair_time (Confirm t _ _ _) = Some t"
| "pair_time (Status t) = Some t"
| "pair_time _ = None"

definition ip_locked :: "string \<Rightarrow> time \<Rightarrow> (string, ip_entry) jsmap \<Rightarrow> bool" where
  "ip_locked ip until ips \<longleftrightarrow> m_inv ips \<and> (\<exists>e. m_get ips ip = Some e
     \<and> MAX_FAILURES_PER_IP \<le> ip_count e \<and> until \<le> ip_last_attempt e + IP_LOCKOUT_MS)"

lemma locked_check:
  assumes "ip_locked ip until ips" "now < until"
  shows "isIpLocked now ip ips = (True, ips)" "ip_locked ip until (snd (isIpLocked now ip' ips))"
    "ip' \<noteq> ip \<Longrightarrow> ip_locked ip until (recordIpFailure now ip' ips)"
  using assms
  by (auto simp: ip_locked_def isIpLocked_def recordIpFailure_def Let_def m_get_filter split: option.splits)

lemma clean_ips [simp]: "pr_ips (cleanExpiredSession now st) = pr_ips st"
  using clean_cases [of now st] by auto

lemma handshake_ips: "pr_ips (snd (handshake env now iv a p m s st)) = pr_ips st"
  by (auto simp: handshake_def Let_def split: prod.splits option.splits)

lemma init_locked:
  assumes "ip_locked ip until (pr_ips st)" "now < until"
  shows "remote = Some ip \<Longrightarrow> fst (pairing_init env now iv remote body st) = IpLocked"
    and "ip_locked ip until (pr_ips (snd (pairing_init env now iv remote body st)))"
proof -
  show "fst (pairing_init env now iv remote body st) = IpLocked" if "remote = Some ip"
    using locked_check(1) [OF assms] that by (simp add: pairing_init_def Let_def)
  let ?ip = "case remote of None \<Rightarrow> ''unknown'' | Some ip \<Rightarrow> ip"
  obtain lock ips where c: "isIpLocked now ?ip (pr_ips st) = (lock, ips)" by (metis surj_pair)
  have ips: "ip_locked ip until ips" using locked_check(2) [OF assms, of ?ip] c by simp
  have "?ip \<noteq> ip" if "\<not> lock" using locked_check(1) [OF assms] c that by auto
  then have "\<not> lock \<Longrightarrow> ip_locked ip until (recordIpFailure now ?ip ips)" using locked_check(3) [OF ips assms(2)] by blast
  then show "ip_locked ip until (pr_ips (snd (pairing_init env now iv remote body st)))"
    using ips unfolding pairing_init_def Let_def clean_ips c
    by (auto simp: handshake_ips split: bool.splits option.splits)
qed

lemma recordIpFailure_inv: "m_inv ips \<Longrightarrow> m_inv (recordIpFailure now ip ips)"
  by (simp add: recordIpFailure_def Let_def)

lemma isIpLocked_inv: "m_inv ips \<Longrightarrow> m_inv (snd (isIpLocked now ip ips))"
  by (simp add: isIpLocked_def split: option.splits)

lemma init_ips:
  assumes "m_inv (pr_ips st)"
  shows "m_inv (pr_ips (snd (pairing_init env now iv remote body st)))"
proof -
  let ?ip = "case remote of None \<Rightarrow> ''unknown'' | Some ip \<Rightarrow> ip"
  obtain lock ips where c: "isIpLocked now ?ip (pr_ips st) = (lock, ips)" by (metis surj_pair)
  have "m_inv ips" using isIpLocked_inv [OF assms, of now ?ip] c by simp
  then show ?thesis using recordIpFailure_inv [of ips now ?ip] unfolding pairing_init_def Let_def clean_ips c
    by (auto simp: handshake_ips split: bool.splits option.splits)
qed

lemma step_ips: "m_inv (pr_ips st) \<Longrightarrow> m_inv (pr_ips (snd (pair_step env e st)))"
  by (cases e) (auto simp: init_ips pairing_start_def pairing_status_def pairing_confirm_def Let_def
    split: option.splits session_state.splits bind_splits)

lemma ips_inv: "m_inv (pr_ips (pair_run env es (new_pairing store0)))"
  by (induction es rule: rev_induct) (simp_all add: pair_run_snoc step_ips pair_run_def new_pairing_def)

lemma locked_replies:
  "ip_locked ip until (pr_ips st) \<Longrightarrow> list_all (\<lambda>e. case pair_time e of None \<Rightarrow> True | Some t \<Rightarrow> t < until) es \<Longrightarrow>
     (Init t iv (Some ip) body, reply) \<in> set (pair_replies env es st) \<Longrightarrow> reply = Some IpLocked"
proof (induction es arbitrary: st)
  case (Cons e es)
  have "ip_locked ip until (pr_ips (snd (pair_step env e st)))"
  proof (cases e)
    case (Init now iv remote body)
    then show ?thesis using init_locked(2) [OF Cons.prems(1)] Cons.prems(2) by simp
  next
    case (Confirm now a b body)
    then show ?thesis using Cons.prems(1)
      by (auto simp: pairing_confirm_def Let_def split: option.splits session_state.splits bind_splits)
  qed (use Cons.prems(1) in \<open>auto simp: pairing_start_def pairing_status_def Let_def\<close>)
  then have "(Init t iv (Some ip) body, reply) \<in> set (pair_replies env es (snd (pair_step env e st))) \<Longrightarrow> ?thesis"
    using Cons.IH Cons.prems(2) by simp
  then show ?case using Cons.prems init_locked(1) [OF Cons.prems(1)] by auto
qed simp

section \<open>Properties\<close>

text \<open>The requests that a ceremony consists of, spelled out.\<close>

lemma ceremony_requests:
  assumes "ceremony env es p"
  shows "\<exists>pre mid post t pin seed now iv ip body message v secret t' saveOk rebuildOk e d.
    es = pre @ Init now iv ip body # mid @ Confirm t' saveOk rebuildOk (Some e) # post
    \<and> Start t pin seed \<in> set pre \<and> ib_pin body = Some pin \<and> ib_spake body = Some message
    \<and> fst (pe_finish env v (pe_from_base64 env message)) = Some secret
    \<and> Option.bind (decryptWithKey env (deriveKey (pe_sha256 env) secret ''thinklocal-pairing-v1'') e) (pe_parse env) = Some d
    \<and> pd_agent_id p = py_agent_id d \<and> pd_public_key p = py_public_key d \<and> pd_ca_cert p = py_ca_cert d
    \<and> pd_fingerprint p = pe_sha256hex env (pd_public_key p)"
proof -
  from assms obtain pre1 post t' saveOk rebuildOk e pin key d where
    es: "es = pre1 @ Confirm t' saveOk rebuildOk (Some e) # post" and sh: "shaken env pre1 pin key"
    and d: "Option.bind (decryptWithKey env key e) (pe_parse env) = Some d" "pd_agent_id p = py_agent_id d"
      "pd_public_key p = py_public_key d" "pd_ca_cert p = py_ca_cert d" "pd_fingerprint p = pe_sha256hex env (pd_public_key p)"
    unfolding ceremony_def by blast
  from sh obtain pre mid now iv ip body message v secret t seed where
    "pre1 = pre @ Init now iv ip body # mid" "Start t pin seed \<in> set pre" "ib_pin body = Some pin" "ib_spake body = Some message"
    "fst (pe_finish env v (pe_from_base64 env message)) = Some secret"
    "key = deriveKey (pe_sha256 env) secret ''thinklocal-pairing-v1''"
    unfolding shaken_def by blast
  moreover from this(1) have "es = pre @ Init now iv ip body # mid @ Confirm t' saveOk rebuildOk (Some e) # post"
    using es by simp
  ultimately show ?thesis using d by metis
qed

text \<open>A ceremony is one of the requests alone: leaving other events out keeps it.\<close>

lemma shaken_filter:
  assumes "shaken env es pin key" "\<And>now iv ip body. P (Init now iv ip body)" "\<And>t pin seed. P (Start t pin seed)"
  shows "shaken env (filter P es) pin key"
proof -
  from assms(1) obtain pre post now iv ip body message v secret t seed where
    es: "es = pre @ Init now iv ip body # post" and st: "Start t pin seed \<in> set pre"
    and rest: "ib_pin body = Some pin" "ib_spake body = Some message"
      "fst (pe_finish env v (pe_from_base64 env message)) = Some secret"
      "key = deriveKey (pe_sha256 env) secret ''thinklocal-pairing-v1''"
    unfolding shaken_def by blast
  have "filter P es = filter P pre @ Init now iv ip body # filter P post" by (simp add: es assms(2))
  moreover have "Start t pin seed \<in> set (filter P pre)" using st assms(3) by simp
  ultimately show ?thesis unfolding shaken_def using rest by blast
qed

lemma ceremony_filter:
  assumes "ceremony env es p" "\<And>now iv ip body. P (Init now iv ip body)" "\<And>t pin seed. P (Start t pin seed)"
    and "\<And>t a b e. P (Confirm t a b e)"
  shows "ceremony env (filter P es) p"
proof -
  from assms(1) obtain pre post now saveOk rebuildOk e pin key d where
    es: "es = pre @ Confirm now saveOk rebuildOk (Some e) # post" and sh: "shaken env pre pin key"
    and rest: "Option.bind (decryptWithKey env key e) (pe_parse env) = Some d" "pd_agent_id p = py_agent_id d"
      "pd_public_key p = py_public_key d" "pd_ca_cert p = py_ca_cert d" "pd_fingerprint p = pe_sha256hex env (pd_public_key p)"
    unfolding ceremony_def by blast
  have "filter P es = filter P pre @ Confirm now saveOk rebuildOk (Some e) # filter P post" by (simp add: es assms(4))
  moreover have "shaken env (filter P pre) pin key" by (rule shaken_filter [OF sh assms(2,3)])
  ultimately show ?thesis unfolding ceremony_def using rest by blast
qed

text \<open>Toy primitives: hashes and encodings that change nothing, a cipher that compares the key, one secret.\<close>

definition demo_payload :: pairing_payload where
  "demo_payload = \<lparr>py_agent_id = ''node/b'', py_public_key = ''K'', py_ca_cert = ''CA'', py_hostname = ''b'', py_fingerprint = ''K''\<rparr>"

definition demo_env :: "unit pairing_env" where
  "demo_env = \<lparr>pe_self = demo_payload, pe_sha256 = \<lambda>s. s, pe_sha256hex = \<lambda>s. s, pe_verifier = \<lambda>_ _ _. (),
     pe_generate = \<lambda>v. (Some ''out'', v), pe_finish = \<lambda>v m. (if m = [] then None else Some ''S'', v),
     pe_from_base64 = \<lambda>s. s, pe_to_base64 = \<lambda>s. s, pe_encrypt = \<lambda>key iv s. (s, key),
     pe_decrypt = \<lambda>key e. if en_tag e = key then Some (en_ciphertext e) else None, pe_stringify = py_agent_id,
     pe_parse = \<lambda>s. if s = ''node/b'' then Some demo_payload else None\<rparr>"

definition demo_init :: "string \<Rightarrow> time \<Rightarrow> pair_event" where
  "demo_init pin t = Init t ''iv'' (Some ''10.0.0.9'') \<lparr>ib_agent_id = Some ''node/b'', ib_pin = Some pin, ib_spake = Some ''m''\<rparr>"

definition demo_ceremony :: "pair_event list" where
  "demo_ceremony = [Start 0 ''123456'' ''r'', demo_init ''000000'' 1, demo_init ''123456'' 2,
     Confirm 1000000 True True (Some \<lparr>en_ciphertext = ''node/b'', en_iv = ''iv'', en_tag = ''Sthinklocal-pairing-v1''\<rparr>)]"

text \<open>
  C17. Guessing a PIN. In every reachable state, any further requests that neither start a session nor carry
  its PIN are told at most three times that a PIN is wrong: the third wrong PIN drops the session. And once an
  address has failed ten times, every request to \<open>/pairing/init\<close> from it is turned away for fifteen minutes
  after its last failure, whatever else happens in between, before its PIN is looked at.
\<close>

theorem pairing_guess_bound:
  assumes "st = pair_run env es0 (new_pairing store0)"
  shows "(list_all (guessing (session_pin st)) es \<longrightarrow> length (filter wrong (pair_replies env es st)) \<le> 3)
    \<and> (m_get (pr_ips st) ip = Some e \<and> 10 \<le> ip_count e
       \<and> list_all (\<lambda>ev. case pair_time ev of None \<Rightarrow> True | Some t \<Rightarrow> t < ip_last_attempt e + 15 * 60000) es
       \<and> (Init t iv (Some ip) body, reply) \<in> set (pair_replies env es st) \<longrightarrow> reply = Some IpLocked)"
proof -
  have "pr_failed st < 3" using pair_run_inv [of env store0 es0] assms by (simp add: pair_inv_def)
  then have guesses: "length (filter wrong (pair_replies env es st)) \<le> 3" if "list_all (guessing (session_pin st)) es"
    using guesses_bounded [OF that, of st env] budget_le [of st] by simp
  have lock: "reply = Some IpLocked" if "m_get (pr_ips st) ip = Some e" "10 \<le> ip_count e"
    "list_all (\<lambda>ev. case pair_time ev of None \<Rightarrow> True | Some t \<Rightarrow> t < ip_last_attempt e + 15 * 60000) es"
    "(Init t iv (Some ip) body, reply) \<in> set (pair_replies env es st)"
    using locked_replies [OF _ that(3,4)] that(1,2) ips_inv [of env es0 store0] assms
    by (simp add: ip_locked_def MAX_FAILURES_PER_IP_def IP_LOCKOUT_MS_def)
  show ?thesis using guesses lock by blast
qed

definition demo_attack :: "pair_event list" where
  "demo_attack = concat (replicate 4 [Start 0 ''123456'' ''r'', demo_init ''1'' 1, demo_init ''2'' 2, demo_init ''3'' 3])"

text \<open>The last two of the twelve requests find the address locked; the session then bears no guess from it.\<close>

theorem pairing_guess_bound_witness:
  "length (filter wrong (pair_replies demo_env demo_attack (new_pairing []))) = 10
   \<and> length (filter wrong (pair_replies demo_env [demo_init ''4'' 5, demo_init ''5'' 6] (pair_run demo_env demo_attack (new_pairing [])))) \<le> 3
   \<and> list_all (\<lambda>r. snd r = Some IpLocked) (pair_replies demo_env [demo_init ''123456'' 7] (pair_run demo_env demo_attack (new_pairing [])))"
proof -
  let ?st = "pair_run demo_env demo_attack (new_pairing [])"
  have ten: "length (filter wrong (pair_replies demo_env demo_attack (new_pairing []))) = 10" by code_simp
  have pin: "session_pin ?st = Some ''123456''" by code_simp
  have "list_all (guessing (session_pin ?st)) [demo_init ''4'' 5, demo_init ''5'' 6]"
    by (simp add: pin demo_init_def)
  then have guesses: "length (filter wrong (pair_replies demo_env [demo_init ''4'' 5, demo_init ''5'' 6] ?st)) \<le> 3"
    using pairing_guess_bound [OF refl] by blast
  have entry: "m_get (pr_ips ?st) ''10.0.0.9'' = Some \<lparr>ip_count = 10, ip_last_attempt = 1\<rparr>" by code_simp
  have "list_all (\<lambda>ev. case pair_time ev of None \<Rightarrow> True
      | Some t \<Rightarrow> t < ip_last_attempt \<lparr>ip_count = 10, ip_last_attempt = 1\<rparr> + 15 * 60000) [demo_init ''123456'' 7]"
    by (simp add: demo_init_def)
  then have lock: "reply = Some IpLocked"
    if "(Init t iv (Some ''10.0.0.9'') body, reply) \<in> set (pair_replies demo_env [demo_init ''123456'' 7] ?st)" for t iv body reply
    using pairing_guess_bound [OF refl, of _ _ _ _ "''10.0.0.9''"] entry that by fastforce
  have "list_all (\<lambda>r. snd r = Some IpLocked) (pair_replies demo_env [demo_init ''123456'' 7] ?st)"
    using lock unfolding demo_init_def by simp
  then show ?thesis using ten guesses by blast
qed

end
