(* ===== verification/Rate_Limit.thy ===== *)
theory Rate_Limit
  imports Prelude
begin

text \<open>
  The token bucket per peer, \<open>packages/daemon/src/ratelimit.ts\<close>. Token counts are rationals (rounding of
  doubles is not modelled); the two readings of the clock in \<open>allow\<close> are one argument. The clean-up
  timer is an explicit operation.
\<close>

section \<open>Data and operations\<close>

record rate_config =
  rl_max_tokens :: rat
  rl_refill_rate :: rat   \<comment> \<open>tokens per second\<close>

record bucket =
  bk_tokens :: rat
  bk_last_refill :: time

type_synonym rate_limiter = "(string, bucket) jsmap"

definition DEFAULT_CONFIG :: rate_config where
  "DEFAULT_CONFIG = \<lparr>rl_max_tokens = 20, rl_refill_rate = 2\<rparr>"

definition getOrCreateBucket :: "rate_config \<Rightarrow> time \<Rightarrow> string \<Rightarrow> rate_limiter \<Rightarrow> bucket \<times> rate_limiter" where
  "getOrCreateBucket cfg now peerId rl =
     (case m_get rl peerId of
        Some b \<Rightarrow> (b, rl)
      | None \<Rightarrow>
          let b = \<lparr>bk_tokens = rl_max_tokens cfg, bk_last_refill = now\<rparr> in (b, m_set peerId b rl))"

definition refill :: "rate_config \<Rightarrow> time \<Rightarrow> bucket \<Rightarrow> bucket" where
  "refill cfg now b =
     (let elapsed = of_int (now - bk_last_refill b) / 1000;
          newTokens = elapsed * rl_refill_rate cfg
      in if newTokens > 0
         then b\<lparr>bk_tokens := min (rl_max_tokens cfg) (bk_tokens b + newTokens), bk_last_refill := now\<rparr>
         else b)"

definition allow :: "rate_config \<Rightarrow> time \<Rightarrow> string \<Rightarrow> rate_limiter \<Rightarrow> bool \<times> rate_limiter" where
  "allow cfg now peerId rl =
     (case getOrCreateBucket cfg now peerId rl of
        (b, rl') \<Rightarrow>
          let b' = refill cfg now b in
          if 1 \<le> bk_tokens b' then (True, m_set peerId (b'\<lparr>bk_tokens := bk_tokens b' - 1\<rparr>) rl')
          else (False, m_set peerId b' rl'))"

definition remaining :: "rate_config \<Rightarrow> time \<Rightarrow> string \<Rightarrow> rate_limiter \<Rightarrow> rat \<times> rate_limiter" where
  "remaining cfg now peerId rl =
     (case m_get rl peerId of
        None \<Rightarrow> (rl_max_tokens cfg, rl)
      | Some b \<Rightarrow> let b' = refill cfg now b in (of_int \<lfloor>bk_tokens b'\<rfloor>, m_set peerId b' rl))"

definition removePeer :: "string \<Rightarrow> rate_limiter \<Rightarrow> rate_limiter" where
  "removePeer peerId rl = m_del peerId rl"

definition cleanup_buckets :: "time \<Rightarrow> rate_limiter \<Rightarrow> rate_limiter" where
  "cleanup_buckets now rl = m_filter (\<lambda>_ b. \<not> bk_last_refill b < now - 600000) rl"

section \<open>Runs\<close>

datatype rate_event =
    Allow string time
  | Remaining string time
  | RemovePeer string time
  | CleanupBuckets time

fun rate_time :: "rate_event \<Rightarrow> time" where
  "rate_time (Allow _ t) = t"
| "rate_time (Remaining _ t) = t"
| "rate_time (RemovePeer _ t) = t"
| "rate_time (CleanupBuckets t) = t"

fun rate_step :: "rate_config \<Rightarrow> rate_event \<Rightarrow> rate_limiter \<Rightarrow> rate_limiter" where
  "rate_step cfg (Allow p t) rl = snd (allow cfg t p rl)"
| "rate_step cfg (Remaining p t) rl = snd (remaining cfg t p rl)"
| "rate_step cfg (RemovePeer p t) rl = removePeer p rl"
| "rate_step cfg (CleanupBuckets t) rl = cleanup_buckets t rl"

fun allows :: "rate_config \<Rightarrow> string \<Rightarrow> rate_event \<Rightarrow> rate_limiter \<Rightarrow> bool" where
  "allows cfg p (Allow p' t) rl \<longleftrightarrow> p' = p \<and> fst (allow cfg t p' rl)"
| "allows cfg p _ rl \<longleftrightarrow> False"

text \<open>The number of requests of one peer that a run lets through.\<close>

fun allowed_count :: "rate_config \<Rightarrow> string \<Rightarrow> rate_event list \<Rightarrow> rate_limiter \<Rightarrow> nat" where
  "allowed_count cfg p [] rl = 0"
| "allowed_count cfg p (e # es) rl =
     (if allows cfg p e rl then 1 else 0) + allowed_count cfg p es (rate_step cfg e rl)"

text \<open>How often a peer's bucket is dropped, as \<open>index.ts\<close> does when the peer goes offline.\<close>

fun removals :: "string \<Rightarrow> rate_event list \<Rightarrow> nat" where
  "removals p [] = 0"
| "removals p (RemovePeer p' t # es) = (if p' = p then 1 else 0) + removals p es"
| "removals p (_ # es) = removals p es"

section \<open>The fill level as a potential\<close>

text \<open>The tokens gained between two instants.\<close>

definition gain :: "rate_config \<Rightarrow> time \<Rightarrow> time \<Rightarrow> rat" where
  "gain cfg a b = of_int (b - a) / 1000 * rl_refill_rate cfg"

definition level_of :: "rate_config \<Rightarrow> bucket \<Rightarrow> time \<Rightarrow> rat" where
  "level_of cfg b t = min (rl_max_tokens cfg)
     (bk_tokens b + gain cfg (bk_last_refill b) t)"

definition level :: "rate_config \<Rightarrow> string \<Rightarrow> rate_limiter \<Rightarrow> time \<Rightarrow> rat" where
  "level cfg p rl t = (case m_get rl p of None \<Rightarrow> rl_max_tokens cfg | Some b \<Rightarrow> level_of cfg b t)"

definition good_config :: "rate_config \<Rightarrow> bool" where
  "good_config cfg \<longleftrightarrow> 0 \<le> rl_max_tokens cfg \<and> 0 < rl_refill_rate cfg \<and> rl_max_tokens cfg \<le> 600 * rl_refill_rate cfg"

definition bucket_ok :: "rate_config \<Rightarrow> time \<Rightarrow> bucket \<Rightarrow> bool" where
  "bucket_ok cfg t b \<longleftrightarrow> 0 \<le> bk_tokens b \<and> bk_tokens b \<le> rl_max_tokens cfg \<and> bk_last_refill b \<le> t"

definition rate_inv :: "rate_config \<Rightarrow> time \<Rightarrow> rate_limiter \<Rightarrow> bool" where
  "rate_inv cfg t rl \<longleftrightarrow> m_inv rl \<and> (\<forall>p b. m_get rl p = Some b \<longrightarrow> bucket_ok cfg t b)"

lemma gain_same [simp]: "gain cfg t t = 0"
  by (simp add: gain_def)

lemma gain_add: "gain cfg a b + gain cfg b c = gain cfg a c"
  by (simp add: gain_def field_simps)

lemma gain_nonneg: "good_config cfg \<Longrightarrow> a \<le> b \<Longrightarrow> 0 \<le> gain cfg a b"
  by (simp add: gain_def good_config_def)

lemma gain_pos: "good_config cfg \<Longrightarrow> a < b \<Longrightarrow> 0 < gain cfg a b"
  by (simp add: gain_def good_config_def)

lemma refill_gain:
  "refill cfg now b =
     (if 0 < gain cfg (bk_last_refill b) now
      then b\<lparr>bk_tokens := min (rl_max_tokens cfg) (bk_tokens b + gain cfg (bk_last_refill b) now), bk_last_refill := now\<rparr>
      else b)"
  by (simp add: refill_def gain_def Let_def)

lemma refill_ok: "good_config cfg \<Longrightarrow> bucket_ok cfg t0 b \<Longrightarrow> t0 \<le> t \<Longrightarrow> bucket_ok cfg t (refill cfg t b)"
  by (auto simp: refill_gain bucket_ok_def good_config_def)

lemma refill_level:
  assumes "good_config cfg" and "bucket_ok cfg t0 b" and "t0 \<le> t"
  shows "bk_tokens (refill cfg t b) = level_of cfg b t \<and> bk_last_refill (refill cfg t b) = t"
proof (cases "bk_last_refill b < t")
  case True
  then show ?thesis using gain_pos [OF assms(1) True] by (simp add: refill_gain level_of_def)
next
  case False
  with assms have "bk_last_refill b = t" by (simp add: bucket_ok_def)
  with assms(2) show ?thesis by (simp add: refill_gain level_of_def bucket_ok_def min_def)
qed

lemma level_of_now: "bk_last_refill b = t \<Longrightarrow> bk_tokens b \<le> rl_max_tokens cfg \<Longrightarrow> level_of cfg b t = bk_tokens b"
  by (simp add: level_of_def min_def)

lemma level_le_max: "level cfg p rl t \<le> rl_max_tokens cfg"
  by (simp add: level_def level_of_def split: option.splits)

lemma level_nonneg: "good_config cfg \<Longrightarrow> rate_inv cfg t rl \<Longrightarrow> 0 \<le> level cfg p rl t"
  using gain_nonneg [of cfg]
  by (fastforce simp: level_def level_of_def rate_inv_def bucket_ok_def good_config_def split: option.splits)

lemma level_grows:
  assumes "good_config cfg" and "t \<le> t'"
  shows "level cfg p rl t' \<le> level cfg p rl t + gain cfg t t'"
proof (cases "m_get rl p")
  case None
  with gain_nonneg [OF assms] show ?thesis by (simp add: level_def)
next
  case (Some b)
  then show ?thesis
    using gain_add [of cfg "bk_last_refill b" t t', symmetric] gain_nonneg [OF assms]
    by (simp add: level_def level_of_def min_def)
qed

lemma rate_inv_mono: "rate_inv cfg t rl \<Longrightarrow> t \<le> t' \<Longrightarrow> rate_inv cfg t' rl"
  by (force simp: rate_inv_def bucket_ok_def)

lemma rate_inv_set: "rate_inv cfg t rl \<Longrightarrow> bucket_ok cfg t b \<Longrightarrow> rate_inv cfg t (m_set p b rl)"
  by (auto simp: rate_inv_def)

text \<open>The bucket \<open>allow\<close> works on, and the level it has.\<close>

lemma bucket_for_request:
  assumes "good_config cfg" and "rate_inv cfg t rl"
  obtains b where "allow cfg t p rl = (1 \<le> bk_tokens b, m_set p (if 1 \<le> bk_tokens b then b\<lparr>bk_tokens := bk_tokens b - 1\<rparr> else b)
      (if m_get rl p = None then m_set p \<lparr>bk_tokens = rl_max_tokens cfg, bk_last_refill = t\<rparr> rl else rl))"
    and "bucket_ok cfg t b" and "bk_tokens b = level cfg p rl t" and "bk_last_refill b = t"
proof -
  define b0 where "b0 = (case m_get rl p of None \<Rightarrow> \<lparr>bk_tokens = rl_max_tokens cfg, bk_last_refill = t\<rparr> | Some b \<Rightarrow> b)"
  have ok: "bucket_ok cfg t b0"
    using assms by (auto simp: b0_def rate_inv_def bucket_ok_def good_config_def split: option.splits)
  have lev: "level_of cfg b0 t = level cfg p rl t"
    by (auto simp: b0_def level_def level_of_def split: option.splits)
  have "allow cfg t p rl = (1 \<le> bk_tokens (refill cfg t b0), m_set p (if 1 \<le> bk_tokens (refill cfg t b0)
        then (refill cfg t b0)\<lparr>bk_tokens := bk_tokens (refill cfg t b0) - 1\<rparr> else refill cfg t b0)
      (if m_get rl p = None then m_set p \<lparr>bk_tokens = rl_max_tokens cfg, bk_last_refill = t\<rparr> rl else rl))"
    by (auto simp: allow_def getOrCreateBucket_def b0_def Let_def split: option.splits)
  then show thesis
    using that refill_ok [OF assms(1) ok order_refl] refill_level [OF assms(1) ok order_refl] lev by simp
qed

lemma rate_step_allow:
  assumes "good_config cfg" and "rate_inv cfg t rl"
  shows "rate_inv cfg t (snd (allow cfg t p' rl))
    \<and> level cfg p (snd (allow cfg t p' rl)) t
        = level cfg p rl t - (if p' = p \<and> fst (allow cfg t p' rl) then 1 else 0)"
proof -
  obtain b where al: "allow cfg t p' rl = (1 \<le> bk_tokens b, m_set p' (if 1 \<le> bk_tokens b then b\<lparr>bk_tokens := bk_tokens b - 1\<rparr> else b)
      (if m_get rl p' = None then m_set p' \<lparr>bk_tokens = rl_max_tokens cfg, bk_last_refill = t\<rparr> rl else rl))"
    and b: "bucket_ok cfg t b" "bk_tokens b = level cfg p' rl t" "bk_last_refill b = t"
    using bucket_for_request [OF assms, of p'] by blast
  have "bucket_ok cfg t (if 1 \<le> bk_tokens b then b\<lparr>bk_tokens := bk_tokens b - 1\<rparr> else b)"
    using b(1) by (auto simp: bucket_ok_def)
  moreover have "bucket_ok cfg t \<lparr>bk_tokens = rl_max_tokens cfg, bk_last_refill = t\<rparr>"
    using assms(1) by (simp add: bucket_ok_def good_config_def)
  ultimately have "rate_inv cfg t (snd (allow cfg t p' rl))"
    unfolding al using assms(2) by (auto intro!: rate_inv_set)
  moreover have "level cfg p (snd (allow cfg t p' rl)) t
        = level cfg p rl t - (if p' = p \<and> fst (allow cfg t p' rl) then 1 else 0)"
    unfolding al using b by (auto simp: level_def level_of_now bucket_ok_def)
  ultimately show ?thesis by blast
qed

lemma rate_step_level:
  assumes cfg: "good_config cfg" and inv: "rate_inv cfg t rl" and "rate_time e = t"
  shows "rate_inv cfg t (rate_step cfg e rl)
    \<and> level cfg p (rate_step cfg e rl) t
        \<le> level cfg p rl t - (if allows cfg p e rl then 1 else 0) + of_nat (removals p [e]) * rl_max_tokens cfg"
proof (cases e)
  case (Allow p' t')
  with assms rate_step_allow [OF cfg inv, of p' p] show ?thesis by simp
next
  case (Remaining p' t')
  show ?thesis
  proof (cases "m_get rl p'")
    case None
    with Remaining inv show ?thesis by (simp add: remaining_def)
  next
    case (Some b)
    then have ok: "bucket_ok cfg t b" using inv by (simp add: rate_inv_def)
    from refill_ok [OF cfg ok order_refl] have "rate_inv cfg t (m_set p' (refill cfg t b) rl)"
      using inv by (intro rate_inv_set)
    moreover have "level cfg p (m_set p' (refill cfg t b) rl) t = level cfg p rl t"
      using refill_level [OF cfg ok order_refl] refill_ok [OF cfg ok order_refl] Some
      by (auto simp: level_def level_of_now bucket_ok_def)
    ultimately show ?thesis using Remaining Some assms(3) by (simp add: remaining_def Let_def)
  qed
next
  case (RemovePeer p' t')
  have "level cfg p (removePeer p' rl) t \<le> level cfg p rl t + of_nat (removals p [e]) * rl_max_tokens cfg"
  proof (cases "p' = p")
    case True
    then show ?thesis
      using RemovePeer inv level_nonneg [OF cfg inv, of p] by (simp add: removePeer_def level_def rate_inv_def)
  qed (simp add: removePeer_def level_def RemovePeer)
  with RemovePeer inv show ?thesis by (auto simp: removePeer_def rate_inv_def)
next
  case (CleanupBuckets t')
  have "rl_max_tokens cfg \<le> bk_tokens b + gain cfg (bk_last_refill b) t"
    if "bk_last_refill b < t - 600000" "bucket_ok cfg t b" for b
  proof -
    have "600 \<le> (of_int (t - bk_last_refill b) / 1000 :: rat)" using that(1) by simp
    then have "600 * rl_refill_rate cfg \<le> gain cfg (bk_last_refill b) t"
      using cfg unfolding gain_def by (intro mult_right_mono) (auto simp: good_config_def)
    then show ?thesis using cfg that(2) by (simp add: good_config_def bucket_ok_def)
  qed
  with CleanupBuckets inv assms(3) show ?thesis
    by (auto simp: cleanup_buckets_def rate_inv_def level_def level_of_def split: option.splits)
qed

lemma removals_Cons: "removals p (e # es) = removals p [e] + removals p es"
  by (cases e) simp_all

lemma allowed_count_bound:
  assumes "good_config cfg"
  shows "rate_inv cfg t0 rl \<Longrightarrow> sorted (map rate_time es) \<Longrightarrow> \<forall>e \<in> set es. t0 \<le> rate_time e \<and> rate_time e \<le> t1 \<Longrightarrow>
    t0 \<le> t1 \<Longrightarrow>
    of_nat (allowed_count cfg p es rl) \<le> level cfg p rl t0 + gain cfg t0 t1 + of_nat (removals p es) * rl_max_tokens cfg"
proof (induction es arbitrary: rl t0)
  case Nil
  then show ?case using level_nonneg [OF assms Nil.prems(1), of p] gain_nonneg [OF assms, of t0 t1] by simp
next
  case (Cons e es)
  let ?t = "rate_time e" and ?rl = "rate_step cfg e rl"
  have t: "t0 \<le> ?t" "?t \<le> t1" using Cons.prems(3) by auto
  have inv: "rate_inv cfg ?t rl" using rate_inv_mono [OF Cons.prems(1) t(1)] .
  have step: "rate_inv cfg ?t ?rl"
      "level cfg p ?rl ?t \<le> level cfg p rl ?t - (if allows cfg p e rl then 1 else 0) + of_nat (removals p [e]) * rl_max_tokens cfg"
    using rate_step_level [OF assms inv refl, of p] by blast+
  have "of_nat (allowed_count cfg p es ?rl)
      \<le> level cfg p ?rl ?t + gain cfg ?t t1 + of_nat (removals p es) * rl_max_tokens cfg"
    using Cons.prems t by (intro Cons.IH step(1)) auto
  moreover have "level cfg p rl ?t \<le> level cfg p rl t0 + gain cfg t0 ?t"
    by (rule level_grows [OF assms t(1)])
  moreover have "of_nat (removals p (e # es)) * rl_max_tokens cfg
      = of_nat (removals p [e]) * rl_max_tokens cfg + of_nat (removals p es) * rl_max_tokens cfg"
    by (simp add: removals_Cons [of p e es] algebra_simps)
  ultimately show ?case
    using step(2) gain_add [of cfg t0 ?t t1] by (cases "allows cfg p e rl") (simp_all)
qed

lemma default_good: "good_config DEFAULT_CONFIG"
  by (simp add: good_config_def DEFAULT_CONFIG_def)

section \<open>Properties\<close>

text \<open>
  C10. The rate bound: in any time-ordered run between two instants, clean-up runs, queries and other peers
  included, a peer gets at most its burst plus the refill rate times the elapsed seconds, plus one further burst
  for every removal of its bucket (the daemon drops a peer's bucket whenever that peer goes offline), provided
  ten minutes are enough to refill a bucket. The default configuration, which is the daemon's, is such.
\<close>

theorem rate_bound:
  assumes "good_config cfg" and "sorted (map rate_time es)"
    and "\<forall>e \<in> set es. t0 \<le> rate_time e \<and> rate_time e \<le> t1" and "t0 \<le> t1"
  shows "of_nat (allowed_count cfg p es [])
      \<le> of_nat (1 + removals p es) * rl_max_tokens cfg + of_int (t1 - t0) / 1000 * rl_refill_rate cfg
    \<and> good_config DEFAULT_CONFIG"
proof -
  have "rate_inv cfg t0 []" by (simp add: rate_inv_def)
  from allowed_count_bound [OF assms(1) this assms(2,3,4), of p] level_le_max [of cfg p "[]" t0]
  show ?thesis by (simp add: gain_def algebra_simps default_good)
qed

text \<open>The extra burst is real: a peer that goes offline and returns sends twenty requests more in the same instant.\<close>

lemma removal_renews_burst:
  "allowed_count DEFAULT_CONFIG ''p'' (replicate 30 (Allow ''p'' 0)) [] = 20"
  "allowed_count DEFAULT_CONFIG ''p'' (replicate 30 (Allow ''p'' 0) @ [RemovePeer ''p'' 0] @ replicate 30 (Allow ''p'' 0)) [] = 40"
  by code_simp+

theorem rate_bound_witness:
  "of_nat (allowed_count DEFAULT_CONFIG ''p'' (replicate 30 (Allow ''p'' 0) @ [CleanupBuckets 1000, Allow ''p'' 1000]) [])
     \<le> (22 :: rat)"
proof -
  have "removals ''p'' (replicate 30 (Allow ''p'' 0) @ [CleanupBuckets 1000, Allow ''p'' 1000]) = 0" by code_simp
  moreover note default_good
  moreover have "sorted (map rate_time (replicate 30 (Allow ''p'' 0) @ [CleanupBuckets 1000, Allow ''p'' 1000]))"
    by (simp add: sorted_append)
  ultimately show ?thesis
    using rate_bound [of DEFAULT_CONFIG "replicate 30 (Allow ''p'' 0) @ [CleanupBuckets 1000, Allow ''p'' 1000]" 0 1000 "''p''"]
    by (auto simp: DEFAULT_CONFIG_def)
qed

end
