(* ===== verification/Inbox_Api.thy ===== *)
theory Inbox_Api
  imports Agent_Registry Agent_Inbox Mesh Pairing Rate_Limit
begin

text \<open>
  The local REST interface of the inbox (\<open>inbox-api.ts\<close>): sending (to a sibling agent on this daemon, to a remote
  peer, or to all instances), listing, marking, archiving and counting. The subject, \<open>in_reply_to\<close> and message ids of
  requests are strings or absent. Fresh UUIDs, the ISO text of an instant, \<open>JSON.stringify\<close>, \<open>JSON.parse\<close>, the text-to-integer
  conversion of a limit and the HTTP client are arguments. A handler that throws is \<open>None\<close>.
\<close>

section \<open>Requests, replies, state\<close>

record send_body =
  sb_to :: json
  sb_body :: json
  sb_subject :: "string option"
  sb_in_reply_to :: "string option"

text \<open>What the peer's endpoint answers: the status, the text of an error, the bytes of the body unless reading it fails.\<close>

datatype post_result = PostThrows string | PostResponse (pr_status: nat) (pr_text: string) (pr_body: "bytes option")

record inbox_api_env =
  ix_own :: string
  ix_private_key :: string
  ix_codec :: codec
  ix_limits :: "rate_config option"
  ix_uuid :: "nat \<Rightarrow> string"
  ix_iso :: "time \<Rightarrow> string"
  ix_stringify :: "json \<Rightarrow> string option"
  ix_parse :: "string \<Rightarrow> json option"
  ix_integer :: "string \<Rightarrow> int option"
  ix_post :: "string \<Rightarrow> bytes \<Rightarrow> post_result"

record inbox_api_state =
  xs_inbox :: agent_inbox
  xs_limiter :: rate_limiter
  xs_mesh :: mesh
  xs_registry :: "agent_registry option"
  xs_pairings :: "pairing_store option"

datatype send_error =
    InboxLocalOnly | TooManyRequests string | NoJsonBody | InvalidTo | NoBody | InvalidTargetUri spiffe_error
  | BodyExceeds | SubjectExceeds | PeerNotFound | PeerNotPaired | PeerRejected nat string | SendFailed string
  | LimitRange | ForInstanceCharset | NoMessageId

datatype send_reply =
    SendError nat send_error
  | SentBroadcast string string "string list"
  | SentLoopback string string store_result
  | SentRemote (sr_message_id: string) (sr_sent_at: string) (sr_peer_status: nat) (sr_ack_verified: bool) (sr_ack_status: json)

datatype send_effect =
    OnSent string string
  | EmitLocalInboxNew (en_message_id: string) (en_to: string) (en_to_agent_instance: json)
  | EmitBroadcastNew string string nat
  | Posted string bytes

definition MAX_BODY_BYTES :: nat where "MAX_BODY_BYTES = 64 * 1024"
definition MAX_LIMIT :: int where "MAX_LIMIT = 500"

text \<open>The gates every route starts with: \<open>Inl\<close> is the refusal.\<close>

definition inbox_gate ::
  "inbox_api_env \<Rightarrow> time \<Rightarrow> string \<Rightarrow> string \<Rightarrow> inbox_api_state \<Rightarrow> (nat \<times> send_error) option \<times> inbox_api_state" where
  "inbox_gate env now op ip s =
     (if \<not> is_loopback ip then (Some (403, InboxLocalOnly), s)
      else case ix_limits env of
        None \<Rightarrow> (None, s)
      | Some cfg \<Rightarrow>
          (case Rate_Limit.allow cfg now (''inbox:'' @ op @ '':'' @ ip) (xs_limiter s) of
             (ok, rl) \<Rightarrow> (if ok then None else Some (429, TooManyRequests op), s\<lparr>xs_limiter := rl\<rparr>)))"

section \<open>Sending\<close>

definition js_field :: "string option \<Rightarrow> json" where
  "js_field v = (case v of None \<Rightarrow> JUndefined | Some x \<Rightarrow> JStr x)"

definition message_json :: "agent_message \<Rightarrow> json" where
  "message_json m = JObj
     [(''message_id'', am_message_id m), (''to'', JStr (am_to m)), (''subject'', js_field (am_subject m)),
      (''body'', am_body m), (''in_reply_to'', js_field (am_in_reply_to m)), (''sent_at'', JStr (am_sent_at m))]"

text \<open>What the receiving daemon reads from that payload.\<close>

definition read_message :: "json \<Rightarrow> agent_message option" where
  "read_message p =
     (case (as_str (json_prop p ''to''), as_str (json_prop p ''sent_at'')) of
        (Some to, Some sent) \<Rightarrow>
          Some \<lparr>am_message_id = json_prop p ''message_id'', am_to = to, am_subject = as_str (json_prop p ''subject''),
                am_body = json_prop p ''body'', am_in_reply_to = as_str (json_prop p ''in_reply_to''), am_sent_at = sent\<rparr>
      | _ \<Rightarrow> None)"

definition outgoing :: "inbox_api_env \<Rightarrow> time \<Rightarrow> nat \<Rightarrow> string \<Rightarrow> send_body \<Rightarrow> agent_message" where
  "outgoing env now n to rq =
     \<lparr>am_message_id = JStr (ix_uuid env n), am_to = to, am_subject = sb_subject rq, am_body = sb_body rq,
      am_in_reply_to = sb_in_reply_to rq, am_sent_at = ix_iso env now\<rparr>"

fun broadcast ::
  "inbox_api_env \<Rightarrow> time \<Rightarrow> string \<Rightarrow> send_body \<Rightarrow> nat \<Rightarrow> string list \<Rightarrow> agent_inbox \<Rightarrow> (string list \<times> agent_inbox) option" where
  "broadcast env now normalizedTo rq n [] inbox = Some ([], inbox)"
| "broadcast env now normalizedTo rq n (i # is) inbox =
     (case store (ix_stringify env) now (ix_own env) (outgoing env now n (normalizedTo @ ''/instance/'' @ i) rq) None inbox of
        None \<Rightarrow> None
      | Some (_, inbox') \<Rightarrow> map_option (apfst ((#) i)) (broadcast env now normalizedTo rq (Suc n) is inbox'))"

text \<open>The signature of the acknowledgement: verified or not, and the status it carries.\<close>

definition check_ack :: "inbox_api_env \<Rightarrow> time \<Rightarrow> string option \<Rightarrow> bytes option \<Rightarrow> bool \<times> json" where
  "check_ack env now peerPublicKey body =
     (case body of
        None \<Rightarrow> (False, JUndefined)
      | Some bs \<Rightarrow>
          (case peerPublicKey of
             None \<Rightarrow> (False, JUndefined)
           | Some key \<Rightarrow>
               if key = [] \<or> bs = [] then (False, JUndefined)
               else case deserializeSignedMessage (ix_codec env) bs of
                 Inl _ \<Rightarrow> (False, JUndefined)
               | Inr signedMsg \<Rightarrow>
                   (case decodeAndVerify (ix_codec env) now signedMsg key of
                      Inr (Some ackEnvelope) \<Rightarrow> (True, json_prop (me_payload ackEnvelope) ''status'')
                    | _ \<Rightarrow> (False, JUndefined))))"

definition wire_message :: "inbox_api_env \<Rightarrow> time \<Rightarrow> string \<Rightarrow> agent_message \<Rightarrow> bytes" where
  "wire_message env now uuid m =
     serializeSignedMessage (ix_codec env)
       (encodeAndSign (ix_codec env)
          (createEnvelope uuid now ''AGENT_MESSAGE'' (ix_own env) (message_json m) None (Some 60000)) (ix_private_key env))"

definition send_remote ::
  "inbox_api_env \<Rightarrow> time \<Rightarrow> time \<Rightarrow> string \<Rightarrow> string \<Rightarrow> agent_message \<Rightarrow> inbox_api_state \<Rightarrow> send_reply \<times> send_effect list" where
  "send_remote env now later to normalizedTo m s =
     (case getPeer normalizedTo (xs_mesh s) of
        None \<Rightarrow> (SendError 404 PeerNotFound, [])
      | Some peer \<Rightarrow>
          if mp_endpoint peer = [] then (SendError 404 PeerNotFound, [])
          else if (case xs_pairings s of None \<Rightarrow> False | Some st \<Rightarrow> \<not> isPaired normalizedTo st)
          then (SendError 403 PeerNotPaired, [])
          else
            let url = mp_endpoint peer @ ''/message''; wire = wire_message env now (ix_uuid env 1) m in
            (case ix_post env url wire of
               PostThrows e \<Rightarrow> (SendError 502 (SendFailed e), [Posted url wire])
             | PostResponse status txt body \<Rightarrow>
                 if \<not> (200 \<le> status \<and> status \<le> 299)
                 then (SendError 502 (PeerRejected status (take 500 txt)), [Posted url wire])
                 else case check_ack env later (map_option ac_public_key (mp_card peer)) body of
                   (verified, st) \<Rightarrow>
                     (SentRemote (ix_uuid env 0) (am_sent_at m) status verified st,
                      [Posted url wire, OnSent (ix_uuid env 0) to])))"

text \<open>\<open>None\<close> for the body: no request body, or one that is no object. \<open>later\<close> is the clock when the answer arrives.\<close>

definition handle_send ::
  "inbox_api_env \<Rightarrow> time \<Rightarrow> time \<Rightarrow> string \<Rightarrow> send_body option \<Rightarrow> inbox_api_state \<Rightarrow>
   (send_reply \<times> send_effect list) option \<times> inbox_api_state" where
  "handle_send env now later ip body s0 =
     (case inbox_gate env now ''send'' ip s0 of
        (Some (code, e), s) \<Rightarrow> (Some (SendError code e, []), s)
      | (None, s) \<Rightarrow>
          (case body of
             None \<Rightarrow> (Some (SendError 400 NoJsonBody, []), s)
           | Some rq \<Rightarrow>
               (case as_str (sb_to rq) of
                  None \<Rightarrow> (Some (SendError 400 InvalidTo, []), s)
                | Some to \<Rightarrow>
                    if to = [] then (Some (SendError 400 InvalidTo, []), s)
                    else if sb_body rq = JUndefined \<or> sb_body rq = JNull then (Some (SendError 400 NoBody, []), s)
                    else case normalizeAgentId to of
                      Inl e \<Rightarrow> (Some (SendError 400 (InvalidTargetUri e), []), s)
                    | Inr normalizedTo \<Rightarrow>
                        (case body_text (ix_stringify env) (sb_body rq) of
                           None \<Rightarrow> (None, s)
                         | Some bodyStr \<Rightarrow>
                             if MAX_BODY_BYTES < utf8_length bodyStr then (Some (SendError 413 BodyExceeds, []), s)
                             else if (case sb_subject rq of None \<Rightarrow> False | Some x \<Rightarrow> 200 < length x)
                             then (Some (SendError 400 SubjectExceeds, []), s)
                             else
                               let messageId = ix_uuid env 0; m = outgoing env now 0 to rq in
                               if suffix ''/instance/*'' to \<and> xs_registry s \<noteq> None then
                                 (case broadcast env now normalizedTo rq 1 (map ag_instanceId (list_agents (the (xs_registry s)))) (xs_inbox s) of
                                    None \<Rightarrow> (None, s)
                                  | Some (fanout, inbox') \<Rightarrow>
                                      (Some (SentBroadcast messageId (am_sent_at m) fanout,
                                             [EmitBroadcastNew messageId to (length fanout)]), s\<lparr>xs_inbox := inbox'\<rparr>))
                               else if normalizedTo = ix_own env then
                                 (case store (ix_stringify env) now (ix_own env) m None (xs_inbox s) of
                                    None \<Rightarrow> (None, s)
                                  | Some (res, inbox') \<Rightarrow>
                                      (Some (SentLoopback messageId (am_sent_at m) res,
                                             [OnSent messageId to]
                                             @ (case res of
                                                  Delivered _ \<Rightarrow>
                                                    [EmitLocalInboxNew messageId to
                                                       (case getAgentInstance to of Inr (Some i) \<Rightarrow> JStr i | _ \<Rightarrow> JNull)]
                                                | _ \<Rightarrow> [])), s\<lparr>xs_inbox := inbox'\<rparr>))
                               else (Some (send_remote env now later to normalizedTo m s), s)))))"

section \<open>Reading\<close>

record inbox_query =
  iq_unread :: "string option"
  iq_from :: "string option"
  iq_limit :: "string option"
  iq_include_archived :: "string option"
  iq_for_instance :: "string option"
  iq_include_legacy :: "string option"

record inbox_view =
  iv_row :: inbox_message
  iv_body :: json
  iv_read :: bool
  iv_order :: "verify_order_result option"

datatype list_reply = ListError nat send_error | Listed nat nat "string option" bool "inbox_view list"

definition tryParseJson :: "(string \<Rightarrow> json option) \<Rightarrow> string \<Rightarrow> json" where
  "tryParseJson parse s =
     (case parse s of
        Some (JObj o1) \<Rightarrow> JObj o1
      | Some (JArr vs) \<Rightarrow> JArr vs
      | Some JNull \<Rightarrow> JNull
      | _ \<Rightarrow> JStr s)"

definition flag :: "string option \<Rightarrow> bool" where
  "flag v \<longleftrightarrow> v = Some ''true''"

definition valid_instance_param :: "string option \<Rightarrow> bool" where
  "valid_instance_param v \<longleftrightarrow> (case v of None \<Rightarrow> True | Some i \<Rightarrow> SPIFFE_COMPONENT_REGEX i)"

definition view_of :: "inbox_api_env \<Rightarrow> time \<Rightarrow> inbox_message \<Rightarrow> inbox_view" where
  "view_of env now m =
     \<lparr>iv_row = m, iv_body = tryParseJson (ix_parse env) (im_body m), iv_read = (im_read_at m \<noteq> None),
      iv_order = (if im_is_order m then Some (verifyStoredOrder (ix_codec env) now m) else None)\<rparr>"

text \<open>The limit of a query: \<open>Inl\<close> when it is refused, \<open>Inr None\<close> when it is absent.\<close>

definition query_limit :: "inbox_api_env \<Rightarrow> string option \<Rightarrow> unit + int option" where
  "query_limit env v =
     (case v of
        Some (c # cs) \<Rightarrow>
          (case ix_integer env (c # cs) of
             None \<Rightarrow> Inl ()
           | Some n \<Rightarrow> if n < 1 \<or> MAX_LIMIT < n then Inl () else Inr (Some n))
      | _ \<Rightarrow> Inr None)"

definition handle_list ::
  "inbox_api_env \<Rightarrow> time \<Rightarrow> string \<Rightarrow> inbox_query \<Rightarrow> inbox_api_state \<Rightarrow> list_reply \<times> inbox_api_state" where
  "handle_list env now ip q s0 =
     (case inbox_gate env now ''list'' ip s0 of
        (Some (code, e), s) \<Rightarrow> (ListError code e, s)
      | (None, s) \<Rightarrow>
          (case query_limit env (iq_limit q) of
             Inl _ \<Rightarrow> (ListError 400 LimitRange, s)
           | Inr limit \<Rightarrow>
               if \<not> valid_instance_param (iq_for_instance q) then (ListError 400 ForInstanceCharset, s)
               else let found = list_messages
                          \<lparr>lo_unread_only = flag (iq_unread q), lo_from_agent = iq_from q, lo_limit = limit,
                           lo_include_archived = flag (iq_include_archived q), lo_for_instance = iq_for_instance q,
                           lo_include_legacy = Some (flag (iq_include_legacy q))\<rparr> (xs_inbox s)
                    in (Listed (length found) (unreadCount None None None (xs_inbox s)) (iq_for_instance q)
                          (flag (iq_include_legacy q)) (map (view_of env now) found), s)))"

datatype mark_reply = MarkError nat send_error | MarkedRead bool | ArchivedReply bool | UnreadReply nat

definition handle_mark_read ::
  "inbox_api_env \<Rightarrow> time \<Rightarrow> string \<Rightarrow> string option \<Rightarrow> inbox_api_state \<Rightarrow> mark_reply \<times> inbox_api_state" where
  "handle_mark_read env now ip messageId s0 =
     (case inbox_gate env now ''mark-read'' ip s0 of
        (Some (code, e), s) \<Rightarrow> (MarkError code e, s)
      | (None, s) \<Rightarrow>
          (case messageId of
             Some (c # cs) \<Rightarrow>
               (case markRead now (c # cs) (xs_inbox s) of
                  (ok, inbox') \<Rightarrow> (MarkedRead ok, s\<lparr>xs_inbox := inbox'\<rparr>))
           | _ \<Rightarrow> (MarkError 400 NoMessageId, s)))"

definition handle_archive ::
  "inbox_api_env \<Rightarrow> time \<Rightarrow> string \<Rightarrow> string option \<Rightarrow> inbox_api_state \<Rightarrow> mark_reply \<times> inbox_api_state" where
  "handle_archive env now ip messageId s0 =
     (case inbox_gate env now ''archive'' ip s0 of
        (Some (code, e), s) \<Rightarrow> (MarkError code e, s)
      | (None, s) \<Rightarrow>
          (case messageId of
             Some (c # cs) \<Rightarrow>
               (case archive (c # cs) (xs_inbox s) of
                  (ok, inbox') \<Rightarrow> (ArchivedReply ok, s\<lparr>xs_inbox := inbox'\<rparr>))
           | _ \<Rightarrow> (MarkError 400 NoMessageId, s)))"

definition handle_unread ::
  "inbox_api_env \<Rightarrow> time \<Rightarrow> string \<Rightarrow> inbox_query \<Rightarrow> inbox_api_state \<Rightarrow> mark_reply \<times> inbox_api_state" where
  "handle_unread env now ip q s0 =
     (case inbox_gate env now ''unread'' ip s0 of
        (Some (code, e), s) \<Rightarrow> (MarkError code e, s)
      | (None, s) \<Rightarrow>
          if \<not> valid_instance_param (iq_for_instance q) then (MarkError 400 ForInstanceCharset, s)
          else (UnreadReply (unreadCount (iq_from q) (iq_for_instance q) (Some (flag (iq_include_legacy q))) (xs_inbox s)), s))"


section \<open>Lemmas\<close>

lemma normalize_not_star:
  assumes "normalizeAgentId u = Inr v" shows "\<not> suffix ''/instance/*'' u"
proof
  assume "suffix ''/instance/*'' u"
  then obtain w where w: "u = (w @ ''/instance'') @ ''/*''" by (auto simp: suffix_def)
  obtain p where p: "parseSpiffeUri u = Inr p"
    using assms by (cases "parseSpiffeUri u") (auto simp: normalizeAgentId_def)
  have wf: "wf_uri p" and u: "uri_of p = u" using print_parse [OF p] by auto
  have last_u: "last u = CHR ''*''" using w by simp
  have bad: "last x \<noteq> CHR ''*''" if "SPIFFE_COMPONENT_REGEX x" for x
  proof -
    have "component_char (last x)" using that by (auto simp: SPIFFE_COMPONENT_REGEX_def list_all_iff)
    then show ?thesis by (auto simp: component_char_def char_between_def)
  qed
  have bad': "last x \<noteq> CHR ''*''" if "PEERID_REGEX x" for x
  proof -
    have "base58_char (last x)" using that last_in_set [of x] by (cases "x = []") (auto simp: PEERID_REGEX_def list_all_iff)
    then show ?thesis by (auto simp: base58_char_def char_between_def)
  qed
  have ne: "x \<noteq> []" if "SPIFFE_COMPONENT_REGEX x \<or> PEERID_REGEX x" for x using that by auto
  show False
  proof (cases p rule: uri_of.cases)
    case (1 q r)
    then have "PEERID_REGEX q" using wf by simp
    then show False using bad' ne [of q] u 1 last_u by (auto simp: last_append)
  next
    case (2 n t r)
    then have "SPIFFE_COMPONENT_REGEX t" using wf by simp
    then show False using bad ne [of t] u 2 last_u by (auto simp: last_append)
  next
    case (3 n t i r)
    then have "SPIFFE_COMPONENT_REGEX i" using wf by simp
    then show False using bad ne [of i] u 3 last_u by (auto simp: last_append)
  qed
qed

text \<open>What must have held for a request to get past all checks.\<close>

definition sendable :: "inbox_api_env \<Rightarrow> send_body \<Rightarrow> string \<Rightarrow> string \<Rightarrow> bool" where
  "sendable env rq to normalizedTo \<longleftrightarrow> sb_to rq = JStr to \<and> to \<noteq> [] \<and> normalizeAgentId to = Inr normalizedTo
     \<and> sb_body rq \<noteq> JUndefined \<and> sb_body rq \<noteq> JNull
     \<and> (\<exists>txt. body_text (ix_stringify env) (sb_body rq) = Some txt \<and> utf8_length txt \<le> MAX_BODY_BYTES)
     \<and> (case sb_subject rq of None \<Rightarrow> True | Some x \<Rightarrow> length x \<le> 200)"

definition is_error :: "send_reply \<Rightarrow> bool" where
  "is_error r \<longleftrightarrow> (case r of SendError _ _ \<Rightarrow> True | _ \<Rightarrow> False)"

text \<open>The three ways a request goes: refused before anything happens, kept on this daemon, given to a peer.\<close>

lemma handle_send_cases:
  assumes "handle_send env now later ip body s0 = (Some (reply, effects), s')"
  obtains (refused) "is_error reply" "effects = []" "xs_inbox s' = xs_inbox s0"
  | (local) s rq to res where "inbox_gate env now ''send'' ip s0 = (None, s)" "body = Some rq" "sendable env rq to (ix_own env)"
      "store (ix_stringify env) now (ix_own env) (outgoing env now 0 to rq) None (xs_inbox s) = Some (res, xs_inbox s')"
      "s' = s\<lparr>xs_inbox := xs_inbox s'\<rparr>" "reply = SentLoopback (ix_uuid env 0) (ix_iso env now) res"
      "effects = OnSent (ix_uuid env 0) to # (case res of Delivered _ \<Rightarrow>
         [EmitLocalInboxNew (ix_uuid env 0) to (case getAgentInstance to of Inr (Some i) \<Rightarrow> JStr i | _ \<Rightarrow> JNull)] | _ \<Rightarrow> [])"
  | (remote) rq to normalizedTo where "inbox_gate env now ''send'' ip s0 = (None, s')" "body = Some rq"
      "sendable env rq to normalizedTo" "normalizedTo \<noteq> ix_own env"
      "(reply, effects) = send_remote env now later to normalizedTo (outgoing env now 0 to rq) s'"
proof (cases "inbox_gate env now ''send'' ip s0")
  case (Pair refusal s)
  have kept: "xs_inbox s = xs_inbox s0"
    using Pair by (auto simp: inbox_gate_def split: if_splits option.splits prod.splits)
  show thesis
  proof (cases refusal)
    case (Some e)
    then show thesis using refused assms Pair kept by (auto simp: handle_send_def is_error_def split: prod.splits)
  next
    case None
    show thesis
    proof (cases "body = None \<or> is_error reply \<and> effects = []")
      case True
      then have "is_error reply \<and> effects = []"
        using assms Pair None by (auto simp: handle_send_def is_error_def)
      moreover have "s' = s \<or> \<not> is_error reply"
        using assms Pair None
        by (auto simp: handle_send_def is_error_def Let_def split: option.splits if_splits sum.splits prod.splits)
      ultimately show thesis using refused kept by auto
    next
      case False
      then obtain rq where rq: "body = Some rq" by (cases body) auto
      obtain to where to: "sb_to rq = JStr to" "to \<noteq> []" "sb_body rq \<noteq> JUndefined" "sb_body rq \<noteq> JNull"
        using assms Pair None rq False
        by (auto simp: handle_send_def is_error_def as_str_Some split: option.splits if_splits)
      obtain nt where nt: "normalizeAgentId to = Inr nt"
        using assms Pair None rq False to by (cases "normalizeAgentId to") (auto simp: handle_send_def is_error_def)
      obtain bt where bt: "body_text (ix_stringify env) (sb_body rq) = Some bt"
        using assms Pair None rq to nt by (auto simp: handle_send_def split: option.splits)
      have sz: "utf8_length bt \<le> MAX_BODY_BYTES" "case sb_subject rq of None \<Rightarrow> True | Some x \<Rightarrow> length x \<le> 200"
        using assms Pair None rq False to nt bt
        by (auto simp: handle_send_def is_error_def not_less split: option.splits if_splits)
      have ok: "sendable env rq to nt" using to nt bt sz by (auto simp: sendable_def)
      have sub: "\<not> (case sb_subject rq of None \<Rightarrow> False | Some x \<Rightarrow> 200 < length x)"
        using sz(2) by (auto split: option.splits)
      show thesis
      proof (cases "nt = ix_own env")
        case True
        obtain res ib where st: "store (ix_stringify env) now (ix_own env) (outgoing env now 0 to rq) None (xs_inbox s) = Some (res, ib)"
          using assms Pair None rq to nt bt sz(1) sub normalize_not_star [OF nt] True
          by (auto simp: handle_send_def Let_def split: option.splits)
        then show thesis
          using assms Pair None rq to nt bt sz(1) sub normalize_not_star [OF nt] ok True
          by (intro local [of s rq to res]) (auto simp: handle_send_def Let_def outgoing_def split: option.splits)
      next
        case False
        then show thesis
          using assms Pair None rq to nt bt sz(1) sub normalize_not_star [OF nt] ok
          by (intro remote [of rq to nt]) (auto simp: handle_send_def Let_def split: option.splits)
      qed
    qed
  qed
qed


lemma inbox_gate_state: "inbox_gate env now op ip s0 = (r, s) \<Longrightarrow> s = s0\<lparr>xs_limiter := xs_limiter s\<rparr>"
  by (auto simp: inbox_gate_def split: if_splits option.splits prod.splits)

lemma send_remote_cases:
  assumes "(reply, effects) = send_remote env now later to nt m s"
  obtains (refused) "is_error reply" "effects = []"
  | (posted) peer url wire where "getPeer nt (xs_mesh s) = Some peer" "mp_endpoint peer \<noteq> []"
      "xs_pairings s = None \<or> isPaired nt (the (xs_pairings s))" "url = mp_endpoint peer @ ''/message''"
      "wire = wire_message env now (ix_uuid env 1) m"
      "is_error reply \<and> effects = [Posted url wire]
       \<or> (\<exists>status txt body. ix_post env url wire = PostResponse status txt body \<and> 200 \<le> status \<and> status \<le> 299
            \<and> (\<exists>v st. check_ack env later (map_option ac_public_key (mp_card peer)) body = (v, st)
                \<and> reply = SentRemote (ix_uuid env 0) (am_sent_at m) status v st)
            \<and> effects = [Posted url wire, OnSent (ix_uuid env 0) to])"
proof (cases "getPeer nt (xs_mesh s)")
  case None
  then show thesis using assms refused by (simp add: send_remote_def is_error_def)
next
  case (Some peer)
  show thesis
  proof (cases "mp_endpoint peer = [] \<or> (case xs_pairings s of None \<Rightarrow> False | Some st \<Rightarrow> \<not> isPaired nt st)")
    case True
    then have "(reply, effects) = (SendError 404 PeerNotFound, []) \<or> (reply, effects) = (SendError 403 PeerNotPaired, [])"
      using assms Some by (cases "mp_endpoint peer = []") (simp_all add: send_remote_def)
    then show thesis using refused by (auto simp: is_error_def)
  next
    case False
    then show thesis
      using assms Some
      by (intro posted [of peer "mp_endpoint peer @ ''/message''" "wire_message env now (ix_uuid env 1) m"])
         (auto simp: send_remote_def Let_def is_error_def split: option.splits post_result.splits if_splits prod.splits)
  qed
qed

lemma read_message_json:
  "read_message (message_json m) = Some m"
  by (cases m) (auto simp: read_message_def message_json_def js_field_def split: option.splits)

text \<open>Where a message addressed to a registered instance of this daemon goes.\<close>

lemma instance_normalized:
  assumes "agent_wf aenv e" and "parseSpiffeUri (ae_daemonSpiffeUri aenv) = Inr p"
  shows "normalizeAgentId (ag_spiffeUri e) = Inr (ae_daemonSpiffeUri aenv)
    \<longleftrightarrow> (\<exists>n. p = ParsedHost n (ag_agentType e) None (ae_daemonSpiffeUri aenv))"
proof -
  obtain n where n: "parseSpiffeUri (ag_spiffeUri e) = Inr (ParsedHost n (ag_agentType e) (Some (ag_instanceId e)) (ag_spiffeUri e))"
    and n': "case p of ParsedNode q _ \<Rightarrow> n = q | ParsedHost m _ _ _ \<Rightarrow> n = m"
    using buildInstanceSpiffe_parses [of "ae_daemonSpiffeUri aenv" "ag_agentType e" "ag_instanceId e" "ag_spiffeUri e"] assms
    by (auto simp: agent_wf_def)
  have norm: "normalizeAgentId (ag_spiffeUri e) = Inr (SPIFFE_PREFIX @ ''/host/'' @ n @ ''/agent/'' @ ag_agentType e)"
    using n by (simp add: normalizeAgentId_def)
  have wf: "wf_uri (ParsedHost n (ag_agentType e) None u)" for u
    using print_parse [OF n] by simp
  have p: "wf_uri p" "uri_raw p = ae_daemonSpiffeUri aenv" "uri_of p = ae_daemonSpiffeUri aenv"
    using print_parse [OF assms(2)] by auto
  show ?thesis
  proof
    assume "normalizeAgentId (ag_spiffeUri e) = Inr (ae_daemonSpiffeUri aenv)"
    then have d: "ae_daemonSpiffeUri aenv = uri_of (ParsedHost n (ag_agentType e) None (ae_daemonSpiffeUri aenv))"
      using norm by simp
    have "parseSpiffeUri (ae_daemonSpiffeUri aenv) = Inr (ParsedHost n (ag_agentType e) None (ae_daemonSpiffeUri aenv))"
      using parse_print [of "ParsedHost n (ag_agentType e) None (ae_daemonSpiffeUri aenv)"] wf d by simp
    then show "\<exists>n. p = ParsedHost n (ag_agentType e) None (ae_daemonSpiffeUri aenv)" using assms(2) by simp
  next
    assume "\<exists>n. p = ParsedHost n (ag_agentType e) None (ae_daemonSpiffeUri aenv)"
    then have "p = ParsedHost n (ag_agentType e) None (ae_daemonSpiffeUri aenv)" using n' by auto
    then show "normalizeAgentId (ag_spiffeUri e) = Inr (ae_daemonSpiffeUri aenv)" using norm p(3) by simp
  qed
qed

lemma wake_of_live:
  assumes "i \<in> set live" "i \<noteq> []" "resolve i = Some u" "u \<noteq> []"
  shows "fst (on_inbox_new w resolve (JStr i) live t recent) =
    (if fst (shouldWake w i t recent) then [\<lparr>ws_instance_id = i, ws_spiffe_uri = u\<rparr>] else [])"
  using assms
  by (auto simp: on_inbox_new_def Let_def computeWakes_def resolveWakeTargets_def map_filter_def split: prod.split)

lemma emitted_local:
  assumes "handle_send env now later ip body s = (Some (reply, effects), s')" "EmitLocalInboxNew i to inst \<in> set effects"
  shows "(\<exists>rq res. body = Some rq \<and> sb_to rq = JStr to \<and> reply = SentLoopback (ix_uuid env 0) (ix_iso env now) res)
    \<and> normalizeAgentId to = Inr (ix_own env)
    \<and> inst = (case getAgentInstance to of Inr (Some x) \<Rightarrow> JStr x | _ \<Rightarrow> JNull)"
  using assms(1)
proof (cases rule: handle_send_cases)
  case refused
  then show ?thesis using assms(2) by simp
next
  case (local s1 rq to' res)
  then show ?thesis using assms(2) by (auto simp: sendable_def split: store_result.splits)
next
  case (remote rq to' nt)
  from remote(5) show ?thesis
  proof (cases rule: send_remote_cases)
    case (posted peer u w)
    then show ?thesis using assms(2) by auto
  qed (use assms(2) in simp)
qed

section \<open>An example\<close>

definition ex_home :: string where "ex_home = SPIFFE_PREFIX @ ''/host/h1/agent/cc''"
definition ex_there :: string where "ex_there = SPIFFE_PREFIX @ ''/host/h2/agent/d''"

definition ex_rq :: "string \<Rightarrow> send_body" where
  "ex_rq to = \<lparr>sb_to = JStr to, sb_body = JStr ''hi'', sb_subject = None, sb_in_reply_to = None\<rparr>"

definition ex_message :: agent_message where
  "ex_message = \<lparr>am_message_id = JStr ''m'', am_to = ex_there, am_subject = None, am_body = JStr ''hi'', am_in_reply_to = None,
     am_sent_at = ''t''\<rparr>"

definition ex_envelope :: message_envelope where
  "ex_envelope = createEnvelope ''u'' 0 ''AGENT_MESSAGE'' ex_home (message_json ex_message) None (Some 60000)"

definition ex_codec :: codec where
  "ex_codec = \<lparr>cd_encode_envelope = \<lambda>_. [7], cd_decode_envelope = \<lambda>_. Inr ex_envelope,
     cd_encode_signed = \<lambda>x. sm_envelope x @ sm_signature x,
     cd_decode_signed = \<lambda>b. Inr \<lparr>sm_envelope = take 1 b, sm_signature = drop 1 b\<rparr>,
     cd_sign = \<lambda>k b. b, cd_verify = \<lambda>k b x. Inr (x = b), cd_to_base64 = \<lambda>_. [], cd_from_base64 = \<lambda>_. []\<rparr>"

definition ex_api :: inbox_api_env where
  "ex_api = \<lparr>ix_own = ex_home, ix_private_key = ''k'', ix_codec = ex_codec, ix_limits = None,
     ix_uuid = \<lambda>n. if n = 0 then ''m'' else ''u'', ix_iso = \<lambda>_. ''t'', ix_stringify = \<lambda>_. None, ix_parse = \<lambda>_. None,
     ix_integer = \<lambda>_. None, ix_post = \<lambda>_ _. PostResponse 200 [] None\<rparr>"

definition ex_peer :: mesh_peer where
  "ex_peer = \<lparr>mp_name = [], mp_host = [], mp_port = 1, mp_agent_id = ex_there, mp_endpoint = ''e'', mp_status = Online,
     mp_last_seen = 0, mp_missed_beats = 0, mp_card = None, mp_peer_id = None, mp_peer_id_verified = False,
     mp_listen_multiaddrs = [], mp_connected = False, mp_libp2p_status = Unavailable\<rparr>"

definition ex_state :: inbox_api_state where
  "ex_state = \<lparr>xs_inbox = [], xs_limiter = [],
     xs_mesh = (new_MeshManager 3)\<lparr>ms_heap := [ex_peer], ms_peers := [(ex_there, 0)]\<rparr>, xs_registry = None,
     xs_pairings = Some [(ex_there, \<lparr>pd_agent_id = ex_there, pd_public_key = [], pd_ca_cert = [], pd_fingerprint = [],
       pd_paired_at = 0, pd_hostname = []\<rparr>)]\<rparr>"

lemma ex_wf: "SPIFFE_COMPONENT_REGEX ''h2''"
  by (simp add: SPIFFE_COMPONENT_REGEX_def component_char_def char_between_def)

lemma ex_parse:
  "parseSpiffeUri ex_home = Inr (ParsedHost ''h1'' ''cc'' None ex_home)"
  "parseSpiffeUri ex_there = Inr (ParsedHost ''h2'' ''d'' None ex_there)"
  "parseSpiffeUri ex_uri = Inr (ParsedHost ''h1'' ''cc'' (Some ''a1'') ex_uri)"
  using parse_print [of "ParsedHost ''h1'' ''cc'' None ex_home"] parse_print [of "ParsedHost ''h2'' ''d'' None ex_there"]
    parse_print [of "ParsedHost ''h1'' ''cc'' (Some ''a1'') ex_uri"] ex_components ex_wf
  by (simp_all add: ex_home_def ex_there_def ex_uri_def)

lemma ex_normal:
  "normalizeAgentId ex_there = Inr ex_there" "normalizeAgentId ex_uri = Inr ex_home" "ex_there \<noteq> ex_home" "ex_there \<noteq> []" "ex_uri \<noteq> []"
  by (simp_all add: normalizeAgentId_def ex_parse) (simp_all add: ex_there_def ex_home_def ex_uri_def SPIFFE_PREFIX_def)

lemma ex_remote:
  "handle_send ex_api 0 0 ''::1'' (Some (ex_rq ex_there)) ex_state =
     (Some (SentRemote ''m'' ''t'' 200 False JUndefined, [Posted ''e/message'' [7, 7], OnSent ''m'' ex_there]), ex_state)"
proof -
  have star: "\<not> suffix ''/instance/*'' ex_there" using normalize_not_star [OF ex_normal(1)] .
  have gate: "inbox_gate ex_api 0 ''send'' ''::1'' ex_state = (None, ex_state)"
    by (simp add: inbox_gate_def is_loopback_def ex_api_def)
  have remote: "send_remote ex_api 0 0 ex_there ex_there (outgoing ex_api 0 0 ex_there (ex_rq ex_there)) ex_state =
     (SentRemote ''m'' ''t'' 200 False JUndefined, [Posted ''e/message'' [7, 7], OnSent ''m'' ex_there])"
    by (simp add: send_remote_def ex_state_def new_MeshManager_def getPeer_def peer_at_def ex_peer_def isPaired_def Let_def ex_api_def
        check_ack_def wire_message_def outgoing_def encodeAndSign_def serializeSignedMessage_def ex_codec_def)
  show ?thesis
    using star gate remote
    by (simp add: handle_send_def ex_rq_def ex_normal body_text_def utf8_length_def MAX_BODY_BYTES_def Let_def)
       (simp add: ex_api_def ex_normal)
qed

definition ex_home_env :: agent_env where
  "ex_home_env = ex_agent_env\<lparr>ae_daemonSpiffeUri := ex_home\<rparr>"

lemma ex_entry_wf: "agent_wf ex_home_env ex_entry"
proof -
  have "buildInstanceSpiffe ex_home ''cc'' ''a1'' = Some ex_uri"
    by (simp add: buildInstanceSpiffe_def ex_parse buildInstanceUri_def ex_components ex_uri_def)
  then show ?thesis by (simp add: agent_wf_def ex_home_env_def ex_entry_def ex_components)
qed

lemma ex_loopback:
  "\<exists>s'. handle_send ex_api 0 0 ''::1'' (Some (ex_rq ex_uri)) ex_state =
     (Some (SentLoopback ''m'' ''t'' (Delivered 1), [OnSent ''m'' ex_uri, EmitLocalInboxNew ''m'' ex_uri (JStr ''a1'')]), s')"
proof -
  have star: "\<not> suffix ''/instance/*'' ex_uri" using normalize_not_star [OF ex_normal(2)] .
  have gate: "inbox_gate ex_api 0 ''send'' ''::1'' ex_state = (None, ex_state)"
    by (simp add: inbox_gate_def is_loopback_def ex_api_def)
  have inst: "getAgentInstance ex_uri = Inr (Some ''a1'')" by (simp add: getAgentInstance_def ex_parse)
  have own: "ix_own ex_api = ex_home" "ix_uuid ex_api 0 = ''m''" "ix_iso ex_api 0 = ''t''" by (simp_all add: ex_api_def)
  have st: "\<exists>ib. store (ix_stringify ex_api) 0 ex_home (outgoing ex_api 0 0 ex_uri (ex_rq ex_uri)) None (xs_inbox ex_state) = Some (Delivered 1, ib)"
    by (simp add: store_def ex_rq_def outgoing_def body_text_def utf8_length_def MAX_MESSAGE_BYTES_def ex_state_def own ex_normal inst
        findByMessageId_def Let_def)
  then show ?thesis
    using star gate inst
    by (auto simp: handle_send_def ex_normal body_text_def utf8_length_def MAX_BODY_BYTES_def Let_def own outgoing_def ex_rq_def)
qed

section \<open>Properties\<close>

text \<open>C24. The daemon's key signs only for local callers: a message leaves only when the caller is on the loopback interface,
  within the rate limit, and addressed another daemon that is a known peer with an endpoint and paired; it goes once to
  that endpoint, is the signed request, and is recorded as sent exactly when the peer answered with success, else the
  reply is an error. A refused request changes at most the rate limiter; nothing is ever broadcast.\<close>

theorem send_discipline:
  assumes "handle_send env now later ip body s = (Some (reply, effects), s')"
  shows "(Posted url wire \<in> set effects \<longrightarrow>
      is_loopback ip \<and> fst (inbox_gate env now ''send'' ip s) = None
      \<and> (\<exists>rq to nt peer. body = Some rq \<and> sendable env rq to nt \<and> nt \<noteq> ix_own env
           \<and> getPeer nt (xs_mesh s) = Some peer \<and> mp_endpoint peer \<noteq> [] \<and> url = mp_endpoint peer @ ''/message''
           \<and> (xs_pairings s = None \<or> isPaired nt (the (xs_pairings s)))
           \<and> wire = wire_message env now (ix_uuid env 1) (outgoing env now 0 to rq)
           \<and> (if is_error reply then effects = [Posted url wire]
              else effects = [Posted url wire, OnSent (ix_uuid env 0) to]
                \<and> (\<exists>status txt bs. ix_post env url wire = PostResponse status txt bs \<and> 200 \<le> status \<and> status \<le> 299))))
    \<and> (is_error reply \<longrightarrow> s' = s\<lparr>xs_limiter := xs_limiter s'\<rparr>)
    \<and> (\<forall>i t is. reply \<noteq> SentBroadcast i t is)"
  using assms
proof (cases rule: handle_send_cases)
  case refused
  have "s' = s\<lparr>xs_limiter := xs_limiter s'\<rparr>"
    using assms refused
    by (auto simp: handle_send_def Let_def is_error_def split: prod.splits option.splits if_splits sum.splits dest!: inbox_gate_state)
  with refused show ?thesis by (auto simp: is_error_def)
next
  case (local s1 rq to res)
  then show ?thesis by (auto simp: is_error_def split: store_result.splits)
next
  case (remote rq to nt)
  have gate: "is_loopback ip" "s' = s\<lparr>xs_limiter := xs_limiter s'\<rparr>"
    using remote(1) inbox_gate_state by (auto simp: inbox_gate_def split: if_splits)
  have same: "xs_mesh s' = xs_mesh s" "xs_pairings s' = xs_pairings s"
    by (subst gate(2), simp)+
  from remote(5) show ?thesis
  proof (cases rule: send_remote_cases)
    case refused
    then show ?thesis using gate(2) by (auto simp: is_error_def)
  next
    case (posted peer u w)
    have nb: "\<forall>i t is. reply \<noteq> SentBroadcast i t is"
      using posted(6) by (auto simp: is_error_def)
    have out: "if is_error reply then effects = [Posted u w] else effects = [Posted u w, OnSent (ix_uuid env 0) to]
        \<and> (\<exists>status txt bs. ix_post env u w = PostResponse status txt bs \<and> 200 \<le> status \<and> status \<le> 299)"
      using posted(6) by (auto simp: is_error_def)
    have uw: "url = u" "wire = w" if "Posted url wire \<in> set effects" using that posted(6) by auto
    have "body = Some rq \<and> sendable env rq to nt \<and> nt \<noteq> ix_own env
           \<and> getPeer nt (xs_mesh s) = Some peer \<and> mp_endpoint peer \<noteq> [] \<and> url = mp_endpoint peer @ ''/message''
           \<and> (xs_pairings s = None \<or> isPaired nt (the (xs_pairings s)))
           \<and> wire = wire_message env now (ix_uuid env 1) (outgoing env now 0 to rq)
           \<and> (if is_error reply then effects = [Posted url wire]
              else effects = [Posted url wire, OnSent (ix_uuid env 0) to]
                \<and> (\<exists>status txt bs. ix_post env url wire = PostResponse status txt bs \<and> 200 \<le> status \<and> status \<le> 299))"
      if "Posted url wire \<in> set effects"
      using out remote(2-4) posted(1-5) unfolding same uw [OF that] by blast
    then show ?thesis using nb gate remote(1) by (simp only: fst_conv) blast
  qed
qed

theorem send_discipline_witness:
  "Posted ''e/message'' [7, 7] \<in> set [Posted ''e/message'' [7, 7], OnSent ''m'' ex_there]
   \<and> isPaired ex_there (the (xs_pairings ex_state)) \<and> is_loopback ''::1''"
proof -
  have n: "normalizeAgentId ex_there = Inr nt \<Longrightarrow> nt = ex_there" for nt using ex_normal by simp
  have "sendable ex_api (ex_rq ex_there) to nt \<Longrightarrow> nt = ex_there" for to nt
    using n by (auto simp: sendable_def ex_rq_def)
  then show ?thesis
    using send_discipline [OF ex_remote, of "''e/message''" "[7, 7]"] by (auto simp: ex_state_def)
qed

text \<open>End to end: what the interface posts to a peer verifies there under this daemon's key while its minute of life
  lasts, comes from this daemon and reads back as the requested message; a paired receiver that has not stored it yet
  delivers it exactly when the request named the receiver's own identity, so no size, subject or id check of the
  receiver ever rejects it, and a message to one of the receiver's instances is always rejected.\<close>

theorem sent_message_accepted:
  assumes "handle_send env now later ip (Some rq) s = (Some (reply, effects), s')" and "Posted url wire \<in> set effects"
    and sent: "sb_to rq = JStr to" "e = createEnvelope (ix_uuid env 1) now ''AGENT_MESSAGE'' (ix_own env)
        (message_json (outgoing env now 0 to rq)) None (Some 60000)"
    and codec: "deserializeSignedMessage (ix_codec env) (serializeSignedMessage (ix_codec env)
        (encodeAndSign (ix_codec env) e (ix_private_key env))) = Inr (encodeAndSign (ix_codec env) e (ix_private_key env))"
      "cd_decode_envelope (ix_codec env) (cd_encode_envelope (ix_codec env) e) = Inr e"
      "cd_verify (ix_codec env) pub (cd_encode_envelope (ix_codec env) e)
        (cd_sign (ix_codec env) (ix_private_key env) (cd_encode_envelope (ix_codec env) e)) = Inr True"
    and "arrival - now \<le> 60000" and "ix_uuid env 0 \<noteq> []"
    and "ie_stringify there = ix_stringify env" and "findByMessageId (ix_uuid env 0) rows = None"
  shows "\<exists>m.
      Option.bind (case deserializeSignedMessage (ix_codec env) wire of Inl _ \<Rightarrow> None | Inr x \<Rightarrow> Some x)
        (\<lambda>x. case decodeAndVerify (ix_codec env) arrival x pub of Inr r \<Rightarrow> r | Inl _ \<Rightarrow> None) = Some e
      \<and> me_sender e = JStr (ix_own env) \<and> me_type e = JStr ''AGENT_MESSAGE''
      \<and> read_message (me_payload e) = Some m \<and> am_to m = to \<and> am_body m = sb_body rq
      \<and> (\<exists>ack effs rows'. handleAgentMessage there arrival arrival (ix_own env) True pub m rows = Some (ack, effs, rows')
           \<and> (ma_delivered ack \<longleftrightarrow> to = ie_self there) \<and> (ma_delivered ack \<longleftrightarrow> length rows' = Suc (length rows)))"
  using assms(1)
proof (cases rule: handle_send_cases)
  case refused
  then show ?thesis using assms(2) by simp
next
  case (local s1 rq' to res)
  then show ?thesis using assms(2) by (auto split: store_result.splits)
next
  case (remote rq' to' nt)
  define m where "m = outgoing env now 0 to rq"
  have e_def: "e = createEnvelope (ix_uuid env 1) now ''AGENT_MESSAGE'' (ix_own env) (message_json m) None (Some 60000)"
    using sent(2) by (simp add: m_def)
  have rq: "rq' = rq" and to': "to' = to" using remote sent(1) by (auto simp: sendable_def)
  have snd_ok: "sendable env rq to nt" using remote rq to' by simp
  have "wire = wire_message env now (ix_uuid env 1) m"
    using remote(5)
  proof (cases rule: send_remote_cases)
    case (posted peer u w)
    then show ?thesis using assms(2) rq to' by (auto simp: m_def)
  qed (use assms(2) in simp)
  then have des: "deserializeSignedMessage (ix_codec env) wire = Inr (encodeAndSign (ix_codec env) e (ix_private_key env))"
    using codec(1) by (simp add: wire_message_def e_def)
  have alive: "\<not> expired arrival e" using assms(8) by (simp add: expired_def e_def createEnvelope_def)
  then have dec: "decodeAndVerify (ix_codec env) arrival (encodeAndSign (ix_codec env) e (ix_private_key env)) pub = Inr (Some e)"
    using codec(2,3) by (simp add: decodeAndVerify_def encodeAndSign_def Let_def)
  have fields: "me_sender e = JStr (ix_own env)" "me_type e = JStr ''AGENT_MESSAGE''" "me_payload e = message_json m"
    by (simp_all add: e_def createEnvelope_def)
  obtain body where body: "body_text (ix_stringify env) (sb_body rq) = Some body" "utf8_length body \<le> MAX_BODY_BYTES"
    using snd_ok by (auto simp: sendable_def)
  have mf: "am_to m = to" "am_message_id m = JStr (ix_uuid env 0)" "am_body m = sb_body rq" "am_subject m = sb_subject rq"
    by (simp_all add: m_def outgoing_def)
  have parses: "\<exists>u. parseSpiffeUri to = Inr u"
    using snd_ok by (cases "parseSpiffeUri to") (auto simp: sendable_def normalizeAgentId_def)
  have subj: "case am_subject m of None \<Rightarrow> True | Some x \<Rightarrow> length x \<le> MAX_SUBJECT_LENGTH"
    using snd_ok mf(4) by (auto simp: sendable_def MAX_SUBJECT_LENGTH_def split: option.splits)
  have acc: "(to = ie_self there) \<longleftrightarrow> am_to m = ie_self there \<and> True \<and> utf8_length body \<le> MAX_MESSAGE_BYTES
      \<and> (case am_subject m of None \<Rightarrow> True | Some x \<Rightarrow> length x \<le> MAX_SUBJECT_LENGTH)
      \<and> (\<exists>i. am_message_id m = JStr i \<and> i \<noteq> []
           \<and> (findByMessageId i rows \<noteq> None \<or> (\<exists>u. parseSpiffeUri (ie_self there) = Inr u)))"
    using mf body(2) subj parses assms(9) by (auto simp: MAX_MESSAGE_BYTES_def MAX_BODY_BYTES_def)
  have unknown: "False \<longleftrightarrow> (\<exists>i r. am_message_id m = JStr i \<and> findByMessageId i rows = Some r)"
    using mf(2) assms(11) by auto
  have bt: "body_text (ie_stringify there) (am_body m) = Some body" using body(1) mf(3) assms(10) by simp
  obtain ack effs rows' where ack: "handleAgentMessage there arrival arrival (ix_own env) True pub m rows = Some (ack, effs, rows')"
    "ma_delivered ack \<longleftrightarrow> to = ie_self there"
    "if to = ie_self there \<and> \<not> False then (\<exists>r. rows' = rows @ [r] \<and> JStr (im_message_id r) = am_message_id m
          \<and> im_from_agent r = ix_own env \<and> im_body r = body) else rows' = rows"
    using delivery_outcome [OF bt acc unknown, of arrival arrival "ix_own env" pub] by blast
  have "ma_delivered ack \<longleftrightarrow> length rows' = Suc (length rows)" using ack(2,3) by (auto split: if_splits)
  then show ?thesis
    using des dec fields read_message_json [of m] snd_ok mf(1,3) ack(1,2)
    by (intro exI [of _ m]) (auto simp: sendable_def)
qed


definition ex_receiver :: inbox_env where
  "ex_receiver = \<lparr>ie_codec = ex_codec, ie_stringify = \<lambda>_. None, ie_sha256hex = \<lambda>x. x, ie_self = ex_there\<rparr>"

theorem sent_message_accepted_witness:
  "\<exists>ack effs rows'. handleAgentMessage ex_receiver 9 9 ex_home True ''p'' ex_message [] = Some (ack, effs, rows') \<and> ma_delivered ack"
proof -
  have m: "outgoing ex_api 0 0 ex_there (ex_rq ex_there) = ex_message"
    by (simp add: outgoing_def ex_rq_def ex_api_def ex_message_def)
  have e: "ex_envelope = createEnvelope (ix_uuid ex_api 1) 0 ''AGENT_MESSAGE'' (ix_own ex_api)
      (message_json (outgoing ex_api 0 0 ex_there (ex_rq ex_there))) None (Some 60000)"
    unfolding m by (simp add: ex_envelope_def ex_api_def)
  have h: "Posted ''e/message'' [7, 7] \<in> set [Posted ''e/message'' [7, 7], OnSent ''m'' ex_there]"
    "sb_to (ex_rq ex_there) = JStr ex_there"
    "deserializeSignedMessage (ix_codec ex_api) (serializeSignedMessage (ix_codec ex_api)
        (encodeAndSign (ix_codec ex_api) ex_envelope (ix_private_key ex_api))) = Inr (encodeAndSign (ix_codec ex_api) ex_envelope (ix_private_key ex_api))"
    "cd_decode_envelope (ix_codec ex_api) (cd_encode_envelope (ix_codec ex_api) ex_envelope) = Inr ex_envelope"
    "cd_verify (ix_codec ex_api) ''p'' (cd_encode_envelope (ix_codec ex_api) ex_envelope)
        (cd_sign (ix_codec ex_api) (ix_private_key ex_api) (cd_encode_envelope (ix_codec ex_api) ex_envelope)) = Inr True"
    "(9 :: int) - 0 \<le> 60000" "ix_uuid ex_api 0 \<noteq> []" "ie_stringify ex_receiver = ix_stringify ex_api"
    "findByMessageId (ix_uuid ex_api 0) [] = None"
    by (simp_all add: ex_rq_def ex_api_def ex_codec_def ex_receiver_def findByMessageId_def serializeSignedMessage_def
        deserializeSignedMessage_def encodeAndSign_def Let_def)
  have "\<exists>m. read_message (me_payload ex_envelope) = Some m
      \<and> (\<exists>ack effs rows'. handleAgentMessage ex_receiver 9 9 (ix_own ex_api) True ''p'' m [] = Some (ack, effs, rows')
           \<and> (ma_delivered ack \<longleftrightarrow> ex_there = ie_self ex_receiver))"
    using sent_message_accepted [OF ex_remote h(1,2) e h(3-)] by blast
  moreover have "read_message (me_payload ex_envelope) = Some ex_message"
    by (simp add: ex_envelope_def createEnvelope_def read_message_json)
  ultimately show ?thesis by (auto simp: ex_api_def ex_receiver_def)
qed

text \<open>Messages to a registered instance. A message to the URI an instance was given is kept on this daemon, and can wake
  the instance, only if the daemon's own identity has the host form and names the same agent type; then the event of a
  stored message wakes exactly that instance, at its URI, if its window has passed. With the node form of the identity
  (the canonical one) no message, whatever its target, wakes anybody.\<close>

theorem instance_wake_needs_host_identity:
  assumes "handle_send env now later ip (Some rq) s = (Some (reply, effects), s')"
    and "EmitLocalInboxNew i to inst \<in> set effects" and "parseSpiffeUri (ix_own env) = Inr p"
  shows "(\<forall>q r. p = ParsedNode q r \<longrightarrow> fst (on_inbox_new w resolve inst live t recent) = [])
    \<and> (agent_wf aenv e \<and> ae_daemonSpiffeUri aenv = ix_own env \<and> to = ag_spiffeUri e \<longrightarrow>
         (\<exists>n. p = ParsedHost n (ag_agentType e) None (ix_own env))
         \<and> (ag_instanceId e \<in> set live \<and> resolve (ag_instanceId e) = Some to \<longrightarrow>
              fst (on_inbox_new w resolve inst live t recent) =
                (if fst (shouldWake w (ag_instanceId e) t recent)
                 then [\<lparr>ws_instance_id = ag_instanceId e, ws_spiffe_uri = to\<rparr>] else [])))"
proof (intro conjI allI impI)
  note em = emitted_local [OF assms(1,2)]
  fix q r
  assume node: "p = ParsedNode q r"
  obtain u where u: "parseSpiffeUri to = Inr u" "normalizeAgentId to = Inr (ix_own env)"
    using em by (cases "parseSpiffeUri to") (auto simp: normalizeAgentId_def)
  have own: "ix_own env = SPIFFE_PREFIX @ ''/node/'' @ q" using print_parse [OF assms(3)] node by simp
  have "getAgentInstance to = Inr None"
    using u own by (cases u) (auto simp: normalizeAgentId_def getAgentInstance_def SPIFFE_PREFIX_def)
  then have "inst = JNull" using em by simp
  then show "fst (on_inbox_new w resolve inst live t recent) = []"
    by (simp add: on_inbox_new_def Let_def computeWakes_def resolveWakeTargets_def map_filter_def)
next
  note em = emitted_local [OF assms(1,2)]
  assume A: "agent_wf aenv e \<and> ae_daemonSpiffeUri aenv = ix_own env \<and> to = ag_spiffeUri e"
  then show "\<exists>n. p = ParsedHost n (ag_agentType e) None (ix_own env)"
    using instance_normalized [of aenv e p] em assms(3) by auto
  assume live: "ag_instanceId e \<in> set live \<and> resolve (ag_instanceId e) = Some to"
  have "getAgentInstance to = Inr (Some (ag_instanceId e))" "to \<noteq> []" "ag_instanceId e \<noteq> []"
    using A buildInstanceSpiffe_parses [of "ae_daemonSpiffeUri aenv" "ag_agentType e" "ag_instanceId e" "ag_spiffeUri e"]
    by (auto simp: agent_wf_def parseSpiffeUri_def)
  then show "fst (on_inbox_new w resolve inst live t recent) =
      (if fst (shouldWake w (ag_instanceId e) t recent) then [\<lparr>ws_instance_id = ag_instanceId e, ws_spiffe_uri = to\<rparr>] else [])"
    using em live wake_of_live [of "ag_instanceId e" live resolve to] by simp
qed


theorem instance_wake_needs_host_identity_witness:
  "fst (on_inbox_new 2000 (\<lambda>_. Some ex_uri) (JStr ''a1'') [''a1''] 5 []) = [\<lparr>ws_instance_id = ''a1'', ws_spiffe_uri = ex_uri\<rparr>]"
proof -
  obtain s' where s': "handle_send ex_api 0 0 ''::1'' (Some (ex_rq ex_uri)) ex_state =
     (Some (SentLoopback ''m'' ''t'' (Delivered 1), [OnSent ''m'' ex_uri, EmitLocalInboxNew ''m'' ex_uri (JStr ''a1'')]), s')"
    using ex_loopback by blast
  have own: "parseSpiffeUri (ix_own ex_api) = Inr (ParsedHost ''h1'' ''cc'' None ex_home)"
    by (simp add: ex_api_def ex_parse)
  have "agent_wf ex_home_env ex_entry \<and> ae_daemonSpiffeUri ex_home_env = ix_own ex_api \<and> ex_uri = ag_spiffeUri ex_entry"
    using ex_entry_wf by (simp add: ex_home_env_def ex_api_def ex_entry_def)
  moreover have "ag_instanceId ex_entry = ''a1''" by (simp add: ex_entry_def)
  moreover have "fst (shouldWake 2000 ''a1'' 5 [])" by (simp add: shouldWake_def)
  ultimately show ?thesis
    using instance_wake_needs_host_identity [OF s' _ own, of "''m''" ex_uri "JStr ''a1''" 2000 "\<lambda>_. Some ex_uri" "[''a1'']" 5 "[]"
        ex_home_env ex_entry] by simp
qed

text \<open>Only the key is checked on an acknowledgement: any unexpired envelope the peer ever signed counts as the verified
  acknowledgement of this message.\<close>

lemma ack_not_bound:
  assumes "decodeAndVerify (ix_codec env) now x key = Inr (Some other)" "deserializeSignedMessage (ix_codec env) bs = Inr x"
    and "key \<noteq> []" "bs \<noteq> []"
  shows "fst (check_ack env now (Some key) (Some bs))"
  using assms by (simp add: check_ack_def)

end
