(* ===== verification/Message_Endpoint.thy ===== *)
theory Message_Endpoint
  imports Mesh Pairing Replay_Wake Rate_Limit Agent_Inbox
begin

text \<open>
  The way of a message from the network into the daemon: the route \<open>/message\<close> of \<open>agent-card.ts\<close>, the learning
  of authenticated senders (\<open>inbound-peer-learner.ts\<close>) and the dispatch of verified messages (\<open>onMessage\<close> in
  \<open>index.ts\<close>), over the mesh, the replay guard, the rate limiter, the pairing store and the inbox. Between the
  first look at the mesh and the hand-over to \<open>onMessage\<close> the code does not wait, so the route is one atomic
  step with one reading of the clock. A sender that is not a text is answered here by \<open>SenderNotText\<close>; the code
  would go on with the text the value coerces to, which is outside the model.
\<close>

section \<open>The route\<close>

record tls_cert =
  tc_subjectaltname :: "string option"
  tc_fingerprint256 :: "string option"
  tc_issuer_fingerprint256 :: "string option"

record tls_socket =
  tk_authorized :: bool
  tk_remote_address :: "string option"
  tk_peer_cert :: "tls_cert option"

record endpoint =
  ed_mesh :: mesh
  ed_replay :: replay_guard

record endpoint_env =
  ee_codec :: codec
  ee_attesting :: "string list"

text \<open>What the template literal of the replay key makes of a value; a whole number in decimal digits.\<close>

fun decimal_text :: "nat \<Rightarrow> nat \<Rightarrow> string" where
  "decimal_text 0 n = []"
| "decimal_text (Suc fuel) n = (if n < 10 then [char_of (48 + n)] else decimal_text fuel (n div 10) @ [char_of (48 + n mod 10)])"

definition int_text :: "int \<Rightarrow> string" where
  "int_text i = (if i < 0 then ''-'' else []) @ decimal_text (Suc (nat \<bar>i\<bar>)) (nat \<bar>i\<bar>)"

fun js_text :: "json \<Rightarrow> string" and js_element :: "json \<Rightarrow> string" where
  "js_text JUndefined = ''undefined''"
| "js_text JNull = ''null''"
| "js_text (JBool b) = (if b then ''true'' else ''false'')"
| "js_text (JNum i) = int_text i"
| "js_text (JStr s) = s"
| "js_text (JArr vs) = js_join '','' (map js_element vs)"
| "js_text (JObj _) = ''[object Object]''"
| "js_element JUndefined = []"
| "js_element JNull = []"
| "js_element (JBool b) = js_text (JBool b)"
| "js_element (JNum i) = js_text (JNum i)"
| "js_element (JStr s) = s"
| "js_element (JArr vs) = js_join '','' (map js_element vs)"
| "js_element (JObj m) = js_text (JObj m)"

datatype refusal =
    EmptyBody
  | TooLarge
  | InvalidFormat
  | SenderNotText
  | SenderNotAuthorized https_sender_authz
  | IssuerNotAttesting
  | UnknownSender
  | BadSignature
  | DuplicateMessage

text \<open>An accepted message goes on to the handler with the sender and the key that verified it.\<close>

datatype receipt = Refused refusal | AcceptedMessage message_envelope string string

record learn_request =
  lq_peer_id :: string
  lq_sender :: string
  lq_remote_address :: string
  lq_fingerprint :: string

definition MAX_BODY :: nat where "MAX_BODY = 256 * 1024"

definition canonical_san :: "string list \<Rightarrow> string option" where
  "canonical_san sans = List.find (\<lambda>u. prefix NODE_URI_PREFIX u) sans"

text \<open>The part after the channel has been authorised, over the mesh with the tentative binding.\<close>

definition verify_message ::
  "endpoint_env \<Rightarrow> time \<Rightarrow> tls_socket \<Rightarrow> tls_cert option \<Rightarrow> signed_message \<Rightarrow> string \<Rightarrow> string option \<Rightarrow> peer_id_undo \<Rightarrow> mesh \<Rightarrow>
   replay_guard \<Rightarrow> receipt \<times> learn_request list \<times> endpoint" where
  "verify_message env now sock cert msg sender attested undo m seen =
     (case truthy (resolvePeerPublicKey now sender m) of
        None \<Rightarrow>
          (Refused UnknownSender,
           (case attested of
              None \<Rightarrow> []
            | Some peerId \<Rightarrow> [\<lparr>lq_peer_id = peerId, lq_sender = sender,
                lq_remote_address = (case tk_remote_address sock of None \<Rightarrow> [] | Some a \<Rightarrow> a),
                lq_fingerprint = (case Option.bind cert tc_fingerprint256 of None \<Rightarrow> [] | Some f \<Rightarrow> f)\<rparr>]),
           \<lparr>ed_mesh = rollback undo m, ed_replay = seen\<rparr>)
      | Some senderKey \<Rightarrow>
          (case decodeAndVerify (ee_codec env) now msg senderKey of
             Inl _ \<Rightarrow> (Refused InvalidFormat, [], \<lparr>ed_mesh = m, ed_replay = seen\<rparr>)
           | Inr None \<Rightarrow> (Refused BadSignature, [], \<lparr>ed_mesh = rollback undo m, ed_replay = seen\<rparr>)
           | Inr (Some verified) \<Rightarrow>
               (case isReplay sender (js_text (me_idempotency_key verified)) (me_ttl_ms verified) now seen of
                  (True, seen') \<Rightarrow> (Refused DuplicateMessage, [], \<lparr>ed_mesh = m, ed_replay = seen'\<rparr>)
                | (False, seen') \<Rightarrow> (AcceptedMessage verified sender senderKey, [], \<lparr>ed_mesh = m, ed_replay = seen'\<rparr>))))"

text \<open>A binding of the attested identity, when there is one; its offline events go to the mesh listeners.\<close>

definition bind_attested :: "string option \<Rightarrow> string \<Rightarrow> string option \<Rightarrow> mesh \<Rightarrow> peer_id_undo \<times> mesh_event list \<times> mesh" where
  "bind_attested attested sender remote m =
     (case attested of
        None \<Rightarrow> (NoUndo, [], m)
      | Some peerId \<Rightarrow> snd (markPeerIdVerified peerId (Some sender) remote m))"

definition receive_message ::
  "endpoint_env \<Rightarrow> time \<Rightarrow> tls_socket \<Rightarrow> 8 word list option \<Rightarrow> endpoint \<Rightarrow> receipt \<times> mesh_event list \<times> learn_request list \<times> endpoint" where
  "receive_message env now sock body st =
     (let refuse = (\<lambda>r. (Refused r, [], [], st)) in
      case body of
        None \<Rightarrow> refuse EmptyBody
      | Some bs \<Rightarrow>
          if length bs = 0 then refuse EmptyBody
          else if MAX_BODY < length bs then refuse TooLarge
          else case deserializeSignedMessage (ee_codec env) bs of
            Inl _ \<Rightarrow> refuse InvalidFormat
          | Inr msg \<Rightarrow>
              (case cd_decode_envelope (ee_codec env) (sm_envelope msg) of
                 Inl _ \<Rightarrow> refuse InvalidFormat
               | Inr rawEnvelope \<Rightarrow>
                   (case as_str (me_sender rawEnvelope) of
                      None \<Rightarrow> refuse SenderNotText
                    | Some sender \<Rightarrow>
                        let cert = (if tk_authorized sock then tk_peer_cert sock else None);
                            sans = spiffeUrisFromSubjectAltName (Option.bind cert tc_subjectaltname);
                            authz = authorizeHttpsSender sender (canonical_san sans)
                        in if \<not> authz_ok authz then refuse (SenderNotAuthorized authz)
                           else let attested = attestedPeerIdFromCert sans (Option.bind cert tc_issuer_fingerprint256) (ee_attesting env)
                                in if (case authz of AuthzVerified _ \<Rightarrow> True | _ \<Rightarrow> False) \<and> attested = None then refuse IssuerNotAttesting
                                   else (case bind_attested attested sender (tk_remote_address sock) (ed_mesh st) of
                                           (undo, events, m) \<Rightarrow>
                                             (case verify_message env now sock cert msg sender attested undo m (ed_replay st) of
                                                (receipt, learn, st') \<Rightarrow> (receipt, events, learn, st'))))))"

section \<open>Learning an authenticated sender\<close>

datatype learn_result = Recorded | SkippedResolvable | RejectedIdentity | LearnRateLimited | FetchFailed

text \<open>A fetched card: its URI and key, each possibly missing. An attempt that throws is \<open>None\<close>.\<close>

type_synonym fetched_card = "(string option \<times> string option) option"

definition hostForUrl :: "string \<Rightarrow> string" where
  "hostForUrl host =
     (let h = (if js_lower (take 7 host) = ''::ffff:'' then drop 7 host else host)
      in if CHR '':'' \<in> set h then ''['' @ h @ '']'' else h)"

record learn_deps =
  ld_expected :: string
  ld_already_resolvable :: bool
  ld_rate_ok :: bool
  ld_port :: nat
  ld_fetch :: "string \<Rightarrow> nat \<Rightarrow> fetched_card option"
  ld_fetch_pinned :: "(string \<Rightarrow> string \<Rightarrow> nat \<Rightarrow> fetched_card option) option"
  ld_fallback :: "string option"
  ld_fallback_allowed :: "(string \<Rightarrow> bool) option"
  ld_max_attempts :: nat
  ld_backoff :: "int list"

text \<open>The attempts from the given one on: the last outcome and the pauses made.\<close>

fun fetch_attempts :: "(nat \<Rightarrow> fetched_card option) \<Rightarrow> int list \<Rightarrow> nat \<Rightarrow> nat \<Rightarrow> fetched_card option \<times> int list" where
  "fetch_attempts fetch backoff attempt 0 = (None, [])"
| "fetch_attempts fetch backoff attempt (Suc left) =
     (case fetch attempt of
        Some crd \<Rightarrow> (Some crd, [])
      | None \<Rightarrow>
          if left = 0 then (None, [])
          else let (res, pauses) = fetch_attempts fetch backoff (Suc attempt) left;
                   i = min (attempt - 1) (length backoff - 1)
               in (res, (if i < length backoff then backoff ! i else 0) # pauses))"

text \<open>Where the card is fetched from, and how.\<close>

definition fetch_plan :: "learn_deps \<Rightarrow> string \<Rightarrow> (string \<times> (string \<Rightarrow> nat \<Rightarrow> fetched_card option)) option" where
  "fetch_plan d remoteAddress =
     (if remoteAddress \<noteq> [] then Some (remoteAddress, ld_fetch d)
      else case (truthy (ld_fallback d), ld_fetch_pinned d) of
        (Some fallback, Some pinned) \<Rightarrow>
          if (case ld_fallback_allowed d of None \<Rightarrow> False | Some ok \<Rightarrow> \<not> ok fallback) then None
          else Some (fallback, \<lambda>ep. pinned ep (ld_expected d))
      | _ \<Rightarrow> None)"

definition learnInboundPeer :: "learn_deps \<Rightarrow> learn_request \<Rightarrow> learn_result \<times> seen_entry option" where
  "learnInboundPeer d rq =
     (if lq_sender rq \<noteq> ld_expected d then (RejectedIdentity, None)
      else if ld_already_resolvable d then (SkippedResolvable, None)
      else if \<not> ld_rate_ok d then (LearnRateLimited, None)
      else case fetch_plan d (lq_remote_address rq) of
        None \<Rightarrow> (FetchFailed, None)
      | Some (address, fetch) \<Rightarrow>
          let endpoint = ''https://'' @ hostForUrl address @ '':'' @ int_text (int (ld_port d)) in
          (case fst (fetch_attempts (fetch endpoint) (ld_backoff d) 1 (max 1 (ld_max_attempts d))) of
             None \<Rightarrow> (FetchFailed, None)
           | Some crd \<Rightarrow>
               (case crd of
                  Some (Some uri, Some key) \<Rightarrow>
                    if key \<noteq> [] \<and> uri = ld_expected d
                    then (Recorded, Some \<lparr>se_peer_id = lq_peer_id rq, se_public_key = key, se_spiffe_uri = ld_expected d,
                            se_cert_fingerprint = lq_fingerprint rq, se_endpoint = endpoint, se_last_seen = 0\<rparr>)
                    else (RejectedIdentity, None)
                | _ \<Rightarrow> (RejectedIdentity, None))))"

section \<open>Dispatch of a verified message\<close>

record secret_request =
  sr_credential_name :: string
  sr_requester_public_key :: string
  sr_reason :: string

datatype secret_answer = SecretDenied | SecretSealed string | SecretPending

datatype daemon_reply = NoReply | SyncReply | SecretReply string secret_answer | MessageReply message_ack

datatype daemon_effect =
    AuditRejected string string
  | GossipSync message_envelope
  | SkillAnnounce string json
  | SecretAsked string secret_request
  | SecretApproved string string
  | InboxEffect inbox_effect

text \<open>
  The parts \<open>onMessage\<close> calls: hash and codec (within \<open>inbox_env\<close>), the readers of payloads (\<open>None\<close>: reading a
  field throws), the vault's look-up and sealing.
\<close>

record dispatch_env =
  de_inbox :: inbox_env
  de_limits :: rate_config
  de_secret_payload :: "json \<Rightarrow> secret_request option"
  de_agent_payload :: "json \<Rightarrow> agent_message option"
  de_retrieve :: "string \<Rightarrow> string option"
  de_seal :: "string \<Rightarrow> string \<Rightarrow> string"

record daemon =
  dn_mesh :: mesh
  dn_pairings :: pairing_store
  dn_limiter :: rate_limiter
  dn_inbox :: agent_inbox

definition sender_paired :: "dispatch_env \<Rightarrow> string \<Rightarrow> string \<Rightarrow> daemon \<Rightarrow> bool" where
  "sender_paired env sender senderKey d \<longleftrightarrow>
     isPaired sender (dn_pairings d) \<or> isPairedByPublicKey (ie_sha256hex (de_inbox env)) senderKey (dn_pairings d)"

definition handleSecretRequest :: "dispatch_env \<Rightarrow> string \<Rightarrow> bool \<Rightarrow> secret_request \<Rightarrow> daemon_reply \<times> daemon_effect list" where
  "handleSecretRequest env sender senderIsPaired rq =
     (case de_retrieve env (sr_credential_name rq) of
        None \<Rightarrow> (SecretReply (sr_credential_name rq) SecretDenied, [SecretAsked sender rq])
      | Some cred \<Rightarrow>
          if senderIsPaired
          then (SecretReply (sr_credential_name rq) (SecretSealed (de_seal env cred (sr_requester_public_key rq))),
                [SecretAsked sender rq, SecretApproved sender (sr_credential_name rq)])
          else (SecretReply (sr_credential_name rq) SecretPending, [SecretAsked sender rq]))"

text \<open>\<open>None\<close>: the handler throws, and the route answers that the format is invalid.\<close>

definition onMessage ::
  "dispatch_env \<Rightarrow> time \<Rightarrow> message_envelope \<Rightarrow> string \<Rightarrow> string \<Rightarrow> daemon \<Rightarrow> (daemon_reply \<times> daemon_effect list) option \<times> daemon" where
  "onMessage env now envelope sender senderKey d0 =
     (let senderIsPaired = sender_paired env sender senderKey d0;
          authorizedForMeshState = (senderIsPaired \<or> isApprovedPeerSender sender (dn_mesh d0))
      in case Rate_Limit.allow (de_limits env) now sender (dn_limiter d0) of
        (False, rl) \<Rightarrow> (Some (NoReply, []), d0\<lparr>dn_limiter := rl\<rparr>)
      | (True, rl) \<Rightarrow>
          let d = d0\<lparr>dn_limiter := rl\<rparr> in
          if me_type envelope = JStr ''REGISTRY_SYNC'' then
            (if \<not> authorizedForMeshState then (Some (NoReply, [AuditRejected sender ''REGISTRY_SYNC rejected: unapproved sender'']), d)
             else (Some (SyncReply, [GossipSync envelope]), d))
          else if me_type envelope = JStr ''SKILL_ANNOUNCE'' then
            (if \<not> authorizedForMeshState then (Some (NoReply, [AuditRejected sender ''SKILL_ANNOUNCE rejected: unapproved sender'']), d)
             else (Some (NoReply, [SkillAnnounce sender (me_payload envelope)]), d))
          else if me_type envelope = JStr ''SECRET_REQUEST'' then
            (map_option (handleSecretRequest env sender senderIsPaired) (de_secret_payload env (me_payload envelope)), d)
          else if me_type envelope = JStr ''AGENT_MESSAGE'' then
            (case Option.bind (de_agent_payload env (me_payload envelope))
                    (\<lambda>msg. handleAgentMessage (de_inbox env) now now sender senderIsPaired senderKey msg (dn_inbox d)) of
               None \<Rightarrow> (None, d)
             | Some (ack, effects, inbox') \<Rightarrow> (Some (MessageReply ack, map InboxEffect effects), d\<lparr>dn_inbox := inbox'\<rparr>))
          else (Some (NoReply, []), d))"

section \<open>Lemmas\<close>

lemma bind_attested_wf:
  assumes wf: "mesh_wf m" and b: "bind_attested attested sender remote m = (undo, events, m')"
  shows "mesh_wf m' \<and> mesh_wf (rollback undo m') \<and> (\<exists>peerId. same_but_status peerId m (rollback undo m'))"
proof (cases attested)
  case None
  have "same_but_status [] m m" by (simp add: same_but_status_def)
  then show ?thesis using b wf None by (auto simp: bind_attested_def rollback_def)
next
  case (Some peerId)
  obtain ok where mark: "markPeerIdVerified peerId (Some sender) remote m = (ok, undo, events, m')"
    using b Some by (cases "markPeerIdVerified peerId (Some sender) remote m") (auto simp: bind_attested_def)
  show ?thesis using wf_mark [OF wf mark] wf_rollback [OF wf mark] mark_rollback [OF wf mark] by blast
qed

lemma verify_message_cases:
  assumes "verify_message env now sock cert msg sender attested undo m seen = (receipt, learn, st')"
  obtains (refused) r where "receipt = Refused r" "r \<in> {UnknownSender, BadSignature}" "st' = \<lparr>ed_mesh = rollback undo m, ed_replay = seen\<rparr>"
      "learn \<noteq> [] \<longrightarrow> r = UnknownSender \<and> (\<exists>rq. learn = [rq] \<and> attested = Some (lq_peer_id rq) \<and> lq_sender rq = sender)"
  | (thrown) "receipt = Refused InvalidFormat" "learn = []" "st' = \<lparr>ed_mesh = m, ed_replay = seen\<rparr>"
      "\<exists>key. resolvePeerPublicKey now sender m = Some key \<and> isl (decodeAndVerify (ee_codec env) now msg key)"
  | (duplicate) verified key where "receipt = Refused DuplicateMessage" "learn = []" "st' = \<lparr>ed_mesh = m, ed_replay = ed_replay st'\<rparr>"
      "resolvePeerPublicKey now sender m = Some key" "decodeAndVerify (ee_codec env) now msg key = Inr (Some verified)"
      "isReplay sender (js_text (me_idempotency_key verified)) (me_ttl_ms verified) now seen = (True, ed_replay st')"
  | (accepted) verified key where "receipt = AcceptedMessage verified sender key" "learn = []" "st' = \<lparr>ed_mesh = m, ed_replay = ed_replay st'\<rparr>"
      "resolvePeerPublicKey now sender m = Some key" "decodeAndVerify (ee_codec env) now msg key = Inr (Some verified)"
      "isReplay sender (js_text (me_idempotency_key verified)) (me_ttl_ms verified) now seen = (False, ed_replay st')"
  using assms unfolding verify_message_def
  by (auto simp: truthy_eq_Some split: option.splits sum.splits prod.splits bool.splits)

lemma find_prefix_first:
  "List.find P xs = Some x \<Longrightarrow> Q x \<Longrightarrow> (\<And>y. Q y \<Longrightarrow> P y) \<Longrightarrow> List.find Q xs = Some x"
  by (induction xs) (auto split: if_splits)

text \<open>For a canonical sender the name checked on the channel is the attested one.\<close>

lemma verified_san:
  assumes "authorizeHttpsSender sender (canonical_san sans) = AuthzVerified i"
  shows "spiffeUriToPeerId sender = Some i \<and> List.find (\<lambda>u. peerIdFromCertSan (Some u) \<noteq> None) sans = Some sender"
proof -
  obtain c where c: "canonical_san sans = Some c" "spiffeUriToPeerId c = Some i" "spiffeUriToPeerId sender = Some i"
    using assms by (auto simp: authorizeHttpsSender_def truthy_eq_Some split: option.splits if_splits)
  have eq: "c = sender" using c(2,3) by (simp add: spiffeUriToPeerId_Some)
  have "List.find (\<lambda>u. peerIdFromCertSan (Some u) \<noteq> None) sans = Some c"
  proof (rule find_prefix_first)
    show "List.find (prefix NODE_URI_PREFIX) sans = Some c" using c(1) by (simp add: canonical_san_def)
    show "peerIdFromCertSan (Some c) \<noteq> None" using c(2) by (simp add: peerIdFromCertSan_Some)
    show "prefix NODE_URI_PREFIX y" if "peerIdFromCertSan (Some y) \<noteq> None" for y
      using that by (auto simp: peerIdFromCertSan_Some spiffeUriToPeerId_Some peerIdToSpiffeUri_eq)
  qed
  then show ?thesis using c eq by simp
qed

text \<open>The ways a request to the route can go.\<close>

definition socket_cert :: "tls_socket \<Rightarrow> tls_cert option" where
  "socket_cert sock = (if tk_authorized sock then tk_peer_cert sock else None)"

definition socket_sans :: "tls_socket \<Rightarrow> string list" where
  "socket_sans sock = spiffeUrisFromSubjectAltName (Option.bind (socket_cert sock) tc_subjectaltname)"

definition socket_attested :: "endpoint_env \<Rightarrow> tls_socket \<Rightarrow> string option" where
  "socket_attested env sock =
     attestedPeerIdFromCert (socket_sans sock) (Option.bind (socket_cert sock) tc_issuer_fingerprint256) (ee_attesting env)"

lemma receive_cases:
  assumes "receive_message env now sock body st = (receipt, events, learn, st')"
  obtains (early) r where "receipt = Refused r" "r \<noteq> DuplicateMessage" "learn = []" "st' = st"
  | (verified) bs msg raw_env sender undo m where "body = Some bs" "bs \<noteq> []" "length bs \<le> MAX_BODY"
      "cd_decode_signed (ee_codec env) bs = Inr msg" "cd_decode_envelope (ee_codec env) (sm_envelope msg) = Inr raw_env"
      "me_sender raw_env = JStr sender" "authz_ok (authorizeHttpsSender sender (canonical_san (socket_sans sock)))"
      "\<And>i. authorizeHttpsSender sender (canonical_san (socket_sans sock)) = AuthzVerified i \<Longrightarrow> socket_attested env sock \<noteq> None"
      "bind_attested (socket_attested env sock) sender (tk_remote_address sock) (ed_mesh st) = (undo, events, m)"
      "verify_message env now sock (socket_cert sock) msg sender (socket_attested env sock) undo m (ed_replay st) = (receipt, learn, st')"
proof -
  note unfold = assms [unfolded receive_message_def Let_def deserializeSignedMessage_def
      socket_cert_def [symmetric] socket_sans_def [symmetric] socket_attested_def [symmetric]]
  consider "receipt = Refused (case receipt of Refused r \<Rightarrow> r)" "(case receipt of Refused r \<Rightarrow> r) \<noteq> DuplicateMessage" "learn = []" "st' = st"
    | bs msg raw_env sender where "body = Some bs" "bs \<noteq> []" "length bs \<le> MAX_BODY"
      "cd_decode_signed (ee_codec env) bs = Inr msg" "cd_decode_envelope (ee_codec env) (sm_envelope msg) = Inr raw_env"
      "me_sender raw_env = JStr sender" "authz_ok (authorizeHttpsSender sender (canonical_san (socket_sans sock)))"
      "\<not> ((case authorizeHttpsSender sender (canonical_san (socket_sans sock)) of AuthzVerified _ \<Rightarrow> True | _ \<Rightarrow> False) \<and> socket_attested env sock = None)"
    using unfold by (auto simp: as_str_Some split: option.splits sum.splits if_splits)
  then show thesis
  proof cases
    case 1
    then show ?thesis by (rule early)
  next
    case (2 bs msg raw_env sender)
    obtain undo evs m where b: "bind_attested (socket_attested env sock) sender (tk_remote_address sock) (ed_mesh st) = (undo, evs, m)"
      by (metis prod_cases3)
    obtain rc lr st2 where v: "verify_message env now sock (socket_cert sock) msg sender (socket_attested env sock) undo m (ed_replay st) = (rc, lr, st2)"
      by (metis prod_cases3)
    have "receipt = rc \<and> events = evs \<and> learn = lr \<and> st' = st2" using unfold 2 b v by auto
    then show ?thesis using 2 b v by (intro verified [of bs msg raw_env sender undo m]) auto
  qed
qed

lemma canonical_attested:
  assumes "authz_ok (authorizeHttpsSender sender (canonical_san (socket_sans sock)))" "spiffeUriToPeerId sender = Some i"
    and "\<And>j. authorizeHttpsSender sender (canonical_san (socket_sans sock)) = AuthzVerified j \<Longrightarrow> socket_attested env sock \<noteq> None"
  shows "socket_attested env sock = Some i \<and> tk_authorized sock
    \<and> (\<exists>cert. tk_peer_cert sock = Some cert \<and> sender \<in> set (spiffeUrisFromSubjectAltName (tc_subjectaltname cert))
         \<and> isAttestingIssuer (tc_issuer_fingerprint256 cert) (ee_attesting env))"
proof -
  have auth: "authorizeHttpsSender sender (canonical_san (socket_sans sock)) = AuthzVerified i"
    using assms(1,2) by (auto simp: authorizeHttpsSender_def split: option.splits if_splits)
  note san = verified_san [OF this]
  have att: "socket_attested env sock = Some i \<and> isAttestingIssuer (Option.bind (socket_cert sock) tc_issuer_fingerprint256) (ee_attesting env)"
    using assms(3) [OF auth] san by (auto simp: socket_attested_def attestedPeerIdFromCert_def peerIdFromCertSan_Some assms(2) split: if_splits)
  have "sender \<in> set (socket_sans sock)" using san by (auto simp: find_Some_iff)
  then obtain cert where "socket_cert sock = Some cert" "sender \<in> set (spiffeUrisFromSubjectAltName (tc_subjectaltname cert))"
    by (cases "socket_cert sock") (auto simp: socket_sans_def spiffeUrisFromSubjectAltName_def truthy_def)
  then show ?thesis using att by (auto simp: socket_cert_def split: if_splits)
qed

text \<open>The mesh with the binding of the attested identity of this connection committed.\<close>

definition attested_mesh :: "endpoint_env \<Rightarrow> tls_socket \<Rightarrow> string \<Rightarrow> mesh \<Rightarrow> mesh" where
  "attested_mesh env sock sender m =
     (case socket_attested env sock of
        None \<Rightarrow> m
      | Some peerId \<Rightarrow> mesh_apply (Attested peerId (Some sender) (tk_remote_address sock) True) m)"

lemma bound_mesh:
  "bind_attested (socket_attested env sock) sender (tk_remote_address sock) m = (undo, events, m') \<Longrightarrow> m' = attested_mesh env sock sender m"
  by (auto simp: bind_attested_def attested_mesh_def split: option.splits prod.splits)

lemma accepted_message:
  assumes rx: "receive_message env now sock body st = (AcceptedMessage verified sender key, events, learn, st')"
  shows "(\<exists>bs. body = Some bs \<and> bs \<noteq> [] \<and> length bs \<le> 256 * 1024 \<and> authentic (ee_codec env) now bs key verified)
    \<and> me_sender verified = JStr sender \<and> resolvePeerPublicKey now sender (ed_mesh st') = Some key
    \<and> isReplay sender (js_text (me_idempotency_key verified)) (me_ttl_ms verified) now (ed_replay st) = (False, ed_replay st')
    \<and> (case spiffeUriToPeerId sender of
         None \<Rightarrow> isLegacyHostUri sender
       | Some peerId \<Rightarrow> tk_authorized sock \<and> (\<exists>cert. tk_peer_cert sock = Some cert
           \<and> sender \<in> set (spiffeUrisFromSubjectAltName (tc_subjectaltname cert))
           \<and> isAttestingIssuer (tc_issuer_fingerprint256 cert) (ee_attesting env)))"
  using rx
proof (cases rule: receive_cases)
  case v: (verified bs msg raw_env sender' undo m)
  from v(10) have w: "sender' = sender \<and> resolvePeerPublicKey now sender (ed_mesh st') = Some key
      \<and> decodeAndVerify (ee_codec env) now msg key = Inr (Some verified)
      \<and> isReplay sender (js_text (me_idempotency_key verified)) (me_ttl_ms verified) now (ed_replay st) = (False, ed_replay st')"
  proof (cases rule: verify_message_cases)
    case (accepted verified' key')
    then show ?thesis by (metis endpoint.select_convs(1) receipt.inject(2))
  qed simp_all
  then have "authentic (ee_codec env) now bs key verified \<and> verified = raw_env"
    using v(4,5) by (auto simp: authentic_def decodeAndVerify_def split: sum.splits if_splits)
  moreover have "case spiffeUriToPeerId sender of
         None \<Rightarrow> isLegacyHostUri sender
       | Some peerId \<Rightarrow> tk_authorized sock \<and> (\<exists>cert. tk_peer_cert sock = Some cert
           \<and> sender \<in> set (spiffeUrisFromSubjectAltName (tc_subjectaltname cert))
           \<and> isAttestingIssuer (tc_issuer_fingerprint256 cert) (ee_attesting env))"
  proof (cases "spiffeUriToPeerId sender")
    case None
    then show ?thesis using v(7) w by (auto simp: authorizeHttpsSender_def split: if_splits)
  next
    case (Some i)
    then show ?thesis using canonical_attested [OF v(7) _ v(8)] w by auto
  qed
  ultimately show ?thesis using v(1-3,6) w by (auto simp: MAX_BODY_def)
qed simp

lemma duplicate_message:
  assumes rx: "receive_message env now sock body st = (Refused DuplicateMessage, events, learn, st')"
  shows "\<exists>bs verified sender key. body = Some bs \<and> authentic (ee_codec env) now bs key verified
    \<and> ed_mesh st' = attested_mesh env sock sender (ed_mesh st)
    \<and> resolvePeerPublicKey now sender (ed_mesh st') = Some key
    \<and> isReplay sender (js_text (me_idempotency_key verified)) (me_ttl_ms verified) now (ed_replay st) = (True, ed_replay st')"
  using rx
proof (cases rule: receive_cases)
  case (early r)
  then show ?thesis by simp
next
  case v: (verified bs msg raw_env sender undo m)
  from v(10) show ?thesis
  proof (cases rule: verify_message_cases)
    case (duplicate verified key)
    have "authentic (ee_codec env) now bs key verified"
      using duplicate(5) v(4,5) by (auto simp: authentic_def decodeAndVerify_def split: sum.splits if_splits)
    moreover have "ed_mesh st' = m" using duplicate(3) by (metis endpoint.select_convs(1))
    ultimately show ?thesis using duplicate(4,6) bound_mesh [OF v(9)] v(1) by blast
  qed auto
qed

section \<open>Properties\<close>

text \<open>
  C18. Admission of a message. The route hands a message on only if its body is not empty and at most 256 KB,
  it decodes to an envelope of the sender, the sender's key comes from the mesh and verifies the signature,
  the envelope has not expired and its idempotency key has not been seen within its life time; a canonical
  sender moreover has presented, on an authorised TLS socket, a certificate with exactly this identity whose
  issuer is pinned as attesting, and any other sender has the exact legacy form. What a refused message leaves
  depends on the refusal. One refused for its size, its sender, an unknown key or a bad signature leaves no
  trace in the replay guard and, after any history of the mesh, every canonical identity resolving as before.
  A malformed one leaves no trace in the replay guard either, and the mesh as it was, unless it was its
  verification that threw: then the binding of the identity that this connection attests stays committed. A
  duplicate is authentic and was seen within its life time, and the binding of its connection stays committed
  as well; the replay guard is as the look-up left it. A request to learn the sender is made only for an unknown
  sender whose channel is attested.
\<close>

theorem message_admission:
  assumes rx: "receive_message env now sock body st = (receipt, events, learn, st')"
    and mesh: "ed_mesh st = fold mesh_apply ops (new_MeshManager threshold)"
  shows "(receipt = AcceptedMessage verified sender key \<longrightarrow>
      (\<exists>bs. body = Some bs \<and> bs \<noteq> [] \<and> length bs \<le> 256 * 1024 \<and> authentic (ee_codec env) now bs key verified)
      \<and> me_sender verified = JStr sender \<and> resolvePeerPublicKey now sender (ed_mesh st') = Some key
      \<and> isReplay sender (js_text (me_idempotency_key verified)) (me_ttl_ms verified) now (ed_replay st) = (False, ed_replay st')
      \<and> (case spiffeUriToPeerId sender of
           None \<Rightarrow> isLegacyHostUri sender
         | Some peerId \<Rightarrow> tk_authorized sock \<and> (\<exists>cert. tk_peer_cert sock = Some cert
             \<and> sender \<in> set (spiffeUrisFromSubjectAltName (tc_subjectaltname cert))
             \<and> isAttestingIssuer (tc_issuer_fingerprint256 cert) (ee_attesting env))))
    \<and> (receipt = Refused r \<and> r \<notin> {InvalidFormat, DuplicateMessage} \<longrightarrow> ed_replay st' = ed_replay st
      \<and> (spiffeUriToPeerId uri \<noteq> None \<longrightarrow> resolvePeerPublicKey t uri (ed_mesh st') = resolvePeerPublicKey t uri (ed_mesh st)))
    \<and> (receipt = Refused InvalidFormat \<longrightarrow> ed_replay st' = ed_replay st
      \<and> (ed_mesh st' = ed_mesh st
         \<or> (\<exists>sender msg key. ed_mesh st' = attested_mesh env sock sender (ed_mesh st)
              \<and> authz_ok (authorizeHttpsSender sender (canonical_san (socket_sans sock)))
              \<and> resolvePeerPublicKey now sender (ed_mesh st') = Some key \<and> isl (decodeAndVerify (ee_codec env) now msg key))))
    \<and> (receipt = Refused DuplicateMessage \<longrightarrow>
        (\<exists>bs verified sender key. body = Some bs \<and> authentic (ee_codec env) now bs key verified
           \<and> ed_mesh st' = attested_mesh env sock sender (ed_mesh st)
           \<and> resolvePeerPublicKey now sender (ed_mesh st') = Some key
           \<and> isReplay sender (js_text (me_idempotency_key verified)) (me_ttl_ms verified) now (ed_replay st) = (True, ed_replay st')))
    \<and> (rq \<in> set learn \<longrightarrow> receipt = Refused UnknownSender \<and> socket_attested env sock = Some (lq_peer_id rq))"
proof -
  have wf: "mesh_wf (ed_mesh st)" using mesh_run mesh by simp
  have accepted: "receipt = AcceptedMessage verified sender key \<longrightarrow>
      (\<exists>bs. body = Some bs \<and> bs \<noteq> [] \<and> length bs \<le> 256 * 1024 \<and> authentic (ee_codec env) now bs key verified)
      \<and> me_sender verified = JStr sender \<and> resolvePeerPublicKey now sender (ed_mesh st') = Some key
      \<and> isReplay sender (js_text (me_idempotency_key verified)) (me_ttl_ms verified) now (ed_replay st) = (False, ed_replay st')
      \<and> (case spiffeUriToPeerId sender of
           None \<Rightarrow> isLegacyHostUri sender
         | Some peerId \<Rightarrow> tk_authorized sock \<and> (\<exists>cert. tk_peer_cert sock = Some cert
             \<and> sender \<in> set (spiffeUrisFromSubjectAltName (tc_subjectaltname cert))
             \<and> isAttestingIssuer (tc_issuer_fingerprint256 cert) (ee_attesting env)))"
    using accepted_message [of env now sock body st verified sender key events learn st'] rx by simp
  have refused: "ed_replay st' = ed_replay st \<and> (spiffeUriToPeerId uri \<noteq> None \<longrightarrow>
      resolvePeerPublicKey t uri (ed_mesh st') = resolvePeerPublicKey t uri (ed_mesh st))"
    if ref: "receipt = Refused r" "r \<notin> {InvalidFormat, DuplicateMessage}"
    using rx
  proof (cases rule: receive_cases)
    case (verified bs msg raw_env sender' undo m)
    obtain peerId where same: "mesh_wf (rollback undo m)" "same_but_status peerId (ed_mesh st) (rollback undo m)"
      using bind_attested_wf [OF wf verified(9)] by blast
    have "st' = \<lparr>ed_mesh = rollback undo m, ed_replay = ed_replay st\<rparr>"
      using verified(10) by (cases rule: verify_message_cases) (use ref in auto)
    then show ?thesis using resolve_same [OF same(2) wf same(1)] by auto
  qed simp
  have malformed: "ed_replay st' = ed_replay st
      \<and> (ed_mesh st' = ed_mesh st
         \<or> (\<exists>sender msg key. ed_mesh st' = attested_mesh env sock sender (ed_mesh st)
              \<and> authz_ok (authorizeHttpsSender sender (canonical_san (socket_sans sock)))
              \<and> resolvePeerPublicKey now sender (ed_mesh st') = Some key \<and> isl (decodeAndVerify (ee_codec env) now msg key)))"
    if ref: "receipt = Refused InvalidFormat"
    using rx
  proof (cases rule: receive_cases)
    case v: (verified bs msg raw_env sender' undo m)
    from v(10) show ?thesis
    proof (cases rule: verify_message_cases)
      case thrown
      then show ?thesis using bound_mesh [OF v(9)] v(7) by auto
    qed (use ref in auto)
  qed simp
  have seen: "\<exists>bs verified sender key. body = Some bs \<and> authentic (ee_codec env) now bs key verified
           \<and> ed_mesh st' = attested_mesh env sock sender (ed_mesh st)
           \<and> resolvePeerPublicKey now sender (ed_mesh st') = Some key
           \<and> isReplay sender (js_text (me_idempotency_key verified)) (me_ttl_ms verified) now (ed_replay st) = (True, ed_replay st')"
    if ref: "receipt = Refused DuplicateMessage"
    by (rule duplicate_message [OF rx [unfolded ref]])
  have learning: "receipt = Refused UnknownSender \<and> socket_attested env sock = Some (lq_peer_id rq)" if wanted: "rq \<in> set learn"
    using rx
  proof (cases rule: receive_cases)
    case (verified bs msg raw_env sender' undo m)
    from verified(10) show ?thesis by (cases rule: verify_message_cases) (use wanted in auto)
  qed (use wanted in auto)
  show ?thesis using accepted refused malformed seen learning by blast
qed

text \<open>A node \<open>a\<close> with a certificate of the pinned issuer, known here by discovery and by its card.\<close>

definition demo_sock :: tls_socket where
  "demo_sock = \<lparr>tk_authorized = True, tk_remote_address = None,
     tk_peer_cert = Some \<lparr>tc_subjectaltname = Some ''URI:spiffe://thinklocal/node/a'', tc_fingerprint256 = None,
       tc_issuer_fingerprint256 = Some ''AB''\<rparr>\<rparr>"

definition demo_endpoint_env :: endpoint_env where
  "demo_endpoint_env = \<lparr>ee_codec = sample_codec, ee_attesting = [''AB'']\<rparr>"

definition demo_history :: "mesh_op list" where
  "demo_history = [Discovered 0 \<lparr>dp_name = ''n'', dp_host = ''10.0.0.2'', dp_port = 9440, dp_agent_id = ''host/a'',
       dp_p2p_peer_id = Some ''a'', dp_endpoint = ''e''\<rparr>,
     CardFetched ''host/a'' \<lparr>ac_public_key = ''PEM'', ac_spiffe_uri = ''spiffe://thinklocal/node/a'', ac_libp2p = None\<rparr>]"

definition demo_state :: "mesh_op list \<Rightarrow> endpoint" where
  "demo_state ops = \<lparr>ed_mesh = fold mesh_apply ops (new_MeshManager 3), ed_replay = []\<rparr>"

lemma demo_sans: "socket_sans demo_sock = [''spiffe://thinklocal/node/a'']"
  by (simp add: socket_sans_def socket_cert_def demo_sock_def) code_simp

lemma demo_attested: "socket_attested demo_endpoint_env demo_sock = Some ''a''"
  unfolding socket_attested_def demo_sans by (simp add: demo_sock_def socket_cert_def demo_endpoint_env_def) code_simp

lemma demo_authz: "authorizeHttpsSender ''spiffe://thinklocal/node/a'' (canonical_san [''spiffe://thinklocal/node/a'']) = AuthzVerified ''a''"
  by code_simp

lemma demo_id_a: "spiffeUriToPeerId ''spiffe://thinklocal/node/a'' = Some ''a''"
  by (simp add: spiffeUriToPeerId_Some alnum_def char_between_def peerIdToSpiffeUri_def TRUST_DOMAIN_def)

lemma demo_known:
  "\<exists>p. ed_mesh (demo_state demo_history) = \<lparr>ms_heap = [p], ms_peers = [(''host/a'', 0)], ms_seen = [], ms_missed_threshold = 3,
        ms_boot_targets = []\<rparr>
     \<and> mp_peer_id p = Some ''a'' \<and> card_key p = Some ''PEM'' \<and> mp_agent_id p = ''host/a''"
  by (simp add: demo_state_def demo_history_def Mesh.addPeer_def new_MeshManager_def updateAgentCard_def card_update_def fresh_peer_def
      modify_def card_key_def Let_def)

lemma demo_bound:
  assumes "bind_attested (Some ''a'') ''spiffe://thinklocal/node/a'' None (ed_mesh (demo_state demo_history)) = (undo, events, m)"
  shows "resolvePeerPublicKey now ''spiffe://thinklocal/node/a'' m = Some ''PEM''"
proof -
  obtain p where p: "ed_mesh (demo_state demo_history) = \<lparr>ms_heap = [p], ms_peers = [(''host/a'', 0)], ms_seen = [],
      ms_missed_threshold = 3, ms_boot_targets = []\<rparr>" "mp_peer_id p = Some ''a''" "card_key p = Some ''PEM''" "mp_agent_id p = ''host/a''"
    using demo_known by blast
  have key: "card_key (p\<lparr>mp_peer_id := x, mp_peer_id_verified := y, mp_agent_id := z\<rparr>) = card_key p" for x y z
    by (simp add: card_key_def)
  have "m = \<lparr>ms_heap = [p\<lparr>mp_peer_id := Some ''a'', mp_peer_id_verified := True, mp_agent_id := ''spiffe://thinklocal/node/a''\<rparr>],
      ms_peers = [(''spiffe://thinklocal/node/a'', 0)], ms_seen = [], ms_missed_threshold = 3, ms_boot_targets = []\<rparr>"
    using assms p by (simp add: bind_attested_def markPeerIdVerified_def verify_target_def demo_id_a peer_at_def modify_def rekey_def Let_def)
  then show ?thesis
    by (simp add: resolvePeerPublicKey_def demo_id_a mesh_values_def peer_at_def verified_as_def key p List.map_filter_simps)
qed

lemma demo_receive:
  assumes "bs \<noteq> []" "length bs \<le> 10"
  shows "receive_message demo_endpoint_env 5 demo_sock (Some bs) st =
    (case bind_attested (Some ''a'') ''spiffe://thinklocal/node/a'' None (ed_mesh st) of (undo, events, m) \<Rightarrow>
       case verify_message demo_endpoint_env 5 demo_sock (socket_cert demo_sock) \<lparr>sm_envelope = take 1 bs, sm_signature = drop 1 bs\<rparr>
              ''spiffe://thinklocal/node/a'' (Some ''a'') undo m (ed_replay st) of
         (receipt, learn, st') \<Rightarrow> (receipt, events, learn, st'))"
proof -
  have "cd_decode_signed (ee_codec demo_endpoint_env) bs = Inr \<lparr>sm_envelope = take 1 bs, sm_signature = drop 1 bs\<rparr>"
    "cd_decode_envelope (ee_codec demo_endpoint_env) b = Inr sample_env" for b
    by (simp_all add: demo_endpoint_env_def sample_codec_def)
  moreover have "me_sender sample_env = JStr ''spiffe://thinklocal/node/a''"
    by (simp add: sample_env_def buildOrderEnvelope_def createEnvelope_def)
  moreover have "tk_remote_address demo_sock = None" by (simp add: demo_sock_def)
  moreover note demo_attested [unfolded socket_attested_def demo_sans]
  ultimately show ?thesis
    using assms demo_sans demo_authz
    by (simp add: receive_message_def deserializeSignedMessage_def MAX_BODY_def Let_def
        socket_cert_def [symmetric] socket_sans_def [symmetric] split: prod.split)
qed

lemma demo_verdict:
  "decodeAndVerify (ee_codec demo_endpoint_env) 5 \<lparr>sm_envelope = [7], sm_signature = [s]\<rparr> ''PEM''
     = Inr (if s = 8 then Some sample_env else None)"
  by (simp add: decodeAndVerify_def demo_endpoint_env_def sample_codec_def expired_def sample_env_def buildOrderEnvelope_def createEnvelope_def)

text \<open>A good message, one with a forged signature, and one from a node that is not known here.\<close>

theorem message_admission_witness:
  "(\<exists>events learn st'. receive_message demo_endpoint_env 5 demo_sock (Some [7, 8]) (demo_state demo_history)
       = (AcceptedMessage sample_env ''spiffe://thinklocal/node/a'' ''PEM'', events, learn, st')
     \<and> resolvePeerPublicKey 5 ''spiffe://thinklocal/node/a'' (ed_mesh st') = Some ''PEM'')
   \<and> (\<exists>events learn st'. receive_message demo_endpoint_env 5 demo_sock (Some [7, 9]) (demo_state demo_history)
       = (Refused BadSignature, events, learn, st')
     \<and> resolvePeerPublicKey 5 ''spiffe://thinklocal/node/a'' (ed_mesh st')
         = resolvePeerPublicKey 5 ''spiffe://thinklocal/node/a'' (ed_mesh (demo_state demo_history)))
   \<and> (\<exists>events rq st'. receive_message demo_endpoint_env 5 demo_sock (Some [7, 8]) (demo_state []) = (Refused UnknownSender, events, [rq], st')
     \<and> socket_attested demo_endpoint_env demo_sock = Some (lq_peer_id rq))"
proof -
  let ?u = "''spiffe://thinklocal/node/a''"
  have mesh: "ed_mesh (demo_state ops) = fold mesh_apply ops (new_MeshManager 3)" for ops by (simp add: demo_state_def)
  obtain undo events m where b: "bind_attested (Some ''a'') ?u None (ed_mesh (demo_state demo_history)) = (undo, events, m)"
    by (metis prod_cases3)
  have replay: "ed_replay (demo_state ops) = []" for ops by (simp add: demo_state_def)
  have good: "\<exists>st'. receive_message demo_endpoint_env 5 demo_sock (Some [7, 8]) (demo_state demo_history)
      = (AcceptedMessage sample_env ?u ''PEM'', events, [], st')"
    by (simp add: demo_receive b verify_message_def demo_bound [OF b] demo_verdict replay isReplay_def check_seen_def)
  then have 1: "\<exists>events learn st'. receive_message demo_endpoint_env 5 demo_sock (Some [7, 8]) (demo_state demo_history)
       = (AcceptedMessage sample_env ?u ''PEM'', events, learn, st') \<and> resolvePeerPublicKey 5 ?u (ed_mesh st') = Some ''PEM''"
    using message_admission [OF _ mesh] by blast
  have bad: "\<exists>st'. receive_message demo_endpoint_env 5 demo_sock (Some [7, 9]) (demo_state demo_history)
      = (Refused BadSignature, events, [], st')"
    by (simp add: demo_receive b verify_message_def demo_bound [OF b] demo_verdict)
  then have 2: "\<exists>events learn st'. receive_message demo_endpoint_env 5 demo_sock (Some [7, 9]) (demo_state demo_history)
       = (Refused BadSignature, events, learn, st')
     \<and> resolvePeerPublicKey 5 ?u (ed_mesh st') = resolvePeerPublicKey 5 ?u (ed_mesh (demo_state demo_history))"
    using message_admission [OF _ mesh, where uri = ?u and t = 5 and r = BadSignature] demo_id_a by fastforce
  have "bind_attested (Some ''a'') ?u None (ed_mesh (demo_state [])) = (NoUndo, [], new_MeshManager 3)"
    by (simp add: bind_attested_def demo_state_def markPeerIdVerified_def verify_target_def new_MeshManager_def Let_def)
  moreover have "resolvePeerPublicKey 5 ?u (new_MeshManager 3) = None"
    by (simp add: resolvePeerPublicKey_def demo_id_a new_MeshManager_def mesh_values_def List.map_filter_simps)
  ultimately obtain rq st' where
      r: "receive_message demo_endpoint_env 5 demo_sock (Some [7, 8]) (demo_state []) = (Refused UnknownSender, [], [rq], st')"
    by (auto simp: demo_receive verify_message_def truthy_def)
  then have 3: "\<exists>events rq st'. receive_message demo_endpoint_env 5 demo_sock (Some [7, 8]) (demo_state []) = (Refused UnknownSender, events, [rq], st')
     \<and> socket_attested demo_endpoint_env demo_sock = Some (lq_peer_id rq)"
    using message_admission [OF r mesh, where rq = rq] r by auto
  show ?thesis using 1 2 3 by blast
qed

text \<open>
  C19. What an unpaired sender can do. For a verified message of a sender that is paired neither by its URI
  nor by its key, the dispatch changes neither the inbox nor the mesh nor the pairings and seals no secret;
  registry synchronisation and skill announcements are passed on only if the mesh approves the sender. A
  canonical sender is approved only after a committed attestation of exactly this identity, so one that
  was merely sighted is never let through. A legacy sender is approved on a card alone: one with a key that was
  fetched from the peer discovered under this name, or that claims this name itself; no attestation is needed.
  Conversely an approved or paired sender whose bucket has a token gets its registry message to the
  synchronisation.
\<close>

theorem unpaired_sender_confined:
  assumes run: "onMessage env now envelope sender key d = (res, d')"
    and mesh: "dn_mesh d = fold mesh_apply ops (new_MeshManager threshold)"
  shows "(\<not> sender_paired env sender key d \<longrightarrow>
      dn_inbox d' = dn_inbox d \<and> dn_mesh d' = dn_mesh d \<and> dn_pairings d' = dn_pairings d
      \<and> (\<forall>reply effects. res = Some (reply, effects) \<longrightarrow>
           (\<forall>n v. reply \<noteq> SecretReply n (SecretSealed v)) \<and> (\<forall>x. InboxEffect x \<notin> set effects)
           \<and> ((\<exists>e. GossipSync e \<in> set effects) \<or> (\<exists>s p. SkillAnnounce s p \<in> set effects) \<longrightarrow>
                isApprovedPeerSender sender (dn_mesh d)
                \<and> (\<forall>i. spiffeUriToPeerId sender = Some i \<longrightarrow> (\<exists>s h. Attested i s h True \<in> set ops))
                \<and> (spiffeUriToPeerId sender = None \<longrightarrow>
                     (\<exists>i c. CardFetched i c \<in> set ops \<and> ac_public_key c \<noteq> [] \<and> (i = sender \<or> ac_spiffe_uri c = sender))))))
    \<and> ((sender_paired env sender key d \<or> isApprovedPeerSender sender (dn_mesh d))
       \<and> fst (Rate_Limit.allow (de_limits env) now sender (dn_limiter d)) \<and> me_type envelope = JStr ''REGISTRY_SYNC'' \<longrightarrow>
      res = Some (SyncReply, [GossipSync envelope]))"
proof -
  obtain ok rl where a: "Rate_Limit.allow (de_limits env) now sender (dn_limiter d) = (ok, rl)" by (metis surj_pair)
  note step = run [unfolded onMessage_def Let_def a prod.case]
  note attested = approved_attested [OF mesh] legacy_approved [OF mesh]
  have passed: "res = Some (SyncReply, [GossipSync envelope])"
    if "sender_paired env sender key d \<or> isApprovedPeerSender sender (dn_mesh d)"
      "fst (Rate_Limit.allow (de_limits env) now sender (dn_limiter d))" "me_type envelope = JStr ''REGISTRY_SYNC''"
    using step that a by auto
  have confined: "dn_inbox d' = dn_inbox d \<and> dn_mesh d' = dn_mesh d \<and> dn_pairings d' = dn_pairings d
      \<and> (\<forall>reply effects. res = Some (reply, effects) \<longrightarrow>
           (\<forall>n v. reply \<noteq> SecretReply n (SecretSealed v)) \<and> (\<forall>x. InboxEffect x \<notin> set effects)
           \<and> ((\<exists>e. GossipSync e \<in> set effects) \<or> (\<exists>s p. SkillAnnounce s p \<in> set effects) \<longrightarrow>
                isApprovedPeerSender sender (dn_mesh d)
                \<and> (\<forall>i. spiffeUriToPeerId sender = Some i \<longrightarrow> (\<exists>s h. Attested i s h True \<in> set ops))
                \<and> (spiffeUriToPeerId sender = None \<longrightarrow>
                     (\<exists>i c. CardFetched i c \<in> set ops \<and> ac_public_key c \<noteq> [] \<and> (i = sender \<or> ac_spiffe_uri c = sender)))))"
    if unpaired: "\<not> sender_paired env sender key d"
  proof (cases ok)
    case False
    then show ?thesis using step by auto
  next
    case True
    have secret: "snd (handleSecretRequest env sender False rq) = [SecretAsked sender rq]
        \<and> fst (handleSecretRequest env sender False rq) \<noteq> SecretReply n (SecretSealed v)" for rq n v
      by (simp add: handleSecretRequest_def split: option.split)
    have inbox: "inbox' = dn_inbox d \<and> effects = []"
      if "handleAgentMessage (de_inbox env) now now sender False key msg (dn_inbox d) = Some (ack, effects, inbox')" for msg ack effects inbox'
      using that by (auto simp: handleAgentMessage_def split: if_splits)
    consider "me_type envelope = JStr ''REGISTRY_SYNC''" | "me_type envelope = JStr ''SKILL_ANNOUNCE''"
      | "me_type envelope = JStr ''SECRET_REQUEST''" | "me_type envelope = JStr ''AGENT_MESSAGE''"
      | "me_type envelope \<notin> {JStr ''REGISTRY_SYNC'', JStr ''SKILL_ANNOUNCE'', JStr ''SECRET_REQUEST'', JStr ''AGENT_MESSAGE''}" by blast
    then show ?thesis
    proof cases
      case 3
      then show ?thesis using step True unpaired secret by (auto simp: prod_eq_iff)
    next
      case 4
      then show ?thesis using step True unpaired
        by (auto split: option.splits prod.splits simp: bind_eq_Some_conv dest!: inbox)
    qed (use step True unpaired attested in \<open>auto split: if_splits\<close>)
  qed
  show ?thesis using passed confined by blast
qed

lemma sync_refused:
  "\<not> sender_paired env sender key d \<Longrightarrow> \<not> isApprovedPeerSender sender (dn_mesh d) \<Longrightarrow>
   fst (Rate_Limit.allow (de_limits env) now sender (dn_limiter d)) \<Longrightarrow> me_type envelope = JStr ''REGISTRY_SYNC'' \<Longrightarrow>
   fst (onMessage env now envelope sender key d) = Some (NoReply, [AuditRejected sender ''REGISTRY_SYNC rejected: unapproved sender''])"
  by (auto simp: onMessage_def Let_def split: prod.split bool.split)

definition demo_dispatch :: dispatch_env where
  "demo_dispatch = \<lparr>de_inbox = sample_inbox_env, de_limits = DEFAULT_CONFIG, de_secret_payload = \<lambda>_. None,
     de_agent_payload = \<lambda>_. None, de_retrieve = \<lambda>_. None, de_seal = \<lambda>c k. c\<rparr>"

definition demo_daemon :: "pairing_store \<Rightarrow> daemon" where
  "demo_daemon pairings = \<lparr>dn_mesh = new_MeshManager 3, dn_pairings = pairings, dn_limiter = [], dn_inbox = []\<rparr>"

definition demo_sync :: message_envelope where
  "demo_sync = createEnvelope ''u-2'' 0 ''REGISTRY_SYNC'' ''spiffe://thinklocal/node/a'' JNull None None"

theorem unpaired_sender_confined_witness:
  "(\<exists>d'. onMessage demo_dispatch 0 demo_sync ''spiffe://thinklocal/node/a'' ''K'' (demo_daemon [])
       = (Some (NoReply, [AuditRejected ''spiffe://thinklocal/node/a'' ''REGISTRY_SYNC rejected: unapproved sender'']), d')
     \<and> dn_inbox d' = [])
   \<and> fst (onMessage demo_dispatch 0 demo_sync ''spiffe://thinklocal/node/a'' ''K''
       (demo_daemon [(''spiffe://thinklocal/node/a'', \<lparr>pd_agent_id = ''spiffe://thinklocal/node/a'', pd_public_key = ''K'',
          pd_ca_cert = [], pd_fingerprint = ''F'', pd_paired_at = 0, pd_hostname = ''a''\<rparr>)]))
       = Some (SyncReply, [GossipSync demo_sync])"
proof -
  let ?u = "''spiffe://thinklocal/node/a''"
  let ?store = "[(?u, \<lparr>pd_agent_id = ?u, pd_public_key = ''K'', pd_ca_cert = [], pd_fingerprint = ''F'', pd_paired_at = 0, pd_hostname = ''a''\<rparr>)]"
  have mesh: "dn_mesh (demo_daemon p) = fold mesh_apply [] (new_MeshManager 3)" for p by (simp add: demo_daemon_def)
  have type: "me_type demo_sync = JStr ''REGISTRY_SYNC''" by (simp add: demo_sync_def createEnvelope_def)
  have token: "fst (Rate_Limit.allow (de_limits demo_dispatch) 0 ?u (dn_limiter (demo_daemon p)))" for p
    by (simp add: demo_dispatch_def demo_daemon_def Rate_Limit.allow_def getOrCreateBucket_def refill_def DEFAULT_CONFIG_def Let_def)
  have unpaired: "\<not> sender_paired demo_dispatch ?u ''K'' (demo_daemon [])"
    by (simp add: sender_paired_def demo_daemon_def isPaired_def isPairedByPublicKey_def)
  have paired: "sender_paired demo_dispatch ?u ''K'' (demo_daemon ?store)"
    by (simp add: sender_paired_def demo_daemon_def isPaired_def)
  have unapproved: "\<not> isApprovedPeerSender ?u (dn_mesh (demo_daemon []))"
    by (simp add: demo_daemon_def isApprovedPeerSender_def demo_id_a mesh_values_def new_MeshManager_def)
  obtain res d' where run: "onMessage demo_dispatch 0 demo_sync ?u ''K'' (demo_daemon []) = (res, d')" by (metis surj_pair)
  have "res = Some (NoReply, [AuditRejected ?u ''REGISTRY_SYNC rejected: unapproved sender''])"
    using sync_refused [OF unpaired unapproved token type] run by simp
  moreover have "dn_inbox d' = []" using unpaired_sender_confined [OF run mesh] unpaired by (simp add: demo_daemon_def)
  ultimately have 1: "\<exists>d'. onMessage demo_dispatch 0 demo_sync ?u ''K'' (demo_daemon [])
      = (Some (NoReply, [AuditRejected ?u ''REGISTRY_SYNC rejected: unapproved sender'']), d') \<and> dn_inbox d' = []" using run by blast
  obtain res2 d2 where run2: "onMessage demo_dispatch 0 demo_sync ?u ''K'' (demo_daemon ?store) = (res2, d2)" by (metis surj_pair)
  have "res2 = Some (SyncReply, [GossipSync demo_sync])"
    using unpaired_sender_confined [OF run2 mesh] paired token type by blast
  then show ?thesis using 1 run2 by simp
qed

lemma fetch_attempts_spec:
  "fst (fetch_attempts fetch backoff a n) = (if \<exists>i < n. fetch (a + i) \<noteq> None then fetch (a + (LEAST i. fetch (a + i) \<noteq> None)) else None)
   \<and> length (snd (fetch_attempts fetch backoff a n)) \<le> n - 1"
proof (induction n arbitrary: a)
  case (Suc n)
  show ?case
  proof (cases "fetch a")
    case (Some c)
    then have "(LEAST i. fetch (a + i) \<noteq> None) = 0" by (intro Least_equality) auto
    with Some show ?thesis by auto
  next
    case None
    have shift: "(\<exists>i < Suc n. fetch (a + i) \<noteq> None) \<longleftrightarrow> (\<exists>i < n. fetch (Suc a + i) \<noteq> None)"
      using None by (metis (no_types, lifting) Suc_less_eq add_Suc_shift add_0_right less_Suc_eq_0_disj)
    have least: "(LEAST i. fetch (a + i) \<noteq> None) = Suc (LEAST i. fetch (Suc a + i) \<noteq> None)" if some: "\<exists>i < n. fetch (Suc a + i) \<noteq> None"
    proof -
      obtain i where "fetch (Suc a + i) \<noteq> None" using some by blast
      then have "fetch (a + Suc i) \<noteq> None" by simp
      then show ?thesis using Least_Suc [of "\<lambda>i. fetch (a + i) \<noteq> None" "Suc i"] None by simp
    qed
    show ?thesis
    proof (cases n)
      case 0
      then show ?thesis using None by simp
    next
      case (Suc k)
      then show ?thesis using None Suc.IH [of "Suc a"] shift least by (auto simp: Let_def case_prod_beta)
    qed
  qed
qed simp

lemma first_fetch:
  "fst (fetch_attempts fetch backoff a n) = Some crd \<longleftrightarrow> (\<exists>k < n. fetch (a + k) = Some crd \<and> (\<forall>j < k. fetch (a + j) = None))"
proof
  let ?P = "\<lambda>i. fetch (a + i) \<noteq> None"
  assume "fst (fetch_attempts fetch backoff a n) = Some crd"
  then have ex: "\<exists>i < n. ?P i" and val: "fetch (a + (LEAST i. ?P i)) = Some crd"
    using fetch_attempts_spec [of fetch backoff a n] by (auto split: if_splits)
  then have "(LEAST i. ?P i) < n" by (metis (mono_tags, lifting) Least_le order.strict_trans1)
  moreover have "\<forall>j < (LEAST i. ?P i). fetch (a + j) = None" using not_less_Least by blast
  ultimately show "\<exists>k < n. fetch (a + k) = Some crd \<and> (\<forall>j < k. fetch (a + j) = None)" using val by blast
next
  assume "\<exists>k < n. fetch (a + k) = Some crd \<and> (\<forall>j < k. fetch (a + j) = None)"
  then obtain k where k: "k < n" "fetch (a + k) = Some crd" "\<forall>j < k. fetch (a + j) = None" by blast
  then have "(LEAST i. fetch (a + i) \<noteq> None) = k" by (intro Least_equality) (auto simp: not_less [symmetric])
  then show "fst (fetch_attempts fetch backoff a n) = Some crd" using fetch_attempts_spec [of fetch backoff a n] k by auto
qed

lemma seen_irrelevant [simp]:
  "mesh_values (m\<lparr>ms_seen := xs\<rparr>) = mesh_values m" "getPeer i (m\<lparr>ms_seen := xs\<rparr>) = getPeer i m"
  by (simp_all add: mesh_values_def getPeer_def peer_at_def [abs_def])

lemma seen_unapproved: "isApprovedPeerSender u (m\<lparr>ms_seen := xs\<rparr>) = isApprovedPeerSender u m"
  by (cases "spiffeUriToPeerId u") (simp_all add: isApprovedPeerSender_def)

lemma recorded_resolves:
  assumes "spiffeUriToPeerId (se_spiffe_uri e) = Some (se_peer_id e)" "filter (verified_as (se_peer_id e)) (mesh_values m) = []"
    and "length (ms_seen m) < AUTH_SEEN_MAX"
  shows "resolvePeerPublicKey now (se_spiffe_uri e) (recordAuthenticatedSeen now e m) = Some (se_public_key e)"
proof -
  define pruned where "pruned = m_filter (\<lambda>_ v. \<not> AUTH_SEEN_TTL_MS < now - se_last_seen v) (ms_seen m)"
  have "length (m_set (se_peer_id e) (e\<lparr>se_last_seen := now\<rparr>) pruned) \<le> AUTH_SEEN_MAX"
    using assms(3) length_m_filter_le [of "\<lambda>_ v. \<not> AUTH_SEEN_TTL_MS < now - se_last_seen v" "ms_seen m"]
    by (auto simp: pruned_def)
  then have "recordAuthenticatedSeen now e m = m\<lparr>ms_seen := m_set (se_peer_id e) (e\<lparr>se_last_seen := now\<rparr>) pruned\<rparr>"
    by (simp add: recordAuthenticatedSeen_def Let_def pruned_def)
  then show ?thesis using assms(1,2)
    by (simp add: resolvePeerPublicKey_def verified_keys AUTH_SEEN_TTL_MS_def)
qed

text \<open>
  C20. Learning the sender of an inbound connection. An entry is produced only for a sender that is the
  attested identity itself, is not resolvable yet and is within its rate; it carries that identity and a key
  from a card that names the identity, fetched in one of the allowed attempts from the address of the
  connection or, when that is missing, from a known address the policy allows through the fetch pinned to the
  identity. If the first attempt that does not throw, among those allowed, brings such a card, the entry is
  produced, and once it is recorded the sender resolves to its key, unless a verified peer of the identity is
  known already or the table of sightings is full. Recording an entry never makes anyone approved.
\<close>

theorem inbound_learning:
  "(learnInboundPeer d rq = (res, Some e) \<longrightarrow>
      res = Recorded \<and> lq_sender rq = ld_expected d \<and> \<not> ld_already_resolvable d \<and> ld_rate_ok d
      \<and> se_peer_id e = lq_peer_id rq \<and> se_spiffe_uri e = ld_expected d \<and> se_public_key e \<noteq> []
      \<and> (\<exists>address fetch attempt. attempt \<in> {1..max 1 (ld_max_attempts d)}
           \<and> fetch (se_endpoint e) attempt = Some (Some (Some (ld_expected d), Some (se_public_key e)))
           \<and> (if lq_remote_address rq \<noteq> [] then address = lq_remote_address rq \<and> fetch = ld_fetch d
              else ld_fallback d = Some address \<and> (\<exists>pinned. ld_fetch_pinned d = Some pinned \<and> fetch = (\<lambda>ep. pinned ep (ld_expected d)))
                   \<and> (case ld_fallback_allowed d of None \<Rightarrow> True | Some ok \<Rightarrow> ok address))))
   \<and> (lq_sender rq = ld_expected d \<and> \<not> ld_already_resolvable d \<and> ld_rate_ok d
      \<and> fetch_plan d (lq_remote_address rq) = Some (address, fetch)
      \<and> ep = ''https://'' @ hostForUrl address @ '':'' @ int_text (int (ld_port d))
      \<and> k < max 1 (ld_max_attempts d) \<and> fetch ep (1 + k) = Some (Some (Some (ld_expected d), Some key))
      \<and> (\<forall>j < k. fetch ep (1 + j) = None) \<and> key \<noteq> [] \<longrightarrow>
      (\<exists>e. learnInboundPeer d rq = (Recorded, Some e) \<and> se_public_key e = key
        \<and> (spiffeUriToPeerId (ld_expected d) = Some (lq_peer_id rq) \<longrightarrow> length (ms_seen m) < AUTH_SEEN_MAX \<longrightarrow>
           filter (verified_as (lq_peer_id rq)) (mesh_values m) = [] \<longrightarrow>
             resolvePeerPublicKey now (ld_expected d) (recordAuthenticatedSeen now e m) = Some key)))
   \<and> isApprovedPeerSender u (recordAuthenticatedSeen now e m) = isApprovedPeerSender u m"
proof -
  have unapproved: "isApprovedPeerSender u (recordAuthenticatedSeen now e m) = isApprovedPeerSender u m"
    by (simp add: recordAuthenticatedSeen_def Let_def seen_unapproved)
  have live: "\<exists>e. learnInboundPeer d rq = (Recorded, Some e) \<and> se_public_key e = key
        \<and> (spiffeUriToPeerId (ld_expected d) = Some (lq_peer_id rq) \<longrightarrow> length (ms_seen m) < AUTH_SEEN_MAX \<longrightarrow>
           filter (verified_as (lq_peer_id rq)) (mesh_values m) = [] \<longrightarrow>
             resolvePeerPublicKey now (ld_expected d) (recordAuthenticatedSeen now e m) = Some key)"
    if "lq_sender rq = ld_expected d" "\<not> ld_already_resolvable d" "ld_rate_ok d"
      "fetch_plan d (lq_remote_address rq) = Some (address, fetch)"
      "ep = ''https://'' @ hostForUrl address @ '':'' @ int_text (int (ld_port d))"
      "k < max 1 (ld_max_attempts d)" "fetch ep (1 + k) = Some (Some (Some (ld_expected d), Some key))"
      "\<forall>j < k. fetch ep (1 + j) = None" "key \<noteq> []"
  proof -
    let ?e = "\<lparr>se_peer_id = lq_peer_id rq, se_public_key = key, se_spiffe_uri = ld_expected d,
      se_cert_fingerprint = lq_fingerprint rq, se_endpoint = ep, se_last_seen = 0\<rparr>"
    have "fst (fetch_attempts (fetch ep) (ld_backoff d) 1 (max 1 (ld_max_attempts d))) = Some (Some (Some (ld_expected d), Some key))"
      unfolding first_fetch using that(6-8) by blast
    then have "learnInboundPeer d rq = (Recorded, Some ?e)" using that by (simp add: learnInboundPeer_def Let_def)
    then show ?thesis using recorded_resolves [of ?e m now] by auto
  qed
  have safe: "res = Recorded \<and> lq_sender rq = ld_expected d \<and> \<not> ld_already_resolvable d \<and> ld_rate_ok d
      \<and> se_peer_id e = lq_peer_id rq \<and> se_spiffe_uri e = ld_expected d \<and> se_public_key e \<noteq> []
      \<and> (\<exists>address fetch attempt. attempt \<in> {1..max 1 (ld_max_attempts d)}
           \<and> fetch (se_endpoint e) attempt = Some (Some (Some (ld_expected d), Some (se_public_key e)))
           \<and> (if lq_remote_address rq \<noteq> [] then address = lq_remote_address rq \<and> fetch = ld_fetch d
              else ld_fallback d = Some address \<and> (\<exists>pinned. ld_fetch_pinned d = Some pinned \<and> fetch = (\<lambda>ep. pinned ep (ld_expected d)))
                   \<and> (case ld_fallback_allowed d of None \<Rightarrow> True | Some ok \<Rightarrow> ok address)))"
    if learned: "learnInboundPeer d rq = (res, Some e)"
  proof -
    obtain address fetch where plan: "fetch_plan d (lq_remote_address rq) = Some (address, fetch)"
      using learned by (auto simp: learnInboundPeer_def Let_def split: if_splits option.splits prod.splits)
    let ?ep = "''https://'' @ hostForUrl address @ '':'' @ int_text (int (ld_port d))"
    have got: "fst (fetch_attempts (fetch ?ep) (ld_backoff d) 1 (max 1 (ld_max_attempts d)))
        = Some (Some (Some (ld_expected d), Some (se_public_key e)))"
      and fields: "res = Recorded \<and> lq_sender rq = ld_expected d \<and> \<not> ld_already_resolvable d \<and> ld_rate_ok d
        \<and> se_peer_id e = lq_peer_id rq \<and> se_spiffe_uri e = ld_expected d \<and> se_public_key e \<noteq> [] \<and> se_endpoint e = ?ep"
      using learned plan by (auto simp: learnInboundPeer_def Let_def split: if_splits option.splits)
    obtain k where k: "k < max 1 (ld_max_attempts d)" "fetch ?ep (1 + k) = Some (Some (Some (ld_expected d), Some (se_public_key e)))"
      using got unfolding first_fetch by blast
    have "1 + k \<in> {1..max 1 (ld_max_attempts d)}" using k(1) by auto
    moreover have "if lq_remote_address rq \<noteq> [] then address = lq_remote_address rq \<and> fetch = ld_fetch d
              else ld_fallback d = Some address \<and> (\<exists>pinned. ld_fetch_pinned d = Some pinned \<and> fetch = (\<lambda>ep. pinned ep (ld_expected d)))
                   \<and> (case ld_fallback_allowed d of None \<Rightarrow> True | Some ok \<Rightarrow> ok address)"
      using plan by (auto simp: fetch_plan_def truthy_eq_Some split: if_splits option.splits)
    ultimately show ?thesis using fields k(2) by metis
  qed
  show ?thesis using safe live unapproved by blast
qed

definition demo_learn :: learn_deps where
  "demo_learn = \<lparr>ld_expected = ''spiffe://thinklocal/node/a'', ld_already_resolvable = False, ld_rate_ok = True, ld_port = 9440,
     ld_fetch = \<lambda>ep attempt. if attempt = 1 then None else Some (Some (Some ''spiffe://thinklocal/node/a'', Some ''PEM'')),
     ld_fetch_pinned = None, ld_fallback = None, ld_fallback_allowed = None, ld_max_attempts = 3, ld_backoff = [500, 1500, 4000]\<rparr>"

definition demo_request :: learn_request where
  "demo_request = \<lparr>lq_peer_id = ''a'', lq_sender = ''spiffe://thinklocal/node/a'', lq_remote_address = ''10.0.0.7'', lq_fingerprint = ''FP''\<rparr>"

text \<open>The first attempt throws, the second brings the card.\<close>

theorem inbound_learning_witness:
  "\<exists>e. learnInboundPeer demo_learn demo_request = (Recorded, Some e) \<and> se_public_key e = ''PEM'' \<and> se_peer_id e = ''a''
     \<and> resolvePeerPublicKey 9 ''spiffe://thinklocal/node/a'' (recordAuthenticatedSeen 9 e (new_MeshManager 3)) = Some ''PEM''
     \<and> \<not> isApprovedPeerSender ''spiffe://thinklocal/node/a'' (recordAuthenticatedSeen 9 e (new_MeshManager 3))"
proof -
  let ?ep = "''https://'' @ hostForUrl ''10.0.0.7'' @ '':'' @ int_text (int (ld_port demo_learn))"
  have plan: "fetch_plan demo_learn (lq_remote_address demo_request) = Some (''10.0.0.7'', ld_fetch demo_learn)"
    by (simp add: fetch_plan_def demo_request_def)
  have facts: "lq_sender demo_request = ld_expected demo_learn" "\<not> ld_already_resolvable demo_learn" "ld_rate_ok demo_learn"
      "1 < max 1 (ld_max_attempts demo_learn)" "ld_fetch demo_learn ?ep (1 + 1) = Some (Some (Some (ld_expected demo_learn), Some ''PEM''))"
      "\<forall>j < (1::nat). ld_fetch demo_learn ?ep (1 + j) = None" "''PEM'' \<noteq> []"
    by (simp_all add: demo_learn_def demo_request_def)
  have empty: "filter P (mesh_values (new_MeshManager 3)) = []" "ms_seen (new_MeshManager 3) = []" for P
    by (simp_all add: mesh_values_def new_MeshManager_def)
  have id: "spiffeUriToPeerId (ld_expected demo_learn) = Some (lq_peer_id demo_request)"
    by (simp add: demo_learn_def demo_request_def demo_id_a)
  have room: "length (ms_seen (new_MeshManager 3)) < AUTH_SEEN_MAX" by (simp add: empty AUTH_SEEN_MAX_def)
  obtain e where e: "learnInboundPeer demo_learn demo_request = (Recorded, Some e)" "se_public_key e = ''PEM''"
      "resolvePeerPublicKey 9 (ld_expected demo_learn) (recordAuthenticatedSeen 9 e (new_MeshManager 3)) = Some ''PEM''"
    using inbound_learning [of demo_learn demo_request _ _ "''10.0.0.7''" "ld_fetch demo_learn" ?ep 1 "''PEM''" "new_MeshManager 3" 9]
      facts plan id room empty(1) by blast
  have "se_peer_id e = ''a''" using inbound_learning [of demo_learn demo_request Recorded e] e(1) by (simp add: demo_request_def)
  moreover have "\<not> isApprovedPeerSender ''spiffe://thinklocal/node/a'' (recordAuthenticatedSeen 9 e (new_MeshManager 3))"
  proof -
    have "\<not> isApprovedPeerSender ''spiffe://thinklocal/node/a'' (new_MeshManager 3)"
      by (simp add: isApprovedPeerSender_def demo_id_a empty)
    then show ?thesis using inbound_learning by blast
  qed
  ultimately show ?thesis using e by (simp add: demo_learn_def)
qed

end
