(* ===== verification/Vault.thy ===== *)
theory Vault
  imports Message_Endpoint
begin

text \<open>
  The credential vault (\<open>vault.ts\<close>) and its use by a secret request (the \<open>SECRET_REQUEST\<close> case of the message handler
  in \<open>index.ts\<close>). The cipher, the sealed boxes, base64 and UTF-8 are arguments; a decryption or decoding that throws is
  \<open>None\<close>. The tags are kept as the list that is serialised. SQLite's \<open>datetime('now')\<close> writes a blank where the ISO text
  has a \<open>T\<close>, and a blank sorts before it: an ISO text sorts before it exactly when its day is an earlier one.
\<close>

section \<open>State\<close>

record credential =
  cr_id :: string
  cr_name :: string
  cr_category :: string
  cr_tags :: "string list"
  cr_encrypted_value :: string
  cr_nonce :: string
  cr_expires_at :: "time option"
  cr_created_at :: time
  cr_last_accessed_at :: "time option"
  cr_access_count :: nat

datatype request_status = RequestPending | RequestApproved | RequestDenied

record secret_approval =
  sa_id :: string
  sa_requester :: string
  sa_credential_name :: string
  sa_reason :: string
  sa_status :: request_status
  sa_requested_at :: time
  sa_decided_at :: "time option"

record vault =
  vt_credentials :: "credential list"
  vt_revoked :: "(string \<times> time \<times> string) list"
  vt_requests :: "secret_approval list"

definition new_vault :: vault where
  "new_vault = \<lparr>vt_credentials = [], vt_revoked = [], vt_requests = []\<rparr>"

text \<open>AES-256-GCM under the vault key gives data and tag in base64; the boxes use this vault's secret key.\<close>

record vault_env =
  ve_encrypt :: "string \<Rightarrow> string \<Rightarrow> string \<times> string"
  ve_decrypt :: "string \<Rightarrow> string \<Rightarrow> string \<Rightarrow> string option"
  ve_box :: "bytes \<Rightarrow> bytes \<Rightarrow> bytes \<Rightarrow> bytes"
  ve_box_open :: "bytes \<Rightarrow> bytes \<Rightarrow> bytes \<Rightarrow> bytes option"
  ve_to_base64 :: "bytes \<Rightarrow> string"
  ve_from_base64 :: "string \<Rightarrow> bytes option"
  ve_to_utf8 :: "string \<Rightarrow> bytes"
  ve_from_utf8 :: "bytes \<Rightarrow> string"

section \<open>Encryption at rest\<close>

definition encrypt_value :: "vault_env \<Rightarrow> string \<Rightarrow> string \<Rightarrow> string" where
  "encrypt_value env nonce plaintext =
     (case ve_encrypt env nonce plaintext of (data, tag) \<Rightarrow> data @ ''.'' @ tag)"

definition decrypt_value :: "vault_env \<Rightarrow> string \<Rightarrow> string \<Rightarrow> string option" where
  "decrypt_value env encrypted nonce =
     (case js_split (CHR ''.'') encrypted of
        data # tag # _ \<Rightarrow> ve_decrypt env data nonce tag
      | _ \<Rightarrow> None)"

section \<open>Credentials\<close>

definition sql_before_now :: "time \<Rightarrow> time \<Rightarrow> bool" where
  "sql_before_now t now \<longleftrightarrow> t div 86400000 < now div 86400000"

definition cleanExpired :: "time \<Rightarrow> vault \<Rightarrow> vault" where
  "cleanExpired now v =
     v\<lparr>vt_credentials := t_delete (\<lambda>c. case cr_expires_at c of None \<Rightarrow> False | Some t \<Rightarrow> sql_before_now t now) (vt_credentials v)\<rparr>"

definition find_credential :: "string \<Rightarrow> vault \<Rightarrow> credential option" where
  "find_credential name v = List.find (\<lambda>c. cr_name c = name) (vt_credentials v)"

record store_options =
  so_category :: "string option"
  so_tags :: "string list option"
  so_ttl_hours :: "rat option"

text \<open>A row replaces the rows with its id or its name.\<close>

definition store_credential ::
  "vault_env \<Rightarrow> time \<Rightarrow> string \<Rightarrow> string \<Rightarrow> string \<Rightarrow> string \<Rightarrow> store_options \<Rightarrow> vault \<Rightarrow> credential option \<times> vault" where
  "store_credential env now uuid nonce name value opts v =
     (let expiresAt = (case so_ttl_hours opts of
            None \<Rightarrow> None
          | Some h \<Rightarrow> if h = 0 then None else Some \<lfloor>of_int now + h * 3600000\<rfloor>);
          row = \<lparr>cr_id = uuid, cr_name = name, cr_category = default_to ''general'' (so_category opts),
                 cr_tags = default_to [] (so_tags opts), cr_encrypted_value = encrypt_value env nonce value, cr_nonce = nonce,
                 cr_expires_at = expiresAt, cr_created_at = now, cr_last_accessed_at = None, cr_access_count = 0\<rparr>;
          v' = v\<lparr>vt_credentials := t_delete (\<lambda>c. cr_id c = uuid \<or> cr_name c = name) (vt_credentials v) @ [row]\<rparr>
      in (find_credential name v', v'))"

record credential_value =
  cv_row :: credential
  cv_value :: string

text \<open>The outer \<open>None\<close>: decryption throws, after the access was counted.\<close>

definition retrieve :: "vault_env \<Rightarrow> time \<Rightarrow> string \<Rightarrow> vault \<Rightarrow> credential_value option option \<times> vault" where
  "retrieve env now name v0 =
     (let v = cleanExpired now v0 in
      case find_credential name v of
        None \<Rightarrow> (Some None, v)
      | Some row \<Rightarrow>
          if (case cr_expires_at row of None \<Rightarrow> False | Some t \<Rightarrow> t < now) then (Some None, v)
          else
            let touch = (\<lambda>c. c\<lparr>cr_last_accessed_at := Some now, cr_access_count := Suc (cr_access_count c)\<rparr>);
                v' = v\<lparr>vt_credentials := t_update (\<lambda>c. cr_name c = name) touch (vt_credentials v)\<rparr>
            in (map_option (\<lambda>x. Some \<lparr>cv_row = touch row, cv_value = x\<rparr>) (decrypt_value env (cr_encrypted_value row) (cr_nonce row)), v'))"

definition remove_credential :: "string \<Rightarrow> vault \<Rightarrow> bool \<times> vault" where
  "remove_credential name v =
     (0 < t_changes (\<lambda>c. cr_name c = name) (vt_credentials v),
      v\<lparr>vt_credentials := t_delete (\<lambda>c. cr_name c = name) (vt_credentials v)\<rparr>)"

definition list_credentials :: "time \<Rightarrow> string option \<Rightarrow> vault \<Rightarrow> credential list \<times> vault" where
  "list_credentials now category v0 =
     (let v = cleanExpired now v0 in
      (sort_key (\<lambda>c. - cr_created_at c)
         (filter (\<lambda>c. case category of Some (x # xs) \<Rightarrow> cr_category c = x # xs | _ \<Rightarrow> True) (vt_credentials v)), v))"

section \<open>Sealed boxes\<close>

definition NONCE_LENGTH :: nat where "NONCE_LENGTH = 24"

definition sealForPeer :: "vault_env \<Rightarrow> bytes \<Rightarrow> string \<Rightarrow> string \<Rightarrow> string option" where
  "sealForPeer env nonce value peerPublicKeyBase64 =
     map_option (\<lambda>peerKey. ve_to_base64 env (nonce @ ve_box env (ve_to_utf8 env value) nonce peerKey))
       (ve_from_base64 env peerPublicKeyBase64)"

text \<open>The outer \<open>None\<close>: decoding throws. The inner: the box does not open.\<close>

definition unsealFromPeer :: "vault_env \<Rightarrow> string \<Rightarrow> string \<Rightarrow> string option option" where
  "unsealFromPeer env sealed peerPublicKeyBase64 =
     (case (ve_from_base64 env peerPublicKeyBase64, ve_from_base64 env sealed) of
        (Some peerKey, Some combined) \<Rightarrow>
          Some (map_option (ve_from_utf8 env) (ve_box_open env (drop NONCE_LENGTH combined) (take NONCE_LENGTH combined) peerKey))
      | _ \<Rightarrow> None)"

section \<open>Approval requests\<close>

text \<open>A duplicate id throws.\<close>

definition createApprovalRequest ::
  "time \<Rightarrow> string \<Rightarrow> string \<Rightarrow> string \<Rightarrow> string \<Rightarrow> vault \<Rightarrow> secret_approval option \<times> vault" where
  "createApprovalRequest now rid requester credentialName reason v =
     (let r = \<lparr>sa_id = rid, sa_requester = requester, sa_credential_name = credentialName, sa_reason = reason,
               sa_status = RequestPending, sa_requested_at = now, sa_decided_at = None\<rparr>
      in if rid \<in> sa_id ` set (vt_requests v) then (None, v) else (Some r, v\<lparr>vt_requests := vt_requests v @ [r]\<rparr>))"

definition decide_request :: "request_status \<Rightarrow> time \<Rightarrow> string \<Rightarrow> vault \<Rightarrow> bool \<times> vault" where
  "decide_request status now rid v =
     (let p = (\<lambda>r. sa_id r = rid \<and> sa_status r = RequestPending) in
      (0 < t_changes p (vt_requests v),
       v\<lparr>vt_requests := t_update p (\<lambda>r. r\<lparr>sa_status := status, sa_decided_at := Some now\<rparr>) (vt_requests v)\<rparr>))"

definition approveRequest :: "time \<Rightarrow> string \<Rightarrow> vault \<Rightarrow> bool \<times> vault" where
  "approveRequest now rid v = decide_request RequestApproved now rid v"

definition denyRequest :: "time \<Rightarrow> string \<Rightarrow> vault \<Rightarrow> bool \<times> vault" where
  "denyRequest now rid v = decide_request RequestDenied now rid v"

definition getPendingRequests :: "vault \<Rightarrow> secret_approval list" where
  "getPendingRequests v = sort_key (\<lambda>r. - sa_requested_at r) (filter (\<lambda>r. sa_status r = RequestPending) (vt_requests v))"

definition get_request :: "string \<Rightarrow> vault \<Rightarrow> secret_approval option" where
  "get_request rid v = List.find (\<lambda>r. sa_id r = rid) (vt_requests v)"

section \<open>Revocation and brokered access\<close>

definition isRevoked :: "string \<Rightarrow> vault \<Rightarrow> bool" where
  "isRevoked name v \<longleftrightarrow> list_ex (\<lambda>(n, _). n = name) (vt_revoked v)"

definition revoke_credential :: "time \<Rightarrow> string \<Rightarrow> string option \<Rightarrow> vault \<Rightarrow> bool \<times> vault" where
  "revoke_credential now name reason v =
     (if find_credential name v = None then (False, v)
      else (True, v\<lparr>vt_revoked := (if isRevoked name v then vt_revoked v
                                  else vt_revoked v @ [(name, now, default_to ''manually revoked'' reason)]),
                    vt_credentials := t_delete (\<lambda>c. cr_name c = name) (vt_credentials v)\<rparr>))"

definition listRevoked :: "vault \<Rightarrow> (string \<times> time \<times> string) list" where
  "listRevoked v = sort_key (\<lambda>(_, t, _). - t) (vt_revoked v)"

datatype 'r brokered = BrokeredOk 'r | CredentialNotFound | CredentialRevoked | ActionFailed string

text \<open>The action gives \<open>Inl\<close> when it throws; the whole call throws when decryption does.\<close>

definition executeBrokered ::
  "vault_env \<Rightarrow> time \<Rightarrow> string \<Rightarrow> (string \<Rightarrow> string + 'r) \<Rightarrow> vault \<Rightarrow> 'r brokered option \<times> vault" where
  "executeBrokered env now credentialName act v =
     (case retrieve env now credentialName v of
        (None, v') \<Rightarrow> (None, v')
      | (Some None, v') \<Rightarrow> (Some CredentialNotFound, v')
      | (Some (Some cred), v') \<Rightarrow>
          (Some (if isRevoked credentialName v' then CredentialRevoked
                 else case act (cv_value cred) of Inl e \<Rightarrow> ActionFailed e | Inr r \<Rightarrow> BrokeredOk r), v'))"

section \<open>A secret request from a peer\<close>

text \<open>\<open>None\<close>: a duplicate id, a failing decryption or an unreadable key of the requester makes the handler throw.\<close>

definition answer_secret_request ::
  "vault_env \<Rightarrow> time \<Rightarrow> string \<Rightarrow> bytes \<Rightarrow> string \<Rightarrow> bool \<Rightarrow> secret_request \<Rightarrow> vault \<Rightarrow>
   (daemon_reply \<times> daemon_effect list) option \<times> vault" where
  "answer_secret_request env now rid boxNonce sender senderIsPaired rq v0 =
     (case createApprovalRequest now rid sender (sr_credential_name rq) (sr_reason rq) v0 of
        (None, v1) \<Rightarrow> (None, v1)
      | (Some approval, v1) \<Rightarrow>
          (case retrieve env now (sr_credential_name rq) v1 of
             (None, v2) \<Rightarrow> (None, v2)
           | (Some None, v2) \<Rightarrow> (Some (SecretReply (sr_credential_name rq) SecretDenied, [SecretAsked sender rq]), v2)
           | (Some (Some cred), v2) \<Rightarrow>
               if senderIsPaired then
                 let v3 = snd (approveRequest now (sa_id approval) v2) in
                 (map_option (\<lambda>sealed. (SecretReply (sr_credential_name rq) (SecretSealed sealed),
                                        [SecretAsked sender rq, SecretApproved sender (sr_credential_name rq)]))
                    (sealForPeer env boxNonce (cv_value cred) (sr_requester_public_key rq)), v3)
               else (Some (SecretReply (sr_credential_name rq) SecretPending, [SecretAsked sender rq]), v2)))"


section \<open>Lemmas\<close>

definition vault_inv :: "vault \<Rightarrow> bool" where
  "vault_inv v \<longleftrightarrow> t_unique cr_name (vt_credentials v) \<and> t_unique cr_id (vt_credentials v) \<and> t_unique sa_id (vt_requests v)"

definition expired_at :: "time \<Rightarrow> credential \<Rightarrow> bool" where
  "expired_at now c \<longleftrightarrow> (case cr_expires_at c of None \<Rightarrow> False | Some t \<Rightarrow> t < now)"

lemma sql_before_now_less: "sql_before_now t now \<Longrightarrow> t < now"
  unfolding sql_before_now_def by (rule ccontr) (use zdiv_mono1 [of now t 86400000] in simp)

lemma cleaned_credential:
  assumes "vault_inv v"
  shows "find_credential name (cleanExpired now v) =
    (case find_credential name v of None \<Rightarrow> None
     | Some c \<Rightarrow> if (case cr_expires_at c of None \<Rightarrow> False | Some t \<Rightarrow> sql_before_now t now) then None else Some c)"
  using assms by (simp add: find_credential_def cleanExpired_def find_key_delete vault_inv_def)

lemma cleaned_fields [simp]:
  "vt_revoked (cleanExpired now v) = vt_revoked v" "vt_requests (cleanExpired now v) = vt_requests v"
  by (simp_all add: cleanExpired_def)

text \<open>What a retrieval returns, as one test on the stored row.\<close>

lemma retrieve_result:
  assumes "vault_inv v"
  shows "fst (retrieve env now name v) =
    (case find_credential name v of
       None \<Rightarrow> Some None
     | Some c \<Rightarrow> if expired_at now c then Some None
                else map_option (\<lambda>x. Some \<lparr>cv_row = c\<lparr>cr_last_accessed_at := Some now, cr_access_count := Suc (cr_access_count c)\<rparr>, cv_value = x\<rparr>)
                       (decrypt_value env (cr_encrypted_value c) (cr_nonce c)))"
  using sql_before_now_less
  by (auto simp: retrieve_def Let_def cleaned_credential [OF assms] expired_at_def split: option.split)

lemma retrieve_find:
  assumes "vault_inv v"
  shows "find_credential k (snd (retrieve env now name v)) = None \<longleftrightarrow> find_credential k (cleanExpired now v) = None"
proof -
  have "find_credential k (w\<lparr>vt_credentials := t_update p (\<lambda>c. c\<lparr>cr_last_accessed_at := Some now, cr_access_count := Suc (cr_access_count c)\<rparr>)
      (vt_credentials w)\<rparr>) = None \<longleftrightarrow> find_credential k w = None" for w p
    by (simp add: find_credential_def find_key_update)
  then show ?thesis by (auto simp: retrieve_def Let_def split: option.split)
qed

lemma retrieve_fields [simp]:
  "vt_revoked (snd (retrieve env now name v)) = vt_revoked v" "vt_requests (snd (retrieve env now name v)) = vt_requests v"
  by (auto simp: retrieve_def Let_def split: option.split)

lemma retrieve_inv:
  assumes "vault_inv v" shows "vault_inv (snd (retrieve env now name v))"
proof -
  have "vault_inv (cleanExpired now v)" using assms by (simp add: vault_inv_def cleanExpired_def t_unique_delete)
  then show ?thesis by (auto simp: retrieve_def Let_def vault_inv_def t_unique_update split: option.split)
qed

section \<open>Runs\<close>

datatype vault_op =
    StoreOp string string string string store_options
  | RetrieveOp string
  | RemoveOp string
  | ListOp "string option"
  | RequestOp string string string string
  | ApproveOp string
  | DenyOp string
  | RevokeOp string "string option"
  | BrokerOp string "string \<Rightarrow> string + json"
  | SecretOp string bytes string bool secret_request

fun vault_step :: "vault_env \<Rightarrow> vault_op \<times> time \<Rightarrow> vault \<Rightarrow> vault" where
  "vault_step env (StoreOp uuid nonce name value opts, now) v = snd (store_credential env now uuid nonce name value opts v)"
| "vault_step env (RetrieveOp name, now) v = snd (retrieve env now name v)"
| "vault_step env (RemoveOp name, now) v = snd (remove_credential name v)"
| "vault_step env (ListOp category, now) v = snd (list_credentials now category v)"
| "vault_step env (RequestOp rid requester name reason, now) v = snd (createApprovalRequest now rid requester name reason v)"
| "vault_step env (ApproveOp rid, now) v = snd (approveRequest now rid v)"
| "vault_step env (DenyOp rid, now) v = snd (denyRequest now rid v)"
| "vault_step env (RevokeOp name reason, now) v = snd (revoke_credential now name reason v)"
| "vault_step env (BrokerOp name act, now) v = snd (executeBrokered env now name act v)"
| "vault_step env (SecretOp rid boxNonce sender paired rq, now) v = snd (answer_secret_request env now rid boxNonce sender paired rq v)"

abbreviation vault_run :: "vault_env \<Rightarrow> (vault_op \<times> time) list \<Rightarrow> vault \<Rightarrow> vault" where
  "vault_run env ops v \<equiv> fold (vault_step env) ops v"

lemma broker_state: "snd (executeBrokered env now name act v) = snd (retrieve env now name v)"
  by (auto simp: executeBrokered_def split: prod.split option.split)

lemma request_fields:
  "vt_credentials (snd (createApprovalRequest now rid a b c v)) = vt_credentials v"
  "vt_revoked (snd (createApprovalRequest now rid a b c v)) = vt_revoked v"
  "vt_credentials (snd (decide_request st now rid v)) = vt_credentials v"
  "vt_revoked (snd (decide_request st now rid v)) = vt_revoked v"
  by (simp_all add: createApprovalRequest_def Let_def decide_request_def)

lemma request_inv:
  "vault_inv v \<Longrightarrow> vault_inv (snd (createApprovalRequest now rid a b c v))"
  "vault_inv v \<Longrightarrow> vault_inv (snd (decide_request st now rid v))"
  by (auto simp: vault_inv_def createApprovalRequest_def Let_def decide_request_def t_unique_append1 t_unique_update)

lemma removal_inv:
  assumes "vault_inv v"
  shows "vault_inv (snd (remove_credential name v))" "vault_inv (snd (revoke_credential now name reason v))"
    "vault_inv (snd (list_credentials now category v))"
  using assms
  by (simp_all add: vault_inv_def remove_credential_def revoke_credential_def list_credentials_def Let_def cleanExpired_def t_unique_delete)

text \<open>A secret request is a request, a retrieval and, at most, an approval of that request.\<close>

lemma secret_state:
  obtains (created) "snd (answer_secret_request env now rid bn sender paired rq v)
      = snd (createApprovalRequest now rid sender (sr_credential_name rq) (sr_reason rq) v)"
  | (asked) "snd (answer_secret_request env now rid bn sender paired rq v)
      = snd (retrieve env now (sr_credential_name rq) (snd (createApprovalRequest now rid sender (sr_credential_name rq) (sr_reason rq) v)))"
  | (approved) "snd (answer_secret_request env now rid bn sender paired rq v)
      = snd (decide_request RequestApproved now rid (snd (retrieve env now (sr_credential_name rq)
          (snd (createApprovalRequest now rid sender (sr_credential_name rq) (sr_reason rq) v)))))"
proof -
  obtain r v1 where c: "createApprovalRequest now rid sender (sr_credential_name rq) (sr_reason rq) v = (r, v1)" by fastforce
  show thesis
  proof (cases r)
    case None
    then show thesis using created c by (simp add: answer_secret_request_def)
  next
    case (Some a)
    then have a: "sa_id a = rid" using c by (auto simp: createApprovalRequest_def Let_def split: if_splits)
    obtain res v2 where ret: "retrieve env now (sr_credential_name rq) v1 = (res, v2)" by fastforce
    show thesis
    proof (cases "paired \<and> (\<exists>cred. res = Some (Some cred))")
      case True
      then show thesis using approved c Some a ret by (auto simp: answer_secret_request_def Let_def approveRequest_def)
    next
      case False
      then show thesis using asked c Some ret by (auto simp: answer_secret_request_def split: option.splits)
    qed
  qed
qed

lemma vault_step_inv:
  assumes "vault_inv v" shows "vault_inv (vault_step env op v)"
proof (cases op)
  case (Pair o1 now)
  show ?thesis
  proof (cases o1)
    case (SecretOp rid bn sender paired rq)
    then show ?thesis
      using assms Pair request_inv retrieve_inv
      by (cases rule: secret_state [of env now rid bn sender paired rq v]) auto
  next
    case (StoreOp uuid nonce name plain opts)
    then show ?thesis using assms Pair
      by (auto simp: store_credential_def Let_def vault_inv_def t_unique_append1 t_unique_delete) (auto simp: t_delete_def)
  qed (use assms Pair in \<open>simp_all add: retrieve_inv broker_state request_inv approveRequest_def denyRequest_def removal_inv\<close>)
qed


lemma vault_run_inv: "vault_inv v \<Longrightarrow> vault_inv (vault_run env ops v)"
  by (induction ops arbitrary: v) (simp_all add: vault_step_inv)

text \<open>Only a store makes a missing credential appear; a revocation is never taken back.\<close>

definition stores :: "string \<Rightarrow> vault_op \<times> time \<Rightarrow> bool" where
  "stores name op \<longleftrightarrow> (case fst op of StoreOp _ _ n _ _ \<Rightarrow> n = name | _ \<Rightarrow> False)"

lemma find_credential_delete:
  "find_credential k v = None \<Longrightarrow> find_credential k (v\<lparr>vt_credentials := t_delete p (vt_credentials v)\<rparr>) = None"
  by (auto simp: find_credential_def find_None_iff t_delete_def)

lemma find_credential_cong: "vt_credentials v = vt_credentials w \<Longrightarrow> find_credential k v = find_credential k w"
  by (simp add: find_credential_def)

lemma missing_step:
  assumes "vault_inv v" "find_credential name v = None" "\<not> stores name op"
  shows "find_credential name (vault_step env op v) = None"
proof -
  have clean: "find_credential name (cleanExpired now w) = None" if "find_credential name w = None" for w now
    using find_credential_delete [OF that] by (simp add: cleanExpired_def)
  have req: "find_credential name (snd (createApprovalRequest now rid a b c w)) = find_credential name w"
    "find_credential name (snd (decide_request st now rid w)) = find_credential name w" for now rid a b c w st
    by (rule find_credential_cong, simp add: request_fields)+
  have ret: "find_credential name (snd (retrieve env now n w)) = None" if "vault_inv w" "find_credential name w = None" for now n w
    using that clean retrieve_find by blast
  obtain o1 now where op: "op = (o1, now)" by fastforce
  show ?thesis
  proof (cases o1)
    case (SecretOp rid bn sender paired rq)
    have "vault_inv (snd (createApprovalRequest now rid sender (sr_credential_name rq) (sr_reason rq) v))"
      by (rule request_inv(1) [OF assms(1)])
    then show ?thesis
      using assms(2) op SecretOp req ret by (cases rule: secret_state [of env now rid bn sender paired rq v]) auto
  next
    case (StoreOp uuid nonce n plain opts)
    then show ?thesis using assms op
      by (auto simp: store_credential_def Let_def stores_def find_credential_def find_None_iff t_delete_def)
  next
    case (RemoveOp n)
    then show ?thesis using op find_credential_delete [OF assms(2)] by (simp add: remove_credential_def)
  next
    case (RevokeOp n why)
    then show ?thesis using op assms(2)
      by (auto simp: revoke_credential_def find_credential_def find_None_iff t_delete_def)
  qed (use assms op clean ret req in \<open>simp_all add: list_credentials_def Let_def broker_state approveRequest_def denyRequest_def\<close>)
qed

lemma missing_run:
  "vault_inv v \<Longrightarrow> find_credential name v = None \<Longrightarrow> list_all (\<lambda>op. \<not> stores name op) ops \<Longrightarrow>
   find_credential name (vault_run env ops v) = None"
  by (induction ops arbitrary: v) (simp_all add: missing_step vault_step_inv)

lemma revoked_step: "isRevoked name v \<Longrightarrow> isRevoked name (vault_step env op v)"
proof -
  assume A: "isRevoked name v"
  have same: "vt_revoked w = vt_revoked v \<Longrightarrow> isRevoked name w" for w using A by (simp add: isRevoked_def)
  obtain o1 now where op: "op = (o1, now)" by fastforce
  show ?thesis
  proof (cases o1)
    case (SecretOp rid bn sender paired rq)
    then show ?thesis
      using op same request_fields by (cases rule: secret_state [of env now rid bn sender paired rq v]) auto
  next
    case (RevokeOp n why)
    then show ?thesis using op A by (auto simp: revoke_credential_def isRevoked_def)
  qed (use op in \<open>auto intro!: same simp: store_credential_def Let_def remove_credential_def list_credentials_def request_fields
      approveRequest_def denyRequest_def broker_state\<close>)
qed

lemma revoked_run: "isRevoked name v \<Longrightarrow> isRevoked name (vault_run env ops v)"
  by (induction ops arbitrary: v) (simp_all add: revoked_step)


section \<open>Requests are decided once\<close>

definition request_edge :: "secret_approval \<Rightarrow> secret_approval \<Rightarrow> bool" where
  "request_edge a b \<longleftrightarrow> sa_status a = RequestPending \<and> sa_status b \<noteq> RequestPending \<and> sa_decided_at b \<noteq> None
     \<and> b = a\<lparr>sa_status := sa_status b, sa_decided_at := sa_decided_at b\<rparr>"

definition request_initial :: "secret_approval \<Rightarrow> bool" where
  "request_initial r \<longleftrightarrow> sa_status r = RequestPending \<and> sa_decided_at r = None \<or> sa_status r = RequestApproved"

lemma request_look_created:
  "get_request k (snd (createApprovalRequest now rid a b c v)) =
     (case get_request k v of Some r \<Rightarrow> Some r
      | None \<Rightarrow> if k = rid then Some \<lparr>sa_id = rid, sa_requester = a, sa_credential_name = b, sa_reason = c,
                 sa_status = RequestPending, sa_requested_at = now, sa_decided_at = None\<rparr> else None)"
proof (cases "rid \<in> sa_id ` set (vt_requests v)")
  case True
  then have "get_request rid v \<noteq> None" by (metis find_None_key get_request_def)
  with True show ?thesis by (auto simp: createApprovalRequest_def Let_def split: option.split)
next
  case False
  then have "get_request rid v = None" by (metis find_None_key get_request_def)
  with False show ?thesis
    by (auto simp: createApprovalRequest_def Let_def get_request_def find_key_append split: option.split)
qed

lemma request_look_decided:
  "get_request k (snd (decide_request st now rid v)) =
     map_option (\<lambda>r. if k = rid \<and> sa_status r = RequestPending then r\<lparr>sa_status := st, sa_decided_at := Some now\<rparr> else r) (get_request k v)"
  by (cases "get_request k v") (auto simp: decide_request_def Let_def get_request_def find_key_update dest: find_SomeD)

lemma request_look_other:
  assumes "vt_requests w = vt_requests v" shows "get_request k w = get_request k v"
  using assms by (simp add: get_request_def)

lemma request_step_look:
  "(case get_request k v of
      Some a \<Rightarrow> (\<exists>b. get_request k (vault_step env op v) = Some b \<and> (b = a \<or> request_edge a b))
    | None \<Rightarrow> (case get_request k (vault_step env op v) of None \<Rightarrow> True | Some b \<Rightarrow> request_initial b))"
proof -
  have decided: "get_request k (snd (decide_request st now rid w)) = Some (if k = rid \<and> sa_status a = RequestPending
      then a\<lparr>sa_status := st, sa_decided_at := Some now\<rparr> else a)" if "get_request k w = Some a" for st now rid w a
    using that by (simp add: request_look_decided)
  have edge: "request_edge a (a\<lparr>sa_status := st, sa_decided_at := Some now\<rparr>)" if "sa_status a = RequestPending" "st \<noteq> RequestPending" for a st now
    using that by (simp add: request_edge_def)
  have ret: "get_request k (snd (retrieve env now n w)) = get_request k w" for now n w
    by (rule request_look_other) simp
  obtain o1 now where op: "op = (o1, now)" by fastforce
  show ?thesis
  proof (cases o1)
    case (SecretOp rid bn sender paired rq)
    then show ?thesis using op
      by (cases rule: secret_state [of env now rid bn sender paired rq v])
         (auto simp: ret request_look_created request_look_decided request_initial_def intro!: edge split: option.split)
  next
    case (RequestOp rid a b c)
    then show ?thesis using op by (auto simp: request_look_created request_initial_def split: option.split)
  next
    case (ApproveOp rid)
    then show ?thesis using op by (auto simp: approveRequest_def request_look_decided intro: edge split: option.split)
  next
    case (DenyOp rid)
    then show ?thesis using op by (auto simp: denyRequest_def request_look_decided intro: edge split: option.split)
  next
    case (RevokeOp n why)
    then have "get_request k (vault_step env op v) = get_request k v"
      using op by (auto simp: revoke_credential_def intro: request_look_other)
    then show ?thesis by (auto simp: request_initial_def split: option.split)
  next
    case (StoreOp uuid nonce n plain opts)
    then have "get_request k (vault_step env op v) = get_request k v"
      using op by (auto simp: store_credential_def Let_def intro: request_look_other)
    then show ?thesis by (simp split: option.split)
  next
    case (RemoveOp n)
    then have "get_request k (vault_step env op v) = get_request k v"
      using op by (auto simp: remove_credential_def intro: request_look_other)
    then show ?thesis by (simp split: option.split)
  next
    case (ListOp c)
    then have "get_request k (vault_step env op v) = get_request k v"
      using op by (auto simp: list_credentials_def Let_def intro: request_look_other)
    then show ?thesis by (simp split: option.split)
  qed (use op ret in \<open>simp_all add: broker_state split: option.split\<close>)
qed

interpretation vault_requests: lifecycle "\<lambda>s t. \<exists>op. t = vault_step env op s" "\<lambda>v k. get_request k v" request_edge
  request_initial "\<lambda>_. False" "\<lambda>_. True" for env
proof
  show "case get_request k t of None \<Rightarrow> False | Some b \<Rightarrow> b = a \<or> request_edge a b"
    if "\<exists>op. t = vault_step env op s" "get_request k s = Some a" for s t k a
  proof -
    from that obtain op where "t = vault_step env op s" by blast
    then show ?thesis using that(2) request_step_look [where k = k and v = s and op = op and env = env] by auto
  qed
  show "request_initial b" if "\<exists>op. t = vault_step env op s" "get_request k s = None" "get_request k t = Some b" for s t k b
  proof -
    from that obtain op where "t = vault_step env op s" by blast
    then show ?thesis using that(2,3) request_step_look [where k = k and v = s and op = op and env = env] by auto
  qed
qed simp


section \<open>Properties\<close>

definition cipher_ok :: "vault_env \<Rightarrow> string \<Rightarrow> string \<Rightarrow> bool" where
  "cipher_ok env nonce plain \<longleftrightarrow> (case ve_encrypt env nonce plain of (data, tag) \<Rightarrow>
     CHR ''.'' \<notin> set data \<and> CHR ''.'' \<notin> set tag \<and> ve_decrypt env data nonce tag = Some plain)"

lemma decrypt_encrypt: "cipher_ok env nonce plain \<Longrightarrow> decrypt_value env (encrypt_value env nonce plain) nonce = Some plain"
  by (auto simp: cipher_ok_def encrypt_value_def decrypt_value_def js_split_append js_split_single split: prod.splits)

lemma found_after_store:
  assumes "store_credential env now uuid nonce name plain opts v = (meta, v')"
  shows "find_credential name v' = meta \<and> meta \<noteq> None
     \<and> cr_encrypted_value (the meta) = encrypt_value env nonce plain \<and> cr_nonce (the meta) = nonce
     \<and> cr_tags (the meta) = default_to [] (so_tags opts)
     \<and> cr_expires_at (the meta) = (case so_ttl_hours opts of None \<Rightarrow> None | Some h \<Rightarrow> if h = 0 then None else Some \<lfloor>of_int now + h * 3600000\<rfloor>)"
proof -
  have last: "List.find (\<lambda>c. cr_name c = name) (t_delete (\<lambda>c. cr_id c = uuid \<or> cr_name c = name) cs @ [r]) = Some r"
    if "cr_name r = name" for cs r
    using that by (induction cs) (auto simp: t_delete_def)
  define r where "r = \<lparr>cr_id = uuid, cr_name = name, cr_category = default_to ''general'' (so_category opts),
      cr_tags = default_to [] (so_tags opts), cr_encrypted_value = encrypt_value env nonce plain, cr_nonce = nonce,
      cr_expires_at = (case so_ttl_hours opts of None \<Rightarrow> None | Some h \<Rightarrow> if h = 0 then None else Some \<lfloor>of_int now + h * 3600000\<rfloor>),
      cr_created_at = now, cr_last_accessed_at = None, cr_access_count = 0\<rparr>"
  have r: "v' = v\<lparr>vt_credentials := t_delete (\<lambda>c. cr_id c = uuid \<or> cr_name c = name) (vt_credentials v) @ [r]\<rparr>"
    "meta = find_credential name v'"
    using assms by (auto simp: store_credential_def Let_def r_def)
  then have found: "find_credential name v' = Some r" "meta = Some r"
    using last [of r] by (simp_all add: find_credential_def r_def)
  show ?thesis unfolding found by (simp add: r_def)
qed

text \<open>Without a time to live, and with one of 0 hours, no expiry is stored: the credential is retrieved at any later time.\<close>

lemma no_default_ttl:
  assumes "vault_inv v" "store_credential env now uuid nonce name plain opts v = (meta, v')" "cipher_ok env nonce plain"
    and "so_ttl_hours opts = None \<or> so_ttl_hours opts = Some 0"
  shows "cr_expires_at (the meta) = None" "\<exists>cv. fst (retrieve env later name v') = Some (Some cv) \<and> cv_value cv = plain"
proof -
  have inv: "vault_inv v'"
    using vault_step_inv [OF assms(1), of env "(StoreOp uuid nonce name plain opts, now)"] assms(2) by simp
  note row = found_after_store [OF assms(2)]
  show none: "cr_expires_at (the meta) = None" using row assms(4) by auto
  obtain c where c: "meta = Some c" using row by auto
  have "find_credential name v' = Some c" "cr_expires_at c = None" using row none by (simp_all add: c)
  then show "\<exists>cv. fst (retrieve env later name v') = Some (Some cv) \<and> cv_value cv = plain"
    using row decrypt_encrypt [OF assms(3)] by (simp add: retrieve_result [OF inv] c expired_at_def)
qed

text \<open>C25. Secrets round-trip: a stored credential is retrieved with its value and tags until its time to live is over (for ever
  when it has none or a time to live of 0 hours), and not afterwards; what one vault seals for a peer that peer's vault
  unseals to the same text, given that the ciphers and encodings invert each other. (The header of \<open>vault.ts\<close> promises a
  default time to live of 24 hours, and a comment of its test an immediate expiry for 0 hours: the code does neither, as
  \<open>no_default_ttl\<close> shows.)\<close>

theorem vault_round_trip:
  assumes "vault_inv v" and "store_credential env now uuid nonce name plain opts v = (meta, v')" and "cipher_ok env nonce plain"
    and "length boxNonce = NONCE_LENGTH" and "ve_from_base64 env peerKey = Some pk" and "ve_from_base64 peer ownKey = Some ok"
    and "\<forall>b. ve_from_base64 peer (ve_to_base64 env b) = Some b"
    and "ve_box_open peer (ve_box env (ve_to_utf8 env plain) boxNonce pk) boxNonce ok = Some (ve_to_utf8 env plain)"
    and "ve_from_utf8 peer (ve_to_utf8 env plain) = plain"
  shows "(case fst (retrieve env later name v') of
        Some (Some cv) \<Rightarrow> cv_value cv = plain \<and> cr_tags (cv_row cv) = default_to [] (so_tags opts)
          \<and> cr_access_count (cv_row cv) = Suc (cr_access_count (the meta))
      | Some None \<Rightarrow> (\<exists>h. so_ttl_hours opts = Some h \<and> h \<noteq> 0 \<and> \<lfloor>of_int now + h * 3600000\<rfloor> < later)
      | None \<Rightarrow> False)
    \<and> ((\<exists>h. so_ttl_hours opts = Some h \<and> h \<noteq> 0 \<and> \<lfloor>of_int now + h * 3600000\<rfloor> < later) \<longrightarrow> fst (retrieve env later name v') = Some None)
    \<and> (\<exists>sealed. sealForPeer env boxNonce plain peerKey = Some sealed \<and> unsealFromPeer peer sealed ownKey = Some (Some plain))"
proof -
  have inv: "vault_inv v'"
    using vault_step_inv [OF assms(1), of env "(StoreOp uuid nonce name plain opts, now)"] assms(2) by simp
  obtain c where c: "meta = Some c" using found_after_store [OF assms(2)] by auto
  note row = found_after_store [OF assms(2), unfolded c option.sel]
  note dec = decrypt_encrypt [OF assms(3)]
  have exp: "expired_at later c \<longleftrightarrow> (\<exists>h. so_ttl_hours opts = Some h \<and> h \<noteq> 0 \<and> \<lfloor>of_int now + h * 3600000\<rfloor> < later)"
    using row by (auto simp: expired_at_def split: option.splits)
  have "fst (retrieve env later name v') = (if expired_at later c then Some None
      else Some (Some \<lparr>cv_row = c\<lparr>cr_last_accessed_at := Some later, cr_access_count := Suc (cr_access_count c)\<rparr>, cv_value = plain\<rparr>))"
    using row dec by (simp add: retrieve_result [OF inv])
  then have ret: "(case fst (retrieve env later name v') of
        Some (Some cv) \<Rightarrow> cv_value cv = plain \<and> cr_tags (cv_row cv) = default_to [] (so_tags opts)
          \<and> cr_access_count (cv_row cv) = Suc (cr_access_count (the meta))
      | Some None \<Rightarrow> expired_at later c
      | None \<Rightarrow> False) \<and> (expired_at later c \<longrightarrow> fst (retrieve env later name v') = Some None)"
    using row c by simp
  have "\<exists>sealed. sealForPeer env boxNonce plain peerKey = Some sealed \<and> unsealFromPeer peer sealed ownKey = Some (Some plain)"
    using assms(4-) by (simp add: sealForPeer_def unsealFromPeer_def)
  with ret show ?thesis unfolding exp by blast
qed

definition ex_vault_env :: vault_env where
  "ex_vault_env = \<lparr>ve_encrypt = \<lambda>n p. (p, ''t''), ve_decrypt = \<lambda>d n t. if t = ''t'' then Some d else None,
     ve_box = \<lambda>m n k. m, ve_box_open = \<lambda>c n k. Some c, ve_to_base64 = map (\<lambda>w. char_of (unat w)),
     ve_from_base64 = \<lambda>s. Some (map (\<lambda>c. of_nat (of_char c)) s), ve_to_utf8 = \<lambda>_. [7], ve_from_utf8 = \<lambda>_. ''p1''\<rparr>"

definition ex_options :: store_options where
  "ex_options = \<lparr>so_category = None, so_tags = Some [''db''], so_ttl_hours = Some 1\<rparr>"

definition ex_vault :: vault where
  "ex_vault = snd (store_credential ex_vault_env 0 ''u'' ''n'' ''key'' ''p1'' ex_options new_vault)"

lemma new_vault_inv: "vault_inv new_vault"
  by (simp add: vault_inv_def new_vault_def)

lemma ex_vault_inv: "vault_inv ex_vault"
  using vault_step_inv [OF new_vault_inv, of ex_vault_env "(StoreOp ''u'' ''n'' ''key'' ''p1'' ex_options, 0)"]
  by (simp add: ex_vault_def)

lemma ex_base64: "ve_from_base64 ex_vault_env (ve_to_base64 ex_vault_env b) = Some b"
proof -
  have "of_nat (of_char (char_of (unat w) :: char)) = w" for w :: "8 word"
  proof -
    have "unat w < 256" using unsigned_less [of w, where 'a = nat] by simp
    then have "of_char (char_of (unat w) :: char) = unat w" by simp
    then show ?thesis by simp
  qed
  then show ?thesis by (simp add: ex_vault_env_def comp_def)
qed

theorem vault_round_trip_witness:
  "(case fst (retrieve ex_vault_env 5 ''key'' ex_vault) of Some (Some cv) \<Rightarrow> cv_value cv = ''p1'' | _ \<Rightarrow> False)
   \<and> fst (retrieve ex_vault_env 3600001 ''key'' ex_vault) = Some None"
proof -
  have h: "cipher_ok ex_vault_env ''n'' ''p1''" "length (replicate NONCE_LENGTH 0 :: bytes) = NONCE_LENGTH"
    "ve_from_base64 ex_vault_env [] = Some []" "\<forall>b. ve_from_base64 ex_vault_env (ve_to_base64 ex_vault_env b) = Some b"
    "ve_box_open ex_vault_env (ve_box ex_vault_env (ve_to_utf8 ex_vault_env ''p1'') (replicate NONCE_LENGTH 0) []) (replicate NONCE_LENGTH 0) []
       = Some (ve_to_utf8 ex_vault_env ''p1'')"
    "ve_from_utf8 ex_vault_env (ve_to_utf8 ex_vault_env ''p1'') = ''p1''"
    using ex_base64 by (simp_all add: cipher_ok_def ex_vault_env_def)
  have st: "store_credential ex_vault_env 0 ''u'' ''n'' ''key'' ''p1'' ex_options new_vault
      = (fst (store_credential ex_vault_env 0 ''u'' ''n'' ''key'' ''p1'' ex_options new_vault), ex_vault)"
    by (simp add: ex_vault_def)
  note rt = vault_round_trip [OF new_vault_inv st h(1,2,3,3,4,5,6)]
  have ttl: "(\<exists>h. so_ttl_hours ex_options = Some h \<and> h \<noteq> 0 \<and> \<lfloor>of_int 0 + h * 3600000\<rfloor> < t) \<longleftrightarrow> 3600000 < t" for t
    by (simp add: ex_options_def)
  have "fst (retrieve ex_vault_env 3600001 ''key'' ex_vault) = Some None"
    using rt [of 3600001, THEN conjunct2, THEN conjunct1] unfolding ttl by simp
  moreover have "case fst (retrieve ex_vault_env 5 ''key'' ex_vault) of Some (Some cv) \<Rightarrow> cv_value cv = ''p1'' | _ \<Rightarrow> False"
    using rt [of 5, THEN conjunct1] unfolding ttl by (auto split: option.splits)
  ultimately show ?thesis by blast
qed

text \<open>C26. Nothing brings a credential back but a new store: once a name is missing (removed, revoked, never stored), no run
  without a store of that name retrieves it, and brokered access to it never runs its action; a revocation succeeds
  exactly on a stored name, removes it, and is remembered for ever, so that brokered access is refused even after the
  name is stored again. Between requests, a decision on an approval request is final.\<close>

theorem vault_revocation:
  assumes "vault_inv v"
  shows "(fst (revoke_credential now name why v) \<longleftrightarrow> find_credential name v \<noteq> None)
    \<and> (fst (revoke_credential now name why v) \<longrightarrow>
         find_credential name (snd (revoke_credential now name why v)) = None
         \<and> isRevoked name (vault_run env ops (snd (revoke_credential now name why v)))
         \<and> (\<forall>act r. fst (executeBrokered env later name act (vault_run env ops (snd (revoke_credential now name why v)))) \<noteq> Some (BrokeredOk r)))
    \<and> (find_credential name v = None \<and> list_all (\<lambda>op. \<not> stores name op) ops \<longrightarrow> fst (retrieve env later name (vault_run env ops v)) = Some None)
    \<and> (\<forall>r. get_request rid v = Some r \<and> sa_status r \<noteq> RequestPending \<longrightarrow> get_request rid (vault_run env ops v) = Some r)"
proof (intro conjI allI impI)
  let ?w = "snd (revoke_credential now name why v)"
  show "fst (revoke_credential now name why v) \<longleftrightarrow> find_credential name v \<noteq> None"
    by (simp add: revoke_credential_def)
  assume "fst (revoke_credential now name why v)"
  then have w: "find_credential name v \<noteq> None" by (simp add: revoke_credential_def split: if_splits)
  then show "find_credential name ?w = None"
    by (auto simp: revoke_credential_def find_credential_def find_None_iff t_delete_def)
  have "isRevoked name ?w" using w by (auto simp: revoke_credential_def isRevoked_def)
  then show rev: "isRevoked name (vault_run env ops ?w)" by (rule revoked_run)
  then show "fst (executeBrokered env later name act (vault_run env ops ?w)) \<noteq> Some (BrokeredOk r)" for act r
    by (auto simp: executeBrokered_def isRevoked_def split: prod.splits option.splits dest: arg_cong [of _ _ snd])
       (metis retrieve_fields(1) snd_conv)
next
  assume "find_credential name v = None \<and> list_all (\<lambda>op. \<not> stores name op) ops"
  then have "find_credential name (vault_run env ops v) = None" using missing_run [OF assms] by blast
  then show "fst (retrieve env later name (vault_run env ops v)) = Some None"
    by (simp add: retrieve_result [OF vault_run_inv [OF assms]])
next
  fix r
  assume r: "get_request rid v = Some r \<and> sa_status r \<noteq> RequestPending"
  from vault_requests.final_sticky [OF fold_steps TrueI] r
  show "get_request rid (vault_run env ops v) = Some r"
    by (auto simp: vault_requests.final_def request_edge_def)
qed


theorem vault_revocation_witness:
  "fst (retrieve ex_vault_env 9 ''key'' (vault_run ex_vault_env [(ListOp None, 8)] (snd (revoke_credential 7 ''key'' None ex_vault)))) = Some None
   \<and> isRevoked ''key'' (vault_run ex_vault_env [(StoreOp ''u2'' ''n'' ''key'' ''p2'' ex_options, 8)] (snd (revoke_credential 7 ''key'' None ex_vault)))"
proof -
  have st: "find_credential ''key'' ex_vault \<noteq> None"
    by (simp add: ex_vault_def store_credential_def Let_def find_credential_def new_vault_def t_delete_def)
  note rv = vault_revocation [OF ex_vault_inv, of 7 "''key''" None ex_vault_env "[(StoreOp ''u2'' ''n'' ''key'' ''p2'' ex_options, 8)]"]
  have gone: "find_credential ''key'' (snd (revoke_credential 7 ''key'' None ex_vault)) = None" using rv st by blast
  have "vault_inv (snd (revoke_credential 7 ''key'' None ex_vault))"
    using vault_step_inv [OF ex_vault_inv, of ex_vault_env "(RevokeOp ''key'' None, 7)"] by simp
  moreover have "list_all (\<lambda>op. \<not> stores ''key'' op) [(ListOp None, 8)]" by (simp add: stores_def)
  ultimately
  have "fst (retrieve ex_vault_env 9 ''key'' (vault_run ex_vault_env [(ListOp None, 8)] (snd (revoke_credential 7 ''key'' None ex_vault)))) = Some None"
    using vault_revocation [of "snd (revoke_credential 7 ''key'' None ex_vault)" 0 "''key''" None ex_vault_env "[(ListOp None, 8)]" 9] gone by blast
  with rv st show ?thesis by blast
qed

text \<open>What a secret request may use of a stored credential.\<close>

definition usable :: "vault_env \<Rightarrow> time \<Rightarrow> string \<Rightarrow> vault \<Rightarrow> string option" where
  "usable env now name v =
     (case find_credential name v of
        None \<Rightarrow> None
      | Some c \<Rightarrow> if expired_at now c then None else decrypt_value env (cr_encrypted_value c) (cr_nonce c))"

lemma answer_cases:
  assumes inv: "vault_inv v" and fresh: "rid \<notin> sa_id ` set (vt_requests v)"
  shows "fst (answer_secret_request env now rid bn sender paired rq v) =
    (case find_credential (sr_credential_name rq) v of
       None \<Rightarrow> Some (SecretReply (sr_credential_name rq) SecretDenied, [SecretAsked sender rq])
     | Some c \<Rightarrow>
         if expired_at now c then Some (SecretReply (sr_credential_name rq) SecretDenied, [SecretAsked sender rq])
         else case decrypt_value env (cr_encrypted_value c) (cr_nonce c) of
           None \<Rightarrow> None
         | Some x \<Rightarrow>
             if paired then map_option (\<lambda>sealed. (SecretReply (sr_credential_name rq) (SecretSealed sealed),
                 [SecretAsked sender rq, SecretApproved sender (sr_credential_name rq)])) (sealForPeer env bn x (sr_requester_public_key rq))
             else Some (SecretReply (sr_credential_name rq) SecretPending, [SecretAsked sender rq]))"
    and "get_request rid (snd (answer_secret_request env now rid bn sender paired rq v)) =
      Some (let r = \<lparr>sa_id = rid, sa_requester = sender, sa_credential_name = sr_credential_name rq, sa_reason = sr_reason rq,
                     sa_status = RequestPending, sa_requested_at = now, sa_decided_at = None\<rparr>
            in if paired \<and> usable env now (sr_credential_name rq) v \<noteq> None
               then r\<lparr>sa_status := RequestApproved, sa_decided_at := Some now\<rparr> else r)"
proof -
  define r where "r = \<lparr>sa_id = rid, sa_requester = sender, sa_credential_name = sr_credential_name rq, sa_reason = sr_reason rq,
                     sa_status = RequestPending, sa_requested_at = now, sa_decided_at = None\<rparr>"
  define w where "w = v\<lparr>vt_requests := vt_requests v @ [r]\<rparr>"
  have c: "createApprovalRequest now rid sender (sr_credential_name rq) (sr_reason rq) v = (Some r, w)"
    using fresh by (simp add: createApprovalRequest_def Let_def r_def w_def)
  have inv': "vault_inv w" using request_inv(1) [OF inv, of now rid sender "sr_credential_name rq" "sr_reason rq"] c by simp
  have fc: "find_credential n w = find_credential n v" for n by (simp add: w_def find_credential_def)
  obtain res v2 where ret: "retrieve env now (sr_credential_name rq) w = (res, v2)" by fastforce
  have res: "res = (case find_credential (sr_credential_name rq) v of
       None \<Rightarrow> Some None
     | Some c \<Rightarrow> if expired_at now c then Some None
                else map_option (\<lambda>x. Some \<lparr>cv_row = c\<lparr>cr_last_accessed_at := Some now, cr_access_count := Suc (cr_access_count c)\<rparr>, cv_value = x\<rparr>)
                       (decrypt_value env (cr_encrypted_value c) (cr_nonce c)))"
    using retrieve_result [OF inv', of env now "sr_credential_name rq"] ret fc by simp
  show "fst (answer_secret_request env now rid bn sender paired rq v) =
    (case find_credential (sr_credential_name rq) v of
       None \<Rightarrow> Some (SecretReply (sr_credential_name rq) SecretDenied, [SecretAsked sender rq])
     | Some c \<Rightarrow>
         if expired_at now c then Some (SecretReply (sr_credential_name rq) SecretDenied, [SecretAsked sender rq])
         else case decrypt_value env (cr_encrypted_value c) (cr_nonce c) of
           None \<Rightarrow> None
         | Some x \<Rightarrow>
             if paired then map_option (\<lambda>sealed. (SecretReply (sr_credential_name rq) (SecretSealed sealed),
                 [SecretAsked sender rq, SecretApproved sender (sr_credential_name rq)])) (sealForPeer env bn x (sr_requester_public_key rq))
             else Some (SecretReply (sr_credential_name rq) SecretPending, [SecretAsked sender rq]))"
    by (simp add: answer_secret_request_def c ret res Let_def split: option.split)
  have id: "sa_id r = rid" "sa_status r = RequestPending" by (simp_all add: r_def)
  have look: "get_request rid w = Some r"
    using request_look_created [of rid now rid sender "sr_credential_name rq" "sr_reason rq" v] c fresh
    by (simp add: r_def get_request_def) (metis find_None_key option.simps(4))
  have v2: "get_request rid v2 = Some r"
    using look request_look_other [of v2 w rid] retrieve_fields(2) [of env now "sr_credential_name rq" w] ret by simp
  have st: "snd (answer_secret_request env now rid bn sender paired rq v)
      = (if paired \<and> usable env now (sr_credential_name rq) v \<noteq> None then snd (decide_request RequestApproved now rid v2) else v2)"
    using id by (auto simp: answer_secret_request_def c ret res Let_def usable_def approveRequest_def split: option.split)
  show "get_request rid (snd (answer_secret_request env now rid bn sender paired rq v)) =
      Some (let r = \<lparr>sa_id = rid, sa_requester = sender, sa_credential_name = sr_credential_name rq, sa_reason = sr_reason rq,
                     sa_status = RequestPending, sa_requested_at = now, sa_decided_at = None\<rparr>
            in if paired \<and> usable env now (sr_credential_name rq) v \<noteq> None
               then r\<lparr>sa_status := RequestApproved, sa_decided_at := Some now\<rparr> else r)"
    unfolding st r_def [symmetric] Let_def using v2 id by (auto simp: request_look_decided)
qed

text \<open>C27. A secret leaves only to a paired peer. With the vault in place of the look-up and the sealing it was specified with,
  the message handler's answer to a secret request is the vault's: a credential that is stored, not expired and
  decrypts is sealed for the key of the request if the sender is paired, and the request is recorded as approved
  exactly then; any other request stays pending and no value leaves.\<close>

theorem secret_release:
  assumes "vault_inv v" and "rid \<notin> sa_id ` set (vt_requests v)"
    and "\<forall>c. find_credential (sr_credential_name rq) v = Some c \<longrightarrow> decrypt_value env (cr_encrypted_value c) (cr_nonce c) \<noteq> None"
    and "ve_from_base64 env (sr_requester_public_key rq) \<noteq> None"
    and "answer_secret_request env now rid bn sender paired rq v = (answer, v')"
  shows "answer = Some (handleSecretRequest (denv\<lparr>de_retrieve := \<lambda>name. usable env now name v,
        de_seal := \<lambda>plain key. the (sealForPeer env bn plain key)\<rparr>) sender paired rq)
    \<and> (\<forall>x effs. answer = Some (SecretReply (sr_credential_name rq) (SecretSealed x), effs) \<longrightarrow>
         paired \<and> (\<exists>plain. usable env now (sr_credential_name rq) v = Some plain \<and> sealForPeer env bn plain (sr_requester_public_key rq) = Some x)
         \<and> SecretApproved sender (sr_credential_name rq) \<in> set effs)
    \<and> (\<exists>r. get_request rid v' = Some r \<and> sa_requester r = sender
         \<and> (sa_status r = RequestApproved \<longleftrightarrow> paired \<and> usable env now (sr_credential_name rq) v \<noteq> None)
         \<and> (sa_status r \<noteq> RequestApproved \<longrightarrow> sa_status r = RequestPending))"
proof -
  have seal: "\<exists>x. sealForPeer env bn plain (sr_requester_public_key rq) = Some x" for plain
    using assms(4) by (auto simp: sealForPeer_def)
  note ans = answer_cases [OF assms(1,2), of env now bn sender paired rq, unfolded assms(5) fst_conv snd_conv]
  have "answer = Some (handleSecretRequest (denv\<lparr>de_retrieve := \<lambda>name. usable env now name v,
        de_seal := \<lambda>plain key. the (sealForPeer env bn plain key)\<rparr>) sender paired rq)"
    using assms(3) seal unfolding ans(1) by (auto simp: handleSecretRequest_def usable_def split: option.splits)
  moreover have "paired \<and> (\<exists>plain. usable env now (sr_credential_name rq) v = Some plain
      \<and> sealForPeer env bn plain (sr_requester_public_key rq) = Some x) \<and> SecretApproved sender (sr_credential_name rq) \<in> set effs"
    if "answer = Some (SecretReply (sr_credential_name rq) (SecretSealed x), effs)" for x effs
    using that unfolding ans(1) by (auto simp: usable_def split: option.splits if_splits)
  ultimately show ?thesis using ans(2) by (auto simp: Let_def)
qed


theorem secret_release_witness:
  "fst (answer_secret_request ex_vault_env 5 ''r1'' [] ''p'' False \<lparr>sr_credential_name = ''key'', sr_requester_public_key = [], sr_reason = []\<rparr> ex_vault)
     = Some (SecretReply ''key'' SecretPending, [SecretAsked ''p'' \<lparr>sr_credential_name = ''key'', sr_requester_public_key = [], sr_reason = []\<rparr>])"
proof -
  let ?rq = "\<lparr>sr_credential_name = ''key'', sr_requester_public_key = [], sr_reason = []\<rparr>"
  have c: "find_credential ''key'' ex_vault = Some \<lparr>cr_id = ''u'', cr_name = ''key'', cr_category = ''general'', cr_tags = [''db''],
      cr_encrypted_value = ''p1.t'', cr_nonce = ''n'', cr_expires_at = Some 3600000, cr_created_at = 0, cr_last_accessed_at = None,
      cr_access_count = 0\<rparr>"
    by (simp add: ex_vault_def store_credential_def Let_def find_credential_def new_vault_def t_delete_def ex_options_def encrypt_value_def ex_vault_env_def)
  have "''r1'' \<notin> sa_id ` set (vt_requests ex_vault)"
    by (simp add: ex_vault_def store_credential_def Let_def new_vault_def)
  moreover have "\<forall>c. find_credential (sr_credential_name ?rq) ex_vault = Some c \<longrightarrow> decrypt_value ex_vault_env (cr_encrypted_value c) (cr_nonce c) \<noteq> None"
    using c by (simp add: decrypt_value_def ex_vault_env_def)
  moreover have "ve_from_base64 ex_vault_env (sr_requester_public_key ?rq) \<noteq> None" by (simp add: ex_vault_env_def)
  ultimately have "fst (answer_secret_request ex_vault_env 5 ''r1'' [] ''p'' False ?rq ex_vault)
      = Some (handleSecretRequest (demo_dispatch\<lparr>de_retrieve := \<lambda>name. usable ex_vault_env 5 name ex_vault,
        de_seal := \<lambda>plain key. the (sealForPeer ex_vault_env [] plain key)\<rparr>) ''p'' False ?rq)"
    using secret_release [OF ex_vault_inv _ _ _ prod.collapse [symmetric], of "''r1''" ?rq ex_vault_env 5 "[]" "''p''" False demo_dispatch]
    by (simp only: simp_thms)
  then show ?thesis
    using c by (simp add: handleSecretRequest_def usable_def expired_at_def decrypt_value_def ex_vault_env_def)
qed

text \<open>A revoked name that is stored again is handed out again by a retrieval, and so by a secret request.\<close>

lemma revoked_name_retrieved:
  "let v = vault_run ex_vault_env [(RevokeOp ''key'' None, 7), (StoreOp ''u2'' ''n'' ''key'' ''p2'' ex_options, 8)] ex_vault
   in isRevoked ''key'' v \<and> usable ex_vault_env 9 ''key'' v = Some ''p2''"
  by (simp add: Let_def ex_vault_def store_credential_def revoke_credential_def find_credential_def isRevoked_def new_vault_def t_delete_def
      usable_def expired_at_def ex_options_def encrypt_value_def decrypt_value_def ex_vault_env_def)

text \<open>A credential that expired earlier on the same day is still listed.\<close>

lemma expired_still_listed:
  "fst (list_credentials 7200000 None ex_vault) \<noteq> [] \<and> fst (retrieve ex_vault_env 7200000 ''key'' ex_vault) = Some None"
  by (simp add: list_credentials_def retrieve_def Let_def cleanExpired_def sql_before_now_def t_delete_def ex_vault_def store_credential_def
      find_credential_def new_vault_def ex_options_def)

text \<open>The answer to an unpaired sender tells whether a credential of a name is stored.\<close>

lemma unpaired_learns_existence:
  assumes "vault_inv v" "rid \<notin> sa_id ` set (vt_requests v)" "find_credential (sr_credential_name rq) v = Some c" "\<not> expired_at now c"
    and "decrypt_value env (cr_encrypted_value c) (cr_nonce c) = Some x"
  shows "fst (answer_secret_request env now rid bn sender False rq v) = Some (SecretReply (sr_credential_name rq) SecretPending, [SecretAsked sender rq])"
  using assms by (simp add: answer_cases)

end
