(* ===== verification/Registry.thy ===== *)
theory Registry
  imports Mcp_Routing Mesh Signed_Order "HOL-Library.List_Lexorder" "HOL-Library.Char_ord"
begin

text \<open>
  The capability registry (\<open>registry.ts\<close>), the skill manager that fills it (\<open>skills.ts\<close>) and its synchronisation by
  gossip (\<open>gossip.ts\<close>). The replicated document is a map from keys to capabilities; what an Automerge merge does to
  it is an argument (the merged document), as are the hash, fresh UUIDs and the shuffle of the peers. Time stamps of
  capabilities are readable dates.
\<close>

section \<open>Data\<close>

datatype skill_availability = SkillHealthy | SkillUnhealthy

record availability_record =
  vr_availability :: skill_availability
  vr_last_checked_at :: string
  vr_consecutive_failures :: int

record node_resources =
  nr_free_ram_bytes :: rat
  nr_ram_used_percent :: rat
  nr_cpu_load :: rat
  nr_agent_count :: nat
  nr_updated_at :: string

record cap_registry =
  rs_doc :: "(string, capability) jsmap"
  rs_availability :: "(string, availability_record) jsmap"
  rs_rejected :: nat
  rs_resources :: "(string, node_resources) jsmap"

text \<open>A capability as a peer sends it, with the three optional fields as they arrive.\<close>

record peer_capability =
  pc_cap :: capability
  pc_availability :: json
  pc_last_checked_at :: json
  pc_consecutive_failures :: json

fun isEmptyRecord :: "json \<Rightarrow> bool" where
  "isEmptyRecord (JObj m) = (m = [])"
| "isEmptyRecord _ = False"

text \<open>The start-up check of the embedded document: its two maps and its heads. \<open>None\<close>: the daemon does not start.\<close>

definition loadGenesisDoc :: "json \<Rightarrow> json \<Rightarrow> string list \<Rightarrow> (string, capability) jsmap option" where
  "loadGenesisDoc capabilities last_sync heads =
     (if \<not> isEmptyRecord capabilities \<or> \<not> isEmptyRecord last_sync then None
      else if length heads \<noteq> 1 then None
      else Some [])"

definition new_CapabilityRegistry :: cap_registry where
  "new_CapabilityRegistry = \<lparr>rs_doc = [], rs_availability = [], rs_rejected = 0, rs_resources = []\<rparr>"

definition makeKey :: "string \<Rightarrow> string \<Rightarrow> string" where
  "makeKey agentId skillId = agentId @ ''::'' @ skillId"

section \<open>The registry\<close>

definition getAvailabilityRecord :: "string \<Rightarrow> string \<Rightarrow> cap_registry \<Rightarrow> availability_record option" where
  "getAvailabilityRecord agentId skillId reg = m_get (rs_availability reg) (makeKey agentId skillId)"

definition getAvailability :: "string \<Rightarrow> string \<Rightarrow> cap_registry \<Rightarrow> skill_availability" where
  "getAvailability agentId skillId reg =
     (case getAvailabilityRecord agentId skillId reg of None \<Rightarrow> SkillHealthy | Some r \<Rightarrow> vr_availability r)"

definition register_capability :: "time \<Rightarrow> capability \<Rightarrow> cap_registry \<Rightarrow> cap_registry" where
  "register_capability now cap reg =
     reg\<lparr>rs_doc := m_set (makeKey (cap_agent_id cap) (cap_skill_id cap)) (cap\<lparr>cap_updated_at := now\<rparr>) (rs_doc reg)\<rparr>"

definition unregister_capability :: "string \<Rightarrow> string \<Rightarrow> cap_registry \<Rightarrow> cap_registry" where
  "unregister_capability agentId skillId reg =
     reg\<lparr>rs_doc := m_del (makeKey agentId skillId) (rs_doc reg),
         rs_availability := m_del (makeKey agentId skillId) (rs_availability reg)\<rparr>"

definition setAvailability ::
  "string \<Rightarrow> string \<Rightarrow> skill_availability \<Rightarrow> int \<Rightarrow> string \<Rightarrow> cap_registry \<Rightarrow> bool \<times> cap_registry" where
  "setAvailability agentId skillId availability failures checkedAt reg =
     (let key = makeKey agentId skillId in
      (case m_get (rs_availability reg) key of None \<Rightarrow> True | Some prev \<Rightarrow> vr_availability prev \<noteq> availability,
       reg\<lparr>rs_availability := m_set key \<lparr>vr_availability = availability, vr_last_checked_at = checkedAt,
             vr_consecutive_failures = failures\<rparr> (rs_availability reg)\<rparr>))"

definition setNodeResources :: "string \<Rightarrow> string \<Rightarrow> node_resources \<Rightarrow> string option \<Rightarrow> cap_registry \<Rightarrow> cap_registry" where
  "setNodeResources nowText agentId r updated_at reg =
     reg\<lparr>rs_resources := m_set agentId (r\<lparr>nr_updated_at := default_to nowText updated_at\<rparr>) (rs_resources reg)\<rparr>"

definition getNodeResources :: "string \<Rightarrow> cap_registry \<Rightarrow> node_resources option" where
  "getNodeResources agentId reg = m_get (rs_resources reg) agentId"

definition markAgentOffline :: "time \<Rightarrow> string \<Rightarrow> cap_registry \<Rightarrow> cap_registry" where
  "markAgentOffline now agentId reg =
     reg\<lparr>rs_doc := m_map (\<lambda>c. if cap_agent_id c = agentId then c\<lparr>cap_health := Offline, cap_updated_at := now\<rparr> else c) (rs_doc reg)\<rparr>"

definition routable :: "cap_registry \<Rightarrow> capability \<Rightarrow> bool" where
  "routable reg c \<longleftrightarrow> cap_health c \<noteq> Offline \<and> getAvailability (cap_agent_id c) (cap_skill_id c) reg \<noteq> SkillUnhealthy"

definition findBySkill :: "string \<Rightarrow> cap_registry \<Rightarrow> capability list" where
  "findBySkill skillId reg = filter (\<lambda>c. cap_skill_id c = skillId \<and> routable reg c) (m_vals (rs_doc reg))"

definition findByCategory :: "string \<Rightarrow> cap_registry \<Rightarrow> capability list" where
  "findByCategory category reg = filter (\<lambda>c. cap_category c = category \<and> routable reg c) (m_vals (rs_doc reg))"

definition getAgentCapabilities :: "string \<Rightarrow> cap_registry \<Rightarrow> capability list" where
  "getAgentCapabilities agentId reg = filter (\<lambda>c. cap_agent_id c = agentId) (m_vals (rs_doc reg))"

definition exportCapabilities :: "cap_registry \<Rightarrow> capability list" where
  "exportCapabilities reg = m_vals (rs_doc reg)"

fun health_text :: "cap_health \<Rightarrow> string" where
  "health_text Healthy = ''healthy''"
| "health_text Degraded = ''degraded''"
| "health_text Offline = ''offline''"

definition hash_line :: "capability \<Rightarrow> string" where
  "hash_line c = cap_agent_id c @ ''::'' @ cap_skill_id c @ '':'' @ cap_version c @ '':'' @ health_text (cap_health c)"

definition hashCapabilities :: "(string \<Rightarrow> string) \<Rightarrow> capability list \<Rightarrow> string" where
  "hashCapabilities sha256hex caps = take 16 (sha256hex (js_join ''|'' (sort (map hash_line caps))))"

definition getCapabilityHash :: "(string \<Rightarrow> string) \<Rightarrow> cap_registry \<Rightarrow> string" where
  "getCapabilityHash sha256hex reg = hashCapabilities sha256hex (m_vals (rs_doc reg))"

text \<open>A merged document replaces the old one; the fields that must not be replicated are no fields of a capability here.\<close>

definition receiveSyncMessage :: "(string, capability) jsmap \<Rightarrow> cap_registry \<Rightarrow> cap_registry" where
  "receiveSyncMessage merged reg = reg\<lparr>rs_doc := merged\<rparr>"

text \<open>The availability a peer reports of its own skill, if it is one of the two known values.\<close>

definition incoming_availability :: "string \<Rightarrow> peer_capability \<Rightarrow> availability_record option" where
  "incoming_availability nowText p =
     (let valid = (if pc_availability p = JStr ''healthy'' then Some SkillHealthy
                   else if pc_availability p = JStr ''unhealthy'' then Some SkillUnhealthy else None)
      in map_option (\<lambda>a. \<lparr>vr_availability = a,
           vr_last_checked_at = (case as_str (pc_last_checked_at p) of Some t \<Rightarrow> t | None \<Rightarrow> nowText),
           vr_consecutive_failures = (case pc_consecutive_failures p of
              JNum n \<Rightarrow> if 0 \<le> n then n else (if a = SkillUnhealthy then 1 else 0)
            | _ \<Rightarrow> (if a = SkillUnhealthy then 1 else 0))\<rparr>) valid)"

definition import_one :: "capability \<Rightarrow> nat \<times> (string, capability) jsmap \<Rightarrow> nat \<times> (string, capability) jsmap" where
  "import_one c acc =
     (case acc of (n, doc) \<Rightarrow>
        let key = makeKey (cap_agent_id c) (cap_skill_id c) in
        if (case m_get doc key of None \<Rightarrow> True | Some existing \<Rightarrow> cap_updated_at existing < cap_updated_at c)
        then (Suc n, m_set key c doc) else (n, doc))"

definition import_availability :: "string \<Rightarrow> peer_capability \<Rightarrow> cap_registry \<Rightarrow> cap_registry" where
  "import_availability nowText p reg =
     (case incoming_availability nowText p of
        None \<Rightarrow> reg
      | Some a \<Rightarrow> snd (setAvailability (cap_agent_id (pc_cap p)) (cap_skill_id (pc_cap p)) (vr_availability a)
                        (vr_consecutive_failures a) (vr_last_checked_at a) reg))"

definition importPeerCapabilities ::
  "string \<Rightarrow> peer_capability list \<Rightarrow> string \<Rightarrow> cap_registry \<Rightarrow> nat \<times> cap_registry" where
  "importPeerCapabilities nowText capabilities writer reg =
     (let accepted = filter (\<lambda>p. cap_agent_id (pc_cap p) = writer) capabilities;
          rejected = length capabilities - length accepted
      in case fold import_one (map pc_cap accepted) (0, rs_doc reg) of
           (imported, doc) \<Rightarrow>
             (imported, fold (import_availability nowText) accepted (reg\<lparr>rs_doc := doc, rs_rejected := rs_rejected reg + rejected\<rparr>)))"

definition removePeerCapabilities :: "string \<Rightarrow> cap_registry \<Rightarrow> nat \<times> cap_registry" where
  "removePeerCapabilities agentId reg =
     (length (getAgentCapabilities agentId reg),
      reg\<lparr>rs_doc := m_filter (\<lambda>_ c. cap_agent_id c \<noteq> agentId) (rs_doc reg),
          rs_availability := m_filter (\<lambda>k _. \<not> prefix (agentId @ ''::'') k) (rs_availability reg)\<rparr>)"

definition is_old :: "time \<Rightarrow> int \<Rightarrow> capability \<Rightarrow> bool" where
  "is_old now maxAgeMs c \<longleftrightarrow> maxAgeMs < now - cap_updated_at c"

definition markStaleCapabilities :: "time \<Rightarrow> int \<Rightarrow> cap_registry \<Rightarrow> nat \<times> cap_registry" where
  "markStaleCapabilities now maxAgeMs reg =
     (length (filter (\<lambda>c. is_old now maxAgeMs c \<and> cap_health c = Healthy) (m_vals (rs_doc reg))),
      reg\<lparr>rs_doc := m_map (\<lambda>c. if is_old now maxAgeMs c \<and> cap_health c = Healthy then c\<lparr>cap_health := Degraded\<rparr> else c) (rs_doc reg)\<rparr>)"

definition getStaleCapabilities :: "time \<Rightarrow> int \<Rightarrow> cap_registry \<Rightarrow> capability list" where
  "getStaleCapabilities now maxAgeMs reg = filter (is_old now maxAgeMs) (m_vals (rs_doc reg))"

text \<open>What the daemon does with the registry when a peer goes offline (\<open>onPeerOffline\<close>).\<close>

definition peer_offline :: "time \<Rightarrow> string \<Rightarrow> cap_registry \<Rightarrow> cap_registry" where
  "peer_offline now agentId reg = snd (removePeerCapabilities agentId (markAgentOffline now agentId reg))"

section \<open>Skills\<close>

record skill_manifest =
  sk_id :: string
  sk_version :: string
  sk_description :: string
  sk_author :: string
  sk_integrity :: string
  sk_runtime :: string
  sk_entrypoint :: string
  sk_dependencies :: "string list"
  sk_tools :: "string list"
  sk_resources :: "string list"
  sk_category :: string
  sk_permissions :: "string list"
  sk_requirements :: json
  sk_created_at :: string

datatype transfer_state = TransferAnnounced | TransferRequested | Transferring | TransferInstalled | TransferFailed

record skill_transfer =
  tr_id :: string
  tr_manifest :: skill_manifest
  tr_source :: string
  tr_target :: string
  tr_state :: transfer_state
  tr_error :: "string option"
  tr_requested_at :: time
  tr_updated_at :: time

record skill_manager =
  sm_agent_id :: string
  sm_local :: "(string, skill_manifest) jsmap"
  sm_transfers :: "(string, skill_transfer) jsmap"
  sm_file :: "skill_manifest list option"

text \<open>Loading reads the saved manifests back (\<open>None\<close>: no file, or one that does not parse).\<close>

definition new_SkillManager :: "string \<Rightarrow> skill_manifest list option \<Rightarrow> skill_manager" where
  "new_SkillManager agentId saved =
     \<lparr>sm_agent_id = agentId, sm_local = fold (\<lambda>s m. m_set (sk_id s) s m) (default_to [] saved) [],
      sm_transfers = [], sm_file = saved\<rparr>"

definition saveInstalled :: "skill_manager \<Rightarrow> skill_manager" where
  "saveInstalled sm = sm\<lparr>sm_file := Some (m_vals (sm_local sm))\<rparr>"

definition skill_capability :: "string \<Rightarrow> rat \<Rightarrow> time \<Rightarrow> skill_manifest \<Rightarrow> capability" where
  "skill_capability agentId trust now m =
     \<lparr>cap_skill_id = sk_id m, cap_version = sk_version m, cap_description = sk_description m, cap_agent_id = agentId,
      cap_health = Healthy, cap_trust_level = Num trust, cap_updated_at = now, cap_category = sk_category m,
      cap_permissions = sk_permissions m\<rparr>"

definition registerLocal ::
  "time \<Rightarrow> string \<Rightarrow> skill_manifest \<Rightarrow> skill_availability \<Rightarrow> skill_manager \<times> cap_registry \<Rightarrow> skill_manager \<times> cap_registry" where
  "registerLocal now nowText manifest availability st =
     (case st of (sm, reg) \<Rightarrow>
        (saveInstalled (sm\<lparr>sm_local := m_set (sk_id manifest) manifest (sm_local sm)\<rparr>),
         snd (setAvailability (sm_agent_id sm) (sk_id manifest) availability (if availability = SkillHealthy then 0 else 1) nowText
                (register_capability now (skill_capability (sm_agent_id sm) 3 now manifest) reg))))"

definition unregisterLocal :: "string \<Rightarrow> skill_manager \<times> cap_registry \<Rightarrow> skill_manager \<times> cap_registry" where
  "unregisterLocal skillId st =
     (case st of (sm, reg) \<Rightarrow>
        (saveInstalled (sm\<lparr>sm_local := m_del skillId (sm_local sm)\<rparr>), unregister_capability (sm_agent_id sm) skillId reg))"

definition getLocalSkills :: "skill_manager \<Rightarrow> skill_manifest list" where
  "getLocalSkills sm = m_vals (sm_local sm)"

definition getSkill :: "string \<Rightarrow> skill_manager \<Rightarrow> skill_manifest option" where
  "getSkill skillId sm = m_get (sm_local sm) skillId"

definition handleAnnounce ::
  "time \<Rightarrow> string \<Rightarrow> skill_manifest list \<Rightarrow> skill_manager \<times> cap_registry \<Rightarrow> nat \<times> skill_manager \<times> cap_registry" where
  "handleAnnounce now sender skills st =
     (case st of (sm, reg) \<Rightarrow>
        let fresh = filter (\<lambda>m. m_get (sm_local sm) (sk_id m) = None) skills
        in (length fresh, sm, fold (\<lambda>m r. register_capability now (skill_capability sender 2 now m) r) fresh reg))"

definition requestTransfer ::
  "string \<Rightarrow> time \<Rightarrow> string \<Rightarrow> string \<Rightarrow> string \<Rightarrow> string \<Rightarrow> skill_manager \<Rightarrow> skill_transfer \<times> skill_manager" where
  "requestTransfer uuid now nowText skillId version source sm =
     (let r = \<lparr>tr_id = uuid,
               tr_manifest = \<lparr>sk_id = skillId, sk_version = version, sk_description = [], sk_author = source, sk_integrity = [],
                 sk_runtime = ''node'', sk_entrypoint = [], sk_dependencies = [], sk_tools = [], sk_resources = [],
                 sk_category = [], sk_permissions = [], sk_requirements = JObj [], sk_created_at = nowText\<rparr>,
               tr_source = source, tr_target = sm_agent_id sm, tr_state = TransferRequested, tr_error = None,
               tr_requested_at = now, tr_updated_at = now\<rparr>
      in (r, sm\<lparr>sm_transfers := m_set uuid r (sm_transfers sm)\<rparr>))"

definition handleTransferResponse ::
  "time \<Rightarrow> string \<Rightarrow> skill_manifest \<Rightarrow> string \<Rightarrow> bool \<Rightarrow> skill_manager \<times> cap_registry \<Rightarrow>
   skill_transfer option \<times> skill_manager \<times> cap_registry" where
  "handleTransferResponse now nowText manifest transfer_id code_available st =
     (case st of (sm, reg) \<Rightarrow>
        (case m_get (sm_transfers sm) transfer_id of
           None \<Rightarrow> (None, sm, reg)
         | Some r \<Rightarrow>
             let r' = r\<lparr>tr_manifest := manifest, tr_updated_at := now,
                        tr_state := (if code_available then TransferInstalled else TransferAnnounced)\<rparr>;
                 sm' = sm\<lparr>sm_transfers := m_set transfer_id r' (sm_transfers sm)\<rparr>
             in (Some r', if code_available then registerLocal now nowText manifest SkillHealthy (sm', reg) else (sm', reg))))"

section \<open>Gossip\<close>

record gossip_config =
  gc_intervalMs :: nat
  gc_fanout :: nat

definition DEFAULT_GOSSIP :: gossip_config where
  "DEFAULT_GOSSIP = \<lparr>gc_intervalMs = 30000, gc_fanout = 3\<rparr>"

fun availability_text :: "skill_availability \<Rightarrow> string" where
  "availability_text SkillHealthy = ''healthy''"
| "availability_text SkillUnhealthy = ''unhealthy''"

text \<open>A capability with the availability the registry has on record for it.\<close>

definition with_availability :: "cap_registry \<Rightarrow> capability \<Rightarrow> peer_capability" where
  "with_availability reg c =
     (case getAvailabilityRecord (cap_agent_id c) (cap_skill_id c) reg of
        None \<Rightarrow> \<lparr>pc_cap = c, pc_availability = JUndefined, pc_last_checked_at = JUndefined, pc_consecutive_failures = JUndefined\<rparr>
      | Some r \<Rightarrow> \<lparr>pc_cap = c, pc_availability = JStr (availability_text (vr_availability r)),
                   pc_last_checked_at = JStr (vr_last_checked_at r), pc_consecutive_failures = JNum (vr_consecutive_failures r)\<rparr>)"

record sync_payload =
  sp_capability_hash :: string
  sp_capabilities :: "peer_capability list"

text \<open>What \<open>syncWithPeer\<close> sends to a peer: the own capabilities only.\<close>

definition own_capabilities :: "string \<Rightarrow> cap_registry \<Rightarrow> capability list" where
  "own_capabilities self reg = filter (\<lambda>c. cap_agent_id c = self) (exportCapabilities reg)"

definition sync_request :: "(string \<Rightarrow> string) \<Rightarrow> string \<Rightarrow> cap_registry \<Rightarrow> sync_payload" where
  "sync_request sha256hex self reg =
     (let own = own_capabilities self reg
      in \<lparr>sp_capability_hash = hashCapabilities sha256hex own, sp_capabilities = map (with_availability reg) own\<rparr>)"

record sync_response =
  sn_capability_hash :: string
  sn_imported :: nat
  sn_capabilities :: "peer_capability list"

definition handleSyncMessage ::
  "(string \<Rightarrow> string) \<Rightarrow> string \<Rightarrow> string \<Rightarrow> sync_payload \<Rightarrow> string \<Rightarrow> cap_registry \<Rightarrow> sync_response \<times> cap_registry" where
  "handleSyncMessage sha256hex self nowText payload sender reg0 =
     (case importPeerCapabilities nowText (sp_capabilities payload) sender reg0 of
        (imported, reg) \<Rightarrow>
          let localHash = getCapabilityHash sha256hex reg in
          if localHash = sp_capability_hash payload
          then (\<lparr>sn_capability_hash = localHash, sn_imported = imported, sn_capabilities = []\<rparr>, reg)
          else let own = own_capabilities self reg in
            (\<lparr>sn_capability_hash = hashCapabilities sha256hex own, sn_imported = imported,
              sn_capabilities = map (with_availability reg) own\<rparr>, reg))"

text \<open>The shuffle is any reordering of the peers.\<close>

definition selectRandomPeers :: "('p list \<Rightarrow> 'p list) \<Rightarrow> 'p list \<Rightarrow> nat \<Rightarrow> 'p list" where
  "selectRandomPeers shuffle peers count =
     (if length peers \<le> count then peers else take count (shuffle peers))"

text \<open>One tick of the timer: the peers asked, and whether a round is in flight afterwards.\<close>

definition gossip_tick :: "gossip_config \<Rightarrow> (mesh_peer list \<Rightarrow> mesh_peer list) \<Rightarrow> mesh \<Rightarrow> bool \<Rightarrow> mesh_peer list \<times> bool" where
  "gossip_tick cfg shuffle m inFlight =
     (if inFlight then ([], True)
      else (selectRandomPeers shuffle (getOnlinePeers m) (gc_fanout cfg), True))"


section \<open>Keys\<close>

text \<open>An agent id must not contain two colons in a row, nor end in one, for the keys to be unambiguous.\<close>

fun two_colons :: "string \<Rightarrow> bool" where
  "two_colons (a # b # cs) \<longleftrightarrow> a = CHR '':'' \<and> b = CHR '':'' \<or> two_colons (b # cs)"
| "two_colons _ = False"

definition plain_id :: "string \<Rightarrow> bool" where
  "plain_id a \<longleftrightarrow> \<not> two_colons (a @ '':'')"

lemma plain_tail: "plain_id (x # a) \<Longrightarrow> plain_id a"
  by (cases a) (auto simp: plain_id_def)

lemma makeKey_inj:
  "plain_id a \<Longrightarrow> plain_id b \<Longrightarrow> makeKey a s = makeKey b t \<longleftrightarrow> a = b \<and> s = t"
proof (induction a arbitrary: b)
  case Nil
  show ?case
  proof (cases b)
    case (Cons y b')
    have "makeKey [] s \<noteq> makeKey b t"
      using Nil(2) Cons by (cases b') (auto simp: makeKey_def plain_id_def)
    then show ?thesis using Cons by simp
  qed (simp add: makeKey_def)
next
  case (Cons x a)
  show ?case
  proof (cases b)
    case Nil
    have "makeKey (x # a) s \<noteq> makeKey b t"
      using Cons(2) Nil by (cases a) (auto simp: makeKey_def plain_id_def)
    then show ?thesis using Nil by simp
  next
    case (Cons y b')
    then have "makeKey (x # a) s = makeKey b t \<longleftrightarrow> x = y \<and> makeKey a s = makeKey b' t" by (simp add: makeKey_def)
    then show ?thesis using Cons.IH Cons Cons.prems plain_tail by auto
  qed
qed

lemma prefix_makeKey:
  assumes "plain_id a" "plain_id b" shows "prefix (a @ ''::'') (makeKey b t) \<longleftrightarrow> a = b"
proof
  assume "prefix (a @ ''::'') (makeKey b t)"
  then obtain r where "makeKey b t = makeKey a r" by (auto simp: prefix_def makeKey_def)
  then show "a = b" using makeKey_inj [OF assms(2,1)] by simp
qed (simp add: makeKey_def)

section \<open>Lemmas\<close>

abbreviation key_of :: "capability \<Rightarrow> string" where
  "key_of c \<equiv> makeKey (cap_agent_id c) (cap_skill_id c)"

text \<open>The entries of a document stand under their keys, once each, and owners have plain ids.\<close>

definition reg_inv :: "cap_registry \<Rightarrow> bool" where
  "reg_inv reg \<longleftrightarrow> m_inv (rs_doc reg) \<and> m_inv (rs_availability reg)
     \<and> list_all (\<lambda>(k, c). k = key_of c \<and> plain_id (cap_agent_id c)) (rs_doc reg)"

lemma reg_inv_get: "reg_inv reg \<Longrightarrow> m_get (rs_doc reg) k = Some c \<Longrightarrow> k = key_of c \<and> plain_id (cap_agent_id c)"
  by (auto simp: reg_inv_def list_all_iff dest!: m_get_in_set)

lemma reg_invI:
  assumes "m_inv (rs_doc reg)" "m_inv (rs_availability reg)"
    and "\<And>k e. m_get (rs_doc reg) k = Some e \<Longrightarrow> k = key_of e \<and> plain_id (cap_agent_id e)"
  shows "reg_inv reg"
  using assms by (auto simp: reg_inv_def list_all_iff m_get_iff_in_set)

lemma in_doc: "reg_inv reg \<Longrightarrow> c \<in> set (m_vals (rs_doc reg)) \<longleftrightarrow> m_get (rs_doc reg) (key_of c) = Some c"
  by (force simp: reg_inv_def list_all_iff m_get_iff_in_set image_iff)

definition at_least :: "capability option \<Rightarrow> capability \<Rightarrow> bool" where
  "at_least e c \<longleftrightarrow> (case e of None \<Rightarrow> False | Some x \<Rightarrow> cap_updated_at c \<le> cap_updated_at x)"

lemma import_fold:
  assumes "fold import_one cs (n, doc) = (n', doc')"
  shows "m_get doc' k = m_get doc k \<or> (\<exists>c \<in> set cs. key_of c = k \<and> m_get doc' k = Some c)"
    and "m_get doc k = Some e \<Longrightarrow> at_least (m_get doc' k) e"
    and "c \<in> set cs \<Longrightarrow> at_least (m_get doc' (key_of c)) c"
    and "m_inv doc \<Longrightarrow> m_inv doc'"
proof -
  have "(\<forall>k. m_get doc' k = m_get doc k \<or> (\<exists>c \<in> set cs. key_of c = k \<and> m_get doc' k = Some c))
      \<and> (\<forall>k e. m_get doc k = Some e \<longrightarrow> at_least (m_get doc' k) e)
      \<and> (\<forall>c \<in> set cs. at_least (m_get doc' (key_of c)) c) \<and> (m_inv doc \<longrightarrow> m_inv doc')"
    using assms
  proof (induction cs arbitrary: n doc)
    case (Cons c cs)
    obtain n1 doc1 where one: "import_one c (n, doc) = (n1, doc1)" by fastforce
    then have IH: "(\<forall>k. m_get doc' k = m_get doc1 k \<or> (\<exists>c \<in> set cs. key_of c = k \<and> m_get doc' k = Some c))"
      "\<forall>k e. m_get doc1 k = Some e \<longrightarrow> at_least (m_get doc' k) e" "\<forall>c \<in> set cs. at_least (m_get doc' (key_of c)) c"
      "m_inv doc1 \<longrightarrow> m_inv doc'"
      using Cons by auto
    have d1: "\<forall>k. m_get doc1 k = m_get doc k \<or> (k = key_of c \<and> m_get doc1 k = Some c)"
      "\<exists>x. m_get doc1 (key_of c) = Some x \<and> cap_updated_at c \<le> cap_updated_at x"
      "\<forall>k e. m_get doc k = Some e \<longrightarrow> (\<exists>x. m_get doc1 k = Some x \<and> cap_updated_at e \<le> cap_updated_at x)"
      "m_inv doc \<longrightarrow> m_inv doc1"
      using one by (auto simp: import_one_def Let_def split: if_splits option.splits)
    have step: "at_least (m_get doc' k) e" if "m_get doc1 k = Some x" "cap_updated_at e \<le> cap_updated_at x" for k e x
      using IH(2) that by (fastforce simp: at_least_def split: option.splits)
    have g2: "at_least (m_get doc' k) e" if "m_get doc k = Some e" for k e using d1(3) step that by blast
    have g3: "at_least (m_get doc' (key_of x)) x" if "x \<in> set (c # cs)" for x using that IH(3) d1(2) step by auto
    have g1: "m_get doc' k = m_get doc k \<or> (\<exists>x \<in> set (c # cs). key_of x = k \<and> m_get doc' k = Some x)" for k
      using IH(1) d1(1) by (metis list.set_intros)
    show ?case using g1 g2 g3 IH(4) d1(4) by blast
  qed (auto simp: at_least_def)
  then show "m_get doc' k = m_get doc k \<or> (\<exists>c \<in> set cs. key_of c = k \<and> m_get doc' k = Some c)"
    "m_get doc k = Some e \<Longrightarrow> at_least (m_get doc' k) e" "c \<in> set cs \<Longrightarrow> at_least (m_get doc' (key_of c)) c"
    "m_inv doc \<Longrightarrow> m_inv doc'"
    by blast+
qed

lemma import_nothing_new:
  "\<forall>c \<in> set cs. at_least (m_get doc (key_of c)) c \<Longrightarrow> fold import_one cs (n, doc) = (n, doc)"
  by (induction cs) (auto simp: import_one_def Let_def at_least_def split: option.splits)

text \<open>The availabilities an import writes.\<close>

lemma import_availability_fields [simp]:
  "rs_doc (import_availability t p reg) = rs_doc reg" "rs_rejected (import_availability t p reg) = rs_rejected reg"
  "rs_resources (import_availability t p reg) = rs_resources reg"
  by (simp_all add: import_availability_def setAvailability_def Let_def split: option.split)

lemma import_availabilities_fields [simp]:
  "rs_doc (fold (import_availability t) ps reg) = rs_doc reg" "rs_rejected (fold (import_availability t) ps reg) = rs_rejected reg"
  "rs_resources (fold (import_availability t) ps reg) = rs_resources reg"
  by (induction ps arbitrary: reg) simp_all

lemma import_availability_get:
  "m_get (rs_availability (import_availability t p reg)) k =
     (if k = key_of (pc_cap p) \<and> incoming_availability t p \<noteq> None then incoming_availability t p else m_get (rs_availability reg) k)"
  by (auto simp: import_availability_def setAvailability_def Let_def split: option.split)

lemma import_availabilities_get:
  "m_get (rs_availability (fold (import_availability t) ps reg)) k =
     (case rev (filter (\<lambda>p. key_of (pc_cap p) = k \<and> incoming_availability t p \<noteq> None) ps) of
        [] \<Rightarrow> m_get (rs_availability reg) k | p # _ \<Rightarrow> incoming_availability t p)"
  by (induction ps rule: rev_induct) (auto simp: import_availability_get)

lemma import_availabilities_inv: "m_inv (rs_availability reg) \<Longrightarrow> m_inv (rs_availability (fold (import_availability t) ps reg))"
  by (induction ps arbitrary: reg) (auto simp: import_availability_def setAvailability_def Let_def split: option.split)

text \<open>What an import does, by component.\<close>

definition accepted :: "string \<Rightarrow> peer_capability list \<Rightarrow> peer_capability list" where
  "accepted writer ps = filter (\<lambda>p. cap_agent_id (pc_cap p) = writer) ps"

lemma import_parts:
  assumes "importPeerCapabilities t ps writer reg = (n, reg')"
  shows "fold import_one (map pc_cap (accepted writer ps)) (0, rs_doc reg) = (n, rs_doc reg')"
    and "rs_rejected reg' = rs_rejected reg + length (filter (\<lambda>p. cap_agent_id (pc_cap p) \<noteq> writer) ps)"
    and "rs_resources reg' = rs_resources reg"
    and "rs_availability reg' = rs_availability (fold (import_availability t) (accepted writer ps) reg)"
proof -
  have len: "length ps - length (accepted writer ps) = length (filter (\<lambda>p. cap_agent_id (pc_cap p) \<noteq> writer) ps)"
    using sum_length_filter_compl [of "\<lambda>p. cap_agent_id (pc_cap p) = writer" ps] by (simp add: accepted_def)
  have av: "rs_availability (fold (import_availability t) xs r) = rs_availability (fold (import_availability t) xs r')"
    if "rs_availability r = rs_availability r'" for xs r r'
    using that
  proof (induction xs arbitrary: r r')
    case (Cons x xs)
    have "rs_availability (import_availability t x r) = rs_availability (import_availability t x r')"
      using Cons.prems by (simp add: import_availability_def setAvailability_def Let_def split: option.split)
    from Cons.IH [OF this] show ?case by simp
  qed simp
  obtain m doc where f: "fold import_one (map pc_cap (accepted writer ps)) (0, rs_doc reg) = (m, doc)" by fastforce
  have "n = m" "reg' = fold (import_availability t) (accepted writer ps)
      (reg\<lparr>rs_doc := doc, rs_rejected := rs_rejected reg + (length ps - length (accepted writer ps))\<rparr>)"
    using assms f by (auto simp: importPeerCapabilities_def Let_def accepted_def)
  then show "fold import_one (map pc_cap (accepted writer ps)) (0, rs_doc reg) = (n, rs_doc reg')"
    "rs_rejected reg' = rs_rejected reg + length (filter (\<lambda>p. cap_agent_id (pc_cap p) \<noteq> writer) ps)"
    "rs_resources reg' = rs_resources reg"
    "rs_availability reg' = rs_availability (fold (import_availability t) (accepted writer ps) reg)"
    using f len by (simp_all add: av [where r = "reg\<lparr>rs_doc := doc, rs_rejected := rs_rejected reg + k\<rparr>" and r' = reg for k])
qed

lemma import_reg_inv:
  assumes "importPeerCapabilities t ps writer reg = (n, reg')" "reg_inv reg" "plain_id writer"
  shows "reg_inv reg'"
proof (rule reg_invI)
  note parts = import_parts [OF assms(1)]
  show "m_inv (rs_doc reg')" "m_inv (rs_availability reg')"
    using assms(2) import_fold(4) [OF parts(1)] import_availabilities_inv by (simp_all add: reg_inv_def parts(4))
  show "k = key_of e \<and> plain_id (cap_agent_id e)" if "m_get (rs_doc reg') k = Some e" for k e
    using that import_fold(1) [OF parts(1), of k] reg_inv_get [OF assms(2), of k e] assms(3) by (auto simp: accepted_def)
qed

lemma import_foreign_keys:
  assumes "importPeerCapabilities t ps writer reg = (n, reg')" "\<forall>s. k \<noteq> makeKey writer s"
  shows "m_get (rs_doc reg') k = m_get (rs_doc reg) k" "m_get (rs_availability reg') k = m_get (rs_availability reg) k"
proof -
  note parts = import_parts [OF assms(1)]
  show "m_get (rs_doc reg') k = m_get (rs_doc reg) k"
    using import_fold(1) [OF parts(1), of k] assms(2) by (auto simp: accepted_def)
  have none: "filter (\<lambda>p. key_of (pc_cap p) = k \<and> incoming_availability t p \<noteq> None) (accepted writer ps) = []"
    using assms(2) by (auto simp: accepted_def filter_empty_conv)
  show "m_get (rs_availability reg') k = m_get (rs_availability reg) k"
    unfolding parts(4) import_availabilities_get none by simp
qed

lemma find_by_skill:
  "reg_inv reg \<Longrightarrow> c \<in> set (findBySkill s reg) \<longleftrightarrow>
     m_get (rs_doc reg) (key_of c) = Some c \<and> cap_skill_id c = s \<and> cap_health c \<noteq> Offline
     \<and> (\<forall>r. m_get (rs_availability reg) (key_of c) = Some r \<longrightarrow> vr_availability r = SkillHealthy)"
proof -
  assume inv: "reg_inv reg"
  have up: "v \<noteq> SkillUnhealthy \<longleftrightarrow> v = SkillHealthy" for v by (cases v) simp_all
  have "routable reg c \<longleftrightarrow> cap_health c \<noteq> Offline
      \<and> (\<forall>r. m_get (rs_availability reg) (key_of c) = Some r \<longrightarrow> vr_availability r = SkillHealthy)"
    by (simp add: routable_def getAvailability_def getAvailabilityRecord_def up split: option.split)
  then show ?thesis
    using in_doc [OF inv, of c] by (simp add: findBySkill_def del: set_map)
qed

text \<open>C28. Nobody writes for a third party. Importing what a peer sent changes entries and availabilities under that
  peer's own keys only: every other key keeps its entry and its availability, and what is routed for any other agent is
  unchanged, whatever the message claims. Foreign entries are counted as rejected, one by one. An entry is never
  replaced by an older one, everything the peer sent about itself is held in at least the version it sent, and importing
  the same message again imports nothing and leaves the document as it is.\<close>

theorem import_owner_gated:
  assumes "importPeerCapabilities t ps writer reg = (n, reg')" "reg_inv reg" "plain_id writer"
  shows "reg_inv reg'
    \<and> (\<forall>k. (\<forall>s. k \<noteq> makeKey writer s) \<longrightarrow>
         m_get (rs_doc reg') k = m_get (rs_doc reg) k \<and> m_get (rs_availability reg') k = m_get (rs_availability reg) k)
    \<and> (\<forall>c s. cap_agent_id c \<noteq> writer \<longrightarrow> plain_id (cap_agent_id c) \<longrightarrow>
         (c \<in> set (findBySkill s reg') \<longleftrightarrow> c \<in> set (findBySkill s reg)))
    \<and> rs_rejected reg' = rs_rejected reg + length (filter (\<lambda>p. cap_agent_id (pc_cap p) \<noteq> writer) ps)
    \<and> (\<forall>k e. m_get (rs_doc reg) k = Some e \<longrightarrow> at_least (m_get (rs_doc reg') k) e)
    \<and> (\<forall>p \<in> set ps. cap_agent_id (pc_cap p) = writer \<longrightarrow> at_least (m_get (rs_doc reg') (key_of (pc_cap p))) (pc_cap p))
    \<and> (\<forall>t' n' reg''. importPeerCapabilities t' ps writer reg' = (n', reg'') \<longrightarrow> n' = 0 \<and> rs_doc reg'' = rs_doc reg')"
proof -
  note parts = import_parts [OF assms(1)]
  note inv = import_reg_inv [OF assms]
  note foreign = import_foreign_keys [OF assms(1)]
  have keep: "m_get (rs_doc reg') (key_of c) = m_get (rs_doc reg) (key_of c)
      \<and> m_get (rs_availability reg') (key_of c) = m_get (rs_availability reg) (key_of c)"
    if "cap_agent_id c \<noteq> writer" "plain_id (cap_agent_id c)" for c
    using foreign [of "key_of c"] that makeKey_inj [OF that(2) assms(3)] by simp
  have held: "at_least (m_get (rs_doc reg') (key_of c)) c" if "c \<in> set (map pc_cap (accepted writer ps))" for c
    using import_fold(3) [OF parts(1) that] .
  have again: "n' = 0 \<and> rs_doc reg'' = rs_doc reg'" if "importPeerCapabilities t' ps writer reg' = (n', reg'')" for t' n' reg''
    using import_nothing_new [of "map pc_cap (accepted writer ps)" "rs_doc reg'" 0] held import_parts(1) [OF that] by auto
  have mine: "at_least (m_get (rs_doc reg') (key_of (pc_cap p))) (pc_cap p)"
    if "p \<in> set ps" "cap_agent_id (pc_cap p) = writer" for p
    using held [of "pc_cap p"] that by (simp add: accepted_def)
  show ?thesis
    using inv foreign keep parts(2) import_fold(2) [OF parts(1)] again mine
    by (simp add: find_by_skill [OF inv] find_by_skill [OF assms(2)])
qed

definition ex_cap :: "string \<Rightarrow> string \<Rightarrow> time \<Rightarrow> capability" where
  "ex_cap agent skill when =
     \<lparr>cap_skill_id = skill, cap_version = ''1'', cap_description = [], cap_agent_id = agent, cap_health = Healthy,
      cap_trust_level = Num 3, cap_updated_at = when, cap_category = [], cap_permissions = []\<rparr>"

definition ex_registry :: cap_registry where
  "ex_registry = snd (setAvailability ''n'' ''s'' SkillUnhealthy 2 ''t''
     (register_capability 5 (ex_cap ''n'' ''s'' 0) new_CapabilityRegistry))"

definition ex_sent :: "peer_capability list" where
  "ex_sent = [\<lparr>pc_cap = ex_cap ''m'' ''s'' 3, pc_availability = JUndefined, pc_last_checked_at = JUndefined, pc_consecutive_failures = JUndefined\<rparr>,
              \<lparr>pc_cap = ex_cap ''n'' ''s'' 9, pc_availability = JStr ''healthy'', pc_last_checked_at = JUndefined, pc_consecutive_failures = JUndefined\<rparr>]"

lemma ex_registry_inv: "reg_inv ex_registry" "plain_id ''n''" "plain_id ''m''"
  by (simp_all add: reg_inv_def ex_registry_def setAvailability_def register_capability_def new_CapabilityRegistry_def ex_cap_def
      makeKey_def plain_id_def m_inv_def Let_def)

theorem import_owner_gated_witness:
  "rs_rejected (snd (importPeerCapabilities ''t'' ex_sent ''m'' ex_registry)) = 1
   \<and> m_get (rs_doc (snd (importPeerCapabilities ''t'' ex_sent ''m'' ex_registry))) (makeKey ''n'' ''s'') = Some (ex_cap ''n'' ''s'' 5)"
proof -
  obtain n reg' where i: "importPeerCapabilities ''t'' ex_sent ''m'' ex_registry = (n, reg')" by fastforce
  note th = import_owner_gated [OF i ex_registry_inv(1,3)]
  have "rs_rejected reg' = 1"
    using th [THEN conjunct2, THEN conjunct2, THEN conjunct2, THEN conjunct1]
    by (simp add: ex_sent_def ex_cap_def ex_registry_def setAvailability_def register_capability_def new_CapabilityRegistry_def Let_def)
  moreover have "m_get (rs_doc reg') (makeKey ''n'' ''s'') = m_get (rs_doc ex_registry) (makeKey ''n'' ''s'')"
    using th by (simp add: makeKey_def)
  ultimately show ?thesis
    unfolding i by (auto simp: ex_registry_def setAvailability_def register_capability_def Let_def ex_cap_def)
qed

text \<open>Routing by skill answers with exactly the registered capabilities of that skill that are neither offline nor
  on record as unhealthy; a skill whose availability nobody reported counts as available. When a peer goes offline, all of
  its capabilities and availabilities are removed, and nobody else's: no other agent's routes change.\<close>

theorem skill_routing:
  assumes "reg_inv reg" "plain_id a"
  shows "(c \<in> set (findBySkill s reg) \<longleftrightarrow>
        m_get (rs_doc reg) (key_of c) = Some c \<and> cap_skill_id c = s \<and> cap_health c \<noteq> Offline
        \<and> (\<forall>r. m_get (rs_availability reg) (key_of c) = Some r \<longrightarrow> vr_availability r = SkillHealthy))
    \<and> reg_inv (peer_offline now a reg)
    \<and> getAgentCapabilities a (peer_offline now a reg) = []
    \<and> (\<forall>skill. getAvailabilityRecord a skill (peer_offline now a reg) = None)
    \<and> (\<forall>b skill. b \<noteq> a \<longrightarrow> plain_id b \<longrightarrow>
         m_get (rs_doc (peer_offline now a reg)) (makeKey b skill) = m_get (rs_doc reg) (makeKey b skill)
         \<and> getAvailabilityRecord b skill (peer_offline now a reg) = getAvailabilityRecord b skill reg)
    \<and> (c \<in> set (findBySkill s (peer_offline now a reg)) \<longleftrightarrow> cap_agent_id c \<noteq> a \<and> c \<in> set (findBySkill s reg))"
proof -
  let ?off = "\<lambda>c. if cap_agent_id c = a then c\<lparr>cap_health := Offline, cap_updated_at := now\<rparr> else c"
  let ?reg = "peer_offline now a reg"
  have inv0: "m_inv (rs_doc reg)" "m_inv (rs_availability reg)" using assms(1) by (simp_all add: reg_inv_def)
  have doc: "m_get (rs_doc ?reg) k =
      (case m_get (rs_doc reg) k of None \<Rightarrow> None | Some e \<Rightarrow> if cap_agent_id e = a then None else Some e)" for k
    using inv0 by (simp add: peer_offline_def removePeerCapabilities_def markAgentOffline_def split: option.split)
  have av: "m_get (rs_availability ?reg) k = (if prefix (a @ ''::'') k then None else m_get (rs_availability reg) k)" for k
    using inv0 by (simp add: peer_offline_def removePeerCapabilities_def markAgentOffline_def split: option.split)
  have minv: "m_inv (rs_doc ?reg)" "m_inv (rs_availability ?reg)"
    using inv0 by (simp_all add: peer_offline_def removePeerCapabilities_def markAgentOffline_def)
  have inv: "reg_inv ?reg"
    using minv reg_inv_get [OF assms(1)] by (intro reg_invI) (auto simp: doc split: option.splits if_splits)
  have gone: "getAgentCapabilities a ?reg = []"
    by (auto simp: getAgentCapabilities_def filter_empty_conv peer_offline_def removePeerCapabilities_def m_filter_def)
  have none: "getAvailabilityRecord a skill ?reg = None" for skill
    by (simp add: getAvailabilityRecord_def av prefix_makeKey [OF assms(2,2)])
  have other: "m_get (rs_doc ?reg) (makeKey b skill) = m_get (rs_doc reg) (makeKey b skill)
      \<and> getAvailabilityRecord b skill ?reg = getAvailabilityRecord b skill reg" if "b \<noteq> a" "plain_id b" for b skill
  proof -
    have "cap_agent_id e \<noteq> a" if "m_get (rs_doc reg) (makeKey b skill) = Some e" for e
      using reg_inv_get [OF assms(1) that] makeKey_inj [of b "cap_agent_id e"] \<open>b \<noteq> a\<close> \<open>plain_id b\<close> by metis
    then show ?thesis
      using that by (auto simp: doc getAvailabilityRecord_def av prefix_makeKey [OF assms(2) that(2)] split: option.split)
  qed
  have routes: "c \<in> set (findBySkill s ?reg) \<longleftrightarrow> cap_agent_id c \<noteq> a \<and> c \<in> set (findBySkill s reg)"
  proof (cases "m_get (rs_doc reg) (key_of c) = Some c \<and> cap_agent_id c \<noteq> a")
    case True
    then have p: "plain_id (cap_agent_id c)" using reg_inv_get [OF assms(1)] by blast
    show ?thesis
      using True other [OF _ p, of "cap_skill_id c"]
      by (simp add: find_by_skill [OF inv] find_by_skill [OF assms(1)] getAvailabilityRecord_def)
  next
    case False
    then show ?thesis
      by (auto simp: find_by_skill [OF inv] find_by_skill [OF assms(1)] doc split: option.splits if_splits)
  qed
  show ?thesis using find_by_skill [OF assms(1), of c s] inv gone none other routes by blast
qed

theorem skill_routing_witness:
  "findBySkill ''s'' ex_registry = [] \<and> getAgentCapabilities ''n'' (peer_offline 9 ''n'' ex_registry) = []
   \<and> getAvailabilityRecord ''n'' ''s'' (peer_offline 9 ''n'' ex_registry) = None"
proof -
  note th = skill_routing [OF ex_registry_inv(1,2)]
  have "c \<notin> set (findBySkill ''s'' ex_registry)" for c
  proof
    assume "c \<in> set (findBySkill ''s'' ex_registry)"
    then show False using th [where c = c and s = "''s''", THEN conjunct1]
      by (auto simp: ex_registry_def setAvailability_def register_capability_def new_CapabilityRegistry_def Let_def
          ex_cap_def split: if_splits)
  qed
  then have "findBySkill ''s'' ex_registry = []" by (metis list.set_intros(1) neq_Nil_conv)
  then show ?thesis using th by blast
qed

section \<open>Gossip between two nodes\<close>

lemma with_availability_cap [simp]: "pc_cap (with_availability reg c) = c"
  by (simp add: with_availability_def split: option.split)

lemma own_capability_owner: "c \<in> set (own_capabilities a reg) \<Longrightarrow> cap_agent_id c = a"
  by (simp add: own_capabilities_def)

text \<open>A reported availability arrives as it stands on the sender's record.\<close>

lemma availability_transfer:
  assumes "getAvailabilityRecord (cap_agent_id c) (cap_skill_id c) reg = Some r" "0 \<le> vr_consecutive_failures r"
  shows "incoming_availability t (with_availability reg c) = Some r"
  using assms by (cases "vr_availability r") (simp_all add: with_availability_def incoming_availability_def Let_def)

lemma own_in_doc: "reg_inv reg \<Longrightarrow> c \<in> set (own_capabilities a reg) \<Longrightarrow> m_get (rs_doc reg) (key_of c) = Some c"
  using in_doc [of reg c] by (auto simp: own_capabilities_def exportCapabilities_def simp del: set_map)

lemma own_with_key:
  assumes "reg_inv reg" "c \<in> set (own_capabilities a reg)" "c' \<in> set (own_capabilities a reg)" "key_of c' = key_of c"
  shows "c = c'"
  using own_in_doc [OF assms(1,2)] own_in_doc [OF assms(1,3)] assms(4) by simp

lemma handle_sync_import:
  "snd (handleSyncMessage sha self t payload sender reg) = snd (importPeerCapabilities t (sp_capabilities payload) sender reg)"
  by (simp add: handleSyncMessage_def Let_def split: prod.split)

lemma sync_accepted: "accepted a (sp_capabilities (sync_request sha a reg)) = map (with_availability reg) (own_capabilities a reg)"
  by (auto simp: accepted_def sync_request_def Let_def filter_map comp_def own_capabilities_def)

lemma rev_head: "x \<in> set xs \<Longrightarrow> \<exists>y ys. rev xs = y # ys \<and> y \<in> set xs"
  by (cases xs rule: rev_cases) auto

text \<open>After a sync the receiver holds the sender's own capabilities, with the sender's availabilities.\<close>

lemma sync_availability:
  assumes "reg_inv regA" "c \<in> set (own_capabilities a regA)"
    and "getAvailabilityRecord a (cap_skill_id c) regA = Some r" "0 \<le> vr_consecutive_failures r"
    and "importPeerCapabilities t (sp_capabilities (sync_request sha a regA)) a regB = (n, regB')"
  shows "m_get (rs_availability regB') (key_of c) = Some r"
proof -
  note owner = own_capability_owner [OF assms(2)]
  have inc: "incoming_availability t (with_availability regA c) = Some r"
    using availability_transfer [of c regA r t] assms(3,4) owner by simp
  let ?hits = "filter (\<lambda>p. key_of (pc_cap p) = key_of c \<and> incoming_availability t p \<noteq> None)
      (map (with_availability regA) (own_capabilities a regA))"
  have only: "p = with_availability regA c" if "p \<in> set ?hits" for p
  proof -
    from that obtain x where x: "x \<in> set (own_capabilities a regA)" "key_of x = key_of c" "p = with_availability regA x" by auto
    show ?thesis unfolding x(3) own_with_key [OF assms(1,2) x(1,2)] ..
  qed
  have "with_availability regA c \<in> set ?hits" using assms(2) inc by simp
  from rev_head [OF this] obtain p ps where hits: "rev ?hits = p # ps" and "p \<in> set ?hits" by blast
  from only [OF this(2)] have "p = with_availability regA c" .
  then show ?thesis
    unfolding import_parts(4) [OF assms(5)] sync_accepted import_availabilities_get hits by (simp add: inc)
qed

text \<open>C29. One gossip message carries a node's own capabilities to a peer. Nothing in it is rejected; afterwards the peer
  holds every one of them in at least the sender's version, and what it held in an older version or not at all it now
  holds exactly as the sender does. The availability on the sender's record arrives unchanged, and for such an entry the
  peer then routes to the skill exactly when the sender itself would. What is routed for every other agent stays, and the answer names the
  peer's own capabilities only.\<close>

theorem gossip_sync:
  assumes "reg_inv regA" "reg_inv regB" "plain_id a"
    and "handleSyncMessage sha b t (sync_request sha a regA) a regB = (resp, regB')"
  shows "reg_inv regB' \<and> rs_rejected regB' = rs_rejected regB
    \<and> (\<forall>c \<in> set (own_capabilities a regA).
         at_least (m_get (rs_doc regB') (key_of c)) c
         \<and> (\<forall>r. getAvailabilityRecord a (cap_skill_id c) regA = Some r \<longrightarrow> 0 \<le> vr_consecutive_failures r \<longrightarrow>
              getAvailabilityRecord a (cap_skill_id c) regB' = Some r)
         \<and> ((\<forall>e. m_get (rs_doc regB) (key_of c) = Some e \<longrightarrow> cap_updated_at e < cap_updated_at c) \<longrightarrow>
              m_get (rs_doc regB') (key_of c) = Some c
              \<and> (\<forall>r. getAvailabilityRecord a (cap_skill_id c) regA = Some r \<longrightarrow> 0 \<le> vr_consecutive_failures r \<longrightarrow>
                   (c \<in> set (findBySkill (cap_skill_id c) regB') \<longleftrightarrow> c \<in> set (findBySkill (cap_skill_id c) regA)))))
    \<and> (\<forall>d s. cap_agent_id d \<noteq> a \<longrightarrow> plain_id (cap_agent_id d) \<longrightarrow>
         (d \<in> set (findBySkill s regB') \<longleftrightarrow> d \<in> set (findBySkill s regB)))
    \<and> (\<forall>p \<in> set (sn_capabilities resp). cap_agent_id (pc_cap p) = b)"
proof -
  let ?ps = "sp_capabilities (sync_request sha a regA)"
  obtain n where imp: "importPeerCapabilities t ?ps a regB = (n, regB')"
    using handle_sync_import [of sha b t "sync_request sha a regA" a regB] assms(4) by (metis prod.collapse snd_conv)
  note parts = import_parts [OF imp, unfolded sync_accepted, simplified comp_def with_availability_cap map_map map_ident]
  have caps: "map pc_cap (accepted a ?ps) = own_capabilities a regA" by (simp add: sync_accepted comp_def)
  note fld = import_fold [OF import_parts(1) [OF imp, unfolded caps]]
  note inv = import_reg_inv [OF imp assms(2,3)]
  have rejected: "rs_rejected regB' = rs_rejected regB"
    unfolding import_parts(2) [OF imp] by (auto simp: sync_request_def Let_def filter_empty_conv own_capabilities_def)
  have avail: "m_get (rs_availability regB') (key_of c) = Some r"
    if "c \<in> set (own_capabilities a regA)" "getAvailabilityRecord a (cap_skill_id c) regA = Some r"
      "0 \<le> vr_consecutive_failures r" for c r
    using sync_availability [OF assms(1) that imp] .
  have exact: "m_get (rs_doc regB') (key_of c) = Some c"
    if c: "c \<in> set (own_capabilities a regA)"
      and old: "\<forall>e. m_get (rs_doc regB) (key_of c) = Some e \<longrightarrow> cap_updated_at e < cap_updated_at c" for c
  proof -
    from fld(1) [of "key_of c"] show ?thesis
    proof
      assume "m_get (rs_doc regB') (key_of c) = m_get (rs_doc regB) (key_of c)"
      then show ?thesis using fld(3) [OF c] old by (auto simp: at_least_def split: option.splits)
    qed (use own_with_key [OF assms(1) c] in auto)
  qed
  have route: "c \<in> set (findBySkill (cap_skill_id c) regB') \<longleftrightarrow> c \<in> set (findBySkill (cap_skill_id c) regA)"
    if c: "c \<in> set (own_capabilities a regA)" and r: "getAvailabilityRecord a (cap_skill_id c) regA = Some r"
      "0 \<le> vr_consecutive_failures r" and d: "m_get (rs_doc regB') (key_of c) = Some c" for c r
  proof -
    have "m_get (rs_doc regA) (key_of c) = Some c" using own_in_doc [OF assms(1) c] .
    then show ?thesis
      using d r avail [OF c r] own_capability_owner [OF c]
      by (simp add: find_by_skill [OF inv] find_by_skill [OF assms(1)] getAvailabilityRecord_def)
  qed
  have others: "d \<in> set (findBySkill s regB') \<longleftrightarrow> d \<in> set (findBySkill s regB)"
    if "cap_agent_id d \<noteq> a" "plain_id (cap_agent_id d)" for d s
    using import_foreign_keys [OF imp, of "key_of d"] that makeKey_inj [OF that(2) assms(3)]
    by (simp add: find_by_skill [OF inv] find_by_skill [OF assms(2)])
  have answer: "cap_agent_id (pc_cap p) = b" if "p \<in> set (sn_capabilities resp)" for p
    using that assms(4) unfolding handleSyncMessage_def Let_def imp
    by (auto split: if_splits simp: own_capability_owner)
  have main: "at_least (m_get (rs_doc regB') (key_of c)) c
         \<and> (\<forall>r. getAvailabilityRecord a (cap_skill_id c) regA = Some r \<longrightarrow> 0 \<le> vr_consecutive_failures r \<longrightarrow>
              getAvailabilityRecord a (cap_skill_id c) regB' = Some r)
         \<and> ((\<forall>e. m_get (rs_doc regB) (key_of c) = Some e \<longrightarrow> cap_updated_at e < cap_updated_at c) \<longrightarrow>
              m_get (rs_doc regB') (key_of c) = Some c
              \<and> (\<forall>r. getAvailabilityRecord a (cap_skill_id c) regA = Some r \<longrightarrow> 0 \<le> vr_consecutive_failures r \<longrightarrow>
                   (c \<in> set (findBySkill (cap_skill_id c) regB') \<longleftrightarrow> c \<in> set (findBySkill (cap_skill_id c) regA))))"
    if c: "c \<in> set (own_capabilities a regA)" for c
  proof -
    have "getAvailabilityRecord a (cap_skill_id c) regB' = Some r"
      if "getAvailabilityRecord a (cap_skill_id c) regA = Some r" "0 \<le> vr_consecutive_failures r" for r
      using avail [OF c that] own_capability_owner [OF c] by (simp add: getAvailabilityRecord_def)
    then show ?thesis using fld(3) [OF c] exact [OF c] route [OF c] by blast
  qed
  show ?thesis using inv rejected main others answer by blast
qed

text \<open>A peer that knows nothing learns the sender's one skill, which is on record as unhealthy, and does not route to it.\<close>

theorem gossip_sync_witness:
  "getAvailabilityRecord ''n'' ''s'' (snd (handleSyncMessage id ''m'' ''t'' (sync_request id ''n'' ex_registry) ''n'' new_CapabilityRegistry))
     = Some \<lparr>vr_availability = SkillUnhealthy, vr_last_checked_at = ''t'', vr_consecutive_failures = 2\<rparr>"
proof -
  obtain resp reg' where h: "handleSyncMessage id ''m'' ''t'' (sync_request id ''n'' ex_registry) ''n'' new_CapabilityRegistry = (resp, reg')"
    by fastforce
  have new: "reg_inv new_CapabilityRegistry" by (simp add: reg_inv_def new_CapabilityRegistry_def)
  have own: "ex_cap ''n'' ''s'' 5 \<in> set (own_capabilities ''n'' ex_registry)" "cap_skill_id (ex_cap ''n'' ''s'' 5) = ''s''"
    "getAvailabilityRecord ''n'' ''s'' ex_registry
       = Some \<lparr>vr_availability = SkillUnhealthy, vr_last_checked_at = ''t'', vr_consecutive_failures = 2\<rparr>"
    by (simp_all add: own_capabilities_def exportCapabilities_def ex_registry_def setAvailability_def register_capability_def
        new_CapabilityRegistry_def Let_def ex_cap_def getAvailabilityRecord_def)
  show ?thesis
    using gossip_sync [OF ex_registry_inv(1) new ex_registry_inv(2) h] own unfolding h by force
qed

section \<open>Announced skills\<close>

lemma announce_fold:
  "m_get (rs_doc (fold (\<lambda>m r. register_capability now (skill_capability sender 2 now m) r) ms reg)) k =
     (case rev (filter (\<lambda>m. makeKey sender (sk_id m) = k) ms) of
        [] \<Rightarrow> m_get (rs_doc reg) k | m # _ \<Rightarrow> Some (skill_capability sender 2 now m))"
  "rs_availability (fold (\<lambda>m r. register_capability now (skill_capability sender 2 now m) r) ms reg) = rs_availability reg"
  by (induction ms rule: rev_induct) (auto simp: register_capability_def skill_capability_def)

lemma register_inv:
  "reg_inv reg \<Longrightarrow> plain_id (cap_agent_id c) \<Longrightarrow> reg_inv (register_capability now c reg)"
proof (rule reg_invI)
  assume a: "reg_inv reg" "plain_id (cap_agent_id c)"
  show "m_inv (rs_doc (register_capability now c reg))" "m_inv (rs_availability (register_capability now c reg))"
    using a(1) by (simp_all add: reg_inv_def register_capability_def)
  show "k = key_of e \<and> plain_id (cap_agent_id e)" if "m_get (rs_doc (register_capability now c reg)) k = Some e" for k e
    using that reg_inv_get [OF a(1), of k e] a(2) by (auto simp: register_capability_def split: if_splits)
qed

lemma announce_inv:
  "reg_inv reg \<Longrightarrow> plain_id sender \<Longrightarrow>
     reg_inv (fold (\<lambda>m r. register_capability now (skill_capability sender 2 now m) r) ms reg)"
  by (induction ms arbitrary: reg) (simp_all add: register_inv skill_capability_def)

text \<open>An announcement registers the announced skills under the announcing peer's keys with trust 2, and nothing else:
  no skill that is installed here gets a new route, no other agent's capability and no availability changes, and the
  installed skills stay what they are.\<close>

theorem announced_skills:
  assumes "handleAnnounce now sender skills (sm, reg) = (n, sm', reg')" "reg_inv reg" "plain_id sender"
  shows "sm' = sm \<and> reg_inv reg' \<and> rs_availability reg' = rs_availability reg
    \<and> n = length (filter (\<lambda>m. m_get (sm_local sm) (sk_id m) = None) skills)
    \<and> (\<forall>s. m_get (sm_local sm) s \<noteq> None \<longrightarrow> set (findBySkill s reg') = set (findBySkill s reg))
    \<and> (\<forall>c s. cap_agent_id c \<noteq> sender \<longrightarrow> (c \<in> set (findBySkill s reg') \<longleftrightarrow> c \<in> set (findBySkill s reg)))
    \<and> (\<forall>m \<in> set skills. m_get (sm_local sm) (sk_id m) = None \<longrightarrow>
         (\<exists>m' \<in> set skills. sk_id m' = sk_id m
            \<and> m_get (rs_doc reg') (makeKey sender (sk_id m)) = Some (skill_capability sender 2 now m')))"
proof -
  let ?fresh = "filter (\<lambda>m. m_get (sm_local sm) (sk_id m) = None) skills"
  have r: "sm' = sm" "n = length ?fresh"
    "reg' = fold (\<lambda>m r. register_capability now (skill_capability sender 2 now m) r) ?fresh reg"
    using assms(1) by (auto simp: handleAnnounce_def Let_def)
  have inv: "reg_inv reg'" unfolding r by (rule announce_inv [OF assms(2,3)])
  have av: "rs_availability reg' = rs_availability reg" unfolding r by (rule announce_fold)
  have key: "makeKey sender x = makeKey sender y \<longleftrightarrow> x = y" for x y by (simp add: makeKey_def)
  have same: "m_get (rs_doc reg') k = m_get (rs_doc reg) k" if "\<forall>m \<in> set ?fresh. makeKey sender (sk_id m) \<noteq> k" for k
  proof -
    have none: "filter (\<lambda>m. makeKey sender (sk_id m) = k) ?fresh = []" using that by (auto simp: filter_empty_conv)
    show ?thesis unfolding r(3) announce_fold none by simp
  qed
  have keep: "c \<in> set (findBySkill s reg') \<longleftrightarrow> c \<in> set (findBySkill s reg)"
    if "m_get (rs_doc reg') (key_of c) = m_get (rs_doc reg) (key_of c)" for c s
    using that av by (simp add: find_by_skill [OF inv] find_by_skill [OF assms(2)])
  have new: "\<exists>m' \<in> set skills. sk_id m' = sk_id m
      \<and> m_get (rs_doc reg') (makeKey sender (sk_id m)) = Some (skill_capability sender 2 now m')"
    if "m \<in> set skills" "m_get (sm_local sm) (sk_id m) = None" for m
  proof -
    let ?hits = "filter (\<lambda>x. makeKey sender (sk_id x) = makeKey sender (sk_id m)) ?fresh"
    have "m \<in> set ?hits" using that by simp
    from rev_head [OF this] obtain m' ms where hits: "rev ?hits = m' # ms" and "m' \<in> set ?hits" by blast
    then show ?thesis unfolding r(3) announce_fold hits by (auto simp: key)
  qed
  have plain: "plain_id (cap_agent_id c) \<and> cap_skill_id c = s"
    if "c \<in> set (findBySkill s reg') \<or> c \<in> set (findBySkill s reg)" for c s
    using that reg_inv_get [OF inv] reg_inv_get [OF assms(2)] by (auto simp: find_by_skill [OF inv] find_by_skill [OF assms(2)])
  have routes: "c \<in> set (findBySkill s reg') \<longleftrightarrow> c \<in> set (findBySkill s reg)"
    if "cap_agent_id c \<noteq> sender \<or> m_get (sm_local sm) s \<noteq> None" for c s
  proof (cases "plain_id (cap_agent_id c) \<and> cap_skill_id c = s")
    case True
    have "\<forall>m \<in> set ?fresh. makeKey sender (sk_id m) \<noteq> key_of c"
      using that True makeKey_inj [OF assms(3), of "cap_agent_id c"] by auto
    then show ?thesis using keep same by blast
  qed (use plain in blast)
  show ?thesis using r(1,2) inv av routes new by blast
qed

definition ex_manifest :: skill_manifest where
  "ex_manifest = \<lparr>sk_id = ''s'', sk_version = ''1'', sk_description = [], sk_author = [], sk_integrity = [], sk_runtime = ''node'',
     sk_entrypoint = [], sk_dependencies = [], sk_tools = [], sk_resources = [], sk_category = [], sk_permissions = [],
     sk_requirements = JObj [], sk_created_at = []\<rparr>"

theorem announced_skills_witness:
  "m_get (rs_doc (snd (snd (handleAnnounce 7 ''m'' [ex_manifest] (new_SkillManager ''n'' None, ex_registry))))) (makeKey ''m'' ''s'')
     = Some (skill_capability ''m'' 2 7 ex_manifest)
   \<and> set (findBySkill ''s'' (snd (snd (handleAnnounce 7 ''m'' [ex_manifest] (new_SkillManager ''n'' (Some [ex_manifest]), ex_registry)))))
     = set (findBySkill ''s'' ex_registry)"
proof -
  obtain n sm reg' where h: "handleAnnounce 7 ''m'' [ex_manifest] (new_SkillManager ''n'' None, ex_registry) = (n, sm, reg')"
    by (metis prod.exhaust)
  obtain n2 sm2 reg2 where h2: "handleAnnounce 7 ''m'' [ex_manifest] (new_SkillManager ''n'' (Some [ex_manifest]), ex_registry) = (n2, sm2, reg2)"
    by (metis prod.exhaust)
  show ?thesis
    using announced_skills [OF h ex_registry_inv(1,3)] announced_skills [OF h2 ex_registry_inv(1,3)] unfolding h h2
    by (auto simp: new_SkillManager_def ex_manifest_def)
qed

text \<open>After a restart an installed skill is known as local, so that its announcements by others are skipped, but it is not
  registered any more until it is registered again.\<close>

lemma restart_forgets_registration:
  "getLocalSkills (new_SkillManager ''n'' (Some [ex_manifest])) = [ex_manifest]
   \<and> fst (handleAnnounce now ''m'' [ex_manifest] (new_SkillManager ''n'' (Some [ex_manifest]), new_CapabilityRegistry)) = 0
   \<and> findBySkill ''s'' (snd (snd (handleAnnounce now ''m'' [ex_manifest]
        (new_SkillManager ''n'' (Some [ex_manifest]), new_CapabilityRegistry)))) = []"
  by (simp add: getLocalSkills_def new_SkillManager_def handleAnnounce_def Let_def ex_manifest_def findBySkill_def
      new_CapabilityRegistry_def)

text \<open>An announced skill carries the receiver's time: what the owner stamped before, and gossips later, is not taken over.\<close>

lemma announcement_shadows_gossip:
  assumes "m_get (rs_doc reg) (key_of c) = Some e" "cap_updated_at c \<le> cap_updated_at e"
  shows "import_one c (n, rs_doc reg) = (n, rs_doc reg)"
  using assms by (simp add: import_one_def Let_def)

end
