(* ===== verification/Skill_Health.thy ===== *)
theory Skill_Health
  imports Registry
begin

text \<open>
  Health monitoring of skills (\<open>skill-health-monitor.ts\<close>) and what the daemon does on a transition (\<open>index.ts\<close>). A check
  runs between two events of its own: the timer starts it, its promise settles later; everything may happen in between. An
  entry that a new registration has replaced is recognised by its number, as the code recognises it by its identity; the
  checks in flight are kept as a list of such entries. The clock, the random numbers of the jitter and the results of
  the checks are arguments. What the hook publishes besides the registry (audit, events, push) is output.
\<close>

section \<open>Data\<close>

datatype health_state = HealthUnknown | HealthHealthy | HealthUnhealthy

record health_opts =
  ho_interval_healthy :: time
  ho_interval_unhealthy :: time
  ho_timeout :: time
  ho_debounce_up :: nat
  ho_debounce_down :: nat

definition DEFAULT_SKILL_HEALTH_OPTS :: health_opts where
  "DEFAULT_SKILL_HEALTH_OPTS = \<lparr>ho_interval_healthy = 30000, ho_interval_unhealthy = 60000, ho_timeout = 5000,
     ho_debounce_up = 2, ho_debounce_down = 3\<rparr>"

record health_entry =
  he_number :: nat
  he_opts :: health_opts
  he_state :: health_state
  he_failures :: nat
  he_successes :: nat
  he_last_error :: "string option"
  he_last_check :: "time option"
  he_next_check :: "time option"
  he_changes :: nat
  he_inflight :: bool
  he_timer :: "time option"

record health_transition =
  ht_skill :: string
  ht_from :: health_state
  ht_to :: health_state
  ht_failures :: nat
  ht_error :: "string option"

record health_monitor =
  hm_skills :: "(string, health_entry) jsmap"
  hm_started :: bool
  hm_stopped :: bool
  hm_next_number :: nat
  hm_running :: "(string \<times> nat) list"

definition new_SkillHealthMonitor :: health_monitor where
  "new_SkillHealthMonitor = \<lparr>hm_skills = [], hm_started = False, hm_stopped = False, hm_next_number = 0, hm_running = []\<rparr>"

section \<open>Scheduling\<close>

definition interval_for :: "health_entry \<Rightarrow> time" where
  "interval_for e = (if he_state e = HealthUnhealthy then ho_interval_unhealthy (he_opts e) else ho_interval_healthy (he_opts e))"

text \<open>\<open>random\<close> is a number between 0 and 1.\<close>

definition with_jitter :: "rat \<Rightarrow> time \<Rightarrow> time" where
  "with_jitter random baseMs = max 0 \<lfloor>of_int baseMs * (1 + (random * 2 - 1) * (2 / 10)) + 1 / 2\<rfloor>"

definition schedule_next :: "time \<Rightarrow> rat \<Rightarrow> bool \<Rightarrow> time option \<Rightarrow> health_entry \<Rightarrow> health_entry" where
  "schedule_next now random stopped baseMs e =
     (if stopped then e
      else let delay = with_jitter random (default_to (interval_for e) baseMs)
           in e\<lparr>he_next_check := Some (now + delay), he_timer := Some (now + delay)\<rparr>)"

section \<open>Operations\<close>

definition fresh_entry :: "nat \<Rightarrow> health_opts \<Rightarrow> health_entry" where
  "fresh_entry n opts = \<lparr>he_number = n, he_opts = opts, he_state = HealthUnknown, he_failures = 0, he_successes = 0,
     he_last_error = None, he_last_check = None, he_next_check = None, he_changes = 0, he_inflight = False, he_timer = None\<rparr>"

definition register_check :: "time \<Rightarrow> rat \<Rightarrow> string \<Rightarrow> health_opts \<Rightarrow> health_monitor \<Rightarrow> health_monitor" where
  "register_check now random skillId opts m =
     (let e = fresh_entry (hm_next_number m) opts;
          e' = (if hm_started m \<and> \<not> hm_stopped m then schedule_next now random (hm_stopped m) (Some 0) e else e)
      in m\<lparr>hm_skills := m_set skillId e' (hm_skills m), hm_next_number := Suc (hm_next_number m)\<rparr>)"

definition start_monitor :: "time \<Rightarrow> rat \<Rightarrow> health_monitor \<Rightarrow> health_monitor" where
  "start_monitor now random m =
     (if hm_started m then m
      else m\<lparr>hm_started := True, hm_stopped := False, hm_skills := m_map (schedule_next now random False (Some 0)) (hm_skills m)\<rparr>)"

definition stop_monitor :: "health_monitor \<Rightarrow> health_monitor" where
  "stop_monitor m = m\<lparr>hm_stopped := True, hm_started := False, hm_skills := m_map (\<lambda>e. e\<lparr>he_timer := None\<rparr>) (hm_skills m)\<rparr>"

definition state_of :: "string \<Rightarrow> health_monitor \<Rightarrow> health_state option" where
  "state_of skillId m = map_option he_state (m_get (hm_skills m) skillId)"

text \<open>The timer of the current entry fires.\<close>

definition begin_check :: "string \<Rightarrow> health_monitor \<Rightarrow> health_monitor" where
  "begin_check skillId m =
     (case m_get (hm_skills m) skillId of
        None \<Rightarrow> m
      | Some e \<Rightarrow>
          if hm_stopped m \<or> he_inflight e then m
          else m\<lparr>hm_skills := m_set skillId (e\<lparr>he_inflight := True\<rparr>) (hm_skills m),
                 hm_running := hm_running m @ [(skillId, he_number e)]\<rparr>)"

definition count_result :: "time \<Rightarrow> bool \<Rightarrow> string option \<Rightarrow> health_entry \<Rightarrow> health_entry" where
  "count_result now ok err e =
     (if ok then e\<lparr>he_last_check := Some now, he_successes := Suc (he_successes e), he_failures := 0, he_last_error := None\<rparr>
      else e\<lparr>he_last_check := Some now, he_failures := Suc (he_failures e), he_successes := 0, he_last_error := err\<rparr>)"

definition next_state :: "health_entry \<Rightarrow> health_state option" where
  "next_state e =
     (if he_state e \<noteq> HealthHealthy \<and> ho_debounce_up (he_opts e) \<le> he_successes e then Some HealthHealthy
      else if he_state e \<noteq> HealthUnhealthy \<and> ho_debounce_down (he_opts e) \<le> he_failures e then Some HealthUnhealthy
      else None)"

definition apply_result ::
  "time \<Rightarrow> string \<Rightarrow> bool \<Rightarrow> string option \<Rightarrow> health_entry \<Rightarrow> health_entry \<times> health_transition option" where
  "apply_result now skillId ok err e0 =
     (let e = count_result now ok err e0 in
      case next_state e of
        None \<Rightarrow> (e, None)
      | Some s \<Rightarrow>
          if s \<noteq> he_state e
          then (e\<lparr>he_state := s, he_changes := Suc (he_changes e)\<rparr>,
                Some \<lparr>ht_skill = skillId, ht_from = he_state e, ht_to = s, ht_failures = he_failures e, ht_error = he_last_error e\<rparr>)
          else (e, None))"

text \<open>The settled promise: a value, or the text of the error it threw.\<close>

datatype check_outcome = CheckReturned bool | CheckThrew string

definition outcome_error :: "check_outcome \<Rightarrow> bool \<Rightarrow> bool \<times> string option" where
  "outcome_error r aborted =
     (case r of
        CheckReturned True \<Rightarrow> (True, None)
      | CheckReturned False \<Rightarrow> (False, Some (if aborted then ''timeout'' else ''health check returned false''))
      | CheckThrew msg \<Rightarrow> (False, Some msg))"

text \<open>A check settles: \<open>number\<close> tells which entry started it.\<close>

definition finish_check ::
  "time \<Rightarrow> rat \<Rightarrow> string \<Rightarrow> nat \<Rightarrow> check_outcome \<Rightarrow> bool \<Rightarrow> health_monitor \<Rightarrow> health_monitor \<times> health_transition option" where
  "finish_check now random skillId number r aborted m0 =
     (let m = m0\<lparr>hm_running := remove1 (skillId, number) (hm_running m0)\<rparr> in
      if (skillId, number) \<notin> set (hm_running m0) then (m0, None)
      else case m_get (hm_skills m) skillId of
        None \<Rightarrow> (m, None)
      | Some e \<Rightarrow>
          if he_number e \<noteq> number then (m, None)
          else if hm_stopped m then (m\<lparr>hm_skills := m_set skillId (e\<lparr>he_inflight := False\<rparr>) (hm_skills m)\<rparr>, None)
          else (case outcome_error r aborted of
                  (ok, err) \<Rightarrow>
                    (case apply_result now skillId ok err (e\<lparr>he_inflight := False\<rparr>) of
                       (e', t) \<Rightarrow>
                         (m\<lparr>hm_skills := m_set skillId (schedule_next now random (hm_stopped m) None e') (hm_skills m)\<rparr>, t))))"

record health_status =
  hs_skill :: string
  hs_state :: health_state
  hs_last_check :: "time option"
  hs_next_check :: "time option"
  hs_failures :: nat
  hs_successes :: nat
  hs_last_error :: "string option"
  hs_changes :: nat

definition nonzero :: "time option \<Rightarrow> time option" where
  "nonzero t = (if t = Some 0 then None else t)"

definition get_status :: "health_monitor \<Rightarrow> health_status list" where
  "get_status m = map (\<lambda>(i, e). \<lparr>hs_skill = i, hs_state = he_state e, hs_last_check = nonzero (he_last_check e),
     hs_next_check = nonzero (he_next_check e), hs_failures = he_failures e, hs_successes = he_successes e,
     hs_last_error = he_last_error e, hs_changes = he_changes e\<rparr>) (hm_skills m)"

section \<open>The hook of the daemon\<close>

definition on_transition :: "string \<Rightarrow> string \<Rightarrow> health_transition \<Rightarrow> cap_registry \<Rightarrow> cap_registry" where
  "on_transition self nowText t reg =
     snd (setAvailability self (ht_skill t) (if ht_to t = HealthHealthy then SkillHealthy else SkillUnhealthy)
            (int (ht_failures t)) nowText reg)"

section \<open>Runs\<close>

datatype health_op =
    HealthRegister time rat string health_opts
  | HealthStart time rat
  | HealthStop
  | HealthBegin string
  | HealthFinish time rat string string nat check_outcome bool

record health_world =
  hw_monitor :: health_monitor
  hw_registry :: cap_registry
  hw_transitions :: "health_transition list"

fun health_step :: "string \<Rightarrow> health_op \<Rightarrow> health_world \<Rightarrow> health_world" where
  "health_step self (HealthRegister now random i opts) w = w\<lparr>hw_monitor := register_check now random i opts (hw_monitor w)\<rparr>"
| "health_step self (HealthStart now random) w = w\<lparr>hw_monitor := start_monitor now random (hw_monitor w)\<rparr>"
| "health_step self HealthStop w = w\<lparr>hw_monitor := stop_monitor (hw_monitor w)\<rparr>"
| "health_step self (HealthBegin i) w = w\<lparr>hw_monitor := begin_check i (hw_monitor w)\<rparr>"
| "health_step self (HealthFinish now random nowText i n r aborted) w =
     (case finish_check now random i n r aborted (hw_monitor w) of
        (m, None) \<Rightarrow> w\<lparr>hw_monitor := m\<rparr>
      | (m, Some t) \<Rightarrow> w\<lparr>hw_monitor := m, hw_registry := on_transition self nowText t (hw_registry w),
                        hw_transitions := hw_transitions w @ [t]\<rparr>)"

section \<open>Hysteresis\<close>

text \<open>An entry after a history of results, oldest first.\<close>

definition after_results :: "health_opts \<Rightarrow> bool list \<Rightarrow> health_entry" where
  "after_results opts rs = fold (\<lambda>ok e. fst (apply_result 0 [] ok None e)) rs (fresh_entry 0 opts)"

definition trailing :: "bool \<Rightarrow> bool list \<Rightarrow> nat" where
  "trailing b rs = length (takeWhile (\<lambda>x. x = b) (rev rs))"

lemma trailing_simps [simp]:
  "trailing b [] = 0" "trailing b (rs @ [x]) = (if x = b then Suc (trailing b rs) else 0)"
  by (simp_all add: trailing_def)

lemma suffix_replicate: "suffix (replicate n b) rs \<longleftrightarrow> n \<le> trailing b rs"
proof (induction rs arbitrary: n rule: rev_induct)
  case (snoc x rs)
  show ?case
  proof (cases n)
    case (Suc k)
    have "suffix (replicate n b) (rs @ [x]) \<longleftrightarrow> b = x \<and> suffix (replicate k b) rs"
      unfolding Suc replicate_Suc replicate_append_same [symmetric] by simp
    then show ?thesis using snoc.IH Suc by auto
  qed simp
qed simp

lemma apply_result_fields:
  "he_opts (fst (apply_result now i ok err e)) = he_opts e"
  "he_successes (fst (apply_result now i ok err e)) = (if ok then Suc (he_successes e) else 0)"
  "he_failures (fst (apply_result now i ok err e)) = (if ok then 0 else Suc (he_failures e))"
  "he_number (fst (apply_result now i ok err e)) = he_number e"
  "he_inflight (fst (apply_result now i ok err e)) = he_inflight e"
  by (auto simp: apply_result_def count_result_def Let_def split: option.split)

lemma after_results_snoc: "after_results opts (rs @ [ok]) = fst (apply_result 0 [] ok None (after_results opts rs))"
  by (simp add: after_results_def)

lemma after_results_counts:
  "he_opts (after_results opts rs) = opts \<and> he_successes (after_results opts rs) = trailing True rs
   \<and> he_failures (after_results opts rs) = trailing False rs"
  by (induction rs rule: rev_induct)
    (simp_all add: after_results_snoc apply_result_fields, simp add: after_results_def fresh_entry_def)

text \<open>The last full block of one result, with no full block of the other one after it.\<close>

definition settled :: "bool \<Rightarrow> nat \<Rightarrow> nat \<Rightarrow> bool list \<Rightarrow> bool" where
  "settled b up down rs \<longleftrightarrow> (\<exists>pre suf. rs = pre @ replicate up b @ suf \<and> \<not> sublist (replicate down (\<not> b)) suf)"

lemma trailing_append:
  "trailing b (xs @ ys) = (if \<forall>y \<in> set ys. y = b then length ys + trailing b xs else trailing b ys)"
  by (simp only: trailing_def rev_append takeWhile_append set_rev if_distrib [of length] length_append length_rev)

lemma settled_snoc:
  assumes "0 < up" "0 < down"
  shows "settled b up down (rs @ [x]) \<longleftrightarrow>
    (if x = b then settled b up down rs \<or> up \<le> trailing b (rs @ [x])
     else settled b up down rs \<and> \<not> down \<le> trailing (\<not> b) (rs @ [x]))"
proof
  assume "settled b up down (rs @ [x])"
  then obtain pre suf where w: "rs @ [x] = pre @ replicate up b @ suf" "\<not> sublist (replicate down (\<not> b)) suf"
    by (auto simp: settled_def)
  show "if x = b then settled b up down rs \<or> up \<le> trailing b (rs @ [x])
     else settled b up down rs \<and> \<not> down \<le> trailing (\<not> b) (rs @ [x])"
  proof (cases suf rule: rev_cases)
    case Nil
    then have "suffix (replicate up b) (rs @ [x])" using w(1) by (simp add: suffix_def)
    then have "up \<le> trailing b (rs @ [x])" by (simp only: suffix_replicate)
    then show ?thesis using assms(1) by (cases "x = b") simp_all
  next
    case (snoc suf' y)
    then have rs: "rs = pre @ replicate up b @ suf'" "y = x" using w(1) by (simp_all add: append_assoc [symmetric] del: append_assoc)
    have st: "settled b up down rs"
      unfolding settled_def using rs(1) w(2) snoc by (auto simp: sublist_snoc)
    have "\<not> down \<le> trailing (\<not> b) (rs @ [x])"
    proof
      assume "down \<le> trailing (\<not> b) (rs @ [x])"
      moreover have "trailing (\<not> b) (pre @ replicate up b) = 0"
        using assms(1) trailing_append [of "\<not> b" pre "replicate up b"] trailing_simps(2) [of "\<not> b" "replicate (up - 1) b" b]
        by (cases up) (simp_all add: replicate_append_same)
      ultimately have "down \<le> trailing (\<not> b) suf"
        using trailing_append [of "\<not> b" "pre @ replicate up b" suf] trailing_append [of "\<not> b" "[]" suf] w(1)
        by (simp split: if_splits)
      then have "suffix (replicate down (\<not> b)) suf" by (simp only: suffix_replicate)
      then show False using w(2) by (simp add: suffix_imp_sublist)
    qed
    then show ?thesis using st by (auto split: if_splits)
  qed
next
  assume r: "if x = b then settled b up down rs \<or> up \<le> trailing b (rs @ [x])
     else settled b up down rs \<and> \<not> down \<le> trailing (\<not> b) (rs @ [x])"
  have keep: "settled b up down (rs @ [x])" if st: "settled b up down rs" and few: "\<not> down \<le> trailing (\<not> b) (rs @ [x])"
  proof -
    obtain pre suf where w: "rs = pre @ replicate up b @ suf" "\<not> sublist (replicate down (\<not> b)) suf"
      using st by (auto simp: settled_def)
    have "\<not> suffix (replicate down (\<not> b)) (suf @ [x])"
    proof
      assume "suffix (replicate down (\<not> b)) (suf @ [x])"
      then have "suffix (replicate down (\<not> b)) (rs @ [x])" unfolding w(1) by (metis append_assoc suffix_appendI)
      then show False using few by (simp only: suffix_replicate)
    qed
    then have "\<not> sublist (replicate down (\<not> b)) (suf @ [x])" using w(2) by (simp add: sublist_snoc)
    then show ?thesis unfolding settled_def using w(1) by (intro exI [of _ pre] exI [of _ "suf @ [x]"]) simp
  qed
  show "settled b up down (rs @ [x])"
  proof (cases "settled b up down rs \<and> \<not> down \<le> trailing (\<not> b) (rs @ [x])")
    case False
    then have "up \<le> trailing b (rs @ [x])" using r assms(2) by (auto split: if_splits)
    then have "suffix (replicate up b) (rs @ [x])" by (simp only: suffix_replicate)
    then obtain pre where "rs @ [x] = pre @ replicate up b @ []" by (auto simp: suffix_def)
    moreover have "\<not> sublist (replicate down (\<not> b)) []" using assms(2) by (cases down) simp_all
    ultimately show ?thesis unfolding settled_def by blast
  qed (use keep in blast)
qed

lemma apply_result_state:
  assumes "0 < ho_debounce_up (he_opts e)" "0 < ho_debounce_down (he_opts e)"
  shows "he_state (fst (apply_result now i ok err e)) =
     (if ok then if ho_debounce_up (he_opts e) \<le> Suc (he_successes e) then HealthHealthy else he_state e
      else if ho_debounce_down (he_opts e) \<le> Suc (he_failures e) then HealthUnhealthy else he_state e)"
  using assms by (auto simp: apply_result_def count_result_def next_state_def Let_def)

text \<open>C35. Hysteresis. After any sequence of results the state of a skill is exactly what the last full block says: healthy
  if there was a block of \<open>debounceUp\<close> successes in a row and no block of \<open>debounceDown\<close> failures after it, unhealthy
  if there was a block of failures and no block of successes after it, unknown while neither has occurred; so single
  flaps change nothing.\<close>

theorem hysteresis_spec:
  assumes "0 < ho_debounce_up opts" "0 < ho_debounce_down opts"
  shows "(he_state (after_results opts rs) = HealthHealthy \<longleftrightarrow> settled True (ho_debounce_up opts) (ho_debounce_down opts) rs)
    \<and> (he_state (after_results opts rs) = HealthUnhealthy \<longleftrightarrow> settled False (ho_debounce_down opts) (ho_debounce_up opts) rs)"
proof (induction rs rule: rev_induct)
  case Nil
  have "\<not> settled b up down []" if "0 < up" for b up down using that by (auto simp: settled_def)
  then show ?case using assms by (simp add: after_results_def fresh_entry_def)
next
  case (snoc ok rs)
  note c = after_results_counts [of opts rs]
  show ?case
    unfolding after_results_snoc settled_snoc [OF assms] settled_snoc [OF assms(2,1)]
    using snoc.IH c assms apply_result_state [of "after_results opts rs" 0 "[]" ok None] by (cases ok) auto
qed

theorem hysteresis_spec_witness:
  "he_state (after_results DEFAULT_SKILL_HEALTH_OPTS [True, True, False, False, True, False, False]) = HealthHealthy"
proof -
  have "settled True 2 3 [True, True, False, False, True, False, False]"
    unfolding settled_def
  proof (intro exI conjI)
    show "[True, True, False, False, True, False, False] = [] @ replicate 2 True @ [False, False, True, False, False]"
      by (simp add: numeral_2_eq_2)
    show "\<not> sublist (replicate 3 (\<not> True)) [False, False, True, False, False]" by (simp add: numeral_3_eq_3 sublist_Cons_right)
  qed
  then show ?thesis
    using hysteresis_spec [of DEFAULT_SKILL_HEALTH_OPTS "[True, True, False, False, True, False, False]"]
    by (simp add: DEFAULT_SKILL_HEALTH_OPTS_def)
qed

section \<open>The monitor and the registry\<close>

definition shown :: "health_state \<Rightarrow> skill_availability" where
  "shown s = (if s = HealthHealthy then SkillHealthy else SkillUnhealthy)"

definition entry_ok :: "string \<Rightarrow> cap_registry \<Rightarrow> string \<Rightarrow> health_entry \<Rightarrow> bool" where
  "entry_ok self reg i e \<longleftrightarrow> he_state e = HealthUnknown \<or> getAvailability self i reg = shown (he_state e)"

definition monitor_ok :: "health_monitor \<Rightarrow> bool" where
  "monitor_ok m \<longleftrightarrow> distinct (hm_running m) \<and> (\<forall>(i, n) \<in> set (hm_running m). n < hm_next_number m)
     \<and> (\<forall>i e. m_get (hm_skills m) i = Some e \<longrightarrow>
          he_number e < hm_next_number m \<and> (he_inflight e \<longleftrightarrow> (i, he_number e) \<in> set (hm_running m)))"

definition health_inv :: "string \<Rightarrow> health_world \<Rightarrow> bool" where
  "health_inv self w \<longleftrightarrow> monitor_ok (hw_monitor w)
     \<and> (\<forall>i e. m_get (hm_skills (hw_monitor w)) i = Some e \<longrightarrow> entry_ok self (hw_registry w) i e)"

lemma schedule_fields [simp]:
  "he_number (schedule_next now random stopped base e) = he_number e"
  "he_state (schedule_next now random stopped base e) = he_state e"
  "he_inflight (schedule_next now random stopped base e) = he_inflight e"
  by (simp_all add: schedule_next_def Let_def)

lemma fresh_fields [simp]:
  "he_number (fresh_entry n opts) = n" "he_state (fresh_entry n opts) = HealthUnknown" "he_inflight (fresh_entry n opts) = False"
  by (simp_all add: fresh_entry_def)

lemma monitor_ok_map:
  assumes "monitor_ok m" "\<And>e. he_number (f e) = he_number e \<and> he_inflight (f e) = he_inflight e"
    and "hm_skills m' = m_map f (hm_skills m)" "hm_running m' = hm_running m" "hm_next_number m' = hm_next_number m"
  shows "monitor_ok m'"
  using assms by (auto simp: monitor_ok_def)

lemma register_ok: "monitor_ok m \<Longrightarrow> monitor_ok (register_check now random i opts m)"
  by (auto simp: monitor_ok_def register_check_def Let_def fresh_entry_def less_SucI split: if_splits dest: less_imp_le_nat)

lemma begin_ok: "monitor_ok m \<Longrightarrow> monitor_ok (begin_check i m)"
  by (auto simp: monitor_ok_def begin_check_def split: option.splits if_splits)

lemma apply_result_shape:
  assumes "apply_result now i ok err e = (e', t)"
  shows "he_number e' = he_number e" "he_inflight e' = he_inflight e"
    "t = None \<Longrightarrow> he_state e' = he_state e"
    "t = Some tr \<Longrightarrow> ht_skill tr = i \<and> ht_from tr = he_state e \<and> ht_to tr = he_state e' \<and> he_state e' \<noteq> he_state e
       \<and> he_state e' \<noteq> HealthUnknown"
  using assms apply_result_fields [of now i ok err e]
  by (auto simp: apply_result_def count_result_def next_state_def Let_def split: option.splits if_splits)

text \<open>What a settled check may do: nothing to any skill, clear a flag, or count a result of the current entry.\<close>

lemma finish_check_cases:
  assumes "finish_check now random i n r aborted m = (m', t)"
  obtains
    (unknown) "m' = m" "t = None" "(i, n) \<notin> set (hm_running m)"
  | (stale) "m' = m\<lparr>hm_running := remove1 (i, n) (hm_running m)\<rparr>" "t = None" "(i, n) \<in> set (hm_running m)"
      "\<forall>e. m_get (hm_skills m) i = Some e \<longrightarrow> he_number e \<noteq> n"
  | (stopped) e where "m_get (hm_skills m) i = Some e" "he_number e = n" "hm_stopped m" "t = None" "(i, n) \<in> set (hm_running m)"
      "m' = m\<lparr>hm_running := remove1 (i, n) (hm_running m), hm_skills := m_set i (e\<lparr>he_inflight := False\<rparr>) (hm_skills m)\<rparr>"
  | (counted) e e' ok err where "m_get (hm_skills m) i = Some e" "he_number e = n" "\<not> hm_stopped m" "(i, n) \<in> set (hm_running m)"
      "apply_result now i ok err (e\<lparr>he_inflight := False\<rparr>) = (e', t)"
      "m' = m\<lparr>hm_running := remove1 (i, n) (hm_running m), hm_skills := m_set i (schedule_next now random False None e') (hm_skills m)\<rparr>"
proof (cases "(i, n) \<in> set (hm_running m)")
  case False
  then show ?thesis using assms unknown by (simp add: finish_check_def Let_def)
next
  case run: True
  show ?thesis
  proof (cases "\<exists>e. m_get (hm_skills m) i = Some e \<and> he_number e = n")
    case False
    then have "m' = m\<lparr>hm_running := remove1 (i, n) (hm_running m)\<rparr> \<and> t = None"
      using assms run by (auto simp: finish_check_def Let_def split: option.splits if_splits)
    then show ?thesis using stale run False by blast
  next
    case True
    then obtain e where e: "m_get (hm_skills m) i = Some e" "he_number e = n" by blast
    show ?thesis
    proof (cases "hm_stopped m")
      case st: True
      show ?thesis by (rule stopped [OF e st]) (use assms run e st in \<open>simp_all add: finish_check_def Let_def\<close>)
    next
      case False
      obtain ok err where o: "outcome_error r aborted = (ok, err)" by fastforce
      obtain e' t' where a: "apply_result now i ok err (e\<lparr>he_inflight := False\<rparr>) = (e', t')" by fastforce
      have "m' = m\<lparr>hm_running := remove1 (i, n) (hm_running m), hm_skills := m_set i (schedule_next now random False None e') (hm_skills m)\<rparr>
          \<and> t = t'"
        using assms run e False o a by (simp add: finish_check_def Let_def)
      then show ?thesis using counted [OF e False run] a by blast
    qed
  qed
qed

lemma monitor_ok_settle:
  assumes "monitor_ok m" "m_get (hm_skills m) i = Some e" "he_number e' = he_number e" "\<not> he_inflight e'"
  shows "monitor_ok (m\<lparr>hm_running := remove1 (i, he_number e) (hm_running m), hm_skills := m_set i e' (hm_skills m)\<rparr>)"
proof -
  have d: "distinct (hm_running m)" using assms(1) by (simp add: monitor_ok_def)
  then have set: "set (remove1 (i, he_number e) (hm_running m)) = set (hm_running m) - {(i, he_number e)}" by (simp add: set_remove1_eq)
  show ?thesis
    using assms d unfolding monitor_ok_def by (auto simp: set)
qed

lemma finish_ok:
  assumes "monitor_ok m" "finish_check now random i n r aborted m = (m', t)" shows "monitor_ok m'"
  using assms(2)
proof (cases rule: finish_check_cases)
  case stale
  have d: "distinct (hm_running m)" using assms(1) by (simp add: monitor_ok_def)
  then have set: "set (remove1 (i, n) (hm_running m)) = set (hm_running m) - {(i, n)}" by (simp add: set_remove1_eq)
  show ?thesis using assms(1) d stale unfolding monitor_ok_def by (auto simp: set)
next
  case (stopped e)
  then show ?thesis using monitor_ok_settle [OF assms(1), of i e "e\<lparr>he_inflight := False\<rparr>"] by simp
next
  case (counted e e' ok err)
  then show ?thesis
    using monitor_ok_settle [OF assms(1), of i e "schedule_next now random False None e'"] apply_result_shape(1,2) [OF counted(5)] by simp
qed (use assms(1) in simp)

lemma on_transition_availability:
  "getAvailability self j (on_transition self nowText t reg) =
     (if j = ht_skill t then shown (ht_to t) else getAvailability self j reg)"
  by (auto simp: on_transition_def getAvailability_def getAvailabilityRecord_def setAvailability_def Let_def makeKey_def shown_def)

lemma health_inv_entry:
  "health_inv self w \<Longrightarrow> m_get (hm_skills (hw_monitor w)) i = Some e \<Longrightarrow> entry_ok self (hw_registry w) i e"
  by (simp add: health_inv_def)

lemma health_inv_map:
  assumes "health_inv self w" "\<And>e. he_number (f e) = he_number e \<and> he_inflight (f e) = he_inflight e \<and> he_state (f e) = he_state e"
    and "hm_skills m' = m_map f (hm_skills (hw_monitor w))" "hm_running m' = hm_running (hw_monitor w)"
    "hm_next_number m' = hm_next_number (hw_monitor w)"
  shows "health_inv self (w\<lparr>hw_monitor := m'\<rparr>)"
proof -
  have "monitor_ok m'" using monitor_ok_map [of "hw_monitor w" f m'] assms by (simp add: health_inv_def)
  moreover have "entry_ok self (hw_registry w) i e" if "m_get (hm_skills m') i = Some e" for i e
  proof -
    obtain z where "m_get (hm_skills (hw_monitor w)) i = Some z" "e = f z" using \<open>m_get (hm_skills m') i = Some e\<close> assms(3) by auto
    then show ?thesis using health_inv_entry [OF assms(1)] assms(2) by (auto simp: entry_ok_def)
  qed
  ultimately show ?thesis by (simp add: health_inv_def)
qed

lemma health_step_inv: "health_inv self w \<Longrightarrow> health_inv self (health_step self op w)"
proof (cases op)
  case (HealthRegister now random i opts)
  assume inv: "health_inv self w"
  then have "monitor_ok (register_check now random i opts (hw_monitor w))" using register_ok by (simp add: health_inv_def)
  then show ?thesis
    using inv HealthRegister by (simp add: health_inv_def) (simp add: register_check_def Let_def entry_ok_def)
next
  case (HealthStart now random)
  assume inv: "health_inv self w"
  then show ?thesis
    using HealthStart health_inv_map [of self w "schedule_next now random False (Some 0)"] by (simp add: start_monitor_def)
next
  case HealthStop
  assume inv: "health_inv self w"
  then show ?thesis using HealthStop health_inv_map [of self w "\<lambda>e. e\<lparr>he_timer := None\<rparr>"] by (simp add: stop_monitor_def)
next
  case (HealthBegin i)
  assume inv: "health_inv self w"
  then show ?thesis
    using HealthBegin begin_ok by (auto simp: health_inv_def begin_check_def entry_ok_def split: option.splits)
next
  case (HealthFinish now random nowText i n r aborted)
  assume inv: "health_inv self w"
  obtain m' t where f: "finish_check now random i n r aborted (hw_monitor w) = (m', t)" by fastforce
  have ok: "monitor_ok m'" using finish_ok [OF _ f] inv by (simp add: health_inv_def)
  from f show ?thesis
  proof (cases rule: finish_check_cases)
    case (counted e e' ok err)
    note shape = apply_result_shape [OF counted(5)]
    show ?thesis
    proof (cases t)
      case None
      then show ?thesis using inv HealthFinish f ok counted shape(3) by (auto simp: health_inv_def entry_ok_def)
    next
      case (Some tr)
      note tr = shape(4) [OF Some]
      have "entry_ok self (on_transition self nowText tr (hw_registry w)) j x" if "m_get (hm_skills m') j = Some x" for j x
      proof (cases "j = i")
        case True
        then have x: "x = schedule_next now random False None e'" using that counted(6) by simp
        show ?thesis using True tr unfolding x by (simp add: entry_ok_def on_transition_availability)
      next
        case False
        then have "m_get (hm_skills (hw_monitor w)) j = Some x" using that counted(6) by simp
        then show ?thesis using inv False tr by (auto simp: health_inv_def entry_ok_def on_transition_availability)
      qed
      then show ?thesis using ok HealthFinish f Some by (simp add: health_inv_def)
    qed
  qed (use inv ok HealthFinish f in \<open>auto simp: health_inv_def entry_ok_def\<close>)
qed

text \<open>C36. Along every interleaving of registrations, starts, stops, firing timers and settling checks, at most one check of
  an entry is in flight, and once the monitor has settled on a state of a skill, the registry routes to this node's
  capability for it exactly when the state is healthy (and the capability is not offline). A check that settles after the
  monitor was stopped, or after its skill was registered anew, changes neither the registry nor any state.\<close>

theorem monitor_routes:
  assumes "hw_monitor w0 = new_SkillHealthMonitor" "w = fold (health_step self) ops w0"
  shows "distinct (hm_running (hw_monitor w))
    \<and> (\<forall>i e c. m_get (hm_skills (hw_monitor w)) i = Some e \<longrightarrow> he_state e \<noteq> HealthUnknown \<longrightarrow>
         cap_agent_id c = self \<longrightarrow> cap_skill_id c = i \<longrightarrow>
         (routable (hw_registry w) c \<longleftrightarrow> cap_health c \<noteq> Offline \<and> he_state e = HealthHealthy))
    \<and> (\<forall>now random nowText i n r aborted.
         hm_stopped (hw_monitor w) \<or> (\<forall>e. m_get (hm_skills (hw_monitor w)) i = Some e \<longrightarrow> he_number e \<noteq> n) \<longrightarrow>
         (let w' = health_step self (HealthFinish now random nowText i n r aborted) w in
          hw_registry w' = hw_registry w \<and> hw_transitions w' = hw_transitions w
          \<and> (\<forall>j. state_of j (hw_monitor w') = state_of j (hw_monitor w))))"
proof -
  have "health_inv self (fold (health_step self) ops v)" if "health_inv self v" for v
    using that by (induction ops arbitrary: v) (simp_all add: health_step_inv)
  moreover have "health_inv self w0"
    using assms(1) by (simp add: health_inv_def new_SkillHealthMonitor_def monitor_ok_def)
  ultimately have inv: "health_inv self w" using assms(2) by simp
  have routes: "routable (hw_registry w) c \<longleftrightarrow> cap_health c \<noteq> Offline \<and> he_state e = HealthHealthy"
    if "m_get (hm_skills (hw_monitor w)) i = Some e" "he_state e \<noteq> HealthUnknown" "cap_agent_id c = self" "cap_skill_id c = i" for i e c
  proof -
    have "getAvailability self i (hw_registry w) = shown (he_state e)"
      using health_inv_entry [OF inv that(1)] that(2) by (simp add: entry_ok_def)
    then show ?thesis using that by (simp add: routable_def shown_def)
  qed
  have quiet: "hw_registry (health_step self (HealthFinish now random nowText i n r aborted) w) = hw_registry w
      \<and> hw_transitions (health_step self (HealthFinish now random nowText i n r aborted) w) = hw_transitions w
      \<and> (\<forall>j. state_of j (hw_monitor (health_step self (HealthFinish now random nowText i n r aborted) w)) = state_of j (hw_monitor w))"
    if q: "hm_stopped (hw_monitor w) \<or> (\<forall>e. m_get (hm_skills (hw_monitor w)) i = Some e \<longrightarrow> he_number e \<noteq> n)"
    for now random nowText i n r aborted
  proof -
    obtain m' t where f: "finish_check now random i n r aborted (hw_monitor w) = (m', t)" by fastforce
    from f show ?thesis
      by (cases rule: finish_check_cases) (use f q in \<open>auto simp: state_of_def\<close>)
  qed
  show ?thesis using inv routes quiet unfolding health_inv_def monitor_ok_def Let_def by blast
qed

definition ex_health_ops :: "health_op list" where
  "ex_health_ops = [HealthRegister 0 0 ''s'' (DEFAULT_SKILL_HEALTH_OPTS\<lparr>ho_debounce_down := 1\<rparr>), HealthStart 0 0, HealthBegin ''s'',
     HealthFinish 9 0 ''t'' ''s'' 0 (CheckReturned False) True]"

definition ex_health_world :: health_world where
  "ex_health_world = \<lparr>hw_monitor = new_SkillHealthMonitor, hw_registry = register_capability 5 (ex_cap ''n'' ''s'' 0) new_CapabilityRegistry,
     hw_transitions = []\<rparr>"

theorem monitor_routes_witness:
  "\<not> routable (hw_registry (fold (health_step ''n'') ex_health_ops ex_health_world)) (ex_cap ''n'' ''s'' 5)"
proof -
  let ?w = "fold (health_step ''n'') ex_health_ops ex_health_world"
  have "map_option he_state (m_get (hm_skills (hw_monitor ?w)) ''s'') = Some HealthUnhealthy" by code_simp
  then obtain e where e: "m_get (hm_skills (hw_monitor ?w)) ''s'' = Some e" "he_state e = HealthUnhealthy" by auto
  have c: "cap_agent_id (ex_cap ''n'' ''s'' 5) = ''n''" "cap_skill_id (ex_cap ''n'' ''s'' 5) = ''s''" by (simp_all add: ex_cap_def)
  have "hw_monitor ex_health_world = new_SkillHealthMonitor" by (simp add: ex_health_world_def)
  from monitor_routes [OF this refl, of "''n''" ex_health_ops] e c show ?thesis by simp
qed

end
