(* ===== verification/Registry_Sync.thy ===== *)
theory Registry_Sync
  imports Prelude "HOL-Library.Word"
begin

text \<open>
  Anti-entropy of the replicated capability registry: the framing of \<open>registry-sync-protocol.ts\<close>, the coordinator of
  \<open>registry-sync-coordinator.ts\<close> and the inbound handler of \<open>registry-sync-libp2p-adapter.ts\<close>. Automerge is an argument
  (\<open>sync_env\<close>): a document, a state per peer, and the two functions that produce and consume messages, either of which
  may throw. The entries of the coordinator are mutable objects, which a round keeps while the map may already hold
  another one under the same peer; they live in a store that only grows, and so do the rounds. A round is split where
  the code waits: it begins, its message is sent or fails, the peer is hung up, it ends.
\<close>

section \<open>Frames\<close>

type_synonym octets = "8 word list"

definition REGISTRY_SYNC_MAX_FRAME_BYTES :: nat where
  "REGISTRY_SYNC_MAX_FRAME_BYTES = 8 * 1024 * 1024"

text \<open>\<open>setUint32\<close> and \<open>getUint32\<close>, little endian.\<close>

definition set_u32 :: "nat \<Rightarrow> octets" where
  "set_u32 n = [of_nat n, of_nat (n div 2 ^ 8), of_nat (n div 2 ^ 16), of_nat (n div 2 ^ 24)]"

definition get_u32 :: "octets \<Rightarrow> nat" where
  "get_u32 bs = unat (bs ! 0) + unat (bs ! 1) * 2 ^ 8 + unat (bs ! 2) * 2 ^ 16 + unat (bs ! 3) * 2 ^ 24"

definition encodeFrame :: "octets \<Rightarrow> octets option" where
  "encodeFrame payload =
     (if REGISTRY_SYNC_MAX_FRAME_BYTES < length payload then None else Some (set_u32 (length payload) @ payload))"

text \<open>What the source of a stream yields: a chunk, or a failure (the stream breaks or the read is aborted).\<close>

datatype stream_item = Chunk octets | Broken

datatype frame_error = ReadAborted | EndedMidHeader nat | EndedMidPayload nat nat | FrameTooLarge nat | TrailingBytes

text \<open>The loop that fills the payload, and the read that expects the end of the stream.\<close>

fun read_payload :: "nat \<Rightarrow> octets \<Rightarrow> stream_item list \<Rightarrow> frame_error + octets option" where
  "read_payload n p [] = (if length p < n then Inl (EndedMidPayload (length p) n) else Inr (Some p))"
| "read_payload n p (Broken # s) = Inl ReadAborted"
| "read_payload n p (Chunk c # s) =
     (if length p < n
      then if c = [] then read_payload n p s
           else if n < length p + length c then Inl TrailingBytes
           else read_payload n (p @ c) s
      else if c \<noteq> [] then Inl TrailingBytes else Inr (Some p))"

text \<open>The loop that collects the header.\<close>

fun read_header :: "octets \<Rightarrow> stream_item list \<Rightarrow> frame_error + octets option" where
  "read_header h [] = (if h = [] then Inr None else Inl (EndedMidHeader (length h)))"
| "read_header h (Broken # s) = Inl ReadAborted"
| "read_header h (Chunk c # s) =
     (if c = [] then read_header h s
      else let h' = h @ c in
        if length h' < 4 then read_header h' s
        else let n = get_u32 h' in
          if REGISTRY_SYNC_MAX_FRAME_BYTES < n then Inl (FrameTooLarge n)
          else if n < length (drop 4 h') then Inl TrailingBytes
          else read_payload n (drop 4 h') s)"

definition readFrame :: "stream_item list \<Rightarrow> frame_error + octets option" where
  "readFrame s = read_header [] s"

subsection \<open>Reading is the inverse of writing\<close>

lemma length_set_u32 [simp]: "length (set_u32 n) = 4"
  by (simp add: set_u32_def)

lemma digits_256:
  assumes "n < 2 ^ 32"
  shows "n mod 256 + n div 256 mod 256 * 256 + n div 65536 mod 256 * 65536 + n div 16777216 mod 256 * 16777216 = (n :: nat)"
proof -
  define a b c where "a = n div 256" and "b = a div 256" and "c = b div 256"
  have d: "n div 65536 = b" "n div 16777216 = c" by (simp_all add: a_def b_def c_def div_mult2_eq [symmetric])
  have "c < 256" using assms by (simp add: d(2) [symmetric] div_less_iff_less_mult)
  moreover have "n = a * 256 + n mod 256" "a = b * 256 + a mod 256" "b = c * 256 + b mod 256"
    unfolding a_def b_def c_def by simp_all
  ultimately show ?thesis unfolding d a_def [symmetric] by simp
qed

lemma get_set_u32: "n < 2 ^ 32 \<Longrightarrow> get_u32 (set_u32 n @ bs) = n"
  using digits_256 [of n] by (simp add: get_u32_def set_u32_def unat_of_nat nth_append)

lemma of_nat_octet: "n mod 256 = unat w \<Longrightarrow> (of_nat n :: 8 word) = w"
  by (simp add: word_unat_eq_iff unat_of_nat)

lemma set_get_u32:
  assumes "length h = 4"
  shows "set_u32 (get_u32 h) = h"
proof -
  obtain a b c d where h: "h = [a, b, c, d]"
    using assms by (auto simp: length_Suc_conv numeral_eq_Suc)
  have u: "unat a < 256" "unat b < 256" "unat c < 256" "unat d < 256"
    using unsigned_less [of a] unsigned_less [of b] unsigned_less [of c] unsigned_less [of d] by simp_all
  have step: "(x + 256 * y) mod 256 = x" "(x + 256 * y) div 256 = y" if "x < 256" for x y :: nat using that by simp_all
  let ?n = "unat a + unat b * 256 + unat c * 65536 + unat d * 16777216"
  have n: "?n = unat a + 256 * (unat b + 256 * (unat c + 256 * unat d))" by simp
  have "k div 65536 = k div 256 div 256" "k div 16777216 = k div 256 div 256 div 256" for k :: nat
    by (simp_all add: div_mult2_eq [symmetric])
  then have "?n mod 256 = unat a" "?n div 256 mod 256 = unat b" "?n div 65536 mod 256 = unat c" "?n div 16777216 mod 256 = unat d"
    unfolding n using u by (simp_all only: step mod_less)
  then have "of_nat ?n = a" "of_nat (?n div 256) = b" "of_nat (?n div 65536) = c" "of_nat (?n div 16777216) = d"
    by (simp_all only: of_nat_octet)
  moreover have "get_u32 h = ?n" by (simp add: h get_u32_def nth_Cons')
  moreover have "(2 :: nat) ^ 8 = 256" "(2 :: nat) ^ 16 = 65536" "(2 :: nat) ^ 24 = 16777216" by simp_all
  ultimately show ?thesis by (simp only: set_u32_def h)
qed

lemma read_payload_exact:
  "length p + length (concat cs) = n \<Longrightarrow> read_payload n p (map Chunk cs) = Inr (Some (p @ concat cs))"
  by (induction cs arbitrary: p) auto

lemma read_payload_result:
  assumes "length p \<le> n" "[] \<notin> set cs"
  shows "read_payload n p (map Chunk cs) =
     (if length p + length (concat cs) < n then Inl (EndedMidPayload (length p + length (concat cs)) n)
      else if length p + length (concat cs) = n then Inr (Some (p @ concat cs)) else Inl TrailingBytes)"
  using assms by (induction cs arbitrary: p) (auto simp: neq_Nil_conv)

definition frame_of :: "octets \<Rightarrow> frame_error + octets option" where
  "frame_of bs =
     (if bs = [] then Inr None
      else if length bs < 4 then Inl (EndedMidHeader (length bs))
      else let n = get_u32 bs in
        if REGISTRY_SYNC_MAX_FRAME_BYTES < n then Inl (FrameTooLarge n)
        else if length bs - 4 < n then Inl (EndedMidPayload (length bs - 4) n)
        else if length bs - 4 = n then Inr (Some (drop 4 bs)) else Inl TrailingBytes)"

lemma get_u32_append: "4 \<le> length h \<Longrightarrow> get_u32 (h @ bs) = get_u32 h"
  by (auto simp: get_u32_def nth_append)

lemma read_header_result:
  assumes "length h < 4" "[] \<notin> set cs"
  shows "read_header h (map Chunk cs) = frame_of (h @ concat cs)"
  using assms
proof (induction cs arbitrary: h)
  case (Cons c cs)
  show ?case
  proof (cases "length (h @ c) < 4")
    case True
    then show ?thesis using Cons.IH [of "h @ c"] Cons.prems by (auto simp: Let_def)
  next
    case False
    have n: "get_u32 (h @ c @ concat cs) = get_u32 (h @ c)" using get_u32_append [of "h @ c"] False by simp
    show ?thesis
    proof (cases "length (drop 4 (h @ c)) \<le> get_u32 (h @ c)")
      case True
      have "drop 4 (h @ c @ concat cs) = drop 4 (h @ c) @ concat cs" using False by simp
      then show ?thesis
        using False True Cons.prems read_payload_result [OF True, of cs] n by (auto simp: frame_of_def Let_def)
    next
      case big: False
      then show ?thesis using False Cons.prems n by (auto simp: frame_of_def Let_def)
    qed
  qed
qed (auto simp: frame_of_def)

lemma frame_of_Some: "frame_of bs = Inr (Some p) \<longleftrightarrow> encodeFrame p = Some bs"
proof
  assume "frame_of bs = Inr (Some p)"
  then have bs: "4 \<le> length bs" "get_u32 bs = length bs - 4" "p = drop 4 bs" "\<not> REGISTRY_SYNC_MAX_FRAME_BYTES < length p"
    by (auto simp: frame_of_def Let_def split: if_splits)
  have "set_u32 (get_u32 (take 4 bs)) = take 4 bs" using bs(1) by (intro set_get_u32) simp
  moreover have "get_u32 (take 4 bs) = length p"
    using bs get_u32_append [of "take 4 bs" "drop 4 bs"] by simp
  ultimately show "encodeFrame p = Some bs" using bs(3,4) by (simp add: encodeFrame_def)
next
  assume e: "encodeFrame p = Some bs"
  then have bs: "bs = set_u32 (length p) @ p" "length p \<le> REGISTRY_SYNC_MAX_FRAME_BYTES" by (auto simp: encodeFrame_def split: if_splits)
  then have "get_u32 bs = length p" by (simp add: get_set_u32 REGISTRY_SYNC_MAX_FRAME_BYTES_def)
  then show "frame_of bs = Inr (Some p)" using bs by (auto simp: frame_of_def Let_def set_u32_def)
qed

lemma read_header_exact:
  assumes "length h < 4" "encodeFrame p = Some (h @ concat cs)"
  shows "read_header h (map Chunk cs) = Inr (Some p)"
  using assms
proof (induction cs arbitrary: h)
  case (Cons c cs)
  have f: "frame_of (h @ c @ concat cs) = Inr (Some p)" using Cons.prems(2) by (simp add: frame_of_Some)
  show ?case
  proof (cases "length (h @ c) < 4")
    case True
    then show ?thesis using Cons.IH [of "h @ c"] Cons.prems by (auto simp: Let_def)
  next
    case False
    have n: "get_u32 (h @ c @ concat cs) = get_u32 (h @ c)" using get_u32_append [of "h @ c"] False by simp
    have "c \<noteq> []" using False Cons.prems(1) by auto
    then show ?thesis
      using f False n read_payload_exact [of "drop 4 (h @ c)" cs "get_u32 (h @ c)"]
      by (auto simp: frame_of_def Let_def split: if_splits)
  qed
qed (auto simp: encodeFrame_def split: if_splits dest: arg_cong [where f = length])

text \<open>The bytes that a reader takes from a stream: whole chunks, up to its end or to an empty chunk.\<close>

definition taken :: "stream_item list \<Rightarrow> octets \<Rightarrow> bool" where
  "taken s bs \<longleftrightarrow> (\<exists>cs rest. s = map Chunk cs @ rest \<and> concat cs = bs \<and> (rest = [] \<or> (\<exists>r. rest = Chunk [] # r)))"

lemma taken_simps [simp]:
  "taken [] bs \<longleftrightarrow> bs = []" "\<not> taken (Broken # s) bs"
  "taken (Chunk c # s) bs \<longleftrightarrow> c = [] \<and> bs = [] \<or> (\<exists>bs'. bs = c @ bs' \<and> taken s bs')"
proof -
  show "taken [] bs \<longleftrightarrow> bs = []" "\<not> taken (Broken # s) bs" by (auto simp: taken_def Cons_eq_append_conv Cons_eq_map_conv)
  show "taken (Chunk c # s) bs \<longleftrightarrow> c = [] \<and> bs = [] \<or> (\<exists>bs'. bs = c @ bs' \<and> taken s bs')" (is "?L \<longleftrightarrow> ?R")
  proof
    assume ?L
    then obtain cs rest where cs: "Chunk c # s = map Chunk cs @ rest" "concat cs = bs" "rest = [] \<or> (\<exists>r. rest = Chunk [] # r)"
      unfolding taken_def by blast
    show ?R
    proof (cases cs)
      case Nil
      then show ?thesis using cs by auto
    next
      case (Cons d ds)
      then have "d = c" "s = map Chunk ds @ rest" "bs = c @ concat ds" using cs by auto
      then show ?thesis using cs(3) unfolding taken_def by blast
    qed
  next
    assume ?R
    then show ?L
    proof (elim disjE exE conjE)
      assume "c = []" "bs = []"
      then show ?thesis unfolding taken_def by (intro exI [of _ "[]"] exI [of _ "Chunk c # s"]) simp
    next
      fix bs' assume bs: "bs = c @ bs'" "taken s bs'"
      then obtain cs rest where "s = map Chunk cs @ rest" "concat cs = bs'" "rest = [] \<or> (\<exists>r. rest = Chunk [] # r)"
        unfolding taken_def by blast
      then show ?thesis unfolding taken_def bs(1) by (intro exI [of _ "c # cs"] exI [of _ rest]) simp
    qed
  qed
qed

lemma payload_taken:
  "length p \<le> n \<Longrightarrow> read_payload n p s = Inr (Some q) \<longleftrightarrow> (\<exists>bs. taken s bs \<and> length p + length bs = n \<and> q = p @ bs)"
proof (induction s arbitrary: p)
  case (Cons i s)
  show ?case
  proof (cases i)
    case (Chunk c)
    show ?thesis
    proof (cases "length p < n \<and> c \<noteq> [] \<and> length p + length c \<le> n")
      case True
      then show ?thesis using Cons.IH [of "p @ c"] Chunk by (auto simp: ac_simps)
    next
      case False
      then consider "length p < n" "c = []" | "length p < n" "n < length p + length c" | "length p = n"
        using Cons.prems by fastforce
      then show ?thesis using Cons.IH [of p] Cons.prems Chunk by cases auto
    qed
  qed simp
qed auto

lemma payload_other: "read_payload n p s \<noteq> Inr None" "read_payload n p s \<noteq> Inl (FrameTooLarge k)"
  by (induction n p s rule: read_payload.induct) auto

lemma encodeFrame_long: "encodeFrame p = Some bs \<Longrightarrow> 4 \<le> length bs"
  by (auto simp: encodeFrame_def split: if_splits)

lemma frame_split:
  assumes "4 \<le> length h"
  shows "encodeFrame p = Some (h @ bs) \<longleftrightarrow>
    get_u32 h \<le> REGISTRY_SYNC_MAX_FRAME_BYTES \<and> length (drop 4 h) + length bs = get_u32 h \<and> p = drop 4 h @ bs"
proof -
  have "h @ bs \<noteq> []" "\<not> length (h @ bs) < 4" "length (h @ bs) - 4 = length (drop 4 h) + length bs"
    "drop 4 (h @ bs) = drop 4 h @ bs"
    using assms by auto
  note parts = this get_u32_append [OF assms, of bs]
  have "frame_of (h @ bs) = (if REGISTRY_SYNC_MAX_FRAME_BYTES < get_u32 h then Inl (FrameTooLarge (get_u32 h))
      else if length (drop 4 h) + length bs < get_u32 h then Inl (EndedMidPayload (length (drop 4 h) + length bs) (get_u32 h))
      else if length (drop 4 h) + length bs = get_u32 h then Inr (Some (drop 4 h @ bs)) else Inl TrailingBytes)"
    unfolding frame_of_def Let_def parts(3-5) using parts(1,2) by (simp only: if_False)
  then show ?thesis unfolding frame_of_Some [symmetric] by (simp only: split: if_splits) auto
qed

lemma header_taken:
  "length h < 4 \<Longrightarrow> read_header h s = Inr (Some p) \<longleftrightarrow> (\<exists>bs. taken s bs \<and> encodeFrame p = Some (h @ bs))"
proof (induction s arbitrary: h)
  case Nil
  then show ?case using encodeFrame_long [of p h] by auto
next
  case (Cons i s)
  show ?case
  proof (cases i)
    case (Chunk c)
    have none: "encodeFrame p \<noteq> Some h" using encodeFrame_long [of p h] Cons.prems by auto
    have R: "(\<exists>bs. taken (i # s) bs \<and> encodeFrame p = Some (h @ bs)) \<longleftrightarrow> (\<exists>bs. taken s bs \<and> encodeFrame p = Some ((h @ c) @ bs))"
      using none Chunk by auto
    show ?thesis
    proof (cases "length (h @ c) < 4")
      case True
      then show ?thesis using Cons.IH [of "h @ c"] R Chunk by (auto simp: Let_def)
    next
      case False
      define n where "n = get_u32 (h @ c)"
      have "c \<noteq> []" using False Cons.prems by auto
      then have L: "read_header h (i # s) = (if REGISTRY_SYNC_MAX_FRAME_BYTES < n then Inl (FrameTooLarge n)
          else if n < length (drop 4 (h @ c)) then Inl TrailingBytes else read_payload n (drop 4 (h @ c)) s)"
        using False Chunk by (simp add: Let_def n_def)
      have "4 \<le> length (h @ c)" using False by simp
      note frame = frame_split [OF this, of p, folded n_def]
      show ?thesis
      proof (cases "REGISTRY_SYNC_MAX_FRAME_BYTES < n \<or> n < length (drop 4 (h @ c))")
        case True
        then show ?thesis unfolding R L frame by auto
      next
        case False
        then show ?thesis unfolding R L frame using payload_taken [of "drop 4 (h @ c)" n s p] by simp
      qed
    qed
  qed simp
qed

lemma header_none: "length h < 4 \<Longrightarrow> read_header h s = Inr None \<longleftrightarrow> h = [] \<and> set s \<subseteq> {Chunk []}"
proof (induction s arbitrary: h)
  case (Cons i s)
  then show ?case using payload_other(1) by (cases i) (auto simp: Let_def)
qed simp

lemma header_too_large: "read_header h s = Inl (FrameTooLarge n) \<Longrightarrow> REGISTRY_SYNC_MAX_FRAME_BYTES < n"
  by (induction h s rule: read_header.induct) (auto simp: Let_def payload_other split: if_splits)

text \<open>C39. A frame is read back exactly, however the stream cuts it into chunks, empty ones included. Conversely the reader
  returns a payload for nothing but the frame of that payload, which whole chunks of the stream make up, and after which
  the stream ends or yields an empty chunk; in particular, when no chunk is empty, the stream is that frame and no more,
  and a prefix, a frame that announces more than the limit and any trailing byte are errors. (What follows an empty chunk
  after the frame goes unnoticed, although the documentation calls trailing bytes an error.) Only a stream without any
  byte reads as no frame, and a frame can be written exactly up to the limit.\<close>

theorem frame_round_trip:
  shows "(encodeFrame p = Some (concat cs) \<longrightarrow> readFrame (map Chunk cs) = Inr (Some p))
    \<and> (readFrame s = Inr (Some p) \<longleftrightarrow> (\<exists>ds rest. s = map Chunk ds @ rest \<and> encodeFrame p = Some (concat ds)
         \<and> (rest = [] \<or> (\<exists>r. rest = Chunk [] # r))))
    \<and> ([] \<notin> set cs \<longrightarrow> (readFrame (map Chunk cs) = Inr (Some p) \<longleftrightarrow> encodeFrame p = Some (concat cs)))
    \<and> (readFrame s = Inr None \<longleftrightarrow> set s \<subseteq> {Chunk []})
    \<and> (\<forall>n. readFrame s = Inl (FrameTooLarge n) \<longrightarrow> REGISTRY_SYNC_MAX_FRAME_BYTES < n)
    \<and> (encodeFrame p \<noteq> None \<longleftrightarrow> length p \<le> REGISTRY_SYNC_MAX_FRAME_BYTES)"
proof (intro conjI impI)
  assume "encodeFrame p = Some (concat cs)"
  then show "readFrame (map Chunk cs) = Inr (Some p)" using read_header_exact [of "[]" p cs] by (simp add: readFrame_def)
next
  show "readFrame s = Inr (Some p) \<longleftrightarrow> (\<exists>ds rest. s = map Chunk ds @ rest \<and> encodeFrame p = Some (concat ds)
         \<and> (rest = [] \<or> (\<exists>r. rest = Chunk [] # r)))"
    using header_taken [of "[]" s p] unfolding readFrame_def taken_def by auto
next
  assume "[] \<notin> set cs"
  then have r: "readFrame (map Chunk cs) = frame_of (concat cs)" using read_header_result [of "[]" cs] by (simp add: readFrame_def)
  show "readFrame (map Chunk cs) = Inr (Some p) \<longleftrightarrow> encodeFrame p = Some (concat cs)" unfolding r by (rule frame_of_Some)
next
  show "readFrame s = Inr None \<longleftrightarrow> set s \<subseteq> {Chunk []}" using header_none [of "[]" s] by (simp add: readFrame_def)
  show "\<forall>n. readFrame s = Inl (FrameTooLarge n) \<longrightarrow> REGISTRY_SYNC_MAX_FRAME_BYTES < n"
    using header_too_large unfolding readFrame_def by blast
qed (simp add: encodeFrame_def)

text \<open>The last read accepts an empty chunk as the end of the stream, and what comes after it goes unnoticed.\<close>

lemma empty_chunk_hides_trailing:
  assumes "encodeFrame p = Some f"
  shows "readFrame (Chunk f # Chunk [] # rest) = Inr (Some p)"
proof -
  have f: "frame_of f = Inr (Some p)" using assms by (simp add: frame_of_Some)
  then have "f \<noteq> []" "4 \<le> length f" "\<not> REGISTRY_SYNC_MAX_FRAME_BYTES < get_u32 f" "length (drop 4 f) = get_u32 f" "p = drop 4 f"
    by (auto simp: frame_of_def Let_def split: if_splits)
  then show ?thesis by (simp add: readFrame_def Let_def)
qed

section \<open>The coordinator\<close>

definition MAX_BUFFERED_MESSAGES :: nat where "MAX_BUFFERED_MESSAGES = 16"
definition MAX_BUFFERED_BYTES :: nat where "MAX_BUFFERED_BYTES = 16 * 1024 * 1024"

record 's peer_sync =
  ps_state :: 's
  ps_inflight :: bool
  ps_controller :: "nat option"
  ps_generation :: nat
  ps_buffer :: "octets list"
  ps_buffer_bytes :: nat
  ps_timeouts :: nat
  ps_last_round :: "time option"
  ps_last_error :: "string option"
  ps_rounds :: nat
  ps_converged :: bool

text \<open>Where a round stands: its message is being sent, the peer is being hung up, its promise is settled, it is over.\<close>

datatype round_phase = Sending octets | HangingUp | Settled | Over

record sync_round =
  sr_peer :: string
  sr_entry :: nat
  sr_generation :: nat
  sr_aborted :: bool
  sr_phase :: round_phase

record ('d, 's) coordinator =
  rc_doc :: 'd
  rc_entries :: "'s peer_sync list"
  rc_peers :: "(string, nat) jsmap"
  rc_rounds :: "sync_round list"
  rc_stopped :: bool
  rc_ticking :: bool
  rc_queued :: "string list"
  rc_dropping :: "string list"
  rc_sent :: "(string \<times> octets) list"
  rc_hung_up :: "string list"
  rc_unhandled :: "string list"

record ('d, 's) sync_env =
  sy_init :: 's
  sy_generate :: "'d \<Rightarrow> 's \<Rightarrow> string + 's \<times> octets option"
  sy_receive :: "'d \<Rightarrow> 's \<Rightarrow> octets \<Rightarrow> ('d \<times> 's) option"
  sy_threshold :: nat

definition new_RegistrySyncCoordinator :: "'d \<Rightarrow> ('d, 's) coordinator" where
  "new_RegistrySyncCoordinator d = \<lparr>rc_doc = d, rc_entries = [], rc_peers = [], rc_rounds = [], rc_stopped = False,
     rc_ticking = False, rc_queued = [], rc_dropping = [], rc_sent = [], rc_hung_up = [], rc_unhandled = []\<rparr>"

definition createPeerEntry :: "('d, 's) sync_env \<Rightarrow> nat option \<Rightarrow> 's peer_sync" where
  "createPeerEntry env previous = \<lparr>ps_state = sy_init env, ps_inflight = False, ps_controller = None,
     ps_generation = default_to 0 previous + 1, ps_buffer = [], ps_buffer_bytes = 0, ps_timeouts = 0, ps_last_round = None,
     ps_last_error = None, ps_rounds = 0, ps_converged = False\<rparr>"

text \<open>Access to the objects.\<close>

definition entry_at :: "string \<Rightarrow> ('d, 's) coordinator \<Rightarrow> (nat \<times> 's peer_sync) option" where
  "entry_at peer c = map_option (\<lambda>i. (i, rc_entries c ! i)) (m_get (rc_peers c) peer)"

definition set_entry :: "nat \<Rightarrow> 's peer_sync \<Rightarrow> ('d, 's) coordinator \<Rightarrow> ('d, 's) coordinator" where
  "set_entry i e c = c\<lparr>rc_entries := (rc_entries c)[i := e]\<rparr>"

definition set_round :: "nat \<Rightarrow> sync_round \<Rightarrow> ('d, 's) coordinator \<Rightarrow> ('d, 's) coordinator" where
  "set_round r x c = c\<lparr>rc_rounds := (rc_rounds c)[r := x]\<rparr>"

text \<open>\<open>abortController?.abort()\<close> of an entry.\<close>

definition abort_entry :: "'s peer_sync \<Rightarrow> ('d, 's) coordinator \<Rightarrow> ('d, 's) coordinator" where
  "abort_entry e c = (case ps_controller e of None \<Rightarrow> c | Some r \<Rightarrow> set_round r ((rc_rounds c ! r)\<lparr>sr_aborted := True\<rparr>) c)"

text \<open>The catch block of a round. \<open>byName\<close>: the error is called AbortError.\<close>

definition fail_round ::
  "('d, 's) sync_env \<Rightarrow> nat \<Rightarrow> bool \<Rightarrow> string \<Rightarrow> ('d, 's) coordinator \<Rightarrow> ('d, 's) coordinator" where
  "fail_round env r byName msg c =
     (let x = rc_rounds c ! r;
          e = (rc_entries c ! sr_entry x)\<lparr>ps_last_error := Some msg\<rparr>;
          abortLike = (sr_aborted x \<or> byName \<or> js_includes (js_lower msg) ''timeout'' \<or> js_includes (js_lower msg) ''abort'')
      in if \<not> abortLike then set_round r (x\<lparr>sr_phase := Settled\<rparr>) (set_entry (sr_entry x) e c)
         else let e' = e\<lparr>ps_timeouts := ps_timeouts e + 1\<rparr>; c' = set_entry (sr_entry x) e' c in
           if sy_threshold env \<le> ps_timeouts e'
           then (set_round r (x\<lparr>sr_phase := HangingUp\<rparr>) c')\<lparr>rc_hung_up := rc_hung_up c @ [sr_peer x]\<rparr>
           else set_round r (x\<lparr>sr_phase := Settled\<rparr>) c')"

text \<open>A round up to its first wait.\<close>

definition runRound :: "('d, 's) sync_env \<Rightarrow> time \<Rightarrow> string \<Rightarrow> ('d, 's) coordinator \<Rightarrow> ('d, 's) coordinator" where
  "runRound env now peer c0 =
     (case entry_at peer c0 of
        None \<Rightarrow> c0
      | Some (i, e) \<Rightarrow>
          if rc_stopped c0 \<or> ps_inflight e then c0
          else let r = length (rc_rounds c0);
                   x = \<lparr>sr_peer = peer, sr_entry = i, sr_generation = ps_generation e, sr_aborted = False, sr_phase = Settled\<rparr>;
                   begun = e\<lparr>ps_controller := Some r, ps_inflight := True\<rparr>;
                   c = (set_entry i begun c0)\<lparr>rc_rounds := rc_rounds c0 @ [x]\<rparr>
               in case sy_generate env (rc_doc c0) (ps_state e) of
                    Inl msg \<Rightarrow> fail_round env r False msg c
                  | Inr (s, None) \<Rightarrow>
                      set_entry i (begun\<lparr>ps_state := s, ps_converged := True, ps_last_error := None, ps_last_round := Some now,
                        ps_rounds := ps_rounds e + 1\<rparr>) c
                  | Inr (s, Some m) \<Rightarrow>
                      (set_round r (x\<lparr>sr_phase := Sending m\<rparr>)
                        (set_entry i (begun\<lparr>ps_state := s, ps_converged := False\<rparr>) c))\<lparr>rc_sent := rc_sent c0 @ [(peer, m)]\<rparr>)"

datatype send_outcome = SentOk | SendFailed bool string

text \<open>The transport settles the message of a round.\<close>

definition send_settles :: "('d, 's) sync_env \<Rightarrow> time \<Rightarrow> nat \<Rightarrow> send_outcome \<Rightarrow> ('d, 's) coordinator \<Rightarrow> ('d, 's) coordinator" where
  "send_settles env now r res c =
     (let x = rc_rounds c ! r; e = rc_entries c ! sr_entry x in
      case sr_phase x of
        Sending _ \<Rightarrow>
          (case res of
             SentOk \<Rightarrow> set_round r (x\<lparr>sr_phase := Settled\<rparr>)
               (set_entry (sr_entry x) (e\<lparr>ps_timeouts := 0, ps_last_error := None, ps_last_round := Some now,
                 ps_rounds := ps_rounds e + 1\<rparr>) c)
           | SendFailed byName msg \<Rightarrow> fail_round env r byName msg c)
      | _ \<Rightarrow> c)"

text \<open>The timer of a round fires.\<close>

definition round_timeout :: "nat \<Rightarrow> ('d, 's) coordinator \<Rightarrow> ('d, 's) coordinator" where
  "round_timeout r c =
     (case sr_phase (rc_rounds c ! r) of
        Sending _ \<Rightarrow> set_round r ((rc_rounds c ! r)\<lparr>sr_aborted := True\<rparr>) c
      | _ \<Rightarrow> c)"

text \<open>The peer of a round has been hung up.\<close>

definition hang_up_done :: "nat \<Rightarrow> ('d, 's) coordinator \<Rightarrow> ('d, 's) coordinator" where
  "hang_up_done r c =
     (let x = rc_rounds c ! r in
      case sr_phase x of
        HangingUp \<Rightarrow>
          (let c' = set_round r (x\<lparr>sr_phase := Settled\<rparr>) c in
           case entry_at (sr_peer x) c of
             None \<Rightarrow> c'
           | Some (_, e) \<Rightarrow>
               if ps_generation e = sr_generation x then c'\<lparr>rc_peers := m_del (sr_peer x) (rc_peers c)\<rparr> else c')
      | _ \<Rightarrow> c)"

text \<open>The buffered messages of an entry, applied in order; a message that throws ends it, and the rest is lost.\<close>

fun drain :: "('d, 's) sync_env \<Rightarrow> octets list \<Rightarrow> 'd \<Rightarrow> 's \<Rightarrow> bool \<times> 'd \<times> 's" where
  "drain env [] d s = (True, d, s)"
| "drain env (m # ms) d s = (case sy_receive env d s m of None \<Rightarrow> (False, d, s) | Some (d', s') \<Rightarrow> drain env ms d' s')"

text \<open>The outer finally block of a round: the entry is whatever the map holds now, compared by its generation.\<close>

definition round_ends :: "('d, 's) sync_env \<Rightarrow> nat \<Rightarrow> ('d, 's) coordinator \<Rightarrow> ('d, 's) coordinator" where
  "round_ends env r c0 =
     (let x = rc_rounds c0 ! r; c = set_round r (x\<lparr>sr_phase := Over\<rparr>) c0 in
      if sr_phase x \<noteq> Settled then c0
      else case entry_at (sr_peer x) c of
        None \<Rightarrow> c
      | Some (i, e0) \<Rightarrow>
          if ps_generation e0 \<noteq> sr_generation x then c
          else let e = e0\<lparr>ps_inflight := False, ps_controller := None\<rparr> in
            if ps_buffer e = [] \<or> rc_stopped c then set_entry i e c
            else case drain env (ps_buffer e) (rc_doc c) (ps_state e) of
              (ok, d, s) \<Rightarrow>
                let c' = (set_entry i (e\<lparr>ps_buffer := [], ps_buffer_bytes := 0, ps_state := s\<rparr>) c)\<lparr>rc_doc := d\<rparr> in
                if ok then c'\<lparr>rc_queued := rc_queued c @ [sr_peer x]\<rparr>
                else c'\<lparr>rc_unhandled := rc_unhandled c @ [sr_peer x]\<rparr>)"

text \<open>The queued microtask.\<close>

definition queued_round :: "('d, 's) sync_env \<Rightarrow> time \<Rightarrow> string \<Rightarrow> ('d, 's) coordinator \<Rightarrow> ('d, 's) coordinator" where
  "queued_round env now peer c =
     (if peer \<in> set (rc_queued c) then runRound env now peer (c\<lparr>rc_queued := remove1 peer (rc_queued c)\<rparr>) else c)"

definition onPeerConnect :: "('d, 's) sync_env \<Rightarrow> time \<Rightarrow> string \<Rightarrow> ('d, 's) coordinator \<Rightarrow> ('d, 's) coordinator" where
  "onPeerConnect env now peer c =
     (if rc_stopped c then c
      else let previous = entry_at peer c;
               c1 = (case previous of None \<Rightarrow> c | Some (_, e) \<Rightarrow> abort_entry e c);
               fresh = createPeerEntry env (map_option (ps_generation \<circ> snd) previous)
           in runRound env now peer
                (c1\<lparr>rc_entries := rc_entries c1 @ [fresh], rc_peers := m_set peer (length (rc_entries c1)) (rc_peers c1)\<rparr>))"

definition onPeerDisconnect :: "string \<Rightarrow> ('d, 's) coordinator \<Rightarrow> ('d, 's) coordinator" where
  "onPeerDisconnect peer c =
     (case entry_at peer c of
        None \<Rightarrow> c
      | Some (_, e) \<Rightarrow> (abort_entry e c)\<lparr>rc_peers := m_del peer (rc_peers c)\<rparr>)"

text \<open>An inbound message: \<open>None\<close> when Automerge throws, which the handler of the stream catches.\<close>

definition deliver ::
  "('d, 's) sync_env \<Rightarrow> time \<Rightarrow> string \<Rightarrow> octets \<Rightarrow> nat \<Rightarrow> 's peer_sync \<Rightarrow> ('d, 's) coordinator \<Rightarrow> ('d, 's) coordinator" where
  "deliver env now peer msg i e c =
     (if ps_inflight e then
        (let nextBytes = ps_buffer_bytes e + length msg in
         if MAX_BUFFERED_MESSAGES \<le> length (ps_buffer e) \<or> MAX_BUFFERED_BYTES < nextBytes
         then (abort_entry e (set_entry i (e\<lparr>ps_last_error := Some ''inbound sync buffer overflow''\<rparr>) c))
                \<lparr>rc_hung_up := rc_hung_up c @ [peer], rc_dropping := rc_dropping c @ [peer]\<rparr>
         else set_entry i (e\<lparr>ps_buffer := ps_buffer e @ [msg], ps_buffer_bytes := nextBytes\<rparr>) c)
      else case sy_receive env (rc_doc c) (ps_state e) msg of
        None \<Rightarrow> c
      | Some (d, s) \<Rightarrow> runRound env now peer ((set_entry i (e\<lparr>ps_state := s\<rparr>) c)\<lparr>rc_doc := d\<rparr>))"

definition onMessageFromPeer ::
  "('d, 's) sync_env \<Rightarrow> time \<Rightarrow> string \<Rightarrow> octets \<Rightarrow> ('d, 's) coordinator \<Rightarrow> ('d, 's) coordinator" where
  "onMessageFromPeer env now peer msg c =
     (if rc_stopped c then c
      else case entry_at peer c of
        Some (i, e) \<Rightarrow> deliver env now peer msg i e c
      | None \<Rightarrow>
          let i = length (rc_entries c); e = createPeerEntry env None in
          deliver env now peer msg i e (c\<lparr>rc_entries := rc_entries c @ [e], rc_peers := m_set peer i (rc_peers c)\<rparr>))"

text \<open>What follows the hang-up of an overflowing peer.\<close>

definition dropped :: "string \<Rightarrow> ('d, 's) coordinator \<Rightarrow> ('d, 's) coordinator" where
  "dropped peer c =
     (if peer \<in> set (rc_dropping c)
      then c\<lparr>rc_dropping := remove1 peer (rc_dropping c), rc_peers := m_del peer (rc_peers c)\<rparr> else c)"

text \<open>A tick and \<open>republish\<close> begin a round for every peer.\<close>

definition all_rounds :: "('d, 's) sync_env \<Rightarrow> time \<Rightarrow> ('d, 's) coordinator \<Rightarrow> ('d, 's) coordinator" where
  "all_rounds env now c = fold (runRound env now) (m_keys (rc_peers c)) c"

definition republish :: "('d, 's) sync_env \<Rightarrow> time \<Rightarrow> ('d, 's) coordinator \<Rightarrow> ('d, 's) coordinator" where
  "republish env now c = (if rc_stopped c then c else all_rounds env now c)"

definition start_coordinator :: "('d, 's) coordinator \<Rightarrow> ('d, 's) coordinator option" where
  "start_coordinator c = (if rc_stopped c then None else Some (c\<lparr>rc_ticking := True\<rparr>))"

definition stop_coordinator :: "('d, 's) coordinator \<Rightarrow> ('d, 's) coordinator" where
  "stop_coordinator c = fold (\<lambda>i c. abort_entry (rc_entries c ! i) c) (m_vals (rc_peers c)) (c\<lparr>rc_stopped := True, rc_ticking := False\<rparr>)"

text \<open>Once the running rounds have settled, \<open>stop\<close> empties the map.\<close>

definition stop_clears :: "('d, 's) coordinator \<Rightarrow> ('d, 's) coordinator" where
  "stop_clears c =
     (if rc_stopped c \<and> list_all (\<lambda>i. case ps_controller (rc_entries c ! i) of
           None \<Rightarrow> True | Some r \<Rightarrow> sr_phase (rc_rounds c ! r) = Settled \<or> sr_phase (rc_rounds c ! r) = Over) (m_vals (rc_peers c))
      then c\<lparr>rc_peers := []\<rparr> else c)"

definition tick_delay :: "rat \<Rightarrow> rat \<Rightarrow> rat \<Rightarrow> int" where
  "tick_delay intervalMs jitterPercent random =
     \<lfloor>intervalMs * (1 + (random * 2 - 1) * (jitterPercent / 100)) + 1 / 2\<rfloor>"

record sync_status =
  ss_rounds :: nat
  ss_converged :: bool
  ss_last_round :: "time option"
  ss_timeouts :: nat
  ss_last_error :: "string option"
  ss_in_flight :: bool

definition getStatus :: "('d, 's) coordinator \<Rightarrow> (string, sync_status) jsmap" where
  "getStatus c = m_map (\<lambda>i. let e = rc_entries c ! i in
     \<lparr>ss_rounds = ps_rounds e, ss_converged = ps_converged e, ss_last_round = ps_last_round e, ss_timeouts = ps_timeouts e,
      ss_last_error = ps_last_error e, ss_in_flight = ps_inflight e\<rparr>) (rc_peers c)"

definition violates_slo :: "time \<Rightarrow> time \<Rightarrow> 's peer_sync \<Rightarrow> bool" where
  "violates_slo limitMs now e \<longleftrightarrow>
     \<not> ps_converged e \<and> (case ps_last_round e of None \<Rightarrow> True | Some t \<Rightarrow> limitMs < now - t)"

definition getSloViolations ::
  "time option \<Rightarrow> string list option \<Rightarrow> time \<Rightarrow> ('d, 's) coordinator \<Rightarrow> (string \<times> time option \<times> nat) list" where
  "getSloViolations limit connectedPeers now c =
     List.map_filter (\<lambda>(peer, i). let e = rc_entries c ! i in
       if (case connectedPeers of None \<Rightarrow> True | Some ps \<Rightarrow> peer \<in> set ps) \<and> violates_slo (default_to 60000 limit) now e
       then Some (peer, ps_last_round e, ps_rounds e) else None) (rc_peers c)"

text \<open>The handler of an inbound stream.\<close>

definition registryHandler ::
  "('d, 's) sync_env \<Rightarrow> time \<Rightarrow> string \<Rightarrow> stream_item list \<Rightarrow> ('d, 's) coordinator \<Rightarrow> ('d, 's) coordinator" where
  "registryHandler env now peer source c =
     (case readFrame source of
        Inr (Some frame) \<Rightarrow>
          if REGISTRY_SYNC_MAX_FRAME_BYTES < length frame then c else onMessageFromPeer env now peer frame c
      | _ \<Rightarrow> c)"

section \<open>Steps and the invariant of single flight\<close>

datatype sync_op =
    PeerConnects time string
  | PeerDisconnects string
  | MessageArrives time string octets
  | SendSettles time nat send_outcome
  | RoundTimeout nat
  | HangUpDone nat
  | RoundEnds nat
  | QueuedRound time string
  | Dropped string
  | Tick time
  | Republish time
  | Stop
  | StopClears

fun sync_step :: "('d, 's) sync_env \<Rightarrow> sync_op \<Rightarrow> ('d, 's) coordinator \<Rightarrow> ('d, 's) coordinator" where
  "sync_step env (PeerConnects now p) c = onPeerConnect env now p c"
| "sync_step env (PeerDisconnects p) c = onPeerDisconnect p c"
| "sync_step env (MessageArrives now p m) c = onMessageFromPeer env now p m c"
| "sync_step env (SendSettles now r res) c = (if r < length (rc_rounds c) then send_settles env now r res c else c)"
| "sync_step env (RoundTimeout r) c = (if r < length (rc_rounds c) then round_timeout r c else c)"
| "sync_step env (HangUpDone r) c = (if r < length (rc_rounds c) then hang_up_done r c else c)"
| "sync_step env (RoundEnds r) c = (if r < length (rc_rounds c) then round_ends env r c else c)"
| "sync_step env (QueuedRound now p) c = queued_round env now p c"
| "sync_step env (Dropped p) c = dropped p c"
| "sync_step env (Tick now) c = all_rounds env now c"
| "sync_step env (Republish now) c = republish env now c"
| "sync_step env Stop c = stop_coordinator c"
| "sync_step env StopClears c = stop_clears c"

definition sync_run :: "('d, 's) sync_env \<Rightarrow> sync_op list \<Rightarrow> ('d, 's) coordinator \<Rightarrow> ('d, 's) coordinator" where
  "sync_run env ops c = fold (sync_step env) ops c"

text \<open>The rounds of an entry that are not over.\<close>

definition flying :: "('d, 's) coordinator \<Rightarrow> nat \<Rightarrow> nat set" where
  "flying c i = {r. r < length (rc_rounds c) \<and> sr_entry (rc_rounds c ! r) = i \<and> sr_phase (rc_rounds c ! r) \<noteq> Over}"

definition peers_ok :: "('d, 's) coordinator \<Rightarrow> bool" where
  "peers_ok c \<longleftrightarrow> m_inv (rc_peers c) \<and> (\<forall>p i. m_get (rc_peers c) p = Some i \<longrightarrow> i < length (rc_entries c))
     \<and> (\<forall>p q i. m_get (rc_peers c) p = Some i \<longrightarrow> m_get (rc_peers c) q = Some i \<longrightarrow> p = q)"

definition rounds_ok :: "('d, 's) coordinator \<Rightarrow> bool" where
  "rounds_ok c \<longleftrightarrow> (\<forall>r < length (rc_rounds c). let x = rc_rounds c ! r in
     sr_entry x < length (rc_entries c)
     \<and> (\<forall>p. m_get (rc_peers c) p = Some (sr_entry x) \<longrightarrow> sr_peer x = p \<and> sr_generation x = ps_generation (rc_entries c ! sr_entry x)))"

text \<open>The generation tells a round of the current entry from one of an earlier entry of the same peer.\<close>

definition tokens_ok :: "('d, 's) coordinator \<Rightarrow> bool" where
  "tokens_ok c \<longleftrightarrow> (\<forall>r < length (rc_rounds c). let x = rc_rounds c ! r in
     sr_phase x \<noteq> Over \<longrightarrow> (\<forall>i. m_get (rc_peers c) (sr_peer x) = Some i \<longrightarrow>
       sr_generation x \<le> ps_generation (rc_entries c ! i)
       \<and> (sr_generation x = ps_generation (rc_entries c ! i) \<longrightarrow> sr_entry x = i)))"

definition single :: "('d, 's) coordinator \<Rightarrow> bool" where
  "single c \<longleftrightarrow> (\<forall>i r r'. r \<in> flying c i \<longrightarrow> r' \<in> flying c i \<longrightarrow> r = r')
     \<and> (\<forall>p i. m_get (rc_peers c) p = Some i \<longrightarrow> (ps_inflight (rc_entries c ! i) \<longleftrightarrow> flying c i \<noteq> {}))"

definition flight_ok :: "('d, 's) coordinator \<Rightarrow> bool" where
  "flight_ok c \<longleftrightarrow> peers_ok c \<and> rounds_ok c \<and> tokens_ok c \<and> single c"

text \<open>Changes that the invariant does not see.\<close>

definition same_round :: "sync_round \<Rightarrow> sync_round \<Rightarrow> bool" where
  "same_round x y \<longleftrightarrow> sr_peer y = sr_peer x \<and> sr_entry y = sr_entry x \<and> sr_generation y = sr_generation x
     \<and> (sr_phase y = Over \<longleftrightarrow> sr_phase x = Over)"

definition same_entry :: "'s peer_sync \<Rightarrow> 's peer_sync \<Rightarrow> bool" where
  "same_entry e e' \<longleftrightarrow> ps_generation e' = ps_generation e \<and> ps_inflight e' = ps_inflight e"

definition similar :: "('d, 's) coordinator \<Rightarrow> ('d, 's) coordinator \<Rightarrow> bool" where
  "similar c c' \<longleftrightarrow> rc_peers c' = rc_peers c \<and> list_all2 same_round (rc_rounds c) (rc_rounds c')
     \<and> list_all2 same_entry (rc_entries c) (rc_entries c')"

lemma same_refl [simp]: "same_round x x" "same_entry e e"
  by (simp_all add: same_round_def same_entry_def)

lemma similar_refl [simp]: "similar c c"
  by (simp add: similar_def list_all2_refl)

lemma similar_trans: "similar a b \<Longrightarrow> similar b c \<Longrightarrow> similar a c"
  unfolding similar_def
  using list_all2_trans [of same_round same_round same_round "rc_rounds a" "rc_rounds b" "rc_rounds c"]
    list_all2_trans [of same_entry same_entry same_entry "rc_entries a" "rc_entries b" "rc_entries c"]
  by (simp add: same_round_def same_entry_def)

lemma list_all2_set: "(\<And>x. P x x) \<Longrightarrow> (i < length xs \<Longrightarrow> P (xs ! i) y) \<Longrightarrow> list_all2 P xs (xs[i := y])"
  by (cases "i < length xs") (simp_all add: list_all2_conv_all_nth nth_list_update)

lemma similar_entry: "(i < length (rc_entries c) \<Longrightarrow> same_entry (rc_entries c ! i) e) \<Longrightarrow> similar c (set_entry i e c)"
  by (simp add: similar_def set_entry_def list_all2_set list_all2_refl)

lemma similar_round: "(r < length (rc_rounds c) \<Longrightarrow> same_round (rc_rounds c ! r) x) \<Longrightarrow> similar c (set_round r x c)"
  by (simp add: similar_def set_round_def list_all2_set list_all2_refl)

lemma similar_abort: "similar c (abort_entry e c)"
  by (auto simp: abort_entry_def same_round_def intro: similar_round split: option.split)

lemma similar_flight:
  assumes "similar c c'" "flight_ok c"
  shows "flight_ok c'"
proof -
  have r: "length (rc_rounds c') = length (rc_rounds c)"
    "\<And>i. i < length (rc_rounds c) \<Longrightarrow> same_round (rc_rounds c ! i) (rc_rounds c' ! i)"
    and e: "length (rc_entries c') = length (rc_entries c)"
    "\<And>i. i < length (rc_entries c) \<Longrightarrow> same_entry (rc_entries c ! i) (rc_entries c' ! i)"
    and p: "rc_peers c' = rc_peers c"
    using assms(1) by (simp_all add: similar_def list_all2_conv_all_nth)
  have f: "flying c' i = flying c i" for i
    using r by (auto simp: flying_def same_round_def)
  have po: "peers_ok c" "rounds_ok c" "tokens_ok c" "single c" using assms(2) by (simp_all add: flight_ok_def)
  have "peers_ok c'" using po(1) by (simp add: peers_ok_def p e(1))
  moreover have "rounds_ok c'"
    using po(2) r(2) e(2) unfolding rounds_ok_def r(1) p e(1) Let_def same_round_def same_entry_def by simp
  moreover have "tokens_ok c'"
    using po(1,3) r(2) e(2) unfolding tokens_ok_def peers_ok_def r(1) p Let_def same_round_def same_entry_def by simp
  moreover have "single c'"
    using po(1,4) e(2) unfolding single_def f p peers_ok_def same_entry_def by simp
  ultimately show ?thesis by (simp add: flight_ok_def)
qed

text \<open>Removing peers, adding an entry, beginning and ending a round.\<close>

lemma flying_cong: "rc_rounds c' = rc_rounds c \<Longrightarrow> flying c' i = flying c i"
  by (simp add: flying_def)

lemma remove_flight:
  assumes "flight_ok c" "rc_rounds c' = rc_rounds c" "rc_entries c' = rc_entries c"
    and "m_inv (rc_peers c')" "\<And>p i. m_get (rc_peers c') p = Some i \<Longrightarrow> m_get (rc_peers c) p = Some i"
  shows "flight_ok c'"
proof -
  have po: "peers_ok c" "rounds_ok c" "tokens_ok c" "single c" using assms(1) by (simp_all add: flight_ok_def)
  have "peers_ok c'" using po(1) assms(4) unfolding peers_ok_def assms(3) by (meson assms(5))
  moreover have "rounds_ok c'" using po(2) unfolding rounds_ok_def assms(2,3) Let_def by (meson assms(5))
  moreover have "tokens_ok c'" using po(3) unfolding tokens_ok_def assms(2,3) Let_def by (meson assms(5))
  moreover have "single c'" using po(4) unfolding single_def flying_cong [OF assms(2)] assms(3) by (meson assms(5))
  ultimately show ?thesis by (simp add: flight_ok_def)
qed

lemma delete_flight: "flight_ok c \<Longrightarrow> flight_ok (c\<lparr>rc_peers := m_del p (rc_peers c)\<rparr>)"
  by (rule remove_flight [of c]) (auto simp: flight_ok_def peers_ok_def split: if_splits)

definition quiet_peer :: "string \<Rightarrow> ('d, 's) coordinator \<Rightarrow> bool" where
  "quiet_peer p c \<longleftrightarrow> list_all (\<lambda>x. sr_peer x = p \<longrightarrow> sr_phase x = Over) (rc_rounds c)"

lemma add_flight:
  assumes ok: "flight_ok c" and e: "\<not> ps_inflight e"
    and gens: "\<And>r. r < length (rc_rounds c) \<Longrightarrow> sr_phase (rc_rounds c ! r) \<noteq> Over \<Longrightarrow> sr_peer (rc_rounds c ! r) = p \<Longrightarrow>
      sr_generation (rc_rounds c ! r) < ps_generation e"
    and c': "rc_rounds c' = rc_rounds c" "rc_entries c' = rc_entries c @ [e]"
      "rc_peers c' = m_set p (length (rc_entries c)) (rc_peers c)"
  shows "flight_ok c'"
proof -
  have po: "peers_ok c" "rounds_ok c" "tokens_ok c" "single c" using ok by (simp_all add: flight_ok_def)
  have range: "i < length (rc_entries c)" if "m_get (rc_peers c) q = Some i" for q i using po(1) that by (simp add: peers_ok_def)
  have old: "rc_entries c' ! i = rc_entries c ! i" if "i < length (rc_entries c)" for i using that by (simp add: c'(2) nth_append)
  have new: "rc_entries c' ! length (rc_entries c) = e" by (simp add: c'(2))
  have none: "flying c (length (rc_entries c)) = {}" using po(2) by (auto simp: flying_def rounds_ok_def Let_def)
  have "peers_ok c'" using po(1) range by (auto simp: peers_ok_def c' less_Suc_eq dest: less_imp_neq split: if_splits)
  moreover have "rounds_ok c'"
    using po(2) range old by (auto simp: rounds_ok_def c' Let_def nth_append dest: less_imp_neq split: if_splits)
  moreover have "tokens_ok c'"
    unfolding tokens_ok_def c'(1) Let_def
  proof (intro allI impI)
    fix r i
    assume r: "r < length (rc_rounds c)" "sr_phase (rc_rounds c ! r) \<noteq> Over"
      and i: "m_get (rc_peers c') (sr_peer (rc_rounds c ! r)) = Some i"
    show "sr_generation (rc_rounds c ! r) \<le> ps_generation (rc_entries c' ! i)
        \<and> (sr_generation (rc_rounds c ! r) = ps_generation (rc_entries c' ! i) \<longrightarrow> sr_entry (rc_rounds c ! r) = i)"
    proof (cases "sr_peer (rc_rounds c ! r) = p")
      case True
      then have "i = length (rc_entries c)" using i by (simp add: c'(3))
      then show ?thesis using gens [OF r True] new by simp
    next
      case False
      then have "m_get (rc_peers c) (sr_peer (rc_rounds c ! r)) = Some i" using i by (simp add: c'(3))
      then show ?thesis using po(3) r range old unfolding tokens_ok_def Let_def by metis
    qed
  qed
  moreover have "single c'"
    using po(4) range old none e new unfolding single_def flying_cong [OF c'(1)] c'(3) by (auto split: if_splits)
  ultimately show ?thesis by (simp add: flight_ok_def)
qed

lemma flying_set_round:
  assumes "r < length (rc_rounds c)" "sr_entry x = sr_entry (rc_rounds c ! r)" "sr_phase x = Over"
  shows "flying (set_round r x c) i = flying c i - {r}"
  using assms by (auto simp: flying_def set_round_def nth_list_update split: if_splits)

lemma begin_flight:
  assumes ok: "flight_ok c" and e: "entry_at p c = Some (i, e)" "\<not> ps_inflight e"
    and x: "sr_peer x = p" "sr_entry x = i" "sr_generation x = ps_generation e" "sr_phase x \<noteq> Over"
    and e': "ps_generation e' = ps_generation e" "ps_inflight e'"
    and c': "rc_rounds c' = rc_rounds c @ [x]" "rc_entries c' = (rc_entries c)[i := e']" "rc_peers c' = rc_peers c"
  shows "flight_ok c'"
proof -
  have po: "peers_ok c" "rounds_ok c" "tokens_ok c" "single c" using ok by (simp_all add: flight_ok_def)
  have i: "m_get (rc_peers c) p = Some i" "e = rc_entries c ! i" "i < length (rc_entries c)"
    using e(1) po(1) by (auto simp: entry_at_def peers_ok_def)
  have range: "j < length (rc_entries c)" if "m_get (rc_peers c) q = Some j" for q j using po(1) that by (simp add: peers_ok_def)
  have gen: "ps_generation (rc_entries c' ! j) = ps_generation (rc_entries c ! j)" if "j < length (rc_entries c)" for j
    using that e'(1) i by (simp add: c'(2) nth_list_update)
  have infl: "ps_inflight (rc_entries c' ! j) \<longleftrightarrow> j = i \<or> ps_inflight (rc_entries c ! j)" if "j < length (rc_entries c)" for j
    using that e'(2) i by (simp add: c'(2) nth_list_update)
  have none: "flying c i = {}" using po(4) i e(2) unfolding single_def by blast
  have fly: "flying c' j = (if j = i then {length (rc_rounds c)} else flying c j)" for j
    using none x by (auto simp: flying_def c'(1) nth_append less_Suc_eq split: if_splits)
  have "peers_ok c'" using po(1) by (simp add: peers_ok_def c')
  moreover have "rounds_ok c'"
    using po(1,2) gen x i by (auto simp: rounds_ok_def c'(1,3) c'(2) [THEN arg_cong [where f = length]] nth_append less_Suc_eq Let_def peers_ok_def)
  moreover have "tokens_ok c'"
    using po(3) gen range x i by (auto simp: tokens_ok_def c'(1,3) nth_append less_Suc_eq Let_def)
  moreover have "single c'"
    using po(1,4) infl range fly i unfolding single_def c'(3) by (auto split: if_splits)
  ultimately show ?thesis by (simp add: flight_ok_def)
qed

lemma end_flight:
  assumes ok: "flight_ok c" and r: "r < length (rc_rounds c)"
    and c1: "c1 = set_round r ((rc_rounds c ! r)\<lparr>sr_phase := Over\<rparr>) c"
    and live: "sr_phase (rc_rounds c ! r) \<noteq> Over"
  shows "m_get (rc_peers c) (sr_peer (rc_rounds c ! r)) \<noteq> Some (sr_entry (rc_rounds c ! r)) \<Longrightarrow> flight_ok c1"
    and "entry_at (sr_peer (rc_rounds c ! r)) c = Some (i, e) \<Longrightarrow> ps_generation e = sr_generation (rc_rounds c ! r) \<Longrightarrow>
      ps_generation e' = ps_generation e \<Longrightarrow> \<not> ps_inflight e' \<Longrightarrow> flight_ok (set_entry i e' c1)"
    and "entry_at (sr_peer (rc_rounds c ! r)) c = Some (i, e) \<Longrightarrow> ps_generation e \<noteq> sr_generation (rc_rounds c ! r) \<Longrightarrow>
      m_get (rc_peers c) (sr_peer (rc_rounds c ! r)) \<noteq> Some (sr_entry (rc_rounds c ! r))"
proof -
  let ?x = "rc_rounds c ! r"
  have po: "peers_ok c" "rounds_ok c" "tokens_ok c" "single c" using ok by (simp_all add: flight_ok_def)
  have fly: "flying c1 j = flying c j - {r}" for j unfolding c1 using r by (intro flying_set_round) simp_all
  have sel: "rc_peers c1 = rc_peers c" "rc_entries c1 = rc_entries c" "length (rc_rounds c1) = length (rc_rounds c)"
    by (simp_all add: c1 set_round_def)
  have rd: "sr_peer (rc_rounds c1 ! k) = sr_peer (rc_rounds c ! k) \<and> sr_entry (rc_rounds c1 ! k) = sr_entry (rc_rounds c ! k)
      \<and> sr_generation (rc_rounds c1 ! k) = sr_generation (rc_rounds c ! k)
      \<and> (sr_phase (rc_rounds c1 ! k) \<noteq> Over \<longrightarrow> sr_phase (rc_rounds c ! k) \<noteq> Over)" if "k < length (rc_rounds c)" for k
    using that live by (cases "k = r") (simp_all add: c1 set_round_def)
  have base: "peers_ok c1" "rounds_ok c1" "tokens_ok c1"
    using po(1) apply (simp add: peers_ok_def sel)
    using po(2) rd apply (simp add: rounds_ok_def sel Let_def)
    using po(3) rd by (simp add: tokens_ok_def sel Let_def)
  have mine: "r \<in> flying c (sr_entry ?x)" using r live by (simp add: flying_def)
  show "flight_ok c1" if "m_get (rc_peers c) (sr_peer ?x) \<noteq> Some (sr_entry ?x)"
  proof -
    have "j \<noteq> sr_entry ?x" if "m_get (rc_peers c) p = Some j" for p j
      using po(2) r that \<open>m_get (rc_peers c) (sr_peer ?x) \<noteq> Some (sr_entry ?x)\<close> unfolding rounds_ok_def Let_def by blast
    moreover have "r \<notin> flying c j" if "j \<noteq> sr_entry ?x" for j using that by (auto simp: flying_def)
    ultimately have "single c1" using po(4) unfolding single_def fly sel by (metis DiffD1 Diff_empty Diff_insert0)
    then show ?thesis using base by (simp add: flight_ok_def)
  qed
  show "m_get (rc_peers c) (sr_peer ?x) \<noteq> Some (sr_entry ?x)"
    if "entry_at (sr_peer ?x) c = Some (i, e)" "ps_generation e \<noteq> sr_generation ?x"
    using po(2) r that unfolding rounds_ok_def Let_def entry_at_def by auto
  assume a: "entry_at (sr_peer ?x) c = Some (i, e)" "ps_generation e = sr_generation ?x" "ps_generation e' = ps_generation e" "\<not> ps_inflight e'"
  then have i: "m_get (rc_peers c) (sr_peer ?x) = Some i" "e = rc_entries c ! i" "i < length (rc_entries c)"
    using po(1) by (auto simp: entry_at_def peers_ok_def)
  have me: "sr_entry ?x = i" using po(3) r live i a(2) unfolding tokens_ok_def Let_def by auto
  let ?c2 = "set_entry i e' c1"
  have sel2: "rc_peers ?c2 = rc_peers c" "rc_rounds ?c2 = rc_rounds c1" "rc_entries ?c2 = (rc_entries c)[i := e']"
    by (simp_all add: set_entry_def sel)
  have range: "j < length (rc_entries c)" if "m_get (rc_peers c) q = Some j" for q j using po(1) that by (simp add: peers_ok_def)
  have gen: "ps_generation (rc_entries ?c2 ! j) = ps_generation (rc_entries c ! j)" if "j < length (rc_entries c)" for j
    using that a(3) i by (simp add: sel2 nth_list_update)
  have gone: "flying c i - {r} = {}" using po(4) mine me unfolding single_def by blast
  have other: "r \<notin> flying c j" if "j \<noteq> i" for j using that me by (auto simp: flying_def)
  have "peers_ok ?c2" using base(1) by (simp add: peers_ok_def sel sel2)
  moreover have "rounds_ok ?c2" using base(2) gen by (simp add: rounds_ok_def sel sel2 Let_def)
  moreover have "tokens_ok ?c2" using base(3) gen range by (simp add: tokens_ok_def sel sel2 Let_def)
  moreover have "single ?c2"
    unfolding single_def flying_cong [OF sel2(2)] fly sel2(1)
  proof (intro conjI allI impI)
    fix p j assume j: "m_get (rc_peers c) p = Some j"
    show "ps_inflight (rc_entries ?c2 ! j) \<longleftrightarrow> flying c j - {r} \<noteq> {}"
    proof (cases "j = i")
      case True
      then show ?thesis using gone a(4) i by (simp add: sel2)
    next
      case False
      then show ?thesis using other po(4) j unfolding single_def by (simp add: sel2)
    qed
  qed (use po(4) in \<open>auto simp: single_def\<close>)
  ultimately show "flight_ok ?c2" by (simp add: flight_ok_def)
qed

subsection \<open>Every operation keeps it\<close>

lemma similar_other [simp]:
  "similar c (d\<lparr>rc_hung_up := h\<rparr>) \<longleftrightarrow> similar c d" "similar c (d\<lparr>rc_sent := t\<rparr>) \<longleftrightarrow> similar c d"
  "similar c (d\<lparr>rc_doc := x\<rparr>) \<longleftrightarrow> similar c d" "similar c (d\<lparr>rc_queued := q\<rparr>) \<longleftrightarrow> similar c d"
  "similar c (d\<lparr>rc_unhandled := u\<rparr>) \<longleftrightarrow> similar c d" "similar c (d\<lparr>rc_dropping := q\<rparr>) \<longleftrightarrow> similar c d"
  "similar c (d\<lparr>rc_stopped := b\<rparr>) \<longleftrightarrow> similar c d" "similar c (d\<lparr>rc_ticking := b\<rparr>) \<longleftrightarrow> similar c d"
  by (simp_all add: similar_def)

lemma similar_both:
  assumes "same_entry (rc_entries c ! i) e" "sr_phase (rc_rounds c ! r) \<noteq> Over" "same_round (rc_rounds c ! r) x"
  shows "similar c (set_round r x (set_entry i e c))"
  by (rule similar_trans [OF similar_entry [of i c e] similar_round]) (use assms in \<open>simp_all add: set_entry_def\<close>)

lemma similar_fail:
  assumes "sr_phase (rc_rounds c ! r) \<noteq> Over"
  shows "similar c (fail_round env r n m c)"
proof -
  have "same_round (rc_rounds c ! r) ((rc_rounds c ! r)\<lparr>sr_phase := HangingUp\<rparr>)"
    "same_round (rc_rounds c ! r) ((rc_rounds c ! r)\<lparr>sr_phase := Settled\<rparr>)"
    using assms by (simp_all add: same_round_def)
  then show ?thesis
    using assms by (auto simp: fail_round_def Let_def same_entry_def intro!: similar_both)
qed

lemma runRound_flight:
  assumes "flight_ok c"
  shows "flight_ok (runRound env now p c)"
proof (cases "entry_at p c")
  case (Some a)
  obtain i e where a: "entry_at p c = Some (i, e)" using Some by (cases a) auto
  have i: "i < length (rc_entries c)" "e = rc_entries c ! i"
    using a assms by (auto simp: entry_at_def flight_ok_def peers_ok_def)
  show ?thesis
  proof (cases "rc_stopped c \<or> ps_inflight e")
    case False
    define x where "x = \<lparr>sr_peer = p, sr_entry = i, sr_generation = ps_generation e, sr_aborted = False, sr_phase = Settled\<rparr>"
    define begun where "begun = e\<lparr>ps_controller := Some (length (rc_rounds c)), ps_inflight := True\<rparr>"
    define c1 where "c1 = (set_entry i begun c)\<lparr>rc_rounds := rc_rounds c @ [x]\<rparr>"
    have ok: "flight_ok c1"
      by (rule begin_flight [OF assms a, of x begun])
        (use False in \<open>simp_all add: x_def begun_def c1_def set_entry_def\<close>)
    have xp: "sr_phase x \<noteq> Over" by (simp add: x_def)
    have at: "rc_rounds c1 ! length (rc_rounds c) = x" "rc_entries c1 ! i = begun"
      using i by (simp_all add: c1_def set_entry_def)
    have run: "runRound env now p c =
       (case sy_generate env (rc_doc c) (ps_state e) of
          Inl msg \<Rightarrow> fail_round env (length (rc_rounds c)) False msg c1
        | Inr (s, None) \<Rightarrow> set_entry i (begun\<lparr>ps_state := s, ps_converged := True, ps_last_error := None, ps_last_round := Some now,
              ps_rounds := ps_rounds e + 1\<rparr>) c1
        | Inr (s, Some m) \<Rightarrow> (set_round (length (rc_rounds c)) (x\<lparr>sr_phase := Sending m\<rparr>)
              (set_entry i (begun\<lparr>ps_state := s, ps_converged := False\<rparr>) c1))\<lparr>rc_sent := rc_sent c @ [(p, m)]\<rparr>)"
      unfolding runRound_def Let_def c1_def x_def begun_def using a False by simp
    have "similar c1 (runRound env now p c)"
      unfolding run using at xp
      by (auto split: sum.split option.split prod.split intro!: similar_fail similar_entry similar_both
          simp: same_entry_def same_round_def)
    then show ?thesis using similar_flight ok by blast
  qed (use assms a in \<open>simp add: runRound_def\<close>)
qed (use assms in \<open>simp add: runRound_def\<close>)

lemma all_rounds_flight: "flight_ok c \<Longrightarrow> flight_ok (all_rounds env now c)"
proof -
  have "flight_ok c \<Longrightarrow> flight_ok (fold (runRound env now) ps c)" for ps
    by (induction ps arbitrary: c) (simp_all add: runRound_flight)
  then show "flight_ok c \<Longrightarrow> flight_ok (all_rounds env now c)" by (simp add: all_rounds_def)
qed

lemma similar_settles: "similar c (send_settles env now r res c)"
  by (auto simp: send_settles_def Let_def same_entry_def same_round_def split: round_phase.split send_outcome.split
      intro!: similar_fail similar_both)

lemma similar_timeout: "similar c (round_timeout r c)"
  by (auto simp: round_timeout_def same_round_def split: round_phase.split intro!: similar_round)

lemma similar_stop: "similar c (stop_coordinator c)"
proof -
  have "similar c d \<Longrightarrow> similar c (fold (\<lambda>i d. abort_entry (rc_entries d ! i) d) is d)" for "is" d
    by (induction "is" arbitrary: d) (auto intro: similar_trans [OF _ similar_abort])
  then show ?thesis by (simp add: stop_coordinator_def)
qed

lemma hang_up_flight: "flight_ok c \<Longrightarrow> flight_ok (hang_up_done r c)"
proof -
  assume ok: "flight_ok c"
  let ?c' = "set_round r ((rc_rounds c ! r)\<lparr>sr_phase := Settled\<rparr>) c"
  have "flight_ok ?c'" if "sr_phase (rc_rounds c ! r) = HangingUp"
    using that by (intro similar_flight [OF similar_round ok]) (simp add: same_round_def)
  moreover have "rc_peers ?c' = rc_peers c" by (simp add: set_round_def)
  ultimately show ?thesis
    using ok delete_flight [of ?c'] by (auto simp: hang_up_done_def Let_def split: round_phase.split option.split)
qed

lemma drop_other_flight [simp]:
  "flight_ok (c\<lparr>rc_dropping := q\<rparr>) \<longleftrightarrow> flight_ok c" "flight_ok (c\<lparr>rc_queued := q\<rparr>) \<longleftrightarrow> flight_ok c"
  "flight_ok (c\<lparr>rc_doc := d\<rparr>) \<longleftrightarrow> flight_ok c" "flight_ok (c\<lparr>rc_unhandled := q\<rparr>) \<longleftrightarrow> flight_ok c"
  "flight_ok (c\<lparr>rc_hung_up := q\<rparr>) \<longleftrightarrow> flight_ok c"
  by (simp_all add: flight_ok_def peers_ok_def rounds_ok_def tokens_ok_def single_def flying_def)

lemma round_ends_flight:
  assumes "flight_ok c" "r < length (rc_rounds c)"
  shows "flight_ok (round_ends env r c)"
proof (cases "sr_phase (rc_rounds c ! r) = Settled")
  case True
  let ?x = "rc_rounds c ! r"
  define c1 where "c1 = set_round r (?x\<lparr>sr_phase := Over\<rparr>) c"
  have live: "sr_phase ?x \<noteq> Over" using True by simp
  note fin = end_flight [OF assms c1_def live]
  have at: "entry_at p c1 = entry_at p c" for p by (simp add: entry_at_def c1_def set_round_def)
  show ?thesis
  proof (cases "entry_at (sr_peer ?x) c")
    case None
    then have "flight_ok c1" using fin(1) by (simp add: entry_at_def)
    then show ?thesis using None True at by (simp add: round_ends_def Let_def c1_def [symmetric])
  next
    case (Some a)
    obtain i e where e: "entry_at (sr_peer ?x) c = Some (i, e)" using Some by (cases a) auto
    show ?thesis
    proof (cases "ps_generation e = sr_generation ?x")
      case False
      then have "flight_ok c1" using fin(1) fin(3) e by blast
      then show ?thesis using e False True at by (simp add: round_ends_def Let_def c1_def [symmetric])
    next
      case g: True
      have "flight_ok (set_entry i e' c1)" if "ps_generation e' = ps_generation e" "\<not> ps_inflight e'" for e'
        using fin(2) [OF e g that] .
      then show ?thesis using e g True at by (auto simp: round_ends_def Let_def c1_def [symmetric] split: prod.split)
    qed
  qed
qed (use assms in \<open>simp add: round_ends_def Let_def\<close>)

lemma deliver_flight:
  assumes "flight_ok c" "entry_at p c = Some (i, e)"
  shows "flight_ok (deliver env now p m i e c)"
proof -
  have e: "e = rc_entries c ! i" using assms(2) by (auto simp: entry_at_def)
  have "flight_ok (set_entry i e' c)" if "same_entry e e'" for e'
    using that e by (intro similar_flight [OF similar_entry assms(1)]) simp
  then have s: "flight_ok (set_entry i (e\<lparr>ps_last_error := x\<rparr>) c)" "flight_ok (set_entry i (e\<lparr>ps_buffer := b, ps_buffer_bytes := n\<rparr>) c)"
    "flight_ok (set_entry i (e\<lparr>ps_state := st\<rparr>) c)" for x b n st by (simp_all add: same_entry_def)
  then have "flight_ok (abort_entry e (set_entry i (e\<lparr>ps_last_error := x\<rparr>) c))" for x
    using similar_flight [OF similar_abort] by blast
  then show ?thesis using assms(1) s by (auto simp: deliver_def Let_def intro!: runRound_flight split: option.split)
qed

lemma quiet_gens:
  "quiet_peer p c \<Longrightarrow> r < length (rc_rounds c) \<Longrightarrow> sr_phase (rc_rounds c ! r) \<noteq> Over \<Longrightarrow> sr_peer (rc_rounds c ! r) = p \<Longrightarrow> False"
  by (auto simp: quiet_peer_def list_all_length)

text \<open>The side condition of single flight: a peer that left the map comes back only when its rounds are over.\<close>

fun careful :: "sync_op \<Rightarrow> ('d, 's) coordinator \<Rightarrow> bool" where
  "careful (PeerConnects now p) c \<longleftrightarrow> (m_get (rc_peers c) p = None \<longrightarrow> quiet_peer p c)"
| "careful (MessageArrives now p m) c \<longleftrightarrow> (m_get (rc_peers c) p = None \<longrightarrow> quiet_peer p c)"
| "careful _ c \<longleftrightarrow> True"

fun careful_run :: "('d, 's) sync_env \<Rightarrow> sync_op list \<Rightarrow> ('d, 's) coordinator \<Rightarrow> bool" where
  "careful_run env [] c \<longleftrightarrow> True"
| "careful_run env (op # ops) c \<longleftrightarrow> careful op c \<and> careful_run env ops (sync_step env op c)"

lemma connect_flight:
  assumes ok: "flight_ok c" and q: "m_get (rc_peers c) p = None \<longrightarrow> quiet_peer p c"
  shows "flight_ok (onPeerConnect env now p c)"
proof (cases "rc_stopped c")
  case False
  define c1 where "c1 = (case entry_at p c of None \<Rightarrow> c | Some (_, e) \<Rightarrow> abort_entry e c)"
  have sim: "similar c c1" by (simp add: c1_def similar_abort split: option.split prod.split)
  then have ok1: "flight_ok c1" using similar_flight ok by blast
  define fresh where "fresh = createPeerEntry env (map_option (ps_generation \<circ> snd) (entry_at p c))"
  define c2 where "c2 = c1\<lparr>rc_entries := rc_entries c1 @ [fresh], rc_peers := m_set p (length (rc_entries c1)) (rc_peers c1)\<rparr>"
  have "flight_ok c2"
  proof (rule add_flight [OF ok1])
    fix r assume r: "r < length (rc_rounds c1)" "sr_phase (rc_rounds c1 ! r) \<noteq> Over" "sr_peer (rc_rounds c1 ! r) = p"
    show "sr_generation (rc_rounds c1 ! r) < ps_generation fresh"
    proof (cases "m_get (rc_peers c) p")
      case None
      then have "c1 = c" by (simp add: c1_def entry_at_def)
      then show ?thesis using quiet_gens q None r by blast
    next
      case (Some i)
      have "ps_generation fresh = Suc (ps_generation (rc_entries c ! i))"
        using Some by (simp add: fresh_def entry_at_def createPeerEntry_def)
      moreover have "m_get (rc_peers c1) p = Some i" "ps_generation (rc_entries c1 ! i) = ps_generation (rc_entries c ! i)"
        using sim Some ok by (auto simp: similar_def list_all2_conv_all_nth same_entry_def flight_ok_def peers_ok_def)
      moreover have "sr_generation (rc_rounds c1 ! r) \<le> ps_generation (rc_entries c1 ! i)"
        using ok1 r calculation(2) unfolding flight_ok_def tokens_ok_def Let_def by blast
      ultimately show ?thesis by simp
    qed
  qed (simp_all add: c2_def fresh_def createPeerEntry_def)
  then have "flight_ok (runRound env now p c2)" by (rule runRound_flight)
  then show ?thesis using False by (simp add: onPeerConnect_def Let_def c2_def c1_def fresh_def)
qed (use ok in \<open>simp add: onPeerConnect_def\<close>)

lemma message_flight:
  assumes ok: "flight_ok c" and q: "m_get (rc_peers c) p = None \<longrightarrow> quiet_peer p c"
  shows "flight_ok (onMessageFromPeer env now p m c)"
proof (cases "entry_at p c")
  case None
  let ?e = "createPeerEntry env None"
  let ?c = "c\<lparr>rc_entries := rc_entries c @ [?e], rc_peers := m_set p (length (rc_entries c)) (rc_peers c)\<rparr>"
  have "flight_ok ?c"
    by (rule add_flight [OF ok, of ?e p]) (use q None quiet_gens in \<open>auto simp: createPeerEntry_def entry_at_def\<close>)
  moreover have "entry_at p ?c = Some (length (rc_entries c), ?e)" by (simp add: entry_at_def)
  ultimately have "flight_ok (deliver env now p m (length (rc_entries c)) ?e ?c)" by (rule deliver_flight)
  then show ?thesis using None ok by (simp add: onMessageFromPeer_def Let_def)
qed (use ok deliver_flight in \<open>auto simp: onMessageFromPeer_def\<close>)

lemma sync_step_flight:
  assumes ok: "flight_ok c" and "careful op c"
  shows "flight_ok (sync_step env op c)"
proof (cases op)
  case (PeerDisconnects p)
  have "flight_ok ((abort_entry e c)\<lparr>rc_peers := m_del p (rc_peers (abort_entry e c))\<rparr>)" for e
    using delete_flight similar_flight [OF similar_abort ok] by blast
  moreover have "rc_peers (abort_entry e c) = rc_peers c" for e by (simp add: abort_entry_def set_round_def split: option.split)
  ultimately show ?thesis using PeerDisconnects ok by (simp add: onPeerDisconnect_def split: option.split)
next
  case (Dropped p)
  have "flight_ok (c\<lparr>rc_dropping := q, rc_peers := m_del p (rc_peers c)\<rparr>)" for q
    using delete_flight [of "c\<lparr>rc_dropping := q\<rparr>" p] ok by simp
  then show ?thesis using Dropped ok by (simp add: dropped_def)
next
  case StopClears
  have "flight_ok (c\<lparr>rc_peers := []\<rparr>)" by (rule remove_flight [OF ok]) (simp_all add: m_inv_def)
  then show ?thesis using StopClears ok by (simp add: stop_clears_def)
next
  case (QueuedRound now p)
  then show ?thesis using ok by (simp add: queued_round_def runRound_flight)
next
  case (Republish now)
  then show ?thesis using ok by (simp add: republish_def all_rounds_flight)
qed (use assms in \<open>simp_all add: connect_flight message_flight hang_up_flight round_ends_flight all_rounds_flight
    similar_flight [OF similar_settles] similar_flight [OF similar_timeout] similar_flight [OF similar_stop]\<close>)

lemma sync_run_flight: "flight_ok c \<Longrightarrow> careful_run env ops c \<Longrightarrow> flight_ok (sync_run env ops c)"
  unfolding sync_run_def by (induction ops arbitrary: c) (simp_all add: sync_step_flight)

lemma flight_new: "flight_ok (new_RegistrySyncCoordinator d)"
  by (simp add: flight_ok_def peers_ok_def rounds_ok_def tokens_ok_def single_def flying_def new_RegistrySyncCoordinator_def m_inv_def)

text \<open>The operations that belong to a round that is under way.\<close>

definition round_op :: "('d, 's) sync_env \<Rightarrow> nat \<Rightarrow> sync_op \<Rightarrow> bool" where
  "round_op env r op \<longleftrightarrow> (\<exists>now res. op = SendSettles now r res) \<or> op = RoundTimeout r \<or> op = HangUpDone r \<or> op = RoundEnds r"

lemma other_entries:
  assumes ok: "rounds_ok c" "tokens_ok c" and r: "r < length (rc_rounds c)" and op: "round_op env r op"
    and j: "m_get (rc_peers c) q = Some j" "j \<noteq> sr_entry (rc_rounds c ! r)"
  shows "m_get (rc_peers (sync_step env op c)) q = Some j \<and> rc_entries (sync_step env op c) ! j = rc_entries c ! j"
proof -
  let ?x = "rc_rounds c ! r"
  have own: "i = sr_entry ?x"
    if "entry_at (sr_peer ?x) c = Some (i, e)" "ps_generation e = sr_generation ?x" "sr_phase ?x \<noteq> Over" for i e
    using that ok(2) r unfolding tokens_ok_def Let_def by (auto simp: entry_at_def split: option.splits)
  have far: "rc_entries (set_entry i e c') ! j = rc_entries c' ! j" if "i \<noteq> j" for i e and c' :: "('a, 'b) coordinator"
    using that by (simp add: set_entry_def)
  have fields: "rc_peers (set_entry i e c') = rc_peers c'" "rc_peers (set_round k x c') = rc_peers c'"
      "rc_entries (set_round k x c') = rc_entries c'" for i e k x and c' :: "('a, 'b) coordinator"
    by (simp_all add: set_entry_def set_round_def)
  have at: "entry_at p (set_round k x c) = entry_at p c" for p k x by (simp add: entry_at_def set_round_def)
  from op consider now res where "op = SendSettles now r res" | "op = RoundTimeout r" | "op = HangUpDone r" | "op = RoundEnds r"
    unfolding round_op_def by blast
  then show ?thesis
  proof cases
    case 1
    have "rc_peers (send_settles env now r res c) = rc_peers c \<and> rc_entries (send_settles env now r res c) ! j = rc_entries c ! j"
      using j(2) far by (auto simp: send_settles_def fail_round_def Let_def fields split: round_phase.split send_outcome.split)
    then show ?thesis using 1 j(1) by simp
  next
    case 2
    then show ?thesis using j(1) by (simp add: round_timeout_def fields split: round_phase.split)
  next
    case 3
    have "q \<noteq> sr_peer ?x" if "entry_at (sr_peer ?x) c = Some (i, e)" "ps_generation e = sr_generation ?x" "sr_phase ?x = HangingUp" for i e
      using own [OF that(1,2)] that j by (auto simp: entry_at_def split: option.splits)
    then show ?thesis
      using 3 j(1) by (auto simp: hang_up_done_def Let_def fields split: round_phase.split option.split)
  next
    case 4
    have "i \<noteq> j" if "entry_at (sr_peer ?x) c = Some (i, e)" "ps_generation e = sr_generation ?x" "sr_phase ?x = Settled" for i e
      using own [OF that(1,2)] that(3) j(2) by auto
    then show ?thesis
      using 4 j(1) far by (auto simp: round_ends_def Let_def fields at split: option.split prod.split)
  qed
qed

text \<open>C38. Single flight. In every run in which a peer that left the map comes back only after its rounds are over, each
  entry has at most one round under way, the entry of a peer is marked as in flight exactly while it has one, and a round
  whose generation is that of the current entry is a round of that entry. An old round never touches a new entry: whatever
  a round does (its message settles or fails, its timer fires, its peer has been hung up, it ends), every entry of the map
  that is not its own stays in the map, under the same peer, and keeps its state.\<close>

theorem single_flight:
  assumes "careful_run env ops (new_RegistrySyncCoordinator d)"
  shows "let c = sync_run env ops (new_RegistrySyncCoordinator d) in
      (\<forall>i r r'. r \<in> flying c i \<longrightarrow> r' \<in> flying c i \<longrightarrow> r = r')
    \<and> (\<forall>p i. m_get (rc_peers c) p = Some i \<longrightarrow> (ps_inflight (rc_entries c ! i) \<longleftrightarrow> flying c i \<noteq> {}))
    \<and> (\<forall>i r p. r \<in> flying c i \<longrightarrow> sr_peer (rc_rounds c ! r) = p \<longrightarrow>
         (case entry_at p c of None \<Rightarrow> True | Some (j, e) \<Rightarrow> ps_generation e = sr_generation (rc_rounds c ! r) \<longleftrightarrow> i = j))
    \<and> (\<forall>r op q j. r < length (rc_rounds c) \<longrightarrow> round_op env r op \<longrightarrow> m_get (rc_peers c) q = Some j \<longrightarrow>
         j \<noteq> sr_entry (rc_rounds c ! r) \<longrightarrow>
         m_get (rc_peers (sync_step env op c)) q = Some j \<and> rc_entries (sync_step env op c) ! j = rc_entries c ! j)"
proof -
  define c where "c = sync_run env ops (new_RegistrySyncCoordinator d)"
  have ok: "rounds_ok c" "tokens_ok c" "single c"
    using sync_run_flight [OF flight_new assms] by (simp_all add: c_def flight_ok_def)
  have gen: "case entry_at p c of None \<Rightarrow> True | Some (j, e) \<Rightarrow> ps_generation e = sr_generation (rc_rounds c ! r) \<longleftrightarrow> i = j"
    if r: "r \<in> flying c i" "sr_peer (rc_rounds c ! r) = p" for i r p
  proof (cases "m_get (rc_peers c) p")
    case (Some j)
    have "ps_generation (rc_entries c ! j) = sr_generation (rc_rounds c ! r)" if "i = j"
      using ok(1) r that Some unfolding rounds_ok_def flying_def Let_def by auto
    moreover have "i = j" if "ps_generation (rc_entries c ! j) = sr_generation (rc_rounds c ! r)"
      using ok(2) r that Some unfolding tokens_ok_def flying_def Let_def by auto
    ultimately show ?thesis using Some by (auto simp: entry_at_def)
  qed (simp add: entry_at_def)
  show ?thesis
    unfolding c_def [symmetric] Let_def using ok(3) gen other_entries [OF ok(1,2)] unfolding single_def by blast
qed

text \<open>A peer connects, its message fails, it connects anew before the first round has ended.\<close>

definition ex_sync :: "(nat, nat) sync_env" where
  "ex_sync = \<lparr>sy_init = 0, sy_generate = (\<lambda>d s. Inr (s, Some [])), sy_receive = (\<lambda>d s m. Some (Suc d, s)), sy_threshold = 3\<rparr>"

definition ex_sync_ops :: "sync_op list" where
  "ex_sync_ops = [PeerConnects 0 ''p'', PeerConnects 1 ''p'', SendSettles 2 0 (SendFailed False ''aborted''), RoundEnds 0, Tick 3]"

theorem single_flight_witness:
  "\<not> (1 \<in> flying (sync_run ex_sync ex_sync_ops (new_RegistrySyncCoordinator 0)) 1
      \<and> 2 \<in> flying (sync_run ex_sync ex_sync_ops (new_RegistrySyncCoordinator 0)) 1)"
proof -
  have "careful_run ex_sync ex_sync_ops (new_RegistrySyncCoordinator 0)" by code_simp
  from single_flight [OF this] show ?thesis unfolding Let_def by (metis n_not_Suc_n numeral_1_eq_Suc_0 numeral_2_eq_2 One_nat_def)
qed

section \<open>Where single flight fails\<close>

text \<open>The generation starts again at 1 when a peer left the map in between: then the end of its old round clears the mark of
  the new entry, and a second round begins while the first is under way.\<close>

lemma reconnect_breaks_single_flight:
  "list_all (\<lambda>r. r \<in> flying (sync_run ex_sync [PeerConnects 0 ''p'', PeerDisconnects ''p'', PeerConnects 1 ''p'',
       SendSettles 2 0 (SendFailed False ''aborted''), RoundEnds 0, Tick 3] (new_RegistrySyncCoordinator 0)) 1) [1, 2]"
  unfolding flying_def mem_Collect_eq by code_simp

text \<open>A round counts its timeouts on the entry it began with, but hangs up the peer, even one that is connected anew.\<close>

lemma stale_round_hangs_up:
  assumes "sr_phase (rc_rounds c ! r) = Sending m" "sr_aborted (rc_rounds c ! r)"
    and "sy_threshold env \<le> ps_timeouts (rc_entries c ! sr_entry (rc_rounds c ! r)) + 1"
  shows "rc_hung_up (send_settles env now r (SendFailed b msg) c) = rc_hung_up c @ [sr_peer (rc_rounds c ! r)]"
  using assms by (simp add: send_settles_def fail_round_def Let_def)

text \<open>What the primitive updates leave alone.\<close>

lemma set_fields [simp]:
  "rc_doc (set_entry i e c) = rc_doc c" "rc_sent (set_entry i e c) = rc_sent c" "rc_stopped (set_entry i e c) = rc_stopped c"
  "rc_doc (set_round r x c) = rc_doc c" "rc_sent (set_round r x c) = rc_sent c" "rc_stopped (set_round r x c) = rc_stopped c"
  "rc_dropping (set_entry i e c) = rc_dropping c" "rc_dropping (set_round r x c) = rc_dropping c"
  "rc_entries (set_round r x c) = rc_entries c"
  by (simp_all add: set_entry_def set_round_def)

lemma abort_fields [simp]:
  "rc_doc (abort_entry e c) = rc_doc c" "rc_sent (abort_entry e c) = rc_sent c" "rc_stopped (abort_entry e c) = rc_stopped c"
  "rc_dropping (abort_entry e c) = rc_dropping c" "rc_entries (abort_entry e c) = rc_entries c"
  by (simp_all add: abort_entry_def split: option.split)

lemma fail_fields [simp]:
  "rc_doc (fail_round env r n m c) = rc_doc c" "rc_sent (fail_round env r n m c) = rc_sent c"
  "rc_stopped (fail_round env r n m c) = rc_stopped c" "rc_dropping (fail_round env r n m c) = rc_dropping c"
  by (simp_all add: fail_round_def Let_def)

lemma run_dropping [simp]: "rc_dropping (runRound env now p c) = rc_dropping c"
  by (simp add: runRound_def Let_def split: option.split sum.split prod.split)

text \<open>After an overflow the peer is removed without looking at the generation: a connection made while it was being hung
  up is forgotten.\<close>

lemma dropped_forgets_reconnect:
  "p \<in> set (rc_dropping c) \<Longrightarrow> m_get (rc_peers (dropped p (onPeerConnect env now p c))) p = None"
  by (simp add: dropped_def onPeerConnect_def Let_def split: option.split)

text \<open>A buffered message on which Automerge throws is not caught where the buffer is drained: the promise of the round is
  rejected with nobody waiting for it, the rest of the buffer is lost and no further round follows.\<close>

lemma drained_message_unhandled:
  assumes "r < length (rc_rounds c)" "sr_phase (rc_rounds c ! r) = Settled" "entry_at (sr_peer (rc_rounds c ! r)) c = Some (i, e)"
    and "ps_generation e = sr_generation (rc_rounds c ! r)" "\<not> rc_stopped c" "ps_buffer e = m # ms"
    and "sy_receive env (rc_doc c) (ps_state e) m = None"
  shows "rc_unhandled (round_ends env r c) = rc_unhandled c @ [sr_peer (rc_rounds c ! r)] \<and> rc_queued (round_ends env r c) = rc_queued c"
proof -
  have "entry_at p (set_round r x c) = entry_at p c" for p x by (simp add: entry_at_def set_round_def)
  moreover have "rc_unhandled (set_round r x c) = rc_unhandled c" "rc_queued (set_round r x c) = rc_queued c"
    "rc_queued (set_entry i e' c') = rc_queued c'" for x e' and c' :: "('a, 'b) coordinator" by (simp_all add: set_round_def set_entry_def)
  ultimately show ?thesis using assms by (simp add: round_ends_def Let_def)
qed

section \<open>Bounds, and silence after the stop\<close>

definition buf_ok :: "'s peer_sync \<Rightarrow> bool" where
  "buf_ok e \<longleftrightarrow> length (ps_buffer e) \<le> MAX_BUFFERED_MESSAGES \<and> ps_buffer_bytes e = sum_list (map length (ps_buffer e))
     \<and> ps_buffer_bytes e \<le> MAX_BUFFERED_BYTES"

definition buffers_ok :: "('d, 's) coordinator \<Rightarrow> bool" where
  "buffers_ok c \<longleftrightarrow> (\<forall>i < length (rc_entries c). buf_ok (rc_entries c ! i))"

lemma buf_fields [simp]:
  "buf_ok (e\<lparr>ps_state := s\<rparr>) = buf_ok e" "buf_ok (e\<lparr>ps_inflight := b\<rparr>) = buf_ok e" "buf_ok (e\<lparr>ps_controller := k\<rparr>) = buf_ok e"
  "buf_ok (e\<lparr>ps_timeouts := n\<rparr>) = buf_ok e" "buf_ok (e\<lparr>ps_last_round := t\<rparr>) = buf_ok e"
  "buf_ok (e\<lparr>ps_last_error := x\<rparr>) = buf_ok e" "buf_ok (e\<lparr>ps_rounds := n\<rparr>) = buf_ok e" "buf_ok (e\<lparr>ps_converged := b\<rparr>) = buf_ok e"
  "buf_ok (createPeerEntry env g)" "buf_ok (e\<lparr>ps_buffer := [], ps_buffer_bytes := 0\<rparr>)"
  by (simp_all add: buf_ok_def createPeerEntry_def MAX_BUFFERED_BYTES_def)

lemma buffers_set_entry:
  "buffers_ok c \<Longrightarrow> (i < length (rc_entries c) \<Longrightarrow> buf_ok (rc_entries c ! i) \<Longrightarrow> buf_ok e) \<Longrightarrow> buffers_ok (set_entry i e c)"
  by (cases "i < length (rc_entries c)") (simp_all add: buffers_ok_def set_entry_def nth_list_update)

lemma set_entry_nth [simp]:
  "length (rc_entries (set_entry i e c)) = length (rc_entries c)"
  "i < length (rc_entries c) \<Longrightarrow> rc_entries (set_entry i e c) ! i = e"
  by (simp_all add: set_entry_def)

lemma buffers_other [simp]:
  "buffers_ok (set_round r x c) = buffers_ok c" "buffers_ok (abort_entry e c) = buffers_ok c"
  "buffers_ok (c\<lparr>rc_hung_up := h\<rparr>) = buffers_ok c" "buffers_ok (c\<lparr>rc_sent := t\<rparr>) = buffers_ok c"
  "buffers_ok (c\<lparr>rc_doc := d\<rparr>) = buffers_ok c" "buffers_ok (c\<lparr>rc_queued := q\<rparr>) = buffers_ok c"
  "buffers_ok (c\<lparr>rc_unhandled := u\<rparr>) = buffers_ok c" "buffers_ok (c\<lparr>rc_dropping := q\<rparr>) = buffers_ok c"
  "buffers_ok (c\<lparr>rc_peers := ps\<rparr>) = buffers_ok c" "buffers_ok (c\<lparr>rc_rounds := rs\<rparr>) = buffers_ok c"
  "buffers_ok (c\<lparr>rc_stopped := b\<rparr>) = buffers_ok c" "buffers_ok (c\<lparr>rc_ticking := b\<rparr>) = buffers_ok c"
  by (simp_all add: buffers_ok_def)

lemma buffers_add: "buffers_ok c \<Longrightarrow> buf_ok e \<Longrightarrow> buffers_ok (c\<lparr>rc_entries := rc_entries c @ [e]\<rparr>)"
  by (simp add: buffers_ok_def nth_append)

lemma buffers_fail: "buffers_ok c \<Longrightarrow> buffers_ok (fail_round env r n m c)"
  by (auto simp: fail_round_def Let_def intro!: buffers_set_entry)

lemma buffers_run: "buffers_ok c \<Longrightarrow> buffers_ok (runRound env now p c)"
  unfolding runRound_def Let_def
  by (auto simp: entry_at_def split: option.split sum.split prod.split intro!: buffers_set_entry buffers_fail)

lemma buffers_settles: "buffers_ok c \<Longrightarrow> buffers_ok (send_settles env now r res c)"
  by (auto simp: send_settles_def Let_def split: round_phase.split send_outcome.split intro!: buffers_set_entry buffers_fail)

lemma buffers_connect: "buffers_ok c \<Longrightarrow> buffers_ok (onPeerConnect env now p c)"
proof -
  assume ok: "buffers_ok c"
  have "buffers_ok (runRound env now p (c1\<lparr>rc_entries := rc_entries c1 @ [e], rc_peers := ps\<rparr>))" if "buffers_ok c1" "buf_ok e" for c1 e ps
    using buffers_run [of "c1\<lparr>rc_entries := rc_entries c1 @ [e], rc_peers := ps\<rparr>"] buffers_add [OF that] by (simp add: buffers_ok_def)
  then show ?thesis using ok by (simp add: onPeerConnect_def Let_def split: option.split prod.split)
qed

lemma buffers_deliver:
  assumes "buffers_ok c" "i < length (rc_entries c) \<Longrightarrow> e = rc_entries c ! i"
  shows "buffers_ok (deliver env now p m i e c)"
proof -
  have "buf_ok (e\<lparr>ps_buffer := ps_buffer e @ [m], ps_buffer_bytes := ps_buffer_bytes e + length m\<rparr>)"
    if "buf_ok e" "\<not> MAX_BUFFERED_MESSAGES \<le> length (ps_buffer e)" "\<not> MAX_BUFFERED_BYTES < ps_buffer_bytes e + length m"
    using that by (simp add: buf_ok_def)
  then show ?thesis
    using assms by (auto simp: deliver_def Let_def split: option.split intro!: buffers_run buffers_set_entry)
qed

lemma buffers_message: "buffers_ok c \<Longrightarrow> buffers_ok (onMessageFromPeer env now p m c)"
proof -
  assume ok: "buffers_ok c"
  let ?c = "c\<lparr>rc_entries := rc_entries c @ [createPeerEntry env None], rc_peers := m_set p (length (rc_entries c)) (rc_peers c)\<rparr>"
  have "buffers_ok ?c" using buffers_add [OF ok] by (simp add: buffers_ok_def)
  then have "buffers_ok (deliver env now p m (length (rc_entries c)) (createPeerEntry env None) ?c)"
    by (rule buffers_deliver) simp
  then show ?thesis using ok by (auto simp: onMessageFromPeer_def entry_at_def Let_def intro!: buffers_deliver split: option.split)
qed

lemma buffers_ends: "buffers_ok c \<Longrightarrow> buffers_ok (round_ends env r c)"
  by (auto simp: round_ends_def Let_def entry_at_def split: option.split prod.split intro!: buffers_set_entry)

lemma buffers_step: "buffers_ok c \<Longrightarrow> buffers_ok (sync_step env op c)"
proof (cases op)
  case (Tick now)
  have "buffers_ok c \<Longrightarrow> buffers_ok (fold (runRound env now) ps c)" for ps
    by (induction ps arbitrary: c) (simp_all add: buffers_run)
  then show "buffers_ok c \<Longrightarrow> ?thesis" using Tick by (simp add: all_rounds_def)
next
  case (Republish now)
  have "buffers_ok c \<Longrightarrow> buffers_ok (fold (runRound env now) ps c)" for ps
    by (induction ps arbitrary: c) (simp_all add: buffers_run)
  then show "buffers_ok c \<Longrightarrow> ?thesis" using Republish by (simp add: republish_def all_rounds_def)
next
  case Stop
  have "buffers_ok d \<Longrightarrow> buffers_ok (fold (\<lambda>i c. abort_entry (rc_entries c ! i) c) is d)" for "is" and d :: "('a, 'b) coordinator"
    by (induction "is" arbitrary: d) simp_all
  then show "buffers_ok c \<Longrightarrow> ?thesis" using Stop by (simp add: stop_coordinator_def)
qed (auto simp: buffers_connect buffers_message buffers_settles buffers_ends onPeerDisconnect_def round_timeout_def hang_up_done_def
    queued_round_def dropped_def stop_clears_def Let_def buffers_run split: option.split round_phase.split)

lemma silent_step:
  assumes "rc_stopped c"
  shows "rc_stopped (sync_step env op c) \<and> rc_sent (sync_step env op c) = rc_sent c \<and> rc_doc (sync_step env op c) = rc_doc c"
proof -
  have run: "runRound env now p d = d" if "rc_stopped d" for now p and d :: "('a, 'b) coordinator"
    using that by (simp add: runRound_def split: option.split)
  have all: "rc_stopped d \<Longrightarrow> fold (runRound env now) ps d = d" for now ps and d :: "('a, 'b) coordinator"
    by (induction ps arbitrary: d) (simp_all add: run)
  have stops: "rc_stopped (fold (\<lambda>i c. abort_entry (rc_entries c ! i) c) is d) = rc_stopped d
      \<and> rc_sent (fold (\<lambda>i c. abort_entry (rc_entries c ! i) c) is d) = rc_sent d
      \<and> rc_doc (fold (\<lambda>i c. abort_entry (rc_entries c ! i) c) is d) = rc_doc d" for "is" and d :: "('a, 'b) coordinator"
    by (induction "is" arbitrary: d) simp_all
  show ?thesis
    using assms by (cases op) (auto simp: onPeerConnect_def onPeerDisconnect_def onMessageFromPeer_def send_settles_def round_timeout_def
      hang_up_done_def round_ends_def queued_round_def dropped_def all_rounds_def republish_def stop_coordinator_def stop_clears_def
      run all stops Let_def entry_at_def split: option.split round_phase.split send_outcome.split)
qed

text \<open>In every run, careful or not, no entry buffers more than 16 messages or more than 16 MiB, and its byte count is
  exact; and once the coordinator is stopped, no message is sent and the document does not change, whatever happens.\<close>

theorem sync_bounds:
  shows "(let c = sync_run env ops (new_RegistrySyncCoordinator d) in
      \<forall>e \<in> set (rc_entries c). length (ps_buffer e) \<le> 16 \<and> sum_list (map length (ps_buffer e)) \<le> 16 * 1024 * 1024
        \<and> ps_buffer_bytes e = sum_list (map length (ps_buffer e)))
    \<and> (rc_stopped c0 \<longrightarrow> rc_sent (sync_run env ops c0) = rc_sent c0 \<and> rc_doc (sync_run env ops c0) = rc_doc c0)"
proof (intro conjI impI)
  have "buffers_ok c \<Longrightarrow> buffers_ok (sync_run env ops c)" for c
    unfolding sync_run_def by (induction ops arbitrary: c) (simp_all add: buffers_step)
  moreover have "buffers_ok (new_RegistrySyncCoordinator d)" by (simp add: buffers_ok_def new_RegistrySyncCoordinator_def)
  ultimately have "buffers_ok (sync_run env ops (new_RegistrySyncCoordinator d))" .
  then show "let c = sync_run env ops (new_RegistrySyncCoordinator d) in
      \<forall>e \<in> set (rc_entries c). length (ps_buffer e) \<le> 16 \<and> sum_list (map length (ps_buffer e)) \<le> 16 * 1024 * 1024
        \<and> ps_buffer_bytes e = sum_list (map length (ps_buffer e))"
    unfolding Let_def buffers_ok_def all_set_conv_all_nth
    by (simp add: buf_ok_def MAX_BUFFERED_MESSAGES_def MAX_BUFFERED_BYTES_def) metis
next
  assume "rc_stopped c0"
  then have "rc_stopped (sync_run env ops c0) \<and> rc_sent (sync_run env ops c0) = rc_sent c0 \<and> rc_doc (sync_run env ops c0) = rc_doc c0"
    unfolding sync_run_def
  proof (induction ops arbitrary: c0)
    case (Cons op ops)
    then show ?case using silent_step [OF Cons.prems, of env op] by simp
  qed simp
  then show "rc_sent (sync_run env ops c0) = rc_sent c0" "rc_doc (sync_run env ops c0) = rc_doc c0" by blast+
qed

theorem sync_bounds_witness:
  "rc_sent (sync_run ex_sync (Stop # ex_sync_ops) (new_RegistrySyncCoordinator 0)) = []
   \<and> length (ps_buffer (hd (rc_entries (sync_run ex_sync ex_sync_ops (new_RegistrySyncCoordinator 0))))) \<le> 16"
proof -
  let ?c = "sync_run ex_sync ex_sync_ops (new_RegistrySyncCoordinator 0)"
  let ?s = "stop_coordinator (new_RegistrySyncCoordinator (0 :: nat)) :: (nat, nat) coordinator"
  have "rc_stopped ?s" "rc_sent ?s = []" by (simp_all add: stop_coordinator_def new_RegistrySyncCoordinator_def)
  then have "rc_sent (sync_run ex_sync ex_sync_ops ?s) = []"
    using sync_bounds [of ex_sync "[]" "0 :: nat" ?s] sync_bounds [of ex_sync ex_sync_ops "0 :: nat" ?s] by simp
  moreover have "rc_entries ?c \<noteq> []" by code_simp
  then have "hd (rc_entries ?c) \<in> set (rc_entries ?c)" by simp
  then have "length (ps_buffer (hd (rc_entries ?c))) \<le> 16"
    using sync_bounds [of ex_sync ex_sync_ops "0 :: nat" ?s] unfolding Let_def by blast
  ultimately show ?thesis by (simp add: sync_run_def)
qed

theorem frame_round_trip_witness:
  "readFrame [Chunk [2, 0, 0], Chunk [], Chunk [0, 7], Chunk [9]] = Inr (Some [7, 9])
   \<and> readFrame [Chunk [2, 0, 0], Chunk [0, 7], Chunk [9, 1]] \<noteq> Inr (Some [7, 9])"
  using frame_round_trip [of "[7, 9]" "[[2, 0, 0], [], [0, 7], [9]]" "[]"]
    frame_round_trip [of "[7, 9]" "[[2, 0, 0], [0, 7], [9, 1]]" "[]"]
  by (simp add: encodeFrame_def set_u32_def REGISTRY_SYNC_MAX_FRAME_BYTES_def)

end
