(* ===== verification/Task_Manager.thy ===== *)
theory Task_Manager
  imports Prelude
begin

text \<open>
  Delegated tasks, \<open>packages/daemon/src/tasks.ts\<close>. The manager keeps two insertion-ordered maps. Task ids
  come from \<open>randomUUID\<close>: they are an argument of \<open>createRequest\<close>, and the step relation assumes that the
  generated id is not in use. \<open>checkTimeouts\<close> runs from a timer; its clock is read once for the comparison
  and once for the time stamp. Inputs and results are JSON values.
\<close>

section \<open>Data\<close>

datatype task_state = Requested | Accepted | Rejected | Completed | Failed | Timeout

record task =
  tk_id :: string
  tk_correlation_id :: string
  tk_requester :: string
  tk_executor :: "string option"
  tk_state :: task_state
  tk_skill_id :: string
  tk_input :: json
  tk_result :: "json option"
  tk_error :: "string option"
  tk_created_at :: time
  tk_deadline :: "time option"
  tk_updated_at :: time

record task_manager =
  tm_tasks :: "(string, task) jsmap"
  tm_correlation :: "(string, string) jsmap"

section \<open>Operations\<close>

definition new_TaskManager :: task_manager where
  "new_TaskManager = \<lparr>tm_tasks = [], tm_correlation = []\<rparr>"

definition createRequest ::
  "string \<Rightarrow> time \<Rightarrow> string \<Rightarrow> string \<Rightarrow> json \<Rightarrow> int option \<Rightarrow> task_manager \<Rightarrow> task \<times> task_manager" where
  "createRequest uuid now requester skillId input deadlineMs m =
     (let deadline = (case deadlineMs of None \<Rightarrow> None | Some d \<Rightarrow> if d = 0 then None else Some (now + d));
          t = \<lparr>tk_id = uuid, tk_correlation_id = uuid, tk_requester = requester, tk_executor = None,
               tk_state = Requested, tk_skill_id = skillId, tk_input = input, tk_result = None,
               tk_error = None, tk_created_at = now, tk_deadline = deadline, tk_updated_at = now\<rparr>
      in (t, m\<lparr>tm_tasks := m_set uuid t (tm_tasks m), tm_correlation := m_set uuid uuid (tm_correlation m)\<rparr>))"

text \<open>The guard and the update all four decisions share.\<close>

definition decide_task ::
  "task_state \<Rightarrow> (task \<Rightarrow> task) \<Rightarrow> string \<Rightarrow> task_manager \<Rightarrow> task option \<times> task_manager" where
  "decide_task from f taskId m =
     (case m_get (tm_tasks m) taskId of
        None \<Rightarrow> (None, m)
      | Some t \<Rightarrow>
          if tk_state t \<noteq> from then (None, m)
          else (Some (f t), m\<lparr>tm_tasks := m_set taskId (f t) (tm_tasks m)\<rparr>))"

definition accept :: "time \<Rightarrow> string \<Rightarrow> string \<Rightarrow> task_manager \<Rightarrow> task option \<times> task_manager" where
  "accept now taskId executor =
     decide_task Requested (\<lambda>t. t\<lparr>tk_state := Accepted, tk_executor := Some executor, tk_updated_at := now\<rparr>) taskId"

definition reject :: "time \<Rightarrow> string \<Rightarrow> string \<Rightarrow> task_manager \<Rightarrow> task option \<times> task_manager" where
  "reject now taskId reason =
     decide_task Requested (\<lambda>t. t\<lparr>tk_state := Rejected, tk_error := Some reason, tk_updated_at := now\<rparr>) taskId"

definition complete :: "time \<Rightarrow> string \<Rightarrow> json \<Rightarrow> task_manager \<Rightarrow> task option \<times> task_manager" where
  "complete now taskId res =
     decide_task Accepted (\<lambda>t. t\<lparr>tk_state := Completed, tk_result := Some res, tk_updated_at := now\<rparr>) taskId"

definition fail :: "time \<Rightarrow> string \<Rightarrow> string \<Rightarrow> task_manager \<Rightarrow> task option \<times> task_manager" where
  "fail now taskId err =
     decide_task Accepted (\<lambda>t. t\<lparr>tk_state := Failed, tk_error := Some err, tk_updated_at := now\<rparr>) taskId"

definition getTask :: "string \<Rightarrow> task_manager \<Rightarrow> task option" where
  "getTask taskId m = m_get (tm_tasks m) taskId"

text \<open>An empty id is falsy.\<close>

definition getTaskByCorrelation :: "string \<Rightarrow> task_manager \<Rightarrow> task option" where
  "getTaskByCorrelation correlationId m =
     (case m_get (tm_correlation m) correlationId of
        None \<Rightarrow> None
      | Some taskId \<Rightarrow> if taskId = [] then None else m_get (tm_tasks m) taskId)"

definition getByState :: "task_state \<Rightarrow> task_manager \<Rightarrow> task list" where
  "getByState st m = filter (\<lambda>t. tk_state t = st) (m_vals (tm_tasks m))"

definition getActiveTasks :: "task_manager \<Rightarrow> task list" where
  "getActiveTasks m = filter (\<lambda>t. tk_state t = Requested \<or> tk_state t = Accepted) (m_vals (tm_tasks m))"

definition timeout_task :: "time \<Rightarrow> time \<Rightarrow> task \<Rightarrow> task" where
  "timeout_task now later t =
     (if (case tk_deadline t of None \<Rightarrow> False | Some d \<Rightarrow> d < now)
         \<and> (tk_state t = Requested \<or> tk_state t = Accepted)
      then t\<lparr>tk_state := Timeout, tk_error := Some ''Deadline exceeded'', tk_updated_at := later\<rparr>
      else t)"

definition checkTimeouts :: "time \<Rightarrow> time \<Rightarrow> task_manager \<Rightarrow> task_manager" where
  "checkTimeouts now later m = m\<lparr>tm_tasks := m_map (timeout_task now later) (tm_tasks m)\<rparr>"

section \<open>Steps\<close>

inductive task_step :: "task_manager \<Rightarrow> task_manager \<Rightarrow> bool" where
  create: "uuid \<notin> set (m_keys (tm_tasks m)) \<Longrightarrow>
    task_step m (snd (createRequest uuid now requester skillId input deadlineMs m))"
| accept: "task_step m (snd (accept now i executor m))"
| reject: "task_step m (snd (reject now i reason m))"
| complete: "task_step m (snd (complete now i res m))"
| fail: "task_step m (snd (fail now i err m))"
| timeouts: "task_step m (checkTimeouts now later m)"

inductive_cases task_stepE: "task_step m m'"

text \<open>The transition graph, on whole tasks: what never changes, and what each transition sets.\<close>

fun task_edge_state :: "task_state \<Rightarrow> task_state \<Rightarrow> bool" where
  "task_edge_state Requested s \<longleftrightarrow> s \<in> {Accepted, Rejected, Timeout}"
| "task_edge_state Accepted s \<longleftrightarrow> s \<in> {Completed, Failed, Timeout}"
| "task_edge_state _ s \<longleftrightarrow> False"

definition same_order :: "task \<Rightarrow> task \<Rightarrow> bool" where
  "same_order a b \<longleftrightarrow> tk_id b = tk_id a \<and> tk_correlation_id b = tk_correlation_id a
     \<and> tk_requester b = tk_requester a \<and> tk_skill_id b = tk_skill_id a \<and> tk_input b = tk_input a
     \<and> tk_created_at b = tk_created_at a \<and> tk_deadline b = tk_deadline a"

definition task_edge :: "task \<Rightarrow> task \<Rightarrow> bool" where
  "task_edge a b \<longleftrightarrow> task_edge_state (tk_state a) (tk_state b) \<and> same_order a b"

definition task_initial :: "task \<Rightarrow> bool" where
  "task_initial t \<longleftrightarrow> tk_state t = Requested \<and> tk_executor t = None \<and> tk_result t = None \<and> tk_error t = None"

definition task_ok :: "task \<Rightarrow> bool" where
  "task_ok t \<longleftrightarrow> (tk_result t \<noteq> None \<longleftrightarrow> tk_state t = Completed)
     \<and> (tk_error t \<noteq> None \<longleftrightarrow> tk_state t \<in> {Rejected, Failed, Timeout})
     \<and> (tk_state t \<in> {Accepted, Completed, Failed} \<longrightarrow> tk_executor t \<noteq> None)
     \<and> (tk_state t \<in> {Requested, Rejected} \<longrightarrow> tk_executor t = None)
     \<and> (tk_state t = Timeout \<longrightarrow> tk_deadline t \<noteq> None)"

definition task_inv :: "task_manager \<Rightarrow> bool" where
  "task_inv m \<longleftrightarrow> m_inv (tm_tasks m) \<and> m_inv (tm_correlation m)
     \<and> (\<forall>k t. m_get (tm_tasks m) k = Some t \<longrightarrow> task_ok t \<and> tk_id t = k \<and> tk_correlation_id t = k)
     \<and> (\<forall>k. m_get (tm_correlation m) k = (if m_get (tm_tasks m) k = None then None else Some k))"

lemma decide_task_look:
  "getTask k (snd (decide_task from f i m)) =
     (case getTask k m of None \<Rightarrow> None | Some t \<Rightarrow> if k = i \<and> tk_state t = from then Some (f t) else Some t)"
  by (auto simp: decide_task_def getTask_def split: option.splits)

lemma decide_task_inv:
  assumes "task_inv m"
    and "\<And>t. task_ok t \<Longrightarrow> tk_state t = from \<Longrightarrow> task_ok (f t) \<and> tk_id (f t) = tk_id t
      \<and> tk_correlation_id (f t) = tk_correlation_id t"
  shows "task_inv (snd (decide_task from f i m))"
  using assms by (auto simp: task_inv_def decide_task_def split: option.splits)

lemma timeout_ok: "task_ok t \<Longrightarrow> task_ok (timeout_task now later t)"
  by (auto simp: task_ok_def timeout_task_def split: option.splits)

lemma timeout_ids [simp]:
  "tk_id (timeout_task now later t) = tk_id t"
  "tk_correlation_id (timeout_task now later t) = tk_correlation_id t"
  by (simp_all add: timeout_task_def)

lemma task_inv_create:
  "task_inv m \<Longrightarrow> uuid \<notin> set (m_keys (tm_tasks m)) \<Longrightarrow>
   task_inv (snd (createRequest uuid now requester skillId input deadlineMs m))"
  by (auto simp: task_inv_def createRequest_def Let_def task_ok_def)

lemma task_inv_timeouts: "task_inv m \<Longrightarrow> task_inv (checkTimeouts now later m)"
  by (auto simp: task_inv_def checkTimeouts_def intro: timeout_ok)

lemma task_inv_step: "task_inv m \<Longrightarrow> task_step m m' \<Longrightarrow> task_inv m'"
  by (erule task_stepE)
     (auto simp: accept_def reject_def complete_def fail_def task_ok_def
       intro!: task_inv_create task_inv_timeouts decide_task_inv)

lemma timeout_edge: "timeout_task now later t = t \<or> task_edge t (timeout_task now later t)"
  by (auto simp: timeout_task_def task_edge_def same_order_def)

lemma task_step_kept:
  assumes "task_step m m'" and "getTask k m = Some a"
  shows "\<exists>b. getTask k m' = Some b \<and> (b = a \<or> task_edge a b)"
  using assms(1)
proof (cases rule: task_step.cases)
  case (create uuid now requester skillId input deadlineMs)
  then have "k \<noteq> uuid" using assms(2) by (force simp: getTask_def dest: map_of_SomeD)
  with create assms(2) show ?thesis by (simp add: createRequest_def getTask_def Let_def)
next
  case (timeouts now later)
  with assms(2) timeout_edge [of now later a] show ?thesis
    by (auto simp: checkTimeouts_def getTask_def)
qed (use assms(2) in \<open>auto simp: accept_def reject_def complete_def fail_def decide_task_look task_edge_def same_order_def\<close>)

lemma task_step_born:
  assumes "task_step m m'" and "getTask k m = None" and "getTask k m' = Some b"
  shows "task_initial b"
  using assms(1)
proof (cases rule: task_step.cases)
  case (create uuid now requester skillId input deadlineMs)
  with assms(2,3) show ?thesis
    by (auto simp: createRequest_def getTask_def Let_def task_initial_def split: if_splits)
next
  case (timeouts now later)
  with assms(2,3) show ?thesis by (auto simp: checkTimeouts_def getTask_def)
qed (use assms(2,3) in \<open>auto simp: accept_def reject_def complete_def fail_def decide_task_look\<close>)

interpretation task_cycle: lifecycle task_step "\<lambda>m k. getTask k m" task_edge task_initial "\<lambda>_. False" task_inv
proof
  show "task_inv s \<Longrightarrow> task_step s t \<Longrightarrow> task_inv t" for s t by (rule task_inv_step)
  show "task_inv s \<Longrightarrow> task_step s t \<Longrightarrow> getTask k s = Some a \<Longrightarrow>
      (case getTask k t of None \<Rightarrow> False | Some b \<Rightarrow> b = a \<or> task_edge a b)" for s t k a
    using task_step_kept [of s t k a] by auto
  show "task_inv s \<Longrightarrow> task_step s t \<Longrightarrow> getTask k s = None \<Longrightarrow> getTask k t = Some b \<Longrightarrow> task_initial b"
    for s t k b
    by (rule task_step_born)
qed

lemma task_inv_new [simp]: "task_inv new_TaskManager"
  by (simp add: task_inv_def new_TaskManager_def)

definition terminal :: "task \<Rightarrow> bool" where
  "terminal t \<longleftrightarrow> tk_state t \<in> {Rejected, Completed, Failed, Timeout}"

lemma terminal_final: "terminal t \<Longrightarrow> task_cycle.final t"
  by (auto simp: task_cycle.final_def task_edge_def terminal_def)

section \<open>Properties\<close>

text \<open>
  The life of a task. In every reachable manager each task came from a request that nobody had
  accepted and moved only along requested to accepted, rejected or timeout and accepted to completed,
  failed or timeout, keeping its order data; a result exists exactly for a completed task and an error
  exactly for a rejected, failed or timed-out one; it is found under its correlation id; and once it is
  terminal it never changes again, whatever is called.
\<close>

theorem task_life:
  assumes "task_step\<^sup>*\<^sup>* new_TaskManager m" and "getTask k m = Some t"
  shows "task_ok t \<and> (\<exists>a. task_initial a \<and> task_edge\<^sup>*\<^sup>* a t)
    \<and> (k \<noteq> [] \<longrightarrow> getTaskByCorrelation k m = Some t)
    \<and> (terminal t \<longrightarrow> (\<forall>m'. task_step\<^sup>*\<^sup>* m m' \<longrightarrow> getTask k m' = Some t))"
proof -
  have inv: "task_inv m" using task_cycle.inv_reach [OF assms(1)] by simp
  then have "task_ok t" "k \<noteq> [] \<longrightarrow> getTaskByCorrelation k m = Some t"
    using assms(2) by (auto simp: task_inv_def getTask_def getTaskByCorrelation_def)
  moreover have "\<exists>a. task_initial a \<and> task_edge\<^sup>*\<^sup>* a t"
    using task_cycle.reach_path [OF assms(1) task_inv_new assms(2)] by (auto simp: getTask_def new_TaskManager_def)
  moreover have "terminal t \<longrightarrow> (\<forall>m'. task_step\<^sup>*\<^sup>* m m' \<longrightarrow> getTask k m' = Some t)"
    using task_cycle.final_sticky [OF _ inv assms(2) terminal_final] by simp
  ultimately show ?thesis by blast
qed

definition sample_tasks :: task_manager where
  "sample_tasks = snd (reject 1 ''t'' ''busy'' (snd (createRequest ''t'' 0 ''a'' ''s'' JNull None new_TaskManager)))"

theorem task_life_witness:
  "map_option tk_state (getTask ''t'' (snd (accept 2 ''t'' ''b'' sample_tasks))) = Some Rejected"
proof -
  have "task_step new_TaskManager (snd (createRequest ''t'' 0 ''a'' ''s'' JNull None new_TaskManager))"
    by (rule task_step.create) (simp add: new_TaskManager_def)
  then have reach: "task_step\<^sup>*\<^sup>* new_TaskManager sample_tasks"
    unfolding sample_tasks_def
    by (rule converse_rtranclp_into_rtranclp) (rule r_into_rtranclp, rule task_step.reject)
  obtain t where t: "getTask ''t'' sample_tasks = Some t" "tk_state t = Rejected"
    by (simp add: sample_tasks_def getTask_def createRequest_def new_TaskManager_def reject_def decide_task_def Let_def)
  have "task_step\<^sup>*\<^sup>* sample_tasks (snd (accept 2 ''t'' ''b'' sample_tasks))"
    using task_step.accept by (rule r_into_rtranclp)
  then show ?thesis using task_life [OF reach t(1)] t(2) by (simp add: terminal_def)
qed

end
