(* ===== verification/Task_Executor.thy ===== *)
theory Task_Executor
  imports Task_Manager
begin

text \<open>
  Execution of tasks on this node: the admission by load of \<open>resource-metrics.ts\<close>, the executor of
  \<open>task-executor.ts\<close> and the route \<open>POST /api/tasks/execute\<close> of \<open>dashboard-api.ts\<close>. A request waits for the measurement
  of the memory, then runs to the handler in one piece, then waits for the handler; the model has one operation per
  piece. What the sensors and the handlers return are arguments. The texts of log lines are not modelled.
\<close>

section \<open>Admission by load\<close>

definition computeRamUsedPercent :: "jsnum \<Rightarrow> jsnum \<Rightarrow> rat" where
  "computeRamUsedPercent totalBytes availableBytes =
     (case totalBytes of
        NonFinite \<Rightarrow> 0
      | Num t \<Rightarrow>
          if t \<le> 0 then 0
          else let avail = (case availableBytes of Num a \<Rightarrow> max 0 a | NonFinite \<Rightarrow> 0);
                   used = max 0 (t - avail)
               in min 100 (used / t * 100))"

text \<open>A reading of the memory sensor; \<open>available\<close> is missing on some systems.\<close>

record mem_reading =
  mem_total :: jsnum
  mem_available :: "jsnum option"
  mem_free :: jsnum

definition readRamUsedPercent :: "mem_reading \<Rightarrow> rat" where
  "readRamUsedPercent mem = computeRamUsedPercent (mem_total mem) (default_to (mem_free mem) (mem_available mem))"

record resource_metrics =
  rm_free_ram :: jsnum
  rm_total_ram :: jsnum
  rm_ram_used :: rat
  rm_cpu_load :: rat

definition readResourceMetrics :: "mem_reading \<Rightarrow> rat \<Rightarrow> resource_metrics" where
  "readResourceMetrics mem load =
     \<lparr>rm_free_ram = default_to (mem_free mem) (mem_available mem), rm_total_ram = mem_total mem,
      rm_ram_used = readRamUsedPercent mem, rm_cpu_load = of_int \<lfloor>load * 10 + 1 / 2\<rfloor> / 10\<rparr>"

datatype load_dimension = LoadRam | LoadCpu | LoadAgents

record placement_decision =
  pdc_refuse :: bool
  pdc_limit :: "load_dimension option"
  pdc_ram :: jsnum

record placement_metrics =
  pm_ram :: "jsnum option"
  pm_cpu :: "jsnum option"
  pm_agents :: "jsnum option"

record placement_limits =
  pl_ram :: "jsnum option"
  pl_cpu :: "jsnum option"
  pl_agents :: "jsnum option"

definition exceeds :: "jsnum option \<Rightarrow> jsnum option \<Rightarrow> bool" where
  "exceeds v limit =
     (case limit of
        Some (Num l) \<Rightarrow> 0 < l \<and> (case v of Some (Num x) \<Rightarrow> l < x | _ \<Rightarrow> False)
      | _ \<Rightarrow> False)"

definition evaluatePlacementMetrics :: "placement_metrics \<Rightarrow> placement_limits \<Rightarrow> placement_decision" where
  "evaluatePlacementMetrics m l =
     (let ram = default_to NonFinite (pm_ram m) in
      if exceeds (pm_ram m) (pl_ram l) then \<lparr>pdc_refuse = True, pdc_limit = Some LoadRam, pdc_ram = ram\<rparr>
      else if exceeds (pm_cpu m) (pl_cpu l) then \<lparr>pdc_refuse = True, pdc_limit = Some LoadCpu, pdc_ram = ram\<rparr>
      else if exceeds (pm_agents m) (pl_agents l) then \<lparr>pdc_refuse = True, pdc_limit = Some LoadAgents, pdc_ram = ram\<rparr>
      else \<lparr>pdc_refuse = False, pdc_limit = None, pdc_ram = ram\<rparr>)"

definition evaluatePlacement :: "jsnum \<Rightarrow> jsnum \<Rightarrow> placement_decision" where
  "evaluatePlacement ramUsedPercent refuseRamPercent =
     evaluatePlacementMetrics \<lparr>pm_ram = Some ramUsedPercent, pm_cpu = None, pm_agents = None\<rparr>
       \<lparr>pl_ram = Some refuseRamPercent, pl_cpu = None, pl_agents = None\<rparr>"

section \<open>The executor\<close>

text \<open>A reader may be absent, return \<open>null\<close> or throw.\<close>

datatype sensor = NoSensor | SensorReads "jsnum option" | SensorThrows

fun safeReadDimension :: "sensor \<Rightarrow> jsnum option" where
  "safeReadDimension NoSensor = None"
| "safeReadDimension (SensorReads v) = v"
| "safeReadDimension SensorThrows = None"

datatype exec_event =
    TaskRefused string load_dimension
  | TaskAccepted string
  | TaskCompleted string
  | TaskFailed string string

datatype exec_audit = AuditRefused string string load_dimension | AuditAccepted string string

datatype exec_reply =
    RefusedCapacity load_dimension
  | SkillUnavailable
  | NotAcceptable
  | Executed json
  | ExecutedWithError string

record executor =
  ex_tasks :: task_manager
  ex_handlers :: "string list"
  ex_agent :: string
  ex_has_ram_gate :: bool
  ex_limits :: placement_limits
  ex_waiting :: "(string \<times> string \<times> string) list"
  ex_running :: "string list"
  ex_events :: "exec_event list"
  ex_audit :: "exec_audit list"

text \<open>The measured load: nothing is measured and nothing refused without a memory reader and a number as its limit.\<close>

definition placement :: "sensor \<Rightarrow> sensor \<Rightarrow> sensor \<Rightarrow> executor \<Rightarrow> load_dimension option" where
  "placement ram cpu agents x =
     (if \<not> ex_has_ram_gate x \<or> pl_ram (ex_limits x) = None then None
      else pdc_limit (evaluatePlacementMetrics
        \<lparr>pm_ram = safeReadDimension ram, pm_cpu = safeReadDimension cpu, pm_agents = safeReadDimension agents\<rparr>
        (ex_limits x)))"

text \<open>A request up to the call of the handler; \<open>None\<close>: the handler is running now.\<close>

definition begin_task ::
  "sensor \<Rightarrow> sensor \<Rightarrow> sensor \<Rightarrow> time \<Rightarrow> string \<Rightarrow> string \<Rightarrow> string \<Rightarrow> executor \<Rightarrow> exec_reply option \<times> executor" where
  "begin_task ram cpu agents now taskId skillId requester x =
     (case placement ram cpu agents x of
        Some d \<Rightarrow> (Some (RefusedCapacity d),
          x\<lparr>ex_audit := ex_audit x @ [AuditRefused requester skillId d], ex_events := ex_events x @ [TaskRefused taskId d]\<rparr>)
      | None \<Rightarrow>
          if skillId \<notin> set (ex_handlers x) then (Some SkillUnavailable, x)
          else case accept now taskId (ex_agent x) (ex_tasks x) of
            (None, ts) \<Rightarrow> (Some NotAcceptable, x\<lparr>ex_tasks := ts\<rparr>)
          | (Some _, ts) \<Rightarrow>
              (None, x\<lparr>ex_tasks := ts, ex_events := ex_events x @ [TaskAccepted taskId],
                       ex_audit := ex_audit x @ [AuditAccepted requester skillId], ex_running := ex_running x @ [taskId]\<rparr>))"

text \<open>The handler of a running task settles, with a result or an error text.\<close>

definition settle_task :: "time \<Rightarrow> string \<Rightarrow> string + json \<Rightarrow> executor \<Rightarrow> exec_reply \<times> executor" where
  "settle_task now taskId outcome x0 =
     (let x = x0\<lparr>ex_running := remove1 taskId (ex_running x0)\<rparr> in
      case outcome of
        Inr r \<Rightarrow> (Executed r,
          x\<lparr>ex_tasks := snd (complete now taskId r (ex_tasks x)), ex_events := ex_events x @ [TaskCompleted taskId]\<rparr>)
      | Inl e \<Rightarrow> (ExecutedWithError e,
          x\<lparr>ex_tasks := snd (fail now taskId e (ex_tasks x)), ex_events := ex_events x @ [TaskFailed taskId e]\<rparr>))"

definition registerHandler :: "string \<Rightarrow> executor \<Rightarrow> executor" where
  "registerHandler skillId x = x\<lparr>ex_handlers := List.insert skillId (ex_handlers x)\<rparr>"

definition hasHandler :: "string \<Rightarrow> executor \<Rightarrow> bool" where
  "hasHandler skillId x \<longleftrightarrow> skillId \<in> set (ex_handlers x)"

text \<open>The names of the built-in skills; those of the database are registered when its health check answers.\<close>

definition SYSTEM_SKILLS :: "string list" where
  "SYSTEM_SKILLS = [''system.health'', ''system.processes'', ''system.network'', ''system.disk'']"

definition INFLUX_SKILLS :: "string list" where
  "INFLUX_SKILLS = [''influxdb.query'', ''influxdb.databases'', ''influxdb.measurements'', ''influxdb.write'']"

definition new_TaskExecutor :: "task_manager \<Rightarrow> string \<Rightarrow> bool \<Rightarrow> placement_limits \<Rightarrow> executor" where
  "new_TaskExecutor ts agentId hasRamReader limits =
     \<lparr>ex_tasks = ts, ex_handlers = SYSTEM_SKILLS, ex_agent = agentId, ex_has_ram_gate = hasRamReader, ex_limits = limits,
      ex_waiting = [], ex_running = [], ex_events = [], ex_audit = []\<rparr>"

definition influx_answered :: "bool \<Rightarrow> executor \<Rightarrow> executor" where
  "influx_answered available x = (if available then fold registerHandler INFLUX_SKILLS x else x)"

section \<open>The route\<close>

datatype http_reply = HttpStatus nat | HttpTask string string json

text \<open>The route up to the measurement, and the reply it makes of the executor's answer.\<close>

definition execute_route :: "bool \<Rightarrow> string \<Rightarrow> time \<Rightarrow> string \<Rightarrow> json \<Rightarrow> executor \<Rightarrow> http_reply option \<times> executor" where
  "execute_route allowed uuid now skillId input x =
     (if \<not> allowed then (Some (HttpStatus 429), x)
      else if skillId = [] then (Some (HttpStatus 400), x)
      else case createRequest uuid now ''remote'' skillId input None (ex_tasks x) of
        (t, ts) \<Rightarrow> (None, x\<lparr>ex_tasks := ts, ex_waiting := ex_waiting x @ [(tk_id t, skillId, ''remote'')]\<rparr>))"

fun route_reply :: "string \<Rightarrow> string \<Rightarrow> exec_reply \<Rightarrow> http_reply" where
  "route_reply taskId skillId (RefusedCapacity d) = HttpStatus 503"
| "route_reply taskId skillId SkillUnavailable = HttpStatus 404"
| "route_reply taskId skillId NotAcceptable = HttpStatus 404"
| "route_reply taskId skillId (ExecutedWithError e) = (if e = [] then HttpTask taskId skillId JUndefined else HttpStatus 500)"
| "route_reply taskId skillId (Executed r) = HttpTask taskId skillId r"

section \<open>Steps\<close>

text \<open>The tasks of the daemon are created by this route and, with a deadline, by its MCP server; a waiting request goes
  on when the memory has been measured, a running one when its handler settles.\<close>

inductive exec_step :: "executor \<Rightarrow> executor \<Rightarrow> bool" where
  route: "uuid \<notin> set (m_keys (tm_tasks (ex_tasks x))) \<Longrightarrow> exec_step x (snd (execute_route allowed uuid now skillId input x))"
| create: "uuid \<notin> set (m_keys (tm_tasks (ex_tasks x))) \<Longrightarrow>
    exec_step x (x\<lparr>ex_tasks := snd (createRequest uuid now requester skillId input deadlineMs (ex_tasks x))\<rparr>)"
| measured: "(taskId, skillId, requester) \<in> set (ex_waiting x) \<Longrightarrow>
    exec_step x (snd (begin_task ram cpu agents now taskId skillId requester
      (x\<lparr>ex_waiting := remove1 (taskId, skillId, requester) (ex_waiting x)\<rparr>)))"
| settled: "taskId \<in> set (ex_running x) \<Longrightarrow> exec_step x (snd (settle_task now taskId outcome x))"
| timeouts: "exec_step x (x\<lparr>ex_tasks := checkTimeouts now later (ex_tasks x)\<rparr>)"
| handler: "exec_step x (registerHandler skillId x)"
| influx: "exec_step x (influx_answered available x)"

inductive_cases exec_stepE: "exec_step x x'"

definition started :: "exec_event list \<Rightarrow> string list" where
  "started es = List.map_filter (\<lambda>e. case e of TaskAccepted i \<Rightarrow> Some i | _ \<Rightarrow> None) es"

definition finished :: "exec_event list \<Rightarrow> string list" where
  "finished es = List.map_filter (\<lambda>e. case e of TaskCompleted i \<Rightarrow> Some i | TaskFailed i _ \<Rightarrow> Some i | _ \<Rightarrow> None) es"

definition state_of_task :: "task_manager \<Rightarrow> string \<Rightarrow> task_state option" where
  "state_of_task ts i = map_option tk_state (getTask i ts)"

text \<open>What the books of the executor say of one task.\<close>

definition booked :: "executor \<Rightarrow> string \<Rightarrow> bool" where
  "booked x i \<longleftrightarrow> (let st = state_of_task (ex_tasks x) i in
     (st = Some Accepted \<longrightarrow> i \<in> set (ex_running x))
   \<and> (st = Some Completed \<longrightarrow> TaskCompleted i \<in> set (ex_events x))
   \<and> (st = Some Failed \<longrightarrow> (\<exists>e. TaskFailed i e \<in> set (ex_events x)))
   \<and> (i \<in> set (ex_running x) \<longrightarrow> st \<in> {Some Accepted, Some Timeout})
   \<and> (TaskCompleted i \<in> set (ex_events x) \<longrightarrow> st \<in> {Some Completed, Some Timeout})
   \<and> (\<forall>e. TaskFailed i e \<in> set (ex_events x) \<longrightarrow> st \<in> {Some Failed, Some Timeout}))"

definition exec_inv :: "executor \<Rightarrow> bool" where
  "exec_inv x \<longleftrightarrow> task_inv (ex_tasks x) \<and> distinct (started (ex_events x)) \<and> distinct (ex_running x)
     \<and> distinct (finished (ex_events x)) \<and> set (started (ex_events x)) = set (ex_running x) \<union> set (finished (ex_events x))
     \<and> set (ex_running x) \<inter> set (finished (ex_events x)) = {} \<and> (\<forall>i. booked x i)"

lemma started_append [simp]: "started (es @ [e]) = started es @ (case e of TaskAccepted i \<Rightarrow> [i] | _ \<Rightarrow> [])"
  by (simp add: started_def List.map_filter_def split: exec_event.split)

lemma finished_append [simp]:
  "finished (es @ [e]) = finished es @ (case e of TaskCompleted i \<Rightarrow> [i] | TaskFailed i _ \<Rightarrow> [i] | _ \<Rightarrow> [])"
  by (simp add: finished_def List.map_filter_def split: exec_event.split)

lemma finished_iff: "i \<in> set (finished es) \<longleftrightarrow> TaskCompleted i \<in> set es \<or> (\<exists>e. TaskFailed i e \<in> set es)"
  by (induction es) (auto simp: finished_def List.map_filter_def split: exec_event.splits)

lemma state_decide:
  "state_of_task (snd (decide_task from f i ts)) k =
     (if k = i \<and> state_of_task ts i = Some from then map_option (tk_state \<circ> f) (getTask i ts) else state_of_task ts k)"
  by (auto simp: state_of_task_def decide_task_look split: option.splits)

lemma state_accept:
  "state_of_task (snd (accept now i a ts)) k = (if k = i \<and> state_of_task ts i = Some Requested then Some Accepted else state_of_task ts k)"
  "fst (accept now i a ts) \<noteq> None \<longleftrightarrow> state_of_task ts i = Some Requested"
  by (auto simp: accept_def state_decide) (auto simp: state_of_task_def decide_task_def getTask_def split: option.splits if_splits)

lemma state_settle:
  "state_of_task (snd (complete now i r ts)) k = (if k = i \<and> state_of_task ts i = Some Accepted then Some Completed else state_of_task ts k)"
  "state_of_task (snd (fail now i e ts)) k = (if k = i \<and> state_of_task ts i = Some Accepted then Some Failed else state_of_task ts k)"
  by (auto simp: complete_def fail_def state_decide) (auto simp: state_of_task_def)

lemma state_create:
  "state_of_task (snd (createRequest u now r s inp d ts)) k = (if k = u then Some Requested else state_of_task ts k)"
  by (simp add: state_of_task_def createRequest_def getTask_def Let_def)

lemma state_timeouts:
  "state_of_task (checkTimeouts now later ts) k = state_of_task ts k
   \<or> state_of_task ts k \<in> {Some Requested, Some Accepted} \<and> state_of_task (checkTimeouts now later ts) k = Some Timeout"
  by (cases "m_get (tm_tasks ts) k") (auto simp: state_of_task_def checkTimeouts_def getTask_def timeout_task_def)

lemma inv_booked: "exec_inv x \<Longrightarrow> booked x i"
  by (simp add: exec_inv_def)

lemma requested_unbooked:
  assumes "exec_inv x" "state_of_task (ex_tasks x) i \<in> {None, Some Requested}"
  shows "i \<notin> set (ex_running x)" "TaskCompleted i \<notin> set (ex_events x)" "TaskFailed i e \<notin> set (ex_events x)"
    "i \<notin> set (started (ex_events x))"
proof -
  have b: "booked x i" using assms(1) by (rule inv_booked)
  then show n: "i \<notin> set (ex_running x)" "TaskCompleted i \<notin> set (ex_events x)" "TaskFailed i e \<notin> set (ex_events x)" for e
    using assms(2) by (auto simp: booked_def Let_def)
  have "set (started (ex_events x)) = set (ex_running x) \<union> set (finished (ex_events x))"
    using assms(1) by (simp add: exec_inv_def)
  then show "i \<notin> set (started (ex_events x))" using n by (simp add: finished_iff)
qed

text \<open>A step that leaves the books alone and the states of what is booked.\<close>

lemma exec_inv_tasks:
  assumes "exec_inv x" "task_inv ts"
    and "\<And>i. state_of_task ts i \<noteq> state_of_task (ex_tasks x) i \<Longrightarrow>
      state_of_task (ex_tasks x) i = None \<and> state_of_task ts i = Some Requested
      \<or> state_of_task (ex_tasks x) i \<in> {Some Requested, Some Accepted} \<and> state_of_task ts i = Some Timeout"
    and "ex_tasks y = ts" "ex_running y = ex_running x" "ex_events y = ex_events x"
  shows "exec_inv y"
proof -
  have "booked y i" for i
  proof (cases "state_of_task ts i = state_of_task (ex_tasks x) i")
    case True
    then show ?thesis using inv_booked [OF assms(1), of i] by (simp add: booked_def assms(4-6))
  next
    case False
    from assms(3) [OF this] show ?thesis
    proof (elim disjE conjE)
      assume "state_of_task (ex_tasks x) i = None" "state_of_task ts i = Some Requested"
      then show ?thesis using requested_unbooked [OF assms(1), of i] by (simp add: booked_def assms(4-6))
    next
      assume "state_of_task (ex_tasks x) i \<in> {Some Requested, Some Accepted}" "state_of_task ts i = Some Timeout"
      then show ?thesis using inv_booked [OF assms(1), of i] by (simp add: booked_def assms(4-6) Let_def)
    qed
  qed
  then show ?thesis using assms by (simp add: exec_inv_def)
qed

lemma uuid_fresh: "u \<notin> set (m_keys (tm_tasks ts)) \<Longrightarrow> state_of_task ts u = None"
  by (simp add: state_of_task_def getTask_def map_of_eq_None_iff)

lemma exec_inv_same:
  assumes "exec_inv x" "ex_tasks y = ex_tasks x" "ex_running y = ex_running x"
    and "started (ex_events y) = started (ex_events x)" "finished (ex_events y) = finished (ex_events x)"
    and "\<And>i. TaskCompleted i \<in> set (ex_events y) \<longleftrightarrow> TaskCompleted i \<in> set (ex_events x)"
    and "\<And>i e. TaskFailed i e \<in> set (ex_events y) \<longleftrightarrow> TaskFailed i e \<in> set (ex_events x)"
  shows "exec_inv y"
  using assms by (simp add: exec_inv_def booked_def)

lemma begin_inv:
  assumes "exec_inv x" "begin_task ram cpu agents now i sk rq x = (r, y)"
  shows "exec_inv y"
proof (cases "placement ram cpu agents x")
  case (Some d)
  then show ?thesis using assms by (auto simp: begin_task_def intro!: exec_inv_same [OF assms(1)])
next
  case None
  show ?thesis
  proof (cases "r = None")
    case refused: False
    obtain o1 ts where a: "accept now i (ex_agent x) (ex_tasks x) = (o1, ts)" by fastforce
    have "ts = ex_tasks x" if "o1 = None"
      using a that by (auto simp: accept_def decide_task_def split: option.splits if_splits)
    then show ?thesis
      using assms None a refused by (auto simp: begin_task_def split: if_splits option.splits intro!: exec_inv_same [OF assms(1)])
  next
    case True
    obtain o1 ts where a: "accept now i (ex_agent x) (ex_tasks x) = (o1, ts)" by fastforce
    with assms(2) None True have y: "y = x\<lparr>ex_tasks := ts, ex_events := ex_events x @ [TaskAccepted i],
        ex_audit := ex_audit x @ [AuditAccepted rq sk], ex_running := ex_running x @ [i]\<rparr>" and "o1 \<noteq> None"
      by (auto simp: begin_task_def split: if_splits option.splits)
    then have st: "state_of_task (ex_tasks x) i = Some Requested" using a state_accept(2) [of now i "ex_agent x" "ex_tasks x"] by simp
    have new: "state_of_task ts k = (if k = i then Some Accepted else state_of_task (ex_tasks x) k)" for k
      using state_accept(1) [of now i "ex_agent x" "ex_tasks x" k] a st by simp
    have "task_inv ts"
      using assms(1) task_inv_step [OF _ task_step.accept [of "ex_tasks x" now i "ex_agent x"]] a by (simp add: exec_inv_def)
    moreover note fresh = requested_unbooked [OF assms(1), of i]
    moreover have "booked y k" for k
      using inv_booked [OF assms(1), of k] fresh st new [of k] unfolding booked_def y Let_def by (cases "k = i") auto
    ultimately show ?thesis
      using assms(1) st unfolding exec_inv_def y by (auto simp: finished_iff)
  qed
qed

lemma settle_inv:
  assumes "exec_inv x" "i \<in> set (ex_running x)"
  shows "exec_inv (snd (settle_task now i outcome x))"
proof -
  let ?y = "snd (settle_task now i outcome x)"
  have run: "distinct (ex_running x)" "i \<notin> set (finished (ex_events x))" "i \<in> set (started (ex_events x))"
    and inv: "task_inv (ex_tasks x)" "booked x i"
    using assms unfolding exec_inv_def by blast+
  have st: "state_of_task (ex_tasks x) i \<in> {Some Accepted, Some Timeout}"
    using inv(2) assms(2) by (simp add: booked_def Let_def)
  have "task_inv (ex_tasks ?y)"
    using task_inv_step [OF inv(1) task_step.complete] task_inv_step [OF inv(1) task_step.fail]
    by (simp add: settle_task_def Let_def split: sum.split)
  moreover have "booked ?y k" for k
    using inv_booked [OF assms(1), of k] st run(1,2) inv(2) unfolding booked_def settle_task_def Let_def
    by (cases "k = i"; cases outcome) (auto simp: state_settle finished_iff)
  moreover have "distinct (finished (ex_events ?y))" "started (ex_events ?y) = started (ex_events x)"
    "set (finished (ex_events ?y)) = insert i (set (finished (ex_events x)))" "ex_running ?y = remove1 i (ex_running x)"
    using assms(1) run by (auto simp: exec_inv_def settle_task_def Let_def split: sum.split)
  ultimately show ?thesis
    using assms(1) run by (auto simp: exec_inv_def)
qed

lemma exec_step_inv:
  assumes inv: "exec_inv x" and step: "exec_step x y"
  shows "exec_inv y"
  using step
proof (cases rule: exec_step.cases)
  case (route uuid allowed now skillId input)
  show ?thesis
  proof (cases "\<not> allowed \<or> skillId = []")
    case False
    then show ?thesis
      using inv route task_inv_create [of "ex_tasks x" uuid now "''remote''" skillId input None]
      by (intro exec_inv_tasks [OF inv, of "snd (createRequest uuid now ''remote'' skillId input None (ex_tasks x))"])
        (auto simp: execute_route_def state_create uuid_fresh exec_inv_def split: prod.splits if_splits)
  qed (use inv route in \<open>auto simp: execute_route_def\<close>)
next
  case (create uuid now requester skillId input deadlineMs)
  then show ?thesis
    using inv task_inv_create [of "ex_tasks x" uuid now requester skillId input deadlineMs]
    by (intro exec_inv_tasks [OF inv]) (auto simp: state_create uuid_fresh exec_inv_def split: if_splits)
next
  case (measured taskId skillId requester ram cpu agents now)
  let ?x = "x\<lparr>ex_waiting := remove1 (taskId, skillId, requester) (ex_waiting x)\<rparr>"
  have "exec_inv ?x" by (rule exec_inv_same [OF inv]) simp_all
  then show ?thesis using begin_inv measured(1) prod.collapse by metis
next
  case (settled taskId now outcome)
  then show ?thesis using settle_inv [OF inv] by simp
next
  case (timeouts now later)
  then show ?thesis
    using inv task_inv_timeouts [of "ex_tasks x" now later] state_timeouts [of now later "ex_tasks x"]
    by (intro exec_inv_tasks [OF inv]) (auto simp: exec_inv_def)
next
  case (handler skillId)
  then show ?thesis by (intro exec_inv_same [OF inv]) (simp_all add: registerHandler_def)
next
  case (influx available)
  then show ?thesis by (intro exec_inv_same [OF inv]) (simp_all add: influx_answered_def INFLUX_SKILLS_def registerHandler_def)
qed

lemma exec_reach_inv: "exec_step\<^sup>*\<^sup>* x y \<Longrightarrow> exec_inv x \<Longrightarrow> exec_inv y"
  by (induction rule: rtranclp_induct) (auto intro: exec_step_inv)

section \<open>Properties\<close>

text \<open>Admission by load. A node refuses a task exactly when its memory gate is configured and some dimension was measured
  as a finite number strictly above its positive limit; the reported dimension is the first such one in the order memory,
  processor, agents; sensors that are missing, fail or return no number never refuse. The memory use lies between 0 and
  100 percent, and more available memory never raises it.\<close>

definition over :: "placement_limits \<Rightarrow> jsnum option \<Rightarrow> jsnum option \<Rightarrow> jsnum option \<Rightarrow> load_dimension \<Rightarrow> bool" where
  "over l r c a d = (case d of LoadRam \<Rightarrow> exceeds r (pl_ram l) | LoadCpu \<Rightarrow> exceeds c (pl_cpu l) | LoadAgents \<Rightarrow> exceeds a (pl_agents l))"

lemma exceeds_iff: "exceeds v limit \<longleftrightarrow> (\<exists>l x. limit = Some (Num l) \<and> v = Some (Num x) \<and> 0 < l \<and> l < x)"
  by (cases limit; cases "the limit"; cases v; cases "the v") (auto simp: exceeds_def)

lemma ram_bounds: "0 \<le> computeRamUsedPercent t a \<and> computeRamUsedPercent t a \<le> 100"
  by (auto simp: computeRamUsedPercent_def Let_def split: jsnum.split)

lemma ram_antimono:
  assumes "a \<le> b"
  shows "computeRamUsedPercent t (Num b) \<le> computeRamUsedPercent t (Num a)"
proof (cases t)
  case (Num v)
  show ?thesis
  proof (cases "v \<le> 0")
    case False
    have "max 0 (v - max 0 b) \<le> max 0 (v - max 0 a)" using assms by simp
    then have "max 0 (v - max 0 b) / v * 100 \<le> max 0 (v - max 0 a) / v * 100"
      using False by (simp add: divide_right_mono)
    then show ?thesis using Num False by (simp add: computeRamUsedPercent_def Let_def min.coboundedI2)
  qed (simp add: Num computeRamUsedPercent_def)
qed (simp add: computeRamUsedPercent_def)

theorem placement_exact:
  shows "(placement ram cpu agents x = Some d \<longleftrightarrow>
       ex_has_ram_gate x \<and> pl_ram (ex_limits x) \<noteq> None
       \<and> (let o1 = over (ex_limits x) (safeReadDimension ram) (safeReadDimension cpu) (safeReadDimension agents) in
          o1 d \<and> (d = LoadCpu \<or> d = LoadAgents \<longrightarrow> \<not> o1 LoadRam) \<and> (d = LoadAgents \<longrightarrow> \<not> o1 LoadCpu)))
    \<and> (over l r c a d \<longrightarrow> (\<exists>v n. (case d of LoadRam \<Rightarrow> r | LoadCpu \<Rightarrow> c | LoadAgents \<Rightarrow> a) = Some (Num v) \<and> 0 < n \<and> n < v))
    \<and> computeRamUsedPercent t f \<in> {0..100} \<and> (p \<le> q \<longrightarrow> computeRamUsedPercent t (Num q) \<le> computeRamUsedPercent t (Num p))"
proof (intro conjI impI)
  show "placement ram cpu agents x = Some d \<longleftrightarrow>
       ex_has_ram_gate x \<and> pl_ram (ex_limits x) \<noteq> None
       \<and> (let o1 = over (ex_limits x) (safeReadDimension ram) (safeReadDimension cpu) (safeReadDimension agents) in
          o1 d \<and> (d = LoadCpu \<or> d = LoadAgents \<longrightarrow> \<not> o1 LoadRam) \<and> (d = LoadAgents \<longrightarrow> \<not> o1 LoadCpu))"
    by (cases d) (auto simp: placement_def over_def evaluatePlacementMetrics_def Let_def)
qed (auto simp: over_def exceeds_iff ram_bounds ram_antimono split: load_dimension.splits)

definition ex_limits_1 :: placement_limits where
  "ex_limits_1 = \<lparr>pl_ram = Some (Num 90), pl_cpu = Some (Num 80), pl_agents = Some (Num 0)\<rparr>"

definition ex_executor :: executor where
  "ex_executor = new_TaskExecutor new_TaskManager ''n'' True ex_limits_1"

theorem placement_exact_witness:
  "placement (SensorReads (Some (Num 90))) (SensorReads (Some (Num 81))) SensorThrows ex_executor = Some LoadCpu
   \<and> placement SensorThrows NoSensor (SensorReads (Some (Num 5))) ex_executor \<noteq> Some LoadAgents"
  using placement_exact [of "SensorReads (Some (Num 90))" "SensorReads (Some (Num 81))" SensorThrows ex_executor LoadCpu
      undefined undefined undefined undefined undefined undefined 1 2]
    placement_exact [of SensorThrows NoSensor "SensorReads (Some (Num 5))" ex_executor LoadAgents
      undefined undefined undefined undefined undefined undefined 1 2]
  by (simp add: over_def exceeds_def ex_executor_def new_TaskExecutor_def ex_limits_1_def)

text \<open>C37. A task runs at most once. In every reachable state, whatever interleaving of requests, measurements, settling
  handlers and timeouts led there: no task is started twice or finished twice, and the tasks started are exactly those
  running and those finished; an accepted task is running, and a running one accepted or timed out; a task is completed
  or failed in the books exactly when its handler settled that way and it did not time out before. A request that is
  refused, for load or for a missing skill, leaves the tasks as they are, and when the handler of an accepted task
  returns, the task holds its result.\<close>

theorem task_runs_once:
  assumes "exec_step\<^sup>*\<^sup>* (new_TaskExecutor new_TaskManager agent hasRamReader limits) x"
  shows "distinct (started (ex_events x)) \<and> distinct (finished (ex_events x))
    \<and> set (started (ex_events x)) = set (ex_running x) \<union> set (finished (ex_events x))
    \<and> set (ex_running x) \<inter> set (finished (ex_events x)) = {}
    \<and> (\<forall>i. let st = state_of_task (ex_tasks x) i in
         (st = Some Accepted \<longleftrightarrow> i \<in> set (ex_running x) \<and> st \<noteq> Some Timeout)
       \<and> (st = Some Completed \<longleftrightarrow> TaskCompleted i \<in> set (ex_events x) \<and> st \<noteq> Some Timeout)
       \<and> (st = Some Failed \<longleftrightarrow> (\<exists>e. TaskFailed i e \<in> set (ex_events x)) \<and> st \<noteq> Some Timeout))
    \<and> (\<forall>ram cpu agents now i sk rq r y. begin_task ram cpu agents now i sk rq x = (Some r, y) \<longrightarrow> ex_tasks y = ex_tasks x)
    \<and> (\<forall>i now r. state_of_task (ex_tasks x) i = Some Accepted \<longrightarrow>
         (\<exists>t. getTask i (ex_tasks (snd (settle_task now i (Inr r) x))) = Some t \<and> tk_state t = Completed \<and> tk_result t = Some r))"
proof -
  have start: "exec_inv (new_TaskExecutor new_TaskManager agent hasRamReader limits)"
    by (simp add: exec_inv_def new_TaskExecutor_def booked_def started_def finished_def state_of_task_def getTask_def
        new_TaskManager_def List.map_filter_def task_inv_new [unfolded new_TaskManager_def])
  note inv = exec_reach_inv [OF assms start]
  have books: "let st = state_of_task (ex_tasks x) i in
         (st = Some Accepted \<longleftrightarrow> i \<in> set (ex_running x) \<and> st \<noteq> Some Timeout)
       \<and> (st = Some Completed \<longleftrightarrow> TaskCompleted i \<in> set (ex_events x) \<and> st \<noteq> Some Timeout)
       \<and> (st = Some Failed \<longleftrightarrow> (\<exists>e. TaskFailed i e \<in> set (ex_events x)) \<and> st \<noteq> Some Timeout)" for i
    using inv_booked [OF inv, of i] unfolding booked_def Let_def by (cases "state_of_task (ex_tasks x) i"; cases "the (state_of_task (ex_tasks x) i)") simp_all
  have refused: "ex_tasks y = ex_tasks x" if "begin_task ram cpu agents now i sk rq x = (Some r, y)" for ram cpu agents now i sk rq r y
    using that by (auto simp: begin_task_def accept_def decide_task_def split: option.splits if_splits)
  have result: "\<exists>t. getTask i (ex_tasks (snd (settle_task now i (Inr r) x))) = Some t \<and> tk_state t = Completed \<and> tk_result t = Some r"
    if "state_of_task (ex_tasks x) i = Some Accepted" for i now r
    using that by (auto simp: settle_task_def Let_def complete_def decide_task_look state_of_task_def)
  have parts: "distinct (started (ex_events x))" "distinct (finished (ex_events x))"
    "set (started (ex_events x)) = set (ex_running x) \<union> set (finished (ex_events x))"
    "set (ex_running x) \<inter> set (finished (ex_events x)) = {}"
    using inv by (simp_all add: exec_inv_def)
  show ?thesis by (intro conjI [OF parts(1)] conjI [OF parts(2)] conjI [OF parts(3)] conjI [OF parts(4)] conjI allI impI)
    (rule books, erule refused, erule result)
qed

text \<open>A task is created by the route, started, and its handler returns.\<close>

definition ex_after_request :: executor where
  "ex_after_request = snd (execute_route True ''t'' 0 ''system.disk'' JNull ex_executor)"

definition ex_after_start :: executor where
  "ex_after_start = snd (begin_task (SensorReads (Some (Num 50))) NoSensor NoSensor 1 ''t'' ''system.disk'' ''remote''
     (ex_after_request\<lparr>ex_waiting := remove1 (''t'', ''system.disk'', ''remote'') (ex_waiting ex_after_request)\<rparr>))"

lemma ex_reachable: "exec_step\<^sup>*\<^sup>* (new_TaskExecutor new_TaskManager ''n'' True ex_limits_1) ex_after_start"
proof -
  have "exec_step ex_executor ex_after_request"
    unfolding ex_after_request_def by (rule exec_step.route) (simp add: ex_executor_def new_TaskExecutor_def new_TaskManager_def)
  moreover have "(''t'', ''system.disk'', ''remote'') \<in> set (ex_waiting ex_after_request)" by code_simp
  then have "exec_step ex_after_request ex_after_start" unfolding ex_after_start_def by (rule exec_step.measured)
  ultimately show ?thesis unfolding ex_executor_def by (meson converse_rtranclp_into_rtranclp r_into_rtranclp)
qed

theorem task_runs_once_witness:
  "map_option tk_state (getTask ''t'' (ex_tasks (snd (settle_task 2 ''t'' (Inr (JStr ''ok'')) ex_after_start)))) = Some Completed
   \<and> ex_running ex_after_start = [''t'']"
proof -
  have "state_of_task (ex_tasks ex_after_start) ''t'' = Some Accepted" "ex_running ex_after_start = [''t'']" by code_simp+
  then show ?thesis using task_runs_once [OF ex_reachable] by fastforce
qed

section \<open>What the route leaves behind\<close>

text \<open>A task of the route has no deadline, so one that was refused stays requested for ever, whatever the timer does.\<close>

lemma refused_task_stays:
  assumes "execute_route True uuid now sk inp x = (None, x1)"
    and "begin_task ram cpu agents now1 uuid sk ''remote'' x1 = (Some r, x2)" "r \<noteq> NotAcceptable"
  shows "\<exists>t. getTask uuid (checkTimeouts later later' (ex_tasks x2)) = Some t \<and> tk_state t = Requested"
proof -
  have "ex_tasks x2 = ex_tasks x1"
    using assms(2,3) by (auto simp: begin_task_def accept_def decide_task_def split: option.splits if_splits)
  moreover have "ex_tasks x1 = snd (createRequest uuid now ''remote'' sk inp None (ex_tasks x))"
    using assms(1) by (auto simp: execute_route_def split: if_splits prod.splits)
  ultimately show ?thesis by (simp add: checkTimeouts_def getTask_def createRequest_def Let_def timeout_task_def)
qed

text \<open>The executor does not look at what \<open>complete\<close> answers: a task that timed out while its handler ran is answered as
  executed, and announced as completed.\<close>

lemma timed_out_task_reported:
  assumes "state_of_task (ex_tasks x) i = Some Timeout"
  shows "fst (settle_task now i (Inr r) x) = Executed r" "TaskCompleted i \<in> set (ex_events (snd (settle_task now i (Inr r) x)))"
    "state_of_task (ex_tasks (snd (settle_task now i (Inr r) x))) i = Some Timeout"
  using assms by (simp_all add: settle_task_def Let_def state_settle)

end
