(* ===== verification/Discovery_Policy.thy ===== *)
theory Discovery_Policy
  imports Prelude "HOL-Library.Word"
begin

text \<open>
  The multi-interface discovery policy (\<open>discovery-policy.ts\<close>): IPv4 addresses and CIDR ranges over 32-bit
  words, glob patterns on interface names, the selection and ordering of mesh interfaces, the check of a
  received peer address and the restriction of a published service to one address. Bit masks are words, as
  \<open>>>> 0\<close> makes them in the code; \<open>localeCompare\<close> depends on the host's locale and is an argument.
\<close>

unbundle bit_operations_syntax

section \<open>Addresses and ranges\<close>

definition octet_value :: "string \<Rightarrow> nat" where
  "octet_value s = foldl (\<lambda>n c. 10 * n + (of_char c - 48)) 0 s"

text \<open>\<open>/^\d{1,k}$/\<close>\<close>

definition digits_upto :: "nat \<Rightarrow> string \<Rightarrow> bool" where
  "digits_upto k s \<longleftrightarrow> s \<noteq> [] \<and> length s \<le> k \<and> list_all is_digit s"

fun ipv4_loop :: "32 word \<Rightarrow> string list \<Rightarrow> 32 word option" where
  "ipv4_loop num [] = Some num"
| "ipv4_loop num (p # ps) =
     (if \<not> digits_upto 3 p then None
      else if 255 < octet_value p then None
      else ipv4_loop (num * 256 + of_nat (octet_value p)) ps)"

definition ipv4ToNum :: "string \<Rightarrow> 32 word option" where
  "ipv4ToNum ip = (let parts = js_split CHR ''.'' ip in if length parts \<noteq> 4 then None else ipv4_loop 0 parts)"

definition mask_of :: "nat \<Rightarrow> 32 word" where
  "mask_of p = (if p = 32 then 0xffffffff else push_bit (32 - p) 0xffffffff)"

definition ipInCidr :: "string \<Rightarrow> string \<Rightarrow> bool" where
  "ipInCidr ip cidr =
     (case js_split CHR ''/'' cidr of
        base # prefixStr # _ \<Rightarrow>
          if base = [] \<or> prefixStr = [] then False
          else if \<not> digits_upto 2 prefixStr then False
          else if 32 < octet_value prefixStr then False
          else (case (ipv4ToNum ip, ipv4ToNum base) of
                  (Some ipNum, Some baseNum) \<Rightarrow>
                    if octet_value prefixStr = 0 then True
                    else ipNum AND mask_of (octet_value prefixStr) = baseNum AND mask_of (octet_value prefixStr)
                | _ \<Rightarrow> False)
      | _ \<Rightarrow> False)"

section \<open>Interfaces\<close>

record mesh_interface =
  if_name :: string
  if_address :: string
  if_cidr :: string
  if_netmask :: string

record host_address =
  ha_family :: string
  ha_internal :: bool
  ha_address :: string
  ha_cidr :: "string option"
  ha_netmask :: string

record policy_config =
  pc_allowed_mesh_cidrs :: "string list option"
  pc_exclude_interface_patterns :: "string list option"
  pc_preferred_interfaces :: "string list option"

definition DEFAULT_EXCLUDE_PATTERNS :: "string list" where
  "DEFAULT_EXCLUDE_PATTERNS =
     [''docker*'', ''tailscale*'', ''utun*'', ''veth*'', ''bridge*'', ''br-*'', ''tun*'', ''tap*'', ''awdl*'',
      ''llw*'', ''anpi*'', ''ap*'', ''gif*'', ''stf*'', ''lo*'']"

definition matchesPattern :: "string \<Rightarrow> string \<Rightarrow> bool" where
  "matchesPattern name pattern =
     (let starts = prefix ''*'' pattern; ends = suffix ''*'' pattern in
      if pattern = name then True
      else if ends \<and> \<not> starts then prefix (butlast pattern) name
      else if starts \<and> \<not> ends then suffix (tl pattern) name
      else if starts \<and> ends then js_includes name (butlast (tl pattern))
      else False)"

text \<open>\<open>Object.entries(source())\<close> with the addresses of each interface; an undefined entry is \<open>None\<close>.\<close>

definition listActiveIPv4Interfaces :: "(string \<times> host_address list option) list \<Rightarrow> mesh_interface list" where
  "listActiveIPv4Interfaces all =
     concat (map (\<lambda>(name, addrs). case addrs of None \<Rightarrow> []
       | Some as \<Rightarrow> map (\<lambda>a. \<lparr>if_name = name, if_address = ha_address a,
                               if_cidr = default_to [] (ha_cidr a), if_netmask = ha_netmask a\<rparr>)
                     (filter (\<lambda>a. ha_family a = ''IPv4'' \<and> \<not> ha_internal a) as)) all)"

definition mesh_usable :: "policy_config \<Rightarrow> mesh_interface \<Rightarrow> bool" where
  "mesh_usable config iface =
     (let userExcludes = default_to [] (pc_exclude_interface_patterns config);
          excludePatterns = remdups (DEFAULT_EXCLUDE_PATTERNS @ userExcludes);
          allowedCidrs = default_to [] (pc_allowed_mesh_cidrs config);
          inAllowedCidr = (0 < length allowedCidrs \<and> list_ex (ipInCidr (if_address iface)) allowedCidrs)
      in if inAllowedCidr then True
         else if list_ex (matchesPattern (if_name iface)) excludePatterns then False
         else if 0 < length allowedCidrs then False
         else True)"

definition selectMeshInterfaces ::
  "policy_config \<Rightarrow> (string \<times> host_address list option) list \<Rightarrow> mesh_interface list" where
  "selectMeshInterfaces config source = filter (mesh_usable config) (listActiveIPv4Interfaces source)"

text \<open>\<open>new Map(preferred.map((name, index) => [name, index]))\<close>: a repeated name keeps its last index.\<close>

fun rank_from :: "int \<Rightarrow> string list \<Rightarrow> (string, int) jsmap \<Rightarrow> (string, int) jsmap" where
  "rank_from i [] m = m"
| "rank_from i (n # ns) m = rank_from (i + 1) ns (m_set n i m)"

definition compare_interfaces ::
  "(string \<Rightarrow> string \<Rightarrow> int) \<Rightarrow> string list \<Rightarrow> mesh_interface \<Rightarrow> mesh_interface \<Rightarrow> int" where
  "compare_interfaces localeCompare preferred a b =
     (case (m_get (rank_from 0 preferred []) (if_name a), m_get (rank_from 0 preferred []) (if_name b)) of
        (Some ar, Some br) \<Rightarrow> ar - br
      | (Some _, None) \<Rightarrow> - 1
      | (None, Some _) \<Rightarrow> 1
      | (None, None) \<Rightarrow> localeCompare (if_name a) (if_name b))"

text \<open>\<open>Array.prototype.sort\<close> with a comparator: stable.\<close>

fun insert_by :: "('a \<Rightarrow> 'a \<Rightarrow> int) \<Rightarrow> 'a \<Rightarrow> 'a list \<Rightarrow> 'a list" where
  "insert_by cmp x [] = [x]"
| "insert_by cmp x (y # ys) = (if 0 < cmp x y then y # insert_by cmp x ys else x # y # ys)"

definition sort_by :: "('a \<Rightarrow> 'a \<Rightarrow> int) \<Rightarrow> 'a list \<Rightarrow> 'a list" where
  "sort_by cmp xs = foldr (insert_by cmp) xs []"

definition orderMeshInterfaces ::
  "(string \<Rightarrow> string \<Rightarrow> int) \<Rightarrow> mesh_interface list \<Rightarrow> string list \<Rightarrow> mesh_interface list" where
  "orderMeshInterfaces localeCompare ifaces preferred = sort_by (compare_interfaces localeCompare preferred) ifaces"

definition getMeshIp ::
  "(string \<Rightarrow> string \<Rightarrow> int) \<Rightarrow> policy_config \<Rightarrow> (string \<times> host_address list option) list \<Rightarrow> string option" where
  "getMeshIp localeCompare config source =
     (case orderMeshInterfaces localeCompare (selectMeshInterfaces config source)
             (default_to [] (pc_preferred_interfaces config)) of
        [] \<Rightarrow> None
      | i # _ \<Rightarrow> Some (if_address i))"

definition isPeerIpAllowed :: "string \<Rightarrow> policy_config \<Rightarrow> bool" where
  "isPeerIpAllowed ip config =
     (let cidrs = default_to [] (pc_allowed_mesh_cidrs config) in
      if length cidrs = 0 then True else list_ex (ipInCidr ip) cidrs)"

section \<open>The published service\<close>

text \<open>
  A service with the records it would announce, and the mark the patch leaves. \<open>records()\<close> of a patched
  service filters what the original method returns.
\<close>

record mdns_record =
  rr_type :: string
  rr_data :: json

record mdns_service =
  sv_original :: "mdns_record list"
  sv_restricted_to :: "string option"

definition record_allowed :: "string \<Rightarrow> mdns_record \<Rightarrow> bool" where
  "record_allowed ip r =
     (if rr_type r = ''A'' then rr_data r = JStr ip else if rr_type r = ''AAAA'' then False else True)"

definition service_records :: "mdns_service \<Rightarrow> mdns_record list" where
  "service_records svc =
     (case sv_restricted_to svc of
        None \<Rightarrow> sv_original svc
      | Some ip \<Rightarrow> filter (record_allowed ip) (sv_original svc))"

definition has_a_record :: "string \<Rightarrow> mdns_service \<Rightarrow> bool" where
  "has_a_record ip svc = list_ex (\<lambda>r. rr_type r = ''A'' \<and> rr_data r = JStr ip) (service_records svc)"

text \<open>\<open>Inl\<close> carries the address the service is already restricted to, with which the code throws.\<close>

definition restrictServiceToIp :: "mdns_service \<Rightarrow> string \<Rightarrow> string + bool \<times> mdns_service" where
  "restrictServiceToIp svc allowedIp =
     (case sv_restricted_to svc of
        Some ip \<Rightarrow> if ip = allowedIp then Inr (has_a_record allowedIp svc, svc) else Inl ip
      | None \<Rightarrow>
          let patched = svc\<lparr>sv_restricted_to := Some allowedIp\<rparr>
          in Inr (has_a_record allowedIp patched, patched))"

section \<open>Lemmas\<close>

lemma ipv4_four:
  "ipv4ToNum ip = Some w \<longleftrightarrow>
     (\<exists>a b c d. js_split CHR ''.'' ip = [a, b, c, d]
        \<and> (\<forall>p \<in> {a, b, c, d}. digits_upto 3 p \<and> octet_value p \<le> 255)
        \<and> w = ((of_nat (octet_value a) * 256 + of_nat (octet_value b)) * 256 + of_nat (octet_value c)) * 256
               + of_nat (octet_value d))"
  by (auto simp: ipv4ToNum_def Let_def numeral_eq_Suc length_Suc_conv not_less split: if_splits)

lemma of_nat_unat_small: "n < 2 ^ 32 \<Longrightarrow> unat (of_nat n :: 32 word) = n"
  by (simp add: unat_of_nat take_bit_nat_eq_self)

lemma octets_value:
  assumes "a \<le> 255" "b \<le> 255" "c \<le> 255" "d \<le> (255 :: nat)"
  shows "unat (((of_nat a * 256 + of_nat b) * 256 + of_nat c) * 256 + of_nat d :: 32 word)
    = ((a * 256 + b) * 256 + c) * 256 + d"
proof -
  have "((of_nat a * 256 + of_nat b) * 256 + of_nat c) * 256 + of_nat d
      = (of_nat (((a * 256 + b) * 256 + c) * 256 + d) :: 32 word)" by simp
  moreover have "((a * 256 + b) * 256 + c) * 256 + d < 2 ^ 32" using assms by simp
  ultimately show ?thesis by (simp only: of_nat_unat_small)
qed

lemma mask_of_bit: "p \<le> 32 \<Longrightarrow> bit (mask_of p) n \<longleftrightarrow> 32 - p \<le> n \<and> n < 32"
proof -
  have ones: "(0xffffffff :: 32 word) = - 1" by simp
  show "p \<le> 32 \<Longrightarrow> ?thesis" unfolding mask_of_def ones by (auto simp: bit_simps)
qed

lemma masked_eq:
  assumes "p \<le> 32"
  shows "a AND mask_of p = b AND mask_of p \<longleftrightarrow> unat a div 2 ^ (32 - p) = unat b div 2 ^ (32 - p)"
proof -
  have bits_below: "bit w n \<Longrightarrow> n < 32" for w :: "32 word" and n using bit_imp_le_length [of w n] by simp
  have "a AND mask_of p = b AND mask_of p \<longleftrightarrow> (\<forall>n. 32 - p \<le> n \<and> n < 32 \<longrightarrow> bit a n = bit b n)"
    using assms by (auto simp: bit_eq_iff bit_and_iff mask_of_bit)
  also have "\<dots> \<longleftrightarrow> drop_bit (32 - p) a = drop_bit (32 - p) b"
  proof (rule iffI; (intro allI impI)?)
    assume "\<forall>n. 32 - p \<le> n \<and> n < 32 \<longrightarrow> bit a n = bit b n"
    then have "bit a (32 - p + n) = bit b (32 - p + n)" for n using bits_below by (metis le_add1)
    then show "drop_bit (32 - p) a = drop_bit (32 - p) b" by (intro bit_word_eqI) (simp add: bit_drop_bit_eq)
  next
    fix n assume "drop_bit (32 - p) a = drop_bit (32 - p) b" and n: "32 - p \<le> n \<and> n < 32"
    then have "bit (drop_bit (32 - p) a) (n - (32 - p)) = bit (drop_bit (32 - p) b) (n - (32 - p))" by simp
    with n show "bit a n = bit b n" by (simp add: bit_drop_bit_eq)
  qed
  also have "\<dots> \<longleftrightarrow> unat a div 2 ^ (32 - p) = unat b div 2 ^ (32 - p)"
    by (simp add: word_unat_eq_iff unat_drop_bit_eq flip: drop_bit_eq_div)
  finally show ?thesis .
qed

lemma insert_by_set [simp]: "set (insert_by cmp x xs) = insert x (set xs)"
  by (induction xs) auto

lemma sort_by_set [simp]: "set (sort_by cmp xs) = set xs"
  by (induction xs) (simp_all add: sort_by_def)

lemma sort_by_Nil [simp]: "sort_by cmp [] = []"
  by (simp add: sort_by_def)

lemma sort_by_Nil_iff [simp]: "sort_by cmp xs = [] \<longleftrightarrow> xs = []"
  by (metis set_empty sort_by_set)

text \<open>A comparator is total when one of two elements is not after the other, and transitive.\<close>

definition total_comparator :: "('a \<Rightarrow> 'a \<Rightarrow> int) \<Rightarrow> bool" where
  "total_comparator cmp \<longleftrightarrow> (\<forall>a b. 0 < cmp a b \<longrightarrow> cmp b a \<le> 0)
     \<and> (\<forall>a b c. cmp a b \<le> 0 \<longrightarrow> cmp b c \<le> 0 \<longrightarrow> cmp a c \<le> 0) \<and> (\<forall>a. cmp a a \<le> 0)"

lemma insert_by_sorted:
  assumes "total_comparator cmp" and "sorted_wrt (\<lambda>a b. cmp a b \<le> 0) xs"
  shows "sorted_wrt (\<lambda>a b. cmp a b \<le> 0) (insert_by cmp x xs)"
  using assms(2)
proof (induction xs)
  case (Cons y ys)
  have "cmp y x \<le> 0" if "0 < cmp x y" using assms(1) that by (auto simp: total_comparator_def)
  moreover have "cmp x z \<le> 0" if "\<not> 0 < cmp x y" "cmp y z \<le> 0" for z
    using assms(1) that unfolding total_comparator_def by (meson not_less)
  ultimately show ?case using Cons by auto
qed simp

lemma sort_by_sorted: "total_comparator cmp \<Longrightarrow> sorted_wrt (\<lambda>a b. cmp a b \<le> 0) (sort_by cmp xs)"
  by (induction xs) (simp_all add: sort_by_def insert_by_sorted)

lemma sort_by_head:
  assumes "total_comparator cmp" and "sort_by cmp xs = y # ys"
  shows "y \<in> set xs \<and> (\<forall>x \<in> set xs. cmp y x \<le> 0)"
proof -
  have "set xs = insert y (set ys)" using sort_by_set [of cmp xs] assms(2) by simp
  moreover have "cmp y y \<le> 0" using assms(1) by (simp add: total_comparator_def)
  ultimately show ?thesis using sort_by_sorted [OF assms(1), of xs] assms(2) by auto
qed

abbreviation preference :: "string list \<Rightarrow> string \<Rightarrow> int option" where
  "preference preferred name \<equiv> m_get (rank_from 0 preferred []) name"

lemma compare_interfaces_cases:
  "compare_interfaces localeCompare preferred a b =
     (case (preference preferred (if_name a), preference preferred (if_name b)) of
        (Some x, Some y) \<Rightarrow> x - y | (Some _, None) \<Rightarrow> -1 | (None, Some _) \<Rightarrow> 1
      | (None, None) \<Rightarrow> localeCompare (if_name a) (if_name b))"
  by (simp add: compare_interfaces_def split: option.split)

lemma compare_interfaces_total:
  assumes "total_comparator localeCompare"
  shows "total_comparator (compare_interfaces localeCompare preferred)"
  unfolding total_comparator_def
proof (intro conjI allI impI)
  let ?c = "compare_interfaces localeCompare preferred"
  have anti: "0 < localeCompare x y \<Longrightarrow> localeCompare y x \<le> 0" and refl: "localeCompare x x \<le> 0"
    and trans: "localeCompare x y \<le> 0 \<Longrightarrow> localeCompare y z \<le> 0 \<Longrightarrow> localeCompare x z \<le> 0" for x y z
    using assms unfolding total_comparator_def by blast+
  show "?c b a \<le> 0" if "0 < ?c a b" for a b
    using that by (auto simp: compare_interfaces_cases intro: anti split: option.splits)
  show "?c a c \<le> 0" if "?c a b \<le> 0" "?c b c \<le> 0" for a b c
    using that by (auto simp: compare_interfaces_cases intro: trans split: option.splits)
  show "?c a a \<le> 0" for a
    by (simp add: compare_interfaces_cases refl split: option.split)
qed

lemma mesh_usable_iff:
  "mesh_usable config i \<longleftrightarrow>
     (if default_to [] (pc_allowed_mesh_cidrs config) = []
      then \<not> list_ex (matchesPattern (if_name i))
             (DEFAULT_EXCLUDE_PATTERNS @ default_to [] (pc_exclude_interface_patterns config))
      else isPeerIpAllowed (if_address i) config)"
  by (auto simp: mesh_usable_def isPeerIpAllowed_def Let_def list_ex_iff split: option.splits)

section \<open>Properties\<close>

text \<open>
  CIDR membership: an address is in a range exactly when the range has an IPv4 base and a prefix length
  of one or two digits up to 32, the address is an IPv4 address, and the two agree in the leading bits the
  prefix counts; an IPv4 address is exactly four decimal octets of at most three digits up to 255, and the
  32-bit word it denotes never wraps around.
\<close>

theorem cidr_membership:
  "(ipInCidr ip cidr \<longleftrightarrow>
      (\<exists>base p rest a b. js_split CHR ''/'' cidr = base # p # rest \<and> digits_upto 2 p \<and> octet_value p \<le> 32
         \<and> ipv4ToNum ip = Some a \<and> ipv4ToNum base = Some b
         \<and> unat a div 2 ^ (32 - octet_value p) = unat b div 2 ^ (32 - octet_value p)))
   \<and> (ipv4ToNum ip = Some w \<longleftrightarrow>
      (\<exists>a b c d. js_split CHR ''.'' ip = [a, b, c, d]
         \<and> list_all (\<lambda>p. digits_upto 3 p \<and> octet_value p \<le> 255) [a, b, c, d]
         \<and> unat w = ((octet_value a * 256 + octet_value b) * 256 + octet_value c) * 256 + octet_value d))"
proof (rule conjI)
  have zero: "unat (a :: 32 word) div 4294967296 = 0" for a
    by (rule div_less, rule order.strict_trans2 [OF unsigned_less]) simp
  have empty: "ipv4ToNum [] = None" by (simp add: ipv4ToNum_def)
  show "ipInCidr ip cidr \<longleftrightarrow> (\<exists>base p rest a b. js_split CHR ''/'' cidr = base # p # rest \<and> digits_upto 2 p
      \<and> octet_value p \<le> 32 \<and> ipv4ToNum ip = Some a \<and> ipv4ToNum base = Some b
      \<and> unat a div 2 ^ (32 - octet_value p) = unat b div 2 ^ (32 - octet_value p))"
    unfolding ipInCidr_def
    by (auto simp: masked_eq not_less digits_upto_def zero empty split: list.splits option.splits)
  show "ipv4ToNum ip = Some w \<longleftrightarrow> (\<exists>a b c d. js_split CHR ''.'' ip = [a, b, c, d]
      \<and> list_all (\<lambda>p. digits_upto 3 p \<and> octet_value p \<le> 255) [a, b, c, d]
      \<and> unat w = ((octet_value a * 256 + octet_value b) * 256 + octet_value c) * 256 + octet_value d)"
    unfolding ipv4_four
    by (intro ex_cong1 conj_cong refl) (simp_all only: word_unat_eq_iff octets_value list.pred_inject ball_simps simp_thms)
qed

text \<open>
  Choice of the mesh address, for any total order of names: the published address belongs to an active
  external IPv4 interface that the policy admits, so it passes the peer check of a node with the same
  policy; interfaces with a preference come first, the one of smallest rank among them, and without one the
  least name; and no address is published exactly when no interface qualifies. An interface qualifies by an
  allowed range if ranges are configured and otherwise when no exclusion pattern matches.
\<close>

theorem mesh_address_choice:
  assumes "total_comparator localeCompare"
  shows "(getMeshIp localeCompare config source = None \<longleftrightarrow> selectMeshInterfaces config source = [])
    \<and> (i \<in> set (selectMeshInterfaces config source) \<longleftrightarrow> i \<in> set (listActiveIPv4Interfaces source)
         \<and> (if default_to [] (pc_allowed_mesh_cidrs config) = []
            then \<not> list_ex (matchesPattern (if_name i))
                   (DEFAULT_EXCLUDE_PATTERNS @ default_to [] (pc_exclude_interface_patterns config))
            else isPeerIpAllowed (if_address i) config))
    \<and> (getMeshIp localeCompare config source = Some ip \<longrightarrow>
         isPeerIpAllowed ip config
         \<and> (\<exists>best \<in> set (selectMeshInterfaces config source). if_address best = ip
              \<and> (\<forall>j \<in> set (selectMeshInterfaces config source).
                   case (preference (default_to [] (pc_preferred_interfaces config)) (if_name best),
                         preference (default_to [] (pc_preferred_interfaces config)) (if_name j)) of
                     (Some r, Some r') \<Rightarrow> r \<le> r'
                   | (Some _, None) \<Rightarrow> True
                   | (None, Some _) \<Rightarrow> False
                   | (None, None) \<Rightarrow> localeCompare (if_name best) (if_name j) \<le> 0)))"
proof (intro conjI impI)
  show "getMeshIp localeCompare config source = None \<longleftrightarrow> selectMeshInterfaces config source = []"
    by (auto simp: getMeshIp_def orderMeshInterfaces_def split: list.splits)
  show "i \<in> set (selectMeshInterfaces config source) \<longleftrightarrow> i \<in> set (listActiveIPv4Interfaces source)
         \<and> (if default_to [] (pc_allowed_mesh_cidrs config) = []
            then \<not> list_ex (matchesPattern (if_name i))
                   (DEFAULT_EXCLUDE_PATTERNS @ default_to [] (pc_exclude_interface_patterns config))
            else isPeerIpAllowed (if_address i) config)"
    by (simp only: selectMeshInterfaces_def set_filter mesh_usable_iff mem_Collect_eq)
  let ?pref = "default_to [] (pc_preferred_interfaces config)" and ?sel = "selectMeshInterfaces config source"
  assume "getMeshIp localeCompare config source = Some ip"
  then obtain best rest where best: "sort_by (compare_interfaces localeCompare ?pref) ?sel = best # rest"
      "if_address best = ip"
    by (auto simp: getMeshIp_def orderMeshInterfaces_def split: list.splits)
  have sel: "best \<in> set ?sel" and least: "\<forall>j \<in> set ?sel. compare_interfaces localeCompare ?pref best j \<le> 0"
    using sort_by_head [OF compare_interfaces_total [OF assms] best(1)] by auto
  show "isPeerIpAllowed ip config"
    using sel best(2) by (auto simp: selectMeshInterfaces_def mesh_usable_iff isPeerIpAllowed_def split: if_splits)
  from least have "case (preference ?pref (if_name best), preference ?pref (if_name j)) of
       (Some r, Some r') \<Rightarrow> r \<le> r' | (Some _, None) \<Rightarrow> True | (None, Some _) \<Rightarrow> False
     | (None, None) \<Rightarrow> localeCompare (if_name best) (if_name j) \<le> 0" if "j \<in> set ?sel" for j
    using that by (fastforce simp: compare_interfaces_def split: option.splits)
  then show "\<exists>best \<in> set ?sel. if_address best = ip \<and> (\<forall>j \<in> set ?sel.
       case (preference ?pref (if_name best), preference ?pref (if_name j)) of
         (Some r, Some r') \<Rightarrow> r \<le> r' | (Some _, None) \<Rightarrow> True | (None, Some _) \<Rightarrow> False
       | (None, None) \<Rightarrow> localeCompare (if_name best) (if_name j) \<le> 0)"
    using sel best(2) by blast
qed

definition by_length :: "string \<Rightarrow> string \<Rightarrow> int" where
  "by_length a b = int (length a) - int (length b)"

definition sample_policy :: policy_config where
  "sample_policy = \<lparr>pc_allowed_mesh_cidrs = Some [''10.10.10.0/24''], pc_exclude_interface_patterns = None,
     pc_preferred_interfaces = Some [''en10'', ''en0'']\<rparr>"

definition sample_host :: "(string \<times> host_address list option) list" where
  "sample_host =
     (let addr = \<lambda>a. Some [\<lparr>ha_family = ''IPv4'', ha_internal = False, ha_address = a, ha_cidr = None, ha_netmask = []\<rparr>]
      in [(''en0'', addr ''10.10.10.5''), (''utun3'', None), (''en10'', addr ''10.10.10.7''), (''eth1'', addr ''192.168.1.4'')])"

theorem mesh_address_choice_witness:
  "getMeshIp by_length sample_policy sample_host = Some ''10.10.10.7'' \<and> isPeerIpAllowed ''10.10.10.7'' sample_policy"
proof -
  have total: "total_comparator by_length" by (simp add: total_comparator_def by_length_def)
  have "getMeshIp by_length sample_policy sample_host = Some ''10.10.10.7''" by code_simp
  then show ?thesis
    using mesh_address_choice [OF total, where config = sample_policy and source = sample_host and ip = "''10.10.10.7''"]
    by simp
qed

text \<open>
  A service restricted to an address announces, of all its address records, only IPv4 records with that
  address, and every other record as before; the answer says whether such a record exists; restricting it
  again to the same address changes nothing and to another address is refused.
\<close>

theorem service_restricted:
  assumes "restrictServiceToIp svc ip = Inr (ok, svc')"
  shows "set (service_records svc') = {r \<in> set (service_records svc).
            rr_type r \<noteq> ''AAAA'' \<and> (rr_type r = ''A'' \<longrightarrow> rr_data r = JStr ip)}
    \<and> (ok \<longleftrightarrow> (\<exists>r \<in> set (service_records svc). rr_type r = ''A'' \<and> rr_data r = JStr ip))
    \<and> restrictServiceToIp svc' ip = Inr (ok, svc')
    \<and> (ip' \<noteq> ip \<longrightarrow> restrictServiceToIp svc' ip' = Inl ip)"
proof -
  have "svc' = svc\<lparr>sv_restricted_to := Some ip\<rparr>" and "sv_restricted_to svc \<in> {None, Some ip}"
    and ok: "ok = has_a_record ip svc'"
    using assms by (cases svc; cases "sv_restricted_to svc"; simp add: restrictServiceToIp_def Let_def split: if_splits)+
  then have recs: "service_records svc' = filter (record_allowed ip) (service_records svc)"
    and again: "sv_restricted_to svc' = Some ip"
    by (auto simp: service_records_def)
  have "restrictServiceToIp svc' ip = Inr (ok, svc')" and "ip' \<noteq> ip \<longrightarrow> restrictServiceToIp svc' ip' = Inl ip"
    using again ok by (simp_all add: restrictServiceToIp_def)
  moreover have "ok \<longleftrightarrow> (\<exists>r \<in> set (service_records svc). rr_type r = ''A'' \<and> rr_data r = JStr ip)"
    unfolding ok has_a_record_def recs list_ex_iff by (auto simp: record_allowed_def)
  moreover have "record_allowed ip r \<longleftrightarrow> rr_type r \<noteq> ''AAAA'' \<and> (rr_type r = ''A'' \<longrightarrow> rr_data r = JStr ip)" for r
    by (simp add: record_allowed_def)
  ultimately show ?thesis unfolding recs set_filter by simp
qed

theorem service_restricted_witness:
  "restrictServiceToIp \<lparr>sv_original = [\<lparr>rr_type = ''A'', rr_data = JStr ''10.0.0.1''\<rparr>], sv_restricted_to = Some ''10.0.0.1''\<rparr> ''10.0.0.2''
     = Inl ''10.0.0.1''"
proof -
  let ?svc = "\<lparr>sv_original = [\<lparr>rr_type = ''A'', rr_data = JStr ''10.0.0.1''\<rparr>], sv_restricted_to = None\<rparr>"
  have "restrictServiceToIp ?svc ''10.0.0.1'' = Inr (True, ?svc\<lparr>sv_restricted_to := Some ''10.0.0.1''\<rparr>)" by code_simp
  from service_restricted [OF this, of "''10.0.0.2''"] show ?thesis by simp
qed

end
