(* ===== verification/Boot_Relearn.thy ===== *)
theory Boot_Relearn
  imports Message_Endpoint Discovery_Policy
begin

text \<open>
  The cache of peer locators (\<open>peer-cache.ts\<close>), the proactive relearning of its peers after a restart
  (\<open>boot-relearn.ts\<close>) and their wiring in \<open>index.ts\<close>. The JSON codec, the URL parser and the pinned fetch of a card are
  arguments; the numbers of the cache file are integers. The file itself is a text that one run writes and the next
  run reads.
\<close>

section \<open>The cache of locators\<close>

definition PEER_CACHE_TTL_MS :: time where "PEER_CACHE_TTL_MS = 14 * 24 * 60 * 60000"
definition PEER_CACHE_MAX :: int where "PEER_CACHE_MAX = 512"
definition PEER_CACHE_SCHEMA :: int where "PEER_CACHE_SCHEMA = 1"

record cache_locator =
  cl_peer_id :: string
  cl_spiffe_uri :: string
  cl_endpoint :: string
  cl_fingerprint :: string
  cl_last_seen :: time

text \<open>\<open>/^https:\/\/[^\s/]+:(\d{1,5})$/\<close>: the last colon ends the host.\<close>

definition split_port :: "string \<Rightarrow> (string \<times> string) option" where
  "split_port s =
     (case dropWhile (\<lambda>c. c \<noteq> CHR '':'') (rev s) of
        [] \<Rightarrow> None
      | _ # h \<Rightarrow> Some (rev h, rev (takeWhile (\<lambda>c. c \<noteq> CHR '':'') (rev s))))"

definition isPlausibleEndpoint :: "string \<Rightarrow> bool" where
  "isPlausibleEndpoint ep =
     (case Option.bind (after_prefix ''https://'' ep) split_port of
        None \<Rightarrow> False
      | Some (h, d) \<Rightarrow> h \<noteq> [] \<and> list_all (\<lambda>c. \<not> js_space c \<and> c \<noteq> CHR ''/'') h \<and> digits_upto 5 d
          \<and> 1 \<le> octet_value d \<and> octet_value d \<le> 65535)"

definition hex_char :: "char \<Rightarrow> bool" where
  "hex_char c \<longleftrightarrow> is_digit c \<or> char_between 97 102 c \<or> char_between 65 70 c"

definition isPlausibleFingerprint :: "string \<Rightarrow> bool" where
  "isPlausibleFingerprint fp \<longleftrightarrow> length fp = 64 \<and> list_all hex_char fp"

definition coerceLocator :: "json \<Rightarrow> cache_locator option" where
  "coerceLocator raw =
     (case (as_str (json_prop raw ''spiffeUri''), as_str (json_prop raw ''peerId''), as_str (json_prop raw ''endpoint''),
            as_str (json_prop raw ''certFingerprint''), json_prop raw ''lastSeen'') of
        (Some uri, Some peerId, Some ep, Some fp, JNum seen) \<Rightarrow>
          if spiffeUriToPeerId uri \<noteq> Some peerId \<or> \<not> isPlausibleEndpoint ep \<or> \<not> isPlausibleFingerprint fp \<or> seen \<le> 0
          then None
          else Some \<lparr>cl_peer_id = peerId, cl_spiffe_uri = uri, cl_endpoint = ep, cl_fingerprint = fp, cl_last_seen = seen\<rparr>
      | _ \<Rightarrow> None)"

definition locator_json :: "cache_locator \<Rightarrow> json" where
  "locator_json l = JObj [(''peerId'', JStr (cl_peer_id l)), (''spiffeUri'', JStr (cl_spiffe_uri l)),
     (''endpoint'', JStr (cl_endpoint l)), (''certFingerprint'', JStr (cl_fingerprint l)), (''lastSeen'', JNum (cl_last_seen l))]"

text \<open>The document that \<open>JSON.stringify\<close> prints.\<close>

definition serializeCache :: "cache_locator list \<Rightarrow> json" where
  "serializeCache locators = JObj [(''schema'', JNum PEER_CACHE_SCHEMA), (''entries'', JArr (map locator_json locators))]"

definition keep_newest :: "time \<Rightarrow> time \<Rightarrow> json \<Rightarrow> (string, cache_locator) jsmap \<Rightarrow> (string, cache_locator) jsmap" where
  "keep_newest nowMs ttlMs rawEntry m =
     (case coerceLocator rawEntry of
        None \<Rightarrow> m
      | Some loc \<Rightarrow>
          if ttlMs < nowMs - cl_last_seen loc \<or> nowMs + 60000 < cl_last_seen loc then m
          else case m_get m (cl_peer_id loc) of
            None \<Rightarrow> m_set (cl_peer_id loc) loc m
          | Some existing \<Rightarrow> if cl_last_seen existing < cl_last_seen loc then m_set (cl_peer_id loc) loc m else m)"

definition parseCache :: "json option \<Rightarrow> time \<Rightarrow> time \<Rightarrow> int \<Rightarrow> cache_locator list" where
  "parseCache parsed nowMs ttlMs cap =
     (case parsed of
        None \<Rightarrow> []
      | Some doc \<Rightarrow>
          (case (json_prop doc ''schema'', as_arr (json_prop doc ''entries'')) of
             (JNum v, Some entries) \<Rightarrow>
               if v \<noteq> PEER_CACHE_SCHEMA then []
               else take (nat cap) (sort_key (\<lambda>l. - cl_last_seen l) (m_vals (fold (keep_newest nowMs ttlMs) entries [])))
           | _ \<Rightarrow> []))"

definition mergeLocators :: "cache_locator list \<Rightarrow> cache_locator list \<Rightarrow> cache_locator list" where
  "mergeLocators live loaded =
     m_vals (fold (\<lambda>l. m_set (cl_peer_id l) l) live (fold (\<lambda>l. m_set (cl_peer_id l) l) loaded []))"

text \<open>A locator of the mesh manager is the same five fields as a tuple.\<close>

definition to_locator :: "cache_locator \<Rightarrow> locator" where
  "to_locator l = (cl_peer_id l, cl_spiffe_uri l, cl_endpoint l, cl_fingerprint l, cl_last_seen l)"

fun of_locator :: "locator \<Rightarrow> cache_locator" where
  "of_locator (p, u, e, f, t) = \<lparr>cl_peer_id = p, cl_spiffe_uri = u, cl_endpoint = e, cl_fingerprint = f, cl_last_seen = t\<rparr>"

text \<open>What a flush writes, and what the next start does with it.\<close>

definition flushPeerCache :: "mesh \<Rightarrow> json" where
  "flushPeerCache m = serializeCache (mergeLocators (map of_locator (exportSeenLocators m)) (map of_locator (ms_boot_targets m)))"

definition boot_load :: "json option \<Rightarrow> time \<Rightarrow> mesh \<Rightarrow> mesh" where
  "boot_load parsed now m = setBootReLearnTargets (map to_locator (parseCache parsed now PEER_CACHE_TTL_MS PEER_CACHE_MAX)) m"

section \<open>Which hosts may be dialled\<close>

text \<open>\<open>/^\d{1,3}(\.\d{1,3}){3}$/\<close>\<close>

definition ipv4_shape :: "string \<Rightarrow> bool" where
  "ipv4_shape h \<longleftrightarrow> length (js_split CHR ''.'' h) = 4 \<and> list_all (digits_upto 3) (js_split CHR ''.'' h)"

definition bare_host :: "string \<Rightarrow> string" where
  "bare_host host =
     (let h = (if js_lower (take 7 host) = ''::ffff:'' then drop 7 host else host);
          a = (if prefix ''['' h then drop 1 h else h)
      in if suffix '']'' a then butlast a else a)"

definition forbidden_host :: "string \<Rightarrow> bool" where
  "forbidden_host h \<longleftrightarrow> prefix ''127.'' h \<or> h = ''::1'' \<or> prefix ''169.254.'' h \<or> js_lower (take 5 h) = ''fe80:''
     \<or> h = ''0.0.0.0'' \<or> h = ''::''"

text \<open>\<open>/^172\.(1[6-9]|2\d|3[01])\./\<close> and \<open>/^f[cd][0-9a-f]{2}:/i\<close>\<close>

definition private_172 :: "string \<Rightarrow> bool" where
  "private_172 h =
     (case after_prefix ''172.'' h of
        Some (a # b # c # _) \<Rightarrow> c = CHR ''.'' \<and> is_digit b
          \<and> (a = CHR ''1'' \<and> char_between 54 57 b \<or> a = CHR ''2'' \<or> a = CHR ''3'' \<and> char_between 48 49 b)
      | _ \<Rightarrow> False)"

definition unique_local :: "string \<Rightarrow> bool" where
  "unique_local h =
     (case h of
        a # b # c # d # e # _ \<Rightarrow> js_lower_char a = CHR ''f'' \<and> js_lower_char b \<in> set ''cd'' \<and> hex_char c \<and> hex_char d \<and> e = CHR '':''
      | _ \<Rightarrow> False)"

definition isReLearnHostAllowed :: "string \<Rightarrow> string list \<Rightarrow> bool" where
  "isReLearnHostAllowed host allowedCidrs =
     (let h = bare_host host in
      if \<not> ipv4_shape h \<and> CHR '':'' \<notin> set h then False
      else if forbidden_host h then False
      else if allowedCidrs \<noteq> [] then list_ex (ipInCidr h) allowedCidrs
      else prefix ''10.'' h \<or> prefix ''192.168.'' h \<or> private_172 h \<or> unique_local h)"

section \<open>Reading a bounded body\<close>

definition MAX_CARD_BODY_BYTES :: nat where "MAX_CARD_BODY_BYTES = 256 * 1024"

text \<open>The chunks of the stream; the decoder is an argument.\<close>

fun read_chunks :: "nat \<Rightarrow> bytes \<Rightarrow> bytes option list \<Rightarrow> bytes option" where
  "read_chunks maxBytes acc [] = Some acc"
| "read_chunks maxBytes acc (None # cs) = read_chunks maxBytes acc cs"
| "read_chunks maxBytes acc (Some c # cs) =
     (if maxBytes < length acc + length c then None else read_chunks maxBytes (acc @ c) cs)"

definition readCappedText :: "(bytes \<Rightarrow> string) \<Rightarrow> bytes option list \<Rightarrow> nat \<Rightarrow> string option" where
  "readCappedText decode chunks maxBytes = map_option decode (read_chunks maxBytes [] chunks)"

section \<open>Relearning\<close>

datatype relearn_result = ReRecorded | ReSkipped | ReRejected | ReRateLimited | ReBlocked | ReFailed

record relearn_deps =
  rd_resolvable :: bool
  rd_host_allowed :: "string \<Rightarrow> bool"
  rd_rate_ok :: bool
  rd_fetch :: "string \<Rightarrow> string \<Rightarrow> nat \<Rightarrow> fetched_card option"
  rd_fingerprint :: "string option"
  rd_max_attempts :: "int option"
  rd_backoff :: "int list option"

text \<open>The result, the entry to record and the dials made: every attempt is one pinned dial of the endpoint, and a pause lies
  between two attempts.\<close>

definition relearnPeer ::
  "relearn_deps \<Rightarrow> string \<Rightarrow> string \<Rightarrow> string \<Rightarrow> string \<Rightarrow> relearn_result \<times> seen_entry option \<times> (string \<times> string) list" where
  "relearnPeer d peerId expected endpoint host =
     (if rd_resolvable d then (ReSkipped, None, [])
      else if \<not> rd_host_allowed d host then (ReBlocked, None, [])
      else if \<not> rd_rate_ok d then (ReRateLimited, None, [])
      else
        let (fetched, pauses) = fetch_attempts (rd_fetch d endpoint expected) (default_to [500, 1500, 4000] (rd_backoff d)) 1
              (nat (max 1 (default_to 3 (rd_max_attempts d))));
            dials = replicate (Suc (length pauses)) (endpoint, expected)
        in case fetched of
             None \<Rightarrow> (ReFailed, None, dials)
           | Some crd \<Rightarrow>
               (case crd of
                  Some (Some uri, Some key) \<Rightarrow>
                    if key = [] \<or> uri \<noteq> expected then (ReRejected, None, dials)
                    else (ReRecorded, Some \<lparr>se_peer_id = peerId, se_public_key = key, se_spiffe_uri = expected,
                            se_cert_fingerprint = default_to [] (rd_fingerprint d), se_endpoint = endpoint, se_last_seen = 0\<rparr>, dials)
                | _ \<Rightarrow> (ReRejected, None, dials)))"

text \<open>The loop over the targets at the start. The clock is read when a peer's turn comes and again when its card has been
  fetched; the state also keeps the dials made so far, each with its pin; other traffic during the loop is not modelled.\<close>

record boot_env =
  be_hostname :: "string \<Rightarrow> string option"
  be_cidrs :: "string list"
  be_limits :: rate_config
  be_now :: "string \<Rightarrow> time"
  be_done :: "string \<Rightarrow> time"
  be_fetch :: "string \<Rightarrow> string \<Rightarrow> nat \<Rightarrow> fetched_card option"

record boot_state =
  bo_mesh :: mesh
  bo_limiter :: rate_limiter
  bo_audit :: "(string \<times> string) list"
  bo_dials :: "(string \<times> string) list"

text \<open>The limiter is only asked when the peer is neither resolvable nor blocked.\<close>

definition relearn_target :: "boot_env \<Rightarrow> locator \<Rightarrow> boot_state \<Rightarrow> boot_state" where
  "relearn_target env t st =
     (case t of (peerId, uri, endpoint, _, _) \<Rightarrow>
        case be_hostname env endpoint of
          None \<Rightarrow> st
        | Some host \<Rightarrow>
            let now = be_now env peerId;
                known = resolvePeerPublicKey now uri (bo_mesh st) \<noteq> None;
                allowed = (\<lambda>h. isReLearnHostAllowed h (be_cidrs env));
                (ok, rl) = (if known \<or> \<not> allowed host then (False, bo_limiter st)
                            else Rate_Limit.allow (be_limits env) now (''adr035-relearn:'' @ peerId) (bo_limiter st))
            in case relearnPeer \<lparr>rd_resolvable = known, rd_host_allowed = allowed, rd_rate_ok = ok, rd_fetch = be_fetch env,
                      rd_fingerprint = None, rd_max_attempts = None, rd_backoff = None\<rparr> peerId uri endpoint host of
                 (_, None, dials) \<Rightarrow> st\<lparr>bo_limiter := rl, bo_dials := bo_dials st @ dials\<rparr>
               | (_, Some e, dials) \<Rightarrow> \<lparr>bo_mesh = recordAuthenticatedSeen (be_done env peerId) e (bo_mesh st), bo_limiter = rl,
                                 bo_audit = bo_audit st @ [(peerId, endpoint)], bo_dials = bo_dials st @ dials\<rparr>)"

definition runBootReLearn :: "boot_env \<Rightarrow> boot_state \<Rightarrow> boot_state" where
  "runBootReLearn env st = fold (relearn_target env) (ms_boot_targets (bo_mesh st)) st"

section \<open>What a load keeps\<close>

definition fresh_locator :: "time \<Rightarrow> time \<Rightarrow> cache_locator \<Rightarrow> bool" where
  "fresh_locator now ttl l \<longleftrightarrow> now - cl_last_seen l \<le> ttl \<and> cl_last_seen l \<le> now + 60000"

definition locator_ok :: "cache_locator \<Rightarrow> bool" where
  "locator_ok l \<longleftrightarrow> spiffeUriToPeerId (cl_spiffe_uri l) = Some (cl_peer_id l) \<and> isPlausibleEndpoint (cl_endpoint l)
     \<and> isPlausibleFingerprint (cl_fingerprint l) \<and> 0 < cl_last_seen l"

text \<open>The entries of a file that count.\<close>

definition loadable :: "time \<Rightarrow> time \<Rightarrow> json list \<Rightarrow> cache_locator list" where
  "loadable now ttl es = filter (fresh_locator now ttl) (List.map_filter coerceLocator es)"

lemma coerce_ok: "coerceLocator raw = Some l \<Longrightarrow> locator_ok l"
  by (auto simp: coerceLocator_def locator_ok_def split: option.splits json.splits if_splits)

lemma coerce_json: "coerceLocator (locator_json l) = (if locator_ok l then Some l else None)"
  by (cases l) (auto simp: coerceLocator_def locator_ok_def locator_json_def)

lemma keep_cases:
  "keep_newest now ttl raw m =
     (case coerceLocator raw of
        None \<Rightarrow> m
      | Some l \<Rightarrow>
          if fresh_locator now ttl l
             \<and> (case m_get m (cl_peer_id l) of None \<Rightarrow> True | Some x \<Rightarrow> cl_last_seen x < cl_last_seen l)
          then m_set (cl_peer_id l) l m else m)"
  by (auto simp: keep_newest_def fresh_locator_def split: option.split)

definition newest_of :: "cache_locator set \<Rightarrow> (string, cache_locator) jsmap \<Rightarrow> bool" where
  "newest_of V m \<longleftrightarrow> m_inv m \<and> (\<forall>k l. m_get m k = Some l \<longrightarrow> k = cl_peer_id l \<and> l \<in> V)
     \<and> (\<forall>l \<in> V. \<exists>x. m_get m (cl_peer_id l) = Some x \<and> cl_last_seen l \<le> cl_last_seen x)"

lemma newest_covers: "newest_of V m \<Longrightarrow> l \<in> V \<Longrightarrow> \<exists>x. m_get m (cl_peer_id l) = Some x \<and> cl_last_seen l \<le> cl_last_seen x"
  by (simp add: newest_of_def)

lemma newest_set:
  assumes "newest_of V m" and older: "\<And>x. m_get m (cl_peer_id l) = Some x \<Longrightarrow> cl_last_seen x < cl_last_seen l"
  shows "newest_of (insert l V) (m_set (cl_peer_id l) l m)"
proof -
  have "\<exists>x. m_get (m_set (cl_peer_id l) l m) (cl_peer_id l') = Some x \<and> cl_last_seen l' \<le> cl_last_seen x" if v: "l' \<in> V" for l'
  proof -
    obtain x where x: "m_get m (cl_peer_id l') = Some x" "cl_last_seen l' \<le> cl_last_seen x"
      using newest_covers [OF assms(1) v] by blast
    show ?thesis
    proof (cases "cl_peer_id l' = cl_peer_id l")
      case True
      then show ?thesis using older [of x] x by simp
    qed (use x in simp)
  qed
  then show ?thesis using assms(1) unfolding newest_of_def by auto
qed

lemma newest_step:
  assumes "newest_of V m"
  shows "newest_of (V \<union> set (loadable now ttl [raw])) (keep_newest now ttl raw m)"
proof (cases "coerceLocator raw")
  case None
  then show ?thesis using assms by (simp add: keep_cases loadable_def List.map_filter_def)
next
  case (Some l)
  show ?thesis
  proof (cases "fresh_locator now ttl l")
    case False
    then show ?thesis using assms Some by (simp add: keep_cases loadable_def List.map_filter_def)
  next
    case True
    then have V: "V \<union> set (loadable now ttl [raw]) = insert l V" using Some by (simp add: loadable_def List.map_filter_def)
    show ?thesis
    proof (cases "m_get m (cl_peer_id l)")
      case None
      then have "keep_newest now ttl raw m = m_set (cl_peer_id l) l m" using Some True by (simp add: keep_cases)
      then show ?thesis using newest_set [OF assms, of l] None unfolding V by simp
    next
      case (Some x)
      show ?thesis
      proof (cases "cl_last_seen x < cl_last_seen l")
        case t: True
        then have "keep_newest now ttl raw m = m_set (cl_peer_id l) l m"
          using Some True \<open>coerceLocator raw = Some l\<close> by (simp add: keep_cases)
        then show ?thesis using newest_set [OF assms, of l] Some t unfolding V by simp
      next
        case t: False
        then have "keep_newest now ttl raw m = m" using Some True \<open>coerceLocator raw = Some l\<close> by (simp add: keep_cases)
        then show ?thesis using assms Some t unfolding V newest_of_def by (auto simp: not_less)
      qed
    qed
  qed
qed

lemma loadable_Cons: "set (loadable now ttl (e # es)) = set (loadable now ttl [e]) \<union> set (loadable now ttl es)"
  by (auto simp: loadable_def List.map_filter_def)

lemma newest_fold: "newest_of V m \<Longrightarrow> newest_of (V \<union> set (loadable now ttl es)) (fold (keep_newest now ttl) es m)"
proof (induction es arbitrary: V m)
  case (Cons e es)
  from Cons.IH [OF newest_step [OF Cons.prems]] show ?case by (simp add: loadable_Cons [of now ttl e es] Un_assoc)
qed (simp add: loadable_def List.map_filter_def)

lemma distinct_map_sort_key: "distinct (map f xs) \<Longrightarrow> distinct (map f (sort_key g xs))"
  unfolding distinct_map by simp

lemma distinct_map_take: "distinct (map f xs) \<Longrightarrow> distinct (map f (take n xs))"
  by (metis distinct_take take_map)

lemma sorted_desc: "sorted_wrt (\<lambda>a b. cl_last_seen b \<le> cl_last_seen a) (sort_key (\<lambda>l. - cl_last_seen l) xs)"
  using sorted_sort_key [of "\<lambda>l. - cl_last_seen l" xs] by (simp add: sorted_map)

definition entries_of :: "json \<Rightarrow> json list" where
  "entries_of doc =
     (if json_prop doc ''schema'' = JNum PEER_CACHE_SCHEMA then default_to [] (as_arr (json_prop doc ''entries'')) else [])"

lemma parse_result:
  "parseCache (Some doc) now ttl cap =
     take (nat cap) (sort_key (\<lambda>l. - cl_last_seen l) (m_vals (fold (keep_newest now ttl) (entries_of doc) [])))"
  by (auto simp: parseCache_def entries_of_def split: json.split option.split)

lemma m_set_absent: "k \<notin> set (m_keys m) \<Longrightarrow> m_set k v m = m @ [(k, v)]"
  by (induction m) auto

lemma fold_keep_distinct:
  assumes "list_all locator_ok ls" "list_all (fresh_locator now ttl) ls" "distinct (map cl_peer_id ls)"
    and "set (map cl_peer_id ls) \<inter> set (m_keys m) = {}"
  shows "fold (keep_newest now ttl) (map locator_json ls) m = m @ map (\<lambda>l. (cl_peer_id l, l)) ls"
  using assms
proof (induction ls arbitrary: m)
  case (Cons l ls)
  have "m_get m (cl_peer_id l) = None" using Cons.prems(4) by (auto simp: map_of_eq_None_iff)
  then have "keep_newest now ttl (locator_json l) m = m_set (cl_peer_id l) l m"
    using Cons.prems by (simp add: keep_cases coerce_json)
  also have "\<dots> = m @ [(cl_peer_id l, l)]" using Cons.prems(4) by (intro m_set_absent) auto
  finally show ?case using Cons.IH [of "m @ [(cl_peer_id l, l)]"] Cons.prems by auto
qed simp

lemma fold_newest: "newest_of (set (loadable now ttl es)) (fold (keep_newest now ttl) es [])"
  using newest_fold [of "{}" "[]" now ttl es] by (simp add: newest_of_def)

lemma loaded_good: "set (parseCache (Some doc) now ttl cap) \<subseteq> set (loadable now ttl (entries_of doc))"
proof
  define m where "m = fold (keep_newest now ttl) (entries_of doc) []"
  have nm: "newest_of (set (loadable now ttl (entries_of doc))) m" unfolding m_def by (rule fold_newest)
  fix l assume "l \<in> set (parseCache (Some doc) now ttl cap)"
  then have "l \<in> set (m_vals m)" unfolding parse_result m_def [symmetric] by (auto dest: in_set_takeD)
  then obtain k where "(k, l) \<in> set m" by auto
  then have "m_get m k = Some l" using nm unfolding newest_of_def by (simp add: m_get_iff_in_set)
  then show "l \<in> set (loadable now ttl (entries_of doc))" using nm unfolding newest_of_def by blast
qed

text \<open>The cache of peers. A file that does not parse, or of another schema, loads nothing. What is loaded is well formed,
  with the peer id that the canonical URI names, no older than the lifetime and not from the future; there is at most one
  locator per peer, newest first, and no more than the limit; and for every good entry of the file either that peer is
  loaded with a locator as new, or the limit is filled with newer ones. A file that was written from well-formed locators
  of distinct peers is read back as their newest ones.\<close>

theorem peer_cache_load:
  shows "(\<forall>doc. parsed = Some doc \<longrightarrow>
        (let ls = parseCache parsed now ttl cap; good = set (loadable now ttl (entries_of doc)) in
          set ls \<subseteq> good \<and> list_all locator_ok ls \<and> distinct (map cl_peer_id ls) \<and> length ls \<le> nat cap
          \<and> sorted_wrt (\<lambda>a b. cl_last_seen b \<le> cl_last_seen a) ls
          \<and> (\<forall>l \<in> good. (\<exists>x \<in> set ls. cl_peer_id x = cl_peer_id l \<and> cl_last_seen l \<le> cl_last_seen x)
               \<or> length ls = nat cap \<and> (\<forall>x \<in> set ls. cl_last_seen l \<le> cl_last_seen x))))
    \<and> (parsed = None \<longrightarrow> parseCache parsed now ttl cap = [])
    \<and> (list_all locator_ok saved \<and> list_all (fresh_locator now ttl) saved \<and> distinct (map cl_peer_id saved) \<longrightarrow>
         parseCache (Some (serializeCache saved)) now ttl cap = take (nat cap) (sort_key (\<lambda>l. - cl_last_seen l) saved))"
proof (intro conjI allI impI)
  fix doc assume doc: "parsed = Some doc"
  define m where "m = fold (keep_newest now ttl) (entries_of doc) []"
  define good where "good = set (loadable now ttl (entries_of doc))"
  define all where "all = sort_key (\<lambda>l. - cl_last_seen l) (m_vals m)"
  have ls: "parseCache parsed now ttl cap = take (nat cap) all"
    unfolding doc parse_result m_def [symmetric] all_def ..
  have nm: "newest_of good m" unfolding m_def good_def by (rule fold_newest)
  then have inv: "m_inv m" by (simp add: newest_of_def)
  have entry: "k = cl_peer_id l \<and> l \<in> good" if "(k, l) \<in> set m" for k l
    using nm that inv unfolding newest_of_def m_inv_def by (metis map_of_eq_Some_iff)
  have vals: "set all \<subseteq> good" using entry by (auto simp: all_def)
  have "map cl_peer_id (m_vals m) = m_keys m" using entry by (auto simp: list.map_comp intro!: map_cong)
  moreover have "distinct (m_keys m)" using inv unfolding m_inv_def .
  ultimately have "distinct (map cl_peer_id (m_vals m))" by (simp only:)
  then have dist: "distinct (map cl_peer_id all)" unfolding all_def by (rule distinct_map_sort_key)
  have ok: "list_all locator_ok (take (nat cap) all)"
  proof -
    have "locator_ok l" if "l \<in> good" for l
      using that coerce_ok unfolding good_def loadable_def List.map_filter_def by fastforce
    then show ?thesis using vals set_take_subset [of "nat cap" all] unfolding list_all_iff by blast
  qed
  have sorted: "sorted_wrt (\<lambda>a b. cl_last_seen b \<le> cl_last_seen a) all" unfolding all_def by (rule sorted_desc)
  have cover: "(\<exists>x \<in> set (take (nat cap) all). cl_peer_id x = cl_peer_id l \<and> cl_last_seen l \<le> cl_last_seen x)
      \<or> length (take (nat cap) all) = nat cap \<and> (\<forall>x \<in> set (take (nat cap) all). cl_last_seen l \<le> cl_last_seen x)"
    if l: "l \<in> good" for l
  proof -
    obtain x where x: "m_get m (cl_peer_id l) = Some x" "cl_last_seen l \<le> cl_last_seen x"
      using newest_covers [OF nm l] by blast
    have px: "cl_peer_id x = cl_peer_id l" using nm x(1) unfolding newest_of_def by fastforce
    from map_of_SomeD [OF x(1)] have "x \<in> snd ` set m" by (metis imageI snd_conv)
    then have "x \<in> set all" by (simp add: all_def)
    then consider "x \<in> set (take (nat cap) all)" | "x \<in> set (drop (nat cap) all)"
      by (metis Un_iff append_take_drop_id set_append)
    then show ?thesis
    proof cases
      case 2
      then have "nat cap < length all" by (metis drop_all empty_iff empty_set not_le)
      then have full: "length (take (nat cap) all) = nat cap" by simp
      have "sorted_wrt (\<lambda>a b. cl_last_seen b \<le> cl_last_seen a) (take (nat cap) all @ drop (nat cap) all)"
        using sorted by simp
      then have "\<forall>y \<in> set (take (nat cap) all). cl_last_seen x \<le> cl_last_seen y" using 2 unfolding sorted_wrt_append by blast
      then have "\<forall>y \<in> set (take (nat cap) all). cl_last_seen l \<le> cl_last_seen y" using x(2) by (meson order_trans)
      then show ?thesis using full by blast
    qed (use px x(2) in blast)
  qed
  show "let ls = parseCache parsed now ttl cap; good = set (loadable now ttl (entries_of doc)) in
          set ls \<subseteq> good \<and> list_all locator_ok ls \<and> distinct (map cl_peer_id ls) \<and> length ls \<le> nat cap
          \<and> sorted_wrt (\<lambda>a b. cl_last_seen b \<le> cl_last_seen a) ls
          \<and> (\<forall>l \<in> good. (\<exists>x \<in> set ls. cl_peer_id x = cl_peer_id l \<and> cl_last_seen l \<le> cl_last_seen x)
               \<or> length ls = nat cap \<and> (\<forall>x \<in> set ls. cl_last_seen l \<le> cl_last_seen x))"
    unfolding Let_def ls good_def [symmetric]
    using subset_trans [OF set_take_subset vals] ok distinct_map_take [OF dist] sorted_wrt_take [OF sorted] cover
    by simp
next
  assume s: "list_all locator_ok saved \<and> list_all (fresh_locator now ttl) saved \<and> distinct (map cl_peer_id saved)"
  have "entries_of (serializeCache saved) = map locator_json saved" by (simp add: entries_of_def serializeCache_def)
  then show "parseCache (Some (serializeCache saved)) now ttl cap = take (nat cap) (sort_key (\<lambda>l. - cl_last_seen l) saved)"
    unfolding parse_result using fold_keep_distinct [of saved now ttl "[]"] s by (simp add: comp_def)
qed (simp add: parseCache_def)

section \<open>What relearning does\<close>

lemma relearn_cases:
  "(\<exists>dials. relearnPeer d peerId uri ep host = (ReRecorded, Some e, dials)) \<longleftrightarrow>
     \<not> rd_resolvable d \<and> rd_host_allowed d host \<and> rd_rate_ok d
     \<and> (\<exists>k < nat (max 1 (default_to 3 (rd_max_attempts d))). \<exists>key. key \<noteq> []
          \<and> rd_fetch d ep uri (1 + k) = Some (Some (Some uri, Some key)) \<and> (\<forall>j < k. rd_fetch d ep uri (1 + j) = None)
          \<and> e = \<lparr>se_peer_id = peerId, se_public_key = key, se_spiffe_uri = uri,
                 se_cert_fingerprint = default_to [] (rd_fingerprint d), se_endpoint = ep, se_last_seen = 0\<rparr>)"
proof -
  define n where "n = nat (max 1 (default_to 3 (rd_max_attempts d)))"
  define r where "r = fst (fetch_attempts (rd_fetch d ep uri) (default_to [500, 1500, 4000] (rd_backoff d)) 1 n)"
  define entry where "entry key = \<lparr>se_peer_id = peerId, se_public_key = key, se_spiffe_uri = uri,
      se_cert_fingerprint = default_to [] (rd_fingerprint d), se_endpoint = ep, se_last_seen = 0\<rparr>" for key :: string
  have first: "r = Some crd \<longleftrightarrow> (\<exists>k < n. rd_fetch d ep uri (1 + k) = Some crd \<and> (\<forall>j < k. rd_fetch d ep uri (1 + j) = None))" for crd
    unfolding r_def by (rule first_fetch)
  have "(\<exists>dials. relearnPeer d peerId uri ep host = (ReRecorded, Some e, dials)) \<longleftrightarrow>
      \<not> rd_resolvable d \<and> rd_host_allowed d host \<and> rd_rate_ok d
      \<and> (\<exists>key. key \<noteq> [] \<and> r = Some (Some (Some uri, Some key)) \<and> e = entry key)"
    unfolding relearnPeer_def n_def [symmetric] r_def entry_def by (auto simp: Let_def split: prod.split option.split)
  then show ?thesis unfolding first n_def [symmetric] entry_def [symmetric] by blast
qed

lemma relearn_entry: "relearnPeer d peerId uri ep host = (r, Some e, dials) \<Longrightarrow> r = ReRecorded"
  by (auto simp: relearnPeer_def Let_def split: if_splits option.splits prod.splits)

lemma pauses_bound: "length (snd (fetch_attempts f b a n)) \<le> n - 1"
proof (induction n arbitrary: a)
  case (Suc n)
  obtain res pauses where later: "fetch_attempts f b (Suc a) n = (res, pauses)" by fastforce
  then have "length pauses \<le> n - 1" using Suc.IH [of "Suc a"] by simp
  then show ?case by (auto simp: later Let_def split: option.split)
qed simp

lemma relearn_recorded:
  "fst (relearnPeer d peerId uri ep host) = ReRecorded \<longleftrightarrow> (\<exists>e dials. relearnPeer d peerId uri ep host = (ReRecorded, Some e, dials))"
proof -
  obtain fetched pauses where "fetch_attempts (rd_fetch d ep uri) (default_to [500, 1500, 4000] (rd_backoff d)) 1
      (nat (max 1 (default_to 3 (rd_max_attempts d)))) = (fetched, pauses)" by fastforce
  then show ?thesis
    by (cases fetched; cases "the fetched"; cases "fst (the (the fetched))"; cases "snd (the (the fetched))")
      (simp_all add: relearnPeer_def case_prod_beta Let_def split: option.split)
qed

text \<open>The gates come before any dial.\<close>

lemma relearn_dials:
  assumes "relearnPeer d peerId uri ep host = (r, e, dials)"
  shows "set dials \<subseteq> {(ep, uri)}" and "length dials \<le> nat (max 1 (default_to 3 (rd_max_attempts d)))"
    and "dials \<noteq> [] \<longleftrightarrow> \<not> rd_resolvable d \<and> rd_host_allowed d host \<and> rd_rate_ok d"
proof -
  define n where "n = nat (max 1 (default_to 3 (rd_max_attempts d)))"
  define tries where "tries = fetch_attempts (rd_fetch d ep uri) (default_to [500, 1500, 4000] (rd_backoff d)) 1 n"
  define gates where "gates \<longleftrightarrow> \<not> rd_resolvable d \<and> rd_host_allowed d host \<and> rd_rate_ok d"
  have "dials = (if gates then replicate (Suc (length (snd tries))) (ep, uri) else [])"
    using assms unfolding relearnPeer_def n_def [symmetric] tries_def [symmetric] gates_def
    by (auto simp: Let_def split: if_splits option.splits prod.splits)
  moreover have "Suc (length (snd tries)) \<le> n"
  proof -
    have "length (snd tries) \<le> n - 1" unfolding tries_def by (rule pauses_bound)
    moreover have "1 \<le> n" unfolding n_def by linarith
    ultimately show ?thesis by linarith
  qed
  ultimately show "set dials \<subseteq> {(ep, uri)}" "length dials \<le> nat (max 1 (default_to 3 (rd_max_attempts d)))"
    "dials \<noteq> [] \<longleftrightarrow> \<not> rd_resolvable d \<and> rd_host_allowed d host \<and> rd_rate_ok d"
    unfolding n_def [symmetric] gates_def [symmetric] by (auto split: if_splits)
qed

definition target_deps :: "boot_env \<Rightarrow> bool \<Rightarrow> bool \<Rightarrow> relearn_deps" where
  "target_deps env known ok = \<lparr>rd_resolvable = known, rd_host_allowed = (\<lambda>h. isReLearnHostAllowed h (be_cidrs env)), rd_rate_ok = ok,
     rd_fetch = be_fetch env, rd_fingerprint = None, rd_max_attempts = None, rd_backoff = None\<rparr>"

text \<open>Where an entry that the boot wrote comes from.\<close>

definition relearned :: "boot_env \<Rightarrow> locator list \<Rightarrow> string \<times> seen_entry \<Rightarrow> bool" where
  "relearned env targets ke \<longleftrightarrow>
     (\<exists>peerId uri ep fp t host key i. (peerId, uri, ep, fp, t) \<in> set targets \<and> be_hostname env ep = Some host
        \<and> isReLearnHostAllowed host (be_cidrs env) \<and> 1 \<le> i \<and> i \<le> 3
        \<and> be_fetch env ep uri i = Some (Some (Some uri, Some key)) \<and> key \<noteq> []
        \<and> ke = (peerId, \<lparr>se_peer_id = peerId, se_public_key = key, se_spiffe_uri = uri, se_cert_fingerprint = [],
                         se_endpoint = ep, se_last_seen = be_done env peerId\<rparr>))"

lemma target_peer:
  obtains known ok rl where "be_hostname env ep = Some host \<Longrightarrow>
    relearn_target env (peerId, uri, ep, fp, t) st =
      (case relearnPeer (target_deps env known ok) peerId uri ep host of
         (_, None, dials) \<Rightarrow> st\<lparr>bo_limiter := rl, bo_dials := bo_dials st @ dials\<rparr>
       | (_, Some e, dials) \<Rightarrow> \<lparr>bo_mesh = recordAuthenticatedSeen (be_done env peerId) e (bo_mesh st), bo_limiter = rl,
                         bo_audit = bo_audit st @ [(peerId, ep)], bo_dials = bo_dials st @ dials\<rparr>)"
proof -
  define now where "now = be_now env peerId"
  define known where "known \<longleftrightarrow> resolvePeerPublicKey now uri (bo_mesh st) \<noteq> None"
  obtain ok rl where lim: "(ok, rl) = (if known \<or> \<not> isReLearnHostAllowed host (be_cidrs env) then (False, bo_limiter st)
      else Rate_Limit.allow (be_limits env) now (''adr035-relearn:'' @ peerId) (bo_limiter st))" by (metis surj_pair)
  show ?thesis
  proof (rule that [of rl known ok])
    assume host: "be_hostname env ep = Some host"
    show "relearn_target env (peerId, uri, ep, fp, t) st =
      (case relearnPeer (target_deps env known ok) peerId uri ep host of
         (_, None, dials) \<Rightarrow> st\<lparr>bo_limiter := rl, bo_dials := bo_dials st @ dials\<rparr>
       | (_, Some e, dials) \<Rightarrow> \<lparr>bo_mesh = recordAuthenticatedSeen (be_done env peerId) e (bo_mesh st), bo_limiter = rl,
                         bo_audit = bo_audit st @ [(peerId, ep)], bo_dials = bo_dials st @ dials\<rparr>)"
      unfolding relearn_target_def prod.case host option.case Let_def now_def [symmetric] known_def [symmetric] lim [symmetric]
        target_deps_def ..
  qed
qed

text \<open>A target is dialled at its own endpoint and pinned to its own URI, where its host is allowed, three times at most.\<close>

definition dial_of :: "boot_env \<Rightarrow> locator \<Rightarrow> string \<times> string \<Rightarrow> bool" where
  "dial_of env t dial \<longleftrightarrow> (case t of (_, uri, ep, _, _) \<Rightarrow> dial = (ep, uri)
     \<and> (\<exists>host. be_hostname env ep = Some host \<and> isReLearnHostAllowed host (be_cidrs env)))"

lemma target_dials:
  "\<exists>dials. bo_dials (relearn_target env t st) = bo_dials st @ dials \<and> length dials \<le> 3 \<and> (\<forall>dl \<in> set dials. dial_of env t dl)"
proof -
  obtain peerId uri ep fp seen where t: "t = (peerId, uri, ep, fp, seen)" by (cases t)
  show ?thesis
  proof (cases "be_hostname env ep")
    case None
    then show ?thesis by (simp add: t relearn_target_def)
  next
    case (Some host)
    obtain known ok rl where step: "relearn_target env t st =
      (case relearnPeer (target_deps env known ok) peerId uri ep host of
         (_, None, dials) \<Rightarrow> st\<lparr>bo_limiter := rl, bo_dials := bo_dials st @ dials\<rparr>
       | (_, Some e, dials) \<Rightarrow> \<lparr>bo_mesh = recordAuthenticatedSeen (be_done env peerId) e (bo_mesh st), bo_limiter = rl,
                         bo_audit = bo_audit st @ [(peerId, ep)], bo_dials = bo_dials st @ dials\<rparr>)"
      using target_peer [of env ep host peerId uri fp seen st] Some unfolding t by blast
    obtain r e dials where r: "relearnPeer (target_deps env known ok) peerId uri ep host = (r, e, dials)" by (metis prod.exhaust)
    have "bo_dials (relearn_target env t st) = bo_dials st @ dials" unfolding step r by (simp split: option.split)
    moreover have "length dials \<le> 3" using relearn_dials(2) [OF r] by (simp add: target_deps_def)
    moreover have "dial_of env t dl" if "dl \<in> set dials" for dl
    proof -
      have "dials \<noteq> []" using that by auto
      then have "isReLearnHostAllowed host (be_cidrs env)" using relearn_dials(3) [OF r] by (simp add: target_deps_def)
      then show ?thesis using relearn_dials(1) [OF r] that Some by (auto simp: dial_of_def t)
    qed
    ultimately show ?thesis by blast
  qed
qed

lemma targets_dials:
  "\<exists>dials. bo_dials (fold (relearn_target env) ts st) = bo_dials st @ dials \<and> length dials \<le> 3 * length ts
     \<and> (\<forall>dl \<in> set dials. \<exists>t \<in> set ts. dial_of env t dl)"
proof (induction ts arbitrary: st)
  case (Cons t ts)
  obtain d1 where d1: "bo_dials (relearn_target env t st) = bo_dials st @ d1" "length d1 \<le> 3" "\<forall>dl \<in> set d1. dial_of env t dl"
    using target_dials by blast
  obtain d2 where d2: "bo_dials (fold (relearn_target env) ts (relearn_target env t st)) = bo_dials (relearn_target env t st) @ d2"
      "length d2 \<le> 3 * length ts" "\<forall>dl \<in> set d2. \<exists>t \<in> set ts. dial_of env t dl"
    using Cons.IH by blast
  show ?case using d1 d2 by (intro exI [of _ "d1 @ d2"]) auto
qed simp

lemma target_outcome:
  obtains "\<exists>rl dials. relearn_target env (peerId, uri, ep, fp, t) st = st\<lparr>bo_limiter := rl, bo_dials := dials\<rparr>"
  | host e d rl dials dials' where "be_hostname env ep = Some host" "relearnPeer d peerId uri ep host = (ReRecorded, Some e, dials)"
      "rd_host_allowed d = (\<lambda>h. isReLearnHostAllowed h (be_cidrs env))" "rd_fetch d = be_fetch env"
      "rd_fingerprint d = None" "rd_max_attempts d = None"
      "relearn_target env (peerId, uri, ep, fp, t) st =
         \<lparr>bo_mesh = recordAuthenticatedSeen (be_done env peerId) e (bo_mesh st), bo_limiter = rl, bo_audit = bo_audit st @ [(peerId, ep)],
           bo_dials = dials'\<rparr>"
proof (cases "be_hostname env ep")
  case None
  then have "relearn_target env (peerId, uri, ep, fp, t) st = st\<lparr>bo_limiter := bo_limiter st, bo_dials := bo_dials st\<rparr>"
    by (simp add: relearn_target_def)
  then show ?thesis using that(1) by blast
next
  case (Some host)
  obtain known ok rl where step: "relearn_target env (peerId, uri, ep, fp, t) st =
      (case relearnPeer (target_deps env known ok) peerId uri ep host of
         (_, None, dials) \<Rightarrow> st\<lparr>bo_limiter := rl, bo_dials := bo_dials st @ dials\<rparr>
       | (_, Some e, dials) \<Rightarrow> \<lparr>bo_mesh = recordAuthenticatedSeen (be_done env peerId) e (bo_mesh st), bo_limiter = rl,
                         bo_audit = bo_audit st @ [(peerId, ep)], bo_dials = bo_dials st @ dials\<rparr>)"
    using target_peer [of env ep host peerId uri fp t st] Some by blast
  obtain r got dials where r: "relearnPeer (target_deps env known ok) peerId uri ep host = (r, got, dials)" by (metis prod.exhaust)
  show ?thesis
  proof (cases got)
    case None
    then show ?thesis using step r that(1) by auto
  next
    case e: (Some e)
    then have "relearnPeer (target_deps env known ok) peerId uri ep host = (ReRecorded, Some e, dials)"
      using relearn_entry r by metis
    then show ?thesis using step Some that(2) by (simp add: target_deps_def)
  qed
qed


lemma seen_recorded: "x \<in> set (ms_seen (recordAuthenticatedSeen now e m)) \<Longrightarrow> x \<notin> set (ms_seen m) \<Longrightarrow> x = (se_peer_id e, e\<lparr>se_last_seen := now\<rparr>)"
  using recorded_entry by blast

lemma target_step:
  assumes t: "(peerId, uri, ep, fp, t) \<in> set targets" and st': "st' = relearn_target env (peerId, uri, ep, fp, t) st"
  shows "ms_heap (bo_mesh st') = ms_heap (bo_mesh st) \<and> ms_peers (bo_mesh st') = ms_peers (bo_mesh st)
      \<and> ms_boot_targets (bo_mesh st') = ms_boot_targets (bo_mesh st)
      \<and> (\<forall>ke \<in> set (ms_seen (bo_mesh st')) - set (ms_seen (bo_mesh st)). relearned env targets ke)"
proof (rule target_outcome [of env peerId uri ep fp t st])
  assume "\<exists>rl dials. relearn_target env (peerId, uri, ep, fp, t) st = st\<lparr>bo_limiter := rl, bo_dials := dials\<rparr>"
  then show ?thesis unfolding st' by auto
next
  fix host e d rl dials dials'
  assume host: "be_hostname env ep = Some host" and r: "relearnPeer d peerId uri ep host = (ReRecorded, Some e, dials)"
    and d: "rd_host_allowed d = (\<lambda>h. isReLearnHostAllowed h (be_cidrs env))" "rd_fetch d = be_fetch env"
      "rd_fingerprint d = None" "rd_max_attempts d = None"
    and app: "relearn_target env (peerId, uri, ep, fp, t) st =
         \<lparr>bo_mesh = recordAuthenticatedSeen (be_done env peerId) e (bo_mesh st), bo_limiter = rl, bo_audit = bo_audit st @ [(peerId, ep)],
           bo_dials = dials'\<rparr>"
  have "\<exists>dials. relearnPeer d peerId uri ep host = (ReRecorded, Some e, dials)" using r by blast
  then obtain k key where k: "k < 3" "key \<noteq> []" "be_fetch env ep uri (1 + k) = Some (Some (Some uri, Some key))"
      "e = \<lparr>se_peer_id = peerId, se_public_key = key, se_spiffe_uri = uri, se_cert_fingerprint = [], se_endpoint = ep, se_last_seen = 0\<rparr>"
      and h: "isReLearnHostAllowed host (be_cidrs env)"
    unfolding relearn_cases d by (auto simp: d)
  have new: "relearned env targets (se_peer_id e, e\<lparr>se_last_seen := be_done env peerId\<rparr>)"
    unfolding relearned_def
    by (intro exI [of _ peerId] exI [of _ uri] exI [of _ ep] exI [of _ fp] exI [of _ t] exI [of _ host] exI [of _ key] exI [of _ "1 + k"])
      (use t host h k in simp)
  have "\<forall>ke \<in> set (ms_seen (bo_mesh st')) - set (ms_seen (bo_mesh st)). relearned env targets ke"
    unfolding st' app using new seen_recorded by (metis DiffE boot_state.select_convs(1))
  then show ?thesis unfolding st' app by (simp add: recordAuthenticatedSeen_def Let_def)
qed


lemma targets_run:
  assumes "set ts \<subseteq> set targets"
  shows "ms_heap (bo_mesh (fold (relearn_target env) ts st)) = ms_heap (bo_mesh st)
      \<and> ms_peers (bo_mesh (fold (relearn_target env) ts st)) = ms_peers (bo_mesh st)
      \<and> ms_boot_targets (bo_mesh (fold (relearn_target env) ts st)) = ms_boot_targets (bo_mesh st)
      \<and> (\<forall>ke \<in> set (ms_seen (bo_mesh (fold (relearn_target env) ts st))) - set (ms_seen (bo_mesh st)). relearned env targets ke)"
  using assms
proof (induction ts arbitrary: st)
  case (Cons t ts)
  obtain peerId uri ep fp seen where t: "t = (peerId, uri, ep, fp, seen)" by (cases t)
  let ?mid = "relearn_target env t st"
  have "(peerId, uri, ep, fp, seen) \<in> set targets" using Cons.prems by (simp add: t)
  from target_step [OF this, of ?mid env st] have one:
      "ms_heap (bo_mesh ?mid) = ms_heap (bo_mesh st)" "ms_peers (bo_mesh ?mid) = ms_peers (bo_mesh st)"
      "ms_boot_targets (bo_mesh ?mid) = ms_boot_targets (bo_mesh st)"
      "\<forall>ke \<in> set (ms_seen (bo_mesh ?mid)) - set (ms_seen (bo_mesh st)). relearned env targets ke"
    by (simp_all add: t)
  show ?case using Cons.IH [of ?mid] Cons.prems one by auto
qed simp

text \<open>The pinned dial goes to allowed hosts alone.\<close>

definition same_where_allowed :: "boot_env \<Rightarrow> (string \<Rightarrow> string \<Rightarrow> nat \<Rightarrow> fetched_card option) \<Rightarrow> bool" where
  "same_where_allowed env f \<longleftrightarrow>
     (\<forall>ep host. be_hostname env ep = Some host \<and> isReLearnHostAllowed host (be_cidrs env) \<longrightarrow> f ep = be_fetch env ep)"

lemma target_fetch:
  assumes "same_where_allowed env f"
  shows "relearn_target (env\<lparr>be_fetch := f\<rparr>) t st = relearn_target env t st"
proof -
  obtain peerId uri ep fp seen where t: "t = (peerId, uri, ep, fp, seen)" by (cases t)
  have same: "relearnPeer (d\<lparr>rd_fetch := f\<rparr>) peerId uri ep host = relearnPeer (d\<lparr>rd_fetch := be_fetch env\<rparr>) peerId uri ep host"
    if "rd_host_allowed d host \<longrightarrow> f ep = be_fetch env ep" for d host
    using that by (cases "rd_host_allowed d host") (simp_all add: relearnPeer_def cong: option.case_cong prod.case_cong if_cong)
  show ?thesis
  proof (cases "be_hostname env ep")
    case (Some host)
    have "isReLearnHostAllowed host (be_cidrs env) \<longrightarrow> f ep = be_fetch env ep"
      using assms Some unfolding same_where_allowed_def by blast
    then have "relearnPeer (target_deps env known ok\<lparr>rd_fetch := f\<rparr>) peerId uri ep host
        = relearnPeer (target_deps env known ok\<lparr>rd_fetch := be_fetch env\<rparr>) peerId uri ep host" for known ok
      by (intro same) (simp add: target_deps_def)
    then show ?thesis unfolding t relearn_target_def by (simp add: Some target_deps_def Let_def split: prod.split option.split)
  qed (simp add: t relearn_target_def)
qed

lemma run_fetch: "same_where_allowed env f \<Longrightarrow> runBootReLearn (env\<lparr>be_fetch := f\<rparr>) st = runBootReLearn env st"
  unfolding runBootReLearn_def using target_fetch [of env f] by (intro fold_cong refl) blast

lemma allowed_host: "isReLearnHostAllowed host cidrs \<Longrightarrow> \<not> forbidden_host (bare_host host)"
  by (auto simp: isReLearnHostAllowed_def Let_def split: if_splits)


section \<open>What a flush and a load lose\<close>

lemma set_entries:
  assumes "x \<in> set (fold (\<lambda>l. m_set (cl_peer_id l) l) ls m)" "m_inv m"
  shows "snd x \<in> set ls \<or> x \<in> set m \<and> fst x \<notin> cl_peer_id ` set ls"
  using assms
proof (induction ls arbitrary: m)
  case (Cons l ls)
  have inv: "m_inv (m_set (cl_peer_id l) l m)" using Cons.prems(2) by simp
  from Cons.IH [OF _ inv] Cons.prems(1)
  consider "snd x \<in> set ls" | "x \<in> set (m_set (cl_peer_id l) l m)" "fst x \<notin> cl_peer_id ` set ls" by auto
  then show ?case
  proof cases
    case 2
    then have "m_get (m_set (cl_peer_id l) l m) (fst x) = Some (snd x)"
      using m_get_iff_in_set [OF inv, of "fst x" "snd x"] by simp
    then show ?thesis using 2(2) m_get_iff_in_set [OF Cons.prems(2), of "fst x" "snd x"] by (auto split: if_splits)
  qed simp
qed simp

lemma set_entries_inv: "m_inv m \<Longrightarrow> m_inv (fold (\<lambda>l. m_set (cl_peer_id l) l) ls m)"
  by (induction ls arbitrary: m) auto

lemma set_entries_keyed:
  "\<forall>y \<in> set m. fst y = cl_peer_id (snd y)
    \<Longrightarrow> \<forall>y \<in> set (fold (\<lambda>l. m_set (cl_peer_id l) l) ls m). fst y = cl_peer_id (snd y)"
proof (induction ls arbitrary: m)
  case (Cons l ls)
  have "\<forall>y \<in> set (m_set (cl_peer_id l) l m). fst y = cl_peer_id (snd y)"
    using Cons.prems m_set_entry [of _ "cl_peer_id l" l m] by fastforce
  from Cons.IH [OF this] show ?case by simp
qed simp

lemma merged_locator:
  assumes "x \<in> set (mergeLocators live loaded)"
  shows "x \<in> set live \<or> x \<in> set loaded \<and> cl_peer_id x \<notin> cl_peer_id ` set live"
proof -
  define m where "m = fold (\<lambda>l. m_set (cl_peer_id l) l) loaded ([] :: (string, cache_locator) jsmap)"
  have inv: "m_inv m" unfolding m_def by (rule set_entries_inv) simp
  obtain k where k: "(k, x) \<in> set (fold (\<lambda>l. m_set (cl_peer_id l) l) live m)"
    using assms by (auto simp: mergeLocators_def m_def)
  have keyed: "\<forall>y \<in> set m. fst y = cl_peer_id (snd y)" unfolding m_def by (rule set_entries_keyed) simp
  have "x \<in> set loaded" if "(k, x) \<in> set m"
    using set_entries [of "(k, x)" loaded "[]"] that by (simp add: m_def)
  then show ?thesis using set_entries [OF k inv] keyed by fastforce
qed

lemma odd_fingerprint: "fp = [] \<or> CHR '':'' \<in> set fp \<Longrightarrow> \<not> isPlausibleFingerprint fp"
proof -
  have "\<not> hex_char (CHR '':'')" by (simp add: hex_char_def char_between_def)
  then show "fp = [] \<or> CHR '':'' \<in> set fp \<Longrightarrow> \<not> isPlausibleFingerprint fp"
    by (auto simp: isPlausibleFingerprint_def list_all_iff)
qed

text \<open>Node writes a certificate's \<open>fingerprint256\<close> with colons, and the boot itself records no fingerprint at all. Either way
  the locator that a flush writes for the peer is refused at the next load, and since a seen peer replaces the locator that
  was loaded for it, its good locator is lost as well: only peers that were not seen are restored.\<close>

lemma cache_loses_seen_peers:
  assumes odd: "\<forall>e \<in> set (m_vals (ms_seen m)). se_cert_fingerprint e = [] \<or> CHR '':'' \<in> set (se_cert_fingerprint e)"
    and l: "l \<in> set (parseCache (Some (flushPeerCache m)) now ttl cap)"
  shows "l \<in> of_locator ` set (ms_boot_targets m)"
    and "\<forall>e \<in> set (m_vals (ms_seen m)). spiffeUriToPeerId (se_spiffe_uri e) \<noteq> None \<longrightarrow> se_peer_id e \<noteq> cl_peer_id l"
proof -
  define live where "live = map of_locator (exportSeenLocators m)"
  define loaded where "loaded = map of_locator (ms_boot_targets m)"
  have es: "entries_of (flushPeerCache m) = map locator_json (mergeLocators live loaded)"
    by (simp add: entries_of_def flushPeerCache_def serializeCache_def live_def loaded_def)
  have "set (parseCache (Some (flushPeerCache m)) now ttl cap) \<subseteq> set (loadable now ttl (entries_of (flushPeerCache m)))"
    by (rule loaded_good)
  then have l: "l \<in> set (mergeLocators live loaded)" and ok: "locator_ok l"
    using l unfolding es by (auto simp: loadable_def List.map_filter_def coerce_json split: if_splits)
  have bad: "x \<notin> set live" if "locator_ok x" for x
  proof
    assume "x \<in> set live"
    then obtain e where e: "e \<in> set (m_vals (ms_seen m))"
        and x: "x = of_locator (se_peer_id e, se_spiffe_uri e, se_endpoint e, se_cert_fingerprint e, se_last_seen e)"
      unfolding live_def exportSeenLocators_def set_map set_filter by blast
    have "cl_fingerprint x = se_cert_fingerprint e" by (simp add: x)
    moreover have "\<not> isPlausibleFingerprint (se_cert_fingerprint e)" using odd e odd_fingerprint by blast
    ultimately show False using that unfolding locator_ok_def by simp
  qed
  with merged_locator [OF l] ok have ld: "l \<in> set loaded" "cl_peer_id l \<notin> cl_peer_id ` set live" by blast+
  show "l \<in> of_locator ` set (ms_boot_targets m)" using ld(1) by (simp add: loaded_def)
  have "cl_peer_id ` set live = se_peer_id ` {e \<in> set (m_vals (ms_seen m)). spiffeUriToPeerId (se_spiffe_uri e) \<noteq> None}"
    by (force simp: live_def exportSeenLocators_def)
  then show "\<forall>e \<in> set (m_vals (ms_seen m)). spiffeUriToPeerId (se_spiffe_uri e) \<noteq> None \<longrightarrow> se_peer_id e \<noteq> cl_peer_id l"
    using ld(2) by (metis (mono_tags, lifting) image_eqI mem_Collect_eq)
qed


section \<open>The relearning\<close>

lemma boot_load_keeps:
  "mesh_values (boot_load parsed now m) = mesh_values m" "getPeer uri (boot_load parsed now m) = getPeer uri m"
  "ms_seen (boot_load parsed now m) = ms_seen m"
proof -
  have "peer_at (m\<lparr>ms_boot_targets := ts\<rparr>) = peer_at m" for ts by (simp add: fun_eq_iff peer_at_def)
  then show "mesh_values (boot_load parsed now m) = mesh_values m" "getPeer uri (boot_load parsed now m) = getPeer uri m"
    "ms_seen (boot_load parsed now m) = ms_seen m"
    by (simp_all add: boot_load_def setBootReLearnTargets_def mesh_values_def getPeer_def)
qed

text \<open>C40. Relearning after a restart. What the file holds changes no resolution: loading it only sets the targets. The loop
  leaves the registered peers and the targets as they are, and an entry it adds belongs to a target of the cache whose endpoint
  names an address that may be dialled, and carries the nonempty key of a card that the pinned fetch returned within three
  attempts and that claims the target's own URI. Every dial of the loop is one of a target at its own endpoint, pinned to its
  own URI, whose host may be dialled, with three attempts for each at most; a target is dialled exactly when it is not
  resolvable yet, its host is allowed and the limiter agrees. What other endpoints would answer makes no difference. An address
  that may be dialled is neither loopback nor link-local nor unspecified. One target is recorded exactly when it is not
  resolvable yet, its host is allowed, the limiter agrees, and the first fetch that does not fail returns such a card.\<close>

theorem boot_relearn:
  fixes env st
  defines "final \<equiv> bo_mesh (runBootReLearn env st)"
  shows "resolvePeerPublicKey now uri (boot_load parsed loaded_at m) = resolvePeerPublicKey now uri m
    \<and> (ms_heap final = ms_heap (bo_mesh st) \<and> ms_peers final = ms_peers (bo_mesh st)
        \<and> ms_boot_targets final = ms_boot_targets (bo_mesh st))
    \<and> (\<forall>ke \<in> set (ms_seen final) - set (ms_seen (bo_mesh st)). relearned env (ms_boot_targets (bo_mesh st)) ke)
    \<and> (\<forall>f. same_where_allowed env f \<longrightarrow> runBootReLearn (env\<lparr>be_fetch := f\<rparr>) st = runBootReLearn env st)
    \<and> (\<exists>dials. bo_dials (runBootReLearn env st) = bo_dials st @ dials \<and> length dials \<le> 3 * length (ms_boot_targets (bo_mesh st))
        \<and> (\<forall>dl \<in> set dials. \<exists>t \<in> set (ms_boot_targets (bo_mesh st)). dial_of env t dl))
    \<and> (snd (snd (relearnPeer d peerId uri ep host)) \<noteq> [] \<longleftrightarrow> \<not> rd_resolvable d \<and> rd_host_allowed d host \<and> rd_rate_ok d)
    \<and> (\<forall>h. isReLearnHostAllowed h (be_cidrs env) \<longrightarrow> \<not> forbidden_host (bare_host h))
    \<and> (fst (relearnPeer d peerId uri ep host) = ReRecorded \<longleftrightarrow>
         \<not> rd_resolvable d \<and> rd_host_allowed d host \<and> rd_rate_ok d
         \<and> (\<exists>k < nat (max 1 (default_to 3 (rd_max_attempts d))). \<exists>key. key \<noteq> []
              \<and> rd_fetch d ep uri (1 + k) = Some (Some (Some uri, Some key)) \<and> (\<forall>j < k. rd_fetch d ep uri (1 + j) = None)))"
proof (intro conjI)
  show "resolvePeerPublicKey now uri (boot_load parsed loaded_at m) = resolvePeerPublicKey now uri m"
    unfolding resolvePeerPublicKey_def boot_load_keeps ..
  have run: "ms_heap final = ms_heap (bo_mesh st) \<and> ms_peers final = ms_peers (bo_mesh st)
      \<and> ms_boot_targets final = ms_boot_targets (bo_mesh st)
      \<and> (\<forall>ke \<in> set (ms_seen final) - set (ms_seen (bo_mesh st)). relearned env (ms_boot_targets (bo_mesh st)) ke)"
    unfolding final_def runBootReLearn_def by (rule targets_run) simp
  show "ms_heap final = ms_heap (bo_mesh st)" "ms_peers final = ms_peers (bo_mesh st)"
    "ms_boot_targets final = ms_boot_targets (bo_mesh st)"
    "\<forall>ke \<in> set (ms_seen final) - set (ms_seen (bo_mesh st)). relearned env (ms_boot_targets (bo_mesh st)) ke"
    using run by blast+
  show "\<forall>f. same_where_allowed env f \<longrightarrow> runBootReLearn (env\<lparr>be_fetch := f\<rparr>) st = runBootReLearn env st"
    by (intro allI impI run_fetch)
  show "\<exists>dials. bo_dials (runBootReLearn env st) = bo_dials st @ dials \<and> length dials \<le> 3 * length (ms_boot_targets (bo_mesh st))
      \<and> (\<forall>dl \<in> set dials. \<exists>t \<in> set (ms_boot_targets (bo_mesh st)). dial_of env t dl)"
    unfolding runBootReLearn_def by (rule targets_dials)
  show "snd (snd (relearnPeer d peerId uri ep host)) \<noteq> [] \<longleftrightarrow> \<not> rd_resolvable d \<and> rd_host_allowed d host \<and> rd_rate_ok d"
    using relearn_dials(3) by (metis prod.collapse)
  show "\<forall>h. isReLearnHostAllowed h (be_cidrs env) \<longrightarrow> \<not> forbidden_host (bare_host h)" using allowed_host by blast
  show "fst (relearnPeer d peerId uri ep host) = ReRecorded \<longleftrightarrow>
       \<not> rd_resolvable d \<and> rd_host_allowed d host \<and> rd_rate_ok d
       \<and> (\<exists>k < nat (max 1 (default_to 3 (rd_max_attempts d))). \<exists>key. key \<noteq> []
            \<and> rd_fetch d ep uri (1 + k) = Some (Some (Some uri, Some key)) \<and> (\<forall>j < k. rd_fetch d ep uri (1 + j) = None))"
    unfolding relearn_recorded relearn_cases by blast
qed

text \<open>A start with two targets: one address may be dialled and its card comes with the second attempt, the other target
  names the loopback interface.\<close>

definition demo_boot_env :: boot_env where
  "demo_boot_env = \<lparr>be_hostname = (\<lambda>ep. Some (if ep = ''far'' then ''10.0.0.7'' else ''127.0.0.1'')), be_cidrs = [],
     be_limits = \<lparr>rl_max_tokens = 5, rl_refill_rate = 1\<rparr>, be_now = (\<lambda>_. 7), be_done = (\<lambda>_. 9),
     be_fetch = (\<lambda>ep uri i. if i = 1 then None else Some (Some (Some uri, Some ''PEM'')))\<rparr>"

definition demo_boot :: boot_state where
  "demo_boot = \<lparr>bo_mesh = setBootReLearnTargets [(''a'', ''spiffe://thinklocal/node/a'', ''far'', '''', 5),
       (''b'', ''spiffe://thinklocal/node/b'', ''near'', '''', 5)] (new_MeshManager 3), bo_limiter = [], bo_audit = [], bo_dials = []\<rparr>"

definition demo_far :: string where "demo_far = ''far''"

definition demo_locator :: "time \<Rightarrow> cache_locator" where
  "demo_locator t = \<lparr>cl_peer_id = ''a'', cl_spiffe_uri = ''spiffe://thinklocal/node/a'', cl_endpoint = ''https://10.0.0.7:9440'',
     cl_fingerprint = replicate 64 (CHR ''a''), cl_last_seen = t\<rparr>"

definition demo_second :: cache_locator where
  "demo_second = (demo_locator 8)\<lparr>cl_peer_id := ''b'', cl_spiffe_uri := ''spiffe://thinklocal/node/b''\<rparr>"

lemma demo_endpoint: "isPlausibleEndpoint ''https://10.0.0.7:9440''"
proof -
  have "split_port ''10.0.0.7:9440'' = Some (''10.0.0.7'', ''9440'')" by (simp add: split_port_def)
  moreover have "after_prefix ''https://'' ''https://10.0.0.7:9440'' = Some ''10.0.0.7:9440''" by (simp add: after_prefix_def)
  ultimately show ?thesis
    by (simp add: isPlausibleEndpoint_def digits_upto_def octet_value_def js_space_def char_between_def)
qed

lemma demo_fingerprint: "isPlausibleFingerprint (replicate 64 (CHR ''a''))"
  by (simp add: isPlausibleFingerprint_def list_all_iff hex_char_def char_between_def)

lemma demo_boot_run:
  "ms_seen (bo_mesh (runBootReLearn demo_boot_env demo_boot)) =
     [(''a'', \<lparr>se_peer_id = ''a'', se_public_key = ''PEM'', se_spiffe_uri = ''spiffe://thinklocal/node/a'',
        se_cert_fingerprint = [], se_endpoint = ''far'', se_last_seen = 9\<rparr>)]"
  "ms_seen (bo_mesh demo_boot) = []"
  by code_simp+

theorem boot_relearn_witness:
  "ms_seen (bo_mesh (runBootReLearn (demo_boot_env\<lparr>be_fetch := (\<lambda>ep. if ep = demo_far then be_fetch demo_boot_env ep else (\<lambda>_ _. None))\<rparr>)
      demo_boot)) =
     [(''a'', \<lparr>se_peer_id = ''a'', se_public_key = ''PEM'', se_spiffe_uri = ''spiffe://thinklocal/node/a'',
        se_cert_fingerprint = [], se_endpoint = demo_far, se_last_seen = 9\<rparr>)]"
proof -
  let ?f = "\<lambda>ep. if ep = demo_far then be_fetch demo_boot_env ep else (\<lambda>_ _. None)"
  have local: "\<not> isReLearnHostAllowed ''127.0.0.1'' []" by code_simp
  have "same_where_allowed demo_boot_env ?f"
    using local by (auto simp: same_where_allowed_def demo_boot_env_def demo_far_def)
  then have "runBootReLearn (demo_boot_env\<lparr>be_fetch := ?f\<rparr>) demo_boot = runBootReLearn demo_boot_env demo_boot"
    using boot_relearn [of 0 "[]" None 0 "bo_mesh demo_boot" demo_boot_env demo_boot] by blast
  then show ?thesis using demo_boot_run(1) by (simp only: demo_far_def)
qed

theorem peer_cache_load_witness:
  "parseCache (Some (serializeCache [demo_locator 5, demo_second])) 9 100 1
     = [demo_second]"
proof -
  let ?ls = "[demo_locator 5, demo_second]"
  have "spiffeUriToPeerId ''spiffe://thinklocal/node/b'' = Some ''b''"
    by (simp add: spiffeUriToPeerId_Some alnum_def char_between_def peerIdToSpiffeUri_def TRUST_DOMAIN_def)
  then have "list_all locator_ok ?ls"
    using demo_endpoint demo_id_a by (simp add: locator_ok_def demo_locator_def demo_second_def demo_fingerprint)
  moreover have "list_all (fresh_locator 9 100) ?ls"
    by (simp add: fresh_locator_def demo_locator_def demo_second_def)
  moreover have "distinct (map cl_peer_id ?ls)" by (simp add: demo_locator_def demo_second_def)
  ultimately have "parseCache (Some (serializeCache ?ls)) 9 100 1 = take (nat 1) (sort_key (\<lambda>l. - cl_last_seen l) ?ls)"
    using peer_cache_load [of None 9 100 1 ?ls] by blast
  also have "\<dots> = [demo_second]" by (simp add: demo_locator_def demo_second_def)
  finally show ?thesis .
qed

end
