(* ===== verification/Token_Store.thy ===== *)
theory Token_Store
  imports Prelude
begin

text \<open>
  Onboarding tokens, \<open>packages/daemon/src/token-store.ts\<close>: creation, validation, single use, revocation,
  listing and pruning over the table \<open>onboarding_tokens\<close>.

  The state is the table and the events handed to the audit callback. The hash function (SHA-256) and
  the random values are parameters: \<open>hash\<close>, and the arguments \<open>rnd\<close> and \<open>new_id\<close> of \<open>createToken\<close>. An insert
  that violates the primary key or the unique hash throws and leaves the table alone. \<open>now\<close> is the
  current time; a TTL is a whole number of milliseconds. Rows with equal creation time come in an
  unspecified order from SQLite and in table order here.
\<close>

section \<open>Data\<close>

definition TOKEN_PREFIX :: string where "TOKEN_PREFIX = ''tlmcp_''"
definition MAX_TTL_MS :: int where "MAX_TTL_MS = 7 * 24 * 60 * 60 * 1000"
definition DEFAULT_TTL_MS :: int where "DEFAULT_TTL_MS = 24 * 60 * 60 * 1000"
definition MIN_TTL_MS :: int where "MIN_TTL_MS = 5 * 60 * 1000"

record onboarding_token =
  ot_id :: string
  ot_name :: string
  ot_hash :: string
  ot_created_at :: time
  ot_expires_at :: time
  ot_used_at :: "time option"
  ot_used_by :: "string option"
  ot_revoked_at :: "time option"
  ot_created_by :: string

datatype token_reason = NotFound | Expired | AlreadyUsed | Revoked

datatype token_validation = ValidToken string string | InvalidToken token_reason

datatype token_audit =
    TokenCreate string
  | TokenValidate string
  | TokenValidateFail "string option" token_reason
  | TokenUsed string string
  | TokenRevoke string

record token_store =
  ts_rows :: "onboarding_token list"
  ts_audit :: "token_audit list"

datatype token_error =
    EmptyName | NameTooLong | TtlTooShort | TtlTooLong | ConstraintViolation
  | TokenNotFound | TokenAlreadyUsed

record token_create_result =
  tc_token :: string
  tc_id :: string
  tc_name :: string
  tc_expires_at :: time

section \<open>Operations\<close>

definition new_TokenStore :: token_store where
  "new_TokenStore = \<lparr>ts_rows = [], ts_audit = []\<rparr>"

definition audit_token :: "token_audit \<Rightarrow> token_store \<Rightarrow> token_store" where
  "audit_token e s = s\<lparr>ts_audit := ts_audit s @ [e]\<rparr>"

definition insert_token :: "onboarding_token \<Rightarrow> onboarding_token list \<Rightarrow> onboarding_token list option" where
  "insert_token r rows =
     (if ot_id r \<in> ot_id ` set rows \<or> ot_hash r \<in> ot_hash ` set rows then None else Some (rows @ [r]))"

definition createToken ::
  "(string \<Rightarrow> string) \<Rightarrow> string \<Rightarrow> string \<Rightarrow> time \<Rightarrow> string \<Rightarrow> string \<Rightarrow> int option \<Rightarrow> token_store \<Rightarrow>
   (token_error + token_create_result) \<times> token_store" where
  "createToken hash rnd new_id now name createdBy ttl s =
     (let ttlMs = default_to DEFAULT_TTL_MS ttl in
      if name = [] \<or> blank name then (Inl EmptyName, s)
      else if 64 < length name then (Inl NameTooLong, s)
      else if ttlMs < MIN_TTL_MS then (Inl TtlTooShort, s)
      else if MAX_TTL_MS < ttlMs then (Inl TtlTooLong, s)
      else
        let rawToken = TOKEN_PREFIX @ rnd;
            row = \<lparr>ot_id = new_id, ot_name = js_trim name, ot_hash = hash rawToken, ot_created_at = now,
                   ot_expires_at = now + ttlMs, ot_used_at = None, ot_used_by = None,
                   ot_revoked_at = None, ot_created_by = createdBy\<rparr>
        in case insert_token row (ts_rows s) of
             None \<Rightarrow> (Inl ConstraintViolation, s)
           | Some rows \<Rightarrow>
               (Inr \<lparr>tc_token = rawToken, tc_id = new_id, tc_name = js_trim name, tc_expires_at = now + ttlMs\<rparr>,
                audit_token (TokenCreate new_id) (s\<lparr>ts_rows := rows\<rparr>)))"

definition validateToken ::
  "(string \<Rightarrow> string) \<Rightarrow> time \<Rightarrow> string \<Rightarrow> token_store \<Rightarrow> token_validation \<times> token_store" where
  "validateToken hash now rawToken s =
     (if rawToken = [] \<or> \<not> prefix TOKEN_PREFIX rawToken then (InvalidToken NotFound, s)
      else case List.find (\<lambda>r. ot_hash r = hash rawToken) (ts_rows s) of
        None \<Rightarrow> (InvalidToken NotFound, audit_token (TokenValidateFail None NotFound) s)
      | Some row \<Rightarrow>
          if ot_revoked_at row \<noteq> None then
            (InvalidToken Revoked, audit_token (TokenValidateFail (Some (ot_id row)) Revoked) s)
          else if ot_used_at row \<noteq> None then
            (InvalidToken AlreadyUsed, audit_token (TokenValidateFail (Some (ot_id row)) AlreadyUsed) s)
          else if ot_expires_at row < now then
            (InvalidToken Expired, audit_token (TokenValidateFail (Some (ot_id row)) Expired) s)
          else (ValidToken (ot_id row) (ot_name row), audit_token (TokenValidate (ot_id row)) s))"

definition markUsed :: "time \<Rightarrow> string \<Rightarrow> string \<Rightarrow> token_store \<Rightarrow> (token_error + unit) \<times> token_store" where
  "markUsed now tokenId usedBy s =
     (case List.find (\<lambda>r. ot_id r = tokenId) (ts_rows s) of
        None \<Rightarrow> (Inl TokenNotFound, s)
      | Some row \<Rightarrow>
          if ot_used_at row \<noteq> None then (Inl TokenAlreadyUsed, s)
          else (Inr (), audit_token (TokenUsed tokenId usedBy)
            (s\<lparr>ts_rows := t_update (\<lambda>r. ot_id r = tokenId)
               (\<lambda>r. r\<lparr>ot_used_at := Some now, ot_used_by := Some usedBy\<rparr>) (ts_rows s)\<rparr>)))"

definition revokeToken :: "time \<Rightarrow> string \<Rightarrow> token_store \<Rightarrow> bool \<times> token_store" where
  "revokeToken now tokenId s =
     (case List.find (\<lambda>r. ot_id r = tokenId) (ts_rows s) of
        None \<Rightarrow> (False, s)
      | Some row \<Rightarrow>
          if ot_revoked_at row \<noteq> None \<or> ot_used_at row \<noteq> None then (False, s)
          else (True, audit_token (TokenRevoke tokenId)
            (s\<lparr>ts_rows := t_update (\<lambda>r. ot_id r = tokenId)
               (\<lambda>r. r\<lparr>ot_revoked_at := Some now\<rparr>) (ts_rows s)\<rparr>)))"

definition listAllTokens :: "token_store \<Rightarrow> onboarding_token list" where
  "listAllTokens s = sort_key (\<lambda>r. - ot_created_at r) (ts_rows s)"

definition listActiveTokens :: "time \<Rightarrow> token_store \<Rightarrow> onboarding_token list" where
  "listActiveTokens now s = sort_key (\<lambda>r. - ot_created_at r)
     (filter (\<lambda>r. ot_used_at r = None \<and> ot_revoked_at r = None \<and> now < ot_expires_at r) (ts_rows s))"

definition prunable :: "time \<Rightarrow> onboarding_token \<Rightarrow> bool" where
  "prunable now r \<longleftrightarrow> ot_expires_at r < now \<and> ot_used_at r \<noteq> None"

definition pruneExpired :: "time \<Rightarrow> token_store \<Rightarrow> nat \<times> token_store" where
  "pruneExpired now s =
     (t_changes (prunable now) (ts_rows s), s\<lparr>ts_rows := t_delete (prunable now) (ts_rows s)\<rparr>)"

definition getToken :: "string \<Rightarrow> token_store \<Rightarrow> onboarding_token option" where
  "getToken tokenId s = List.find (\<lambda>r. ot_id r = tokenId) (ts_rows s)"

section \<open>Runs\<close>

text \<open>The calls a store receives, with the values the environment supplies.\<close>

datatype token_op =
    OpCreate string string time string string "int option"
  | OpValidate time string
  | OpMarkUsed time string string
  | OpRevoke time string
  | OpPrune time

fun token_step :: "(string \<Rightarrow> string) \<Rightarrow> token_op \<Rightarrow> token_store \<Rightarrow> token_store" where
  "token_step hash (OpCreate rnd i now name who ttl) s = snd (createToken hash rnd i now name who ttl s)"
| "token_step hash (OpValidate now t) s = snd (validateToken hash now t s)"
| "token_step hash (OpMarkUsed now i who) s = snd (markUsed now i who s)"
| "token_step hash (OpRevoke now i) s = snd (revokeToken now i s)"
| "token_step hash (OpPrune now) s = snd (pruneExpired now s)"

definition token_run :: "(string \<Rightarrow> string) \<Rightarrow> token_op list \<Rightarrow> token_store \<Rightarrow> token_store" where
  "token_run hash ops s = fold (token_step hash) ops s"

section \<open>The invariant\<close>

definition token_inv :: "token_store \<Rightarrow> bool" where
  "token_inv s \<longleftrightarrow> t_unique ot_id (ts_rows s) \<and> t_unique ot_hash (ts_rows s)
     \<and> (\<forall>r \<in> set (ts_rows s). ot_created_at r + MIN_TTL_MS \<le> ot_expires_at r
          \<and> ot_expires_at r \<le> ot_created_at r + MAX_TTL_MS
          \<and> ot_name r \<noteq> [] \<and> length (ot_name r) \<le> 64)"

lemma audit_rows [simp]: "ts_rows (audit_token e s) = ts_rows s"
  by (simp add: audit_token_def)

lemma rows_validate [simp]: "ts_rows (snd (validateToken hash now t s)) = ts_rows s"
  by (simp add: validateToken_def split: option.splits)

lemma length_js_trim: "length (js_trim s) \<le> length s"
  unfolding js_trim_def length_rev
  by (rule le_trans [OF length_dropWhile_le]) (simp add: length_dropWhile_le)

lemma token_inv_update:
  assumes "token_inv s" and "\<And>r. ot_id (f r) = ot_id r \<and> ot_hash (f r) = ot_hash r \<and> ot_name (f r) = ot_name r
    \<and> ot_created_at (f r) = ot_created_at r \<and> ot_expires_at (f r) = ot_expires_at r"
  shows "token_inv (s\<lparr>ts_rows := t_update p f (ts_rows s)\<rparr>)"
  using assms by (auto simp: token_inv_def t_unique_def t_update_keys) (auto simp: t_update_def)

lemma token_inv_audit [simp]: "token_inv (audit_token e s) = token_inv s"
  by (simp add: token_inv_def)

lemma token_inv_step: "token_inv s \<Longrightarrow> token_inv (token_step hash op s)"
proof (induction hash op s rule: token_step.induct)
  case (1 hash rnd i now name who ttl s)
  then show ?case
    using length_js_trim [of name]
    by (auto simp: createToken_def insert_token_def Let_def token_inv_def t_unique_append1 blank_def
          simp del: length_0_conv intro: le_trans split: option.splits)
next
  case (2 hash now t s)
  then show ?case by (simp add: token_inv_def)
next
  case (3 hash now i who s)
  then show ?case by (auto simp: markUsed_def intro!: token_inv_update split: option.splits)
next
  case (4 hash now i s)
  then show ?case by (auto simp: revokeToken_def intro!: token_inv_update split: option.splits)
next
  case (5 hash now s)
  then show ?case
    by (auto simp: pruneExpired_def token_inv_def t_unique_delete) (auto simp: t_delete_def)
qed

lemma token_run_simps [simp]:
  "token_run hash [] s = s" "token_run hash (op # ops) s = token_run hash ops (token_step hash op s)"
  by (simp_all add: token_run_def)

lemma token_inv_run: "token_inv s \<Longrightarrow> token_inv (token_run hash ops s)"
  by (induction ops arbitrary: s) (auto intro: token_inv_step)

lemma token_inv_new [simp]: "token_inv new_TokenStore"
  by (simp add: new_TokenStore_def token_inv_def)

section \<open>Validity\<close>

text \<open>What a successful mark does to the table.\<close>

lemma markUsed_Inr:
  assumes "fst (markUsed now i who s) = Inr ()"
  shows "\<exists>row. List.find (\<lambda>r. ot_id r = i) (ts_rows s) = Some row \<and> ot_used_at row = None"
    and "ts_rows (snd (markUsed now i who s)) = t_update (\<lambda>r. ot_id r = i)
       (\<lambda>r. r\<lparr>ot_used_at := Some now, ot_used_by := Some who\<rparr>) (ts_rows s)"
  using assms by (auto simp: markUsed_def split: option.splits if_splits)

lemma validateToken_iff:
  assumes "t_unique ot_hash (ts_rows s)"
  shows "fst (validateToken hash now t s) = ValidToken i n \<longleftrightarrow>
    prefix TOKEN_PREFIX t \<and> (\<exists>r \<in> set (ts_rows s). ot_hash r = hash t \<and> ot_id r = i \<and> ot_name r = n
      \<and> ot_used_at r = None \<and> ot_revoked_at r = None \<and> now \<le> ot_expires_at r)"
proof (cases "List.find (\<lambda>r. ot_hash r = hash t) (ts_rows s)")
  case None
  then have "\<forall>r \<in> set (ts_rows s). ot_hash r \<noteq> hash t" by (simp add: find_None_iff)
  with None show ?thesis by (auto simp: validateToken_def)
next
  case (Some r)
  have "TOKEN_PREFIX \<noteq> []" by (simp add: TOKEN_PREFIX_def)
  then have "fst (validateToken hash now t s) = ValidToken i n \<longleftrightarrow> prefix TOKEN_PREFIX t
      \<and> ot_id r = i \<and> ot_name r = n \<and> ot_used_at r = None \<and> ot_revoked_at r = None \<and> now \<le> ot_expires_at r"
    using Some by (auto simp: validateToken_def)
  moreover have "(\<exists>r' \<in> set (ts_rows s). ot_hash r' = hash t \<and> q r') \<longleftrightarrow> q r" for q
    using find_key_unique [OF assms, of "hash t"] Some by (metis option.inject)
  ultimately show ?thesis by simp
qed

text \<open>A hash is spent when every row under it is used or revoked.\<close>

definition spent :: "string \<Rightarrow> token_store \<Rightarrow> bool" where
  "spent h s \<longleftrightarrow> (\<forall>r \<in> set (ts_rows s). ot_hash r = h \<longrightarrow> ot_used_at r \<noteq> None \<or> ot_revoked_at r \<noteq> None)"

fun creates_hash :: "(string \<Rightarrow> string) \<Rightarrow> string \<Rightarrow> token_op \<Rightarrow> bool" where
  "creates_hash hash h (OpCreate rnd _ _ _ _ _) \<longleftrightarrow> hash (TOKEN_PREFIX @ rnd) = h"
| "creates_hash hash h _ \<longleftrightarrow> False"

lemma spent_update:
  assumes "spent h s" and "\<And>r. ot_hash (f r) = ot_hash r \<and> (ot_used_at r \<noteq> None \<longrightarrow> ot_used_at (f r) \<noteq> None)
    \<and> (ot_revoked_at r \<noteq> None \<longrightarrow> ot_revoked_at (f r) \<noteq> None)"
  shows "spent h (s\<lparr>ts_rows := t_update p f (ts_rows s)\<rparr>)"
  using assms unfolding spent_def t_update_def by fastforce

lemma spent_audit [simp]: "spent h (audit_token e s) = spent h s"
  by (simp add: spent_def)

lemma spent_step: "spent h s \<Longrightarrow> \<not> creates_hash hash h op \<Longrightarrow> spent h (token_step hash op s)"
proof (induction hash op s rule: token_step.induct)
  case (1 hash rnd i now name who ttl s)
  then show ?case
    by (auto simp: createToken_def insert_token_def Let_def spent_def split: option.splits)
next
  case (3 hash now i who s)
  then show ?case by (auto simp: markUsed_def intro!: spent_update split: option.splits)
next
  case (4 hash now i s)
  then show ?case by (auto simp: revokeToken_def intro!: spent_update split: option.splits)
next
  case (5 hash now s)
  then show ?case by (auto simp: pruneExpired_def spent_def t_delete_def)
qed (simp add: spent_def)

lemma spent_run:
  "spent h s \<Longrightarrow> \<forall>op \<in> set ops. \<not> creates_hash hash h op \<Longrightarrow> spent h (token_run hash ops s)"
  by (induction ops arbitrary: s) (auto intro: spent_step)

lemma spent_invalid: "spent (hash t) s \<Longrightarrow> fst (validateToken hash now t s) \<noteq> ValidToken i n"
  by (auto simp: validateToken_def spent_def dest!: find_SomeD split: option.splits)

lemma markUsed_spends:
  assumes "token_inv s" and "fst (validateToken hash now t s) = ValidToken i n"
    and "fst (markUsed now' i who s) = Inr ()"
  shows "spent (hash t) (snd (markUsed now' i who s))"
proof -
  obtain r where r: "r \<in> set (ts_rows s)" "ot_hash r = hash t" "ot_id r = i"
    using assms(1,2) by (auto simp: validateToken_iff token_inv_def)
  have "ot_id r' = i" if "r' \<in> set (ts_rows s)" "ot_hash r' = hash t" for r'
  proof -
    have "t_unique ot_hash (ts_rows s)" using assms(1) by (simp add: token_inv_def)
    then show ?thesis using that r by (auto simp: t_unique_def distinct_map inj_on_def)
  qed
  note same = this
  show ?thesis
    unfolding spent_def markUsed_Inr(2) [OF assms(3)]
  proof (intro ballI impI)
    fix r' assume "r' \<in> set (t_update (\<lambda>r. ot_id r = i)
      (\<lambda>r. r\<lparr>ot_used_at := Some now', ot_used_by := Some who\<rparr>) (ts_rows s))" and h: "ot_hash r' = hash t"
    then obtain r0 where r0: "r0 \<in> set (ts_rows s)"
      and r': "r' = (if ot_id r0 = i then r0\<lparr>ot_used_at := Some now', ot_used_by := Some who\<rparr> else r0)"
      by (auto simp: t_update_def)
    then have "ot_id r0 = i" using same [OF r0] h by (cases "ot_id r0 = i") simp_all
    with r' show "ot_used_at r' \<noteq> None \<or> ot_revoked_at r' \<noteq> None" by simp
  qed
qed

section \<open>Properties\<close>

text \<open>
  Validity of a token, in every store the operations can produce: ids and hashes are unique and every
  lifetime lies between five minutes and seven days, and a raw token validates exactly when it has the
  token prefix and its row is neither used nor revoked nor expired; the answer names that row.
\<close>

theorem token_validity:
  "token_inv (token_run hash ops new_TokenStore)
   \<and> (fst (validateToken hash now t (token_run hash ops new_TokenStore)) = ValidToken i n \<longleftrightarrow>
        prefix TOKEN_PREFIX t \<and> (\<exists>r \<in> set (ts_rows (token_run hash ops new_TokenStore)).
          ot_hash r = hash t \<and> ot_id r = i \<and> ot_name r = n \<and> ot_used_at r = None
          \<and> ot_revoked_at r = None \<and> now \<le> ot_expires_at r))"
proof -
  have inv: "token_inv (token_run hash ops new_TokenStore)" by (rule token_inv_run) simp
  then have "t_unique ot_hash (ts_rows (token_run hash ops new_TokenStore))" by (simp add: token_inv_def)
  from inv validateToken_iff [OF this] show ?thesis by blast
qed

text \<open>
  C8. Single use: once a token that validated has been marked as used, it never validates again, whatever
  is called afterwards and at whatever time, pruning and revocation included, as long as no token with the
  same hash is created; a second mark fails without effect.
\<close>

theorem token_single_use:
  assumes "token_inv s" and "fst (validateToken hash now t s) = ValidToken i n"
    and "markUsed now' i who s = (Inr (), s')"
    and "\<forall>op \<in> set ops. \<not> creates_hash hash (hash t) op"
  shows "fst (validateToken hash now'' t (token_run hash ops s')) \<noteq> ValidToken i' n'
    \<and> markUsed now'' i who' s' = (Inl TokenAlreadyUsed, s')"
proof (rule conjI)
  have "spent (hash t) s'" using markUsed_spends [OF assms(1,2)] assms(3) by (metis fst_conv snd_conv)
  then show "fst (validateToken hash now'' t (token_run hash ops s')) \<noteq> ValidToken i' n'"
    by (rule spent_invalid [OF spent_run]) (rule assms(4))
  show "markUsed now'' i who' s' = (Inl TokenAlreadyUsed, s')"
  proof -
    have marked: "fst (markUsed now' i who s) = Inr ()" "s' = snd (markUsed now' i who s)"
      using assms(3) by auto
    obtain row where row: "List.find (\<lambda>r. ot_id r = i) (ts_rows s) = Some row"
      using markUsed_Inr(1) [OF marked(1)] by auto
    note rows = markUsed_Inr(2) [OF marked(1), folded marked(2)]
    have "List.find (\<lambda>r. ot_id r = i) (ts_rows s') = Some (row\<lparr>ot_used_at := Some now', ot_used_by := Some who\<rparr>)"
      using row find_SomeD [OF row] unfolding rows by (subst find_key_update) simp_all
    then show ?thesis by (simp add: markUsed_def)
  qed
qed

text \<open>A store with one token, validated and used.\<close>

definition sample_store :: token_store where
  "sample_store = snd (createToken (\<lambda>s. s) ''abc'' ''id1'' 0 '' node '' ''admin'' None new_TokenStore)"

theorem token_single_use_witness:
  "fst (validateToken (\<lambda>s. s) 5 ''tlmcp_abc'' sample_store) = ValidToken ''id1'' ''node''
   \<and> fst (validateToken (\<lambda>s. s) 9 ''tlmcp_abc''
        (token_run (\<lambda>s. s) [OpRevoke 8 ''id1''] (snd (markUsed 7 ''id1'' ''b'' sample_store)))) \<noteq> ValidToken ''id1'' ''node''"
proof -
  have store: "sample_store = token_run (\<lambda>s. s) [OpCreate ''abc'' ''id1'' 0 '' node '' ''admin'' None] new_TokenStore"
    by (simp add: sample_store_def)
  have inv: "token_inv sample_store" unfolding store by (rule token_inv_run) simp
  have valid: "fst (validateToken (\<lambda>s. s) 5 ''tlmcp_abc'' sample_store) = ValidToken ''id1'' ''node''"
    by code_simp
  have "markUsed 7 ''id1'' ''b'' sample_store = (Inr (), snd (markUsed 7 ''id1'' ''b'' sample_store))"
    by code_simp
  from token_single_use [OF inv valid this, of "[OpRevoke 8 ''id1'']"] valid show ?thesis by simp
qed

end
