(* ===== verification/Onboarding.thy ===== *)
theory Onboarding
  imports Token_Store Pairing Rate_Limit
begin

text \<open>
  Onboarding of a node by a token: the routes of \<open>token-api.ts\<close> over the token store, the pairing store and the rate
  limiter, and the trust bundle of \<open>trust-store.ts\<close>. The generation of a certificate, the X.509 parser, SHA-256 and the
  collation of agent ids are arguments (\<open>onboarding_env\<close>), and so is whether the file of the pairing store can be
  written. The fields \<open>hostname\<close>, \<open>agent_id\<close> and \<open>public_key_pem\<close> of a join are texts or missing.
\<close>

section \<open>The trust bundle\<close>

definition bundle_step ::
  "(string \<Rightarrow> string option) \<Rightarrow> paired_peer \<Rightarrow> string list \<times> string list \<Rightarrow> string list \<times> string list" where
  "bundle_step fingerprint peer acc =
     (case acc of (bundle, fps) \<Rightarrow>
        if pd_ca_cert peer = [] then (bundle, fps)
        else case fingerprint (pd_ca_cert peer) of
          None \<Rightarrow> (bundle, fps)
        | Some fp \<Rightarrow> if fp \<in> set fps then (bundle, fps) else (bundle @ [pd_ca_cert peer], fps @ [fp]))"

definition buildTrustedCaBundle ::
  "(string \<Rightarrow> string option) \<Rightarrow> (paired_peer list \<Rightarrow> paired_peer list) \<Rightarrow> string \<Rightarrow> pairing_store option \<Rightarrow> string list" where
  "buildTrustedCaBundle fingerprint sort_peers ownCaCertPem store =
     (let start = (case fingerprint ownCaCertPem of None \<Rightarrow> ([], []) | Some fp \<Rightarrow> ([ownCaCertPem], [fp]))
      in fst (fold (bundle_step fingerprint) (case store of None \<Rightarrow> [] | Some st \<Rightarrow> sort_peers (m_vals st)) start))"

section \<open>State, requests and answers\<close>

datatype api_audit =
    AuditTokenCreate string
  | AuditTokenRevoke string
  | AuditJoinRejected string token_reason
  | AuditJoinSuccess string string

record onboarding =
  ob_tokens :: token_store
  ob_pairings :: pairing_store
  ob_limiter :: rate_limiter
  ob_audit :: "api_audit list"

record onboarding_env =
  on_hash :: "string \<Rightarrow> string"
  on_own_agent :: string
  on_ca :: "string option"
  on_create_cert :: "string \<Rightarrow> string \<Rightarrow> string \<Rightarrow> string list \<Rightarrow> string + string \<times> string"
  on_fingerprint :: "string \<Rightarrow> string option"
  on_sort :: "paired_peer list \<Rightarrow> paired_peer list"
  on_notifier :: "string option"
  on_limits :: "rate_config option"

datatype api_error =
    LoopbackOnly
  | NameRequired
  | NameTooLongForApi
  | TtlOutOfRange
  | IdRequired
  | TokenNotRevocable
  | BearerMissing
  | TooManyJoins
  | TokenRejected token_reason
  | HostAndAgentRequired
  | InvalidHostname
  | InvalidAgentId
  | NotAnAdminNode
  | CertificateFailed
  | ThrownByStore token_error

datatype ttl_field = TtlMissing | TtlHours rat | TtlNoNumber

record create_body =
  cb_name :: json
  cb_ttl :: ttl_field

record join_body =
  jb_hostname :: "string option"
  jb_agent_id :: "string option"
  jb_public_key :: "string option"

record join_answer =
  ja_cert :: string
  ja_key :: string
  ja_ca :: string
  ja_bundle :: "string list"
  ja_peers :: "(string \<times> string \<times> string) list"
  ja_admin :: string

section \<open>Routes for the administrator\<close>

definition requireLocal :: "string \<Rightarrow> bool" where
  "requireLocal ip \<longleftrightarrow> ip = ''127.0.0.1'' \<or> ip = ''::1'' \<or> ip = ''::ffff:127.0.0.1''"

definition ttl_ms :: "rat \<Rightarrow> int" where
  "ttl_ms hours = \<lfloor>hours * 60 * 60 * 1000 + 1 / 2\<rfloor>"

definition create_now :: "onboarding_env \<Rightarrow> string \<Rightarrow> string \<Rightarrow> time \<Rightarrow> string \<Rightarrow> int \<Rightarrow> onboarding \<Rightarrow>
   (api_error + token_create_result) \<times> onboarding" where
  "create_now env rnd new_id now name ttlMs s =
     (case createToken (on_hash env) rnd new_id now name (on_own_agent env) (Some ttlMs) (ob_tokens s) of
        (Inl e, ts) \<Rightarrow> (Inl (ThrownByStore e), s\<lparr>ob_tokens := ts\<rparr>)
      | (Inr r, ts) \<Rightarrow> (Inr r, s\<lparr>ob_tokens := ts, ob_audit := ob_audit s @ [AuditTokenCreate (tc_id r)]\<rparr>))"

definition handle_token_create ::
  "onboarding_env \<Rightarrow> string \<Rightarrow> string \<Rightarrow> time \<Rightarrow> string \<Rightarrow> create_body option \<Rightarrow> onboarding \<Rightarrow>
   (api_error + token_create_result) \<times> onboarding" where
  "handle_token_create env rnd new_id now ip body s =
     (if \<not> requireLocal ip then (Inl LoopbackOnly, s)
      else case body of
        None \<Rightarrow> (Inl NameRequired, s)
      | Some b \<Rightarrow>
          (case as_str (cb_name b) of
             None \<Rightarrow> (Inl NameRequired, s)
           | Some given \<Rightarrow>
               if blank given then (Inl NameRequired, s)
               else if 64 < length (js_trim given) then (Inl NameTooLongForApi, s)
               else case (case cb_ttl b of TtlMissing \<Rightarrow> Some 24 | TtlHours h \<Rightarrow> Some h | TtlNoNumber \<Rightarrow> None) of
                 None \<Rightarrow> (Inl TtlOutOfRange, s)
               | Some hours \<Rightarrow>
                   if hours < 83 / 1000 \<or> 168 < hours then (Inl TtlOutOfRange, s)
                   else create_now env rnd new_id now (js_trim given) (ttl_ms hours) s))"

definition handle_token_list :: "string \<Rightarrow> onboarding \<Rightarrow> api_error + onboarding_token list" where
  "handle_token_list ip s = (if \<not> requireLocal ip then Inl LoopbackOnly else Inr (listAllTokens (ob_tokens s)))"

definition handle_token_revoke ::
  "time \<Rightarrow> string \<Rightarrow> json \<Rightarrow> onboarding \<Rightarrow> (api_error + string) \<times> onboarding" where
  "handle_token_revoke now ip given s =
     (if \<not> requireLocal ip then (Inl LoopbackOnly, s)
      else case as_str given of
        None \<Rightarrow> (Inl IdRequired, s)
      | Some i \<Rightarrow>
          if i = [] then (Inl IdRequired, s)
          else case revokeToken now i (ob_tokens s) of
            (False, ts) \<Rightarrow> (Inl TokenNotRevocable, s\<lparr>ob_tokens := ts\<rparr>)
          | (True, ts) \<Rightarrow> (Inr i, s\<lparr>ob_tokens := ts, ob_audit := ob_audit s @ [AuditTokenRevoke i]\<rparr>))"

section \<open>Joining\<close>

text \<open>The two regular expressions, by their segments.\<close>

definition hostname_ok :: "string \<Rightarrow> bool" where
  "hostname_ok h \<longleftrightarrow> h \<noteq> [] \<and> alnum (hd h) \<and> alnum (List.last h) \<and> list_all component_char h \<and> length h \<le> 63"

definition join_uri_ok :: "string \<Rightarrow> bool" where
  "join_uri_ok uri =
     (case after_prefix ''spiffe://'' uri of
        None \<Rightarrow> False
      | Some rest \<Rightarrow>
          (case js_split CHR ''/'' rest of
             [d, h, n, a, t] \<Rightarrow> d \<noteq> [] \<and> list_all (\<lambda>c. alnum c \<or> c \<in> set ''.-'') d \<and> h = ''host'' \<and> SPIFFE_COMPONENT_REGEX n
                \<and> a = ''agent'' \<and> SPIFFE_COMPONENT_REGEX t
           | _ \<Rightarrow> False))"

definition bearer :: "string option \<Rightarrow> string option" where
  "bearer header = (case header of None \<Rightarrow> None | Some h \<Rightarrow> map_option js_trim (after_prefix ''Bearer '' h))"

text \<open>The part that runs once the token is spent. \<open>savable\<close>: the file of the pairing store can be written.\<close>

definition admit_node ::
  "onboarding_env \<Rightarrow> time \<Rightarrow> bool \<Rightarrow> string \<Rightarrow> string \<Rightarrow> string \<Rightarrow> string \<Rightarrow> string option \<Rightarrow> string \<Rightarrow> onboarding \<Rightarrow>
   (api_error + join_answer) \<times> onboarding" where
  "admit_node env now savable ip ca hostname agent key tokenId s =
     (case on_create_cert env ca hostname agent (filter (\<lambda>i. i \<noteq> ''127.0.0.1'' \<and> i \<noteq> ''::1'') [ip]) of
        Inl _ \<Rightarrow> (Inl CertificateFailed, s)
      | Inr (cert, nodeKey) \<Rightarrow>
          let newPeer = \<lparr>pd_agent_id = agent, pd_public_key = default_to [] key, pd_ca_cert = ca, pd_fingerprint = [],
                         pd_paired_at = now, pd_hostname = hostname\<rparr>;
              s' = s\<lparr>ob_pairings := addPeer newPeer (ob_pairings s)\<rparr>
          in if \<not> savable then (Inl CertificateFailed, s')
             else (Inr \<lparr>ja_cert = cert, ja_key = nodeKey, ja_ca = ca,
                     ja_bundle = (case on_notifier env of
                        None \<Rightarrow> [ca]
                      | Some own \<Rightarrow> buildTrustedCaBundle (on_fingerprint env) (on_sort env) own (Some (ob_pairings s'))),
                     ja_peers = map (\<lambda>p. (pd_agent_id p, pd_ca_cert p, pd_hostname p))
                        (filter (\<lambda>p. pd_agent_id p \<noteq> agent) (m_vals (ob_pairings s'))),
                     ja_admin = on_own_agent env\<rparr>,
                   s'\<lparr>ob_audit := ob_audit s' @ [AuditJoinSuccess agent tokenId]\<rparr>))"

definition join_gate :: "onboarding_env \<Rightarrow> time \<Rightarrow> string \<Rightarrow> onboarding \<Rightarrow> bool \<times> onboarding" where
  "join_gate env now ip s =
     (case on_limits env of
        None \<Rightarrow> (True, s)
      | Some cfg \<Rightarrow> (case Rate_Limit.allow cfg now (''onboarding:'' @ ip) (ob_limiter s) of (ok, rl) \<Rightarrow> (ok, s\<lparr>ob_limiter := rl\<rparr>)))"

definition handle_join ::
  "onboarding_env \<Rightarrow> time \<Rightarrow> bool \<Rightarrow> string \<Rightarrow> string option \<Rightarrow> join_body option \<Rightarrow> onboarding \<Rightarrow>
   (api_error + join_answer) \<times> onboarding" where
  "handle_join env now savable ip header body s0 =
     (case bearer header of
        None \<Rightarrow> (Inl BearerMissing, s0)
      | Some rawToken \<Rightarrow>
          (case join_gate env now ip s0 of
             (False, s) \<Rightarrow> (Inl TooManyJoins, s)
           | (True, s1) \<Rightarrow>
               (case validateToken (on_hash env) now rawToken (ob_tokens s1) of
                  (InvalidToken reason, ts) \<Rightarrow>
                    (Inl (TokenRejected reason), s1\<lparr>ob_tokens := ts, ob_audit := ob_audit s1 @ [AuditJoinRejected ip reason]\<rparr>)
                | (ValidToken tokenId _, ts) \<Rightarrow>
                    let s = s1\<lparr>ob_tokens := ts\<rparr> in
                    (case body of
                       None \<Rightarrow> (Inl HostAndAgentRequired, s)
                     | Some b \<Rightarrow>
                         (case (truthy (jb_hostname b), truthy (jb_agent_id b)) of
                            (Some hostname, Some agent) \<Rightarrow>
                              if \<not> hostname_ok hostname then (Inl InvalidHostname, s)
                              else if \<not> join_uri_ok agent then (Inl InvalidAgentId, s)
                              else (case on_ca env of
                                 None \<Rightarrow> (Inl NotAnAdminNode, s)
                               | Some ca \<Rightarrow>
                                   (case markUsed now tokenId agent (ob_tokens s) of
                                      (Inl e, ts') \<Rightarrow> (Inl (ThrownByStore e), s\<lparr>ob_tokens := ts'\<rparr>)
                                    | (Inr _, ts') \<Rightarrow>
                                        admit_node env now savable ip ca hostname agent (jb_public_key b) tokenId (s\<lparr>ob_tokens := ts'\<rparr>)))
                          | _ \<Rightarrow> (Inl HostAndAgentRequired, s))))))"

section \<open>Runs\<close>

datatype onboarding_op =
    DoCreate string string time string "create_body option"
  | DoRevoke time string json
  | DoJoin time bool string "string option" "join_body option"

fun onboarding_step :: "onboarding_env \<Rightarrow> onboarding_op \<Rightarrow> onboarding \<Rightarrow> onboarding" where
  "onboarding_step env (DoCreate rnd i now ip b) s = snd (handle_token_create env rnd i now ip b s)"
| "onboarding_step env (DoRevoke now ip v) s = snd (handle_token_revoke now ip v s)"
| "onboarding_step env (DoJoin now savable ip h b) s = snd (handle_join env now savable ip h b s)"

definition onboarding_run :: "onboarding_env \<Rightarrow> onboarding_op list \<Rightarrow> onboarding \<Rightarrow> onboarding" where
  "onboarding_run env ops s = fold (onboarding_step env) ops s"

section \<open>The trust bundle is exactly the trusted CAs\<close>

lemma bundle_fold:
  assumes "fold (bundle_step fp) ps (b, map (the \<circ> fp) b) = (b', fps')"
    and "\<forall>pem \<in> set b. fp pem \<noteq> None" "distinct (map (the \<circ> fp) b)"
  shows "fps' = map (the \<circ> fp) b' \<and> (\<exists>c. b' = b @ c \<and> set c \<subseteq> pd_ca_cert ` set ps)
    \<and> (\<forall>pem \<in> set b'. fp pem \<noteq> None) \<and> distinct (map (the \<circ> fp) b')
    \<and> (\<forall>p \<in> set ps. pd_ca_cert p \<noteq> [] \<longrightarrow> fp (pd_ca_cert p) \<noteq> None \<longrightarrow> fp (pd_ca_cert p) \<in> fp ` set b')"
  using assms
proof (induction ps arbitrary: b)
  case (Cons p ps)
  show ?case
  proof (cases "pd_ca_cert p = [] \<or> fp (pd_ca_cert p) = None \<or> the (fp (pd_ca_cert p)) \<in> set (map (the \<circ> fp) b)")
    case True
    have skip: "bundle_step fp p (b, map (the \<circ> fp) b) = (b, map (the \<circ> fp) b)"
      using True by (auto simp: bundle_step_def split: option.split)
    have old: "fp (pd_ca_cert p) \<in> fp ` set b" if "pd_ca_cert p \<noteq> []" "fp (pd_ca_cert p) \<noteq> None"
    proof -
      obtain x where "x \<in> set b" "the (fp x) = the (fp (pd_ca_cert p))" using True \<open>pd_ca_cert p \<noteq> []\<close> \<open>fp (pd_ca_cert p) \<noteq> None\<close> by auto
      then have "fp x = fp (pd_ca_cert p)" using Cons.prems(2) that(2) by (metis option.expand)
      then show ?thesis using \<open>x \<in> set b\<close> by (metis image_eqI)
    qed
    have "fold (bundle_step fp) ps (b, map (the \<circ> fp) b) = (b', fps')" using Cons.prems(1) by (simp only: fold_simps skip)
    note IH = Cons.IH [OF this Cons.prems(2,3)]
    then obtain c where c: "b' = b @ c" "set c \<subseteq> pd_ca_cert ` set ps" by blast
    have sub: "fp ` set b \<subseteq> fp ` set b'" by (simp add: c(1) image_Un)
    show ?thesis
    proof (intro conjI)
      show "\<exists>c. b' = b @ c \<and> set c \<subseteq> pd_ca_cert ` set (p # ps)" using c by auto
      show "\<forall>q \<in> set (p # ps). pd_ca_cert q \<noteq> [] \<longrightarrow> fp (pd_ca_cert q) \<noteq> None \<longrightarrow> fp (pd_ca_cert q) \<in> fp ` set b'"
        using IH old sub unfolding set_simps by blast
    qed (use IH in blast)+
  next
    case False
    then have add: "bundle_step fp p (b, map (the \<circ> fp) b) = (b @ [pd_ca_cert p], map (the \<circ> fp) (b @ [pd_ca_cert p]))"
      by (auto simp: bundle_step_def)
    have "fold (bundle_step fp) ps (b @ [pd_ca_cert p], map (the \<circ> fp) (b @ [pd_ca_cert p])) = (b', fps')"
      using Cons.prems(1) by (simp only: fold_simps add)
    moreover have "\<forall>pem \<in> set (b @ [pd_ca_cert p]). fp pem \<noteq> None" "distinct (map (the \<circ> fp) (b @ [pd_ca_cert p]))"
      using Cons.prems(2,3) False by (auto simp: comp_def)
    ultimately have IH: "fps' = map (the \<circ> fp) b' \<and> (\<exists>c. b' = (b @ [pd_ca_cert p]) @ c \<and> set c \<subseteq> pd_ca_cert ` set ps)
        \<and> (\<forall>pem \<in> set b'. fp pem \<noteq> None) \<and> distinct (map (the \<circ> fp) b')
        \<and> (\<forall>p \<in> set ps. pd_ca_cert p \<noteq> [] \<longrightarrow> fp (pd_ca_cert p) \<noteq> None \<longrightarrow> fp (pd_ca_cert p) \<in> fp ` set b')"
      by (rule Cons.IH)
    then obtain c where c: "b' = b @ [pd_ca_cert p] @ c" "set c \<subseteq> pd_ca_cert ` set ps" by auto
    show ?thesis
    proof (intro conjI)
      have "b' = b @ (pd_ca_cert p # c)" "set (pd_ca_cert p # c) \<subseteq> pd_ca_cert ` set (p # ps)" using c by auto
      then show "\<exists>c. b' = b @ c \<and> set c \<subseteq> pd_ca_cert ` set (p # ps)" by blast
      have "fp (pd_ca_cert p) \<in> fp ` set b'" by (simp add: c(1))
      then show "\<forall>q \<in> set (p # ps). pd_ca_cert q \<noteq> [] \<longrightarrow> fp (pd_ca_cert q) \<noteq> None \<longrightarrow> fp (pd_ca_cert q) \<in> fp ` set b'"
        using IH unfolding set_simps by blast
    qed (use IH in blast)+
  qed
qed auto

text \<open>The bundle of trusted CAs, whatever order the peers are put in: every certificate in it parses and is this
  node's own CA or that of a paired peer, no two have the same fingerprint, the own CA comes first when it parses, and
  every paired peer's CA that parses is in it (by fingerprint).\<close>

theorem trust_bundle_exact:
  assumes "\<And>ps. set (sort_peers ps) = set ps"
  shows "let b = buildTrustedCaBundle fp sort_peers own (Some st) in
      (\<forall>pem \<in> set b. fp pem \<noteq> None \<and> (pem = own \<or> pem \<in> pd_ca_cert ` set (m_vals st)))
    \<and> distinct (map (the \<circ> fp) b)
    \<and> (fp own \<noteq> None \<longrightarrow> b \<noteq> [] \<and> hd b = own)
    \<and> (\<forall>p \<in> set (m_vals st). pd_ca_cert p \<noteq> [] \<longrightarrow> fp (pd_ca_cert p) \<noteq> None \<longrightarrow> fp (pd_ca_cert p) \<in> fp ` set b)"
proof -
  define b0 where "b0 = (if fp own = None then [] else [own])"
  obtain b fps where f: "fold (bundle_step fp) (sort_peers (m_vals st)) (b0, map (the \<circ> fp) b0) = (b, fps)" by fastforce
  have b: "buildTrustedCaBundle fp sort_peers own (Some st) = b"
    using f by (cases "fp own") (simp_all add: buildTrustedCaBundle_def b0_def)
  have "\<forall>pem \<in> set b0. fp pem \<noteq> None" "distinct (map (the \<circ> fp) b0)" by (auto simp: b0_def)
  from bundle_fold [OF f this] obtain c where c: "b = b0 @ c" "set c \<subseteq> pd_ca_cert ` set (m_vals st)"
    and rest: "\<forall>pem \<in> set b. fp pem \<noteq> None" "distinct (map (the \<circ> fp) b)"
      "\<forall>p \<in> set (m_vals st). pd_ca_cert p \<noteq> [] \<longrightarrow> fp (pd_ca_cert p) \<noteq> None \<longrightarrow> fp (pd_ca_cert p) \<in> fp ` set b"
    unfolding assms by blast
  have "pem = own \<or> pem \<in> pd_ca_cert ` set (m_vals st)" if "pem \<in> set b" for pem
    using that c by (auto simp: b0_def split: if_splits)
  moreover have "fp own \<noteq> None \<longrightarrow> b \<noteq> [] \<and> hd b = own" using c(1) by (simp add: b0_def)
  ultimately show ?thesis unfolding Let_def b using rest by blast
qed

text \<open>Two peers share a CA, a third one's does not parse.\<close>

definition ex_paired :: "string \<Rightarrow> string \<Rightarrow> paired_peer" where
  "ex_paired a ca = \<lparr>pd_agent_id = a, pd_public_key = [], pd_ca_cert = ca, pd_fingerprint = [], pd_paired_at = 0, pd_hostname = []\<rparr>"

theorem trust_bundle_exact_witness:
  "set (buildTrustedCaBundle (\<lambda>pem. if pem = ''bad'' then None else Some pem) rev ''own''
     (Some [(''a'', ex_paired ''a'' ''X''), (''b'', ex_paired ''b'' ''X''), (''c'', ex_paired ''c'' ''bad'')])) = {''own'', ''X''}"
proof -
  let ?fp = "\<lambda>pem :: string. if pem = ''bad'' then None else Some pem"
  let ?st = "[(''a'', ex_paired ''a'' ''X''), (''b'', ex_paired ''b'' ''X''), (''c'', ex_paired ''c'' ''bad'')]"
  let ?b = "buildTrustedCaBundle ?fp rev ''own'' (Some ?st)"
  have th: "(\<forall>pem \<in> set ?b. ?fp pem \<noteq> None \<and> (pem = ''own'' \<or> pem \<in> pd_ca_cert ` set (m_vals ?st)))"
    "?fp ''own'' \<noteq> None \<longrightarrow> ?b \<noteq> [] \<and> hd ?b = ''own''"
    "\<forall>p \<in> set (m_vals ?st). pd_ca_cert p \<noteq> [] \<longrightarrow> ?fp (pd_ca_cert p) \<noteq> None \<longrightarrow> ?fp (pd_ca_cert p) \<in> ?fp ` set ?b"
    using trust_bundle_exact [of rev ?fp "''own''" ?st] unfolding Let_def by simp_all
  have "''own'' \<in> set ?b" using th(2) hd_in_set [of ?b] by simp
  moreover have "''X'' \<in> set ?b" using th(3) by (auto simp: ex_paired_def split: if_splits)
  moreover have "pem \<in> {''own'', ''X''}" if "pem \<in> set ?b" for pem
    using th(1) that by (auto simp: ex_paired_def split: if_splits)
  ultimately show ?thesis by blast
qed

section \<open>What a join does\<close>

text \<open>A token that validates can be marked, and nothing else happens to the table in between.\<close>

lemma validate_then_mark:
  assumes "token_inv ts" "validateToken hash now t ts = (ValidToken i n, ts')"
  shows "fst (markUsed now' i who ts') = Inr ()"
    and "ts_rows (snd (markUsed now' i who ts')) =
       t_update (\<lambda>r. ot_id r = i) (\<lambda>r. r\<lparr>ot_used_at := Some now', ot_used_by := Some who\<rparr>) (ts_rows ts)"
    and "\<exists>r \<in> set (ts_rows ts). ot_id r = i \<and> ot_hash r = hash t \<and> ot_used_at r = None"
proof -
  have rows: "ts_rows ts' = ts_rows ts" using rows_validate [of hash now t ts] assms(2) by simp
  have "fst (validateToken hash now t ts) = ValidToken i n" by (simp add: assms(2))
  then obtain r where r: "r \<in> set (ts_rows ts)" "ot_hash r = hash t" "ot_id r = i" "ot_used_at r = None"
    using assms(1) by (auto simp: validateToken_iff token_inv_def)
  then show "\<exists>r \<in> set (ts_rows ts). ot_id r = i \<and> ot_hash r = hash t \<and> ot_used_at r = None" by blast
  have "List.find (\<lambda>r. ot_id r = i) (ts_rows ts') = Some r"
    using find_key_unique [of ot_id "ts_rows ts" i r] r assms(1) by (simp add: rows token_inv_def)
  then show m: "fst (markUsed now' i who ts') = Inr ()" using r by (simp add: markUsed_def)
  show "ts_rows (snd (markUsed now' i who ts')) =
       t_update (\<lambda>r. ot_id r = i) (\<lambda>r. r\<lparr>ot_used_at := Some now', ot_used_by := Some who\<rparr>) (ts_rows ts)"
    using markUsed_Inr(2) [OF m] rows by simp
qed

lemma join_gate_fields [simp]:
  "ob_tokens (snd (join_gate env now ip s)) = ob_tokens s" "ob_pairings (snd (join_gate env now ip s)) = ob_pairings s"
  "ob_audit (snd (join_gate env now ip s)) = ob_audit s"
  by (simp_all add: join_gate_def split: option.split prod.split)

text \<open>The request is complete: a bearer token, names that pass the two expressions, and a CA to sign with.\<close>

definition join_request ::
  "onboarding_env \<Rightarrow> string option \<Rightarrow> join_body option \<Rightarrow> (string \<times> string \<times> string \<times> string \<times> string option) option" where
  "join_request env header body =
     (case (bearer header, body, on_ca env) of
        (Some t, Some b, Some ca) \<Rightarrow>
          (case (truthy (jb_hostname b), truthy (jb_agent_id b)) of
             (Some h, Some a) \<Rightarrow> if hostname_ok h \<and> join_uri_ok a then Some (t, h, a, ca, jb_public_key b) else None
           | _ \<Rightarrow> None)
      | _ \<Rightarrow> None)"

lemma join_request_Some:
  "join_request env header body = Some (t, h, a, ca, key) \<longleftrightarrow>
     bearer header = Some t \<and> on_ca env = Some ca
     \<and> (\<exists>b. body = Some b \<and> truthy (jb_hostname b) = Some h \<and> truthy (jb_agent_id b) = Some a \<and> key = jb_public_key b)
     \<and> hostname_ok h \<and> join_uri_ok a"
  unfolding join_request_def
  by (cases "bearer header"; cases body; cases "on_ca env") (auto split: option.split)

lemma handle_join_admit:
  assumes "join_request env header body = Some (t, h, a, ca, key)" "join_gate env now ip s = (True, s1)"
    and "validateToken (on_hash env) now t (ob_tokens s1) = (ValidToken tid n, ts)" "markUsed now tid a ts = (Inr u, ts')"
  shows "handle_join env now savable ip header body s = admit_node env now savable ip ca h a key tid (s1\<lparr>ob_tokens := ts'\<rparr>)"
proof -
  obtain b where b: "bearer header = Some t" "on_ca env = Some ca" "body = Some b" "truthy (jb_hostname b) = Some h"
    "truthy (jb_agent_id b) = Some a" "key = jb_public_key b" "hostname_ok h" "join_uri_ok a"
    using assms(1) unfolding join_request_Some by blast
  show ?thesis by (simp add: handle_join_def b assms(2-4) Let_def)
qed

text \<open>The three outcomes of a join: a node is admitted, the token is spent in vain, or nothing happens.\<close>

lemma handle_join_cases:
  assumes "handle_join env now savable ip header body s = (res, s')" "token_inv (ob_tokens s)"
  obtains
    (refused) "\<forall>ans. res \<noteq> Inr ans" "ob_pairings s' = ob_pairings s" "ts_rows (ob_tokens s') = ts_rows (ob_tokens s)"
      "ob_audit s' = ob_audit s \<or> (\<exists>r. ob_audit s' = ob_audit s @ [AuditJoinRejected ip r])"
  | (spent) t h a ca key tid n ts
      where "join_request env header body = Some (t, h, a, ca, key)" "fst (join_gate env now ip s)"
        "validateToken (on_hash env) now t (ob_tokens s) = (ValidToken tid n, ts)"
        "ob_tokens s' = snd (markUsed now tid a ts)"
        "(res, s') = admit_node env now savable ip ca h a key tid
           ((snd (join_gate env now ip s))\<lparr>ob_tokens := snd (markUsed now tid a ts)\<rparr>)"
proof -
  show ?thesis
  proof (cases "bearer header")
    case None
    then show ?thesis using assms(1) by (intro refused) (auto simp: handle_join_def)
  next
    case (Some t)
    obtain ok s1 where g: "join_gate env now ip s = (ok, s1)" by fastforce
    have s1: "ob_tokens s1 = ob_tokens s" "ob_pairings s1 = ob_pairings s" "ob_audit s1 = ob_audit s"
      using join_gate_fields [of env now ip s] g by simp_all
    obtain v ts where v: "validateToken (on_hash env) now t (ob_tokens s) = (v, ts)" by fastforce
    have rows: "ts_rows ts = ts_rows (ob_tokens s)" using rows_validate [of "on_hash env" now t "ob_tokens s"] v by simp
    have refused_with: thesis
      if "handle_join env now savable ip header body s = (Inl e, s1\<lparr>ob_tokens := ts0, ob_audit := au\<rparr>)"
        "ts_rows ts0 = ts_rows (ob_tokens s)" "au = ob_audit s \<or> (\<exists>r. au = ob_audit s @ [AuditJoinRejected ip r])" for e ts0 au
      using that assms(1) s1 by (intro refused) auto
    show ?thesis
    proof (cases "ok \<and> (\<exists>tid n. v = ValidToken tid n) \<and> join_request env header body \<noteq> None")
      case False
      consider (gate) "\<not> ok" | (token) r where "ok" "v = InvalidToken r"
        | (request) tid n where "ok" "v = ValidToken tid n" "join_request env header body = None"
        using False by (cases v; cases "join_request env header body") auto
      then show ?thesis
      proof cases
        case gate
        then have "handle_join env now savable ip header body s = (Inl TooManyJoins, s1\<lparr>ob_tokens := ob_tokens s, ob_audit := ob_audit s\<rparr>)"
          using Some g s1 by (simp add: handle_join_def)
        then show ?thesis by (rule refused_with) simp_all
      next
        case token
        then have "handle_join env now savable ip header body s =
            (Inl (TokenRejected r), s1\<lparr>ob_tokens := ts, ob_audit := ob_audit s @ [AuditJoinRejected ip r]\<rparr>)"
          using Some g s1 v by (simp add: handle_join_def)
        then show ?thesis by (rule refused_with) (simp_all add: rows)
      next
        case request
        have "\<exists>e. handle_join env now savable ip header body s = (Inl e, s1\<lparr>ob_tokens := ts, ob_audit := ob_audit s\<rparr>)"
          using request Some g v s1
          by (cases body; cases "on_ca env") (auto simp: handle_join_def join_request_def Let_def split: option.splits)
        then show ?thesis using refused_with rows by blast
      qed
    next
      case True
      then obtain tid n t' h a ca key where tid: "v = ValidToken tid n" and q': "join_request env header body = Some (t', h, a, ca, key)"
        by auto
      then have q: "join_request env header body = Some (t, h, a, ca, key)" using Some by (simp add: join_request_Some)
      have m: "fst (markUsed now tid a ts) = Inr ()" using validate_then_mark(1) [OF assms(2)] v tid by simp
      then obtain ts' where ts': "markUsed now tid a ts = (Inr (), ts')" by (metis prod.collapse)
      have r: "(res, s') = admit_node env now savable ip ca h a key tid (s1\<lparr>ob_tokens := ts'\<rparr>)"
        using assms(1) handle_join_admit [OF q _ _ ts', of ip s s1 n savable] g v s1 tid True by simp
      then have "ob_tokens s' = ts'" by (auto simp: admit_node_def Let_def split: sum.splits if_splits prod.splits)
      then show ?thesis using spent [OF q _ _ _, of tid n ts] g v tid ts' r True by simp
    qed
  qed
qed

text \<open>The answer of the second half, and what it leaves.\<close>

definition joined_peer :: "time \<Rightarrow> string \<Rightarrow> string \<Rightarrow> string \<Rightarrow> string option \<Rightarrow> paired_peer" where
  "joined_peer now hostname agent ca key = \<lparr>pd_agent_id = agent, pd_public_key = default_to [] key, pd_ca_cert = ca,
     pd_fingerprint = [], pd_paired_at = now, pd_hostname = hostname\<rparr>"

definition own_addresses :: "string \<Rightarrow> string list" where
  "own_addresses ip = filter (\<lambda>i. i \<noteq> ''127.0.0.1'' \<and> i \<noteq> ''::1'') [ip]"

lemma admit_node_cases:
  assumes "(res, s') = admit_node env now savable ip ca h a key tid s"
  shows "(\<exists>ans. res = Inr ans) \<longleftrightarrow> savable \<and> (\<exists>cert. on_create_cert env ca h a (own_addresses ip) = Inr cert)"
    and "ob_tokens s' = ob_tokens s"
    and "ob_pairings s' = (if \<exists>cert. on_create_cert env ca h a (own_addresses ip) = Inr cert
           then addPeer (joined_peer now h a ca key) (ob_pairings s) else ob_pairings s)"
    and "ob_audit s' = (if \<exists>ans. res = Inr ans then ob_audit s @ [AuditJoinSuccess a tid] else ob_audit s)"
    and "res = Inr ans \<Longrightarrow> ja_ca ans = ca \<and> ja_admin ans = on_own_agent env
           \<and> (on_notifier env = Some own \<longrightarrow>
                ja_bundle ans = buildTrustedCaBundle (on_fingerprint env) (on_sort env) own (Some (ob_pairings s')))"
  using assms by (auto simp: admit_node_def Let_def own_addresses_def joined_peer_def split: sum.splits if_splits prod.splits)

text \<open>C30. A join is answered with a certificate exactly when it carries a bearer token and well-formed names, the address
  is within its rate, the token validates, this node has a CA, the certificate can be made and the pairing be saved. The
  node is then paired under the identity it asked for, with this node's CA, and nobody else's pairing changes; its token
  never validates again, whatever the store is asked afterwards, unless a token with the same hash is created. A refused
  join changes no pairing (as long as the pairing file can be written).\<close>

theorem join_admission:
  assumes "token_inv (ob_tokens s)" "handle_join env now savable ip header body s = (res, s')"
  shows "((\<exists>ans. res = Inr ans) \<longleftrightarrow> savable \<and> fst (join_gate env now ip s)
        \<and> (\<exists>t h a ca key tid n cert. join_request env header body = Some (t, h, a, ca, key)
             \<and> fst (validateToken (on_hash env) now t (ob_tokens s)) = ValidToken tid n
             \<and> on_create_cert env ca h a (own_addresses ip) = Inr cert))
    \<and> (\<forall>ans t h a ca key. res = Inr ans \<longrightarrow> join_request env header body = Some (t, h, a, ca, key) \<longrightarrow>
         ob_pairings s' = addPeer (joined_peer now h a ca key) (ob_pairings s) \<and> on_ca env = Some ca \<and> ja_ca ans = ca
         \<and> (\<forall>ops now' i n. (\<forall>op \<in> set ops. \<not> creates_hash (on_hash env) (on_hash env t) op) \<longrightarrow>
              fst (validateToken (on_hash env) now' t (token_run (on_hash env) ops (ob_tokens s'))) \<noteq> ValidToken i n))
    \<and> ((\<forall>ans. res \<noteq> Inr ans) \<longrightarrow> savable \<longrightarrow> ob_pairings s' = ob_pairings s)"
  using assms(2,1)
proof (cases rule: handle_join_cases)
  case refused
  have no: "\<not> (savable \<and> fst (join_gate env now ip s)
        \<and> (\<exists>t h a ca key tid n cert. join_request env header body = Some (t, h, a, ca, key)
             \<and> fst (validateToken (on_hash env) now t (ob_tokens s)) = ValidToken tid n
             \<and> on_create_cert env ca h a (own_addresses ip) = Inr cert))"
  proof (rule notI, elim conjE exE)
    fix t h a ca key tid n cert
    assume ok: "savable" "fst (join_gate env now ip s)" "join_request env header body = Some (t, h, a, ca, key)"
      "fst (validateToken (on_hash env) now t (ob_tokens s)) = ValidToken tid n"
      "on_create_cert env ca h a (own_addresses ip) = Inr cert"
    obtain ts where v: "validateToken (on_hash env) now t (ob_tokens s) = (ValidToken tid n, ts)"
      using ok(4) by (metis prod.collapse)
    obtain s1 where g: "join_gate env now ip s = (True, s1)" using ok(2) by (metis prod.collapse)
    have s1: "ob_tokens s1 = ob_tokens s" using join_gate_fields(1) [of env now ip s] g by simp
    obtain ts' where m: "markUsed now tid a ts = (Inr (), ts')"
      using validate_then_mark(1) [OF assms(1) v] by (metis prod.collapse)
    have "handle_join env now savable ip header body s =
        admit_node env now savable ip ca h a key tid (s1\<lparr>ob_tokens := ts'\<rparr>)"
      using handle_join_admit [OF ok(3) g _ m] v s1 by simp
    then show False using admit_node_cases(1) [of res s' env] assms(2) ok refused(1) by metis
  qed
  show ?thesis using refused no by blast
next
  case (spent t h a ca key tid n ts)
  note adm = admit_node_cases [OF spent(5)]
  have fits: "on_ca env = Some ca"
    using spent(1) by (simp add: join_request_Some)
  have dead: "fst (validateToken (on_hash env) now' t (token_run (on_hash env) ops (ob_tokens s'))) \<noteq> ValidToken i n'"
    if "\<forall>op \<in> set ops. \<not> creates_hash (on_hash env) (on_hash env t) op" for ops now' i n'
  proof -
    have "token_inv ts" "fst (validateToken (on_hash env) now t ts) = ValidToken tid n"
    proof -
      have rows: "ts_rows ts = ts_rows (ob_tokens s)"
        using rows_validate [of "on_hash env" now t "ob_tokens s"] spent(3) by simp
      then show inv: "token_inv ts" using assms(1) by (simp add: token_inv_def)
      have "fst (validateToken (on_hash env) now t (ob_tokens s)) = ValidToken tid n" by (simp add: spent(3))
      then show "fst (validateToken (on_hash env) now t ts) = ValidToken tid n"
        using assms(1) inv by (simp add: validateToken_iff token_inv_def rows)
    qed
    then have "Token_Store.spent (on_hash env t) (ob_tokens s')"
      unfolding spent(4) using markUsed_spends validate_then_mark(1) [OF assms(1) spent(3)] by blast
    then show ?thesis using spent_invalid spent_run that by blast
  qed
  show ?thesis
    using adm(1,3,5) spent(1,2,3) fits dead by auto
qed

section \<open>One node per token\<close>

definition join_tokens :: "onboarding \<Rightarrow> string list" where
  "join_tokens s = List.map_filter (\<lambda>e. case e of AuditJoinSuccess _ i \<Rightarrow> Some i | _ \<Rightarrow> None) (ob_audit s)"

definition spent_for :: "string \<Rightarrow> string \<Rightarrow> token_store \<Rightarrow> bool" where
  "spent_for i a ts \<longleftrightarrow> (\<exists>r \<in> set (ts_rows ts). ot_id r = i \<and> ot_used_by r = Some a \<and> ot_used_at r \<noteq> None)"

definition onboarding_inv :: "onboarding \<Rightarrow> bool" where
  "onboarding_inv s \<longleftrightarrow> token_inv (ob_tokens s) \<and> distinct (join_tokens s)
     \<and> (\<forall>a i. AuditJoinSuccess a i \<in> set (ob_audit s) \<longrightarrow> spent_for i a (ob_tokens s))"

lemma join_tokens_iff: "i \<in> set (join_tokens s) \<longleftrightarrow> (\<exists>a. AuditJoinSuccess a i \<in> set (ob_audit s))"
proof -
  have "i \<in> set (List.map_filter (\<lambda>e. case e of AuditJoinSuccess _ i \<Rightarrow> Some i | _ \<Rightarrow> None) es)
      \<longleftrightarrow> (\<exists>a. AuditJoinSuccess a i \<in> set es)" for es
    by (induction es) (auto simp: List.map_filter_simps split: api_audit.splits)
  then show ?thesis by (simp add: join_tokens_def)
qed

lemma spent_for_create: "spent_for i a ts \<Longrightarrow> spent_for i a (snd (createToken h rnd n now name who ttl ts))"
  by (auto simp: spent_for_def createToken_def Let_def insert_token_def audit_token_def split: option.splits)

lemma spent_for_audit [simp]: "spent_for i a (audit_token e ts) = spent_for i a ts"
  by (simp add: spent_for_def)

lemma spent_for_update:
  assumes "spent_for i a ts" "\<And>r. ot_id (f r) = ot_id r \<and> ot_used_by (f r) = ot_used_by r \<and> ot_used_at (f r) = ot_used_at r"
  shows "spent_for i a (ts\<lparr>ts_rows := t_update p f (ts_rows ts)\<rparr>)"
proof -
  obtain r where r: "r \<in> set (ts_rows ts)" "ot_id r = i" "ot_used_by r = Some a" "ot_used_at r \<noteq> None"
    using assms(1) by (auto simp: spent_for_def)
  have "(if p r then f r else r) \<in> set (t_update p f (ts_rows ts))" using r(1) by (auto simp: t_update_def)
  then show ?thesis using r assms(2) unfolding spent_for_def by (intro bexI) auto
qed

lemma spent_for_revoke: "spent_for i a ts \<Longrightarrow> spent_for i a (snd (revokeToken now j ts))"
  by (auto simp: revokeToken_def intro: spent_for_update split: option.split)

lemma spent_for_mark:
  assumes "token_inv ts" "validateToken hash now t ts = (ValidToken j n, ts')" "spent_for i a ts"
  shows "spent_for i a (snd (markUsed now j who ts')) \<and> i \<noteq> j"
proof -
  obtain r where r: "r \<in> set (ts_rows ts)" "ot_id r = i" "ot_used_by r = Some a" "ot_used_at r \<noteq> None"
    using assms(3) by (auto simp: spent_for_def)
  obtain q where q: "q \<in> set (ts_rows ts)" "ot_id q = j" "ot_used_at q = None"
    using validate_then_mark(3) [OF assms(1,2)] by blast
  have "i \<noteq> j"
    using r q assms(1) by (auto simp: token_inv_def t_unique_def distinct_map inj_on_def)
  then show ?thesis
    using r unfolding spent_for_def validate_then_mark(2) [OF assms(1,2)] t_update_def by auto
qed

lemma spent_for_marked:
  assumes "token_inv ts" "validateToken hash now t ts = (ValidToken j n, ts')"
  shows "spent_for j who (snd (markUsed now j who ts'))"
proof -
  obtain q where "q \<in> set (ts_rows ts)" "ot_id q = j" using validate_then_mark(3) [OF assms] by blast
  then show ?thesis unfolding spent_for_def validate_then_mark(2) [OF assms] t_update_def set_map
    by (intro bexI [of _ "q\<lparr>ot_used_at := Some now, ot_used_by := Some who\<rparr>"]) (auto intro!: image_eqI [of _ _ q])
qed

text \<open>The invariant holds along every run, and pairings are only added for identities a token was spent on.\<close>

definition onboarding_grows :: "onboarding_env \<Rightarrow> onboarding \<Rightarrow> onboarding \<Rightarrow> bool" where
  "onboarding_grows env s s' \<longleftrightarrow>
     (\<forall>i a. spent_for i a (ob_tokens s) \<longrightarrow> spent_for i a (ob_tokens s'))
     \<and> (\<forall>k p. m_get (ob_pairings s') k = Some p \<longrightarrow> m_get (ob_pairings s) k = Some p
          \<or> pd_agent_id p = k \<and> join_uri_ok k \<and> on_ca env = Some (pd_ca_cert p) \<and> (\<exists>i. spent_for i k (ob_tokens s')))
     \<and> (\<forall>k. m_get (ob_pairings s) k \<noteq> None \<longrightarrow> m_get (ob_pairings s') k \<noteq> None)"

lemma tokens_step:
  assumes "onboarding_inv s" "token_inv (ob_tokens s')" "ob_pairings s' = ob_pairings s"
    and "\<And>i a. spent_for i a (ob_tokens s) \<Longrightarrow> spent_for i a (ob_tokens s')"
    and "ob_audit s' = ob_audit s @ au" "\<And>a i. AuditJoinSuccess a i \<notin> set au"
  shows "onboarding_inv s' \<and> onboarding_grows env s s'"
proof -
  have "List.map_filter (\<lambda>e. case e of AuditJoinSuccess _ i \<Rightarrow> Some i | _ \<Rightarrow> None) au = []"
    using assms(6) by (induction au) (auto split: api_audit.split)
  then have "join_tokens s' = join_tokens s"
    unfolding join_tokens_def assms(5) by (simp add: List.map_filter_def)
  then show ?thesis
    using assms by (auto simp: onboarding_inv_def onboarding_grows_def)
qed

lemma create_outcome:
  assumes "handle_token_create env rnd n now ip b s = (res, s')"
  obtains "s' = s"
  | name ttl where "ob_tokens s' = snd (createToken (on_hash env) rnd n now name (on_own_agent env) ttl (ob_tokens s))"
      "ob_pairings s' = ob_pairings s" "ob_audit s' = ob_audit s \<or> (\<exists>i. ob_audit s' = ob_audit s @ [AuditTokenCreate i])"
proof (cases "s' = s")
  case False
  then have "\<exists>name ttl. create_now env rnd n now name ttl s = (res, s')"
    using assms by (auto simp: handle_token_create_def split: if_splits option.splits ttl_field.splits)
  then obtain name ttl where h: "create_now env rnd n now name ttl s = (res, s')" by blast
  obtain v ts where c: "createToken (on_hash env) rnd n now name (on_own_agent env) (Some ttl) (ob_tokens s) = (v, ts)"
    by fastforce
  show ?thesis
    using h c that(2) [of name "Some ttl"] by (cases v) (auto simp: create_now_def)
qed (rule that(1))

lemma create_step:
  assumes "onboarding_inv s" "handle_token_create env rnd n now ip b s = (res, s')"
  shows "onboarding_inv s' \<and> onboarding_grows env s s'"
  using assms(2)
proof (cases rule: create_outcome)
  case 1
  then show ?thesis using assms(1) tokens_step [of s s' "[]"] by (simp add: onboarding_inv_def)
next
  case (2 name ttl)
  have "token_inv (ob_tokens s')"
    using token_inv_step [of "ob_tokens s" "on_hash env" "OpCreate rnd n now name (on_own_agent env) ttl"] assms(1) 2
    by (simp add: onboarding_inv_def)
  moreover obtain au where "ob_audit s' = ob_audit s @ au" "\<And>a i. AuditJoinSuccess a i \<notin> set au" using 2(3) by force
  ultimately show ?thesis using tokens_step [OF assms(1)] 2(1,2) spent_for_create by simp
qed

lemma revoke_step:
  assumes "onboarding_inv s" "handle_token_revoke now ip v s = (res, s')"
  shows "onboarding_inv s' \<and> onboarding_grows env s s'"
proof -
  have "s' = s \<or> (\<exists>i. ob_tokens s' = snd (revokeToken now i (ob_tokens s)) \<and> ob_pairings s' = ob_pairings s
      \<and> (\<exists>au. ob_audit s' = ob_audit s @ au \<and> (\<forall>a i. AuditJoinSuccess a i \<notin> set au)))"
  proof (cases "requireLocal ip \<and> (\<exists>i. v = JStr i \<and> i \<noteq> [])")
    case False
    then show ?thesis using assms(2) by (auto simp: handle_token_revoke_def as_str_Some split: if_splits option.splits)
  next
    case True
    then obtain i where i: "v = JStr i" "i \<noteq> []" by blast
    obtain ok ts where r: "revokeToken now i (ob_tokens s) = (ok, ts)" by fastforce
    have "ob_tokens s' = ts \<and> ob_pairings s' = ob_pairings s \<and> ob_audit s' = ob_audit s @ (if ok then [AuditTokenRevoke i] else [])"
      using assms(2) True i r by (cases ok) (auto simp: handle_token_revoke_def)
    then show ?thesis using r by (intro disjI2 exI [of _ i]) auto
  qed
  then show ?thesis
  proof (elim disjE exE conjE)
    assume "s' = s"
    then show ?thesis using assms(1) tokens_step [of s s' "[]"] by (simp add: onboarding_inv_def)
  next
    fix i au
    assume r: "ob_tokens s' = snd (revokeToken now i (ob_tokens s))" "ob_pairings s' = ob_pairings s"
      "ob_audit s' = ob_audit s @ au" "\<forall>a i. AuditJoinSuccess a i \<notin> set au"
    have "token_inv (ob_tokens s')"
      using token_inv_step [of "ob_tokens s" "on_hash env" "OpRevoke now i"] assms(1) r(1) by (simp add: onboarding_inv_def)
    then show ?thesis using tokens_step [OF assms(1)] r spent_for_revoke by simp
  qed
qed

lemma join_step:
  assumes "onboarding_inv s" "handle_join env now savable ip header body s = (res, s')"
  shows "onboarding_inv s' \<and> onboarding_grows env s s'"
proof -
  have inv: "token_inv (ob_tokens s)" using assms(1) by (simp add: onboarding_inv_def)
  from assms(2) inv show ?thesis
  proof (cases rule: handle_join_cases)
    case refused
    have "token_inv (ob_tokens s')" using inv refused(3) by (simp add: token_inv_def)
    moreover obtain au where "ob_audit s' = ob_audit s @ au" "\<And>a i. AuditJoinSuccess a i \<notin> set au" using refused(4) by force
    ultimately show ?thesis using tokens_step [OF assms(1)] refused(2,3) by (simp add: spent_for_def)
  next
    case (spent t h a ca key tid n ts)
    note adm = admit_node_cases [OF spent(5)]
    have tid: "spent_for tid a (ob_tokens s')" using spent_for_marked [OF inv spent(3)] spent(4) by simp
    have kept: "spent_for i b (ob_tokens s') \<and> i \<noteq> tid" if "spent_for i b (ob_tokens s)" for i b
      using spent_for_mark [OF inv spent(3) that] spent(4) by simp
    have "token_inv ts" using inv rows_validate [of "on_hash env" now t "ob_tokens s"] spent(3) by (simp add: token_inv_def)
    then have inv': "token_inv (ob_tokens s')"
      using token_inv_step [of ts "on_hash env" "OpMarkUsed now tid a"] spent(4) by simp
    have fresh: "tid \<notin> set (join_tokens s)"
      using kept assms(1) by (auto simp: join_tokens_iff onboarding_inv_def)
    have "join_tokens s' = join_tokens s \<or> join_tokens s' = join_tokens s @ [tid]"
      unfolding join_tokens_def adm(4) by (simp add: List.map_filter_def)
    then have "distinct (join_tokens s')" using fresh assms(1) by (auto simp: onboarding_inv_def)
    moreover have "spent_for i b (ob_tokens s')" if "AuditJoinSuccess b i \<in> set (ob_audit s')" for b i
      using that adm(4) kept tid assms(1) by (auto simp: onboarding_inv_def split: if_splits)
    moreover have "onboarding_grows env s s'"
    proof -
      have "m_get (ob_pairings s') k = Some p \<Longrightarrow> m_get (ob_pairings s) k = Some p
          \<or> pd_agent_id p = k \<and> join_uri_ok k \<and> on_ca env = Some (pd_ca_cert p) \<and> (\<exists>i. spent_for i k (ob_tokens s'))" for k p
        using adm(3) spent(1) tid
        by (auto simp: addPeer_def joined_peer_def join_request_Some split: if_splits)
      moreover have "m_get (ob_pairings s) k \<noteq> None \<Longrightarrow> m_get (ob_pairings s') k \<noteq> None" for k
        using adm(3) by (simp add: addPeer_def)
      ultimately show ?thesis using kept by (simp add: onboarding_grows_def)
    qed
    ultimately show ?thesis using inv' by (simp add: onboarding_inv_def)
  qed
qed

lemma onboarding_step_ok: "onboarding_inv s \<Longrightarrow> onboarding_inv (onboarding_step env op s) \<and> onboarding_grows env s (onboarding_step env op s)"
proof (cases op)
  case (DoCreate rnd n now ip b)
  assume "onboarding_inv s"
  then show ?thesis using create_step [of s env rnd n now ip b] DoCreate by (cases "handle_token_create env rnd n now ip b s") simp
next
  case (DoRevoke now ip v)
  assume "onboarding_inv s"
  then show ?thesis using revoke_step [of s now ip v] DoRevoke by (cases "handle_token_revoke now ip v s") simp
next
  case (DoJoin now savable ip h b)
  assume "onboarding_inv s"
  then show ?thesis using join_step [of s env now savable ip h b] DoJoin by (cases "handle_join env now savable ip h b s") simp
qed

lemma onboarding_grows_trans: "onboarding_grows env a b \<Longrightarrow> onboarding_grows env b c \<Longrightarrow> onboarding_grows env a c"
proof -
  assume ab: "onboarding_grows env a b" and bc: "onboarding_grows env b c"
  have "m_get (ob_pairings a) k = Some p
      \<or> pd_agent_id p = k \<and> join_uri_ok k \<and> on_ca env = Some (pd_ca_cert p) \<and> (\<exists>i. spent_for i k (ob_tokens c))"
    if "m_get (ob_pairings c) k = Some p" for k p
  proof (cases "m_get (ob_pairings b) k = Some p")
    case True
    then show ?thesis using ab bc unfolding onboarding_grows_def by metis
  next
    case False
    then show ?thesis using bc that unfolding onboarding_grows_def by metis
  qed
  then show ?thesis using ab bc by (simp add: onboarding_grows_def)
qed

lemma onboarding_run_ok:
  "onboarding_inv s \<Longrightarrow> onboarding_inv (onboarding_run env ops s) \<and> onboarding_grows env s (onboarding_run env ops s)"
proof (induction ops arbitrary: s)
  case Nil
  then show ?case by (simp add: onboarding_run_def onboarding_grows_def)
next
  case (Cons op ops)
  let ?s1 = "onboarding_step env op s"
  have step: "onboarding_inv ?s1" "onboarding_grows env s ?s1" using onboarding_step_ok [OF Cons.prems, of env op] by simp_all
  have run: "onboarding_run env (op # ops) s = onboarding_run env ops ?s1" by (simp add: onboarding_run_def)
  show ?case
    unfolding run using Cons.IH [OF step(1)] onboarding_grows_trans [OF step(2)] by blast
qed

text \<open>C31. In every run of token creations, revocations and joins, each token admits at most one node: the tokens of the
  successful joins are pairwise different and each is on record as used by the node it admitted. A pairing that is there
  at the end was there before, or is that of an identity for which a token was spent, with this node's CA; and no pairing
  disappears.\<close>

theorem one_node_per_token:
  assumes "onboarding_inv s"
  shows "let s' = onboarding_run env ops s in
      distinct (join_tokens s')
    \<and> (\<forall>a i. AuditJoinSuccess a i \<in> set (ob_audit s') \<longrightarrow> spent_for i a (ob_tokens s'))
    \<and> (\<forall>k p. m_get (ob_pairings s') k = Some p \<longrightarrow> m_get (ob_pairings s) k = Some p
         \<or> pd_agent_id p = k \<and> join_uri_ok k \<and> on_ca env = Some (pd_ca_cert p) \<and> (\<exists>i. spent_for i k (ob_tokens s')))
    \<and> (\<forall>k. m_get (ob_pairings s) k \<noteq> None \<longrightarrow> m_get (ob_pairings s') k \<noteq> None)"
  using onboarding_run_ok [OF assms, of env ops] unfolding Let_def onboarding_inv_def onboarding_grows_def by blast

text \<open>A token is created, one node joins with it, a second one is refused.\<close>

definition ex_onboarding_env :: onboarding_env where
  "ex_onboarding_env = \<lparr>on_hash = id, on_own_agent = ''admin'', on_ca = Some ''CA'', on_create_cert = (\<lambda>_ _ _ _. Inr (''cert'', ''key'')),
     on_fingerprint = Some, on_sort = id, on_notifier = Some ''CA'', on_limits = None\<rparr>"

definition ex_onboarding :: onboarding where
  "ex_onboarding = \<lparr>ob_tokens = new_TokenStore, ob_pairings = [], ob_limiter = [], ob_audit = []\<rparr>"

definition ex_uri :: "string \<Rightarrow> string" where "ex_uri h = ''spiffe://thinklocal/host/'' @ h @ ''/agent/a''"

definition ex_join :: "string \<Rightarrow> onboarding_op" where
  "ex_join h = DoJoin 9 True ''10.0.0.9'' (Some ''Bearer tlmcp_abc'')
     (Some \<lparr>jb_hostname = Some h, jb_agent_id = Some (ex_uri h), jb_public_key = None\<rparr>)"

definition ex_onboarding_ops :: "onboarding_op list" where
  "ex_onboarding_ops = [DoCreate ''abc'' ''id1'' 0 ''::1'' (Some \<lparr>cb_name = JStr ''n'', cb_ttl = TtlMissing\<rparr>), ex_join ''h'', ex_join ''g'']"

lemma ex_onboarding_inv: "onboarding_inv ex_onboarding"
  by (simp add: onboarding_inv_def ex_onboarding_def join_tokens_def)

lemma ex_onboarding_result:
  "ob_audit (onboarding_run ex_onboarding_env ex_onboarding_ops ex_onboarding)
     = [AuditTokenCreate ''id1'', AuditJoinSuccess (ex_uri ''h'') ''id1'', AuditJoinRejected ''10.0.0.9'' AlreadyUsed]"
  by code_simp

theorem one_node_per_token_witness:
  "spent_for ''id1'' (ex_uri ''h'') (ob_tokens (onboarding_run ex_onboarding_env ex_onboarding_ops ex_onboarding))"
  using one_node_per_token [OF ex_onboarding_inv, of ex_onboarding_env ex_onboarding_ops, unfolded Let_def]
  by (simp add: ex_onboarding_result)

text \<open>The state in which the node joins, and the state afterwards.\<close>

definition ex_before_join :: onboarding where
  "ex_before_join = onboarding_run ex_onboarding_env (take 1 ex_onboarding_ops) ex_onboarding"

theorem join_admission_witness:
  "fst (validateToken id 10 ''tlmcp_abc'' (ob_tokens (onboarding_step ex_onboarding_env (ex_join ''h'') ex_before_join)))
     \<noteq> ValidToken ''id1'' ''n''"
proof -
  have inv: "token_inv (ob_tokens ex_before_join)"
    using onboarding_run_ok [OF ex_onboarding_inv] unfolding ex_before_join_def onboarding_inv_def by blast
  obtain res s' where h: "handle_join ex_onboarding_env 9 True ''10.0.0.9'' (Some ''Bearer tlmcp_abc'')
      (Some \<lparr>jb_hostname = Some ''h'', jb_agent_id = Some (ex_uri ''h''), jb_public_key = None\<rparr>) ex_before_join = (res, s')"
    by fastforce
  have ok: "\<not> isl (fst (handle_join ex_onboarding_env 9 True ''10.0.0.9'' (Some ''Bearer tlmcp_abc'')
      (Some \<lparr>jb_hostname = Some ''h'', jb_agent_id = Some (ex_uri ''h''), jb_public_key = None\<rparr>) ex_before_join))"
    by code_simp
  have rq: "join_request ex_onboarding_env (Some ''Bearer tlmcp_abc'')
      (Some \<lparr>jb_hostname = Some ''h'', jb_agent_id = Some (ex_uri ''h''), jb_public_key = None\<rparr>)
     = Some (''tlmcp_abc'', ''h'', ex_uri ''h'', ''CA'', None)"
    by code_simp
  have st: "onboarding_step ex_onboarding_env (ex_join ''h'') ex_before_join = s'" by (simp add: ex_join_def h)
  obtain ans where "res = Inr ans" using ok h by (cases res) auto
  then have "\<forall>ops now' i n. (\<forall>op \<in> set ops. \<not> creates_hash (on_hash ex_onboarding_env) (on_hash ex_onboarding_env ''tlmcp_abc'') op) \<longrightarrow>
      fst (validateToken (on_hash ex_onboarding_env) now' ''tlmcp_abc'' (token_run (on_hash ex_onboarding_env) ops (ob_tokens s'))) \<noteq> ValidToken i n"
    using join_admission [OF inv h] rq by blast
  from this [rule_format, of "[]" 10 "''id1''" "''n''"] show ?thesis
    unfolding st by (simp add: ex_onboarding_env_def)
qed

text \<open>What the specification of the routes does not say. The shortest lifetime the route accepts is below the store's
  minimum, so that request ends in an error of the server; and the identity a node asks for may be one that is already
  paired: that pairing is replaced.\<close>

lemma min_ttl_refused:
  "fst (handle_token_create env rnd n now ''::1'' (Some \<lparr>cb_name = JStr ''n'', cb_ttl = TtlHours (83 / 1000)\<rparr>) s)
     = Inl (ThrownByStore TtlTooShort)"
proof -
  have "ttl_ms (83 / 1000) = 298800" by (simp add: ttl_ms_def floor_eq_iff)
  moreover have "js_trim ''n'' = ''n''" "\<not> blank ''n''" by code_simp+
  ultimately show ?thesis
    by (simp add: handle_token_create_def requireLocal_def create_now_def createToken_def Let_def MIN_TTL_MS_def)
qed

lemma join_replaces_pairing:
  assumes "(Inr ans, s') = admit_node env now savable ip ca h a key tid s" "m_get (ob_pairings s) a = Some p"
  shows "m_get (ob_pairings s') a = Some (joined_peer now h a ca key)"
  using admit_node_cases(1,3) [OF assms(1)] by (auto simp: addPeer_def joined_peer_def)

section \<open>Everything that enters the pairing store\<close>

text \<open>The pairing routes and the token routes share the pairing store (\<open>index.ts\<close>): nothing else writes to it. In a run of
  both, \<open>Ceremony\<close> is a request to a pairing route (or an unpairing) and \<open>ByToken\<close> one to a token route.\<close>

datatype store_op =
    Ceremony pair_event
  | ByToken onboarding_op

fun store_step :: "'v pairing_env \<Rightarrow> onboarding_env \<Rightarrow> store_op \<Rightarrow> 'v pairing \<times> onboarding \<Rightarrow> 'v pairing \<times> onboarding" where
  "store_step pe oe (Ceremony e) (pr, ob) = (let pr' = snd (pair_step pe e pr) in (pr', ob\<lparr>ob_pairings := pr_store pr'\<rparr>))"
| "store_step pe oe (ByToken op) (pr, ob) = (let ob' = onboarding_step oe op ob in (pr\<lparr>pr_store := ob_pairings ob'\<rparr>, ob'))"

definition store_run :: "'v pairing_env \<Rightarrow> onboarding_env \<Rightarrow> store_op list \<Rightarrow> 'v pairing \<times> onboarding \<Rightarrow> 'v pairing \<times> onboarding" where
  "store_run pe oe ops st = fold (store_step pe oe) ops st"

definition store_start :: "onboarding \<Rightarrow> 'v pairing \<times> onboarding" where
  "store_start ob = (new_pairing (ob_pairings ob), ob)"

definition pair_events :: "store_op list \<Rightarrow> pair_event list" where
  "pair_events ops = List.map_filter (\<lambda>op. case op of Ceremony e \<Rightarrow> Some e | ByToken _ \<Rightarrow> None) ops"

text \<open>A join, in the state in which it is handled, that stores this peer.\<close>

definition joins_by_token :: "onboarding_env \<Rightarrow> onboarding_op \<Rightarrow> onboarding \<Rightarrow> paired_peer \<Rightarrow> bool" where
  "joins_by_token oe op ob p \<longleftrightarrow>
     (\<exists>now savable ip header body t h a ca key tid n. op = DoJoin now savable ip header body
        \<and> join_request oe header body = Some (t, h, a, ca, key) \<and> fst (join_gate oe now ip ob)
        \<and> fst (validateToken (on_hash oe) now t (ob_tokens ob)) = ValidToken tid n
        \<and> p = joined_peer now h a ca key)"

lemma token_route_store:
  assumes "onboarding_inv ob"
  shows "ob_pairings (onboarding_step oe op ob) = ob_pairings ob
    \<or> (\<exists>p. ob_pairings (onboarding_step oe op ob) = addPeer p (ob_pairings ob) \<and> joins_by_token oe op ob p)"
proof (cases op)
  case (DoCreate rnd i now ip b)
  obtain res s' where h: "handle_token_create oe rnd i now ip b ob = (res, s')" by fastforce
  then have "ob_pairings s' = ob_pairings ob" by (cases rule: create_outcome) simp_all
  then show ?thesis by (simp add: DoCreate h)
next
  case (DoRevoke now ip v)
  have "ob_pairings (snd (handle_token_revoke now ip v ob)) = ob_pairings ob"
    by (auto simp: handle_token_revoke_def split: option.split prod.split bool.split)
  then show ?thesis by (simp add: DoRevoke)
next
  case (DoJoin now savable ip header body)
  obtain res s' where h: "handle_join oe now savable ip header body ob = (res, s')" by fastforce
  have inv: "token_inv (ob_tokens ob)" using assms by (simp add: onboarding_inv_def)
  from h inv have "ob_pairings s' = ob_pairings ob
      \<or> (\<exists>p. ob_pairings s' = addPeer p (ob_pairings ob) \<and> joins_by_token oe op ob p)"
  proof (cases rule: handle_join_cases)
    case (spent t h a ca key tid n ts)
    have "joins_by_token oe op ob (joined_peer now h a ca key)"
      unfolding joins_by_token_def DoJoin using spent(1-3) by auto
    then show ?thesis using admit_node_cases(3) [OF spent(5)] by auto
  qed simp
  then show ?thesis by (simp add: DoJoin h)
qed

text \<open>A joint run is, for the pairing routes, one in which the joins are writes of another part.\<close>

lemma store_run_trace:
  assumes "onboarding_inv ob0" "\<forall>p. Ceremony (Stored p) \<notin> set ops"
  shows "\<exists>trace. fst (store_run pe oe ops (store_start ob0)) = pair_run pe trace (new_pairing (ob_pairings ob0))
    \<and> ob_pairings (snd (store_run pe oe ops (store_start ob0))) = pr_store (fst (store_run pe oe ops (store_start ob0)))
    \<and> onboarding_inv (snd (store_run pe oe ops (store_start ob0)))
    \<and> filter (\<lambda>e. \<forall>p. e \<noteq> Stored p) trace = pair_events ops
    \<and> (\<forall>p. Stored p \<in> set trace \<longrightarrow> (\<exists>pre op post. ops = pre @ ByToken op # post
          \<and> joins_by_token oe op (snd (store_run pe oe pre (store_start ob0))) p))"
  using assms(2)
proof (induction ops rule: rev_induct)
  case Nil
  show ?case by (rule exI [of _ "[]"]) (simp add: store_run_def store_start_def pair_run_def new_pairing_def pair_events_def assms(1) List.map_filter_def)
next
  case (snoc x ops)
  let ?st = "store_run pe oe ops (store_start ob0)"
  obtain pr ob where st: "?st = (pr, ob)" by fastforce
  from snoc obtain trace where tr: "pr = pair_run pe trace (new_pairing (ob_pairings ob0))" "ob_pairings ob = pr_store pr"
      "onboarding_inv ob" "filter (\<lambda>e. \<forall>p. e \<noteq> Stored p) trace = pair_events ops"
      and old: "\<forall>p. Stored p \<in> set trace \<longrightarrow> (\<exists>pre op post. ops = pre @ ByToken op # post
          \<and> joins_by_token oe op (snd (store_run pe oe pre (store_start ob0))) p)"
    unfolding st by auto
  have run: "store_run pe oe (ops @ [x]) (store_start ob0) = store_step pe oe x (pr, ob)"
    using st by (simp add: store_run_def)
  have keep: "\<exists>pre op post. ops @ [x] = pre @ ByToken op # post
      \<and> joins_by_token oe op (snd (store_run pe oe pre (store_start ob0))) p" if "Stored p \<in> set trace" for p
    using old that by (metis append_Cons append_assoc)
  show ?case
  proof (cases x)
    case (Ceremony e)
    have e: "\<forall>p. e \<noteq> Stored p" using snoc.prems Ceremony by auto
    show ?thesis
      unfolding run using tr e keep
      by (intro exI [of _ "trace @ [e]"]) (auto simp: Ceremony Let_def pair_run_def pair_events_def List.map_filter_def onboarding_inv_def join_tokens_def)
  next
    case (ByToken op)
    have inv: "onboarding_inv (onboarding_step oe op ob)" using onboarding_step_ok [OF tr(3)] by blast
    from token_route_store [OF tr(3), of oe op] show ?thesis
    proof (elim disjE exE conjE)
      assume "ob_pairings (onboarding_step oe op ob) = ob_pairings ob"
      then show ?thesis
        unfolding run using tr inv keep
        by (intro exI [of _ trace]) (auto simp: ByToken Let_def pair_events_def List.map_filter_def)
    next
      fix p assume p: "ob_pairings (onboarding_step oe op ob) = addPeer p (ob_pairings ob)" "joins_by_token oe op ob p"
      have "\<exists>pre op' post. ops @ [x] = pre @ ByToken op' # post
          \<and> joins_by_token oe op' (snd (store_run pe oe pre (store_start ob0))) p"
        by (intro exI [of _ ops] exI [of _ op] exI [of _ "[]"]) (simp add: ByToken st p(2))
      then show ?thesis
        unfolding run using tr inv keep p(1)
        by (intro exI [of _ "trace @ [Stored p]"])
          (auto simp: ByToken Let_def pair_run_def pair_events_def List.map_filter_def)
    qed
  qed
qed

text \<open>C16. A peer gets into the pairing store in one of two ways only. After any sequence of requests to the pairing routes and
  to the token routes, which share the store, every stored peer was there at the beginning, or comes from a ceremony, or
  from a token. A ceremony is a confirmation that the key of a handshake decrypts, whose public key has the fingerprint it
  states; that key is derived from the SPAKE2 secret of an earlier request which carried the PIN of a session started here
  before. (The confirmation itself is accepted however long ago the handshake was: the route does not drop an expired
  session.) By a token, a peer is stored by a join that is complete, within its rate, and bears a token valid in the very
  state in which it is handled, exactly as the join describes it.\<close>

theorem pairing_needs_pin_or_token:
  assumes "onboarding_inv ob0" "\<forall>p. Ceremony (Stored p) \<notin> set ops"
    and "m_get (pr_store (fst (store_run pe oe ops (store_start ob0)))) agentId = Some p"
    and "m_get (ob_pairings ob0) agentId \<noteq> Some p"
  shows "(\<exists>pre mid post t pin seed now iv ip body message v secret t' saveOk rebuildOk e d.
      pair_events ops = pre @ Init now iv ip body # mid @ Confirm t' saveOk rebuildOk (Some e) # post
      \<and> Start t pin seed \<in> set pre \<and> ib_pin body = Some pin \<and> ib_spake body = Some message
      \<and> fst (pe_finish pe v (pe_from_base64 pe message)) = Some secret
      \<and> Option.bind (decryptWithKey pe (deriveKey (pe_sha256 pe) secret ''thinklocal-pairing-v1'') e) (pe_parse pe) = Some d
      \<and> pd_agent_id p = py_agent_id d \<and> pd_public_key p = py_public_key d \<and> pd_ca_cert p = py_ca_cert d
      \<and> pd_fingerprint p = pe_sha256hex pe (pd_public_key p))
    \<or> (\<exists>pre op post. ops = pre @ ByToken op # post
        \<and> joins_by_token oe op (snd (store_run pe oe pre (store_start ob0))) p)"
proof -
  obtain trace where tr: "fst (store_run pe oe ops (store_start ob0)) = pair_run pe trace (new_pairing (ob_pairings ob0))"
      "filter (\<lambda>e. \<forall>p. e \<noteq> Stored p) trace = pair_events ops"
      and joined: "Stored p \<in> set trace \<longrightarrow> (\<exists>pre op post. ops = pre @ ByToken op # post
          \<and> joins_by_token oe op (snd (store_run pe oe pre (store_start ob0))) p)"
    using store_run_trace [OF assms(1,2), of pe oe] by blast
  have "vouched pe (ob_pairings ob0) trace agentId p"
    using pair_run_inv [of pe "ob_pairings ob0" trace] assms(3) unfolding tr(1) by (simp add: pair_inv_def)
  then consider "Stored p \<in> set trace" | "ceremony pe trace p" using assms(4) by (auto simp: vouched_def)
  then show ?thesis
  proof cases
    case 2
    then have "ceremony pe (pair_events ops) p" unfolding tr(2) [symmetric] by (rule ceremony_filter) simp_all
    then show ?thesis by (rule ceremony_requests [THEN disjI1])
  qed (use joined in blast)
qed

text \<open>A ceremony, whose confirmation comes sixteen minutes after the handshake, and a join.\<close>

definition ex_store_ops :: "store_op list" where
  "ex_store_ops = map ByToken (take 2 ex_onboarding_ops) @ map Ceremony demo_ceremony"

theorem pairing_needs_pin_or_token_witness:
  "(\<exists>p. m_get (pr_store (fst (store_run demo_env ex_onboarding_env ex_store_ops (store_start ex_onboarding)))) ''node/b'' = Some p)
   \<and> (\<exists>pre mid post t pin seed now iv ip body. pair_events ex_store_ops = pre @ Init now iv ip body # mid @ post
        \<and> Start t pin seed \<in> set pre \<and> ib_pin body = Some pin)"
proof -
  let ?p = "\<lparr>pd_agent_id = ''node/b'', pd_public_key = ''K'', pd_ca_cert = ''CA'', pd_fingerprint = ''K'', pd_paired_at = 1000000,
    pd_hostname = ''b''\<rparr>"
  have p: "m_get (pr_store (fst (store_run demo_env ex_onboarding_env ex_store_ops (store_start ex_onboarding)))) ''node/b'' = Some ?p"
    by code_simp
  have "\<not> joins_by_token ex_onboarding_env op s ?p" for op s
    by (auto simp: joins_by_token_def joined_peer_def)
  moreover have "\<forall>q. Ceremony (Stored q) \<notin> set ex_store_ops"
    by (auto simp: ex_store_ops_def demo_ceremony_def demo_init_def)
  moreover have "m_get (ob_pairings ex_onboarding) ''node/b'' \<noteq> Some ?p" by (simp add: ex_onboarding_def)
  ultimately have "\<exists>pre mid post t pin seed now iv ip body t' a b e. pair_events ex_store_ops
        = pre @ Init now iv ip body # mid @ Confirm t' a b (Some e) # post
      \<and> Start t pin seed \<in> set pre \<and> ib_pin body = Some pin"
    using pairing_needs_pin_or_token [OF ex_onboarding_inv _ p] by blast
  then show ?thesis using p by blast
qed

end
