(* ===== verification/Cert_Issuance.thy ===== *)
theory Cert_Issuance
  imports Identity Rate_Limit Signed_Order
begin

unbundle bit_operations_syntax

text \<open>
  Certificates by proof of possession: the signed scope and its check (\<open>cert-pop.ts\<close>), the single-use nonces and the
  issuer (\<open>cert-issuer.ts\<close>), its two routes (\<open>cert-issuance-api.ts\<close>). Arguments (\<open>issuer_env\<close>): the Ed25519 keys and
  PeerIDs of libp2p, base64, the CSR parser and the X.509 builder of node-forge (\<open>None\<close> where a call throws), the hash of a
  public key, the fingerprint of a certificate. Random nonces are arguments of the operations.
\<close>

section \<open>The signed scope\<close>

text \<open>\<open>TextEncoder\<close> on characters below 256.\<close>

definition utf8_char :: "char \<Rightarrow> bytes" where
  "utf8_char c = (let n = of_char c :: nat in
     if n < 128 then [word_of_nat n] else [word_of_nat (192 + n div 64), word_of_nat (128 + n mod 64)])"

definition utf8 :: "string \<Rightarrow> bytes" where
  "utf8 s = concat (map utf8_char s)"

text \<open>\<open>DataView.setUint32\<close>, big-endian: the number modulo \<open>2 ^ 32\<close>.\<close>

definition u32_be :: "nat \<Rightarrow> bytes" where
  "u32_be n = (let w = word_of_nat n :: 32 word in
     [ucast (drop_bit 24 w), ucast (drop_bit 16 w), ucast (drop_bit 8 w), ucast w])"

definition CERT_POP_DOMAIN :: string where "CERT_POP_DOMAIN = ''thinklocal-mcp.cert-pop.v1''"

record cert_pop_fields =
  cf_ca_fingerprint :: string
  cf_nonce :: string
  cf_peer_id :: string
  cf_spiffe_uri :: string
  cf_csr_hash :: string

definition push_field :: "string \<Rightarrow> bytes" where
  "push_field s = u32_be (length (utf8 s)) @ utf8 s"

definition buildCertPopMessage :: "cert_pop_fields \<Rightarrow> bytes" where
  "buildCertPopMessage f = concat (map push_field
     [CERT_POP_DOMAIN, cf_ca_fingerprint f, cf_nonce f, cf_peer_id f, cf_spiffe_uri f, cf_csr_hash f])"

section \<open>Certificates and requests\<close>

datatype alt_name = AltUri string | AltDns string | AltIp string

record 'p csr =
  csr_verifies :: bool
  csr_public_key :: "'p option"
  csr_common_name :: "string option"

record 'p node_cert =
  nc_public_key :: 'p
  nc_common_name :: string
  nc_not_before :: time
  nc_not_after :: time
  nc_alt_names :: "alt_name list"

record ('k, 'p) issuer_env =
  iv_raw_key :: "bytes \<Rightarrow> (string \<times> 'k) option"
  iv_peer_id :: "'k \<Rightarrow> string"
  iv_verify :: "'k \<Rightarrow> bytes \<Rightarrow> bytes \<Rightarrow> bool option"
  iv_from_base64 :: "string \<Rightarrow> bytes"
  iv_csr :: "string \<Rightarrow> 'p csr option"
  iv_key_hash :: "'p \<Rightarrow> string"
  iv_sign :: "'p node_cert \<Rightarrow> string option"
  iv_after_days :: "nat \<Rightarrow> time \<Rightarrow> time"
  iv_ca_fingerprint :: string
  iv_limits :: "rate_config option"

datatype pop_error = WrongKeyType | PeerIdNotDerived | UriNotNode | ForeignCa | BadPopSignature | PopThrew

definition verifyCertPop ::
  "('k, 'p) issuer_env \<Rightarrow> bytes \<Rightarrow> cert_pop_fields \<Rightarrow> string \<Rightarrow> string \<Rightarrow> pop_error option" where
  "verifyCertPop env rawKey f signatureB64 expectedCaFingerprint =
     (case iv_raw_key env rawKey of
        None \<Rightarrow> Some PopThrew
      | Some (keyType, pubKey) \<Rightarrow>
          if keyType \<noteq> ''Ed25519'' then Some WrongKeyType
          else if iv_peer_id env pubKey \<noteq> cf_peer_id f then Some PeerIdNotDerived
          else if cf_spiffe_uri f \<noteq> NODE_URI_PREFIX @ iv_peer_id env pubKey then Some UriNotNode
          else if normalizeFingerprint (cf_ca_fingerprint f) \<noteq> normalizeFingerprint expectedCaFingerprint then Some ForeignCa
          else (case iv_verify env pubKey (buildCertPopMessage f) (iv_from_base64 env signatureB64) of
                  None \<Rightarrow> Some PopThrew
                | Some valid \<Rightarrow> if valid then None else Some BadPopSignature))"

text \<open>\<open>HOSTNAME_RE\<close>, by its labels.\<close>

definition host_label :: "string \<Rightarrow> bool" where
  "host_label l \<longleftrightarrow> l \<noteq> [] \<and> alnum (hd l) \<and> alnum (List.last l) \<and> list_all (\<lambda>c. alnum c \<or> c = CHR ''-'') l \<and> length l \<le> 63"

definition HOSTNAME_RE :: "string \<Rightarrow> bool" where
  "HOSTNAME_RE h \<longleftrightarrow> h \<noteq> [] \<and> length h \<le> 253 \<and> list_all host_label (js_split CHR ''.'' h)"

definition NODE_CERT_VALIDITY_DAYS :: nat where "NODE_CERT_VALIDITY_DAYS = 90"

definition san_names :: "string \<Rightarrow> string option \<Rightarrow> string list \<Rightarrow> alt_name list" where
  "san_names spiffeUri csrCn ipAddresses =
     [AltUri spiffeUri, AltDns ''localhost'', AltIp ''127.0.0.1'', AltIp ''::1'']
     @ (case truthy csrCn of None \<Rightarrow> []
        | Some cn \<Rightarrow> if cn \<noteq> spiffeUri \<and> cn \<noteq> ''localhost'' \<and> HOSTNAME_RE cn then [AltDns cn] else [])
     @ map AltIp ipAddresses"

text \<open>\<open>None\<close>: the function throws. Adding days to a date is the local calendar's (\<open>setDate\<close>).\<close>

definition signNodeCertFromCsr ::
  "('k, 'p) issuer_env \<Rightarrow> time \<Rightarrow> string \<Rightarrow> string \<Rightarrow> string list \<Rightarrow> string option" where
  "signNodeCertFromCsr env now csrPem spiffeUri ipAddresses =
     (case iv_csr env csrPem of
        None \<Rightarrow> None
      | Some c \<Rightarrow>
          if \<not> csr_verifies c then None
          else (case csr_public_key c of
             None \<Rightarrow> None
           | Some key \<Rightarrow>
               iv_sign env \<lparr>nc_public_key = key, nc_common_name = spiffeUri, nc_not_before = now,
                 nc_not_after = iv_after_days env NODE_CERT_VALIDITY_DAYS now, nc_alt_names = san_names spiffeUri (csr_common_name c) ipAddresses\<rparr>))"

section \<open>Nonces\<close>

record nonce_store =
  ns_ttl :: time
  ns_max :: nat
  ns_nonces :: "(string, time) jsmap"

definition new_NonceStore :: "time option \<Rightarrow> nat option \<Rightarrow> nonce_store" where
  "new_NonceStore ttl maxEntries = \<lparr>ns_ttl = default_to 120000 ttl, ns_max = default_to 4096 maxEntries, ns_nonces = []\<rparr>"

definition gc_nonces :: "time \<Rightarrow> nonce_store \<Rightarrow> nonce_store" where
  "gc_nonces now ns = ns\<lparr>ns_nonces := m_filter (\<lambda>_ expiresAt. \<not> expiresAt < now) (ns_nonces ns)\<rparr>"

definition issue_nonce :: "time \<Rightarrow> string \<Rightarrow> nonce_store \<Rightarrow> string option \<times> nonce_store" where
  "issue_nonce now random ns0 =
     (let ns = gc_nonces now ns0 in
      if ns_max ns \<le> length (ns_nonces ns) then (None, ns)
      else (Some random, ns\<lparr>ns_nonces := m_set random (now + ns_ttl ns) (ns_nonces ns)\<rparr>))"

definition consume_nonce :: "time \<Rightarrow> string \<Rightarrow> nonce_store \<Rightarrow> bool \<times> nonce_store" where
  "consume_nonce now nonce ns =
     (case m_get (ns_nonces ns) nonce of
        None \<Rightarrow> (False, ns)
      | Some expiresAt \<Rightarrow> (now \<le> expiresAt, ns\<lparr>ns_nonces := m_del nonce (ns_nonces ns)\<rparr>))"

section \<open>Issuing\<close>

record cert_sign_request =
  cq_peer_id :: string
  cq_key_b64 :: string
  cq_spiffe_uri :: string
  cq_nonce :: string
  cq_csr_pem :: string
  cq_signature_b64 :: string

datatype issue_error = NonceInvalid | CsrInvalid | CsrUnparsable | KeyNot32Bytes | PopRejected pop_error | SigningFailed

definition verifyAndIssue ::
  "('k, 'p) issuer_env \<Rightarrow> time \<Rightarrow> cert_sign_request \<Rightarrow> string list \<Rightarrow> nonce_store \<Rightarrow> (issue_error + string) \<times> nonce_store" where
  "verifyAndIssue env now rq ipAddresses ns0 =
     (case consume_nonce now (cq_nonce rq) ns0 of
        (False, ns) \<Rightarrow> (Inl NonceInvalid, ns)
      | (True, ns) \<Rightarrow>
          (case iv_csr env (cq_csr_pem rq) of
             None \<Rightarrow> (Inl CsrUnparsable, ns)
           | Some c \<Rightarrow>
               (case (csr_verifies c, csr_public_key c) of
                  (True, Some csrKey) \<Rightarrow>
                    let raw_key = iv_from_base64 env (cq_key_b64 rq);
                        f = \<lparr>cf_ca_fingerprint = iv_ca_fingerprint env, cf_nonce = cq_nonce rq, cf_peer_id = cq_peer_id rq,
                             cf_spiffe_uri = cq_spiffe_uri rq, cf_csr_hash = iv_key_hash env csrKey\<rparr> in
                    if length raw_key \<noteq> 32 then (Inl KeyNot32Bytes, ns)
                    else (case verifyCertPop env raw_key f (cq_signature_b64 rq) (iv_ca_fingerprint env) of
                       Some e \<Rightarrow> (Inl (PopRejected e), ns)
                     | None \<Rightarrow>
                         (case signNodeCertFromCsr env now (cq_csr_pem rq) (cq_spiffe_uri rq) ipAddresses of
                            None \<Rightarrow> (Inl SigningFailed, ns)
                          | Some certPem \<Rightarrow> (Inr certPem, ns)))
                | _ \<Rightarrow> (Inl CsrInvalid, ns))))"

section \<open>Which CAs attest\<close>

datatype pin_source = FromEnv | Derived | Disabled | NoCa

function count_matches :: "string \<Rightarrow> string \<Rightarrow> nat" where
  "count_matches pat s =
     (if s = [] \<or> pat = [] then 0
      else if prefix pat s then Suc (count_matches pat (drop (length pat) s)) else count_matches pat (tl s))"
  by pat_completeness auto
termination by (relation "measure (\<lambda>(_, s). length s)") auto

declare count_matches.simps [simp del]

definition resolveAttestingCaFingerprints ::
  "(string \<Rightarrow> string option) \<Rightarrow> string option \<Rightarrow> string option \<Rightarrow> string list \<times> pin_source" where
  "resolveAttestingCaFingerprints certFingerprint envValue caCertPem =
     (let env = js_trim (default_to [] envValue) in
      if js_lower env = ''none'' then ([], Disabled)
      else if env \<noteq> [] then (filter (\<lambda>s. s \<noteq> []) (map js_trim (js_split CHR '','' env)), FromEnv)
      else case truthy caCertPem of
        None \<Rightarrow> ([], NoCa)
      | Some ca \<Rightarrow>
          if count_matches ''-----BEGIN CERTIFICATE-----'' ca \<noteq> 1 then ([], NoCa)
          else case certFingerprint ca of None \<Rightarrow> ([], NoCa) | Some fp \<Rightarrow> ([fp], Derived))"

section \<open>The routes\<close>

record cert_api =
  ca_nonces :: nonce_store
  ca_limiter :: rate_limiter

datatype cert_api_error = MtlsRequired | CertRateLimited | NoncesExhausted | FieldsRequired | IssuanceRejected issue_error

definition cert_gate :: "('k, 'p) issuer_env \<Rightarrow> time \<Rightarrow> string \<Rightarrow> bool \<Rightarrow> cert_api \<Rightarrow> cert_api_error option \<times> cert_api" where
  "cert_gate env now ip authorized s =
     (if \<not> authorized then (Some MtlsRequired, s)
      else case iv_limits env of
        None \<Rightarrow> (None, s)
      | Some cfg \<Rightarrow> (case Rate_Limit.allow cfg now ip (ca_limiter s) of
                      (ok, rl) \<Rightarrow> (if ok then None else Some CertRateLimited, s\<lparr>ca_limiter := rl\<rparr>)))"

definition handle_nonce ::
  "('k, 'p) issuer_env \<Rightarrow> time \<Rightarrow> string \<Rightarrow> bool \<Rightarrow> string \<Rightarrow> cert_api \<Rightarrow> (cert_api_error + string \<times> string) \<times> cert_api" where
  "handle_nonce env now ip authorized random s0 =
     (case cert_gate env now ip authorized s0 of
        (Some e, s) \<Rightarrow> (Inl e, s)
      | (None, s) \<Rightarrow>
          (case issue_nonce now random (ca_nonces s) of
             (None, ns) \<Rightarrow> (Inl NoncesExhausted, s\<lparr>ca_nonces := ns\<rparr>)
           | (Some nonce, ns) \<Rightarrow> (Inr (nonce, iv_ca_fingerprint env), s\<lparr>ca_nonces := ns\<rparr>)))"

definition requester_ips :: "string \<Rightarrow> string list" where
  "requester_ips ip = filter (\<lambda>i. i \<noteq> [] \<and> i \<noteq> ''127.0.0.1'' \<and> i \<noteq> ''::1'' \<and> i \<noteq> ''::ffff:127.0.0.1'') [ip]"

definition handle_sign ::
  "('k, 'p) issuer_env \<Rightarrow> time \<Rightarrow> string \<Rightarrow> bool \<Rightarrow> cert_sign_request option \<Rightarrow> cert_api \<Rightarrow> (cert_api_error + string) \<times> cert_api" where
  "handle_sign env now ip authorized body s0 =
     (case cert_gate env now ip authorized s0 of
        (Some e, s) \<Rightarrow> (Inl e, s)
      | (None, s) \<Rightarrow>
          (case body of
             None \<Rightarrow> (Inl FieldsRequired, s)
           | Some rq \<Rightarrow>
               (case verifyAndIssue env now rq (requester_ips ip) (ca_nonces s) of
                  (Inl e, ns) \<Rightarrow> (Inl (IssuanceRejected e), s\<lparr>ca_nonces := ns\<rparr>)
                | (Inr certPem, ns) \<Rightarrow> (Inr certPem, s\<lparr>ca_nonces := ns\<rparr>))))"

section \<open>The scope is unambiguous\<close>

lemma of_char_less: "(of_char c :: nat) < 256"
proof -
  have "(of_char c :: nat) mod 256 < 256" by simp
  then show ?thesis by simp
qed

fun utf8_read :: "bytes \<Rightarrow> string" where
  "utf8_read [] = []"
| "utf8_read (b # bs) =
     (if unat b < 128 then char_of (unat b) # utf8_read bs
      else case bs of [] \<Rightarrow> [] | d # ds \<Rightarrow> char_of ((unat b - 192) * 64 + (unat d - 128)) # utf8_read ds)"

lemma utf8_read_char: "utf8_read (utf8_char c @ bs) = c # utf8_read bs"
proof -
  let ?n = "of_char c :: nat"
  have n: "?n < 256" by (rule of_char_less)
  show ?thesis
  proof (cases "?n < 128")
    case True
    then have "unat (word_of_nat ?n :: 8 word) = ?n" by (simp add: unat_of_nat)
    with True show ?thesis by (simp add: utf8_char_def Let_def)
  next
    case False
    have a: "unat (word_of_nat (192 + ?n div 64) :: 8 word) = 192 + ?n div 64"
    proof -
      have "?n div 64 < 4" using less_mult_imp_div_less [of ?n 4 64] n by simp
      then show ?thesis by (simp only: unat_of_nat) simp
    qed
    have b: "unat (word_of_nat (128 + ?n mod 64) :: 8 word) = 128 + ?n mod 64"
    proof -
      have "?n mod 64 < 64" by simp
      then show ?thesis by (simp only: unat_of_nat) simp
    qed
    have "(192 + ?n div 64 - 192) * 64 + (128 + ?n mod 64 - 128) = ?n" by simp
    then show ?thesis using False a b by (simp add: utf8_char_def Let_def del: of_nat_add)
  qed
qed

lemma utf8_round_trip: "utf8_read (utf8 s) = s"
  by (induction s) (simp_all add: utf8_def utf8_read_char)

lemma utf8_inj: "utf8 s = utf8 t \<Longrightarrow> s = t"
  by (metis utf8_round_trip)

lemma u32_be_inj:
  assumes "u32_be m = u32_be n" "m < 2 ^ 32" "n < 2 ^ 32" shows "m = n"
proof -
  let ?v = "word_of_nat m :: 32 word" and ?w = "word_of_nat n :: 32 word"
  have parts: "ucast (drop_bit 24 ?v) = (ucast (drop_bit 24 ?w) :: 8 word)" "ucast (drop_bit 16 ?v) = (ucast (drop_bit 16 ?w) :: 8 word)"
    "ucast (drop_bit 8 ?v) = (ucast (drop_bit 8 ?w) :: 8 word)" "ucast ?v = (ucast ?w :: 8 word)"
    using assms(1) by (simp_all add: u32_be_def Let_def)
  have "?v = ?w"
  proof (rule bit_word_eqI)
    fix i assume "i < LENGTH(32)"
    then have i: "i < 32" by simp
    have at: "bit ?v (k + j) = bit ?w (k + j)" if "ucast (drop_bit k ?v) = (ucast (drop_bit k ?w) :: 8 word)" "j < 8" for k j
    proof -
      have "bit (ucast (drop_bit k ?v) :: 8 word) j = bit (ucast (drop_bit k ?w) :: 8 word) j" using that(1) by simp
      then show ?thesis using that(2) by (simp add: bit_ucast_iff bit_drop_bit_eq)
    qed
    consider "i < 8" | "8 \<le> i" "i < 16" | "16 \<le> i" "i < 24" | "24 \<le> i" using i by linarith
    then show "bit ?v i = bit ?w i"
    proof cases
      case 1
      then show ?thesis using at [of 0 i] parts(4) by simp
    next
      case 2
      then show ?thesis using at [of 8 "i - 8"] parts(3) by simp
    next
      case 3
      then show ?thesis using at [of 16 "i - 16"] parts(2) by simp
    next
      case 4
      then show ?thesis using at [of 24 "i - 24"] parts(1) i by simp
    qed
  qed
  then have "unat ?v = unat ?w" by simp
  then show ?thesis using assms(2,3) by (simp add: unat_of_nat)
qed

definition short_field :: "string \<Rightarrow> bool" where
  "short_field s \<longleftrightarrow> length (utf8 s) < 2 ^ 32"

lemma push_field_append_inj:
  assumes "push_field s @ xs = push_field t @ ys" "short_field s" "short_field t"
  shows "s = t \<and> xs = ys"
proof -
  have len: "length (u32_be n) = 4" for n by (simp add: u32_be_def Let_def)
  have "u32_be (length (utf8 s)) = u32_be (length (utf8 t))" "utf8 s @ xs = utf8 t @ ys"
    using assms(1) by (simp_all add: push_field_def append_eq_append_conv len)
  then have "length (utf8 s) = length (utf8 t)" using u32_be_inj assms(2,3) by (simp add: short_field_def)
  with \<open>utf8 s @ xs = utf8 t @ ys\<close> show ?thesis using utf8_inj by simp
qed

definition short_fields :: "cert_pop_fields \<Rightarrow> bool" where
  "short_fields f \<longleftrightarrow> short_field (cf_ca_fingerprint f) \<and> short_field (cf_nonce f) \<and> short_field (cf_peer_id f)
     \<and> short_field (cf_spiffe_uri f) \<and> short_field (cf_csr_hash f)"

lemma scope_inj:
  assumes "buildCertPopMessage f = buildCertPopMessage g" "short_fields f" "short_fields g" shows "f = g"
proof -
  have short: "short_field CERT_POP_DOMAIN" by (simp add: short_field_def CERT_POP_DOMAIN_def utf8_def utf8_char_def Let_def)
  have "push_field CERT_POP_DOMAIN @ push_field (cf_ca_fingerprint f) @ push_field (cf_nonce f) @ push_field (cf_peer_id f)
      @ push_field (cf_spiffe_uri f) @ push_field (cf_csr_hash f) @ []
    = push_field CERT_POP_DOMAIN @ push_field (cf_ca_fingerprint g) @ push_field (cf_nonce g) @ push_field (cf_peer_id g)
      @ push_field (cf_spiffe_uri g) @ push_field (cf_csr_hash g) @ []"
    using assms(1) by (simp add: buildCertPopMessage_def)
  then have "cf_ca_fingerprint f = cf_ca_fingerprint g" "cf_nonce f = cf_nonce g" "cf_peer_id f = cf_peer_id g"
    "cf_spiffe_uri f = cf_spiffe_uri g" "cf_csr_hash f = cf_csr_hash g"
    using push_field_append_inj short assms(2,3) unfolding short_fields_def by metis+
  then show ?thesis by simp
qed

text \<open>C32. The bytes a proof of possession signs determine every field of its scope: no two different scopes (with fields
  below 4 GiB) have the same bytes, wherever the borders between their fields lie; and the text encoding can be read back.\<close>

theorem pop_scope_unambiguous:
  assumes "short_fields f" "short_fields g"
  shows "(buildCertPopMessage f = buildCertPopMessage g \<longleftrightarrow> f = g) \<and> utf8_read (utf8 s) = s"
  using scope_inj [OF _ assms] utf8_round_trip by blast

definition ex_fields :: "string \<Rightarrow> string \<Rightarrow> cert_pop_fields" where
  "ex_fields n p = \<lparr>cf_ca_fingerprint = ''fp'', cf_nonce = n, cf_peer_id = p, cf_spiffe_uri = ''u'', cf_csr_hash = ''h''\<rparr>"

theorem pop_scope_unambiguous_witness:
  "buildCertPopMessage (ex_fields ''ab'' ''c'') \<noteq> buildCertPopMessage (ex_fields ''a'' ''bc'')"
  using pop_scope_unambiguous [of "ex_fields ''ab'' ''c''" "ex_fields ''a'' ''bc''" "[]"]
  by (simp add: short_fields_def short_field_def ex_fields_def utf8_def utf8_char_def Let_def)

section \<open>What an issued certificate says\<close>

lemma verifyCertPop_None:
  "verifyCertPop env k f sig fp = None \<longleftrightarrow>
     (\<exists>key. iv_raw_key env k = Some (''Ed25519'', key) \<and> iv_peer_id env key = cf_peer_id f
        \<and> cf_spiffe_uri f = NODE_URI_PREFIX @ cf_peer_id f
        \<and> normalizeFingerprint (cf_ca_fingerprint f) = normalizeFingerprint fp
        \<and> iv_verify env key (buildCertPopMessage f) (iv_from_base64 env sig) = Some True)"
  by (auto simp: verifyCertPop_def split: option.splits if_splits)

definition scope_of :: "('k, 'p) issuer_env \<Rightarrow> cert_sign_request \<Rightarrow> 'p \<Rightarrow> cert_pop_fields" where
  "scope_of env rq csrKey = \<lparr>cf_ca_fingerprint = iv_ca_fingerprint env, cf_nonce = cq_nonce rq, cf_peer_id = cq_peer_id rq,
     cf_spiffe_uri = cq_spiffe_uri rq, cf_csr_hash = iv_key_hash env csrKey\<rparr>"

definition issues :: "('k, 'p) issuer_env \<Rightarrow> time \<Rightarrow> cert_sign_request \<Rightarrow> string list \<Rightarrow> string \<Rightarrow> bool" where
  "issues env now rq ips pem \<longleftrightarrow>
     (\<exists>c csrKey key. iv_csr env (cq_csr_pem rq) = Some c \<and> csr_verifies c \<and> csr_public_key c = Some csrKey
        \<and> length (iv_from_base64 env (cq_key_b64 rq)) = 32
        \<and> iv_raw_key env (iv_from_base64 env (cq_key_b64 rq)) = Some (''Ed25519'', key)
        \<and> iv_peer_id env key = cq_peer_id rq \<and> cq_spiffe_uri rq = NODE_URI_PREFIX @ cq_peer_id rq
        \<and> iv_verify env key (buildCertPopMessage (scope_of env rq csrKey)) (iv_from_base64 env (cq_signature_b64 rq)) = Some True
        \<and> iv_sign env \<lparr>nc_public_key = csrKey, nc_common_name = cq_spiffe_uri rq, nc_not_before = now,
             nc_not_after = iv_after_days env NODE_CERT_VALIDITY_DAYS now,
             nc_alt_names = san_names (cq_spiffe_uri rq) (csr_common_name c) ips\<rparr> = Some pem)"

lemma verifyAndIssue_iff:
  "fst (verifyAndIssue env now rq ips ns) = Inr pem \<longleftrightarrow> fst (consume_nonce now (cq_nonce rq) ns) \<and> issues env now rq ips pem"
proof -
  obtain ok ns' where c: "consume_nonce now (cq_nonce rq) ns = (ok, ns')" by fastforce
  show ?thesis
  proof (cases "ok \<and> (\<exists>c k. iv_csr env (cq_csr_pem rq) = Some c \<and> csr_verifies c \<and> csr_public_key c = Some k)")
    case False
    then show ?thesis
      by (cases ok) (auto simp: verifyAndIssue_def c issues_def split: option.splits bool.splits)
  next
    case True
    then obtain d k where d: "iv_csr env (cq_csr_pem rq) = Some d" "csr_verifies d" "csr_public_key d = Some k" by blast
    let ?p = "verifyCertPop env (iv_from_base64 env (cq_key_b64 rq)) (scope_of env rq k) (cq_signature_b64 rq) (iv_ca_fingerprint env)"
    let ?sign = "iv_sign env \<lparr>nc_public_key = k, nc_common_name = cq_spiffe_uri rq, nc_not_before = now,
             nc_not_after = iv_after_days env NODE_CERT_VALIDITY_DAYS now, nc_alt_names = san_names (cq_spiffe_uri rq) (csr_common_name d) ips\<rparr>"
    have "fst (verifyAndIssue env now rq ips ns) = Inr pem \<longleftrightarrow>
        length (iv_from_base64 env (cq_key_b64 rq)) = 32 \<and> ?p = None \<and> ?sign = Some pem"
      using True d by (auto simp: verifyAndIssue_def c scope_of_def signNodeCertFromCsr_def Let_def split: option.splits if_splits)
    then show ?thesis
      using True d unfolding issues_def by (auto simp: c verifyCertPop_None scope_of_def)
  qed
qed

lemma verifyAndIssue_nonces: "snd (verifyAndIssue env now rq ips ns) = snd (consume_nonce now (cq_nonce rq) ns)"
  by (auto simp: verifyAndIssue_def Let_def split: prod.split bool.split option.split)

lemma cert_gate_nonces [simp]: "ca_nonces (snd (cert_gate env now ip auth s)) = ca_nonces s"
  by (simp add: cert_gate_def split: option.split prod.split)

lemma handle_sign_iff:
  "fst (handle_sign env now ip auth body s) = Inr pem \<longleftrightarrow>
     fst (cert_gate env now ip auth s) = None
     \<and> (\<exists>rq. body = Some rq \<and> fst (consume_nonce now (cq_nonce rq) (ca_nonces s)) \<and> issues env now rq (requester_ips ip) pem)"
proof -
  obtain e s1 where g: "cert_gate env now ip auth s = (e, s1)" by fastforce
  then have n: "ca_nonces s1 = ca_nonces s" using cert_gate_nonces [of env now ip auth s] by simp
  have "fst (handle_sign env now ip auth body s) = Inr pem \<longleftrightarrow>
      e = None \<and> (\<exists>rq. body = Some rq \<and> fst (verifyAndIssue env now rq (requester_ips ip) (ca_nonces s)) = Inr pem)"
    by (auto simp: handle_sign_def g n split: option.split prod.split sum.splits)
  then show ?thesis by (simp add: g verifyAndIssue_iff)
qed

lemma handle_sign_nonces:
  "ca_nonces (snd (handle_sign env now ip auth body s)) =
     (case body of Some rq \<Rightarrow> if fst (cert_gate env now ip auth s) = None then snd (consume_nonce now (cq_nonce rq) (ca_nonces s))
                              else ca_nonces s
      | None \<Rightarrow> ca_nonces s)"
proof -
  obtain e s1 where g: "cert_gate env now ip auth s = (e, s1)" by fastforce
  then have n: "ca_nonces s1 = ca_nonces s" using cert_gate_nonces [of env now ip auth s] by simp
  show ?thesis
    using verifyAndIssue_nonces [of env now _ "requester_ips ip" "ca_nonces s"]
    by (auto simp: handle_sign_def g n split: option.split prod.split sum.split) (metis snd_conv)+
qed

lemma node_uri_peer: "p \<noteq> [] \<Longrightarrow> list_all alnum p \<Longrightarrow> spiffeUriToPeerId (NODE_URI_PREFIX @ p) = Some p"
  by (simp add: spiffeUriToPeerId_def)

text \<open>C33. The sign route answers with a certificate exactly when the connection is a mutual TLS one within its rate and the
  request carries an outstanding, unexpired nonce, a CSR that verifies, and a signature of the Ed25519 key from which the
  PeerID derives over the scope of this CA, this nonce, this PeerID, its node URI and this CSR's key; the nonce is spent
  even when the request is refused. The certificate is for the CSR's key, its only URI is the node URI of that PeerID, its
  addresses are loopback and the requester's, and it ends 90 days of the local calendar from now. Its DNS names are
  localhost and the common name of the CSR where that is a hostname: the applicant chooses it, and nothing checks that it
  is its own. Any node that pins the issuing CA reads exactly that PeerID from the certificate.\<close>

theorem cert_issuance_sound:
  shows "(fst (handle_sign env now ip auth body s) = Inr pem \<longleftrightarrow>
        fst (cert_gate env now ip auth s) = None
        \<and> (\<exists>rq. body = Some rq \<and> fst (consume_nonce now (cq_nonce rq) (ca_nonces s)) \<and> issues env now rq (requester_ips ip) pem))
    \<and> (issues env now rq (requester_ips ip) pem \<longrightarrow>
        (\<exists>cert c. iv_sign env cert = Some pem \<and> iv_csr env (cq_csr_pem rq) = Some c \<and> csr_public_key c = Some (nc_public_key cert)
           \<and> {u. AltUri u \<in> set (nc_alt_names cert)} = {NODE_URI_PREFIX @ cq_peer_id rq}
           \<and> {d. AltDns d \<in> set (nc_alt_names cert)} = insert ''localhost''
               {cn. csr_common_name c = Some cn \<and> HOSTNAME_RE cn \<and> cn \<noteq> NODE_URI_PREFIX @ cq_peer_id rq}
           \<and> {i. AltIp i \<in> set (nc_alt_names cert)} = {''127.0.0.1'', ''::1''} \<union> set (requester_ips ip)
           \<and> nc_not_after cert = iv_after_days env NODE_CERT_VALIDITY_DAYS now))
    \<and> (body = Some rq \<longrightarrow> fst (cert_gate env now ip auth s) = None \<longrightarrow>
        m_get (ns_nonces (ca_nonces (snd (handle_sign env now ip auth body s)))) (cq_nonce rq) = None)
    \<and> (cq_peer_id rq \<noteq> [] \<longrightarrow> list_all alnum (cq_peer_id rq) \<longrightarrow> normalizeFingerprint fp \<in> set (map normalizeFingerprint pins) \<longrightarrow>
        fp \<noteq> [] \<longrightarrow> attestedPeerIdFromCert [NODE_URI_PREFIX @ cq_peer_id rq] (Some fp) pins = Some (cq_peer_id rq))"
proof (intro conjI impI)
  assume "issues env now rq (requester_ips ip) pem"
  then obtain c csrKey where c: "iv_csr env (cq_csr_pem rq) = Some c" "csr_public_key c = Some csrKey"
    "cq_spiffe_uri rq = NODE_URI_PREFIX @ cq_peer_id rq"
    "iv_sign env \<lparr>nc_public_key = csrKey, nc_common_name = cq_spiffe_uri rq, nc_not_before = now,
             nc_not_after = iv_after_days env NODE_CERT_VALIDITY_DAYS now,
             nc_alt_names = san_names (cq_spiffe_uri rq) (csr_common_name c) (requester_ips ip)\<rparr> = Some pem"
    unfolding issues_def by blast
  show "\<exists>cert c. iv_sign env cert = Some pem \<and> iv_csr env (cq_csr_pem rq) = Some c \<and> csr_public_key c = Some (nc_public_key cert)
           \<and> {u. AltUri u \<in> set (nc_alt_names cert)} = {NODE_URI_PREFIX @ cq_peer_id rq}
           \<and> {d. AltDns d \<in> set (nc_alt_names cert)} = insert ''localhost''
               {cn. csr_common_name c = Some cn \<and> HOSTNAME_RE cn \<and> cn \<noteq> NODE_URI_PREFIX @ cq_peer_id rq}
           \<and> {i. AltIp i \<in> set (nc_alt_names cert)} = {''127.0.0.1'', ''::1''} \<union> set (requester_ips ip)
           \<and> nc_not_after cert = iv_after_days env NODE_CERT_VALIDITY_DAYS now"
  proof -
    have truthy_none: "truthy x = None \<longleftrightarrow> x = None \<or> x = Some []" for x :: "string option"
      by (auto simp: truthy_def split: option.split list.split)
    have truthy_sym: "Some x = truthy v \<longleftrightarrow> v = Some x \<and> x \<noteq> []" for x and v :: "string option"
      by (auto simp: truthy_def split: option.split list.split)
    have named: "\<not> HOSTNAME_RE []" by (simp add: HOSTNAME_RE_def)
    show ?thesis
      by (rule exI, rule exI [of _ c], rule conjI, rule c(4))
        (auto simp: c(1-3) san_names_def truthy_eq_Some truthy_none truthy_sym named split: option.splits if_splits)
  qed
next
  assume "body = Some rq" "fst (cert_gate env now ip auth s) = None"
  then show "m_get (ns_nonces (ca_nonces (snd (handle_sign env now ip auth body s)))) (cq_nonce rq) = None"
    by (simp add: handle_sign_nonces consume_nonce_def split: option.split)
next
  assume p: "cq_peer_id rq \<noteq> []" "list_all alnum (cq_peer_id rq)"
    and f: "normalizeFingerprint fp \<in> set (map normalizeFingerprint pins)" "fp \<noteq> []"
  have "isAttestingIssuer (Some fp) pins" using f by (cases pins) (auto simp: isAttestingIssuer_def Let_def list_ex_iff)
  then show "attestedPeerIdFromCert [NODE_URI_PREFIX @ cq_peer_id rq] (Some fp) pins = Some (cq_peer_id rq)"
    using p by (simp add: attestedPeerIdFromCert_def peerIdFromCertSan_Some node_uri_peer)
qed (rule handle_sign_iff)

definition ex_issuer :: "(unit, unit) issuer_env" where
  "ex_issuer = \<lparr>iv_raw_key = \<lambda>_. Some (''Ed25519'', ()), iv_peer_id = \<lambda>_. ''P1'', iv_verify = \<lambda>_ _ _. Some True,
     iv_from_base64 = \<lambda>_. replicate 32 0, iv_csr = \<lambda>_. Some \<lparr>csr_verifies = True, csr_public_key = Some (), csr_common_name = Some ''h''\<rparr>,
     iv_key_hash = \<lambda>_. ''kh'', iv_sign = \<lambda>_. Some ''pem'', iv_after_days = \<lambda>days t. t + int days * 86400000, iv_ca_fingerprint = ''AA:BB'', iv_limits = None\<rparr>"

definition ex_cert_api :: cert_api where
  "ex_cert_api = \<lparr>ca_nonces = \<lparr>ns_ttl = 100, ns_max = 2, ns_nonces = [(''n'', 50)]\<rparr>, ca_limiter = []\<rparr>"

definition ex_sign_request :: cert_sign_request where
  "ex_sign_request = \<lparr>cq_peer_id = ''P1'', cq_key_b64 = [], cq_spiffe_uri = NODE_URI_PREFIX @ ''P1'', cq_nonce = ''n'',
     cq_csr_pem = [], cq_signature_b64 = []\<rparr>"

lemma ex_issues: "issues ex_issuer 7 ex_sign_request ips ''pem''"
  by (simp add: issues_def ex_issuer_def ex_sign_request_def)

theorem cert_issuance_sound_witness:
  "fst (handle_sign ex_issuer 7 ''10.0.0.2'' True (Some ex_sign_request) ex_cert_api) = Inr ''pem''
   \<and> attestedPeerIdFromCert [NODE_URI_PREFIX @ ''P1''] (Some ''aabb'') [''AA:BB''] = Some ''P1''"
proof -
  have n: "cq_nonce ex_sign_request = ''n''" "cq_peer_id ex_sign_request = ''P1''" by (simp_all add: ex_sign_request_def)
  have gate: "fst (cert_gate ex_issuer 7 ''10.0.0.2'' True ex_cert_api) = None" by (simp add: cert_gate_def ex_issuer_def)
  have nonce: "fst (consume_nonce 7 ''n'' (ca_nonces ex_cert_api))" by (simp add: consume_nonce_def ex_cert_api_def)
  have al: "list_all alnum ''P1''" by code_simp
  have fp: "normalizeFingerprint ''aabb'' \<in> set (map normalizeFingerprint [''AA:BB''])" by code_simp
  note th = cert_issuance_sound [where env = ex_issuer and now = 7 and ip = "''10.0.0.2''" and auth = True and pem = "''pem''"
      and body = "Some ex_sign_request" and s = ex_cert_api and rq = ex_sign_request and fp = "''aabb''" and pins = "[''AA:BB'']"]
  show ?thesis using th gate nonce ex_issues n al fp by simp
qed

text \<open>So a node may have the name of another node put into its certificate: the applicant's key and PeerID are proved, the
  hostname is not.\<close>

lemma foreign_hostname_certified:
  assumes "iv_csr env csrPem = Some c" "csr_verifies c" "csr_public_key c = Some key" "csr_common_name c = Some other"
    and "HOSTNAME_RE other" "other \<noteq> uri" "other \<noteq> ''localhost''"
  shows "\<exists>cert. signNodeCertFromCsr env now csrPem uri ips = iv_sign env cert \<and> AltDns other \<in> set (nc_alt_names cert)"
proof -
  have "other \<noteq> []" using assms(5) by (simp add: HOSTNAME_RE_def)
  then have "AltDns other \<in> set (san_names uri (Some other) ips)" using assms(5-7) by (cases other) (simp_all add: san_names_def truthy_def)
  moreover have "signNodeCertFromCsr env now csrPem uri ips = iv_sign env \<lparr>nc_public_key = key, nc_common_name = uri, nc_not_before = now,
      nc_not_after = iv_after_days env NODE_CERT_VALIDITY_DAYS now, nc_alt_names = san_names uri (Some other) ips\<rparr>"
    using assms(1-4) by (simp add: signNodeCertFromCsr_def)
  ultimately show ?thesis by (metis node_cert.select_convs(5))
qed

section \<open>Each nonce buys at most one certificate\<close>

datatype cert_op = AskNonce time string bool string | AskSign time string bool "cert_sign_request option"

text \<open>A step also records the nonces for which a certificate was issued.\<close>

fun cert_step :: "('k, 'p) issuer_env \<Rightarrow> cert_op \<Rightarrow> cert_api \<times> string list \<Rightarrow> cert_api \<times> string list" where
  "cert_step env (AskNonce now ip auth random) (s, issued) = (snd (handle_nonce env now ip auth random s), issued)"
| "cert_step env (AskSign now ip auth body) (s, issued) =
     (snd (handle_sign env now ip auth body s),
      (case (fst (handle_sign env now ip auth body s), body) of (Inr _, Some rq) \<Rightarrow> issued @ [cq_nonce rq] | _ \<Rightarrow> issued))"

fun fresh_nonces :: "cert_op list \<Rightarrow> string list" where
  "fresh_nonces [] = []"
| "fresh_nonces (AskNonce _ _ _ random # ops) = random # fresh_nonces ops"
| "fresh_nonces (_ # ops) = fresh_nonces ops"

abbreviation outstanding :: "cert_api \<Rightarrow> string set" where
  "outstanding s \<equiv> set (m_keys (ns_nonces (ca_nonces s)))"

definition cert_inv :: "cert_api \<times> string list \<Rightarrow> bool" where
  "cert_inv st \<longleftrightarrow> (case st of (s, issued) \<Rightarrow> distinct issued \<and> m_inv (ns_nonces (ca_nonces s))
     \<and> outstanding s \<inter> set issued = {} \<and> length (ns_nonces (ca_nonces s)) \<le> ns_max (ca_nonces s))"

lemma nonce_step:
  "m_inv (ns_nonces (ca_nonces s)) \<Longrightarrow> length (ns_nonces (ca_nonces s)) \<le> ns_max (ca_nonces s) \<Longrightarrow>
   let s' = snd (handle_nonce env now ip auth random s) in
     m_inv (ns_nonces (ca_nonces s')) \<and> outstanding s' \<subseteq> insert random (outstanding s)
     \<and> length (ns_nonces (ca_nonces s')) \<le> ns_max (ca_nonces s') \<and> ns_max (ca_nonces s') = ns_max (ca_nonces s)"
proof -
  assume a: "m_inv (ns_nonces (ca_nonces s))" "length (ns_nonces (ca_nonces s)) \<le> ns_max (ca_nonces s)"
  obtain e s1 where g: "cert_gate env now ip auth s = (e, s1)" by fastforce
  then have n: "ca_nonces s1 = ca_nonces s" using cert_gate_nonces [of env now ip auth s] by simp
  have len: "length (ns_nonces (gc_nonces now (ca_nonces s))) \<le> ns_max (ca_nonces s)"
    using a(2) length_m_filter_le [of _ "ns_nonces (ca_nonces s)"] by (auto simp: gc_nonces_def intro: le_trans)
  have sub: "set (m_keys (ns_nonces (gc_nonces now (ca_nonces s)))) \<subseteq> outstanding s"
    by (auto simp: gc_nonces_def m_filter_def)
  show ?thesis
    using a len sub
    by (cases e) (auto simp: handle_nonce_def g n issue_nonce_def Let_def gc_nonces_def dom_update split: option.split)
qed

lemma set_m_del: "set (m_del k m) = {p \<in> set m. fst p \<noteq> k}"
  by (auto simp: AList.delete_eq)

lemma sign_step:
  assumes "m_inv (ns_nonces (ca_nonces s))"
  shows "let s' = snd (handle_sign env now ip auth body s) in
     m_inv (ns_nonces (ca_nonces s')) \<and> outstanding s' \<subseteq> outstanding s
     \<and> length (ns_nonces (ca_nonces s')) \<le> length (ns_nonces (ca_nonces s)) \<and> ns_max (ca_nonces s') = ns_max (ca_nonces s)
     \<and> (\<forall>rq pem. body = Some rq \<longrightarrow> fst (handle_sign env now ip auth body s) = Inr pem \<longrightarrow>
          cq_nonce rq \<in> outstanding s \<and> cq_nonce rq \<notin> outstanding s')"
proof -
  have keys: "fst (consume_nonce now n (ca_nonces s)) \<Longrightarrow> n \<in> outstanding s" for n
    by (auto simp: consume_nonce_def split: option.splits dest!: m_get_in_set intro: rev_image_eqI)
  show ?thesis
    using assms keys
    by (cases body) (auto simp: handle_sign_nonces handle_sign_iff Let_def consume_nonce_def set_m_del length_m_del_le split: option.splits
        dest: m_get_in_set)
qed

text \<open>C34. In every run of the two routes, whatever the clock does, a nonce buys at most one certificate: when the random
  nonces are pairwise different and new, the nonces for which certificates were issued are pairwise different and none of
  them is outstanding; and there are never more outstanding nonces than the limit.\<close>

theorem nonce_single_use:
  assumes "cert_inv (s, issued)" "distinct (fresh_nonces ops)"
    and "set (fresh_nonces ops) \<inter> (outstanding s \<union> set issued) = {}"
    and "fold (cert_step env) ops (s, issued) = (s', issued')"
  shows "distinct issued' \<and> outstanding s' \<inter> set issued' = {}
    \<and> length (ns_nonces (ca_nonces s')) \<le> ns_max (ca_nonces s) \<and> set issued' \<subseteq> set issued \<union> outstanding s \<union> set (fresh_nonces ops)"
proof -
  have "cert_inv (s', issued') \<and> ns_max (ca_nonces s') = ns_max (ca_nonces s)
      \<and> set issued' \<subseteq> set issued \<union> outstanding s \<union> set (fresh_nonces ops)"
    using assms
  proof (induction ops arbitrary: s issued)
    case (Cons op ops)
    obtain s1 i1 where st: "cert_step env op (s, issued) = (s1, i1)" by fastforce
    note run = Cons.prems(4) [unfolded fold_simps st]
    have inv: "m_inv (ns_nonces (ca_nonces s))" "length (ns_nonces (ca_nonces s)) \<le> ns_max (ca_nonces s)" "distinct issued"
      "outstanding s \<inter> set issued = {}" using Cons.prems(1) by (simp_all add: cert_inv_def)
    show ?case
    proof (cases op)
      case (AskNonce now ip auth random)
      have s1: "s1 = snd (handle_nonce env now ip auth random s)" "i1 = issued" using st AskNonce by simp_all
      note step = nonce_step [OF inv(1,2), of env now ip auth random, unfolded Let_def, folded s1(1)]
      have sub: "outstanding s1 \<subseteq> insert random (outstanding s)" using step by blast
      have r: "random \<notin> set issued" "distinct (fresh_nonces ops)" "random \<notin> set (fresh_nonces ops)"
        "set (fresh_nonces ops) \<inter> (outstanding s \<union> set issued) = {}" using Cons.prems(2,3) AskNonce by auto
      have "outstanding s1 \<inter> set issued = {}" using sub r(1) inv(4) by blast
      then have "cert_inv (s1, i1)" using inv step unfolding s1(2) cert_inv_def by simp
      moreover have "set (fresh_nonces ops) \<inter> (outstanding s1 \<union> set i1) = {}" using r sub unfolding s1(2) by blast
      ultimately have IH: "cert_inv (s', issued')" "ns_max (ca_nonces s') = ns_max (ca_nonces s1)"
        "set issued' \<subseteq> set i1 \<union> outstanding s1 \<union> set (fresh_nonces ops)" using Cons.IH [OF _ r(2) _ run] by simp_all
      have "set (fresh_nonces (op # ops)) = insert random (set (fresh_nonces ops))" using AskNonce by simp
      then have "set issued' \<subseteq> set issued \<union> outstanding s \<union> set (fresh_nonces (op # ops))" using IH(3) sub s1(2) by blast
      then show ?thesis using IH(1,2) step by simp
    next
      case (AskSign now ip auth body)
      have s1: "s1 = snd (handle_sign env now ip auth body s)" using st AskSign by simp
      note step = sign_step [OF inv(1), where env = env and now = now and ip = ip and auth = auth and body = body, unfolded Let_def, folded s1]
      have i1: "i1 = issued \<or> (\<exists>n. i1 = issued @ [n] \<and> n \<in> outstanding s \<and> n \<notin> outstanding s1)"
        using st AskSign step by (auto split: sum.splits option.splits)
      have sub: "outstanding s1 \<subseteq> outstanding s" using step by blast
      have "distinct i1 \<and> outstanding s1 \<inter> set i1 = {}" using i1
      proof (elim disjE exE conjE)
        fix n assume n: "i1 = issued @ [n]" "n \<in> outstanding s" "n \<notin> outstanding s1"
        then have "n \<notin> set issued" using inv(4) by blast
        moreover have "outstanding s1 \<inter> set issued = {}" using sub inv(4) by blast
        ultimately show ?thesis using n(1,3) inv(3) by simp
      qed (use sub inv in blast)
      moreover have "length (ns_nonces (ca_nonces s1)) \<le> ns_max (ca_nonces s1)" "m_inv (ns_nonces (ca_nonces s1))"
        using inv(2) step by linarith+
      ultimately have "cert_inv (s1, i1)" unfolding cert_inv_def by simp
      moreover have grow: "set i1 \<subseteq> set issued \<union> outstanding s" using i1
      proof (elim disjE exE conjE)
        fix n assume n: "i1 = issued @ [n]" "n \<in> outstanding s"
        show ?thesis unfolding n(1) set_append set_simps using n(2) by blast
      qed blast
      moreover have "set (fresh_nonces ops) \<inter> (outstanding s1 \<union> set i1) = {}"
      proof -
        have "set (fresh_nonces ops) \<inter> (outstanding s \<union> set issued) = {}" using Cons.prems(3) AskSign by simp
        then show ?thesis using grow sub by blast
      qed
      moreover have "distinct (fresh_nonces ops)" "fresh_nonces (op # ops) = fresh_nonces ops" using Cons.prems(2) AskSign by simp_all
      ultimately have IH: "cert_inv (s', issued')" "ns_max (ca_nonces s') = ns_max (ca_nonces s1)"
        "set issued' \<subseteq> set i1 \<union> outstanding s1 \<union> set (fresh_nonces ops)" using Cons.IH [OF _ _ _ run] by simp_all
      have "set issued' \<subseteq> set issued \<union> outstanding s \<union> set (fresh_nonces (op # ops))"
        using IH(3) sub \<open>set i1 \<subseteq> set issued \<union> outstanding s\<close> \<open>fresh_nonces (op # ops) = fresh_nonces ops\<close> by auto
      then show ?thesis using IH(1,2) step by simp
    qed
  qed (auto simp: cert_inv_def)
  then show ?thesis unfolding cert_inv_def by auto
qed

definition ex_cert_ops :: "cert_op list" where
  "ex_cert_ops = [AskSign 7 ''10.0.0.2'' True (Some ex_sign_request), AskNonce 8 ''10.0.0.3'' True ''m'',
     AskSign 9 ''10.0.0.2'' True (Some ex_sign_request)]"

theorem nonce_single_use_witness:
  "distinct (snd (fold (cert_step ex_issuer) ex_cert_ops (ex_cert_api, [])))
   \<and> outstanding (fst (fold (cert_step ex_issuer) ex_cert_ops (ex_cert_api, [])))
       \<inter> set (snd (fold (cert_step ex_issuer) ex_cert_ops (ex_cert_api, []))) = {}"
proof -
  obtain s' issued where f: "fold (cert_step ex_issuer) ex_cert_ops (ex_cert_api, []) = (s', issued)" by fastforce
  have "cert_inv (ex_cert_api, [])" by (simp add: cert_inv_def ex_cert_api_def m_inv_def)
  moreover have "distinct (fresh_nonces ex_cert_ops)" by (simp add: ex_cert_ops_def)
  moreover have "set (fresh_nonces ex_cert_ops) \<inter> (outstanding ex_cert_api \<union> set []) = {}"
    by (simp add: ex_cert_ops_def ex_cert_api_def)
  ultimately show ?thesis using nonce_single_use [OF _ _ _ f] unfolding f by simp
qed

end
