(* ===== verification/Execution_State.thy ===== *)
theory Execution_State
  imports Prelude
begin

text \<open>
  The lifecycle of distributed executions, \<open>packages/daemon/src/execution-state.ts\<close>, over the table
  \<open>execution_state\<close>. Execution ids come from \<open>randomUUID\<close> and are an argument; the step relation assumes
  a generated id is not in use, and \<open>create\<close> throws on a duplicate primary key.
\<close>

section \<open>Data\<close>

datatype exec_state = ExAccepted | ExRunning | ExCompleted | ExFailed | ExAborted
datatype exec_type = TaskRequest | SkillExecute | MessageReply

record exec_row =
  ex_id :: string
  ex_instance :: string
  ex_message_id :: "string option"
  ex_state :: exec_state
  ex_type :: "exec_type option"
  ex_started_at :: "time option"
  ex_completed_at :: "time option"
  ex_updated_at :: time
  ex_metadata :: "string option"

section \<open>Operations\<close>

definition create_execution ::
  "string \<Rightarrow> time \<Rightarrow> string \<Rightarrow> exec_type option \<Rightarrow> string option \<Rightarrow> exec_row list \<Rightarrow> string option \<times> exec_row list" where
  "create_execution uuid now instanceUuid executionType messageId rows =
     (if uuid \<in> ex_id ` set rows then (None, rows)
      else (Some uuid, rows @ [\<lparr>ex_id = uuid, ex_instance = instanceUuid, ex_message_id = messageId,
        ex_state = ExAccepted, ex_type = executionType, ex_started_at = Some now, ex_completed_at = None,
        ex_updated_at = now, ex_metadata = None\<rparr>]))"

definition get_execution :: "string \<Rightarrow> exec_row list \<Rightarrow> exec_row option" where
  "get_execution executionId rows = List.find (\<lambda>r. ex_id r = executionId) rows"

definition valid_transitions :: "exec_state \<Rightarrow> exec_state list" where
  "valid_transitions st = (case st of
     ExAccepted \<Rightarrow> [ExRunning, ExAborted]
   | ExRunning \<Rightarrow> [ExCompleted, ExFailed, ExAborted]
   | _ \<Rightarrow> [])"

definition set_state :: "time \<Rightarrow> exec_state \<Rightarrow> exec_row \<Rightarrow> exec_row" where
  "set_state now newState r =
     (let completedAt = (if newState \<in> {ExCompleted, ExFailed, ExAborted} then Some now else None)
      in r\<lparr>ex_state := newState, ex_completed_at := coalesce completedAt (ex_completed_at r), ex_updated_at := now\<rparr>)"

definition transition :: "time \<Rightarrow> string \<Rightarrow> exec_state \<Rightarrow> exec_row list \<Rightarrow> bool \<times> exec_row list" where
  "transition now executionId newState rows =
     (case get_execution executionId rows of
        None \<Rightarrow> (False, rows)
      | Some current \<Rightarrow>
          if newState \<notin> set (valid_transitions (ex_state current)) then (False, rows)
          else
            let guard = (\<lambda>r. ex_id r = executionId \<and> ex_state r = ex_state current)
            in (0 < t_changes guard rows, t_update guard (set_state now newState) rows))"

definition listByInstance :: "string \<Rightarrow> exec_state option \<Rightarrow> nat \<Rightarrow> exec_row list \<Rightarrow> exec_row list" where
  "listByInstance instanceUuid st limit rows =
     take limit (sort_key (\<lambda>r. - ex_updated_at r)
       (filter (\<lambda>r. ex_instance r = instanceUuid \<and> (case st of None \<Rightarrow> True | Some x \<Rightarrow> ex_state r = x)) rows))"

definition countByState :: "exec_row list \<Rightarrow> exec_state \<Rightarrow> nat" where
  "countByState rows st = t_changes (\<lambda>r. ex_state r = st) rows"

section \<open>Steps\<close>

inductive exec_step :: "exec_row list \<Rightarrow> exec_row list \<Rightarrow> bool" where
  create: "exec_step rows (snd (create_execution uuid now inst ty msg rows))"
| transition: "exec_step rows (snd (transition now i st rows))"

definition exec_edge :: "exec_row \<Rightarrow> exec_row \<Rightarrow> bool" where
  "exec_edge a b \<longleftrightarrow> ex_state b \<in> set (valid_transitions (ex_state a))
     \<and> ex_id b = ex_id a \<and> ex_instance b = ex_instance a \<and> ex_message_id b = ex_message_id a
     \<and> ex_type b = ex_type a \<and> ex_started_at b = ex_started_at a
     \<and> (ex_completed_at b \<noteq> None \<longleftrightarrow> ex_state b \<in> {ExCompleted, ExFailed, ExAborted})"

definition exec_initial :: "exec_row \<Rightarrow> bool" where
  "exec_initial r \<longleftrightarrow> ex_state r = ExAccepted \<and> ex_completed_at r = None"

definition exec_inv :: "exec_row list \<Rightarrow> bool" where
  "exec_inv rows \<longleftrightarrow> t_unique ex_id rows
     \<and> (\<forall>r \<in> set rows. ex_completed_at r \<noteq> None \<longleftrightarrow> ex_state r \<in> {ExCompleted, ExFailed, ExAborted})"

lemma set_state_id [simp]: "ex_id (set_state now st r) = ex_id r"
  by (simp add: set_state_def Let_def)

lemma set_state_edge:
  "ex_completed_at r = None \<longleftrightarrow> ex_state r \<notin> {ExCompleted, ExFailed, ExAborted} \<Longrightarrow>
   st \<in> set (valid_transitions (ex_state r)) \<Longrightarrow> exec_edge r (set_state now st r)"
  by (cases "ex_state r") (auto simp: exec_edge_def set_state_def Let_def valid_transitions_def coalesce_def)

lemma transition_look:
  "get_execution k (snd (transition now i st rows)) =
     map_option (\<lambda>r. if k = i \<and> st \<in> set (valid_transitions (ex_state r)) then set_state now st r else r)
       (get_execution k rows)"
proof (cases "get_execution i rows")
  case None
  then show ?thesis by (cases "k = i") (auto simp: transition_def option.map_ident)
next
  case (Some c)
  show ?thesis
  proof (cases "st \<in> set (valid_transitions (ex_state c))")
    case False
    with Some show ?thesis by (cases "k = i") (auto simp: transition_def option.map_ident)
  next
    case True
    have "get_execution k (snd (transition now i st rows)) = map_option
        (\<lambda>r. if ex_id r = i \<and> ex_state r = ex_state c then set_state now st r else r) (get_execution k rows)"
      using Some True by (simp add: transition_def Let_def) (simp add: get_execution_def find_key_update)
    also have "\<dots> = map_option (\<lambda>r. if k = i \<and> st \<in> set (valid_transitions (ex_state r))
        then set_state now st r else r) (get_execution k rows)"
    proof (cases "k = i")
      case False
      then show ?thesis by (cases "get_execution k rows") (auto simp: get_execution_def dest!: find_SomeD)
    next
      case k: True
      have "ex_id c = i" using Some by (auto simp: get_execution_def dest!: find_SomeD)
      with Some True k show ?thesis by simp
    qed
    finally show ?thesis .
  qed
qed

lemma get_inv:
  "exec_inv rows \<Longrightarrow> get_execution k rows = Some r \<Longrightarrow>
   (ex_completed_at r = None \<longleftrightarrow> ex_state r \<notin> {ExCompleted, ExFailed, ExAborted})"
  by (auto simp: exec_inv_def get_execution_def dest!: find_SomeD)

lemma exec_inv_step:
  assumes inv: "exec_inv rows" and "exec_step rows rows'"
  shows "exec_inv rows'"
  using assms(2)
proof (cases rule: exec_step.cases)
  case (create uuid now inst ty msg)
  with inv show ?thesis by (auto simp: create_execution_def exec_inv_def t_unique_append1)
next
  case (transition now i st)
  show ?thesis
  proof (cases "fst (transition now i st rows)")
    case True
    then obtain c where c: "get_execution i rows = Some c" "st \<in> set (valid_transitions (ex_state c))"
      by (auto simp: transition_def split: option.splits if_splits)
    then have "snd (transition now i st rows)
        = t_update (\<lambda>r. ex_id r = i \<and> ex_state r = ex_state c) (set_state now st) rows"
      by (simp add: transition_def Let_def)
    moreover have "exec_edge r (set_state now st r)" if "r \<in> set rows" "ex_state r = ex_state c" for r
      using that inv c(2) by (intro set_state_edge) (auto simp: exec_inv_def)
    ultimately show ?thesis
      using transition inv by (auto simp: exec_inv_def t_unique_update) (auto simp: t_update_def exec_edge_def)
  next
    case False
    then have "snd (transition now i st rows) = rows"
      by (auto simp: transition_def Let_def t_changes_def t_update_def filter_empty_conv
            intro!: map_idI split: option.splits if_splits)
    with transition inv show ?thesis by simp
  qed
qed

interpretation exec_cycle: lifecycle exec_step "\<lambda>rows k. get_execution k rows" exec_edge exec_initial "\<lambda>_. False" exec_inv
proof
  show "exec_inv s \<Longrightarrow> exec_step s t \<Longrightarrow> exec_inv t" for s t by (rule exec_inv_step)
  show "case get_execution k t of None \<Rightarrow> False | Some b \<Rightarrow> b = a \<or> exec_edge a b"
    if "exec_inv s" "exec_step s t" "get_execution k s = Some a" for s t k a
    using that(2)
  proof (cases rule: exec_step.cases)
    case (create uuid now inst ty msg)
    with that show ?thesis by (simp add: create_execution_def get_execution_def find_key_append)
  next
    case (transition now i st)
    with that show ?thesis
      by (auto simp: transition_look intro: set_state_edge dest: get_inv)
  qed
  show "exec_initial b"
    if "exec_inv s" "exec_step s t" "get_execution k s = None" "get_execution k t = Some b" for s t k b
    using that(2)
  proof (cases rule: exec_step.cases)
    case (create uuid now inst ty msg)
    with that show ?thesis
      by (auto simp: create_execution_def get_execution_def find_key_append exec_initial_def split: if_splits)
  next
    case (transition now i st)
    with that show ?thesis by (simp add: transition_look)
  qed
qed

lemma ex_terminal_final:
  "ex_state r \<in> {ExCompleted, ExFailed, ExAborted} \<Longrightarrow> exec_cycle.final r"
  by (auto simp: exec_cycle.final_def exec_edge_def valid_transitions_def)

section \<open>Properties\<close>

text \<open>
  An execution of a reachable store went from \<open>accepted\<close> only along the documented transitions, has a
  completion time exactly in a terminal state, and is frozen there; and a requested transition succeeds
  exactly when the execution exists and the graph allows it from its current state, in which case it
  takes effect.
\<close>

theorem execution_life:
  assumes "exec_step\<^sup>*\<^sup>* [] rows"
  shows "(\<forall>k r. get_execution k rows = Some r \<longrightarrow>
        (\<exists>a. exec_initial a \<and> exec_edge\<^sup>*\<^sup>* a r)
        \<and> (ex_completed_at r \<noteq> None \<longleftrightarrow> ex_state r \<in> {ExCompleted, ExFailed, ExAborted})
        \<and> (ex_state r \<in> {ExCompleted, ExFailed, ExAborted} \<longrightarrow>
             (\<forall>rows'. exec_step\<^sup>*\<^sup>* rows rows' \<longrightarrow> get_execution k rows' = Some r)))
    \<and> (fst (transition now i st rows) \<longleftrightarrow>
         (\<exists>r. get_execution i rows = Some r \<and> st \<in> set (valid_transitions (ex_state r))
            \<and> map_option ex_state (get_execution i (snd (transition now i st rows))) = Some st))"
proof (intro conjI allI impI)
  have empty: "exec_inv []" by (simp add: exec_inv_def)
  have inv: "exec_inv rows" using exec_cycle.inv_reach [OF assms empty] .
  fix k r assume r: "get_execution k rows = Some r"
  show "\<exists>a. exec_initial a \<and> exec_edge\<^sup>*\<^sup>* a r"
    using exec_cycle.reach_path [OF assms empty r] by (auto simp: get_execution_def)
  show "ex_completed_at r \<noteq> None \<longleftrightarrow> ex_state r \<in> {ExCompleted, ExFailed, ExAborted}"
    using get_inv [OF inv r] by simp
  fix rows' assume "ex_state r \<in> {ExCompleted, ExFailed, ExAborted}" and "exec_step\<^sup>*\<^sup>* rows rows'"
  then show "get_execution k rows' = Some r"
    using exec_cycle.final_sticky [OF _ inv r ex_terminal_final] by simp
next
  show "fst (transition now i st rows) \<longleftrightarrow>
         (\<exists>r. get_execution i rows = Some r \<and> st \<in> set (valid_transitions (ex_state r))
            \<and> map_option ex_state (get_execution i (snd (transition now i st rows))) = Some st)"
  proof (cases "get_execution i rows")
    case None
    then show ?thesis by (simp add: transition_def)
  next
    case (Some r)
    have "r \<in> set rows \<and> ex_id r = i" using Some find_SomeD by (fastforce simp: get_execution_def)
    then have "filter (\<lambda>r'. ex_id r' = i \<and> ex_state r' = ex_state r) rows \<noteq> []"
      by (auto simp: filter_empty_conv)
    with Some show ?thesis
      by (auto simp: transition_look set_state_def Let_def) (auto simp: transition_def t_changes_def Let_def split: if_splits)
  qed
qed

theorem execution_life_witness:
  "get_execution ''e'' (snd (transition 3 ''e'' ExRunning
     (snd (transition 2 ''e'' ExAborted (snd (create_execution ''e'' 1 ''i'' None None []))))))
   = get_execution ''e'' (snd (transition 2 ''e'' ExAborted (snd (create_execution ''e'' 1 ''i'' None None []))))"
proof -
  let ?s = "snd (transition 2 ''e'' ExAborted (snd (create_execution ''e'' 1 ''i'' None None [])))"
  have reach: "exec_step\<^sup>*\<^sup>* [] ?s"
    by (rule converse_rtranclp_into_rtranclp, rule exec_step.create, rule r_into_rtranclp, rule exec_step.transition)
  obtain r where r: "get_execution ''e'' ?s = Some r" "ex_state r = ExAborted"
    by (simp add: create_execution_def transition_def get_execution_def valid_transitions_def t_update_def set_state_def)
  have next_step: "exec_step\<^sup>*\<^sup>* ?s (snd (transition 3 ''e'' ExRunning ?s))"
    by (rule r_into_rtranclp) (rule exec_step.transition)
  have "get_execution ''e'' (snd (transition 3 ''e'' ExRunning ?s)) = Some r"
    using execution_life [OF reach, THEN conjunct1, rule_format, OF r(1)] r(2) next_step
    by (simp only: insert_iff simp_thms)
  then show ?thesis using r(1) by (simp only:)
qed

end
