(* ===== verification/Capability_Activation.thy ===== *)
theory Capability_Activation
  imports Prelude
begin

text \<open>
  The activation state of discovered capabilities, \<open>packages/daemon/src/capability-activation.ts\<close>, over
  the table \<open>capability_activations\<close>, unique in \<open>(capability_id, origin_peer)\<close> with an auto-increment id.
  The column \<open>metadata_json\<close> holds the serialised form of a small object; the model keeps the object.
  Clock readings are arguments.
\<close>

section \<open>Data\<close>

datatype cap_state = Discovered | Active | Suspended | Revoked

record cap_row =
  ca_id :: nat
  ca_capability_id :: string
  ca_version :: string
  ca_origin_peer :: string
  ca_state :: cap_state
  ca_manifest_hash :: "string option"
  ca_activated_at :: "time option"
  ca_suspended_at :: "time option"
  ca_revoked_at :: "time option"
  ca_metadata :: "(string, string) jsmap option"
  ca_updated_at :: time

record cap_store =
  cs_rows :: "cap_row list"
  cs_next_id :: nat

section \<open>Operations\<close>

definition new_CapabilityActivationStore :: cap_store where
  "new_CapabilityActivationStore = \<lparr>cs_rows = [], cs_next_id = 1\<rparr>"

definition cap_key :: "cap_row \<Rightarrow> string \<times> string" where
  "cap_key r = (ca_capability_id r, ca_origin_peer r)"

definition get_cap :: "string \<Rightarrow> string \<Rightarrow> cap_store \<Rightarrow> cap_row option" where
  "get_cap capabilityId originPeer s = List.find (\<lambda>r. cap_key r = (capabilityId, originPeer)) (cs_rows s)"

definition discover ::
  "time \<Rightarrow> string \<Rightarrow> string \<Rightarrow> string \<Rightarrow> string option \<Rightarrow> cap_store \<Rightarrow> nat \<times> cap_store" where
  "discover now capabilityId version originPeer manifestHash s =
     (case get_cap capabilityId originPeer s of
        Some existing \<Rightarrow>
          (ca_id existing, s\<lparr>cs_rows := t_update (\<lambda>r. ca_id r = ca_id existing)
            (\<lambda>r. r\<lparr>ca_version := version, ca_manifest_hash := manifestHash, ca_updated_at := now\<rparr>) (cs_rows s)\<rparr>)
      | None \<Rightarrow>
          (cs_next_id s, s\<lparr>cs_rows := cs_rows s @ [\<lparr>ca_id = cs_next_id s, ca_capability_id = capabilityId,
             ca_version = version, ca_origin_peer = originPeer, ca_state = Discovered,
             ca_manifest_hash = manifestHash, ca_activated_at = None, ca_suspended_at = None,
             ca_revoked_at = None, ca_metadata = None, ca_updated_at = now\<rparr>],
             cs_next_id := Suc (cs_next_id s)\<rparr>))"

definition cap_update :: "(cap_row \<Rightarrow> bool) \<Rightarrow> (cap_row \<Rightarrow> cap_row) \<Rightarrow> cap_store \<Rightarrow> bool \<times> cap_store" where
  "cap_update p f s = (0 < t_changes p (cs_rows s), s\<lparr>cs_rows := t_update p f (cs_rows s)\<rparr>)"

definition activate :: "time \<Rightarrow> string \<Rightarrow> string \<Rightarrow> cap_store \<Rightarrow> bool \<times> cap_store" where
  "activate now capabilityId originPeer =
     cap_update (\<lambda>r. cap_key r = (capabilityId, originPeer) \<and> ca_state r \<in> {Discovered, Suspended})
       (\<lambda>r. r\<lparr>ca_state := Active, ca_activated_at := Some now, ca_updated_at := now\<rparr>)"

text \<open>Adding a reason to the metadata object; an empty object is stored as \<open>NULL\<close>, an empty reason is falsy.\<close>

definition merge_reason :: "string \<Rightarrow> string option \<Rightarrow> (string, string) jsmap option \<Rightarrow> (string, string) jsmap option" where
  "merge_reason field reason meta =
     (let existing = default_to [] meta;
          merged = (case reason of None \<Rightarrow> existing | Some [] \<Rightarrow> existing | Some r \<Rightarrow> m_set field r existing)
      in if merged = [] then None else Some merged)"

definition suspend :: "time \<Rightarrow> string \<Rightarrow> string \<Rightarrow> string option \<Rightarrow> cap_store \<Rightarrow> bool \<times> cap_store" where
  "suspend now capabilityId originPeer reason s =
     (case get_cap capabilityId originPeer s of
        None \<Rightarrow> (False, s)
      | Some current \<Rightarrow>
          if ca_state current \<noteq> Active then (False, s)
          else cap_update (\<lambda>r. ca_id r = ca_id current \<and> ca_state r = Active)
            (\<lambda>r. r\<lparr>ca_state := Suspended, ca_suspended_at := Some now,
                   ca_metadata := merge_reason ''suspend_reason'' reason (ca_metadata current),
                   ca_updated_at := now\<rparr>) s)"

definition revoke :: "time \<Rightarrow> string \<Rightarrow> string \<Rightarrow> string option \<Rightarrow> cap_store \<Rightarrow> bool \<times> cap_store" where
  "revoke now capabilityId originPeer reason s =
     (case get_cap capabilityId originPeer s of
        None \<Rightarrow> (False, s)
      | Some current \<Rightarrow>
          if ca_state current = Revoked then (False, s)
          else cap_update (\<lambda>r. ca_id r = ca_id current \<and> ca_state r \<noteq> Revoked)
            (\<lambda>r. r\<lparr>ca_state := Revoked, ca_revoked_at := Some now,
                   ca_metadata := merge_reason ''revoke_reason'' reason (ca_metadata current),
                   ca_updated_at := now\<rparr>) s)"

definition listByState :: "cap_state \<Rightarrow> cap_store \<Rightarrow> cap_row list" where
  "listByState st s = sort_key (\<lambda>r. - ca_updated_at r) (filter (\<lambda>r. ca_state r = st) (cs_rows s))"

definition isActive :: "string \<Rightarrow> string \<Rightarrow> cap_store \<Rightarrow> bool" where
  "isActive capabilityId originPeer s =
     (case get_cap capabilityId originPeer s of None \<Rightarrow> False | Some r \<Rightarrow> ca_state r = Active)"

definition count_caps :: "cap_state \<Rightarrow> cap_store \<Rightarrow> nat" where
  "count_caps st s = t_changes (\<lambda>r. ca_state r = st) (cs_rows s)"

text \<open>\<open>maxAgeMs\<close>: \<open>None\<close> is a value that is not finite.\<close>

definition pruneRevokedOlderThan :: "time \<Rightarrow> int option \<Rightarrow> cap_store \<Rightarrow> nat \<times> cap_store" where
  "pruneRevokedOlderThan now maxAgeMs s =
     (case maxAgeMs of
        None \<Rightarrow> (0, s)
      | Some age \<Rightarrow>
          if age \<le> 0 then (0, s)
          else
            let cutoff = now - age;
                old = (\<lambda>r. ca_state r = Revoked \<and> (case ca_revoked_at r of None \<Rightarrow> False | Some t \<Rightarrow> t < cutoff))
            in (t_changes old (cs_rows s), s\<lparr>cs_rows := t_delete old (cs_rows s)\<rparr>))"

section \<open>Steps\<close>

inductive cap_step :: "cap_store \<Rightarrow> cap_store \<Rightarrow> bool" where
  discover: "cap_step s (snd (discover now c v p h s))"
| activate: "cap_step s (snd (activate now c p s))"
| suspend: "cap_step s (snd (suspend now c p r s))"
| revoke: "cap_step s (snd (revoke now c p r s))"

fun cap_edge :: "cap_state \<Rightarrow> cap_state \<Rightarrow> bool" where
  "cap_edge Discovered b \<longleftrightarrow> b \<in> {Active, Revoked}"
| "cap_edge Active b \<longleftrightarrow> b \<in> {Suspended, Revoked}"
| "cap_edge Suspended b \<longleftrightarrow> b \<in> {Active, Revoked}"
| "cap_edge Revoked b \<longleftrightarrow> False"

definition cap_inv :: "cap_store \<Rightarrow> bool" where
  "cap_inv s \<longleftrightarrow> t_unique cap_key (cs_rows s) \<and> t_unique ca_id (cs_rows s)
     \<and> (\<forall>r \<in> set (cs_rows s). ca_id r < cs_next_id s \<and> (ca_state r = Revoked \<longrightarrow> ca_revoked_at r \<noteq> None))"

definition cap_look :: "cap_store \<Rightarrow> string \<times> string \<Rightarrow> cap_state option" where
  "cap_look s k = map_option ca_state (get_cap (fst k) (snd k) s)"

text \<open>Every update of one row, addressed by its id or its key, is an update by key.\<close>

lemma cap_by_id:
  assumes "cap_inv s" and "get_cap c p s = Some e" and "r \<in> set (cs_rows s)"
  shows "ca_id r = ca_id e \<longleftrightarrow> cap_key r = (c, p)"
proof -
  have "e \<in> set (cs_rows s)" "cap_key e = (c, p)" using assms(2) by (auto simp: get_cap_def dest!: find_SomeD)
  with assms show ?thesis by (auto simp: cap_inv_def t_unique_def distinct_map inj_on_def)
qed

lemma t_update_cong: "(\<And>r. r \<in> set rs \<Longrightarrow> p r = q r) \<Longrightarrow> t_update p f rs = t_update q f rs"
  by (auto simp: t_update_def)

lemma cap_update_by_key:
  assumes "cap_inv s" and "get_cap c p s = Some e"
  shows "t_update (\<lambda>r. ca_id r = ca_id e \<and> g r) f (cs_rows s) = t_update (\<lambda>r. cap_key r = (c, p) \<and> g r) f (cs_rows s)"
  using cap_by_id [OF assms] by (intro t_update_cong) auto

definition keeps_key :: "(cap_row \<Rightarrow> cap_row) \<Rightarrow> bool" where
  "keeps_key f \<longleftrightarrow> (\<forall>r. cap_key (f r) = cap_key r \<and> ca_id (f r) = ca_id r
     \<and> (ca_state (f r) = Revoked \<longrightarrow> ca_state r = Revoked \<and> ca_revoked_at (f r) = ca_revoked_at r \<or> ca_revoked_at (f r) \<noteq> None))"

lemma cap_inv_update: "cap_inv s \<Longrightarrow> keeps_key f \<Longrightarrow> cap_inv (s\<lparr>cs_rows := t_update q f (cs_rows s)\<rparr>)"
  by (auto simp: cap_inv_def keeps_key_def t_unique_update) (auto simp: t_update_def)

lemma cap_look_update:
  assumes "keeps_key f"
  shows "cap_look (s\<lparr>cs_rows := t_update (\<lambda>r. cap_key r = (c, p) \<and> g r) f (cs_rows s)\<rparr>) k =
    (case get_cap (fst k) (snd k) s of
       None \<Rightarrow> None | Some r \<Rightarrow> Some (if k = (c, p) \<and> g r then ca_state (f r) else ca_state r))"
proof -
  have "\<And>r. cap_key (f r) = cap_key r" using assms by (simp add: keeps_key_def)
  then have "cap_look (s\<lparr>cs_rows := t_update (\<lambda>r. cap_key r = (c, p) \<and> g r) f (cs_rows s)\<rparr>) k =
      map_option (\<lambda>r. ca_state (if cap_key r = (c, p) \<and> g r then f r else r)) (get_cap (fst k) (snd k) s)"
    by (simp add: cap_look_def get_cap_def find_key_update option.map_comp o_def)
  then show ?thesis
    by (cases "get_cap (fst k) (snd k) s") (auto simp: get_cap_def dest!: find_SomeD)
qed

text \<open>What each operation does to the state under a key.\<close>

lemma keeps_key_ops [simp]:
  "keeps_key (\<lambda>r. r\<lparr>ca_version := v, ca_manifest_hash := h, ca_updated_at := t\<rparr>)"
  "keeps_key (\<lambda>r. r\<lparr>ca_state := Active, ca_activated_at := x, ca_updated_at := t\<rparr>)"
  "keeps_key (\<lambda>r. r\<lparr>ca_state := Suspended, ca_suspended_at := x, ca_metadata := m, ca_updated_at := t\<rparr>)"
  "keeps_key (\<lambda>r. r\<lparr>ca_state := Revoked, ca_revoked_at := Some t, ca_metadata := m, ca_updated_at := t\<rparr>)"
  by (simp_all add: keeps_key_def cap_key_def)

lemma look_discover:
  "cap_inv s \<Longrightarrow> cap_look (snd (discover now c v p h s)) k =
     (case cap_look s k of None \<Rightarrow> if k = (c, p) then Some Discovered else None | Some st \<Rightarrow> Some st)"
proof (cases "get_cap c p s")
  case None
  let ?row = "\<lparr>ca_id = cs_next_id s, ca_capability_id = c, ca_version = v, ca_origin_peer = p,
    ca_state = Discovered, ca_manifest_hash = h, ca_activated_at = None, ca_suspended_at = None,
    ca_revoked_at = None, ca_metadata = None, ca_updated_at = now\<rparr>"
  have key: "cap_key ?row = (c, p)" by (simp add: cap_key_def)
  have "cs_rows (snd (discover now c v p h s)) = cs_rows s @ [?row]"
    using None by (simp add: discover_def)
  with None show ?thesis
    by (cases k) (auto simp: cap_look_def get_cap_def find_key_append key split: option.splits)
next
  case (Some e)
  assume "cap_inv s"
  from cap_update_by_key [OF this Some, of "\<lambda>_. True"] show ?thesis
    using Some cap_look_update [where s = s and c = c and p = p and g = "\<lambda>_. True" and k = k]
    by (cases k) (auto simp: discover_def cap_look_def split: option.splits)
qed

lemma look_activate:
  "cap_look (snd (activate now c p s)) k =
     (case cap_look s k of None \<Rightarrow> None
      | Some st \<Rightarrow> Some (if k = (c, p) \<and> st \<in> {Discovered, Suspended} then Active else st))"
  by (simp add: activate_def cap_update_def cap_look_update) (auto simp: cap_look_def split: option.splits)

lemma look_suspend:
  assumes "cap_inv s"
  shows "cap_look (snd (suspend now c p r s)) k =
     (case cap_look s k of None \<Rightarrow> None | Some st \<Rightarrow> Some (if k = (c, p) \<and> st = Active then Suspended else st))"
proof (cases "get_cap c p s")
  case None
  then show ?thesis by (cases k) (auto simp: suspend_def cap_look_def split: option.splits)
next
  case (Some e)
  then show ?thesis
    using cap_update_by_key [OF assms Some, of "\<lambda>r. ca_state r = Active"]
    by (cases k) (auto simp: suspend_def cap_update_def cap_look_update, auto simp: cap_look_def split: option.splits)
qed

lemma look_revoke:
  assumes "cap_inv s"
  shows "cap_look (snd (revoke now c p r s)) k =
     (case cap_look s k of None \<Rightarrow> None | Some st \<Rightarrow> Some (if k = (c, p) then Revoked else st))"
proof (cases "get_cap c p s")
  case None
  then show ?thesis by (cases k) (auto simp: revoke_def cap_look_def split: option.splits)
next
  case (Some e)
  then show ?thesis
    using cap_update_by_key [OF assms Some, of "\<lambda>r. ca_state r \<noteq> Revoked"]
    by (cases k) (auto simp: revoke_def cap_update_def cap_look_update, auto simp: cap_look_def split: option.splits)
qed

lemmas look_ops = look_discover look_activate look_suspend look_revoke

lemma cap_inv_step: "cap_inv s \<Longrightarrow> cap_step s t \<Longrightarrow> cap_inv t"
proof (erule cap_step.cases)
  fix now c v p h s' assume "cap_inv s" "s = s'" "t = snd (discover now c v p h s')"
  then show "cap_inv t"
  proof (cases "get_cap c p s'")
    case None
    then have "(c, p) \<notin> cap_key ` set (cs_rows s')" by (auto simp: get_cap_def find_None_iff)
    with None \<open>cap_inv s\<close> \<open>s = s'\<close> \<open>t = _\<close> show ?thesis
      by (auto simp: discover_def cap_inv_def t_unique_append1 less_Suc_eq)
         (auto simp: cap_key_def)
  next
    case (Some e)
    with \<open>cap_inv s\<close> \<open>s = s'\<close> \<open>t = _\<close> show ?thesis by (simp add: discover_def cap_inv_update)
  qed
qed (auto simp: activate_def suspend_def revoke_def cap_update_def cap_inv_update split: option.splits)

interpretation cap_cycle: lifecycle cap_step cap_look cap_edge "\<lambda>st. st = Discovered" "\<lambda>_. False" cap_inv
proof
  show "cap_inv s \<Longrightarrow> cap_step s t \<Longrightarrow> cap_inv t" for s t by (rule cap_inv_step)
  show "cap_inv s \<Longrightarrow> cap_step s t \<Longrightarrow> cap_look s k = Some a \<Longrightarrow>
      (case cap_look t k of None \<Rightarrow> False | Some b \<Rightarrow> b = a \<or> cap_edge a b)" for s t k a
    by (erule cap_step.cases; cases a) (auto simp: look_ops)
  show "cap_inv s \<Longrightarrow> cap_step s t \<Longrightarrow> cap_look s k = None \<Longrightarrow> cap_look t k = Some b \<Longrightarrow> b = Discovered" for s t k b
    by (erule cap_step.cases) (auto simp: look_ops split: if_splits)
qed

lemma isActive_look: "isActive c p s \<longleftrightarrow> cap_look s (c, p) = Some Active"
  by (auto simp: isActive_def cap_look_def split: option.splits)

section \<open>Properties\<close>

text \<open>
  Activation of capabilities: in every store the four operations can produce, the state under a
  capability and peer went from \<open>discovered\<close> along the graph, a revoked capability is never active again
  however it is discovered, activated, suspended or revoked afterwards, and the retention run removes
  exactly the revoked rows older than the given age, leaving every other state as it was.
\<close>

theorem revoked_stays_revoked:
  assumes "cap_step\<^sup>*\<^sup>* new_CapabilityActivationStore s"
  shows "(\<forall>k st. cap_look s k = Some st \<longrightarrow> cap_edge\<^sup>*\<^sup>* Discovered st)
    \<and> (cap_look s (c, p) = Some Revoked \<longrightarrow> (\<forall>t. cap_step\<^sup>*\<^sup>* s t \<longrightarrow> \<not> isActive c p t))
    \<and> (\<forall>k st. cap_look s k = Some st \<longrightarrow> st \<noteq> Revoked \<longrightarrow>
         cap_look (snd (pruneRevokedOlderThan now age s)) k = Some st)
    \<and> (cap_look s (c, p) = None \<longrightarrow> cap_look (snd (pruneRevokedOlderThan now age s)) (c, p) = None)"
proof (intro conjI allI impI)
  have new: "cap_inv new_CapabilityActivationStore" by (simp add: cap_inv_def new_CapabilityActivationStore_def)
  have inv: "cap_inv s" using cap_cycle.inv_reach [OF assms new] .
  have prune: "cap_look (snd (pruneRevokedOlderThan now age s)) k =
      (case get_cap (fst k) (snd k) s of None \<Rightarrow> None
       | Some r \<Rightarrow> if (\<exists>a t. age = Some a \<and> 0 < a \<and> ca_state r = Revoked \<and> ca_revoked_at r = Some t \<and> t < now - a)
                  then None else Some (ca_state r))" for k
    using inv
    by (auto simp: pruneRevokedOlderThan_def cap_look_def get_cap_def find_key_delete cap_inv_def Let_def
          split: option.splits)
  fix k st
  { assume "cap_look s k = Some st"
    then show "cap_edge\<^sup>*\<^sup>* Discovered st"
      using cap_cycle.reach_path [OF assms new, of k st]
      by (auto simp: cap_look_def get_cap_def new_CapabilityActivationStore_def) }
  { assume "cap_look s k = Some st" "st \<noteq> Revoked"
    then show "cap_look (snd (pruneRevokedOlderThan now age s)) k = Some st"
      unfolding prune by (auto simp: cap_look_def) }
  { assume "cap_look s (c, p) = None"
    then show "cap_look (snd (pruneRevokedOlderThan now age s)) (c, p) = None"
      unfolding prune by (simp add: cap_look_def) }
  fix t assume "cap_look s (c, p) = Some Revoked" "cap_step\<^sup>*\<^sup>* s t"
  then have "cap_look t (c, p) = Some Revoked"
    using cap_cycle.final_sticky [OF _ inv, of t "(c, p)" Revoked] by (auto simp: cap_cycle.final_def)
  then show "\<not> isActive c p t" by (simp add: isActive_look)
qed

definition sample_caps :: cap_store where
  "sample_caps = snd (revoke 2 ''c'' ''p'' None (snd (discover 1 ''c'' ''1.0'' ''p'' None new_CapabilityActivationStore)))"

theorem revoked_stays_revoked_witness:
  "cap_look sample_caps (''c'', ''p'') = Some Revoked \<and> \<not> isActive ''c'' ''p'' (snd (activate 3 ''c'' ''p'' sample_caps))"
proof -
  have "cap_step\<^sup>*\<^sup>* new_CapabilityActivationStore sample_caps"
    unfolding sample_caps_def
    by (rule converse_rtranclp_into_rtranclp, rule cap_step.discover, rule r_into_rtranclp, rule cap_step.revoke)
  moreover have "cap_look sample_caps (''c'', ''p'') = Some Revoked" by code_simp
  moreover have "cap_step\<^sup>*\<^sup>* sample_caps (snd (activate 3 ''c'' ''p'' sample_caps))"
    by (rule r_into_rtranclp) (rule cap_step.activate)
  ultimately show ?thesis using revoked_stays_revoked [of sample_caps "''c''" "''p''"] by blast
qed

text \<open>The retention run forgets a revocation: after it, the capability can be discovered and activated again.\<close>

lemma pruned_revocation_forgotten:
  "isActive ''c'' ''p'' (snd (activate 103 ''c'' ''p'' (snd (discover 102 ''c'' ''1.0'' ''p'' None
     (snd (pruneRevokedOlderThan 101 (Some 50) sample_caps))))))"
  by code_simp

end
