(* ===== verification/Approvals.thy ===== *)
theory Approvals
  imports Prelude
begin

text \<open>
  Human approvals, \<open>packages/daemon/src/approvals.ts\<close>, over the table \<open>approvals\<close>: creation, the decision
  that is taken once, and the queries. Ids come from \<open>randomUUID\<close> (an argument; a duplicate primary key
  throws). The payload is kept as the value that is serialised.
\<close>

section \<open>Data\<close>

datatype approval_type = PeerJoin | SkillActivate | CredentialShare | ConfigChange | McpGate
datatype approval_status = Pending | ApprovedStatus | RejectedStatus

record approval_row =
  av_id :: string
  av_type :: approval_type
  av_status :: approval_status
  av_payload :: json
  av_summary :: string
  av_created_at :: time
  av_decided_at :: "time option"
  av_decision_note :: "string option"

section \<open>Operations\<close>

definition create_approval ::
  "string \<Rightarrow> time \<Rightarrow> approval_type \<Rightarrow> json \<Rightarrow> string \<Rightarrow> approval_row list \<Rightarrow> string option \<times> approval_row list" where
  "create_approval uuid now ty payload summary rows =
     (if uuid \<in> av_id ` set rows then (None, rows)
      else (Some uuid, rows @ [\<lparr>av_id = uuid, av_type = ty, av_status = Pending, av_payload = payload,
        av_summary = summary, av_created_at = now, av_decided_at = None, av_decision_note = None\<rparr>]))"

definition get_approval :: "string \<Rightarrow> approval_row list \<Rightarrow> approval_row option" where
  "get_approval i rows = List.find (\<lambda>r. av_id r = i) rows"

text \<open>The second argument is \<open>true\<close> for \<open>approved\<close> and \<open>false\<close> for \<open>rejected\<close>.\<close>

definition decided :: "time \<Rightarrow> bool \<Rightarrow> string option \<Rightarrow> approval_row \<Rightarrow> approval_row" where
  "decided now yes note r = r\<lparr>av_status := (if yes then ApprovedStatus else RejectedStatus),
     av_decided_at := Some now, av_decision_note := note\<rparr>"

definition decide :: "time \<Rightarrow> string \<Rightarrow> bool \<Rightarrow> string option \<Rightarrow> approval_row list \<Rightarrow>
   approval_row option \<times> approval_row list" where
  "decide now i yes note rows =
     (case get_approval i rows of
        None \<Rightarrow> (None, rows)
      | Some existing \<Rightarrow>
          if av_status existing \<noteq> Pending then (Some existing, rows)
          else
            let rows' = t_update (\<lambda>r. av_id r = i \<and> av_status r = Pending) (decided now yes note) rows
            in (get_approval i rows', rows'))"

definition list_approvals ::
  "approval_status option \<Rightarrow> approval_type option \<Rightarrow> nat option \<Rightarrow> approval_row list \<Rightarrow> approval_row list" where
  "list_approvals status ty limit rows =
     take (default_to 50 limit) (sort_key (\<lambda>r. - av_created_at r)
       (filter (\<lambda>r. (case status of None \<Rightarrow> True | Some s \<Rightarrow> av_status r = s)
                   \<and> (case ty of None \<Rightarrow> True | Some x \<Rightarrow> av_type r = x)) rows))"

definition pendingCount :: "approval_type option \<Rightarrow> approval_row list \<Rightarrow> nat" where
  "pendingCount ty rows =
     t_changes (\<lambda>r. av_status r = Pending \<and> (case ty of None \<Rightarrow> True | Some x \<Rightarrow> av_type r = x)) rows"

definition is_approved_row :: "string \<Rightarrow> approval_row list \<Rightarrow> bool" where
  "is_approved_row i rows = (case get_approval i rows of None \<Rightarrow> False | Some r \<Rightarrow> av_status r = ApprovedStatus)"

section \<open>Steps\<close>

inductive approval_step :: "approval_row list \<Rightarrow> approval_row list \<Rightarrow> bool" where
  create: "approval_step rows (snd (create_approval uuid now ty payload summary rows))"
| decide: "approval_step rows (snd (decide now i yes note rows))"

definition approval_edge :: "approval_row \<Rightarrow> approval_row \<Rightarrow> bool" where
  "approval_edge a b \<longleftrightarrow> av_status a = Pending \<and> av_status b \<noteq> Pending \<and> av_decided_at b \<noteq> None
     \<and> av_id b = av_id a \<and> av_type b = av_type a \<and> av_payload b = av_payload a
     \<and> av_summary b = av_summary a \<and> av_created_at b = av_created_at a"

definition approval_initial :: "approval_row \<Rightarrow> bool" where
  "approval_initial r \<longleftrightarrow> av_status r = Pending \<and> av_decided_at r = None"

lemma decided_id [simp]: "av_id (decided now yes note r) = av_id r"
  by (simp add: decided_def)

lemma decide_look:
  "get_approval k (snd (decide now i yes note rows)) =
     map_option (\<lambda>r. if k = i \<and> av_status r = Pending then decided now yes note r else r) (get_approval k rows)"
proof (cases "get_approval i rows")
  case None
  then show ?thesis by (cases "k = i") (auto simp: decide_def option.map_ident)
next
  case (Some e)
  have upd: "get_approval k (t_update (\<lambda>r. av_id r = i \<and> av_status r = Pending) (decided now yes note) rows) =
      map_option (\<lambda>r. if k = i \<and> av_status r = Pending then decided now yes note r else r) (get_approval k rows)"
    by (cases "get_approval k rows") (auto simp: get_approval_def find_key_update dest: find_SomeD)
  show ?thesis
  proof (cases "av_status e = Pending")
    case True
    with Some upd show ?thesis by (simp add: decide_def Let_def)
  next
    case False
    with Some show ?thesis by (cases "k = i") (auto simp: decide_def option.map_ident)
  qed
qed

lemma decided_edge: "av_status r = Pending \<Longrightarrow> approval_edge r (decided now yes note r)"
  by (simp add: approval_edge_def decided_def)

interpretation approval_cycle:
  lifecycle approval_step "\<lambda>rows k. get_approval k rows" approval_edge approval_initial "\<lambda>_. False" "\<lambda>_. True"
proof
  show "case get_approval k t of None \<Rightarrow> False | Some b \<Rightarrow> b = a \<or> approval_edge a b"
    if "approval_step s t" "get_approval k s = Some a" for s t k a
    using that(1)
  proof (cases rule: approval_step.cases)
    case (create uuid now ty payload summary)
    with that show ?thesis by (simp add: create_approval_def get_approval_def find_key_append)
  next
    case (decide now i yes why)
    with that show ?thesis by (auto simp: decide_look intro: decided_edge)
  qed
  show "approval_initial b"
    if "approval_step s t" "get_approval k s = None" "get_approval k t = Some b" for s t k b
    using that(1)
  proof (cases rule: approval_step.cases)
    case (create uuid now ty payload summary)
    with that show ?thesis
      by (auto simp: create_approval_def get_approval_def find_key_append approval_initial_def split: if_splits)
  next
    case (decide now i yes why)
    with that show ?thesis by (simp add: decide_look)
  qed
qed simp

section \<open>Properties\<close>

text \<open>
  An approval is decided at most once: the first decision on a pending approval takes effect and is
  returned, every later one, whatever it says, returns the existing decision and changes nothing, for
  ever; and an unknown id has no effect.
\<close>

theorem approval_decided_once:
  "(case get_approval i rows of
      None \<Rightarrow> decide now i yes note rows = (None, rows)
    | Some r \<Rightarrow>
        fst (decide now i yes note rows) =
          Some (if av_status r = Pending then decided now yes note r else r)
        \<and> (av_status r \<noteq> Pending \<longrightarrow> snd (decide now i yes note rows) = rows
             \<and> (\<forall>rows'. approval_step\<^sup>*\<^sup>* rows rows' \<longrightarrow> get_approval i rows' = Some r)))"
proof (cases "get_approval i rows")
  case None
  then show ?thesis by (simp add: decide_def)
next
  case (Some r)
  have "get_approval i rows' = Some r" if "av_status r \<noteq> Pending" "approval_step\<^sup>*\<^sup>* rows rows'" for rows'
    using approval_cycle.final_sticky [OF that(2) _ Some] that(1)
    by (simp add: approval_cycle.final_def approval_edge_def)
  moreover have "fst (decide now i yes note rows) = get_approval i (snd (decide now i yes note rows))"
    using Some by (simp add: decide_def Let_def)
  ultimately show ?thesis
    using Some by (auto simp: decide_look) (simp add: decide_def)
qed

theorem approval_decided_once_witness:
  "fst (decide 3 ''a'' False None (snd (decide 2 ''a'' True None (snd (create_approval ''a'' 1 PeerJoin JNull ''join'' [])))))
     = fst (decide 2 ''a'' True None (snd (create_approval ''a'' 1 PeerJoin JNull ''join'' [])))"
proof -
  let ?rows = "snd (decide 2 ''a'' True None (snd (create_approval ''a'' 1 PeerJoin JNull ''join'' [])))"
  obtain r where r: "get_approval ''a'' ?rows = Some r" "av_status r \<noteq> Pending"
    and first: "fst (decide 2 ''a'' True None (snd (create_approval ''a'' 1 PeerJoin JNull ''join'' []))) = Some r"
    by (simp add: decide_def create_approval_def get_approval_def t_update_def decided_def)
  have "fst (decide 3 ''a'' False None ?rows) = Some r"
    using approval_decided_once [where i = "''a''" and rows = ?rows and now = 3 and yes = False] r(2) unfolding r(1) by simp
  with first show ?thesis by (simp only:)
qed

end
