(* ===== verification/Task_Queue.thy ===== *)
theory Task_Queue
  imports Prelude
begin

text \<open>
  The prioritised task queue, \<open>packages/daemon/src/task-queue.ts\<close>. JavaScript runs \<open>enqueue\<close> and the
  synchronous part of \<open>processNext\<close> without interruption, so the flag \<open>processing\<close> is never seen set; the
  executor's promise settles later, which is a step of its own (\<open>finish\<close>). \<open>tq_inflight\<close> lists the
  executions whose promise is pending, in the order they were started; \<open>tq_running\<close> is the map the code
  keeps. Clock readings are arguments.
\<close>

section \<open>Data\<close>

datatype priority = Critical | High | Normal | Low | Background

fun PRIORITY_VALUES :: "priority \<Rightarrow> nat" where
  "PRIORITY_VALUES Critical = 100"
| "PRIORITY_VALUES High = 75"
| "PRIORITY_VALUES Normal = 50"
| "PRIORITY_VALUES Low = 25"
| "PRIORITY_VALUES Background = 0"

datatype queue_status = Queued | Running | Done | FailedTask

record queued_task =
  qt_id :: string
  qt_skill_id :: string
  qt_input :: json
  qt_priority :: priority
  qt_requester_id :: string
  qt_enqueued_at :: time
  qt_started_at :: "time option"
  qt_completed_at :: "time option"
  qt_status :: queue_status
  qt_result :: "json option"
  qt_error :: "string option"

record task_queue =
  tq_queue :: "queued_task list"
  tq_running :: "(string, queued_task) jsmap"
  tq_inflight :: "queued_task list"
  tq_completed :: "queued_task list"
  tq_max_concurrent :: nat
  tq_max_queue_size :: nat
  tq_executor :: bool

text \<open>What the executor's promise does: it resolves with a result and an error, or rejects.\<close>

datatype executor_outcome = Resolves "json option" "string option" | Rejects string

abbreviation prio :: "queued_task \<Rightarrow> nat" where
  "prio t \<equiv> PRIORITY_VALUES (qt_priority t)"

section \<open>Operations\<close>

definition new_TaskQueue :: "nat option \<Rightarrow> nat option \<Rightarrow> task_queue" where
  "new_TaskQueue maxConcurrent maxQueueSize =
     \<lparr>tq_queue = [], tq_running = [], tq_inflight = [], tq_completed = [],
      tq_max_concurrent = default_to 5 maxConcurrent, tq_max_queue_size = default_to 100 maxQueueSize,
      tq_executor = False\<rparr>"

definition setExecutor :: "task_queue \<Rightarrow> task_queue" where
  "setExecutor q = q\<lparr>tq_executor := True\<rparr>"

text \<open>\<open>findIndex\<close> of the first task of lower priority, then \<open>splice\<close>, or \<open>push\<close> when there is none.\<close>

fun insert_task :: "queued_task \<Rightarrow> queued_task list \<Rightarrow> queued_task list" where
  "insert_task t [] = [t]"
| "insert_task t (u # us) = (if prio u < prio t then t # u # us else u # insert_task t us)"

definition processNext :: "time \<Rightarrow> task_queue \<Rightarrow> task_queue" where
  "processNext now q =
     (if \<not> tq_executor q then q
      else if tq_max_concurrent q \<le> length (tq_running q) then q
      else case tq_queue q of
        [] \<Rightarrow> q
      | t # rest \<Rightarrow>
          let started = t\<lparr>qt_status := Running, qt_started_at := Some now\<rparr>
          in q\<lparr>tq_queue := rest, tq_running := m_set (qt_id t) started (tq_running q),
               tq_inflight := tq_inflight q @ [started]\<rparr>)"

definition enqueue :: "time \<Rightarrow> time \<Rightarrow> queued_task \<Rightarrow> task_queue \<Rightarrow> string option \<times> task_queue" where
  "enqueue now later task q =
     (if tq_max_queue_size q \<le> length (tq_queue q) then (None, q)
      else
        let queued = task\<lparr>qt_enqueued_at := now, qt_status := Queued\<rparr>
        in (Some (qt_id task), processNext later (q\<lparr>tq_queue := insert_task queued (tq_queue q)\<rparr>)))"

definition settle :: "time \<Rightarrow> executor_outcome \<Rightarrow> queued_task \<Rightarrow> queued_task" where
  "settle now outcome t =
     (case outcome of
        Resolves res err \<Rightarrow>
          t\<lparr>qt_status := (case err of None \<Rightarrow> Done | Some [] \<Rightarrow> Done | Some _ \<Rightarrow> FailedTask),
            qt_result := res, qt_error := err, qt_completed_at := Some now\<rparr>
      | Rejects e \<Rightarrow> t\<lparr>qt_status := FailedTask, qt_error := Some e, qt_completed_at := Some now\<rparr>)"

definition keep_last :: "nat \<Rightarrow> 'a list \<Rightarrow> 'a list" where
  "keep_last n xs = (if n < length xs then List.drop (length xs - n) xs else xs)"

text \<open>The continuation of \<open>processNext\<close> after the \<open>await\<close>, for the execution of \<open>t\<close>.\<close>

definition finish :: "time \<Rightarrow> time \<Rightarrow> queued_task \<Rightarrow> executor_outcome \<Rightarrow> task_queue \<Rightarrow> task_queue" where
  "finish now later t outcome q =
     processNext later (q\<lparr>tq_inflight := remove1 t (tq_inflight q),
       tq_running := m_del (qt_id t) (tq_running q),
       tq_completed := keep_last 200 (tq_completed q @ [settle now outcome t])\<rparr>)"

record queue_stats =
  st_queued :: nat
  st_running :: nat
  st_completed :: nat
  st_failed :: nat
  st_max_concurrent :: nat

definition getStats :: "task_queue \<Rightarrow> queue_stats" where
  "getStats q = \<lparr>st_queued = length (tq_queue q), st_running = length (tq_running q),
     st_completed = t_changes (\<lambda>t. qt_status t = Done) (tq_completed q),
     st_failed = t_changes (\<lambda>t. qt_status t = FailedTask) (tq_completed q),
     st_max_concurrent = tq_max_concurrent q\<rparr>"

definition get_queued :: "string \<Rightarrow> task_queue \<Rightarrow> queued_task option" where
  "get_queued i q =
     coalesce (List.find (\<lambda>t. qt_id t = i) (tq_queue q))
       (coalesce (m_get (tq_running q) i) (List.find (\<lambda>t. qt_id t = i) (tq_completed q)))"

fun remove_first :: "('a \<Rightarrow> bool) \<Rightarrow> 'a list \<Rightarrow> 'a list" where
  "remove_first p [] = []"
| "remove_first p (x # xs) = (if p x then xs else x # remove_first p xs)"

definition cancel :: "string \<Rightarrow> task_queue \<Rightarrow> bool \<times> task_queue" where
  "cancel i q =
     (if list_ex (\<lambda>t. qt_id t = i) (tq_queue q)
      then (True, q\<lparr>tq_queue := remove_first (\<lambda>t. qt_id t = i) (tq_queue q)\<rparr>)
      else (False, q))"

section \<open>Steps\<close>

definition live_ids :: "task_queue \<Rightarrow> string list" where
  "live_ids q = map qt_id (tq_queue q) @ map qt_id (tq_inflight q)"

text \<open>
  The clock does not run backwards between two calls of \<open>enqueue\<close>, and callers give ids that are not in
  the queue or running.
\<close>

inductive queue_step :: "task_queue \<Rightarrow> task_queue \<Rightarrow> bool" where
  enqueue: "qt_id task \<notin> set (live_ids q) \<Longrightarrow> \<forall>t \<in> set (tq_queue q). qt_enqueued_at t \<le> now \<Longrightarrow>
    queue_step q (snd (enqueue now later task q))"
| finish: "t \<in> set (tq_inflight q) \<Longrightarrow> queue_step q (finish now later t outcome q)"
| cancel: "queue_step q (snd (cancel i q))"

text \<open>The order in which tasks wait: priority first, then arrival.\<close>

definition before :: "queued_task \<Rightarrow> queued_task \<Rightarrow> bool" where
  "before a b \<longleftrightarrow> prio b < prio a \<or> (prio a = prio b \<and> qt_enqueued_at a \<le> qt_enqueued_at b)"

definition queue_inv :: "task_queue \<Rightarrow> bool" where
  "queue_inv q \<longleftrightarrow> sorted_wrt before (tq_queue q) \<and> distinct (live_ids q)
     \<and> length (tq_queue q) \<le> tq_max_queue_size q
     \<and> tq_running q = map (\<lambda>t. (qt_id t, t)) (tq_inflight q)
     \<and> length (tq_running q) \<le> tq_max_concurrent q
     \<and> length (tq_completed q) \<le> 200"

definition busy :: "task_queue \<Rightarrow> bool" where
  "busy q \<longleftrightarrow> tq_queue q = [] \<or> tq_max_concurrent q \<le> length (tq_running q)"

section \<open>Lemmas\<close>

lemma set_insert_task [simp]: "set (insert_task t us) = insert t (set us)"
  by (induction us) auto

lemma length_insert_task [simp]: "length (insert_task t us) = Suc (length us)"
  by (induction us) auto

lemma insert_task_not_Nil [simp]: "insert_task t us \<noteq> []"
  by (cases us) auto

lemma distinct_insert_task:
  "distinct (map qt_id (insert_task t us)) \<longleftrightarrow> qt_id t \<notin> qt_id ` set us \<and> distinct (map qt_id us)"
  by (induction us) auto

lemma sorted_insert_task:
  "sorted_wrt before us \<Longrightarrow> \<forall>u \<in> set us. qt_enqueued_at u \<le> qt_enqueued_at t \<Longrightarrow>
   sorted_wrt before (insert_task t us)"
proof (induction us)
  case (Cons u us)
  show ?case
  proof (cases "prio u < prio t")
    case True
    then have "before t v" if "v \<in> set (u # us)" for v
      using that Cons.prems(1) by (auto simp: before_def)
    with True Cons.prems(1) show ?thesis by simp
  next
    case False
    then have "before u t" using Cons.prems(2) by (auto simp: before_def)
    with False Cons show ?thesis by auto
  qed
qed simp

lemma remove_first_subset: "set (remove_first p xs) \<subseteq> set xs"
  by (induction xs) auto

lemma sorted_remove_first: "sorted_wrt before xs \<Longrightarrow> sorted_wrt before (remove_first p xs)"
  by (induction xs) (use remove_first_subset in fastforce)+

lemma distinct_remove_first: "distinct (map f xs) \<Longrightarrow> distinct (map f (remove_first p xs))"
  by (induction xs) (use remove_first_subset in fastforce)+

lemma length_remove_first: "length (remove_first p xs) \<le> length xs"
  by (induction xs) auto

lemma length_keep_last: "length (keep_last n xs) \<le> n"
  by (simp add: keep_last_def)

lemma m_set_fresh: "i \<notin> qt_id ` set ts \<Longrightarrow>
   m_set i s (map (\<lambda>t. (qt_id t, t)) ts) = map (\<lambda>t. (qt_id t, t)) ts @ [(i, s)]"
  by (induction ts) auto

lemma m_del_inflight:
  "distinct (map qt_id ts) \<Longrightarrow> t \<in> set ts \<Longrightarrow>
   m_del (qt_id t) (map (\<lambda>t. (qt_id t, t)) ts) = map (\<lambda>t. (qt_id t, t)) (remove1 t ts)"
proof (induction ts)
  case (Cons u ts)
  show ?case
  proof (cases "u = t")
    case True
    with Cons.prems have "\<forall>v \<in> set ts. qt_id v \<noteq> qt_id t" by (auto simp: image_iff)
    then have "m_del (qt_id t) (map (\<lambda>t. (qt_id t, t)) ts) = map (\<lambda>t. (qt_id t, t)) ts"
      by (intro delete_id) auto
    with True show ?thesis by simp
  next
    case False
    with Cons show ?thesis by auto
  qed
qed simp

lemma processNext_inv:
  assumes "queue_inv q"
  shows "queue_inv (processNext now q)"
proof (cases "tq_executor q \<and> length (tq_running q) < tq_max_concurrent q \<and> tq_queue q \<noteq> []")
  case True
  then obtain t rest where q: "tq_queue q = t # rest" by (cases "tq_queue q") auto
  have "qt_id t \<notin> qt_id ` set (tq_inflight q)"
    using assms q by (auto simp: queue_inv_def live_ids_def)
  with assms True q show ?thesis
    by (auto simp: processNext_def queue_inv_def live_ids_def m_set_fresh Let_def)
next
  case False
  then have "processNext now q = q" by (auto simp: processNext_def split: list.splits)
  with assms show ?thesis by simp
qed

lemma processNext_busy:
  assumes "tq_executor q" and "tq_running q = map (\<lambda>t. (qt_id t, t)) (tq_inflight q)"
    and "distinct (live_ids q)" and "length (tq_queue q) \<le> 1 \<or> tq_max_concurrent q \<le> Suc (length (tq_running q))"
  shows "busy (processNext now q)"
proof (cases "tq_max_concurrent q \<le> length (tq_running q)")
  case True
  then show ?thesis by (simp add: processNext_def busy_def)
next
  case room: False
  show ?thesis
  proof (cases "tq_queue q")
    case Nil
    then show ?thesis by (simp add: processNext_def busy_def)
  next
    case (Cons t rest)
    then have "qt_id t \<notin> qt_id ` set (tq_inflight q)" using assms(3) by (auto simp: live_ids_def)
    with assms room Cons show ?thesis
      by (auto simp: processNext_def busy_def Let_def m_set_fresh)
  qed
qed

lemma processNext_config [simp]:
  "tq_executor (processNext now q) = tq_executor q"
  "tq_max_concurrent (processNext now q) = tq_max_concurrent q"
  "tq_max_queue_size (processNext now q) = tq_max_queue_size q"
  by (auto simp: processNext_def Let_def split: list.splits)

lemma queue_inv_step:
  assumes inv: "queue_inv q" and "queue_step q q'"
  shows "queue_inv q'"
  using assms(2)
proof (cases rule: queue_step.cases)
  case (enqueue task now later)
  let ?t = "task\<lparr>qt_enqueued_at := now, qt_status := Queued\<rparr>"
  show ?thesis
  proof (cases "tq_max_queue_size q \<le> length (tq_queue q)")
    case True
    with enqueue inv show ?thesis by (simp add: enqueue_def)
  next
    case False
    have "queue_inv (q\<lparr>tq_queue := insert_task ?t (tq_queue q)\<rparr>)"
      using inv enqueue False
      by (auto simp: queue_inv_def live_ids_def distinct_insert_task intro!: sorted_insert_task)
    with False enqueue show ?thesis by (auto simp: enqueue_def Let_def intro: processNext_inv)
  qed
next
  case (finish t now later outcome)
  let ?q = "q\<lparr>tq_inflight := remove1 t (tq_inflight q), tq_running := m_del (qt_id t) (tq_running q),
       tq_completed := keep_last 200 (tq_completed q @ [settle now outcome t])\<rparr>"
  have "distinct (map qt_id (tq_inflight q))" using inv by (simp add: queue_inv_def live_ids_def)
  then have "queue_inv ?q"
    using inv finish length_keep_last
    by (auto simp: queue_inv_def live_ids_def m_del_inflight distinct_map length_remove1 inj_on_diff)
  then show ?thesis unfolding finish finish_def by (rule processNext_inv)
next
  case (cancel i)
  with inv show ?thesis
    using remove_first_subset [of _ "tq_queue q"] length_remove_first [of _ "tq_queue q"]
    by (auto simp: cancel_def queue_inv_def live_ids_def
          intro!: sorted_remove_first distinct_remove_first) (meson order_trans | blast)+
qed

lemma queue_reach:
  "queue_step\<^sup>*\<^sup>* q q' \<Longrightarrow> queue_inv q \<Longrightarrow> queue_inv q' \<and> tq_max_concurrent q' = tq_max_concurrent q
     \<and> tq_max_queue_size q' = tq_max_queue_size q \<and> tq_executor q' = tq_executor q"
proof (induction rule: rtranclp_induct)
  case (step q' q'')
  have "tq_max_concurrent q'' = tq_max_concurrent q' \<and> tq_max_queue_size q'' = tq_max_queue_size q'
      \<and> tq_executor q'' = tq_executor q'"
    using step.hyps(2)
    by (cases rule: queue_step.cases) (auto simp: enqueue_def finish_def cancel_def Let_def)
  with step queue_inv_step show ?case by auto
qed simp

lemma busy_step:
  assumes inv: "queue_inv q" and "busy q" and ex: "tq_executor q" and "queue_step q q'"
  shows "busy q'"
  using assms(4)
proof (cases rule: queue_step.cases)
  case (enqueue task now later)
  let ?t = "task\<lparr>qt_enqueued_at := now, qt_status := Queued\<rparr>"
  show ?thesis
  proof (cases "tq_max_queue_size q \<le> length (tq_queue q)")
    case True
    with enqueue assms(2) show ?thesis by (simp add: enqueue_def)
  next
    case False
    have "busy (processNext later (q\<lparr>tq_queue := insert_task ?t (tq_queue q)\<rparr>))"
      using inv ex enqueue assms(2)
      by (intro processNext_busy) (auto simp: queue_inv_def live_ids_def distinct_insert_task busy_def)
    with False enqueue show ?thesis by (simp add: enqueue_def Let_def)
  qed
next
  case (finish t now later outcome)
  have dist: "distinct (map qt_id (tq_inflight q))" using inv by (simp add: queue_inv_def live_ids_def)
  let ?q = "q\<lparr>tq_inflight := remove1 t (tq_inflight q), tq_running := m_del (qt_id t) (tq_running q),
       tq_completed := keep_last 200 (tq_completed q @ [settle now outcome t])\<rparr>"
  have "busy (processNext later ?q)"
    using inv ex finish assms(2) dist
    by (intro processNext_busy)
       (auto simp: queue_inv_def live_ids_def m_del_inflight distinct_map length_remove1 inj_on_diff busy_def)
  then show ?thesis unfolding finish finish_def .
next
  case (cancel i)
  have "remove_first p [] = []" for p :: "queued_task \<Rightarrow> bool" by simp
  with cancel assms(2) show ?thesis by (auto simp: cancel_def busy_def)
qed

lemma busy_reach: "queue_step\<^sup>*\<^sup>* q q' \<Longrightarrow> queue_inv q \<Longrightarrow> busy q \<Longrightarrow> tq_executor q \<Longrightarrow> busy q'"
proof (induction rule: rtranclp_induct)
  case (step q' q'')
  then show ?case using queue_reach [OF step.hyps(1)] busy_step by blast
qed simp

lemma queue_inv_new [simp]: "queue_inv (new_TaskQueue c m)" "queue_inv (setExecutor q) = queue_inv q"
  by (simp_all add: queue_inv_def new_TaskQueue_def setExecutor_def live_ids_def)

section \<open>Properties\<close>

text \<open>
  The task queue, in every state it reaches after its executor is set: no more than the configured
  number of tasks run at a time and no more wait, at most 200 finished ones are kept; waiting tasks are
  ordered by priority and, at equal priority, by arrival, so the next task to start is one of highest
  priority and the oldest of those; and no capacity is wasted: as long as a task waits, the limit of
  running tasks is reached.
\<close>

theorem task_queue_discipline:
  assumes "queue_step\<^sup>*\<^sup>* (setExecutor (new_TaskQueue maxConcurrent maxQueueSize)) q"
  shows "length (tq_running q) = length (tq_inflight q)
    \<and> length (tq_inflight q) \<le> default_to 5 maxConcurrent
    \<and> length (tq_queue q) \<le> default_to 100 maxQueueSize \<and> length (tq_completed q) \<le> 200
    \<and> (tq_queue q \<noteq> [] \<longrightarrow> (\<forall>t \<in> set (tq_queue q). before (hd (tq_queue q)) t \<or> t = hd (tq_queue q))
         \<and> length (tq_inflight q) = default_to 5 maxConcurrent)"
proof -
  let ?q0 = "setExecutor (new_TaskQueue maxConcurrent maxQueueSize)"
  have cfg: "tq_max_concurrent ?q0 = default_to 5 maxConcurrent" "tq_max_queue_size ?q0 = default_to 100 maxQueueSize"
    "tq_executor ?q0" "busy ?q0"
    by (simp_all add: setExecutor_def new_TaskQueue_def busy_def)
  have inv: "queue_inv q" and "tq_max_concurrent q = default_to 5 maxConcurrent"
    "tq_max_queue_size q = default_to 100 maxQueueSize"
    using queue_reach [OF assms] cfg by auto
  moreover have "busy q" using busy_reach [OF assms] cfg by simp
  moreover have "\<forall>t \<in> set (tq_queue q). before (hd (tq_queue q)) t \<or> t = hd (tq_queue q)" if "tq_queue q \<noteq> []"
    using inv that by (cases "tq_queue q") (auto simp: queue_inv_def)
  ultimately show ?thesis by (auto simp: queue_inv_def busy_def)
qed

definition sample_task :: "string \<Rightarrow> priority \<Rightarrow> queued_task" where
  "sample_task i p = \<lparr>qt_id = i, qt_skill_id = ''s'', qt_input = JNull, qt_priority = p, qt_requester_id = ''r'',
     qt_enqueued_at = 0, qt_started_at = None, qt_completed_at = None, qt_status = Queued,
     qt_result = None, qt_error = None\<rparr>"

definition sample_queue :: task_queue where
  "sample_queue = snd (enqueue 2 2 (sample_task ''b'' Normal)
     (snd (enqueue 1 1 (sample_task ''a'' Low) (setExecutor (new_TaskQueue (Some 1) None)))))"

theorem task_queue_discipline_witness:
  "tq_queue sample_queue \<noteq> [] \<and> length (tq_inflight sample_queue) = 1"
proof -
  have "queue_step\<^sup>*\<^sup>* (setExecutor (new_TaskQueue (Some 1) None)) sample_queue"
    unfolding sample_queue_def
    by (rule converse_rtranclp_into_rtranclp, rule queue_step.enqueue,
        simp_all add: setExecutor_def new_TaskQueue_def live_ids_def,
        rule r_into_rtranclp, rule queue_step.enqueue)
       (simp_all add: enqueue_def processNext_def sample_task_def live_ids_def Let_def)
  moreover have "tq_queue sample_queue \<noteq> []"
    by (simp add: sample_queue_def enqueue_def processNext_def sample_task_def setExecutor_def new_TaskQueue_def Let_def)
  ultimately show ?thesis using task_queue_discipline [of "Some 1" None sample_queue] by simp
qed

text \<open>Two tasks with the same id overwrite each other in the map of running tasks: three run at a limit of two.\<close>

lemma duplicate_ids_exceed_limit:
  "length (tq_inflight (snd (enqueue 3 3 (sample_task ''c'' Low) (snd (enqueue 2 2 (sample_task ''a'' Low)
       (snd (enqueue 1 1 (sample_task ''a'' Low) (setExecutor (new_TaskQueue (Some 2) None))))))))) = 3"
  by (simp add: enqueue_def processNext_def sample_task_def setExecutor_def new_TaskQueue_def Let_def)

end
