(* ===== verification/Circuit_Breaker.thy ===== *)
theory Circuit_Breaker
  imports Prelude
begin

text \<open>
  The circuit breaker of skill executions, \<open>packages/daemon/src/circuit-breaker.ts\<close>: per skill a circuit
  that is closed, open or half open. Circuits are created on first use. The several readings of the clock
  inside \<open>recordFailure\<close> are one argument.
\<close>

section \<open>Data\<close>

datatype circuit_state = Closed | Open | HalfOpen

record circuit =
  ci_state :: circuit_state
  ci_failures :: nat
  ci_last_failure_at :: time
  ci_opened_at :: time
  ci_success_count :: nat
  ci_total_calls :: nat

record breaker =
  cb_circuits :: "(string, circuit) jsmap"
  cb_failure_threshold :: nat
  cb_reset_timeout_ms :: int

record circuit_status =
  cst_skill_id :: string
  cst_state :: circuit_state
  cst_failures :: nat
  cst_success_count :: nat
  cst_total_calls :: nat
  cst_last_failure_at :: "time option"
  cst_next_retry_at :: "time option"

section \<open>Operations\<close>

definition new_CircuitBreaker :: "nat option \<Rightarrow> int option \<Rightarrow> breaker" where
  "new_CircuitBreaker threshold reset =
     \<lparr>cb_circuits = [], cb_failure_threshold = default_to 5 threshold, cb_reset_timeout_ms = default_to 60000 reset\<rparr>"

definition new_circuit :: circuit where
  "new_circuit = \<lparr>ci_state = Closed, ci_failures = 0, ci_last_failure_at = 0, ci_opened_at = 0,
     ci_success_count = 0, ci_total_calls = 0\<rparr>"

definition circuit_of :: "string \<Rightarrow> breaker \<Rightarrow> circuit" where
  "circuit_of skillId b = default_to new_circuit (m_get (cb_circuits b) skillId)"

text \<open>\<open>getOrCreate\<close> inserts the circuit; every operation then stores what it made of it.\<close>

definition put_circuit :: "string \<Rightarrow> circuit \<Rightarrow> breaker \<Rightarrow> breaker" where
  "put_circuit skillId c b = b\<lparr>cb_circuits := m_set skillId c (cb_circuits b)\<rparr>"

definition canExecute :: "time \<Rightarrow> string \<Rightarrow> breaker \<Rightarrow> bool \<times> breaker" where
  "canExecute now skillId b =
     (let c = circuit_of skillId b in
      case ci_state c of
        Closed \<Rightarrow> (True, put_circuit skillId c b)
      | Open \<Rightarrow>
          if cb_reset_timeout_ms b \<le> now - ci_opened_at c
          then (True, put_circuit skillId (c\<lparr>ci_state := HalfOpen\<rparr>) b)
          else (False, put_circuit skillId c b)
      | HalfOpen \<Rightarrow> (True, put_circuit skillId c b))"

definition recordSuccess :: "string \<Rightarrow> breaker \<Rightarrow> breaker" where
  "recordSuccess skillId b =
     (let c = circuit_of skillId b;
          c' = c\<lparr>ci_success_count := ci_success_count c + 1, ci_total_calls := ci_total_calls c + 1\<rparr>
      in put_circuit skillId
           (if ci_state c = HalfOpen then c'\<lparr>ci_state := Closed, ci_failures := 0\<rparr> else c'\<lparr>ci_failures := 0\<rparr>) b)"

definition recordFailure :: "time \<Rightarrow> string \<Rightarrow> breaker \<Rightarrow> breaker" where
  "recordFailure now skillId b =
     (let c = circuit_of skillId b;
          c' = c\<lparr>ci_failures := ci_failures c + 1, ci_total_calls := ci_total_calls c + 1, ci_last_failure_at := now\<rparr>
      in put_circuit skillId
           (if ci_state c' = HalfOpen then c'\<lparr>ci_state := Open, ci_opened_at := now\<rparr>
            else if cb_failure_threshold b \<le> ci_failures c' then c'\<lparr>ci_state := Open, ci_opened_at := now\<rparr>
            else c') b)"

definition reset_circuit :: "string \<Rightarrow> breaker \<Rightarrow> breaker" where
  "reset_circuit skillId b = put_circuit skillId ((circuit_of skillId b)\<lparr>ci_state := Closed, ci_failures := 0\<rparr>) b"

definition clear_circuits :: "breaker \<Rightarrow> breaker" where
  "clear_circuits b = b\<lparr>cb_circuits := []\<rparr>"

definition toStatus :: "string \<Rightarrow> circuit \<Rightarrow> breaker \<Rightarrow> circuit_status" where
  "toStatus skillId c b =
     \<lparr>cst_skill_id = skillId, cst_state = ci_state c, cst_failures = ci_failures c,
      cst_success_count = ci_success_count c, cst_total_calls = ci_total_calls c,
      cst_last_failure_at = (if ci_last_failure_at c = 0 then None else Some (ci_last_failure_at c)),
      cst_next_retry_at = (if ci_state c = Open then Some (ci_opened_at c + cb_reset_timeout_ms b) else None)\<rparr>"

definition getStatus :: "string \<Rightarrow> breaker \<Rightarrow> circuit_status \<times> breaker" where
  "getStatus skillId b = (toStatus skillId (circuit_of skillId b) b, put_circuit skillId (circuit_of skillId b) b)"

definition getAll :: "breaker \<Rightarrow> circuit_status list" where
  "getAll b = map (\<lambda>(k, c). toStatus k c b) (cb_circuits b)"

section \<open>Runs\<close>

datatype breaker_op =
    CanExecute string time
  | Success string
  | Failure string time
  | Reset string
  | Status string

fun breaker_step :: "breaker_op \<Rightarrow> breaker \<Rightarrow> breaker" where
  "breaker_step (CanExecute k t) b = snd (canExecute t k b)"
| "breaker_step (Success k) b = recordSuccess k b"
| "breaker_step (Failure k t) b = recordFailure t k b"
| "breaker_step (Reset k) b = reset_circuit k b"
| "breaker_step (Status k) b = snd (getStatus k b)"

fun answers :: "string \<Rightarrow> breaker_op list \<Rightarrow> breaker \<Rightarrow> bool list" where
  "answers k [] b = []"
| "answers k (CanExecute k' t # ops) b =
     (if k' = k then [fst (canExecute t k' b)] else []) @ answers k ops (snd (canExecute t k' b))"
| "answers k (op # ops) b = answers k ops (breaker_step op b)"

text \<open>The outcomes reported for a skill since its circuit was last reset or succeeded.\<close>

fun failures_since :: "string \<Rightarrow> nat \<Rightarrow> breaker_op list \<Rightarrow> nat" where
  "failures_since k n [] = n"
| "failures_since k n (Success k' # ops) = failures_since k (if k' = k then 0 else n) ops"
| "failures_since k n (Failure k' t # ops) = failures_since k (if k' = k then Suc n else n) ops"
| "failures_since k n (Reset k' # ops) = failures_since k (if k' = k then 0 else n) ops"
| "failures_since k n (_ # ops) = failures_since k n ops"

section \<open>Lemmas\<close>

lemma circuit_of_put [simp]:
  "circuit_of k (put_circuit k' c b) = (if k = k' then c else circuit_of k b)"
  by (simp add: circuit_of_def put_circuit_def)

lemma put_config [simp]:
  "cb_failure_threshold (put_circuit k c b) = cb_failure_threshold b"
  "cb_reset_timeout_ms (put_circuit k c b) = cb_reset_timeout_ms b"
  by (simp_all add: put_circuit_def)

lemmas breaker_defs = canExecute_def recordSuccess_def recordFailure_def reset_circuit_def getStatus_def Let_def

lemma step_config [simp]:
  "cb_failure_threshold (breaker_step op b) = cb_failure_threshold b"
  "cb_reset_timeout_ms (breaker_step op b) = cb_reset_timeout_ms b"
  by (cases op; auto simp: breaker_defs split: circuit_state.splits)+

lemma failures_step:
  "ci_failures (circuit_of k (breaker_step op b)) = failures_since k (ci_failures (circuit_of k b)) [op]"
  by (cases op) (auto simp: breaker_defs split: circuit_state.splits)

lemma failures_run:
  "ci_failures (circuit_of k (fold breaker_step ops b)) = failures_since k (ci_failures (circuit_of k b)) ops"
proof (induction ops arbitrary: b)
  case (Cons op ops)
  have "failures_since k n (op # ops) = failures_since k (failures_since k n [op]) ops" for n by (cases op) simp_all
  then show ?case using Cons.IH by (simp add: failures_step del: breaker_step.simps failures_since.simps)
qed simp

text \<open>A closed circuit has fewer failures than the threshold.\<close>

definition breaker_inv :: "breaker \<Rightarrow> bool" where
  "breaker_inv b \<longleftrightarrow> (\<forall>k. ci_state (circuit_of k b) = Closed \<longrightarrow> ci_failures (circuit_of k b) < cb_failure_threshold b)"

lemma breaker_inv_step: "breaker_inv b \<Longrightarrow> 0 < cb_failure_threshold b \<Longrightarrow> breaker_inv (breaker_step op b)"
  by (cases op) (auto simp: breaker_inv_def breaker_defs split: circuit_state.splits if_splits)

lemma breaker_inv_run:
  "breaker_inv b \<Longrightarrow> 0 < cb_failure_threshold b \<Longrightarrow>
   breaker_inv (fold breaker_step ops b) \<and> cb_failure_threshold (fold breaker_step ops b) = cb_failure_threshold b"
  by (induction ops arbitrary: b) (simp_all add: breaker_inv_step)

text \<open>Within the time-out an open circuit stays open, whatever is reported.\<close>

fun in_window :: "string \<Rightarrow> time \<Rightarrow> time \<Rightarrow> breaker_op \<Rightarrow> bool" where
  "in_window k lo hi (CanExecute k' t) \<longleftrightarrow> (k' = k \<longrightarrow> lo \<le> t \<and> t < hi)"
| "in_window k lo hi (Failure k' t) \<longleftrightarrow> (k' = k \<longrightarrow> lo \<le> t \<and> t < hi)"
| "in_window k lo hi (Reset k') \<longleftrightarrow> k' \<noteq> k"
| "in_window k lo hi _ \<longleftrightarrow> True"

definition open_since :: "string \<Rightarrow> time \<Rightarrow> breaker \<Rightarrow> bool" where
  "open_since k u b \<longleftrightarrow> ci_state (circuit_of k b) = Open \<and> u \<le> ci_opened_at (circuit_of k b)"

lemma open_step:
  "open_since k u b \<Longrightarrow> in_window k u (u + cb_reset_timeout_ms b) op \<Longrightarrow> open_since k u (breaker_step op b)"
  by (cases op) (auto simp: open_since_def breaker_defs split: circuit_state.splits)

lemma open_answers:
  "open_since k u b \<Longrightarrow> \<forall>op \<in> set ops. in_window k u (u + cb_reset_timeout_ms b) op \<Longrightarrow>
   \<forall>x \<in> set (answers k ops b). \<not> x"
proof (induction ops arbitrary: b)
  case (Cons op ops)
  have later: "open_since k u (breaker_step op b)" using open_step Cons.prems by auto
  have rest: "\<forall>x \<in> set (answers k ops (breaker_step op b)). \<not> x"
    using Cons.IH [OF later] Cons.prems(2) step_config(2) [of op b] by simp
  show ?case
  proof (cases op)
    case (CanExecute k' t)
    have "\<not> fst (canExecute t k b)" if "k' = k"
      using Cons.prems CanExecute that by (auto simp: open_since_def canExecute_def Let_def)
    then show ?thesis using rest CanExecute by auto
  qed (use rest in auto)
qed simp

section \<open>Properties\<close>

text \<open>
  The circuit breaker. In every run the failure count of a skill is the number of failures since its
  last success or reset, and its circuit is closed only below the threshold; a closed or half-open circuit
  lets calls through; and once a failure has opened a circuit at some time, every call within the reset
  time-out is refused, whatever is reported meanwhile, until the circuit is reset.
\<close>

theorem circuit_breaker_correct:
  assumes "b = fold breaker_step ops (new_CircuitBreaker (Some threshold) (Some timeout))" and "0 < threshold"
  shows "ci_failures (circuit_of k b) = failures_since k 0 ops
    \<and> (ci_state (circuit_of k b) = Closed \<longrightarrow> failures_since k 0 ops < threshold)
    \<and> (ci_state (circuit_of k b) \<noteq> Open \<longrightarrow> fst (canExecute now k b))
    \<and> (threshold \<le> Suc (failures_since k 0 ops) \<or> ci_state (circuit_of k b) = HalfOpen \<longrightarrow>
         (\<forall>ops'. (\<forall>op \<in> set ops'. in_window k now (now + timeout) op) \<longrightarrow>
            (\<forall>x \<in> set (answers k ops' (recordFailure now k b)). \<not> x)))"
proof (intro conjI impI allI)
  let ?b0 = "new_CircuitBreaker (Some threshold) (Some timeout)"
  have init: "circuit_of k ?b0 = new_circuit" for k by (simp add: circuit_of_def new_CircuitBreaker_def)
  have "breaker_inv ?b0" using assms(2) by (simp add: breaker_inv_def init) (simp add: new_circuit_def new_CircuitBreaker_def)
  then have inv: "breaker_inv b" and thr: "cb_failure_threshold b = threshold"
    using breaker_inv_run [of ?b0 ops] assms by (simp_all add: new_CircuitBreaker_def)
  have "cb_reset_timeout_ms (fold breaker_step ops b') = cb_reset_timeout_ms b'" for b'
    by (induction ops arbitrary: b') simp_all
  then have tmo: "cb_reset_timeout_ms b = timeout" using assms by (simp add: new_CircuitBreaker_def)
  show fails: "ci_failures (circuit_of k b) = failures_since k 0 ops"
    using failures_run [of k ops ?b0] assms by (simp add: init) (simp add: new_circuit_def)
  show "failures_since k 0 ops < threshold" if "ci_state (circuit_of k b) = Closed"
    using inv that fails thr by (auto simp: breaker_inv_def)
  show "fst (canExecute now k b)" if "ci_state (circuit_of k b) \<noteq> Open"
    using that by (cases "ci_state (circuit_of k b)") (auto simp: canExecute_def)
  fix ops' assume opens: "threshold \<le> Suc (failures_since k 0 ops) \<or> ci_state (circuit_of k b) = HalfOpen"
    and times: "\<forall>op \<in> set ops'. in_window k now (now + timeout) op"
  have "open_since k now (recordFailure now k b)"
    using opens fails thr by (auto simp: open_since_def recordFailure_def Let_def)
  moreover have "cb_reset_timeout_ms (recordFailure now k b) = timeout"
    using tmo by (simp add: recordFailure_def Let_def)
  ultimately show "\<forall>x \<in> set (answers k ops' (recordFailure now k b)). \<not> x"
    using open_answers times by metis
qed

theorem circuit_breaker_correct_witness:
  "list_all Not (answers ''s'' [CanExecute ''s'' 100, Success ''s'', CanExecute ''s'' 59000]
     (recordFailure 10 ''s'' (fold breaker_step [Failure ''s'' 5] (new_CircuitBreaker (Some 2) (Some 60000)))))"
proof -
  let ?b = "fold breaker_step [Failure ''s'' 5] (new_CircuitBreaker (Some 2) (Some 60000))"
  have fails: "(2::nat) \<le> Suc (failures_since ''s'' 0 [Failure ''s'' 5])" by simp
  have "\<forall>op \<in> set [CanExecute ''s'' 100, Success ''s'', CanExecute ''s'' 59000]. in_window ''s'' 10 (10 + 60000) op"
    by simp
  with fails show ?thesis
    using circuit_breaker_correct [of ?b "[Failure ''s'' 5]" 2 60000 "''s''" 10, OF refl zero_less_numeral] unfolding list_all_iff by metis
qed

text \<open>A half-open circuit does not limit itself to one probe.\<close>

lemma half_open_unlimited:
  "ci_state (circuit_of k b) = HalfOpen \<Longrightarrow> answers k (replicate n (CanExecute k t)) b = replicate n True"
proof (induction n arbitrary: b)
  case (Suc n)
  then have "fst (canExecute t k b)" "ci_state (circuit_of k (snd (canExecute t k b))) = HalfOpen"
    by (simp_all add: canExecute_def Let_def)
  with Suc show ?case by simp
qed simp

end
