(* ===== verification/Session_Checkout.thy ===== *)
theory Session_Checkout
  imports Prelude
begin

text \<open>
  The branch locks of \<open>session-checkout.ts\<close>: one row per branch with a holder and an expiry. Every operation
  reads the clock once per call of \<open>Date\<close> in the code, in the order of its arguments; ISO time stamps of one
  format compare like the instants they denote.
\<close>

section \<open>State and operations\<close>

record checkout_lock =
  lk_branch :: string
  lk_agent_id :: string
  lk_locked_at :: time
  lk_expires_at :: time
  lk_purpose :: "string option"

record session_checkout =
  sc_locks :: "checkout_lock list"
  sc_max_lock_duration_ms :: time

record checkout_result =
  cr_ok :: bool
  cr_branch :: string
  cr_holder :: string
  cr_locked_at :: time
  cr_expires_at :: time

definition new_SessionCheckout :: "time option \<Rightarrow> session_checkout" where
  "new_SessionCheckout maxLockDurationMs =
     \<lparr>sc_locks = [], sc_max_lock_duration_ms = default_to (2 * 60 * 60 * 1000) maxLockDurationMs\<rparr>"

definition lock_of :: "string \<Rightarrow> session_checkout \<Rightarrow> checkout_lock option" where
  "lock_of branch s = List.find (\<lambda>l. lk_branch l = branch) (sc_locks s)"

definition evictExpired :: "time \<Rightarrow> session_checkout \<Rightarrow> nat \<times> session_checkout" where
  "evictExpired now s =
     (t_changes (\<lambda>l. lk_expires_at l < now) (sc_locks s),
      s\<lparr>sc_locks := t_delete (\<lambda>l. lk_expires_at l < now) (sc_locks s)\<rparr>)"

definition refresh_lock :: "string \<Rightarrow> time \<Rightarrow> string option \<Rightarrow> session_checkout \<Rightarrow> session_checkout" where
  "refresh_lock branch expiresAt purpose s =
     s\<lparr>sc_locks := t_update (\<lambda>l. lk_branch l = branch)
        (\<lambda>l. l\<lparr>lk_expires_at := expiresAt, lk_purpose := coalesce purpose (lk_purpose l)\<rparr>) (sc_locks s)\<rparr>"

definition checkout ::
  "time \<Rightarrow> time \<Rightarrow> time \<Rightarrow> string \<Rightarrow> string \<Rightarrow> string option \<Rightarrow> session_checkout \<Rightarrow>
   checkout_result \<times> session_checkout" where
  "checkout tEvict tNow tExpiry branch agentId purpose s0 =
     (let s = snd (evictExpired tEvict s0);
          expiresAt = tExpiry + sc_max_lock_duration_ms s
      in case lock_of branch s of
           Some existing \<Rightarrow>
             if lk_agent_id existing = agentId then
               (\<lparr>cr_ok = True, cr_branch = branch, cr_holder = agentId, cr_locked_at = lk_locked_at existing,
                 cr_expires_at = expiresAt\<rparr>, refresh_lock branch expiresAt purpose s)
             else
               (\<lparr>cr_ok = False, cr_branch = branch, cr_holder = lk_agent_id existing,
                 cr_locked_at = lk_locked_at existing, cr_expires_at = lk_expires_at existing\<rparr>, s)
         | None \<Rightarrow>
             (\<lparr>cr_ok = True, cr_branch = branch, cr_holder = agentId, cr_locked_at = tNow, cr_expires_at = expiresAt\<rparr>,
              s\<lparr>sc_locks := sc_locks s @ [\<lparr>lk_branch = branch, lk_agent_id = agentId, lk_locked_at = tNow,
                 lk_expires_at = expiresAt, lk_purpose = purpose\<rparr>]\<rparr>))"

definition release :: "string \<Rightarrow> string \<Rightarrow> session_checkout \<Rightarrow> bool \<times> session_checkout" where
  "release branch agentId s =
     (let held = (\<lambda>l. lk_branch l = branch \<and> lk_agent_id l = agentId)
      in (0 < t_changes held (sc_locks s), s\<lparr>sc_locks := t_delete held (sc_locks s)\<rparr>))"

definition forceRelease :: "string \<Rightarrow> session_checkout \<Rightarrow> bool \<times> session_checkout" where
  "forceRelease branch s =
     (let held = (\<lambda>l. lk_branch l = branch)
      in (0 < t_changes held (sc_locks s), s\<lparr>sc_locks := t_delete held (sc_locks s)\<rparr>))"

definition listLocks :: "time \<Rightarrow> session_checkout \<Rightarrow> checkout_lock list \<times> session_checkout" where
  "listLocks now s0 =
     (let s = snd (evictExpired now s0) in (sort_key (\<lambda>l. - lk_locked_at l) (sc_locks s), s))"

definition isLocked :: "time \<Rightarrow> string \<Rightarrow> session_checkout \<Rightarrow> checkout_lock option \<times> session_checkout" where
  "isLocked now branch s0 = (let s = snd (evictExpired now s0) in (lock_of branch s, s))"

section \<open>Runs\<close>

datatype checkout_op =
    Checkout time time time string string "string option"
  | Release string string
  | ForceRelease string
  | ListLocks time
  | IsLocked time string

fun checkout_step :: "checkout_op \<Rightarrow> session_checkout \<Rightarrow> session_checkout" where
  "checkout_step (Checkout tv tn tx b a p) s = snd (checkout tv tn tx b a p s)"
| "checkout_step (Release b a) s = snd (release b a s)"
| "checkout_step (ForceRelease b) s = snd (forceRelease b s)"
| "checkout_step (ListLocks t) s = snd (listLocks t s)"
| "checkout_step (IsLocked t b) s = snd (isLocked t b s)"

text \<open>Operations that leave the lock of an agent on a branch alone until an instant.\<close>

fun keeps_lock :: "string \<Rightarrow> string \<Rightarrow> time \<Rightarrow> time \<Rightarrow> checkout_op \<Rightarrow> bool" where
  "keeps_lock b a lo hi (Release b' a') \<longleftrightarrow> b' \<noteq> b \<or> a' \<noteq> a"
| "keeps_lock b a lo hi (ForceRelease b') \<longleftrightarrow> b' \<noteq> b"
| "keeps_lock b a lo hi (Checkout tv tn tx b' a' p) \<longleftrightarrow> tv \<le> hi \<and> lo \<le> tx"
| "keeps_lock b a lo hi (ListLocks t) \<longleftrightarrow> t \<le> hi"
| "keeps_lock b a lo hi (IsLocked t b') \<longleftrightarrow> t \<le> hi"

section \<open>Lemmas\<close>

definition checkout_inv :: "session_checkout \<Rightarrow> bool" where
  "checkout_inv s \<longleftrightarrow> t_unique lk_branch (sc_locks s)"

lemma new_inv [simp]: "checkout_inv (new_SessionCheckout d)"
  by (simp add: checkout_inv_def new_SessionCheckout_def)

lemma evict_inv [simp]: "checkout_inv s \<Longrightarrow> checkout_inv (snd (evictExpired now s))"
  by (simp add: checkout_inv_def evictExpired_def t_unique_delete)

lemma evict_lock:
  "checkout_inv s \<Longrightarrow> lock_of b (snd (evictExpired now s)) =
     (case lock_of b s of None \<Rightarrow> None | Some l \<Rightarrow> if lk_expires_at l < now then None else Some l)"
  by (simp add: checkout_inv_def lock_of_def evictExpired_def find_key_delete)

lemma evict_duration [simp]: "sc_max_lock_duration_ms (snd (evictExpired now s)) = sc_max_lock_duration_ms s"
  by (simp add: evictExpired_def)

lemma refresh_lock_of:
  "lock_of b (refresh_lock b' t p s) = map_option
     (\<lambda>l. if b = b' then l\<lparr>lk_expires_at := t, lk_purpose := coalesce p (lk_purpose l)\<rparr> else l) (lock_of b s)"
  unfolding lock_of_def refresh_lock_def
  by (auto simp: find_key_update find_Some_iff split: option.splits intro!: option.map_cong0)

lemma checkout_inv_checkout [simp]: "checkout_inv s \<Longrightarrow> checkout_inv (snd (checkout tv tn tx b a p s))"
proof -
  assume "checkout_inv s"
  then have "checkout_inv (snd (evictExpired tv s))" by simp
  moreover have "lock_of b s' = None \<longleftrightarrow> b \<notin> lk_branch ` set (sc_locks s')" for s'
    unfolding lock_of_def by (rule find_None_key)
  ultimately show ?thesis
    by (auto simp: checkout_def Let_def checkout_inv_def refresh_lock_def t_unique_append1 t_unique_update
        split: option.splits)
qed

lemma checkout_inv_step [simp]: "checkout_inv s \<Longrightarrow> checkout_inv (checkout_step op s)"
  by (cases op) (simp_all add: release_def forceRelease_def listLocks_def isLocked_def Let_def,
      simp_all add: checkout_inv_def t_unique_delete)

lemma checkout_inv_run [simp]: "checkout_inv s \<Longrightarrow> checkout_inv (fold checkout_step ops s)"
  by (induction ops arbitrary: s) simp_all

lemma duration_step [simp]: "sc_max_lock_duration_ms (checkout_step op s) = sc_max_lock_duration_ms s"
  by (cases op) (auto simp: checkout_def release_def forceRelease_def listLocks_def isLocked_def refresh_lock_def Let_def
      split: option.splits)

text \<open>A lock held by an agent at least until an instant.\<close>

definition held :: "string \<Rightarrow> string \<Rightarrow> time \<Rightarrow> time \<Rightarrow> session_checkout \<Rightarrow> bool" where
  "held b a since hi s \<longleftrightarrow> (\<exists>l. lock_of b s = Some l \<and> lk_agent_id l = a \<and> lk_locked_at l = since \<and> hi \<le> lk_expires_at l)"

lemma lock_of_checkout:
  assumes "checkout_inv s"
  shows "lock_of b (snd (checkout tv tn tx b' a p s)) =
    (if b = b' then
       (case lock_of b (snd (evictExpired tv s)) of
          Some l \<Rightarrow> Some (if lk_agent_id l = a then l\<lparr>lk_expires_at := tx + sc_max_lock_duration_ms s,
                             lk_purpose := coalesce p (lk_purpose l)\<rparr> else l)
        | None \<Rightarrow> Some \<lparr>lk_branch = b, lk_agent_id = a, lk_locked_at = tn,
                       lk_expires_at = tx + sc_max_lock_duration_ms s, lk_purpose = p\<rparr>)
     else lock_of b (snd (evictExpired tv s)))"
proof -
  have "lock_of b (s'\<lparr>sc_locks := sc_locks s' @ [l]\<rparr>) =
      (case lock_of b s' of None \<Rightarrow> if lk_branch l = b then Some l else None | Some x \<Rightarrow> Some x)" for s' l
    by (simp add: lock_of_def find_key_append)
  then show ?thesis by (auto simp: checkout_def Let_def refresh_lock_of split: option.splits)
qed

lemma held_step:
  assumes inv: "checkout_inv s" and held: "held b a since hi s"
    and keeps: "keeps_lock b a lo hi op" and "hi = lo + sc_max_lock_duration_ms s"
  shows "held b a since hi (checkout_step op s)"
proof (cases op)
  case (Checkout tv tn tx b' a' p)
  have "held b a since hi (snd (evictExpired tv s))"
    using held keeps Checkout evict_lock [OF inv, of b tv] by (auto simp: held_def)
  then show ?thesis
    using assms(4) keeps Checkout by (auto simp: held_def lock_of_checkout [OF inv])
next
  case (Release b' a')
  have "lock_of b (snd (release b' a' s)) = (case lock_of b s of None \<Rightarrow> None
      | Some l \<Rightarrow> if lk_branch l = b' \<and> lk_agent_id l = a' then None else Some l)"
    using inv by (simp add: checkout_inv_def lock_of_def release_def Let_def find_key_delete)
  moreover have "lk_branch l = b" if "lock_of b s = Some l" for l using that by (auto simp: lock_of_def find_Some_iff)
  ultimately show ?thesis using held keeps Release by (auto simp: held_def)
next
  case (ForceRelease b')
  have "lock_of b (snd (forceRelease b' s)) = (case lock_of b s of None \<Rightarrow> None
      | Some l \<Rightarrow> if lk_branch l = b' then None else Some l)"
    using inv by (simp add: checkout_inv_def lock_of_def forceRelease_def Let_def find_key_delete)
  moreover have "lk_branch l = b" if "lock_of b s = Some l" for l using that by (auto simp: lock_of_def find_Some_iff)
  ultimately show ?thesis using held keeps ForceRelease by (auto simp: held_def)
next
  case (ListLocks t)
  then show ?thesis using held keeps evict_lock [OF inv, of b t] by (auto simp: held_def listLocks_def Let_def)
next
  case (IsLocked t b')
  then show ?thesis using held keeps evict_lock [OF inv, of b t] by (auto simp: held_def isLocked_def Let_def)
qed

lemma held_run:
  "checkout_inv s \<Longrightarrow> held b a since hi s \<Longrightarrow> list_all (keeps_lock b a lo hi) ops \<Longrightarrow>
   hi = lo + sc_max_lock_duration_ms s \<Longrightarrow> held b a since hi (fold checkout_step ops s)"
proof (induction ops arbitrary: s)
  case (Cons op ops)
  have "held b a since hi (checkout_step op s)" using held_step [OF Cons.prems(1,2)] Cons.prems(3,4) by auto
  then show ?case using Cons.IH [of "checkout_step op s"] Cons.prems by auto
qed simp

section \<open>Properties\<close>

text \<open>
  Mutual exclusion on branches. In any history of the lock table there is at most one lock per branch.
  Once an agent has checked out a branch, until the lock expires, and as long as the agent does not release
  it and it is not force-released, whatever the other agents call: every attempt of another agent is refused
  and names the holder, and a repeated checkout by the holder succeeds with its original lock time.
\<close>

theorem checkout_exclusive:
  assumes "s = fold checkout_step ops (new_SessionCheckout (Some d))"
    and "checkout tv tn tx b a p s = (r, s')" and "cr_ok r"
    and "list_all (keeps_lock b a tx (tx + d)) ops'"
    and "tv' \<le> tx + d"
  shows "distinct (map lk_branch (sc_locks (fold checkout_step ops' s')))
    \<and> (let r' = fst (checkout tv' tn' tx' b a' p' (fold checkout_step ops' s'))
       in (cr_ok r' \<longleftrightarrow> a' = a) \<and> cr_holder r' = a \<and> cr_locked_at r' = cr_locked_at r)"
proof -
  have inv: "checkout_inv s" using assms(1) by simp
  have "sc_max_lock_duration_ms (fold checkout_step os t) = sc_max_lock_duration_ms t" for os t
    by (induction os arbitrary: t) simp_all
  then have dur: "sc_max_lock_duration_ms s = d" using assms(1) by (simp add: new_SessionCheckout_def)
  have s': "s' = snd (checkout tv tn tx b a p s)" and r: "r = fst (checkout tv tn tx b a p s)" using assms(2) by simp_all
  have inv': "checkout_inv s'" unfolding s' using inv by simp
  have dur': "sc_max_lock_duration_ms s' = d" using duration_step [of "Checkout tv tn tx b a p" s] dur s' by simp
  have "held b a (cr_locked_at r) (tx + d) s'"
    using assms(3) dur unfolding held_def s' lock_of_checkout [OF inv] r
    by (auto simp: checkout_def Let_def split: option.splits if_splits)
  then have held: "held b a (cr_locked_at r) (tx + d) (fold checkout_step ops' s')"
    by (rule held_run [OF inv' _ assms(4)]) (simp add: dur')
  define t where "t = fold checkout_step ops' s'"
  have invr: "checkout_inv t" unfolding t_def using inv' by simp
  obtain l where "lock_of b t = Some l" and agent: "lk_agent_id l = a" and at: "lk_locked_at l = cr_locked_at r"
      and "tx + d \<le> lk_expires_at l"
    using held [folded t_def] unfolding held_def by blast
  then have l: "lock_of b (snd (evictExpired tv' t)) = Some l" using assms(5) by (simp add: evict_lock [OF invr])
  have "distinct (map lk_branch (sc_locks t))" using invr by (simp add: checkout_inv_def t_unique_def)
  then show ?thesis
    unfolding t_def [symmetric] by (cases "a' = a") (simp_all add: checkout_def Let_def l agent at)
qed

theorem checkout_exclusive_witness:
  "let s' = snd (checkout 10 10 10 ''main'' ''alice'' None (new_SessionCheckout (Some 1000)));
       r' = fst (checkout 900 900 901 ''main'' ''bob'' None (fold checkout_step [Release ''main'' ''bob'', ListLocks 500] s'))
   in \<not> cr_ok r' \<and> cr_holder r' = ''alice'' \<and> cr_locked_at r' = 10"
proof -
  let ?s = "new_SessionCheckout (Some 1000)" and ?c = "checkout 10 10 10 ''main'' ''alice'' None"
  have c: "?c ?s = (fst (?c ?s), snd (?c ?s))" and ok: "cr_ok (fst (?c ?s))" and at: "cr_locked_at (fst (?c ?s)) = 10"
    by (simp_all add: checkout_def Let_def evictExpired_def lock_of_def new_SessionCheckout_def t_delete_def)
  show ?thesis
    using checkout_exclusive [where ops = "[]" and d = 1000, OF _ c ok, where ops' = "[Release ''main'' ''bob'', ListLocks 500]"
      and tv' = 900 and tn' = 900 and tx' = 901 and a' = "''bob''" and p' = None] at
    by (simp add: Let_def)
qed

end
