(* ===== verification/Skill_Deps.thy ===== *)
theory Skill_Deps
  imports Prelude
begin

text \<open>
  The installation order of skills (\<open>skill-deps.ts\<close>): a depth-first search with cycle detection over the map
  from a skill to the skills it depends on. The search recurses only into skills that are not being visited,
  so its depth is bounded by the number of skill ids; the definitions carry that bound as fuel, and running
  out of it, which would be a result of its own, is shown not to happen.
\<close>

section \<open>The search\<close>

type_synonym skill_deps = "(string, string list) jsmap"

record visit_state =
  vs_visited :: "string set"
  vs_visiting :: "string set"
  vs_order :: "string list"

definition deps_of :: "skill_deps \<Rightarrow> string \<Rightarrow> string list" where
  "deps_of skillDeps skillId = default_to [] (m_get skillDeps skillId)"

definition enter :: "string \<Rightarrow> visit_state \<Rightarrow> visit_state" where
  "enter skillId st = st\<lparr>vs_visiting := insert skillId (vs_visiting st)\<rparr>"

definition leave :: "string \<Rightarrow> visit_state \<Rightarrow> visit_state" where
  "leave skillId st = st\<lparr>vs_visiting := vs_visiting st - {skillId}, vs_visited := insert skillId (vs_visited st),
     vs_order := vs_order st @ [skillId]\<rparr>"

text \<open>
  \<open>visit\<close> and its loop over the dependencies. \<open>None\<close> is lack of fuel; otherwise the answer of the search and
  the state it leaves. The loop stops at the first dependency that answers \<open>false\<close>.
\<close>

fun visit :: "nat \<Rightarrow> skill_deps \<Rightarrow> string \<Rightarrow> visit_state \<Rightarrow> (bool \<times> visit_state) option"
and visit_each :: "nat \<Rightarrow> skill_deps \<Rightarrow> string list \<Rightarrow> visit_state \<Rightarrow> (bool \<times> visit_state) option" where
  "visit fuel skillDeps skillId st =
     (if skillId \<in> vs_visited st then Some (True, st)
      else if skillId \<in> vs_visiting st then Some (False, st)
      else case fuel of
        0 \<Rightarrow> None
      | Suc fuel' \<Rightarrow>
          (case visit_each fuel' skillDeps (deps_of skillDeps skillId) (enter skillId st) of
             None \<Rightarrow> None
           | Some (False, st') \<Rightarrow> Some (False, st')
           | Some (True, st') \<Rightarrow> Some (True, leave skillId st')))"
| "visit_each fuel skillDeps [] st = Some (True, st)"
| "visit_each fuel skillDeps (dep # deps) st =
     (case visit fuel skillDeps dep st of
        None \<Rightarrow> None
      | Some (False, st') \<Rightarrow> Some (False, st')
      | Some (True, st') \<Rightarrow> visit_each fuel skillDeps deps st')"

declare visit.simps [simp del]

definition skill_ids :: "skill_deps \<Rightarrow> string list" where
  "skill_ids skillDeps = remdups (m_keys skillDeps @ concat (map (deps_of skillDeps) (m_keys skillDeps)))"

text \<open>The result of the code in the inner option; the outer one is the fuel.\<close>

definition resolveInstallOrder :: "skill_deps \<Rightarrow> string list option option" where
  "resolveInstallOrder skillDeps =
     (case visit_each (length (skill_ids skillDeps)) skillDeps (m_keys skillDeps)
             \<lparr>vs_visited = {}, vs_visiting = {}, vs_order = []\<rparr> of
        None \<Rightarrow> None
      | Some (ok, st) \<Rightarrow> Some (if ok then Some (vs_order st) else None))"

section \<open>The dependency graph\<close>

definition depends :: "skill_deps \<Rightarrow> (string \<times> string) set" where
  "depends skillDeps = {(x, d). d \<in> set (deps_of skillDeps x)}"

text \<open>An order lists each skill after all its dependencies.\<close>

definition installable :: "skill_deps \<Rightarrow> string list \<Rightarrow> bool" where
  "installable skillDeps order \<longleftrightarrow> distinct order
     \<and> (\<forall>us x vs. order = us @ x # vs \<longrightarrow> set (deps_of skillDeps x) \<subseteq> set us)"

definition visit_inv :: "skill_deps \<Rightarrow> visit_state \<Rightarrow> bool" where
  "visit_inv skillDeps st \<longleftrightarrow> installable skillDeps (vs_order st) \<and> set (vs_order st) = vs_visited st
     \<and> vs_visited st \<inter> vs_visiting st = {}"

section \<open>Lemmas\<close>

lemma deps_edge: "d \<in> set (deps_of m x) \<longleftrightarrow> (x, d) \<in> depends m"
  by (simp add: depends_def)

lemma installable_snoc:
  "installable m (order @ [x]) \<longleftrightarrow> installable m order \<and> x \<notin> set order \<and> set (deps_of m x) \<subseteq> set order"
proof -
  have "(\<forall>us y vs. order @ [x] = us @ y # vs \<longrightarrow> set (deps_of m y) \<subseteq> set us)
      \<longleftrightarrow> (\<forall>us y vs. order = us @ y # vs \<longrightarrow> set (deps_of m y) \<subseteq> set us) \<and> set (deps_of m x) \<subseteq> set order"
    (is "?l \<longleftrightarrow> ?r \<and> ?s")
  proof (intro iffI conjI)
    show "?r" if "?l"
    proof (intro allI impI)
      fix us y vs assume "order = us @ y # vs"
      then have "order @ [x] = us @ y # (vs @ [x])" by simp
      with that show "set (deps_of m y) \<subseteq> set us" by blast
    qed
    show "?s" if "?l" using that by blast
    show "?l" if "?r \<and> ?s"
    proof (intro allI impI)
      fix us y vs assume eq: "order @ [x] = us @ y # vs"
      show "set (deps_of m y) \<subseteq> set us"
      proof (cases vs rule: rev_cases)
        case Nil
        with eq that show ?thesis by simp
      next
        case (snoc vs' z)
        with eq have "order = us @ y # vs'" by simp
        with that show ?thesis by blast
      qed
    qed
  qed
  then show ?thesis by (auto simp: installable_def)
qed

text \<open>What a successful visit does: it returns to the same path, only adds to what is visited, and keeps the invariant.\<close>

definition extends :: "skill_deps \<Rightarrow> visit_state \<Rightarrow> visit_state \<Rightarrow> bool" where
  "extends m st st' \<longleftrightarrow> vs_visiting st' = vs_visiting st \<and> vs_visited st \<subseteq> vs_visited st' \<and> visit_inv m st'"

lemma leave_extends:
  assumes "extends m (enter x st) st'" and "x \<notin> vs_visited st" "x \<notin> vs_visiting st"
    and "set (deps_of m x) \<subseteq> vs_visited st'"
  shows "extends m st (leave x st')"
  using assms by (auto simp: extends_def enter_def leave_def visit_inv_def installable_snoc)

lemma visit_success:
  "visit fuel m x st = Some (True, st') \<Longrightarrow> visit_inv m st \<Longrightarrow> extends m st st' \<and> x \<in> vs_visited st'"
  "visit_each fuel m ds st = Some (True, st') \<Longrightarrow> visit_inv m st \<Longrightarrow> extends m st st' \<and> set ds \<subseteq> vs_visited st'"
proof (induction fuel m x st and fuel m ds st arbitrary: st' and st' rule: visit_visit_each.induct)
  case (1 fuel m x st)
  show ?case
  proof (cases "x \<in> vs_visited st")
    case True
    with "1.prems" show ?thesis by (simp add: extends_def visit.simps)
  next
    case False
    with "1.prems"(1) obtain fuel' st1 where path: "x \<notin> vs_visiting st" and fuel: "fuel = Suc fuel'"
        and rest: "visit_each fuel' m (deps_of m x) (enter x st) = Some (True, st1)" and st': "st' = leave x st1"
      by (auto simp: visit.simps split: if_splits nat.splits option.splits bool.splits)
    have "visit_inv m (enter x st)" using "1.prems"(2) False path by (auto simp: visit_inv_def enter_def)
    with "1.IH" [OF False path fuel rest] have "extends m (enter x st) st1" "set (deps_of m x) \<subseteq> vs_visited st1" by auto
    then show ?thesis using leave_extends False path st' by (auto simp: leave_def)
  qed
next
  case (3 fuel m d ds st)
  from "3.prems"(1) obtain st1 where st1: "visit fuel m d st = Some (True, st1)" and rest: "visit_each fuel m ds st1 = Some (True, st')"
    by (auto split: option.splits bool.splits)
  have one: "extends m st st1 \<and> d \<in> vs_visited st1" using "3.IH"(1) [OF st1 "3.prems"(2)] .
  then have "visit_inv m st1" by (simp add: extends_def)
  then have "extends m st1 st' \<and> set ds \<subseteq> vs_visited st'" using "3.IH"(2) [OF st1 refl refl rest] by simp
  with one show ?case by (auto simp: extends_def)
qed (simp add: extends_def)

text \<open>A failed visit has met a skill on the current path again, which closes a cycle.\<close>

lemma visit_failure:
  "visit fuel m x st = Some (False, st') \<Longrightarrow> visit_inv m st \<Longrightarrow> \<forall>p \<in> vs_visiting st. (p, x) \<in> (depends m)\<^sup>+ \<Longrightarrow>
     \<exists>y. (y, y) \<in> (depends m)\<^sup>+"
  "visit_each fuel m ds st = Some (False, st') \<Longrightarrow> visit_inv m st \<Longrightarrow>
     \<forall>d \<in> set ds. \<forall>p \<in> vs_visiting st. (p, d) \<in> (depends m)\<^sup>+ \<Longrightarrow> \<exists>y. (y, y) \<in> (depends m)\<^sup>+"
proof (induction fuel m x st and fuel m ds st arbitrary: st' and st' rule: visit_visit_each.induct)
  case (1 fuel m x st)
  show ?case
  proof (cases "x \<in> vs_visiting st")
    case True
    with "1.prems"(3) show ?thesis by blast
  next
    case False
    with "1.prems"(1) obtain fuel' where new: "x \<notin> vs_visited st" and fuel: "fuel = Suc fuel'"
        and rest: "visit_each fuel' m (deps_of m x) (enter x st) = Some (False, st')"
      by (auto simp: visit.simps split: if_splits nat.splits option.splits bool.splits)
    have "visit_inv m (enter x st)" using "1.prems"(2) False new by (auto simp: visit_inv_def enter_def)
    moreover have "(p, d) \<in> (depends m)\<^sup>+" if "d \<in> set (deps_of m x)" "p \<in> vs_visiting (enter x st)" for p d
      using that "1.prems"(3) by (auto simp: enter_def deps_edge intro: trancl_into_trancl)
    ultimately show ?thesis using "1.IH" [OF new False fuel rest] by blast
  qed
next
  case (3 fuel m d ds st)
  from "3.prems"(1) consider "visit fuel m d st = Some (False, st')"
    | st1 where "visit fuel m d st = Some (True, st1)" "visit_each fuel m ds st1 = Some (False, st')"
    by (auto split: option.splits bool.splits)
  then show ?case
  proof cases
    case 1
    from "3.IH"(1) [OF this "3.prems"(2)] "3.prems"(3) show ?thesis by simp
  next
    case 2
    have "extends m st st1" using visit_success(1) [OF 2(1) "3.prems"(2)] by simp
    then show ?thesis using "3.IH"(2) [OF 2(1) refl refl 2(2)] "3.prems"(3) by (simp add: extends_def)
  qed
qed simp

text \<open>The fuel is enough as long as it covers the skills that are not on the path.\<close>

lemma visit_fuel:
  "finite U \<Longrightarrow> x \<in> U \<Longrightarrow> (\<forall>y \<in> U. set (deps_of m y) \<subseteq> U) \<Longrightarrow> card (U - vs_visiting st) \<le> fuel \<Longrightarrow> visit_inv m st \<Longrightarrow>
     visit fuel m x st \<noteq> None"
  "finite U \<Longrightarrow> set ds \<subseteq> U \<Longrightarrow> (\<forall>y \<in> U. set (deps_of m y) \<subseteq> U) \<Longrightarrow> card (U - vs_visiting st) \<le> fuel \<Longrightarrow> visit_inv m st \<Longrightarrow>
     visit_each fuel m ds st \<noteq> None"
proof (induction fuel m x st and fuel m ds st rule: visit_visit_each.induct)
  case (1 fuel m x st)
  show ?case
  proof (cases "x \<in> vs_visited st \<or> x \<in> vs_visiting st")
    case True
    then show ?thesis by (auto simp: visit.simps)
  next
    case False
    have less: "card (U - insert x (vs_visiting st)) < card (U - vs_visiting st)"
      using "1.prems"(1,2) False by (intro psubset_card_mono) auto
    then obtain fuel' where fuel: "fuel = Suc fuel'" using "1.prems"(4) by (cases fuel) auto
    have "visit_inv m (enter x st)" using "1.prems"(5) False by (auto simp: visit_inv_def enter_def)
    moreover have "card (U - vs_visiting (enter x st)) \<le> fuel'" using less "1.prems"(4) fuel by (simp add: enter_def)
    moreover have "set (deps_of m x) \<subseteq> U" using "1.prems"(2,3) by blast
    ultimately have "visit_each fuel' m (deps_of m x) (enter x st) \<noteq> None"
      using "1.IH" [OF _ _ fuel] False "1.prems"(1,3) by blast
    then show ?thesis using False fuel by (auto simp: visit.simps split: bool.splits)
  qed
next
  case (3 fuel m d ds st)
  have "visit fuel m d st \<noteq> None" using "3.IH"(1) "3.prems" by simp
  moreover have "visit_each fuel m ds st1 \<noteq> None" if st1: "visit fuel m d st = Some (True, st1)" for st1
  proof -
    have "extends m st st1" using visit_success(1) [OF st1 "3.prems"(5)] by simp
    then show ?thesis using "3.IH"(2) [OF st1 refl refl] "3.prems" by (simp add: extends_def)
  qed
  ultimately show ?case by (auto split: option.splits bool.splits)
qed simp

text \<open>An order in which dependencies come first leaves no room for a cycle.\<close>

lemma installable_acyclic:
  assumes "installable m order" and "\<And>x. deps_of m x \<noteq> [] \<Longrightarrow> x \<in> set order"
  shows "acyclic (depends m)"
proof -
  have first_index: "z \<notin> set us \<Longrightarrow> length (takeWhile (\<lambda>y. y \<noteq> z) (us @ z # vs)) = length us" for z :: string and us vs
    by (induction us) auto
  have "(d, x) \<in> {(a, b). index_of a < index_of b}" if "(x, d) \<in> depends m" and
      index: "index_of = (\<lambda>z. length (takeWhile (\<lambda>y. y \<noteq> z) order))" for x d and index_of :: "string \<Rightarrow> nat"
  proof -
    have "deps_of m x \<noteq> []" using that(1) by (auto simp: depends_def)
    then have "x \<in> set order" by (rule assms(2))
    then obtain us vs where order: "order = us @ x # vs" by (metis split_list)
    have "d \<in> set us" using assms(1) order that(1) unfolding installable_def deps_edge [symmetric] by blast
    then obtain us1 us2 where us: "us = us1 @ d # us2" "d \<notin> set us1" by (metis split_list_first)
    have "x \<notin> set us" using assms(1) order by (auto simp: installable_def)
    then have "index_of x = length us" unfolding index order by (rule first_index)
    moreover have "index_of d = length us1" unfolding index order us(1) using first_index [OF us(2)] by simp
    ultimately show ?thesis using us(1) by simp
  qed
  then have "(depends m)\<inverse> \<subseteq> measure (\<lambda>z. length (takeWhile (\<lambda>y. y \<noteq> z) order))" by (auto simp: measure_def)
  then have "wf ((depends m)\<inverse>)" by (rule wf_subset [OF wf_measure])
  then show ?thesis using wf_acyclic acyclic_converse by blast
qed

section \<open>Properties\<close>

text \<open>
  C11. Installation order. The search always ends. It reports a cycle exactly when the dependency relation
  has one; otherwise the order it returns contains every skill of the map and every dependency, each exactly
  once, and each skill comes after all the skills it depends on.
\<close>

theorem install_order_correct:
  "\<exists>result. resolveInstallOrder skillDeps = Some result
    \<and> (result = None \<longleftrightarrow> \<not> acyclic (depends skillDeps))
    \<and> (case result of None \<Rightarrow> True
       | Some order \<Rightarrow> distinct order \<and> set (skill_ids skillDeps) \<subseteq> set order
           \<and> (\<forall>us x vs. order = us @ x # vs \<longrightarrow> set (deps_of skillDeps x) \<subseteq> set us))"
proof -
  let ?st = "\<lparr>vs_visited = {}, vs_visiting = {}, vs_order = []\<rparr>" and ?U = "set (skill_ids skillDeps)"
  have inv: "visit_inv skillDeps ?st" by (simp add: visit_inv_def installable_def)
  have key: "x \<in> set (m_keys skillDeps)" if "deps_of skillDeps x \<noteq> []" for x
    using that by (force simp: deps_of_def split: option.splits dest!: map_of_SomeD)
  have deps: "set (deps_of skillDeps x) \<subseteq> ?U" for x
    using key [of x] by (cases "deps_of skillDeps x = []") (auto simp: skill_ids_def)
  have card: "card ?U \<le> length (skill_ids skillDeps)" by (rule card_length)
  have keys: "set (m_keys skillDeps) \<subseteq> ?U" by (auto simp: skill_ids_def)
  have "visit_each (length (skill_ids skillDeps)) skillDeps (m_keys skillDeps) ?st \<noteq> None"
    using visit_fuel(2) [of ?U _ skillDeps ?st] keys deps card inv by simp
  then obtain ok st where run: "visit_each (length (skill_ids skillDeps)) skillDeps (m_keys skillDeps) ?st = Some (ok, st)"
    by auto
  show ?thesis
  proof (cases ok)
    case True
    with run have "extends skillDeps ?st st \<and> set (m_keys skillDeps) \<subseteq> vs_visited st"
      by (intro visit_success(2) [OF _ inv]) simp
    then have "installable skillDeps (vs_order st)" and sub: "set (m_keys skillDeps) \<subseteq> set (vs_order st)"
      by (simp_all add: extends_def visit_inv_def)
    have all: "deps_of skillDeps x \<noteq> [] \<Longrightarrow> x \<in> set (vs_order st)" for x
      using sub key by blast
    have "d \<in> set (vs_order st)" if "d \<in> set (deps_of skillDeps x)" for x d
      using all [of x] that \<open>installable skillDeps (vs_order st)\<close> split_list [of x "vs_order st"]
      by (fastforce simp: installable_def)
    then have "?U \<subseteq> set (vs_order st)" using sub by (auto simp: skill_ids_def)
    then show ?thesis
      using run True installable_acyclic [OF _ all] \<open>installable skillDeps (vs_order st)\<close>
      by (auto simp: resolveInstallOrder_def installable_def)
  next
    case False
    then have "\<exists>y. (y, y) \<in> (depends skillDeps)\<^sup>+" using visit_failure(2) [of _ _ _ ?st] run inv by simp
    with run False show ?thesis by (auto simp: resolveInstallOrder_def acyclic_def)
  qed
qed

theorem install_order_correct_witness:
  "resolveInstallOrder [(''web'', [''db'', ''log'']), (''db'', [''log''])] = Some (Some [''log'', ''db'', ''web''])
   \<and> acyclic (depends [(''web'', [''db'', ''log'']), (''db'', [''log''])])"
proof -
  have "resolveInstallOrder [(''web'', [''db'', ''log'']), (''db'', [''log''])] = Some (Some [''log'', ''db'', ''web''])"
    by code_simp
  then show ?thesis using install_order_correct [of "[(''web'', [''db'', ''log'']), (''db'', [''log''])]"] by auto
qed

end
