(* ===== verification/Spec2Isabelle.thy ===== *)
theory Spec2Isabelle
  imports Mcp_Proxy Audit_Log Inbox_Api Vault Registry Skill_Health Registry_Sync Task_Executor Boot_Relearn Onboarding Cert_Issuance Token_Store Task_Manager Execution_State Capability_Activation Approvals Replay_Wake Task_Queue Rate_Limit Circuit_Breaker Discovery_Policy Session_Checkout Skill_Deps Message_Endpoint
begin

text \<open>
  \<^bold>\<open>Verification of thinklocal-mcp.\<close>

  The program is a daemon (\<open>src/packages/daemon/src\<close>, TypeScript) that joins nodes of a local network into a mesh and
  lets their agents exchange messages, share skills and call the MCP servers of other nodes. This library models
  the parts of the daemon that decide: who a peer is, whose message is let in, which call needs an approval, what a
  stored record may become. Each theory opens with the source files it models and what is an argument there.

  \<^bold>\<open>How the parts interact.\<close> A peer is found by discovery and becomes an object of the mesh manager (\<open>Mesh\<close>); a
  certificate of a pinned issuer attests its identity (\<open>Identity\<close>). A signed message (\<open>Signed_Order\<close>) arrives at the
  route \<open>/message\<close> (\<open>Message_Endpoint\<close>), which authorises the channel, binds the attested identity tentatively in
  the mesh, resolves the sender's key there, verifies the signature, asks the replay guard (\<open>Replay_Wake\<close>) and hands
  the message to \<open>onMessage\<close>, which asks the rate limiter (\<open>Rate_Limit\<close>) and the pairing store (\<open>Pairing\<close>) and fills
  the inbox (\<open>Agent_Inbox\<close>). A call of an MCP server enters by the ingress (\<open>Mcp_Ingress\<close>, \<open>Mcp_Proxy\<close>): its execution
  tier comes from the service registry (\<open>Mcp_Tiers\<close>), its route from the capabilities (\<open>Mcp_Routing\<close>), and a call
  that writes needs an answer of an operator channel (\<open>Meldekanal\<close>) that the approval matrix selects
  (\<open>Freigabe_Matrix\<close>). Tokens, tasks, approvals, capabilities, branch locks and executions are records with a life
  cycle of their own.

  \<^bold>\<open>Theories and sources.\<close>
    \<^item> \<open>Prelude\<close>: JavaScript maps as association lists in insertion order (\<open>m_get\<close>, \<open>m_set\<close>, \<open>m_del\<close>), text functions,
      JSON values, database tables, and two contracts: \<open>lifecycle\<close> (records that move along an acyclic relation
      of states) and \<open>window_gate\<close> (a gate that lets one event per key and time window through). Their
      interpretations are in the theories of the components: tasks, executions, capabilities, approvals and inbox
      rows are life cycles, the replay guard and the wake coalescer are window gates. A third contract,
      \<open>channel_bound_approver\<close> in \<open>Meldekanal\<close>, is what the approval router asks of the channel registry.
    \<^item> \<open>Mcp_Tiers\<close> (\<open>mcp-service-registry.ts\<close>), \<open>Mcp_Routing\<close> (\<open>mcp-routing.ts\<close>, \<open>mcp-forward.ts\<close>,
      \<open>mcp-forward-dispatch.ts\<close>), \<open>Meldekanal\<close> (\<open>meldekanal.ts\<close>), \<open>Freigabe_Matrix\<close> (\<open>freigabe-matrix.ts\<close>,
      \<open>approval-router.ts\<close>), \<open>Mcp_Ingress\<close> (\<open>mcp-ingress.ts\<close>), \<open>Mcp_Proxy\<close> (\<open>mcp-ingress-api.ts\<close>,
      \<open>mcp-forward-exec.ts\<close>, \<open>mcp-forward-executor.ts\<close>): the way of an MCP call. The lemmas show that nothing that
      writes runs without an approval, that a destructive tool needs consensus, that a forward goes once and only to
      a pinned HTTPS endpoint.
    \<^item> \<open>Identity\<close> (\<open>spiffe-uri.ts\<close>, \<open>peer-identity.ts\<close>), \<open>Mesh\<close> (\<open>mesh.ts\<close>), \<open>Signed_Order\<close> (\<open>messages.ts\<close>,
      \<open>signed-order.ts\<close>), \<open>Pairing\<close> (\<open>pairing.ts\<close>, \<open>pairing-handler.ts\<close>), \<open>Message_Endpoint\<close> (the route of
      \<open>agent-card.ts\<close>, \<open>inbound-peer-learner.ts\<close>, \<open>onMessage\<close> of \<open>index.ts\<close>), \<open>Agent_Inbox\<close> (\<open>agent-inbox.ts\<close> and its case
      of \<open>onMessage\<close>), \<open>Replay_Wake\<close> (\<open>replay.ts\<close>, \<open>wake-contract.ts\<close>), \<open>Rate_Limit\<close> (\<open>ratelimit.ts\<close>): the way of a
      message. The peers of the mesh are mutable objects shared by the map, the health check and a pending rollback;
      they live in a store addressed by index.
    \<^item> \<open>Token_Store\<close>, \<open>Task_Manager\<close>, \<open>Execution_State\<close>, \<open>Capability_Activation\<close>, \<open>Approvals\<close>, \<open>Task_Queue\<close>,
      \<open>Circuit_Breaker\<close>, \<open>Session_Checkout\<close>, \<open>Skill_Deps\<close>, \<open>Discovery_Policy\<close>: one component each, named like its
      source.
    \<^item> \<open>Agent_Registry\<close> (\<open>agent-registry.ts\<close>, \<open>agent-api.ts\<close>), \<open>Inbox_Api\<close> (\<open>inbox-api.ts\<close>): the agents of this host, their
      heartbeats and the sweep, and the routes by which they send. The daemon signs only for a local caller and to a
      paired receiver.
    \<^item> \<open>Registry\<close> (\<open>registry.ts\<close>, \<open>skills.ts\<close>, \<open>gossip.ts\<close>), \<open>Skill_Health\<close> (\<open>skill-health-monitor.ts\<close>): the replicated
      capabilities, the gated import from a peer, routing by health and availability, and the monitor that sets the
      availability of this node's skills.
    \<^item> \<open>Registry_Sync\<close> (\<open>registry-sync-protocol.ts\<close>, \<open>registry-sync-coordinator.ts\<close>, the handler of
      \<open>registry-sync-libp2p-adapter.ts\<close>): frames and rounds of the anti-entropy. The lemmas show what the generations of
      the entries protect, and four runs in which they do not.
    \<^item> \<open>Task_Executor\<close> (\<open>task-executor.ts\<close>, \<open>resource-metrics.ts\<close>, one route of \<open>dashboard-api.ts\<close>): admission by load and
      the execution of a task, over \<open>Task_Manager\<close>.
    \<^item> \<open>Boot_Relearn\<close> (\<open>peer-cache.ts\<close>, \<open>boot-relearn.ts\<close>, their wiring in \<open>index.ts\<close>): the file of peer locators, what a load
      takes from it, and the pinned relearning of its peers after a restart, which dials allowed addresses alone (the
      state records the dials) and gives keys, never approval. One lemma shows what a flush and a load lose.
    \<^item> \<open>Onboarding\<close> (\<open>token-api.ts\<close>, \<open>trust-store.ts\<close>), \<open>Cert_Issuance\<close> (\<open>cert-pop.ts\<close>, \<open>cert-issuer.ts\<close>,
      \<open>cert-issuance-api.ts\<close>): the two ways to a certificate. A token admits one node, a nonce buys one certificate, and
      the certificate's only URI is that of the PeerID whose key signed for it; its host name is the applicant's word.
      The runs of the pairing and the token routes over their common store are here too: nobody gets into it without the
      PIN or a token.
    \<^item> \<open>Vault\<close> (\<open>vault.ts\<close>): credentials, their approvals and sealed release; the answer of
      \<open>onMessage\<close> to a secret request is refined by it. \<open>Audit_Log\<close> (\<open>audit.ts\<close>): the hash chain of the daemon's events
      and the events taken over from peers.

  \<^bold>\<open>Conventions.\<close> The clock, random values and identifiers are arguments, and so
  is the local calendar (\<open>iv_after_days\<close> of \<open>Cert_Issuance\<close>). Errors that the code throws or returns are
  values (sums and options). Points in time are epoch milliseconds. Cryptography, codecs, the URL parser of the host
  and third-party libraries are arguments of the definitions; what the code relies on in them is a named hypothesis
  of the theorem that needs it. Handlers that do not wait are atomic steps; where the code waits, the model has one
  operation per piece, and the theorems quantify over their sequences.

  \<^bold>\<open>Bounds and fuel.\<close> The depth-first search of \<open>Skill_Deps\<close> runs on fuel, the number of known skills, which is
  proved to be enough. Decimal printing (\<open>Message_Endpoint\<close>) has the number itself as fuel. All other recursions are
  structural or have a measure.

  \<^bold>\<open>Not modelled.\<close> The HTTP, WebSocket, GraphQL, libp2p and TLS transports, the certificate generation of
  node-forge (\<open>tls.ts\<close>), the process sandbox's use of the operating system, the command line client and the dashboard
  are input and output around the modelled decisions. Numbers are unbounded integers or rationals; the rounding of
  doubles is not modelled. SQLite's rows of equal sort key come in table order. Text is a list of characters of one
  byte; a text outside that range is not represented.
\<close>

end
